(* ===== verification/Rust_Text.thy ===== *)
theory Rust_Text
  imports Prelude "HOL-Library.Sublist" "HOL-Library.Char_ord"
begin

text \<open>
  The string operations of Rust's standard library that the controller uses. A \<open>str\<close>
  is the list of its code points below 256, so ASCII text is exact and the two non-ASCII
  whitespace characters of that range (U+0085, U+00A0) behave as \<open>char::is_whitespace\<close>
  says. Decimal parsing follows \<open>from_str_radix\<close> (an optional leading plus sign, an error
  on the empty string and on overflow), addresses follow \<open>core::net::parser\<close>.
\<close>

named_theorems text_simps \<open>evaluation of the text operations on rendered text\<close>

subsection \<open>Characters\<close>

definition code :: "char \<Rightarrow> nat" where
  "code c = of_char c"

definition is_ws :: "char \<Rightarrow> bool" where
  "is_ws c = (let n = code c in (9 \<le> n \<and> n \<le> 13) \<or> n = 32 \<or> n = 133 \<or> n = 160)"

definition is_digit :: "char \<Rightarrow> bool" where
  "is_digit c = (let n = code c in 48 \<le> n \<and> n \<le> 57)"

definition is_ascii_alphanumeric :: "char \<Rightarrow> bool" where
  "is_ascii_alphanumeric c = (let n = code c in
     (48 \<le> n \<and> n \<le> 57) \<or> (65 \<le> n \<and> n \<le> 90) \<or> (97 \<le> n \<and> n \<le> 122))"

definition is_ascii_control :: "char \<Rightarrow> bool" where
  "is_ascii_control c = (let n = code c in n < 32 \<or> n = 127)"

text \<open>\<open>char::to_lowercase\<close> on the code points below 256 (the multiplication sign U+00D7
  has no case).\<close>

definition to_lower :: "char \<Rightarrow> char" where
  "to_lower c = (let n = code c in
     if (65 \<le> n \<and> n \<le> 90) \<or> (192 \<le> n \<and> n \<le> 222 \<and> n \<noteq> 215) then char_of (n + 32) else c)"

definition to_ascii_lower :: "char \<Rightarrow> char" where
  "to_ascii_lower c = (let n = code c in if 65 \<le> n \<and> n \<le> 90 then char_of (n + 32) else c)"

definition to_lowercase :: "string \<Rightarrow> string" where
  "to_lowercase s = map to_lower s"

definition to_ascii_lowercase :: "string \<Rightarrow> string" where
  "to_ascii_lowercase s = map to_ascii_lower s"

definition newline :: char where
  "newline = CHR 0x0A"

definition carriage_return :: char where
  "carriage_return = CHR 0x0D"

subsection \<open>Trimming, splitting, prefixes\<close>

definition trim_start :: "string \<Rightarrow> string" where
  "trim_start s = dropWhile is_ws s"

definition trim_end :: "string \<Rightarrow> string" where
  "trim_end s = rev (dropWhile is_ws (rev s))"

definition trim :: "string \<Rightarrow> string" where
  "trim s = trim_end (trim_start s)"

text \<open>\<open>str::lines\<close>: a final line terminator opens no further line, and one carriage
  return is removed only in front of a line feed.\<close>

fun lines_from :: "string \<Rightarrow> string \<Rightarrow> string list" where
  "lines_from acc [] = (if acc = [] then [] else [rev acc])"
| "lines_from acc (c # cs) =
     (if c = newline
      then (case acc of
              [] \<Rightarrow> []
            | a # rest \<Rightarrow> (if a = carriage_return then rev rest else rev acc)) # lines_from [] cs
      else lines_from (c # acc) cs)"

definition lines :: "string \<Rightarrow> string list" where
  "lines s = lines_from [] s"

fun words_from :: "string \<Rightarrow> string \<Rightarrow> string list" where
  "words_from acc [] = (if acc = [] then [] else [rev acc])"
| "words_from acc (c # cs) =
     (if is_ws c then (if acc = [] then words_from [] cs else rev acc # words_from [] cs)
      else words_from (c # acc) cs)"

definition split_whitespace :: "string \<Rightarrow> string list" where
  "split_whitespace s = words_from [] s"

fun strip_prefix :: "string \<Rightarrow> string \<Rightarrow> string option" where
  "strip_prefix [] s = Some s"
| "strip_prefix (p # ps) [] = None"
| "strip_prefix (p # ps) (c # cs) = (if p = c then strip_prefix ps cs else None)"

definition strip_suffix :: "string \<Rightarrow> string \<Rightarrow> string option" where
  "strip_suffix p s = map_option rev (strip_prefix (rev p) (rev s))"

definition starts_with :: "string \<Rightarrow> string \<Rightarrow> bool" where
  "starts_with p s = (strip_prefix p s \<noteq> None)"

definition ends_with :: "string \<Rightarrow> string \<Rightarrow> bool" where
  "ends_with p s = (strip_suffix p s \<noteq> None)"

fun contains :: "string \<Rightarrow> string \<Rightarrow> bool" where
  "contains p [] = (p = [])"
| "contains p (c # cs) = (starts_with p (c # cs) \<or> contains p cs)"

fun split_once :: "char \<Rightarrow> string \<Rightarrow> (string \<times> string) option" where
  "split_once d [] = None"
| "split_once d (c # cs) =
     (if c = d then Some ([], cs)
      else (case split_once d cs of None \<Rightarrow> None | Some (a, b) \<Rightarrow> Some (c # a, b)))"

fun split_char :: "char \<Rightarrow> string \<Rightarrow> string list" where
  "split_char d s =
     (case split_once d s of None \<Rightarrow> [s] | Some (a, b) \<Rightarrow> a # (if length b < length s then split_char d b else []))"

declare split_char.simps [simp del]

fun join :: "string \<Rightarrow> string list \<Rightarrow> string" where
  "join sep [] = []"
| "join sep [x] = x"
| "join sep (x # y # xs) = x @ sep @ join sep (y # xs)"

subsection \<open>Integers\<close>

fun digits_value :: "nat \<Rightarrow> string \<Rightarrow> nat option" where
  "digits_value acc [] = Some acc"
| "digits_value acc (c # cs) =
     (if is_digit c then digits_value (10 * acc + (code c - 48)) cs else None)"

text \<open>\<open>str::parse\<close> at an unsigned width. Rust checks for overflow after every digit, which
  fails exactly when the whole value does not fit.\<close>

definition parse_uint :: "string \<Rightarrow> 'a::len word option" where
  "parse_uint s =
     (let body = (case s of [] \<Rightarrow> [] | c # cs \<Rightarrow> if c = CHR ''+'' then cs else s)
      in if body = [] then None
         else (case digits_value 0 body of
                 None \<Rightarrow> None
               | Some n \<Rightarrow> if n < 2 ^ LENGTH('a) then Some (of_nat n) else None))"

definition digit_char :: "nat \<Rightarrow> char" where
  "digit_char n = char_of (48 + n)"

fun show_nat :: "nat \<Rightarrow> string" where
  "show_nat n = (if n < 10 then [digit_char n] else show_nat (n div 10) @ [digit_char (n mod 10)])"

declare show_nat.simps [simp del]

definition show_word :: "'a::len word \<Rightarrow> string" where
  "show_word w = show_nat (unat w)"


subsection \<open>Network addresses\<close>

datatype ipv4 = Ipv4 u8 u8 u8 u8

text \<open>An IPv6 address is its sixteen octets.\<close>

datatype ipv6 = Ipv6 "u8 list"

datatype ip_addr = V4 ipv4 | V6 ipv6

fun octets4 :: "ipv4 \<Rightarrow> u8 list" where
  "octets4 (Ipv4 a b c d) = [a, b, c, d]"

text \<open>\<open>u32::from(Ipv4Addr)\<close>: the octets in network order.\<close>

fun u32_of_ipv4 :: "ipv4 \<Rightarrow> u32" where
  "u32_of_ipv4 (Ipv4 a b c d) =
     of_nat (((unat a * 256 + unat b) * 256 + unat c) * 256 + unat d)"

fun read_char :: "char \<Rightarrow> string \<Rightarrow> string option" where
  "read_char d [] = None"
| "read_char d (c # cs) = (if c = d then Some cs else None)"

text \<open>\<open>read_number\<close> for a decimal octet: at most three digits, no leading zero.\<close>

fun read_dec :: "nat \<Rightarrow> nat \<Rightarrow> string \<Rightarrow> (nat \<times> nat \<times> string) option" where
  "read_dec n v [] = Some (n, v, [])"
| "read_dec n v (c # cs) =
     (if is_digit c
      then (let v' = 10 * v + (code c - 48) in
            if 255 < v' then None else if 3 < n + 1 then None else read_dec (n + 1) v' cs)
      else Some (n, v, c # cs))"

definition read_octet :: "string \<Rightarrow> (u8 \<times> string) option" where
  "read_octet s = (case read_dec 0 0 s of
     None \<Rightarrow> None
   | Some (n, v, rest) \<Rightarrow>
       if n = 0 then None
       else if 1 < n \<and> starts_with ''0'' s then None
       else Some (of_nat v, rest))"

definition read_ipv4 :: "string \<Rightarrow> (ipv4 \<times> string) option" where
  "read_ipv4 s = do {
     (a, s) \<leftarrow> read_octet s;
     s \<leftarrow> read_char (CHR ''.'') s;
     (b, s) \<leftarrow> read_octet s;
     s \<leftarrow> read_char (CHR ''.'') s;
     (c, s) \<leftarrow> read_octet s;
     s \<leftarrow> read_char (CHR ''.'') s;
     (d, s) \<leftarrow> read_octet s;
     Some (Ipv4 a b c d, s)
   }"

definition parse_ipv4 :: "string \<Rightarrow> ipv4 option" where
  "parse_ipv4 s =
     (if 15 < length s then None
      else (case read_ipv4 s of Some (ip, []) \<Rightarrow> Some ip | _ \<Rightarrow> None))"

definition hex_digit :: "char \<Rightarrow> nat option" where
  "hex_digit c = (let n = code c in
     if 48 \<le> n \<and> n \<le> 57 then Some (n - 48)
     else if 97 \<le> n \<and> n \<le> 102 then Some (n - 87)
     else if 65 \<le> n \<and> n \<le> 70 then Some (n - 55)
     else None)"

fun read_hex :: "nat \<Rightarrow> nat \<Rightarrow> string \<Rightarrow> (nat \<times> nat \<times> string) option" where
  "read_hex n v [] = Some (n, v, [])"
| "read_hex n v (c # cs) =
     (case hex_digit c of
        None \<Rightarrow> Some (n, v, c # cs)
      | Some d \<Rightarrow> if 4 < n + 1 then None else read_hex (n + 1) (16 * v + d) cs)"

definition read_group :: "string \<Rightarrow> (u16 \<times> string) option" where
  "read_group s = (case read_hex 0 0 s of
     None \<Rightarrow> None
   | Some (n, v, rest) \<Rightarrow> if n = 0 then None else Some (of_nat v, rest))"

definition read_separator :: "nat \<Rightarrow> (string \<Rightarrow> ('a \<times> string) option) \<Rightarrow> string \<Rightarrow> ('a \<times> string) option" where
  "read_separator i p s =
     (if 0 < i then (case read_char (CHR '':'') s of None \<Rightarrow> None | Some s' \<Rightarrow> p s') else p s)"

text \<open>\<open>read_groups\<close>: up to the given number of 16-bit groups; an embedded IPv4 address may
  end the run while at least two groups are left.\<close>

fun read_groups :: "nat \<Rightarrow> nat \<Rightarrow> string \<Rightarrow> u16 list \<times> bool \<times> string" where
  "read_groups 0 i s = ([], False, s)"
| "read_groups (Suc k) i s =
     (case (if 0 < k then read_separator i read_ipv4 s else None) of
        Some (Ipv4 a b c d, s') \<Rightarrow>
          ([of_nat (unat a * 256 + unat b), of_nat (unat c * 256 + unat d)], True, s')
      | None \<Rightarrow>
          (case read_separator i read_group s of
             Some (g, s') \<Rightarrow> (let (gs, v4, s'') = read_groups k (Suc i) s' in (g # gs, v4, s''))
           | None \<Rightarrow> ([], False, s)))"

definition read_ipv6 :: "string \<Rightarrow> (u16 list \<times> string) option" where
  "read_ipv6 s = (let (head, v4, s1) = read_groups 8 0 s in
     if length head = 8 then Some (head, s1)
     else if v4 then None
     else do {
       s2 \<leftarrow> read_char (CHR '':'') s1;
       s3 \<leftarrow> read_char (CHR '':'') s2;
       let (tail, _, s4) = read_groups (8 - (length head + 1)) 0 s3;
       Some (head @ replicate (8 - length head - length tail) 0 @ tail, s4)
     })"

definition octets_of_segments :: "u16 list \<Rightarrow> u8 list" where
  "octets_of_segments gs =
     concat (map (\<lambda>g. [of_nat (unat g div 256), of_nat (unat g mod 256)]) gs)"

definition parse_ipv6 :: "string \<Rightarrow> ipv6 option" where
  "parse_ipv6 s =
     (case read_ipv6 s of Some (gs, []) \<Rightarrow> Some (Ipv6 (octets_of_segments gs)) | _ \<Rightarrow> None)"

definition parse_ip :: "string \<Rightarrow> ip_addr option" where
  "parse_ip s = (case parse_ipv4 s of
     Some ip \<Rightarrow> Some (V4 ip)
   | None \<Rightarrow> (case parse_ipv6 s of Some ip \<Rightarrow> Some (V6 ip) | None \<Rightarrow> None))"

fun show_ipv4 :: "ipv4 \<Rightarrow> string" where
  "show_ipv4 (Ipv4 a b c d) =
     show_word a @ ''.'' @ show_word b @ ''.'' @ show_word c @ ''.'' @ show_word d"


lemma digit_char_eval:
  "digit_char 0 = CHR ''0''" "digit_char 1 = CHR ''1''" "digit_char (Suc 0) = CHR ''1''"
  "digit_char 2 = CHR ''2''"
  "digit_char 3 = CHR ''3''" "digit_char 4 = CHR ''4''" "digit_char 5 = CHR ''5''"
  "digit_char 6 = CHR ''6''" "digit_char 7 = CHR ''7''" "digit_char 8 = CHR ''8''"
  "digit_char 9 = CHR ''9''"
  by code_simp+

lemmas text_eval = code_def is_ws_def is_digit_def is_ascii_alphanumeric_def is_ascii_control_def
  to_lower_def to_lowercase_def to_ascii_lower_def to_ascii_lowercase_def newline_def
  carriage_return_def trim_def trim_start_def trim_end_def lines_def split_whitespace_def
  strip_suffix_def starts_with_def ends_with_def parse_uint_def digit_char_eval show_word_def
  read_octet_def read_ipv4_def parse_ipv4_def hex_digit_def read_group_def read_separator_def
  read_ipv6_def octets_of_segments_def parse_ipv6_def parse_ip_def

subsection \<open>Decimal round trips\<close>

lemma code_digit_char [simp]: "n < 10 \<Longrightarrow> code (digit_char n) = 48 + n"
  by (simp add: code_def digit_char_def of_char_of)

lemma is_digit_digit_char [simp]: "n < 10 \<Longrightarrow> is_digit (digit_char n)"
  by (simp add: is_digit_def)

lemma is_digit_not_ws: "is_digit c \<Longrightarrow> \<not> is_ws c"
  by (auto simp: is_digit_def is_ws_def Let_def)

lemma show_nat_nonempty [simp]: "show_nat n \<noteq> []"
  by (subst show_nat.simps) simp

lemma show_nat_digits: "c \<in> set (show_nat n) \<Longrightarrow> is_digit c"
proof (induction n rule: show_nat.induct)
  case (1 n)
  show ?case
  proof (cases "n < 10")
    case True
    with "1.prems" show ?thesis by (simp add: show_nat.simps [of n])
  next
    case False
    with "1.prems" "1.IH" show ?thesis by (auto simp: show_nat.simps [of n])
  qed
qed

lemma digits_value_append:
  "digits_value acc (xs @ ys) =
     (case digits_value acc xs of None \<Rightarrow> None | Some v \<Rightarrow> digits_value v ys)"
  by (induction xs arbitrary: acc) auto

lemma digits_value_show_nat: "digits_value 0 (show_nat n) = Some n"
proof (induction n rule: show_nat.induct)
  case (1 n)
  show ?case
  proof (cases "n < 10")
    case True
    then show ?thesis by (simp add: show_nat.simps [of n])
  next
    case False
    with "1.IH" show ?thesis by (simp add: show_nat.simps [of n] digits_value_append)
  qed
qed

lemma show_nat_Cons: "show_nat n = c # cs \<Longrightarrow> is_digit c"
  using show_nat_digits [of c n] by simp

lemma is_digit_not_plus: "is_digit c \<Longrightarrow> c \<noteq> CHR ''+''"
  by (auto simp: is_digit_def code_def)

lemma parse_uint_show_word [text_simps, simp]: "parse_uint (show_word w) = Some (w :: 'a::len word)"
proof -
  obtain c cs where sh: "show_nat (unat w) = c # cs"
    by (cases "show_nat (unat w)") auto
  then have "c \<noteq> CHR ''+''" by (intro is_digit_not_plus show_nat_Cons)
  moreover have "digits_value 0 (c # cs) = Some (unat w)"
    by (simp only: digits_value_show_nat flip: sh)
  moreover have "unat w < 2 ^ LENGTH('a)" by (rule unsigned_less)
  ultimately show ?thesis
    by (simp add: parse_uint_def show_word_def sh del: digits_value.simps)
qed

lemma show_word_nonempty [simp]: "show_word w \<noteq> []"
  by (simp add: show_word_def)

lemma show_word_digits: "c \<in> set (show_word w) \<Longrightarrow> is_digit c"
  by (simp add: show_word_def show_nat_digits)

text \<open>A decimal octet followed by anything but a digit is read back exactly.\<close>

definition no_digit_start :: "string \<Rightarrow> bool" where
  "no_digit_start s = (case s of [] \<Rightarrow> True | c # _ \<Rightarrow> \<not> is_digit c)"

lemma read_dec_stop: "no_digit_start r \<Longrightarrow> read_dec n v r = Some (n, v, r)"
  by (cases r) (simp_all add: no_digit_start_def)

lemma starts_with_zero_digit [simp]: "n < 10 \<Longrightarrow> starts_with ''0'' (digit_char n # r) \<longleftrightarrow> n = 0"
proof -
  assume n: "n < 10"
  have "CHR ''0'' = digit_char n \<longleftrightarrow> n = 0"
  proof
    assume "CHR ''0'' = digit_char n"
    then have "code (CHR ''0'') = code (digit_char n)" by simp
    with n show "n = 0" by (simp add: code_def digit_char_def of_char_of)
  next
    assume "n = 0"
    moreover have "digit_char 0 = CHR ''0''" by code_simp
    ultimately show "CHR ''0'' = digit_char n" by simp
  qed
  then show ?thesis by (simp add: starts_with_def)
qed

lemma show_nat_1: "n < 10 \<Longrightarrow> show_nat n = [digit_char n]"
  by (subst show_nat.simps) simp

lemma show_nat_2:
  "10 \<le> n \<Longrightarrow> n < 100 \<Longrightarrow> show_nat n = [digit_char (n div 10), digit_char (n mod 10)]"
  by (subst show_nat.simps) (simp add: show_nat_1)

lemma show_nat_3:
  "100 \<le> n \<Longrightarrow> n < 1000 \<Longrightarrow>
   show_nat n = [digit_char (n div 100), digit_char (n div 10 mod 10), digit_char (n mod 10)]"
  by (subst show_nat.simps) (simp add: show_nat_2 div_mult2_eq [symmetric])

lemma two_of_three_digits: "10 * (n div 100) + n div 10 mod 10 = (n :: nat) div 10"
proof -
  have "n div 100 = n div 10 div 10" by (simp add: div_mult2_eq [symmetric])
  then show ?thesis by simp
qed

lemma three_digits: "10 * (10 * (n div 100) + n div 10 mod 10) + n mod 10 = (n :: nat)"
  by (simp add: two_of_three_digits)

lemma read_octet_show:
  assumes "no_digit_start r"
  shows "read_octet (show_word a @ r) = Some (a, r)"
proof -
  have lt: "unat a < 256" using unsigned_less [of a] by simp
  consider "unat a < 10" | "10 \<le> unat a" "unat a < 100" | "100 \<le> unat a" by linarith
  then show ?thesis
  proof cases
    case 1
    then show ?thesis
      using assms by (simp add: read_octet_def show_word_def show_nat_1 read_dec_stop Let_def)
  next
    case 2
    then have "10 * (unat a div 10) + unat a mod 10 = unat a" "unat a div 10 \<noteq> 0"
      by simp_all
    with 2 show ?thesis
      using assms by (simp add: read_octet_def show_word_def show_nat_2 read_dec_stop Let_def)
  next
    case 3
    have "10 * (10 * (unat a div 100) + unat a div 10 mod 10) + unat a mod 10 = unat a"
      by (rule three_digits)
    moreover from 3 have "unat a div 100 \<noteq> 0" by simp
    moreover have "10 * (unat a div 100) + unat a div 10 mod 10 \<le> 25"
      using lt by (simp add: two_of_three_digits)
    moreover have "unat a div 100 < 10" using lt by simp
    ultimately show ?thesis
      using assms 3 lt
      by (simp add: read_octet_def show_word_def show_nat_3 read_dec_stop Let_def)
  qed
qed

lemma no_digit_start_dot [simp]: "no_digit_start (CHR ''.'' # r)" "no_digit_start []"
  by (simp_all add: no_digit_start_def is_digit_def code_def)

lemma read_ipv4_show: "no_digit_start r \<Longrightarrow> read_ipv4 (show_ipv4 ip @ r) = Some (ip, r)"
  by (cases ip) (simp add: read_ipv4_def read_octet_show)

lemma length_show_octet: "length (show_word (a :: u8)) \<le> 3"
proof -
  have "unat a < 256" using unsigned_less [of a] by simp
  then consider "unat a < 10" | "10 \<le> unat a" "unat a < 100" | "100 \<le> unat a" "unat a < 1000"
    by linarith
  then show ?thesis
    by cases (simp_all add: show_word_def show_nat_1 show_nat_2 show_nat_3)
qed

lemma length_show_ipv4: "length (show_ipv4 ip) \<le> 15"
proof (cases ip)
  case (Ipv4 a b c d)
  then show ?thesis
    using length_show_octet [of a] length_show_octet [of b] length_show_octet [of c]
      length_show_octet [of d] by simp
qed

lemma parse_ipv4_show [text_simps, simp]: "parse_ipv4 (show_ipv4 ip) = Some ip"
  using read_ipv4_show [of "[]" ip] length_show_ipv4 [of ip] by (simp add: parse_ipv4_def)

lemma show_ipv4_chars: "c \<in> set (show_ipv4 ip) \<Longrightarrow> is_digit c \<or> c = CHR ''.''"
  by (cases ip) (auto dest: show_word_digits)

lemma show_ipv4_nonempty [simp]: "show_ipv4 ip \<noteq> []"
  by (cases ip) simp

subsection \<open>Tokens\<close>

definition is_token :: "string \<Rightarrow> bool" where
  "is_token t = (t \<noteq> [] \<and> (\<forall>c \<in> set t. \<not> is_ws c))"

lemma is_ws_space [simp]: "is_ws (CHR '' '')"
  by (simp add: is_ws_def code_def)

lemma words_from_token:
  "(\<forall>c \<in> set t. \<not> is_ws c) \<Longrightarrow> words_from acc (t @ r) = words_from (rev t @ acc) r"
  by (induction t arbitrary: acc) auto

lemma words_from_join: "\<forall>t \<in> set ts. is_token t \<Longrightarrow> words_from [] (join '' '' ts) = ts"
proof (induction ts)
  case Nil
  then show ?case by simp
next
  case (Cons x ts)
  then have x: "x \<noteq> []" "\<forall>c \<in> set x. \<not> is_ws c" by (simp_all add: is_token_def)
  show ?case
  proof (cases ts)
    case Nil
    with x show ?thesis using words_from_token [of x "[]" "[]"] by simp
  next
    case (Cons y ys)
    with x Cons.IH Cons.prems show ?thesis
      using words_from_token [of x "[]" "'' '' @ join '' '' (y # ys)"] by simp
  qed
qed

lemma split_whitespace_join: "\<forall>t \<in> set ts. is_token t \<Longrightarrow> split_whitespace (join '' '' ts) = ts"
  by (simp add: split_whitespace_def words_from_join)

lemma words_from_tokens:
  "t \<in> set (words_from acc s) \<Longrightarrow> \<forall>c \<in> set acc. \<not> is_ws c \<Longrightarrow> is_token t"
proof (induction s arbitrary: acc)
  case Nil
  then show ?case by (cases "acc = []") (simp_all add: is_token_def)
next
  case (Cons c s)
  consider "is_ws c" "acc = []" | "is_ws c" "acc \<noteq> []" | "\<not> is_ws c" by blast
  then show ?case
  proof cases
    case 1
    with Cons.IH [of "[]"] Cons.prems(1) show ?thesis by simp
  next
    case 2
    with Cons.prems have "t = rev acc \<or> t \<in> set (words_from [] s)" by simp
    with 2 Cons.IH [of "[]"] Cons.prems(2) show ?thesis by (auto simp: is_token_def)
  next
    case 3
    with Cons.IH [of "c # acc"] Cons.prems show ?thesis by simp
  qed
qed

lemma split_whitespace_tokens: "t \<in> set (split_whitespace s) \<Longrightarrow> is_token t"
  by (rule words_from_tokens [of t "[]" s]) (simp_all add: split_whitespace_def)

lemma is_token_show_word [simp]: "is_token (show_word w)"
  using is_digit_not_ws show_word_digits by (auto simp: is_token_def)

lemma is_ws_dot [simp]: "\<not> is_ws (CHR ''.'')"
  by (simp add: is_ws_def code_def)

lemma is_token_show_ipv4 [simp]: "is_token (show_ipv4 ip)"
  using is_digit_not_ws show_ipv4_chars by (fastforce simp: is_token_def)

lemma is_token_append: "is_token s \<Longrightarrow> \<forall>c \<in> set t. \<not> is_ws c \<Longrightarrow> is_token (s @ t)"
  by (auto simp: is_token_def)

lemma split_once_append: "d \<notin> set a \<Longrightarrow> split_once d (a @ d # b) = Some (a, b)"
  by (induction a) auto

lemma split_once_None: "split_once d s = None \<longleftrightarrow> d \<notin> set s"
  by (induction s) (auto split: option.splits)

lemma split_once_Some: "split_once d s = Some (a, b) \<longleftrightarrow> s = a @ d # b \<and> d \<notin> set a"
proof
  show "split_once d s = Some (a, b) \<Longrightarrow> s = a @ d # b \<and> d \<notin> set a"
    by (induction s arbitrary: a) (auto split: if_splits option.splits)
qed (auto simp: split_once_append)

lemma strip_prefix_Some: "strip_prefix p s = Some r \<longleftrightarrow> s = p @ r"
  by (induction p s rule: strip_prefix.induct) auto

lemma starts_with_iff: "starts_with p s \<longleftrightarrow> (\<exists>r. s = p @ r)"
  by (auto simp: starts_with_def strip_prefix_Some)

lemma strip_suffix_Some: "strip_suffix p s = Some r \<longleftrightarrow> s = r @ p"
proof -
  have "strip_suffix p s = Some r \<longleftrightarrow> (\<exists>t. strip_prefix (rev p) (rev s) = Some t \<and> r = rev t)"
    by (auto simp: strip_suffix_def)
  also have "\<dots> \<longleftrightarrow> rev s = rev p @ rev r" by (auto simp: strip_prefix_Some)
  also have "\<dots> \<longleftrightarrow> s = r @ p" by (metis rev_append rev_rev_ident)
  finally show ?thesis .
qed

lemma ends_with_iff: "ends_with p s \<longleftrightarrow> (\<exists>r. s = r @ p)"
  by (auto simp: ends_with_def strip_suffix_Some)

lemma trim_subset: "set (trim s) \<subseteq> set s"
proof
  fix c
  assume "c \<in> set (trim s)"
  then have "c \<in> set (trim_start s)"
    unfolding trim_def trim_end_def by (auto dest: set_dropWhileD)
  then show "c \<in> set s" unfolding trim_start_def by (rule set_dropWhileD)
qed

lemma trim_id:
  assumes "s \<noteq> []" "\<not> is_ws (hd s)" "\<not> is_ws (last s)"
  shows "trim s = s"
proof -
  have "trim_start s = s" using assms by (cases s) (simp_all add: trim_start_def)
  moreover have "dropWhile is_ws (rev s) = rev s"
    using assms by (cases "rev s") (auto simp: last_rev [symmetric] hd_rev)
  ultimately show ?thesis by (simp add: trim_def trim_end_def)
qed

end
