(* ===== verification/Ordered_Map.thy ===== *)
theory Ordered_Map
  imports Prelude "HOL-Library.List_Lexorder" "HOL-Library.Char_ord"
begin

text \<open>
  The two map types of Rust's standard library that the controller keeps its state in. A
  \<open>BTreeMap\<close> is an association list in strictly ascending key order, which is also the
  order it is iterated in; a \<open>HashMap\<close> is an association list with distinct keys whose
  order carries no meaning. Both are implementations of the contract \<open>map_store\<close>.
\<close>

subsection \<open>The contract\<close>

locale map_store =
  fixes ok :: "'m \<Rightarrow> bool"
    and get :: "'m \<Rightarrow> 'k \<Rightarrow> 'v option"
    and put :: "'k \<Rightarrow> 'v \<Rightarrow> 'm \<Rightarrow> 'm"
    and del :: "'k \<Rightarrow> 'm \<Rightarrow> 'm"
    and size_of :: "'m \<Rightarrow> nat"
  assumes ok_put: "ok m \<Longrightarrow> ok (put k v m)"
    and ok_del: "ok m \<Longrightarrow> ok (del k m)"
    and get_put: "ok m \<Longrightarrow> get (put k v m) j = (if j = k then Some v else get m j)"
    and get_del: "ok m \<Longrightarrow> get (del k m) j = (if j = k then None else get m j)"
    and size_put: "ok m \<Longrightarrow> size_of (put k v m) = (if get m k = None then Suc (size_of m) else size_of m)"
    and size_del: "ok m \<Longrightarrow> get m k \<noteq> None \<Longrightarrow> Suc (size_of (del k m)) = size_of m"
begin

lemma get_put_same: "ok m \<Longrightarrow> get (put k v m) k = Some v"
  by (simp add: get_put)

lemma get_put_other: "ok m \<Longrightarrow> j \<noteq> k \<Longrightarrow> get (put k v m) j = get m j"
  by (simp add: get_put)

lemma size_put_le: "ok m \<Longrightarrow> size_of (put k v m) \<le> Suc (size_of m)"
  by (simp add: size_put)

text \<open>An insertion that first makes room never exceeds the bound.\<close>

lemma size_put_after_del:
  "ok m \<Longrightarrow> get m k \<noteq> None \<Longrightarrow> size_of m \<le> n \<Longrightarrow> size_of (put j v (del k m)) \<le> n"
  using size_put_le [OF ok_del, of m j v k] size_del [of m k] by simp

lemma size_put_bound:
  "ok m \<Longrightarrow> size_of m \<le> n \<Longrightarrow> get m k = None \<Longrightarrow> size_of m < n \<Longrightarrow> size_of (put k v m) \<le> n"
  by (simp add: size_put)

lemma get_fold_put:
  "ok m \<Longrightarrow> get (fold (\<lambda>(k, v). put k v) kvs m) j =
     (case map_of (rev kvs) j of Some v \<Rightarrow> Some v | None \<Rightarrow> get m j)"
proof (induction kvs arbitrary: m)
  case Nil
  then show ?case by simp
next
  case (Cons kv kvs)
  obtain k v where kv: "kv = (k, v)" by (cases kv)
  from Cons.prems have "ok (put k v m)" by (rule ok_put)
  from Cons.IH [OF this] show ?case
    using Cons.prems by (auto simp: kv get_put map_add_def split: option.splits)
qed

end

subsection \<open>Hash maps\<close>

interpretation hash_map: map_store wf_map map_of AList.update AList.delete length
proof
  show "wf_map (AList.update k v m)" if "wf_map m" for k :: 'a and v :: 'b and m
    using that by simp
  show "wf_map (AList.delete k m)" if "wf_map m" for k :: 'a and m :: "('a \<times> 'b) list"
    using that by simp
  show "map_of (AList.update k v m) j = (if j = k then Some v else map_of m j)"
    for m :: "('a \<times> 'b) list" and k v j by simp
  show "map_of (AList.delete k m) j = (if j = k then None else map_of m j)"
    for m :: "('a \<times> 'b) list" and k j by (simp add: map_of_delete_eq)
  show "length (AList.update k v m) =
      (if map_of m k = None then Suc (length m) else length m)"
    for m :: "('a \<times> 'b) list" and k v by (simp add: length_update map_of_eq_None_iff)
  show "Suc (length (AList.delete k m)) = length m" if "wf_map m" "map_of m k \<noteq> None"
    for m :: "('a \<times> 'b) list" and k
    using that by (intro length_delete_wf) (auto simp: map_of_eq_None_iff)
qed

subsection \<open>Ordered maps\<close>

fun bt_insert :: "'k::linorder \<Rightarrow> 'v \<Rightarrow> ('k \<times> 'v) list \<Rightarrow> ('k \<times> 'v) list" where
  "bt_insert k v [] = [(k, v)]"
| "bt_insert k v ((j, w) # m) =
     (if k < j then (k, v) # (j, w) # m
      else if k = j then (k, v) # m else (j, w) # bt_insert k v m)"

definition bt_remove :: "'k \<Rightarrow> ('k \<times> 'v) list \<Rightarrow> ('k \<times> 'v) list" where
  "bt_remove k m = filter (\<lambda>kv. fst kv \<noteq> k) m"

definition bt_ok :: "('k::linorder \<times> 'v) list \<Rightarrow> bool" where
  "bt_ok m = sorted_wrt (<) (map fst m)"

lemma fst_bt_insert: "fst ` set (bt_insert k v m) = insert k (fst ` set m)"
  by (induction k v m rule: bt_insert.induct) auto

lemma set_bt_insert_subset: "set (bt_insert k v m) \<subseteq> insert (k, v) (set m)"
  by (induction k v m rule: bt_insert.induct) auto

lemma bt_ok_Nil [simp]: "bt_ok []"
  by (simp add: bt_ok_def)

lemma bt_ok_insert [simp]: "bt_ok m \<Longrightarrow> bt_ok (bt_insert k v m)"
proof (induction k v m rule: bt_insert.induct)
  case (1 k v)
  then show ?case by (simp add: bt_ok_def)
next
  case (2 k v j w m)
  then have m: "bt_ok m" "\<forall>x \<in> fst ` set m. j < x" by (auto simp: bt_ok_def)
  consider "k < j" | "k = j" | "j < k" by fastforce
  then show ?case
  proof cases
    case 1
    with m show ?thesis by (auto simp: bt_ok_def)
  next
    case 2
    with m show ?thesis by (auto simp: bt_ok_def)
  next
    case 3
    with "2.IH" m have "bt_ok (bt_insert k v m)" by auto
    moreover have "\<forall>x \<in> fst ` set (bt_insert k v m). j < x"
      using m(2) 3 by (simp add: fst_bt_insert)
    ultimately show ?thesis using 3 by (auto simp: bt_ok_def)
  qed
qed

lemma bt_ok_remove [simp]: "bt_ok m \<Longrightarrow> bt_ok (bt_remove k m)"
  by (induction m) (auto simp: bt_ok_def bt_remove_def)

lemma bt_ok_distinct: "bt_ok m \<Longrightarrow> wf_map m"
  by (simp add: bt_ok_def wf_map_def strict_sorted_iff)

lemma map_of_bt_insert: "bt_ok m \<Longrightarrow> map_of (bt_insert k v m) j = (if j = k then Some v else map_of m j)"
proof (induction k v m rule: bt_insert.induct)
  case (1 k v)
  then show ?case by simp
next
  case (2 k v i w m)
  then have "bt_ok m" by (simp add: bt_ok_def)
  with 2 show ?case by auto
qed

lemma map_of_bt_remove: "map_of (bt_remove k m) j = (if j = k then None else map_of m j)"
  by (induction m) (auto simp: bt_remove_def)

lemma length_bt_insert:
  "bt_ok m \<Longrightarrow> length (bt_insert k v m) = (if map_of m k = None then Suc (length m) else length m)"
proof (induction k v m rule: bt_insert.induct)
  case (1 k v)
  then show ?case by simp
next
  case (2 k v i w m)
  then have m: "bt_ok m" "\<forall>x \<in> fst ` set m. i < x" by (auto simp: bt_ok_def)
  show ?case
  proof (cases "k < i")
    case True
    with m have "map_of ((i, w) # m) k = None"
      by (force simp: map_of_eq_None_iff)
    with True show ?thesis by simp
  next
    case False
    with "2.IH" m(1) show ?thesis by auto
  qed
qed

interpretation btree_map: map_store bt_ok map_of bt_insert bt_remove length
proof
  show "Suc (length (bt_remove k m)) = length m" if "bt_ok m" "map_of m k \<noteq> None"
    for m :: "('a::linorder \<times> 'b) list" and k
  proof -
    have "wf_map m" using that(1) by (rule bt_ok_distinct)
    moreover have "bt_remove k m = AList.delete k m"
      by (simp add: bt_remove_def AList.delete_eq case_prod_unfold comp_def eq_commute)
    ultimately show ?thesis using that(2)
      by (auto simp: map_of_eq_None_iff intro: length_delete_wf)
  qed
qed (simp_all add: map_of_bt_insert map_of_bt_remove length_bt_insert)

end
