(* ===== verification/Cidr.thy ===== *)
theory Cidr
  imports Rust_Text
begin

text \<open>
  Address arithmetic of \<open>reroute/templates.rs\<close> and \<open>reroute/device_plan.rs\<close>:
  network masks, containment of one CIDR in another, normalisation and the rendering of
  addresses. An IPv6 address is its sixteen octets; \<open>Ipv6Addr::to_string\<close> follows the
  standard library (the longest run of at least two zero groups is compressed, a mapped
  address prints its last four octets in dotted form).
\<close>

type_synonym u128 = "128 word"

subsection \<open>Addresses as integers\<close>

definition ipv4_of_u32 :: "u32 \<Rightarrow> ipv4" where
  "ipv4_of_u32 w = Ipv4 (ucast (drop_bit 24 w)) (ucast (drop_bit 16 w)) (ucast (drop_bit 8 w)) (ucast w)"

fun octets_value :: "u128 \<Rightarrow> u8 list \<Rightarrow> u128" where
  "octets_value acc [] = acc"
| "octets_value acc (b # bs) = octets_value (push_bit 8 acc OR ucast b) bs"

fun u128_of_ipv6 :: "ipv6 \<Rightarrow> u128" where
  "u128_of_ipv6 (Ipv6 bs) = octets_value 0 bs"

definition ipv6_of_u128 :: "u128 \<Rightarrow> ipv6" where
  "ipv6_of_u128 w = Ipv6 (map (\<lambda>i. ucast (drop_bit (8 * (15 - i)) w)) [0..<16])"

fun segments :: "u8 list \<Rightarrow> nat list" where
  "segments (a # b # bs) = (256 * unat a + unat b) # segments bs"
| "segments _ = []"

definition hex_char :: "nat \<Rightarrow> char" where
  "hex_char d = (if d < 10 then char_of (48 + d) else char_of (87 + d))"

fun show_hex :: "nat \<Rightarrow> string" where
  "show_hex n = (if n < 16 then [hex_char n] else show_hex (n div 16) @ [hex_char (n mod 16)])"

declare show_hex.simps [simp del]

text \<open>The scan for the longest run of zero groups: the index, the current run and the longest
  run as start and length.\<close>

fun zero_run :: "nat \<Rightarrow> nat \<times> nat \<Rightarrow> nat \<times> nat \<Rightarrow> nat list \<Rightarrow> nat \<times> nat" where
  "zero_run i cur longest [] = longest"
| "zero_run i (cs, cl) (ls, ll) (g # gs) =
     (if g = 0
      then (let cs' = (if cl = 0 then i else cs); cl' = cl + 1
            in zero_run (i + 1) (cs', cl') (if ll < cl' then (cs', cl') else (ls, ll)) gs)
      else zero_run (i + 1) (0, 0) (ls, ll) gs)"

definition show_groups :: "nat list \<Rightarrow> string" where
  "show_groups gs = join '':'' (map show_hex gs)"

definition is_mapped :: "u8 list \<Rightarrow> bool" where
  "is_mapped bs = (take 12 bs = replicate 10 0 @ [255, 255])"

fun show_ipv6 :: "ipv6 \<Rightarrow> string" where
  "show_ipv6 (Ipv6 bs) =
     (if is_mapped bs then ''::ffff:'' @ join ''.'' (map show_word (drop 12 bs))
      else (let gs = segments bs; (start, len) = zero_run 0 (0, 0) (0, 0) gs
            in if 1 < len
               then show_groups (take start gs) @ ''::'' @ show_groups (drop (start + len) gs)
               else show_groups gs))"

fun show_ip :: "ip_addr \<Rightarrow> string" where
  "show_ip (V4 a) = show_ipv4 a"
| "show_ip (V6 a) = show_ipv6 a"

fun is_ipv4 :: "ip_addr \<Rightarrow> bool" where
  "is_ipv4 (V4 _) = True"
| "is_ipv4 (V6 _) = False"

subsection \<open>Masks and networks\<close>

text \<open>\<open>MAX.checked_shl(w - len)\<close> with the zero-length case treated apart.\<close>

definition mask4 :: "u32 \<Rightarrow> u32" where
  "mask4 len =
     (if len = 0 then 0
      else (let s = 32 - min (unat len) 32 in if s < 32 then push_bit s (- 1) else 0))"

definition mask6 :: "u32 \<Rightarrow> u128" where
  "mask6 len =
     (if len = 0 then 0
      else (let s = 128 - min (unat len) 128 in if s < 128 then push_bit s (- 1) else 0))"

fun network_of :: "ip_addr \<Rightarrow> u32 \<Rightarrow> ip_addr" where
  "network_of (V4 a) len = V4 (ipv4_of_u32 (u32_of_ipv4 a AND mask4 len))"
| "network_of (V6 a) len = V6 (ipv6_of_u128 (u128_of_ipv6 a AND mask6 len))"

datatype cidr_error =
    NoSlash string
  | BadIp string
  | BadLength string
  | LengthOutOfRange string

definition parse_cidr_any :: "string \<Rightarrow> cidr_error + ip_addr \<times> u32" where
  "parse_cidr_any s =
     and_then (ok_or (NoSlash s) (split_once (CHR ''/'') s)) (\<lambda>(ip_s, len_s).
     and_then (ok_or (BadIp s) (parse_ip (trim ip_s))) (\<lambda>ip.
     and_then (ok_or (BadLength s) (parse_uint (trim len_s))) (\<lambda>len.
       if (if is_ipv4 ip then 32 else 128) < len then Inl (LengthOutOfRange s)
       else Inr (network_of ip len, len))))"

definition cidr_contains :: "string \<Rightarrow> string \<Rightarrow> cidr_error + bool" where
  "cidr_contains parent child =
     and_then (parse_cidr_any parent) (\<lambda>(pnet, plen).
     and_then (parse_cidr_any child) (\<lambda>(cnet, clen).
       if clen < plen \<or> is_ipv4 pnet \<noteq> is_ipv4 cnet then Inr False
       else Inr (network_of cnet plen = network_of pnet plen)))"

definition cidr_contains_host :: "string \<Rightarrow> ip_addr \<Rightarrow> bool" where
  "cidr_contains_host cidr ip =
     (case parse_cidr_any cidr of
        Inr (net, len) \<Rightarrow>
          if is_ipv4 net = is_ipv4 ip then network_of ip len = network_of net len else False
      | Inl _ \<Rightarrow> False)"

subsection \<open>The CIDR parameters of templates\<close>

text \<open>\<open>parse_cidr_v4\<close> returns the network, the mask, the length and the normalised text.\<close>

definition parse_cidr_v4 :: "string \<Rightarrow> cidr_error + string \<times> string \<times> u32 \<times> string" where
  "parse_cidr_v4 s =
     and_then (ok_or (NoSlash s) (split_once (CHR ''/'') s)) (\<lambda>(ip_s, len_s).
     and_then (ok_or (BadIp s) (parse_ipv4 (trim ip_s))) (\<lambda>ip.
     and_then (ok_or (BadLength s) (parse_uint (trim len_s))) (\<lambda>len.
       if 32 < len then Inl (LengthOutOfRange s)
       else (let net = u32_of_ipv4 ip AND mask4 len
             in Inr (show_ipv4 (ipv4_of_u32 net), show_ipv4 (ipv4_of_u32 (mask4 len)), len,
                     show_ipv4 (ipv4_of_u32 net) @ ''/'' @ show_word len)))))"

definition parse_cidr_v6 :: "string \<Rightarrow> cidr_error + string \<times> u32 \<times> string" where
  "parse_cidr_v6 s =
     and_then (ok_or (NoSlash s) (split_once (CHR ''/'') s)) (\<lambda>(ip_s, len_s).
     and_then (ok_or (BadIp s) (parse_ipv6 (trim ip_s))) (\<lambda>ip.
     and_then (ok_or (BadLength s) (parse_uint (trim len_s))) (\<lambda>len.
       if 128 < len then Inl (LengthOutOfRange s)
       else (let net = ipv6_of_u128 (u128_of_ipv6 ip AND mask6 len)
             in Inr (show_ipv6 net, len, show_ipv6 net @ ''/'' @ show_word len)))))"

text \<open>\<open>device_plan::normalize_cidr\<close> does not trim its parts.\<close>

definition normalize_cidr :: "string \<Rightarrow> string option" where
  "normalize_cidr value = do {
     (addr, len_s) \<leftarrow> split_once (CHR ''/'') value;
     ip \<leftarrow> parse_ip addr;
     len \<leftarrow> (parse_uint len_s :: u32 option);
     (case ip of
        V4 a \<Rightarrow>
          if len \<le> 32
          then Some (show_ipv4 (ipv4_of_u32 (u32_of_ipv4 a AND
                 (if len = 0 then 0 else push_bit (32 - unat len) (- 1)))) @ ''/'' @ show_word len)
          else None
      | V6 a \<Rightarrow>
          if len \<le> 128
          then Some (show_ipv6 (ipv6_of_u128 (u128_of_ipv6 a AND
                 (if len = 0 then 0 else push_bit (128 - unat len) (- 1)))) @ ''/'' @ show_word len)
          else None)
   }"

datatype mask_error =
    InvalidRoutePrefix string
  | NotIpv4Prefix string
  | BadNormalizedLength string

definition ipv4_network_mask :: "string \<Rightarrow> mask_error + string \<times> string" where
  "ipv4_network_mask pfx =
     and_then (ok_or (InvalidRoutePrefix pfx) (normalize_cidr pfx)) (\<lambda>normalized.
     and_then (ok_or (InvalidRoutePrefix pfx) (split_once (CHR ''/'') normalized)) (\<lambda>(network, len_s).
       if contains '':'' network then Inl (NotIpv4Prefix pfx)
       else and_then (ok_or (BadNormalizedLength pfx) (parse_uint len_s :: u32 option)) (\<lambda>len.
         (let mask = (if len = 0 then 0 else push_bit (32 - unat len) (- 1) :: u32)
          in Inr (network, show_ipv4 (ipv4_of_u32 mask))))))"

lemmas cidr_eval = ipv4_of_u32_def ipv6_of_u128_def hex_char_def show_groups_def is_mapped_def
  mask4_def mask6_def parse_cidr_any_def cidr_contains_def cidr_contains_host_def
  parse_cidr_v4_def parse_cidr_v6_def normalize_cidr_def ipv4_network_mask_def ok_or_def

subsection \<open>Addresses and integers are in bijection\<close>

lemma octet_split_nat:
  "((n div 16777216 mod 256 * 256 + n div 65536 mod 256) * 256 + n div 256 mod 256) * 256 + n mod 256
   = n mod (4294967296 :: nat)"
proof -
  have "n mod (256 * 16777216) = 256 * 65536 * (n div 16777216 mod 256) + n mod 16777216"
    using mod_mult2_eq [of n 16777216 256] by simp
  moreover have "n mod (65536 * 256) = 65536 * (n div 65536 mod 256) + n mod 65536"
    using mod_mult2_eq [of n 65536 256] by simp
  moreover have "n mod (256 * 256) = 256 * (n div 256 mod 256) + n mod 256"
    using mod_mult2_eq [of n 256 256] by simp
  ultimately show ?thesis by simp
qed

lemma u32_of_ipv4_of_u32 [simp]: "u32_of_ipv4 (ipv4_of_u32 w) = w"
proof -
  have oct: "unat (ucast (drop_bit k w) :: u8) = unat w div 2 ^ k mod 256" for k
    by (simp add: unsigned_ucast_eq unat_drop_bit_eq take_bit_eq_mod) (simp add: drop_bit_eq_div)
  have o0: "unat (ucast w :: u8) = unat w mod 256"
    by (simp add: unsigned_ucast_eq take_bit_eq_mod)
  have o24: "unat (ucast (drop_bit 24 w) :: u8) = unat w div 16777216 mod 256"
    and o16: "unat (ucast (drop_bit 16 w) :: u8) = unat w div 65536 mod 256"
    and o8: "unat (ucast (drop_bit 8 w) :: u8) = unat w div 256 mod 256"
    using oct [of 24] oct [of 16] oct [of 8] by simp_all
  have "u32_of_ipv4 (ipv4_of_u32 w) = of_nat (unat w mod 4294967296)"
    unfolding ipv4_of_u32_def u32_of_ipv4.simps o24 o16 o8 o0 octet_split_nat ..
  also have "unat w mod 4294967296 = unat w"
    using unsigned_less [where 'a = nat, of w] by simp
  finally show ?thesis by simp
qed

definition octets_down :: "nat \<Rightarrow> u128 \<Rightarrow> u8 list" where
  "octets_down k w = map (\<lambda>i. ucast (drop_bit (8 * (k - 1 - i)) w)) [0..<k]"

lemma octets_down_Suc: "octets_down (Suc k) w = ucast (drop_bit (8 * k) w) # octets_down k w"
  by (simp add: octets_down_def upt_conv_Cons map_Suc_upt [symmetric] comp_def del: upt_Suc)

lemma octet_join:
  "push_bit 8 (drop_bit (8 * Suc k) w) OR ucast (ucast (drop_bit (8 * k) w) :: u8) =
   drop_bit (8 * k) (w :: u128)"
  by (rule bit_word_eqI) (auto simp: bit_simps)

lemma octets_value_down: "octets_value (drop_bit (8 * k) w) (octets_down k w) = w"
proof (induction k)
  case 0
  then show ?case by (simp add: octets_down_def)
next
  case (Suc k)
  then show ?case by (simp add: octets_down_Suc octet_join del: mult_Suc_right)
qed

lemma u128_of_ipv6_of_u128 [simp]: "u128_of_ipv6 (ipv6_of_u128 w) = w"
proof -
  have "octets_value (drop_bit (8 * 16) w) (octets_down 16 w) = w" by (rule octets_value_down)
  moreover have "drop_bit (8 * 16) w = 0" by (rule bit_word_eqI) (auto simp: bit_simps)
  ultimately show ?thesis by (simp add: ipv6_of_u128_def octets_down_def)
qed

subsection \<open>Nested masks\<close>

lemma bit_mask4: "bit (mask4 len) n \<longleftrightarrow> n < 32 \<and> 32 - min (unat len) 32 \<le> n"
  by (auto simp: mask4_def Let_def bit_simps unat_gt_0)

lemma bit_mask6: "bit (mask6 len) n \<longleftrightarrow> n < 128 \<and> 128 - min (unat len) 128 \<le> n"
  by (auto simp: mask6_def Let_def bit_simps unat_gt_0)

lemma mask4_nested: "m \<le> n \<Longrightarrow> mask4 n AND mask4 m = mask4 m"
  by (rule bit_word_eqI) (auto simp: bit_simps bit_mask4 word_le_nat_alt)

lemma mask6_nested: "m \<le> n \<Longrightarrow> mask6 n AND mask6 m = mask6 m"
  by (rule bit_word_eqI) (auto simp: bit_simps bit_mask6 word_le_nat_alt)

lemma network_of_nested: "m \<le> n \<Longrightarrow> network_of (network_of ip n) m = network_of ip m"
  by (cases ip) (simp_all add: mask4_nested mask6_nested and.assoc)

lemma is_ipv4_network_of [simp]: "is_ipv4 (network_of ip n) = is_ipv4 ip"
  by (cases ip) simp_all

subsection \<open>Properties\<close>

text \<open>Containment is sound: when a child CIDR is contained in a parent, every host of the
  child, of either family, lies in the parent.\<close>

theorem cidr_contains_sound:
  assumes "cidr_contains parent child = Inr True" "cidr_contains_host child ip"
  shows "cidr_contains_host parent ip"
proof -
  from assms(1) obtain pnet plen cnet clen
    where p: "parse_cidr_any parent = Inr (pnet, plen)" "parse_cidr_any child = Inr (cnet, clen)"
      "plen \<le> clen" "is_ipv4 pnet = is_ipv4 cnet" "network_of cnet plen = network_of pnet plen"
    by (auto simp: cidr_contains_def res_simps split: if_splits)
  with assms(2) have ip: "is_ipv4 cnet = is_ipv4 ip" "network_of ip clen = network_of cnet clen"
    by (auto simp: cidr_contains_host_def split: if_splits)
  from p(3) have "network_of ip plen = network_of (network_of ip clen) plen"
    by (simp add: network_of_nested)
  also have "\<dots> = network_of cnet plen" using p(3) ip(2) by (simp add: network_of_nested)
  finally show ?thesis using p ip by (simp add: cidr_contains_host_def)
qed

lemma sample_cidrs:
  "parse_cidr_any ''10.0.0.0/8'' = Inr (V4 (Ipv4 10 0 0 0), 8)"
  "parse_cidr_any ''10.2.0.0/16'' = Inr (V4 (Ipv4 10 2 0 0), 16)"
proof -
  have "(push_bit 24 (- 1) :: u32) = 4278190080" "(push_bit 16 (- 1) :: u32) = 4294901760"
    by code_simp+
  then show "parse_cidr_any ''10.0.0.0/8'' = Inr (V4 (Ipv4 10 0 0 0), 8)"
    "parse_cidr_any ''10.2.0.0/16'' = Inr (V4 (Ipv4 10 2 0 0), 16)"
    by (simp_all add: cidr_eval text_eval)
qed

lemma cidr_contains_sound_witness:
  "cidr_contains_host ''10.0.0.0/8'' (V4 (Ipv4 10 2 3 4))"
proof (rule cidr_contains_sound)
  have m: "mask4 8 = 4278190080" "mask4 16 = 4294901760" by code_simp+
  show "cidr_contains ''10.0.0.0/8'' ''10.2.0.0/16'' = Inr True"
    by (simp add: cidr_contains_def sample_cidrs m ipv4_of_u32_def)
  show "cidr_contains_host ''10.2.0.0/16'' (V4 (Ipv4 10 2 3 4))"
    by (simp add: cidr_contains_host_def sample_cidrs m ipv4_of_u32_def)
qed

end
