(* ===== verification/Prefix_List.thy ===== *)
theory Prefix_List
  imports Rust_Text
begin

text \<open>
  \<open>src/backend-rust/src/reroute/prefix_list.rs\<close>: reading an IOS prefix-list and choosing
  the sequence number at which a permit is added, or the entry that is removed. The module is
  pure; its definitions are translated one for one. Format strings become the constructors of
  \<open>refusal\<close> and \<open>pl_note\<close>, with the values they print as arguments.
\<close>

subsection \<open>Entries and plans\<close>

definition MIN_SEQ :: u32 where "MIN_SEQ = 1"
definition MAX_SEQ :: u32 where "MAX_SEQ = 4294967294"
definition APPEND_STEP :: u32 where "APPEND_STEP = 5"

record prefix_list_entry =
  pl_sequence :: u32
  pl_permit :: bool
  pl_network :: ipv4
  pl_length :: u8
  pl_ge :: "u8 option"
  pl_le :: "u8 option"

datatype refusal =
    RejectedRead string
  | ReportedMoreThanOnce string
  | UnparsableEntry string
  | DuplicateSequence string u32
  | ListNotShown string
  | TruncatedRead string nat nat
  | InvalidPrefix string
  | NoSequenceAbove string u32 string
  | NoFreeSequence string u32 u32 string string
  | OutsideIosRange u32 string string
  | SequenceOccupied string u32 string string
  | BroaderEntry string string u32 string

datatype pl_note =
    AlreadyPermitted string string u32 string
  | NotReached string string
  | AlreadyDenied string string u32 string

datatype sequence_plan =
    Use u32
  | AlreadySatisfied "u32 option" pl_note
  | Refuse refusal

definition clause :: "prefix_list_entry \<Rightarrow> string" where
  "clause e =
     (if pl_permit e then ''permit'' else ''deny'') @ '' '' @ show_ipv4 (pl_network e) @ ''/'' @
     show_word (pl_length e) @
     (case pl_ge e of None \<Rightarrow> [] | Some ge \<Rightarrow> '' ge '' @ show_word ge) @
     (case pl_le e of None \<Rightarrow> [] | Some le \<Rightarrow> '' le '' @ show_word le)"

text \<open>The mask of \<open>same_network\<close>: \<open>checked_shl\<close> is \<open>None\<close> for a shift of 32 or more.\<close>

definition netmask :: "u8 \<Rightarrow> u32" where
  "netmask len =
     (if len = 0 then 0
      else (let shift = 32 - min (unat len) 32 in if shift < 32 then push_bit shift (- 1) else 0))"

definition same_network :: "ipv4 \<Rightarrow> ipv4 \<Rightarrow> u8 \<Rightarrow> bool" where
  "same_network a b len = (u32_of_ipv4 a AND netmask len = u32_of_ipv4 b AND netmask len)"

definition entry_matches :: "prefix_list_entry \<Rightarrow> ipv4 \<Rightarrow> u8 \<Rightarrow> bool" where
  "entry_matches e net len =
     (if \<not> same_network (pl_network e) net (pl_length e) then False
      else (let low = (case pl_ge e of Some g \<Rightarrow> g | None \<Rightarrow> pl_length e);
                high = (case pl_le e of Some l \<Rightarrow> l
                        | None \<Rightarrow> if pl_ge e \<noteq> None then 32 else pl_length e)
            in low \<le> len \<and> len \<le> high))"

definition is_exactly :: "prefix_list_entry \<Rightarrow> ipv4 \<Rightarrow> u8 \<Rightarrow> bool" where
  "is_exactly e net len =
     (pl_network e = net \<and> pl_length e = len \<and> pl_ge e = None \<and> pl_le e = None)"

subsection \<open>Reading the list\<close>

definition denied_markers :: "string list" where
  "denied_markers =
     [''% Invalid input'', ''ommand authorization failed'', ''not authorized'',
      ''% Incomplete command'', ''% Ambiguous command'', ''% Permission denied'']"

definition denied :: "string \<Rightarrow> string option" where
  "denied output =
     List.find (\<lambda>l. list_ex (\<lambda>m. contains m l) denied_markers) (map trim (lines output))"

definition parse_header :: "string \<Rightarrow> (string \<times> nat) option" where
  "parse_header line = do {
     rest \<leftarrow> strip_prefix ''ip prefix-list '' line;
     (name, count) \<leftarrow> split_once (CHR '':'') rest;
     let name = trim name;
     (case split_whitespace count of
        [w, e] \<Rightarrow> do {
          n \<leftarrow> (parse_uint w :: u64 option);
          if e = ''entry'' \<or> e = ''entries''
          then (if name \<noteq> [] then Some (name, unat n) else None) else None }
      | _ \<Rightarrow> None)
   }"

fun parse_quals :: "u8 option \<Rightarrow> u8 option \<Rightarrow> string list \<Rightarrow> (u8 option \<times> u8 option) option" where
  "parse_quals ge le [] = Some (ge, le)"
| "parse_quals ge le [t] = None"
| "parse_quals ge le (t # v # ts) =
     (case parse_uint v of
        None \<Rightarrow> None
      | Some value \<Rightarrow>
          if 32 < value then None
          else if t = ''ge'' \<and> ge = None then parse_quals (Some value) le ts
          else if t = ''le'' \<and> le = None then parse_quals ge (Some value) ts
          else None)"

fun entry_of_tokens :: "string list \<Rightarrow> prefix_list_entry option" where
  "entry_of_tokens (kw # sq # act # pfx # quals) =
     (if kw \<noteq> ''seq'' then None
      else do {
        sequence \<leftarrow> parse_uint sq;
        if \<not> (MIN_SEQ \<le> sequence \<and> sequence \<le> MAX_SEQ) then None
        else do {
          permit \<leftarrow> (if act = ''permit'' then Some True
                     else if act = ''deny'' then Some False else None);
          (net_s, len_s) \<leftarrow> split_once (CHR ''/'') pfx;
          network \<leftarrow> parse_ipv4 net_s;
          len \<leftarrow> parse_uint len_s;
          if 32 < len then None
          else do {
            (ge, le) \<leftarrow> parse_quals None None quals;
            Some \<lparr>pl_sequence = sequence, pl_permit = permit, pl_network = network,
                  pl_length = len, pl_ge = ge, pl_le = le\<rparr>
          }
        }
      })"
| "entry_of_tokens _ = None"

definition parse_entry :: "string \<Rightarrow> refusal + prefix_list_entry" where
  "parse_entry line =
     (let body = (case split_once (CHR ''('') line of Some (head, _) \<Rightarrow> trim head | None \<Rightarrow> line)
      in ok_or (UnparsableEntry line) (entry_of_tokens (split_whitespace body)))"

record read_state =
  rd_entries :: "prefix_list_entry list"
  rd_header_seen :: bool
  rd_expected :: "nat option"
  rd_in_target :: bool

definition read_line :: "string \<Rightarrow> read_state \<Rightarrow> string \<Rightarrow> refusal + read_state" where
  "read_line name st raw =
     (let line = trim raw in
      if line = [] then Inr st
      else (case parse_header line of
        Some (header, count) \<Rightarrow>
          if header = name
          then (if rd_header_seen st then Inl (ReportedMoreThanOnce name)
                else Inr (st\<lparr>rd_in_target := True, rd_header_seen := True,
                             rd_expected := Some count\<rparr>))
          else Inr (st\<lparr>rd_in_target := False\<rparr>)
      | None \<Rightarrow>
          if \<not> starts_with ''seq '' line then Inr st
          else if \<not> rd_in_target st then Inr st
          else and_then (parse_entry line) (\<lambda>entry.
            if \<exists>e \<in> set (rd_entries st). pl_sequence e = pl_sequence entry
            then Inl (DuplicateSequence name (pl_sequence entry))
            else Inr (st\<lparr>rd_entries := rd_entries st @ [entry]\<rparr>))))"

fun read_lines :: "string \<Rightarrow> read_state \<Rightarrow> string list \<Rightarrow> refusal + read_state" where
  "read_lines name st [] = Inr st"
| "read_lines name st (l # ls) = and_then (read_line name st l) (\<lambda>st'. read_lines name st' ls)"

definition read_start :: read_state where
  "read_start = \<lparr>rd_entries = [], rd_header_seen = False, rd_expected = None, rd_in_target = False\<rparr>"

definition parse_prefix_list :: "string \<Rightarrow> string \<Rightarrow> refusal + prefix_list_entry list" where
  "parse_prefix_list output name =
     (case denied output of
        Some marker \<Rightarrow> Inl (RejectedRead marker)
      | None \<Rightarrow>
          and_then (read_lines name read_start (lines output)) (\<lambda>st.
            if \<not> rd_header_seen st then Inl (ListNotShown name)
            else if rd_expected st \<noteq> Some (length (rd_entries st))
            then Inl (TruncatedRead name (case rd_expected st of None \<Rightarrow> 0 | Some n \<Rightarrow> n)
                        (length (rd_entries st)))
            else Inr (sort_key pl_sequence (rd_entries st))))"

definition parse_prefix :: "string \<Rightarrow> refusal + ipv4 \<times> u8" where
  "parse_prefix pfx =
     ok_or (InvalidPrefix pfx) (do {
       (net, len) \<leftarrow> split_once (CHR ''/'') pfx;
       network \<leftarrow> parse_ipv4 (trim net);
       plen \<leftarrow> parse_uint (trim len);
       if 32 < plen then None else Some (network, plen)
     })"

subsection \<open>Choosing the sequence number\<close>

definition midpoint :: "u32 \<Rightarrow> u32 \<Rightarrow> u32 option" where
  "midpoint low high =
     (if high \<le> low + 1 then None
      else (let mid = low + (high - low) div 2
            in if low < mid \<and> mid < high then Some mid else None))"

definition free_or_refuse ::
    "u32 \<Rightarrow> prefix_list_entry list \<Rightarrow> string \<Rightarrow> string \<Rightarrow> sequence_plan" where
  "free_or_refuse candidate entries lst pfx =
     (if \<not> (MIN_SEQ \<le> candidate \<and> candidate \<le> MAX_SEQ)
      then Refuse (OutsideIosRange candidate pfx lst)
      else (case List.find (\<lambda>e. pl_sequence e = candidate) entries of
              Some occupied \<Rightarrow> Refuse (SequenceOccupied lst candidate pfx (clause occupied))
            | None \<Rightarrow> Use candidate))"

definition last_sequence :: "prefix_list_entry list \<Rightarrow> u32" where
  "last_sequence es = (case rev es of [] \<Rightarrow> 0 | e # _ \<Rightarrow> pl_sequence e)"

definition plan_add_entries ::
    "prefix_list_entry list \<Rightarrow> string \<Rightarrow> string \<Rightarrow> ipv4 \<Rightarrow> u8 \<Rightarrow> sequence_plan" where
  "plan_add_entries entries lst pfx network plen =
     (case List.find (\<lambda>e. entry_matches e network plen) entries of
        None \<Rightarrow>
          (let last_seq = last_sequence entries;
               candidate = min (sat_add last_seq APPEND_STEP) MAX_SEQ
           in if candidate \<le> last_seq then Refuse (NoSequenceAbove lst last_seq pfx)
              else free_or_refuse candidate entries lst pfx)
      | Some shadow \<Rightarrow>
          if pl_permit shadow
          then AlreadySatisfied
                 (if is_exactly shadow network plen then Some (pl_sequence shadow) else None)
                 (AlreadyPermitted pfx lst (pl_sequence shadow) (clause shadow))
          else (let previous = last_sequence (filter (\<lambda>e. pl_sequence e < pl_sequence shadow) entries)
                in case midpoint previous (pl_sequence shadow) of
                     Some candidate \<Rightarrow> free_or_refuse candidate entries lst pfx
                   | None \<Rightarrow> Refuse (NoFreeSequence lst previous (pl_sequence shadow) (clause shadow) pfx)))"

definition plan_add :: "string \<Rightarrow> string \<Rightarrow> string \<Rightarrow> sequence_plan" where
  "plan_add output lst pfx =
     (case parse_prefix_list output lst of
        Inl e \<Rightarrow> Refuse e
      | Inr entries \<Rightarrow>
          (case parse_prefix pfx of
             Inl e \<Rightarrow> Refuse e
           | Inr (network, plen) \<Rightarrow> plan_add_entries entries lst pfx network plen))"

definition plan_remove_entries ::
    "prefix_list_entry list \<Rightarrow> string \<Rightarrow> string \<Rightarrow> ipv4 \<Rightarrow> u8 \<Rightarrow> sequence_plan" where
  "plan_remove_entries entries lst pfx network plen =
     (case List.find (\<lambda>e. entry_matches e network plen) entries of
        None \<Rightarrow> AlreadySatisfied None (NotReached pfx lst)
      | Some reached \<Rightarrow>
          if \<not> pl_permit reached
          then AlreadySatisfied None (AlreadyDenied pfx lst (pl_sequence reached) (clause reached))
          else if \<not> is_exactly reached network plen
          then Refuse (BroaderEntry pfx lst (pl_sequence reached) (clause reached))
          else Use (pl_sequence reached))"

definition plan_remove :: "string \<Rightarrow> string \<Rightarrow> string \<Rightarrow> sequence_plan" where
  "plan_remove output lst pfx =
     (case parse_prefix_list output lst of
        Inl e \<Rightarrow> Refuse e
      | Inr entries \<Rightarrow>
          (case parse_prefix pfx of
             Inl e \<Rightarrow> Refuse e
           | Inr (network, plen) \<Rightarrow> plan_remove_entries entries lst pfx network plen))"


subsection \<open>What IOS does with the list\<close>

text \<open>
  The decision of a route is its first matching entry, with the implicit deny at the end;
  writing a sequence number that is taken replaces the entry there (module header), and
  \<open>no ... seq N\<close> deletes the entry of that number.
\<close>

definition first_match :: "prefix_list_entry list \<Rightarrow> ipv4 \<Rightarrow> u8 \<Rightarrow> prefix_list_entry option" where
  "first_match es net len = List.find (\<lambda>e. entry_matches e net len) es"

definition advertised :: "prefix_list_entry list \<Rightarrow> ipv4 \<Rightarrow> u8 \<Rightarrow> bool" where
  "advertised es net len =
     (case first_match es net len of None \<Rightarrow> False | Some e \<Rightarrow> pl_permit e)"

definition exact_permit :: "u32 \<Rightarrow> ipv4 \<Rightarrow> u8 \<Rightarrow> prefix_list_entry" where
  "exact_permit s net len =
     \<lparr>pl_sequence = s, pl_permit = True, pl_network = net, pl_length = len,
      pl_ge = None, pl_le = None\<rparr>"

definition ios_write :: "prefix_list_entry \<Rightarrow> prefix_list_entry list \<Rightarrow> prefix_list_entry list" where
  "ios_write e es =
     insort_key pl_sequence e (filter (\<lambda>x. pl_sequence x \<noteq> pl_sequence e) es)"

definition ios_remove :: "u32 \<Rightarrow> prefix_list_entry list \<Rightarrow> prefix_list_entry list" where
  "ios_remove s es = filter (\<lambda>x. pl_sequence x \<noteq> s) es"

definition same_route :: "ipv4 \<Rightarrow> ipv4 \<Rightarrow> u8 \<Rightarrow> u8 \<Rightarrow> bool" where
  "same_route a b la lb = (la = lb \<and> same_network a b la)"

definition well_read :: "prefix_list_entry list \<Rightarrow> bool" where
  "well_read es =
     (sorted (map pl_sequence es) \<and> distinct (map pl_sequence es) \<and>
      (\<forall>e \<in> set es. MIN_SEQ \<le> pl_sequence e \<and> pl_sequence e \<le> MAX_SEQ \<and> pl_length e \<le> 32))"

definition render_entry :: "prefix_list_entry \<Rightarrow> string" where
  "render_entry e = ''seq '' @ show_word (pl_sequence e) @ '' '' @ clause e"

definition entry_in_range :: "prefix_list_entry \<Rightarrow> bool" where
  "entry_in_range e =
     (MIN_SEQ \<le> pl_sequence e \<and> pl_sequence e \<le> MAX_SEQ \<and> pl_length e \<le> 32 \<and>
      (case pl_ge e of None \<Rightarrow> True | Some g \<Rightarrow> g \<le> 32) \<and>
      (case pl_le e of None \<Rightarrow> True | Some l \<Rightarrow> l \<le> 32))"

subsection \<open>Reading: the invariant of the loop\<close>

definition read_inv :: "read_state \<Rightarrow> bool" where
  "read_inv st =
     (distinct (map pl_sequence (rd_entries st)) \<and>
      (\<forall>e \<in> set (rd_entries st).
         MIN_SEQ \<le> pl_sequence e \<and> pl_sequence e \<le> MAX_SEQ \<and> pl_length e \<le> 32))"

lemma entry_of_tokens_range:
  "entry_of_tokens ts = Some e \<Longrightarrow>
   MIN_SEQ \<le> pl_sequence e \<and> pl_sequence e \<le> MAX_SEQ \<and> pl_length e \<le> 32"
  by (cases ts rule: entry_of_tokens.cases)
    (auto split: if_splits Option.bind_splits prod.splits simp: Let_def)

lemma parse_entry_range:
  "parse_entry line = Inr e \<Longrightarrow>
   MIN_SEQ \<le> pl_sequence e \<and> pl_sequence e \<le> MAX_SEQ \<and> pl_length e \<le> 32"
  by (auto simp: parse_entry_def Let_def res_simps dest: entry_of_tokens_range)

lemma read_line_inv: "read_line name st l = Inr st' \<Longrightarrow> read_inv st \<Longrightarrow> read_inv st'"
  by (auto simp: read_line_def Let_def read_inv_def res_simps dest: parse_entry_range
           split: if_splits option.splits) blast

lemma read_lines_inv: "read_lines name st ls = Inr st' \<Longrightarrow> read_inv st \<Longrightarrow> read_inv st'"
  by (induction name st ls rule: read_lines.induct) (auto simp: res_simps dest: read_line_inv)

lemma read_start_inv: "read_inv read_start"
  by (simp add: read_inv_def read_start_def)

lemma parse_prefix_list_Inr:
  "parse_prefix_list out name = Inr es \<Longrightarrow>
   denied out = None \<and>
   (\<exists>st. read_lines name read_start (lines out) = Inr st \<and> rd_header_seen st \<and>
         rd_expected st = Some (length (rd_entries st)) \<and> es = sort_key pl_sequence (rd_entries st))"
  by (auto simp: parse_prefix_list_def res_simps split: option.splits if_splits)

lemma well_read_parsed: "parse_prefix_list out name = Inr es \<Longrightarrow> well_read es"
proof -
  assume "parse_prefix_list out name = Inr es"
  then obtain st where st: "read_lines name read_start (lines out) = Inr st"
    and es: "es = sort_key pl_sequence (rd_entries st)"
    using parse_prefix_list_Inr by blast
  from st read_start_inv have inv: "read_inv st" by (rule read_lines_inv)
  then have "distinct (map pl_sequence es)"
    by (auto simp: es read_inv_def distinct_map)
  with inv show ?thesis by (auto simp: well_read_def es read_inv_def)
qed

text \<open>The lines of the requested section and the counts of its headers, read off the text.\<close>

fun target_lines :: "string \<Rightarrow> bool \<Rightarrow> string list \<Rightarrow> string list" where
  "target_lines name inside [] = []"
| "target_lines name inside (l # ls) =
     (if trim l = [] then target_lines name inside ls
      else (case parse_header (trim l) of
              Some (h, _) \<Rightarrow> target_lines name (h = name) ls
            | None \<Rightarrow>
                if starts_with ''seq '' (trim l) \<and> inside
                then trim l # target_lines name inside ls
                else target_lines name inside ls))"

fun header_counts :: "string \<Rightarrow> string list \<Rightarrow> nat list" where
  "header_counts name [] = []"
| "header_counts name (l # ls) =
     (case parse_header (trim l) of
        Some (h, c) \<Rightarrow> if h = name then c # header_counts name ls else header_counts name ls
      | None \<Rightarrow> header_counts name ls)"

definition seen_counts :: "read_state \<Rightarrow> nat option list" where
  "seen_counts st = (if rd_header_seen st then [rd_expected st] else [])"

lemma parse_header_Nil [simp]: "parse_header [] = None"
  by (simp add: parse_header_def)

lemma read_lines_entries:
  "read_lines name st ls = Inr st' \<Longrightarrow>
   \<exists>new. rd_entries st' = rd_entries st @ new \<and>
         map parse_entry (target_lines name (rd_in_target st) ls) = map Inr new"
proof (induction ls arbitrary: st)
  case Nil
  then show ?case by simp
next
  case (Cons l ls)
  then obtain st1 where l: "read_line name st l = Inr st1"
    and rest: "read_lines name st1 ls = Inr st'" by (auto simp: res_simps)
  from Cons.IH [OF rest] obtain new where new: "rd_entries st' = rd_entries st1 @ new"
    "map parse_entry (target_lines name (rd_in_target st1) ls) = map Inr new" by blast
  from l consider
      "st1 = st" "trim l = [] \<or> parse_header (trim l) = None \<and>
         \<not> (starts_with ''seq '' (trim l) \<and> rd_in_target st)"
    | h c where "trim l \<noteq> []" "parse_header (trim l) = Some (h, c)"
        "rd_entries st1 = rd_entries st" "rd_in_target st1 = (h = name)"
    | e where "trim l \<noteq> []" "parse_header (trim l) = None" "starts_with ''seq '' (trim l)"
        "rd_in_target st" "parse_entry (trim l) = Inr e"
        "st1 = st\<lparr>rd_entries := rd_entries st @ [e]\<rparr>"
    by (auto simp: read_line_def Let_def res_simps split: if_splits option.splits)
  then show ?case
  proof cases
    case 1
    with new show ?thesis by auto
  next
    case 2
    with new show ?thesis by auto
  next
    case 3
    with new show ?thesis by (intro exI [of _ "e # new"]) auto
  qed
qed

lemma read_line_counts:
  "read_line name st l = Inr st' \<Longrightarrow>
   seen_counts st' = seen_counts st @ map Some (header_counts name [l])"
  by (auto simp: read_line_def Let_def res_simps seen_counts_def
           split: if_splits option.splits)

lemma header_counts_Cons: "header_counts name (l # ls) = header_counts name [l] @ header_counts name ls"
  by (auto split: option.splits)

lemma read_lines_counts:
  "read_lines name st ls = Inr st' \<Longrightarrow>
   seen_counts st' = seen_counts st @ map Some (header_counts name ls)"
proof (induction ls arbitrary: st)
  case Nil
  then show ?case by simp
next
  case (Cons l ls)
  then obtain st1 where "read_line name st l = Inr st1"
    and rest: "read_lines name st1 ls = Inr st'" by (auto simp: res_simps)
  then have "seen_counts st1 = seen_counts st @ map Some (header_counts name [l])"
    by (intro read_line_counts)
  with Cons.IH [OF rest] show ?case
    by (simp add: header_counts_Cons [of name l ls] del: header_counts.simps(2))
qed

subsection \<open>First match after an insertion or a removal\<close>

lemma find_insort_hit:
  fixes f :: "'a \<Rightarrow> 'b::linorder"
  assumes "P x" "\<And>e. e \<in> set es \<Longrightarrow> f e \<le> f x \<Longrightarrow> \<not> P e"
  shows "sorted (map f es) \<Longrightarrow> List.find P (insort_key f x es) = Some x"
  using assms(2)
proof (induction es)
  case Nil
  with assms(1) show ?case by simp
next
  case (Cons e es)
  show ?case
  proof (cases "f x \<le> f e")
    case True
    with assms(1) show ?thesis by simp
  next
    case False
    with Cons.prems(2) [of e] have "\<not> P e" by simp
    with False Cons show ?thesis by simp
  qed
qed

lemma find_insort_miss: "\<not> P x \<Longrightarrow> List.find P (insort_key f x es) = List.find P es"
  by (induction es) auto

lemma find_sorted_before:
  assumes "List.find P es = Some x" "sorted (map f es)" "e \<in> set es" "f e < f x"
  shows "\<not> P e"
proof -
  from assms(1) obtain ys zs where es: "es = ys @ x # zs" and ys: "\<forall>y \<in> set ys. \<not> P y"
    by (auto simp: find_Some_iff_split)
  from assms(2) es have "\<forall>z \<in> set zs. f x \<le> f z" by (auto simp: sorted_append)
  with assms(3,4) es have "e \<in> set ys" by auto
  with ys show ?thesis by blast
qed

lemma find_filter_irrelevant:
  "(\<And>e. e \<in> set es \<Longrightarrow> \<not> Q e \<Longrightarrow> \<not> P e) \<Longrightarrow> List.find P (filter Q es) = List.find P es"
  by (induction es) auto

lemma last_sequence_append [simp]: "last_sequence (es @ [e]) = pl_sequence e"
  by (simp add: last_sequence_def)

lemma last_sequence_Nil [simp]: "last_sequence [] = 0"
  by (simp add: last_sequence_def)

lemma last_sequence_ge:
  "sorted (map pl_sequence es) \<Longrightarrow> e \<in> set es \<Longrightarrow> pl_sequence e \<le> last_sequence es"
  by (cases es rule: rev_cases) (auto simp: sorted_append)

lemma last_sequence_mem: "last_sequence es = 0 \<or> last_sequence es \<in> pl_sequence ` set es"
  by (cases es rule: rev_cases) auto

lemma ios_write_fresh:
  "pl_sequence e \<notin> pl_sequence ` set es \<Longrightarrow> ios_write e es = insort_key pl_sequence e es"
proof -
  assume "pl_sequence e \<notin> pl_sequence ` set es"
  then have "filter (\<lambda>x. pl_sequence x \<noteq> pl_sequence e) es = es"
    by (intro filter_True) (metis imageI)
  then show ?thesis by (simp add: ios_write_def)
qed

lemma same_network_refl [simp]: "same_network a a l"
  by (simp add: same_network_def)

lemma exact_permit_matches:
  "entry_matches (exact_permit s net len) m k \<longleftrightarrow> same_route net m len k"
  by (auto simp: entry_matches_def exact_permit_def same_route_def Let_def)

lemma exact_permit_sel [simp]:
  "pl_sequence (exact_permit s net len) = s" "pl_permit (exact_permit s net len)"
  by (simp_all add: exact_permit_def)

lemma is_exactly_permit:
  "is_exactly e net len \<Longrightarrow> pl_permit e \<Longrightarrow> e = exact_permit (pl_sequence e) net len"
  by (cases e) (simp add: is_exactly_def exact_permit_def)


subsection \<open>The plans on parsed entries\<close>

lemma free_or_refuse_Use:
  "free_or_refuse c es lst pfx = Use s \<longleftrightarrow>
   s = c \<and> MIN_SEQ \<le> c \<and> c \<le> MAX_SEQ \<and> c \<notin> pl_sequence ` set es"
  by (auto simp: free_or_refuse_def find_None_iff split: option.splits dest: find_SomeD)

lemma midpoint_Some: "midpoint lo hi = Some m \<Longrightarrow> lo < m \<and> m < hi"
  by (simp add: midpoint_def Let_def split: if_splits)

lemma midpoint_None:
  assumes "lo < hi"
  shows "midpoint lo hi = None \<longleftrightarrow> hi = lo + 1"
proof -
  from assms have lt: "unat lo < unat hi" by (simp add: word_less_nat_alt)
  have "unat hi < 2 ^ 32" using unsigned_less [of hi] by simp
  with lt have one: "unat (lo + 1) = unat lo + 1" by (simp add: unat_word_ariths)
  have half: "unat (lo + (hi - lo) div 2) = unat lo + (unat hi - unat lo) div 2"
  proof -
    have "unat ((hi - lo) div 2) = (unat hi - unat lo) div 2"
      using assms by (simp add: unat_div unat_sub)
    with lt \<open>unat hi < 2 ^ 32\<close> show ?thesis by (simp add: unat_word_ariths)
  qed
  have "hi \<le> lo + 1 \<longleftrightarrow> hi = lo + 1"
    unfolding word_le_nat_alt word_unat_eq_iff one using lt by linarith
  moreover have "\<not> hi \<le> lo + 1 \<Longrightarrow> lo < lo + (hi - lo) div 2 \<and> lo + (hi - lo) div 2 < hi"
    using lt one half by (simp add: word_le_nat_alt word_less_nat_alt)
  ultimately show ?thesis by (auto simp: midpoint_def Let_def)
qed

definition before_shadow :: "prefix_list_entry list \<Rightarrow> prefix_list_entry \<Rightarrow> u32" where
  "before_shadow es shadow =
     last_sequence (filter (\<lambda>e. pl_sequence e < pl_sequence shadow) es)"

lemma before_shadow_less:
  "well_read es \<Longrightarrow> shadow \<in> set es \<Longrightarrow> before_shadow es shadow < pl_sequence shadow"
proof -
  assume es: "well_read es" "shadow \<in> set es"
  then have "0 < pl_sequence shadow"
    by (auto simp: well_read_def MIN_SEQ_def word_less_nat_alt word_le_nat_alt)
  moreover have "before_shadow es shadow \<in> pl_sequence ` {e \<in> set es. pl_sequence e < pl_sequence shadow}
      \<or> before_shadow es shadow = 0"
    unfolding before_shadow_def
    using last_sequence_mem [of "filter (\<lambda>e. pl_sequence e < pl_sequence shadow) es"] by auto
  ultimately show ?thesis by auto
qed

lemma before_shadow_max:
  "well_read es \<Longrightarrow> e \<in> set es \<Longrightarrow> pl_sequence e < pl_sequence shadow \<Longrightarrow>
   pl_sequence e \<le> before_shadow es shadow"
  unfolding before_shadow_def
  by (rule last_sequence_ge) (auto simp: well_read_def sorted_filter)

lemma plan_add_Use_cases:
  assumes "plan_add_entries es lst pfx net len = Use s"
  obtains (append) "first_match es net len = None" "last_sequence es < s"
      "MIN_SEQ \<le> s" "s \<le> MAX_SEQ" "s \<notin> pl_sequence ` set es"
    | (insert) shadow where "first_match es net len = Some shadow" "\<not> pl_permit shadow"
      "before_shadow es shadow < s" "s < pl_sequence shadow"
      "MIN_SEQ \<le> s" "s \<le> MAX_SEQ" "s \<notin> pl_sequence ` set es"
proof (cases "first_match es net len")
  case None
  let ?c = "min (sat_add (last_sequence es) APPEND_STEP) MAX_SEQ"
  from assms None have "last_sequence es < ?c" "free_or_refuse ?c es lst pfx = Use s"
    by (auto simp: plan_add_entries_def first_match_def Let_def not_le split: if_splits)
  with append None show ?thesis by (simp add: free_or_refuse_Use)
next
  case (Some shadow)
  with assms obtain c where "\<not> pl_permit shadow"
    "midpoint (before_shadow es shadow) (pl_sequence shadow) = Some c"
    "free_or_refuse c es lst pfx = Use s"
    by (auto simp: plan_add_entries_def first_match_def before_shadow_def Let_def
             split: option.splits if_splits)
  with insert Some show ?thesis by (auto simp: free_or_refuse_Use dest: midpoint_Some)
qed

lemma parsed_plans:
  assumes "parse_prefix_list out lst = Inr es" "parse_prefix pfx = Inr (net, len)"
  shows "plan_add out lst pfx = plan_add_entries es lst pfx net len"
    and "plan_remove out lst pfx = plan_remove_entries es lst pfx net len"
  using assms by (simp_all add: plan_add_def plan_remove_def)

lemma plan_add_parsed:
  assumes "plan_add out lst pfx = Use s \<or> plan_add out lst pfx = AlreadySatisfied q n"
  obtains es net len where "parse_prefix_list out lst = Inr es" "parse_prefix pfx = Inr (net, len)"
    "plan_add out lst pfx = plan_add_entries es lst pfx net len"
  using assms by (auto simp: plan_add_def split: sum.splits)

lemma first_match_exact_write:
  assumes "well_read es" "s \<notin> pl_sequence ` set es"
    and "\<And>e. e \<in> set es \<Longrightarrow> pl_sequence e < s \<Longrightarrow> \<not> entry_matches e net len"
  shows "first_match (ios_write (exact_permit s net len) es) net len = Some (exact_permit s net len)"
proof -
  have "List.find (\<lambda>e. entry_matches e net len) (insort_key pl_sequence (exact_permit s net len) es)
      = Some (exact_permit s net len)"
  proof (rule find_insort_hit)
    show "entry_matches (exact_permit s net len) net len"
      by (simp add: exact_permit_matches same_route_def)
    show "\<not> entry_matches e net len"
      if "e \<in> set es" "pl_sequence e \<le> pl_sequence (exact_permit s net len)" for e
    proof -
      from that assms(2) have "pl_sequence e \<noteq> s" by blast
      with that assms(3) show ?thesis by simp
    qed
    show "sorted (map pl_sequence es)" using assms(1) by (simp add: well_read_def)
  qed
  with assms(2) show ?thesis by (simp add: first_match_def ios_write_fresh)
qed

lemma first_match_other_write:
  assumes "s \<notin> pl_sequence ` set es" "\<not> same_route net m len k"
  shows "first_match (ios_write (exact_permit s net len) es) m k = first_match es m k"
proof -
  have "\<not> entry_matches (exact_permit s net len) m k"
    using assms(2) by (simp add: exact_permit_matches)
  with assms(1) show ?thesis
    by (simp add: first_match_def ios_write_fresh find_insort_miss)
qed

lemma earlier_no_match:
  "well_read es \<Longrightarrow> first_match es net len = Some x \<Longrightarrow> e \<in> set es \<Longrightarrow>
   pl_sequence e < pl_sequence x \<Longrightarrow> \<not> entry_matches e net len"
  unfolding first_match_def well_read_def by (blast dest: find_sorted_before)

lemma plan_add_Use_no_earlier:
  assumes "well_read es" "plan_add_entries es lst pfx net len = Use s" "e \<in> set es" "pl_sequence e < s"
  shows "\<not> entry_matches e net len"
  using assms(2)
proof (cases rule: plan_add_Use_cases)
  case append
  with assms(3) show ?thesis by (auto simp: first_match_def dest: find_NoneD)
next
  case (insert shadow)
  with assms show ?thesis by (meson earlier_no_match less_trans)
qed

subsection \<open>Rendering and reading one entry\<close>

definition qual_tokens :: "prefix_list_entry \<Rightarrow> string list" where
  "qual_tokens e =
     (case pl_ge e of None \<Rightarrow> [] | Some g \<Rightarrow> [''ge'', show_word g]) @
     (case pl_le e of None \<Rightarrow> [] | Some l \<Rightarrow> [''le'', show_word l])"

definition entry_tokens :: "prefix_list_entry \<Rightarrow> string list" where
  "entry_tokens e =
     [''seq'', show_word (pl_sequence e), if pl_permit e then ''permit'' else ''deny'',
      show_ipv4 (pl_network e) @ ''/'' @ show_word (pl_length e)] @ qual_tokens e"

lemma render_entry_tokens: "render_entry e = join '' '' (entry_tokens e)"
  by (cases "pl_ge e"; cases "pl_le e")
    (simp_all add: render_entry_def clause_def entry_tokens_def qual_tokens_def)

lemma is_token_words [simp]:
  "is_token ''seq''" "is_token ''permit''" "is_token ''deny''" "is_token ''ge''" "is_token ''le''"
  by (simp_all add: is_token_def is_ws_def code_def)

lemma slash_not_digit_dot [simp]: "CHR ''/'' \<notin> set (show_ipv4 ip)" "CHR ''('' \<notin> set (show_ipv4 ip)"
  using show_ipv4_chars [of "CHR ''/''" ip] show_ipv4_chars [of "CHR ''(''" ip]
  by (auto simp: is_digit_def code_def)

lemma paren_not_in_word [simp]: "CHR ''('' \<notin> set (show_word w)"
  using show_word_digits [of "CHR ''(''" w] by (auto simp: is_digit_def code_def)

lemma is_token_cidr: "is_token (show_ipv4 ip @ ''/'' @ show_word w)"
proof -
  have "\<forall>c \<in> set (''/'' @ show_word w). \<not> is_ws c"
    using is_token_show_word [of w] by (simp add: is_token_def is_ws_def code_def)
  then show ?thesis by (intro is_token_append) simp_all
qed

lemma entry_tokens_tokens: "\<forall>t \<in> set (entry_tokens e). is_token t"
  using is_token_cidr by (auto simp: entry_tokens_def qual_tokens_def split: option.splits)

lemma parse_quals_tokens:
  "entry_in_range e \<Longrightarrow> parse_quals None None (qual_tokens e) = Some (pl_ge e, pl_le e)"
  by (cases "pl_ge e"; cases "pl_le e")
    (simp_all add: entry_in_range_def qual_tokens_def not_less)

lemma entry_of_tokens_render: "entry_in_range e \<Longrightarrow> entry_of_tokens (entry_tokens e) = Some e"
  using parse_quals_tokens [of e]
  by (auto simp: entry_tokens_def entry_in_range_def split_once_append)

lemma no_paren_render: "CHR ''('' \<notin> set (render_entry e)"
  by (auto simp: render_entry_def clause_def split: option.splits)

lemma parse_entry_rendered:
  assumes "entry_in_range e"
  shows "parse_entry (render_entry e) = Inr e"
proof -
  have "split_once (CHR ''('') (render_entry e) = None"
    by (simp add: split_once_None no_paren_render)
  moreover have "split_whitespace (render_entry e) = entry_tokens e"
    unfolding render_entry_tokens by (rule split_whitespace_join) (rule entry_tokens_tokens)
  ultimately show ?thesis
    using entry_of_tokens_render [OF assms] by (simp add: parse_entry_def ok_or_def)
qed

subsection \<open>Properties\<close>

definition sample_list :: string where
  "sample_list =
     ''ip prefix-list L: 2 entries'' @ [newline] @
     ''   seq 5 permit 10.0.0.0/24'' @ [newline] @
     ''   seq 10 deny 0.0.0.0/0 le 32'' @ [newline]"

lemma sample_parse:
  "parse_prefix_list sample_list ''L'' =
     Inr [\<lparr>pl_sequence = 5, pl_permit = True, pl_network = Ipv4 10 0 0 0, pl_length = 24,
           pl_ge = None, pl_le = None\<rparr>,
          \<lparr>pl_sequence = 10, pl_permit = False, pl_network = Ipv4 0 0 0 0, pl_length = 0,
           pl_ge = None, pl_le = Some 32\<rparr>]"
  by (simp add: sample_list_def parse_prefix_list_def denied_def denied_markers_def read_line_def
      read_start_def parse_header_def parse_entry_def ok_or_def MIN_SEQ_def MAX_SEQ_def text_eval)

lemma sample_prefix: "parse_prefix ''10.0.0.0/24'' = Inr (Ipv4 10 0 0 0, 24)"
  "parse_prefix ''10.0.1.0/24'' = Inr (Ipv4 10 0 1 0, 24)"
  by (simp_all add: parse_prefix_def ok_or_def text_eval)

lemma netmask_24: "netmask 24 = 4294967040"
proof -
  have "push_bit 8 (- 1 :: u32) = 4294967040" by code_simp
  then show ?thesis by (simp add: netmask_def)
qed

lemma sample_networks [simp]:
  "\<not> same_network (Ipv4 10 0 0 0) (Ipv4 10 0 1 0) 24" "same_network a b 0"
  by (simp_all add: same_network_def netmask_24) (simp add: netmask_def)

lemma append_candidate:
  assumes "l < MAX_SEQ"
  shows "l < min (sat_add l APPEND_STEP) MAX_SEQ"
proof -
  have five: "unat APPEND_STEP = 5" by (simp add: APPEND_STEP_def)
  have "unat MAX_SEQ = 4294967294" by (simp add: MAX_SEQ_def)
  with assms have "unat l < 4294967294" by (simp add: word_less_nat_alt)
  then have "unat l < min (unat l + 5) 4294967295" by linarith
  then have "unat l < unat (sat_add l APPEND_STEP)"
    unfolding unat_sat_add five by simp
  then have "l < sat_add l APPEND_STEP" by (simp only: word_less_nat_alt)
  with assms show ?thesis by (simp only: min_less_iff_conj)
qed

lemma free_or_refuse_Refuse:
  "(\<exists>r. free_or_refuse c es lst pfx = Refuse r) \<longleftrightarrow>
   \<not> (MIN_SEQ \<le> c \<and> c \<le> MAX_SEQ \<and> c \<notin> pl_sequence ` set es)"
  by (auto simp: free_or_refuse_def find_None_iff split: option.splits dest: find_SomeD)

lemma min_seq_le: "MIN_SEQ \<le> s \<longleftrightarrow> 0 < s"
  by (auto simp: MIN_SEQ_def word_le_nat_alt word_less_nat_alt)

lemma no_word_between:
  "lo < hi \<Longrightarrow> hi = lo + 1 \<longleftrightarrow> \<not> (\<exists>s :: u32. lo < s \<and> s < hi)"
proof -
  assume lt: "lo < hi"
  then have one: "unat (lo + 1) = unat lo + 1"
    using unsigned_less [where 'a = nat, of hi] by (simp add: unat_word_ariths word_less_nat_alt)
  show ?thesis
  proof
    show "hi = lo + 1 \<Longrightarrow> \<not> (\<exists>s. lo < s \<and> s < hi)"
      using one by (auto simp: word_less_nat_alt)
    assume no: "\<not> (\<exists>s. lo < s \<and> s < hi)"
    from one have "lo < lo + 1" by (simp add: word_less_nat_alt)
    with no have "\<not> lo + 1 < hi" by blast
    with lt one show "hi = lo + 1"
      unfolding word_unat_eq_iff by (simp add: word_less_nat_alt)
  qed
qed

lemma well_read_last: "well_read es \<Longrightarrow> last_sequence es \<le> MAX_SEQ"
  using last_sequence_mem [of es] by (auto simp: well_read_def)

text \<open>A successful read is complete and well formed: every entry line of the requested
  section parsed, in the order of its sequence number; the numbers are distinct and accepted by
  IOS; the section was announced by exactly one header, whose count is the number of entries.\<close>

theorem parse_prefix_list_complete:
  assumes "parse_prefix_list out name = Inr es"
  shows "well_read es \<and> header_counts name (lines out) = [length es] \<and>
         (\<exists>order. map parse_entry (target_lines name False (lines out)) = map Inr order \<and>
                  es = sort_key pl_sequence order)"
proof -
  from parse_prefix_list_Inr [OF assms] obtain st
    where st: "read_lines name read_start (lines out) = Inr st" "rd_header_seen st"
      "rd_expected st = Some (length (rd_entries st))" "es = sort_key pl_sequence (rd_entries st)"
    by blast
  from read_lines_counts [OF st(1)] st(2,3,4) have "header_counts name (lines out) = [length es]"
    by (auto simp: seen_counts_def read_start_def)
  moreover from read_lines_entries [OF st(1)]
  have "map parse_entry (target_lines name False (lines out)) = map Inr (rd_entries st)"
    by (auto simp: read_start_def)
  ultimately show ?thesis using well_read_parsed [OF assms] st(4) by blast
qed

lemma parse_prefix_list_complete_witness:
  "header_counts ''L'' (lines sample_list) = [2]"
  using parse_prefix_list_complete [OF sample_parse] by simp

text \<open>C24: a sequence number chosen for an addition is accepted by IOS and free, and writing the
  exact permit there makes it the entry the route reaches, leaving the decision of every other
  route as it was.\<close>

theorem plan_add_places_permit:
  assumes "plan_add out lst pfx = Use s"
  shows "\<exists>es net len. parse_prefix_list out lst = Inr es \<and> parse_prefix pfx = Inr (net, len) \<and>
     MIN_SEQ \<le> s \<and> s \<le> MAX_SEQ \<and> s \<notin> pl_sequence ` set es \<and> \<not> advertised es net len \<and>
     first_match (ios_write (exact_permit s net len) es) net len = Some (exact_permit s net len) \<and>
     (\<forall>m k. \<not> same_route net m len k \<longrightarrow>
        first_match (ios_write (exact_permit s net len) es) m k = first_match es m k)"
proof -
  from assms obtain es net len where p: "parse_prefix_list out lst = Inr es"
    "parse_prefix pfx = Inr (net, len)" "plan_add_entries es lst pfx net len = Use s"
    using plan_add_parsed by metis
  then have wr: "well_read es" by (intro well_read_parsed)
  from p(3) have range: "MIN_SEQ \<le> s" "s \<le> MAX_SEQ" and fresh: "s \<notin> pl_sequence ` set es"
    and off: "\<not> advertised es net len"
    by (auto simp: advertised_def elim: plan_add_Use_cases)
  have "first_match (ios_write (exact_permit s net len) es) net len = Some (exact_permit s net len)"
    using wr fresh plan_add_Use_no_earlier [OF wr p(3)] by (rule first_match_exact_write)
  with p range fresh off first_match_other_write [OF fresh] show ?thesis by blast
qed

lemma plan_add_places_permit_witness:
  "plan_add sample_list ''L'' ''10.0.1.0/24'' = Use 7 \<and>
   (\<exists>es. parse_prefix_list sample_list ''L'' = Inr es \<and> advertised (ios_write (exact_permit 7 (Ipv4 10 0 1 0) 24) es) (Ipv4 10 0 1 0) 24)"
proof -
  have "plan_add sample_list ''L'' ''10.0.1.0/24'' = Use 7"
    by (simp add: plan_add_def sample_parse sample_prefix plan_add_entries_def entry_matches_def
        last_sequence_def midpoint_def free_or_refuse_def MIN_SEQ_def
        MAX_SEQ_def word_le_nat_alt)
  with plan_add_places_permit [OF this] show ?thesis
    by (auto simp: sample_parse sample_prefix advertised_def)
qed

text \<open>After both inputs were read, an addition is refused exactly when the gap in front of
  the shadowing deny holds no number at all, or when nothing matches and the list already ends at
  the highest number IOS accepts.\<close>

theorem plan_add_refuses_iff_no_room:
  assumes "parse_prefix_list out lst = Inr es" "parse_prefix pfx = Inr (net, len)"
  shows "(\<exists>r. plan_add out lst pfx = Refuse r) \<longleftrightarrow>
     (case first_match es net len of
        None \<Rightarrow> last_sequence es = MAX_SEQ
      | Some e \<Rightarrow> \<not> pl_permit e \<and>
          \<not> (\<exists>s. before_shadow es e < s \<and> s < pl_sequence e))"
proof -
  have wr: "well_read es" using assms(1) by (rule well_read_parsed)
  have plan: "plan_add out lst pfx = plan_add_entries es lst pfx net len"
    using assms by (rule parsed_plans)
  show ?thesis
  proof (cases "first_match es net len")
    case None
    let ?c = "min (sat_add (last_sequence es) APPEND_STEP) MAX_SEQ"
    have "(\<exists>r. plan_add_entries es lst pfx net len = Refuse r) \<longleftrightarrow>
        last_sequence es = MAX_SEQ"
    proof (cases "last_sequence es = MAX_SEQ")
      case True
      with None show ?thesis by (auto simp: plan_add_entries_def first_match_def)
    next
      case False
      with well_read_last [OF wr] have c: "last_sequence es < ?c"
        by (intro append_candidate) simp
      have "?c \<notin> pl_sequence ` set es"
        using last_sequence_ge [of es] wr c by (auto simp: well_read_def not_le [symmetric])
      moreover have "MIN_SEQ \<le> ?c" "?c \<le> MAX_SEQ"
        using c by (auto simp: min_seq_le intro: le_less_trans [of 0])
      ultimately have "free_or_refuse ?c es lst pfx = Use ?c" by (simp add: free_or_refuse_Use)
      with None False c show ?thesis
        by (simp add: plan_add_entries_def first_match_def Let_def not_le [symmetric])
    qed
    with None plan show ?thesis by auto
  next
    case (Some e)
    then have mem: "e \<in> set es" by (auto simp: first_match_def dest: find_SomeD)
    with wr have lt: "before_shadow es e < pl_sequence e" by (intro before_shadow_less)
    have "(\<exists>r. plan_add_entries es lst pfx net len = Refuse r) \<longleftrightarrow>
        \<not> pl_permit e \<and> midpoint (before_shadow es e) (pl_sequence e) = None"
    proof (cases "midpoint (before_shadow es e) (pl_sequence e)")
      case None
      with Some show ?thesis
        by (simp add: plan_add_entries_def first_match_def before_shadow_def Let_def)
    next
      case m: (Some c)
      then have c: "before_shadow es e < c" "c < pl_sequence e" by (auto dest: midpoint_Some)
      have "pl_sequence e \<le> MAX_SEQ" using wr mem by (auto simp: well_read_def)
      with c have "MIN_SEQ \<le> c" "c \<le> MAX_SEQ"
        by (auto simp: min_seq_le intro: le_less_trans [of 0])
      moreover have "c \<notin> pl_sequence ` set es"
        using before_shadow_max [OF wr, of _ e] c by (auto simp: not_le [symmetric])
      ultimately have "free_or_refuse c es lst pfx = Use c" by (simp add: free_or_refuse_Use)
      with Some m show ?thesis
        by (simp add: plan_add_entries_def first_match_def before_shadow_def Let_def)
    qed
    with Some plan lt show ?thesis by (simp add: midpoint_None no_word_between)
  qed
qed

lemma plan_add_refuses_iff_no_room_witness:
  "\<not> (\<exists>r. plan_add sample_list ''L'' ''10.0.0.0/24'' = Refuse r)"
  using plan_add_refuses_iff_no_room [OF sample_parse sample_prefix(1)]
  by (simp add: first_match_def entry_matches_def)

text \<open>A removal names the exact permit the route reaches; deleting that entry changes the
  decision of no other route, and nothing else in the list matches the route before it.\<close>

theorem plan_remove_names_exact_permit:
  assumes "plan_remove out lst pfx = Use s"
  shows "\<exists>es net len. parse_prefix_list out lst = Inr es \<and> parse_prefix pfx = Inr (net, len) \<and>
     first_match es net len = Some (exact_permit s net len) \<and>
     (\<forall>m k. \<not> same_route net m len k \<longrightarrow>
        first_match (ios_remove s es) m k = first_match es m k)"
proof -
  from assms obtain es net len where p: "parse_prefix_list out lst = Inr es"
    "parse_prefix pfx = Inr (net, len)" "plan_remove_entries es lst pfx net len = Use s"
    by (auto simp: plan_remove_def split: sum.splits)
  then obtain e where e: "first_match es net len = Some e" "pl_permit e" "is_exactly e net len"
    "pl_sequence e = s"
    by (auto simp: plan_remove_entries_def first_match_def split: option.splits if_splits)
  then have exact: "e = exact_permit s net len" using is_exactly_permit by blast
  have "first_match (ios_remove s es) m k = first_match es m k" if "\<not> same_route net m len k" for m k
    unfolding first_match_def ios_remove_def
  proof (rule find_filter_irrelevant)
    fix x
    assume "x \<in> set es" "\<not> pl_sequence x \<noteq> s"
    moreover have "inj_on pl_sequence (set es)" "e \<in> set es"
      using well_read_parsed [OF p(1)] e(1)
      by (auto simp: well_read_def distinct_map first_match_def dest: find_SomeD)
    ultimately have "x = e" using e(4) by (auto dest: inj_onD)
    with that exact show "\<not> entry_matches x m k" by (simp add: exact_permit_matches)
  qed
  with p e(1) exact show ?thesis by blast
qed

lemma plan_remove_names_exact_permit_witness:
  "plan_remove sample_list ''L'' ''10.0.0.0/24'' = Use 5 \<and>
   (\<exists>es. first_match es (Ipv4 10 0 0 0) 24 = Some (exact_permit 5 (Ipv4 10 0 0 0) 24))"
proof -
  have "plan_remove sample_list ''L'' ''10.0.0.0/24'' = Use 5"
    by (simp add: plan_remove_def sample_parse sample_prefix plan_remove_entries_def
        entry_matches_def is_exactly_def)
  with plan_remove_names_exact_permit [OF this] show ?thesis
    by (auto simp: sample_prefix)
qed

text \<open>An entry rendered the way IOS prints it is read back as itself.\<close>

theorem parse_entry_render:
  assumes "entry_in_range e"
  shows "parse_entry (render_entry e) = Inr e"
  using assms by (rule parse_entry_rendered)

lemma parse_entry_render_witness:
  "parse_entry (render_entry \<lparr>pl_sequence = 10, pl_permit = False, pl_network = Ipv4 0 0 0 0,
       pl_length = 0, pl_ge = None, pl_le = Some 32\<rparr>) =
   Inr \<lparr>pl_sequence = 10, pl_permit = False, pl_network = Ipv4 0 0 0 0,
       pl_length = 0, pl_ge = None, pl_le = Some 32\<rparr>"
  by (rule parse_entry_render) (simp add: entry_in_range_def MIN_SEQ_def MAX_SEQ_def)

text \<open>Removing the exact permit does not by itself stop the route from being advertised: a
  broader permit behind it takes over.\<close>

definition shadowed_list :: string where
  "shadowed_list =
     ''ip prefix-list L: 2 entries'' @ [newline] @
     ''   seq 5 permit 10.0.0.0/24'' @ [newline] @
     ''   seq 10 permit 0.0.0.0/0 le 32'' @ [newline]"

lemma plan_remove_keeps_advertising:
  "plan_remove shadowed_list ''L'' ''10.0.0.0/24'' = Use 5 \<and>
   (case parse_prefix_list shadowed_list ''L'' of
      Inr es \<Rightarrow> advertised (ios_remove 5 es) (Ipv4 10 0 0 0) 24 | Inl _ \<Rightarrow> False)"
proof -
  have "parse_prefix_list shadowed_list ''L'' =
     Inr [\<lparr>pl_sequence = 5, pl_permit = True, pl_network = Ipv4 10 0 0 0, pl_length = 24,
           pl_ge = None, pl_le = None\<rparr>,
          \<lparr>pl_sequence = 10, pl_permit = True, pl_network = Ipv4 0 0 0 0, pl_length = 0,
           pl_ge = None, pl_le = Some 32\<rparr>]"
    by (simp add: shadowed_list_def parse_prefix_list_def denied_def denied_markers_def
        read_line_def read_start_def parse_header_def parse_entry_def ok_or_def MIN_SEQ_def
        MAX_SEQ_def text_eval)
  then show ?thesis
    by (simp add: plan_remove_def sample_prefix plan_remove_entries_def entry_matches_def
        is_exactly_def ios_remove_def advertised_def first_match_def)
qed

lemma ios_remove_fresh: "s \<notin> pl_sequence ` set es \<Longrightarrow> ios_remove s es = es"
  unfolding ios_remove_def by (intro filter_True) (metis imageI)

lemma ios_remove_write:
  "s \<notin> pl_sequence ` set es \<Longrightarrow> ios_remove s (ios_write (exact_permit s net len) es) = es"
proof -
  assume fresh: "s \<notin> pl_sequence ` set es"
  have "filter (\<lambda>x. pl_sequence x \<noteq> s) (insort_key pl_sequence (exact_permit s net len) es) = es"
    using ios_remove_fresh [OF fresh] by (simp add: filter_insort_triv ios_remove_def)
  with fresh show ?thesis by (simp add: ios_remove_def ios_write_fresh)
qed

text \<open>C36: the placement is reversible: once the permit is written, planning the addition again
  finds it satisfied by exactly that entry, planning the removal names the same sequence number,
  and deleting it gives back the list that was read.\<close>

theorem plan_add_then_remove_restores:
  assumes "parse_prefix_list out lst = Inr es" "parse_prefix pfx = Inr (net, len)"
    and "plan_add out lst pfx = Use s"
  shows "let es' = ios_write (exact_permit s net len) es in
     (\<exists>note. plan_add_entries es' lst pfx net len = AlreadySatisfied (Some s) note) \<and>
     plan_remove_entries es' lst pfx net len = Use s \<and> ios_remove s es' = es"
proof -
  from assms have plan: "plan_add_entries es lst pfx net len = Use s" by (simp add: parsed_plans)
  have wr: "well_read es" using assms(1) by (rule well_read_parsed)
  have fresh: "s \<notin> pl_sequence ` set es" using plan by (auto elim: plan_add_Use_cases)
  have "first_match (ios_write (exact_permit s net len) es) net len = Some (exact_permit s net len)"
    using wr fresh plan_add_Use_no_earlier [OF wr plan] by (rule first_match_exact_write)
  moreover have "is_exactly (exact_permit s net len) net len"
    by (simp add: is_exactly_def exact_permit_def)
  ultimately show ?thesis
    using ios_remove_write [OF fresh]
    by (simp add: Let_def plan_add_entries_def plan_remove_entries_def first_match_def)
qed

lemma plan_add_then_remove_restores_witness:
  "\<exists>es. parse_prefix_list sample_list ''L'' = Inr es \<and>
     ios_remove 7 (ios_write (exact_permit 7 (Ipv4 10 0 1 0) 24) es) = es"
proof -
  have "plan_add sample_list ''L'' ''10.0.1.0/24'' = Use 7"
    by (simp add: plan_add_def sample_parse sample_prefix plan_add_entries_def entry_matches_def
        last_sequence_def midpoint_def free_or_refuse_def MIN_SEQ_def MAX_SEQ_def word_le_nat_alt)
  from plan_add_then_remove_restores [OF sample_parse sample_prefix(2) this] show ?thesis
    by (auto simp: sample_parse Let_def)
qed

end
