(* ===== verification/Device_State.thy ===== *)
theory Device_State
  imports Json Cidr Prefix_List
begin

text \<open>
  The typed device state of \<open>src/backend-rust/src/reroute/device_plan.rs\<close> and the routing
  policy types of \<open>reroute/policy.rs\<close>: snapshots, prepared actions with their inverses and
  their validation, and the safety class of a prepared export-policy change.
\<close>

subsection \<open>Routing policy (policy.rs)\<close>

datatype permit_deny = Permit | Deny

record policy_entry =
  pe_sequence :: u32
  pe_action :: permit_deny
  pe_prefix :: string
  pe_ge :: "u8 option"
  pe_le :: "u8 option"

record policy_term =
  pt_kind :: string
  pt_value :: string

record route_map_clause =
  rc_sequence :: u32
  rc_action :: permit_deny
  rc_matches :: "policy_term list"
  rc_sets :: "policy_term list"

record named_prefix_list =
  np_name :: string
  np_entries :: "policy_entry list"
  np_referenced_by :: "string list"

record named_route_map =
  nm_name :: string
  nm_clauses :: "route_map_clause list"
  nm_references :: "string list"

subsection \<open>Snapshots and prepared actions\<close>

record snapshot_entry =
  se_sequence :: u32
  se_permit :: bool
  se_prefix :: string
  se_ge :: "u8 option"
  se_le :: "u8 option"

record list_consumer =
  pc_kind :: string
  pc_owner :: string
  pc_direction :: string

datatype device_state =
    PrefixListState string "snapshot_entry list" "list_consumer list"
  | Ipv4StaticRoute string string "u32 option" bool
  | Ipv6StaticRoute string string "u32 option" bool
  | RouteResolution string string bool
  | BgpAdvertisement string string bool "string option"
  | BgpRoute string bool "string option"
  | NeighborShutdown u32 string bool
  | BgpNeighborState string bool "string option"
  | RouteMapAssignment u32 string string "string option" "string option"
  | ExportPolicyAttachment u32 string string "string option" "string option"
      "named_prefix_list list" "named_route_map list" "string list option" "string list option"
  | InterfaceAdmin string bool
  | InterfaceOperational string bool
  | InterfaceMss string "u32 option"

datatype verification_mode = Routing | ConfigurationOnly

datatype prepared_effect = ChangeEffect | AlreadySatisfiedEffect

datatype prepared_safety_effect =
    Additive | Neutral | Destructive | Mixed | Noop | Unproven

record prepared_inverse =
  pi_verification_mode :: verification_mode
  pi_expected_current :: "device_state list"
  pi_restore :: "device_state list"
  pi_commands :: "string list"
  pi_verify :: "device_state list"

record prepared_action =
  pa_schema_version :: u16
  pa_device_id :: u64
  pa_template_id :: u64
  pa_template_name :: string
  pa_canonical_params :: json
  pa_verification_mode :: verification_mode
  pa_commands :: "string list"
  pa_before :: "device_state list"
  pa_after :: "device_state list"
  pa_verify :: "device_state list"
  pa_effect :: prepared_effect
  pa_inverse :: "prepared_inverse option"
  pa_prepared_at :: int

definition PREPARED_DEVICE_ACTION_SCHEMA_VERSION :: u16 where
  "PREPARED_DEVICE_ACTION_SCHEMA_VERSION = 1"

datatype prepared_error =
    UnsupportedSchema u16
  | IncompleteIdentity
  | ChangeWithoutEvidence
  | SatisfiedOwnsCommands
  | InverseScopeDiffers
  | InverseWithoutEvidence

definition validate_prepared :: "prepared_action \<Rightarrow> prepared_error + unit" where
  "validate_prepared a =
     (if pa_schema_version a \<noteq> PREPARED_DEVICE_ACTION_SCHEMA_VERSION
      then Inl (UnsupportedSchema (pa_schema_version a))
      else if pa_device_id a = 0 \<or> pa_template_id a = 0 \<or> trim (pa_template_name a) = []
      then Inl IncompleteIdentity
      else if pa_effect a = ChangeEffect \<and>
         (pa_commands a = [] \<or> pa_before a = [] \<or> pa_after a = [] \<or> pa_verify a = [])
      then Inl ChangeWithoutEvidence
      else if pa_effect a = AlreadySatisfiedEffect \<and>
         (pa_commands a \<noteq> [] \<or> pa_inverse a \<noteq> None \<or> pa_before a = [] \<or> pa_after a = [] \<or>
          pa_verify a = [])
      then Inl SatisfiedOwnsCommands
      else (case pa_inverse a of
              None \<Rightarrow> Inr ()
            | Some iv \<Rightarrow>
                if pi_verification_mode iv \<noteq> pa_verification_mode a then Inl InverseScopeDiffers
                else if pi_commands iv = [] \<or> pi_expected_current iv = [] \<or>
                        pi_restore iv = [] \<or> pi_verify iv = []
                then Inl InverseWithoutEvidence
                else Inr ()))"

text \<open>\<open>equivalent_for_execution\<close>: everything but the time of observation.\<close>

definition equivalent_for_execution :: "prepared_action \<Rightarrow> prepared_action \<Rightarrow> bool" where
  "equivalent_for_execution a b =
     (pa_schema_version a = pa_schema_version b \<and> pa_device_id a = pa_device_id b \<and>
      pa_template_id a = pa_template_id b \<and> pa_template_name a = pa_template_name b \<and>
      pa_canonical_params a = pa_canonical_params b \<and>
      pa_verification_mode a = pa_verification_mode b \<and> pa_commands a = pa_commands b \<and>
      pa_before a = pa_before b \<and> pa_after a = pa_after b \<and> pa_verify a = pa_verify b \<and>
      pa_effect a = pa_effect b \<and> pa_inverse a = pa_inverse b)"

subsection \<open>Corrective interface work (guard.rs)\<close>

text \<open>The scan returns false at the first state that shuts an interface down or sets an MSS.\<close>

fun corrective_scan :: "bool \<Rightarrow> device_state list \<Rightarrow> bool" where
  "corrective_scan saw [] = saw"
| "corrective_scan saw (InterfaceAdmin _ sd # ss) =
     (if sd then False else corrective_scan True ss)"
| "corrective_scan saw (InterfaceMss _ m # ss) =
     (case m of Some _ \<Rightarrow> False | None \<Rightarrow> corrective_scan True ss)"
| "corrective_scan saw (s # ss) = corrective_scan saw ss"

definition corrective_interface_state :: "device_state list \<Rightarrow> bool" where
  "corrective_interface_state states = corrective_scan False states"

subsection \<open>The safety class of an export-policy change\<close>

definition rsplit_once :: "char \<Rightarrow> string \<Rightarrow> (string \<times> string) option" where
  "rsplit_once d s =
     map_option (\<lambda>(a, b). (rev b, rev a)) (split_once d (rev s))"

definition prefix_len_of :: "string \<Rightarrow> u8 option" where
  "prefix_len_of s = Option.bind (rsplit_once (CHR ''/'') s) (\<lambda>(_, n). parse_uint n)"

definition policy_entry_matches :: "policy_entry \<Rightarrow> string \<Rightarrow> u8 \<Rightarrow> bool" where
  "policy_entry_matches e candidate child_len =
     (let base_len = (case prefix_len_of (pe_prefix e) of Some n \<Rightarrow> n | None \<Rightarrow> 255);
          lo = (case pe_ge e of Some g \<Rightarrow> g | None \<Rightarrow> base_len);
          hi = (case pe_le e of Some l \<Rightarrow> l
                | None \<Rightarrow> if pe_ge e \<noteq> None then 32 else base_len)
      in lo \<le> child_len \<and> child_len \<le> hi \<and>
         unwrap_or False (cidr_contains (pe_prefix e) candidate))"

datatype permitted_error = RangedPermit string | BadCandidate

definition policy_decision :: "policy_entry list \<Rightarrow> string \<Rightarrow> u8 \<Rightarrow> permit_deny option" where
  "policy_decision entries candidate child_len =
     map_option pe_action (List.find (\<lambda>e. policy_entry_matches e candidate child_len) entries)"

text \<open>The candidates are a \<open>BTreeSet\<close>, visited in ascending order; the result is the set of
  those the list permits, or the first candidate without a readable length is an error.\<close>

fun allowed_candidates ::
    "policy_entry list \<Rightarrow> string list \<Rightarrow> permitted_error + string list" where
  "allowed_candidates entries [] = Inr []"
| "allowed_candidates entries (c # cs) =
     and_then (ok_or BadCandidate (prefix_len_of c)) (\<lambda>n.
     and_then (allowed_candidates entries cs) (\<lambda>rest.
       Inr (if policy_decision entries c n = Some Permit then c # rest else rest)))"

definition exact_permitted_prefixes_from_list ::
    "named_prefix_list \<Rightarrow> permitted_error + string set" where
  "exact_permitted_prefixes_from_list lst =
     (let entries = sort_key pe_sequence (np_entries lst) in
      if list_ex (\<lambda>e. pe_action e = Permit \<and> (pe_ge e \<noteq> None \<or> pe_le e \<noteq> None)) entries
      then Inl (RangedPermit (np_name lst))
      else (let candidates = remdups (sort (map pe_prefix (filter (\<lambda>e. pe_action e = Permit) entries)))
            in and_then (allowed_candidates entries candidates) (\<lambda>allowed. Inr (set allowed))))"

definition term_is_attribute :: "policy_term \<Rightarrow> bool" where
  "term_is_attribute t =
     (starts_with ''as-path prepend '' (pt_value t) \<or> starts_with ''metric '' (pt_value t) \<or>
      starts_with ''local-preference '' (pt_value t))"

text \<open>A route-map that permits everything and only rewrites attributes; no route-map at all
  is safe, an undefined one is not.\<close>

definition map_is_safe :: "string option \<Rightarrow> named_route_map list \<Rightarrow> bool" where
  "map_is_safe name maps =
     (case name of
        None \<Rightarrow> True
      | Some n \<Rightarrow>
          (case List.find (\<lambda>m. nm_name m = n) maps of
             None \<Rightarrow> False
           | Some m \<Rightarrow> nm_clauses m \<noteq> [] \<and>
               list_all (\<lambda>cl. rc_action cl = Permit \<and> rc_matches cl = [] \<and>
                              list_all term_is_attribute (rc_sets cl)) (nm_clauses m)))"

text \<open>The first export-policy attachment among the states, as the closures \<open>extract\<close>,
  \<open>extract_map\<close> and \<open>route_map_safe\<close> read it.\<close>

fun first_attachment ::
    "device_state list \<Rightarrow>
     (string option \<times> string option \<times> named_prefix_list list \<times> named_route_map list) option" where
  "first_attachment [] = None"
| "first_attachment (ExportPolicyAttachment _ _ _ pl rm pls rms _ _ # ss) = Some (pl, rm, pls, rms)"
| "first_attachment (s # ss) = first_attachment ss"

definition route_map_safe :: "device_state list \<Rightarrow> bool" where
  "route_map_safe states =
     (case first_attachment states of
        Some (_, rm, _, rms) \<Rightarrow> map_is_safe rm rms
      | None \<Rightarrow> False)"

text \<open>The permitted prefixes of the attached list; no attached list is unrestricted, which
  the code treats as an error here.\<close>

definition permitted_of :: "device_state list \<Rightarrow> string set option" where
  "permitted_of states =
     (case first_attachment states of
        Some (Some name, _, pls, _) \<Rightarrow>
          (case List.find (\<lambda>l. np_name l = name) pls of
             None \<Rightarrow> None
           | Some l \<Rightarrow> (case exact_permitted_prefixes_from_list l of Inr s \<Rightarrow> Some s | Inl _ \<Rightarrow> None))
      | _ \<Rightarrow> None)"

definition safety_effect_of :: "prepared_action \<Rightarrow> prepared_safety_effect" where
  "safety_effect_of a =
     (if pa_effect a = AlreadySatisfiedEffect then Noop
      else if pa_template_name a \<noteq> ''bgp_export_policy_set'' then Unproven
      else (let kind = get_str (pa_canonical_params a) ''policy_kind'' in
        if kind = Some ''route_map''
        then (if route_map_safe (pa_before a) \<and> route_map_safe (pa_after a) then Neutral else Unproven)
        else if kind \<noteq> Some ''prefix_list'' then Unproven
        else if \<not> route_map_safe (pa_before a) \<or> \<not> route_map_safe (pa_after a) then Unproven
        else (case (permitted_of (pa_before a), permitted_of (pa_after a)) of
                (Some before, Some after) \<Rightarrow>
                  if before = after then Noop
                  else if before \<subseteq> after then Additive
                  else if after \<subseteq> before then Destructive else Mixed
              | _ \<Rightarrow> Unproven)))"

subsection \<open>Reading the length of a prefix\<close>

lemma trim_no_ws: "\<forall>c \<in> set s. \<not> is_ws c \<Longrightarrow> trim s = s"
proof (cases "s = []")
  case True
  then show ?thesis by (simp add: trim_def trim_start_def trim_end_def)
next
  case False
  assume "\<forall>c \<in> set s. \<not> is_ws c"
  with False show ?thesis by (intro trim_id) (auto simp: hd_in_set)
qed

lemma digits_value_Some: "digits_value acc s = Some n \<Longrightarrow> c \<in> set s \<Longrightarrow> is_digit c"
  by (induction acc s rule: digits_value.induct) (auto split: if_splits)

lemma parse_uint_chars:
  assumes "parse_uint s = Some (w :: 'a::len word)" "c \<in> set s"
  shows "is_digit c \<or> c = CHR ''+''"
proof -
  have "digits_value 0 (case s of [] \<Rightarrow> [] | c # cs \<Rightarrow> if c = CHR ''+'' then cs else s) \<noteq> None"
    using assms(1) by (auto simp: parse_uint_def Let_def split: if_splits option.splits)
  then obtain n where n: "digits_value 0 (case s of [] \<Rightarrow> [] | c # cs \<Rightarrow> if c = CHR ''+'' then cs else s) = Some n"
    by blast
  show ?thesis
  proof (cases s)
    case Nil
    with assms(2) show ?thesis by simp
  next
    case (Cons a as)
    show ?thesis
    proof (cases "a = CHR ''+''")
      case True
      with Cons n have "digits_value 0 as = Some n" by simp
      with digits_value_Some [OF this] Cons True assms(2) show ?thesis by auto
    next
      case False
      with Cons n have "digits_value 0 s = Some n" by simp
      with digits_value_Some [OF this] assms(2) show ?thesis by auto
    qed
  qed
qed

lemma parse_uint_trim: "parse_uint s = Some (w :: 'a::len word) \<Longrightarrow> trim s = s"
  by (rule trim_no_ws) (auto dest!: parse_uint_chars dest: is_digit_not_ws simp: is_ws_def code_def)

lemma parse_uint_no_slash: "parse_uint s = Some (w :: 'a::len word) \<Longrightarrow> CHR ''/'' \<notin> set s"
  by (auto dest!: parse_uint_chars simp: is_digit_def code_def)

lemma parse_uint_unat:
  "parse_uint s = Some (v :: 'a::len word) \<Longrightarrow> parse_uint s = Some (w :: 'b::len word) \<Longrightarrow>
   unat v = unat w"
  by (auto simp: parse_uint_def Let_def unsigned_of_nat take_bit_nat_eq_self split: if_splits option.splits)

lemma rsplit_once_Some: "rsplit_once d s = Some (a, b) \<longleftrightarrow> s = a @ d # b \<and> d \<notin> set b"
proof -
  have "rsplit_once d s = Some (a, b) \<longleftrightarrow> split_once d (rev s) = Some (rev b, rev a)"
    by (auto simp: rsplit_once_def)
  also have "\<dots> \<longleftrightarrow> s = a @ d # b \<and> d \<notin> set b"
    by (auto simp: split_once_Some rev_swap)
  finally show ?thesis .
qed

lemma prefix_len_cidr:
  assumes "prefix_len_of s = Some n" "parse_cidr_any s = Inr (net, len)"
  shows "unat len = unat n"
proof -
  from assms(1) obtain a b where ab: "s = a @ CHR ''/'' # b" "CHR ''/'' \<notin> set b" "parse_uint b = Some n"
    by (auto simp: prefix_len_of_def rsplit_once_Some split: Option.bind_splits)
  from assms(2) obtain c d where cd: "s = c @ CHR ''/'' # d" "CHR ''/'' \<notin> set c"
    "parse_uint (trim d) = Some len"
    by (auto simp: parse_cidr_any_def res_simps split_once_Some split: if_splits)
  have "c = a \<and> d = b"
  proof (cases "CHR ''/'' \<in> set d")
    case False
    with ab(1,2) cd(1,2) show ?thesis by (metis append_Cons_eq_iff)
  next
    case True
    have "CHR ''/'' \<notin> set (trim d)" using cd(3) by (rule parse_uint_no_slash)
    moreover have "CHR ''/'' \<in> set (trim d)"
    proof -
      obtain x y where "d = x @ CHR ''/'' # y" using True by (meson split_list)
      moreover have "\<not> is_ws (CHR ''/'')" by (simp add: is_ws_def code_def)
      ultimately show ?thesis
        by (simp add: trim_def trim_start_def trim_end_def dropWhile_append)
    qed
    ultimately show ?thesis by blast
  qed
  with ab(3) cd(3) have "parse_uint b = Some len" using parse_uint_trim [OF ab(3)] by simp
  with ab(3) show ?thesis using parse_uint_unat by fastforce
qed

subsection \<open>The safety class is sound for the routes a peer receives\<close>

definition attached_list :: "device_state list \<Rightarrow> named_prefix_list option" where
  "attached_list states =
     (case first_attachment states of
        Some (Some name, _, pls, _) \<Rightarrow> List.find (\<lambda>l. np_name l = name) pls
      | _ \<Rightarrow> None)"

text \<open>What a prefix-list of IOS decides for a route, a network with its length: an entry selects the
  routes inside its prefix whose length lies in its range, an exact one without a range; the first
  entry in the order of the sequence numbers decides, and no entry denies.\<close>

type_synonym route = "ip_addr \<times> u32"

definition ipv4_route :: "route \<Rightarrow> bool" where
  "ipv4_route route \<longleftrightarrow> is_ipv4 (fst route) \<and> snd route \<le> 32 \<and> network_of (fst route) (snd route) = fst route"

definition ios_selects :: "route \<Rightarrow> policy_entry \<Rightarrow> bool" where
  "ios_selects route e =
     (case parse_cidr_any (pe_prefix e) of
        Inl _ \<Rightarrow> False
      | Inr (base, base_len) \<Rightarrow>
          is_ipv4 base = is_ipv4 (fst route) \<and> base_len \<le> snd route \<and>
          network_of (fst route) base_len = network_of base base_len \<and>
          (case (pe_ge e, pe_le e) of
             (None, None) \<Rightarrow> snd route = base_len
           | (Some g, None) \<Rightarrow> ucast g \<le> snd route
           | (None, Some l) \<Rightarrow> snd route \<le> ucast l
           | (Some g, Some l) \<Rightarrow> ucast g \<le> snd route \<and> snd route \<le> ucast l))"

definition list_permits :: "named_prefix_list \<Rightarrow> route \<Rightarrow> bool" where
  "list_permits l route =
     (case filter (ios_selects route) (sort_key pe_sequence (np_entries l)) of
        [] \<Rightarrow> False | e # _ \<Rightarrow> pe_action e = Permit)"

text \<open>The prefixes of the lists are words of the configuration: they hold no blank.\<close>

definition prefixes_are_words :: "device_state list \<Rightarrow> bool" where
  "prefixes_are_words states =
     (case first_attachment states of
        None \<Rightarrow> True
      | Some (_, _, pls, _) \<Rightarrow> \<forall>l \<in> set pls. \<forall>e \<in> set (np_entries l). \<forall>c \<in> set (pe_prefix e). \<not> is_ws c)"

text \<open>How a router applies an export policy, as far as the operator's texts leave it to the router:
  which routes a match term of a route-map selects, which set terms keep a route from the peer, and
  what a list or a map without a definition does.\<close>

record export_semantics =
  es_selects :: "policy_term \<Rightarrow> route \<Rightarrow> bool"
  es_withholds :: "policy_term \<Rightarrow> route \<Rightarrow> bool"
  es_undefined :: "route \<Rightarrow> bool"

text \<open>The clauses of a route-map in the order of their sequence numbers: the first clause that selects
  the route decides, a route that none selects is denied.\<close>

fun clauses_offer :: "export_semantics \<Rightarrow> route_map_clause list \<Rightarrow> route \<Rightarrow> bool" where
  "clauses_offer sem [] route = False"
| "clauses_offer sem (c # cs) route =
     (if \<forall>t \<in> set (rc_matches c). es_selects sem t route
      then rc_action c = Permit \<and> (\<forall>t \<in> set (rc_sets c). \<not> es_withholds sem t route)
      else clauses_offer sem cs route)"

definition map_offers :: "export_semantics \<Rightarrow> device_state list \<Rightarrow> route \<Rightarrow> bool" where
  "map_offers sem states route =
     (case first_attachment states of
        None \<Rightarrow> False
      | Some (_, None, _, _) \<Rightarrow> True
      | Some (_, Some name, _, maps) \<Rightarrow>
          (case filter (\<lambda>m. nm_name m = name) maps of
             [] \<Rightarrow> es_undefined sem route
           | m # _ \<Rightarrow> clauses_offer sem (sort_key rc_sequence (nm_clauses m)) route))"

definition list_offers :: "export_semantics \<Rightarrow> device_state list \<Rightarrow> route \<Rightarrow> bool" where
  "list_offers sem states route =
     (case first_attachment states of
        None \<Rightarrow> False
      | Some (None, _, _, _) \<Rightarrow> True
      | Some (Some name, _, pls, _) \<Rightarrow>
          (case filter (\<lambda>l. np_name l = name) pls of
             [] \<Rightarrow> es_undefined sem route
           | l # _ \<Rightarrow> list_permits l route))"

text \<open>A route reaches the peer when both halves of the attached policy offer it.\<close>

definition peer_receives :: "export_semantics \<Rightarrow> device_state list \<Rightarrow> route \<Rightarrow> bool" where
  "peer_receives sem states route = (list_offers sem states route \<and> map_offers sem states route)"

text \<open>The documented effect of the three attribute terms: prepending, the metric and the local
  preference change a route and withhold none.\<close>

definition attributes_only_rewrite :: "export_semantics \<Rightarrow> bool" where
  "attributes_only_rewrite sem =
     (\<forall>t keyword. keyword \<in> {''as-path prepend '', ''metric '', ''local-preference ''} \<and>
        starts_with keyword (pt_value t) \<longrightarrow> (\<forall>route. \<not> es_withholds sem t route))"

lemma permitted_of_attached:
  "permitted_of states = Some s \<longleftrightarrow>
   (\<exists>l. attached_list states = Some l \<and> exact_permitted_prefixes_from_list l = Inr s)"
  by (auto simp: permitted_of_def attached_list_def split: option.splits sum.splits prod.splits)

lemma allowed_candidates_Inr:
  "allowed_candidates entries cs = Inr allowed \<Longrightarrow>
   (\<forall>c \<in> set cs. prefix_len_of c \<noteq> None) \<and>
   set allowed = {c \<in> set cs. \<exists>n. prefix_len_of c = Some n \<and> policy_decision entries c n = Some Permit}"
  by (induction entries cs arbitrary: allowed rule: allowed_candidates.induct)
    (auto simp: res_simps split: if_splits)

lemma find_hd_filter: "List.find P xs = (case filter P xs of [] \<Rightarrow> None | x # _ \<Rightarrow> Some x)"
  by (induction xs) auto

lemma parse_cidr_any_network: "parse_cidr_any s = Inr (net, len) \<Longrightarrow> network_of net len = net"
  by (auto simp: parse_cidr_any_def res_simps network_of_nested split: if_splits)

lemma parse_cidr_any_bound: "parse_cidr_any s = Inr (net, len) \<Longrightarrow> unat len < 256"
  by (auto simp: parse_cidr_any_def res_simps word_le_nat_alt not_less split: if_splits)

lemma parse_uint_narrow:
  "parse_uint s = Some (w :: u32) \<Longrightarrow> unat w < 256 \<Longrightarrow> \<exists>v :: u8. parse_uint s = Some v"
  by (auto simp: parse_uint_def Let_def unsigned_of_nat take_bit_nat_eq_self split: if_splits option.splits)

text \<open>A prefix without blanks that reads as a network has a readable length.\<close>

lemma word_prefix_len:
  assumes "\<forall>c \<in> set s. \<not> is_ws c" "parse_cidr_any s = Inr (net, len)"
  obtains k where "prefix_len_of s = Some k" "unat k = unat len"
proof -
  from assms(2) obtain x d where d: "s = x @ CHR ''/'' # d" "parse_uint (trim d) = Some len"
    by (auto simp: parse_cidr_any_def res_simps split_once_Some split: if_splits)
  with assms(1) have t: "trim d = d" by (intro trim_no_ws) auto
  with d parse_cidr_any_bound [OF assms(2)] obtain v :: u8 where v: "parse_uint d = Some v"
    using parse_uint_narrow by metis
  have "rsplit_once (CHR ''/'') s = Some (x, d)"
    by (simp add: rsplit_once_Some d parse_uint_no_slash [OF v])
  with v have k: "prefix_len_of s = Some v" by (simp add: prefix_len_of_def)
  from that [OF k prefix_len_cidr [OF k assms(2), symmetric]] show ?thesis .
qed

text \<open>For the text of an IPv4 network the code matches an entry as IOS selects the network.\<close>

lemma entry_matches_ios:
  assumes c: "parse_cidr_any c = Inr route" "prefix_len_of c = Some k" "is_ipv4 (fst route)"
    and e: "\<forall>x \<in> set (pe_prefix e). \<not> is_ws x"
  shows "policy_entry_matches e c k = ios_selects route e"
proof (cases "parse_cidr_any (pe_prefix e)")
  case Inl
  then show ?thesis by (simp add: policy_entry_matches_def ios_selects_def cidr_contains_def unwrap_or_def Let_def)
next
  case (Inr b)
  obtain a n where r: "route = (a, n)" by fastforce
  obtain base bl where b: "b = (base, bl)" by fastforce
  obtain m where m: "prefix_len_of (pe_prefix e) = Some m" "unat m = unat bl"
    using word_prefix_len [OF e] Inr b by metis
  have k: "unat k = unat n" using prefix_len_cidr [OF c(2)] c(1) r by simp
  have n: "unat n \<le> 32" using c(1,3) r
    by (auto simp: parse_cidr_any_def res_simps word_le_nat_alt not_less split: if_splits)
  have u: "unat (ucast g :: u32) = unat g" for g :: u8
  proof -
    have "unat g < 2 ^ LENGTH(8)" by (rule unsigned_less)
    then show ?thesis by (simp add: unsigned_ucast_eq take_bit_nat_eq_self)
  qed
  have eq: "n = bl \<longleftrightarrow> m \<le> k \<and> k \<le> m" using k m(2) by (auto simp: word_le_nat_alt word_unat_eq_iff)
  show ?thesis
    using Inr b r c m(1) n k m(2)
    by (cases "pe_ge e"; cases "pe_le e")
      (auto simp: policy_entry_matches_def ios_selects_def cidr_contains_def unwrap_or_def Let_def
        word_le_nat_alt word_less_nat_alt u word_unat_eq_iff)
qed

lemma decision_ios:
  assumes "parse_cidr_any c = Inr route" "prefix_len_of c = Some k" "is_ipv4 (fst route)"
    "\<forall>e \<in> set (np_entries l). \<forall>x \<in> set (pe_prefix e). \<not> is_ws x"
  shows "policy_decision (sort_key pe_sequence (np_entries l)) c k = Some Permit \<longleftrightarrow> list_permits l route"
proof -
  have "filter (\<lambda>e. policy_entry_matches e c k) (sort_key pe_sequence (np_entries l)) =
      filter (ios_selects route) (sort_key pe_sequence (np_entries l))"
    using assms entry_matches_ios by (intro filter_cong) auto
  then show ?thesis by (simp add: policy_decision_def list_permits_def find_hd_filter split: list.split)
qed

lemma exact_permitted:
  assumes "exact_permitted_prefixes_from_list l = Inr s"
  shows "\<forall>e \<in> set (np_entries l). pe_action e = Permit \<longrightarrow> pe_ge e = None \<and> pe_le e = None"
    "s = {c. (\<exists>e \<in> set (np_entries l). pe_action e = Permit \<and> c = pe_prefix e) \<and>
       (\<exists>n. prefix_len_of c = Some n \<and> policy_decision (sort_key pe_sequence (np_entries l)) c n = Some Permit)}"
    "\<forall>e \<in> set (np_entries l). pe_action e = Permit \<longrightarrow> prefix_len_of (pe_prefix e) \<noteq> None"
proof -
  let ?es = "sort_key pe_sequence (np_entries l)"
  from assms obtain allowed
    where unranged: "\<forall>e \<in> set ?es. pe_action e = Permit \<longrightarrow> pe_ge e = None \<and> pe_le e = None"
      and allowed: "allowed_candidates ?es
          (remdups (sort (map pe_prefix (filter (\<lambda>e. pe_action e = Permit) ?es)))) = Inr allowed"
      and s: "s = set allowed"
    by (auto simp: exact_permitted_prefixes_from_list_def Let_def res_simps list_ex_iff
             split: if_splits)
  from unranged show "\<forall>e \<in> set (np_entries l). pe_action e = Permit \<longrightarrow> pe_ge e = None \<and> pe_le e = None" by simp
  from allowed_candidates_Inr [OF allowed]
  show "s = {c. (\<exists>e \<in> set (np_entries l). pe_action e = Permit \<and> c = pe_prefix e) \<and>
       (\<exists>n. prefix_len_of c = Some n \<and> policy_decision ?es c n = Some Permit)}"
    "\<forall>e \<in> set (np_entries l). pe_action e = Permit \<longrightarrow> prefix_len_of (pe_prefix e) \<noteq> None"
    unfolding s by auto
qed

text \<open>The set of permitted prefixes decides which IPv4 routes the list permits.\<close>

lemma permitted_set_decides:
  assumes "exact_permitted_prefixes_from_list l = Inr s" "ipv4_route route"
    "\<forall>e \<in> set (np_entries l). \<forall>x \<in> set (pe_prefix e). \<not> is_ws x"
  shows "list_permits l route \<longleftrightarrow> (\<exists>c \<in> s. parse_cidr_any c = Inr route)"
proof
  assume p: "list_permits l route"
  then obtain e es where es: "filter (ios_selects route) (sort_key pe_sequence (np_entries l)) = e # es"
    and permit: "pe_action e = Permit"
    by (auto simp: list_permits_def split: list.splits)
  from es have "e \<in> set (filter (ios_selects route) (sort_key pe_sequence (np_entries l)))" by simp
  with permit have e: "e \<in> set (np_entries l)" "ios_selects route e" "pe_action e = Permit" by simp_all
  from exact_permitted(1) [OF assms(1)] e have "pe_ge e = None" "pe_le e = None" by blast+
  with e(2) obtain base where b: "parse_cidr_any (pe_prefix e) = Inr (base, snd route)"
    "network_of (fst route) (snd route) = network_of base (snd route)"
    by (auto simp: ios_selects_def split: sum.splits prod.splits)
  with parse_cidr_any_network assms(2) have c: "parse_cidr_any (pe_prefix e) = Inr route"
    by (cases route) (auto simp: ipv4_route_def)
  from exact_permitted(3) [OF assms(1)] e obtain k where k: "prefix_len_of (pe_prefix e) = Some k" by blast
  have "is_ipv4 (fst route)" using assms(2) by (simp add: ipv4_route_def)
  from decision_ios [OF c k this assms(3)] p k e c exact_permitted(2) [OF assms(1)]
  show "\<exists>c \<in> s. parse_cidr_any c = Inr route" by blast
next
  assume "\<exists>c \<in> s. parse_cidr_any c = Inr route"
  then obtain c k where c: "parse_cidr_any c = Inr route" "prefix_len_of c = Some k"
    "policy_decision (sort_key pe_sequence (np_entries l)) c k = Some Permit"
    using exact_permitted(2) [OF assms(1)] by blast
  have "is_ipv4 (fst route)" using assms(2) by (simp add: ipv4_route_def)
  from decision_ios [OF c(1,2) this assms(3)] c(3) show "list_permits l route" by simp
qed


lemma attribute_rewrites:
  "attributes_only_rewrite sem \<Longrightarrow> term_is_attribute t \<Longrightarrow> \<not> es_withholds sem t route"
  unfolding attributes_only_rewrite_def term_is_attribute_def by blast

lemma clauses_offer_safe:
  assumes "attributes_only_rewrite sem" "cs \<noteq> []"
    "list_all (\<lambda>c. rc_action c = Permit \<and> rc_matches c = [] \<and> list_all term_is_attribute (rc_sets c)) cs"
  shows "clauses_offer sem cs route"
  using assms(2,3) attribute_rewrites [OF assms(1)] by (cases cs) (auto simp: list_all_iff)

text \<open>A safe route-map offers every route.\<close>

lemma route_map_safe_offers:
  assumes "attributes_only_rewrite sem" "route_map_safe states"
  shows "map_offers sem states route"
proof -
  have sorted: "clauses_offer sem (sort_key rc_sequence (nm_clauses m)) route"
    if "nm_clauses m \<noteq> []" "list_all (\<lambda>c. rc_action c = Permit \<and> rc_matches c = [] \<and>
      list_all term_is_attribute (rc_sets c)) (nm_clauses m)" for m
    using assms(1) that by (intro clauses_offer_safe) (auto simp: list_all_iff simp flip: length_greater_0_conv)
  from assms(2) sorted show ?thesis
    by (auto simp: route_map_safe_def map_is_safe_def map_offers_def find_hd_filter
        split: option.splits list.splits prod.splits)
qed

lemma list_offers_attached:
  "attached_list states = Some l \<Longrightarrow> list_offers sem states route = list_permits l route"
  by (auto simp: attached_list_def list_offers_def find_hd_filter split: option.splits list.splits prod.splits)

lemma attached_words:
  "attached_list states = Some l \<Longrightarrow> prefixes_are_words states \<Longrightarrow>
   \<forall>e \<in> set (np_entries l). \<forall>x \<in> set (pe_prefix e). \<not> is_ws x"
  by (auto simp: attached_list_def prefixes_are_words_def split: option.splits prod.splits dest: find_SomeD)

lemma permitted_subset_offers:
  assumes "permitted_of xs = Some s" "permitted_of ys = Some t" "s \<subseteq> t" "list_offers sem xs route"
    "ipv4_route route" "prefixes_are_words xs" "prefixes_are_words ys"
  shows "list_offers sem ys route"
proof -
  from assms(1,2) obtain l m where l: "attached_list xs = Some l" "exact_permitted_prefixes_from_list l = Inr s"
    and m: "attached_list ys = Some m" "exact_permitted_prefixes_from_list m = Inr t"
    by (auto simp: permitted_of_attached)
  note in_l = permitted_set_decides [OF l(2) assms(5) attached_words [OF l(1) assms(6)]]
  note in_m = permitted_set_decides [OF m(2) assms(5) attached_words [OF m(1) assms(7)]]
  from assms(4) l(1) have "list_permits l route" by (simp add: list_offers_attached)
  with assms(3) have "list_permits m route" unfolding in_l in_m by blast
  with m(1) show ?thesis by (simp add: list_offers_attached)
qed

lemma permitted_subset_receives:
  assumes "attributes_only_rewrite sem" "route_map_safe ys" "prefixes_are_words xs" "prefixes_are_words ys"
    "permitted_of xs = Some s" "permitted_of ys = Some t" "ipv4_route route" "s \<subseteq> t" "peer_receives sem xs route"
  shows "peer_receives sem ys route"
  using assms(9) permitted_subset_offers [OF assms(5,6,8) _ assms(7,3,4)] route_map_safe_offers [OF assms(1,2)]
  by (simp add: peer_receives_def)

lemma safety_effect_sets:
  assumes "pa_effect a \<noteq> AlreadySatisfiedEffect" "safety_effect_of a \<in> {Additive, Destructive, Noop}"
  shows "\<exists>s t. permitted_of (pa_before a) = Some s \<and> permitted_of (pa_after a) = Some t \<and>
    route_map_safe (pa_before a) \<and> route_map_safe (pa_after a) \<and>
    (safety_effect_of a \<in> {Additive, Noop} \<longrightarrow> s \<subseteq> t) \<and> (safety_effect_of a \<in> {Destructive, Noop} \<longrightarrow> t \<subseteq> s)"
  using assms by (auto simp: safety_effect_of_def Let_def split: if_splits option.splits)

lemma neutral_maps_safe:
  "safety_effect_of a = Neutral \<Longrightarrow> route_map_safe (pa_before a) \<and> route_map_safe (pa_after a)"
  by (auto simp: safety_effect_of_def Let_def split: if_splits option.splits)

text \<open>C31: an export-policy change classified as additive withdraws no IPv4 route from the peer, one
  classified as destructive offers it no new one, one that is found to change nothing (and was
  not already satisfied) leaves the peer the same routes, and one classified as neutral has a
  route-map that offers every route before and after. A peer receives a route that the attached
  prefix-list permits, as IOS reads it, and that the attached route-map lets through; what its
  match terms select, what other set terms than the three attribute terms withhold, and what an
  undefined policy does are the router's. The prefixes in the lists contain no blanks, as they are
  words of the configuration; routes are IPv4, as the code closes an open range at length 32.\<close>

theorem safety_effect_sound:
  assumes "attributes_only_rewrite sem" and "prefixes_are_words (pa_before a)" "prefixes_are_words (pa_after a)"
    and "ipv4_route route"
  shows "(safety_effect_of a = Additive \<longrightarrow>
      peer_receives sem (pa_before a) route \<longrightarrow> peer_receives sem (pa_after a) route) \<and>
   (safety_effect_of a = Destructive \<longrightarrow>
      peer_receives sem (pa_after a) route \<longrightarrow> peer_receives sem (pa_before a) route) \<and>
   (safety_effect_of a = Noop \<and> pa_effect a \<noteq> AlreadySatisfiedEffect \<longrightarrow>
      peer_receives sem (pa_after a) route = peer_receives sem (pa_before a) route) \<and>
   (safety_effect_of a = Neutral \<longrightarrow>
      map_offers sem (pa_before a) route \<and> map_offers sem (pa_after a) route)"
proof (cases "safety_effect_of a \<in> {Additive, Destructive, Noop} \<and> pa_effect a \<noteq> AlreadySatisfiedEffect")
  case True
  from safety_effect_sets [OF True [THEN conjunct2] True [THEN conjunct1]]
  obtain s t where sets: "permitted_of (pa_before a) = Some s" "permitted_of (pa_after a) = Some t"
    and safe: "route_map_safe (pa_before a)" "route_map_safe (pa_after a)"
    and up: "safety_effect_of a \<in> {Additive, Noop} \<longrightarrow> s \<subseteq> t"
    and down: "safety_effect_of a \<in> {Destructive, Noop} \<longrightarrow> t \<subseteq> s"
    by (elim exE conjE) (rule that, assumption+)
  note forth = permitted_subset_receives [OF assms(1) safe(2) assms(2,3) sets assms(4)]
  note backward = permitted_subset_receives [OF assms(1) safe(1) assms(3,2) sets(2) sets(1) assms(4)]
  from True consider "safety_effect_of a = Additive" | "safety_effect_of a = Destructive"
    | "safety_effect_of a = Noop" by blast
  then show ?thesis
  proof cases
    case 1
    with up have "s \<subseteq> t" by simp
    from forth [OF this] 1 show ?thesis by auto
  next
    case 2
    with down have "t \<subseteq> s" by simp
    from backward [OF this] 2 show ?thesis by auto
  next
    case 3
    with up down have st: "s \<subseteq> t" "t \<subseteq> s" by simp_all
    have "peer_receives sem (pa_after a) route = peer_receives sem (pa_before a) route"
      using forth [OF st(1)] backward [OF st(2)] by (rule iffI [rotated])
    with 3 show ?thesis by simp
  qed
next
  case False
  have "pa_effect a = AlreadySatisfiedEffect \<Longrightarrow> safety_effect_of a = Noop" by (simp add: safety_effect_of_def)
  with False neutral_maps_safe [of a] route_map_safe_offers [OF assms(1)] show ?thesis
    by (cases "safety_effect_of a") auto
qed

definition sample_permit :: "u32 \<Rightarrow> string \<Rightarrow> policy_entry" where
  "sample_permit n p =
     \<lparr>pe_sequence = n, pe_action = Permit, pe_prefix = p, pe_ge = None, pe_le = None\<rparr>"

definition sample_attachment :: "policy_entry list \<Rightarrow> device_state" where
  "sample_attachment es =
     ExportPolicyAttachment 65000 ''192.0.2.1'' ''ipv4'' (Some ''OUT'') None
       [\<lparr>np_name = ''OUT'', np_entries = es, np_referenced_by = []\<rparr>] [] None None"

definition sample_export :: prepared_action where
  "sample_export = \<lparr>pa_schema_version = 1, pa_device_id = 1, pa_template_id = 7,
     pa_template_name = ''bgp_export_policy_set'',
     pa_canonical_params = JObj [(''policy_kind'', JStr ''prefix_list'')],
     pa_verification_mode = Routing, pa_commands = [],
     pa_before = [sample_attachment [sample_permit 5 ''10.0.0.0/24'']],
     pa_after = [sample_attachment [sample_permit 5 ''10.0.0.0/24'', sample_permit 10 ''10.0.1.0/24'']],
     pa_verify = [], pa_effect = ChangeEffect, pa_inverse = None, pa_prepared_at = 0\<rparr>"

lemma sample_contains:
  "cidr_contains ''10.0.0.0/24'' ''10.0.0.0/24'' = Inr True"
  "cidr_contains ''10.0.1.0/24'' ''10.0.1.0/24'' = Inr True"
  "cidr_contains ''10.0.0.0/24'' ''10.0.1.0/24'' = Inr False"
proof -
  have m: "mask4 24 = 4294967040" by code_simp
  show "cidr_contains ''10.0.0.0/24'' ''10.0.0.0/24'' = Inr True"
    "cidr_contains ''10.0.1.0/24'' ''10.0.1.0/24'' = Inr True"
    "cidr_contains ''10.0.0.0/24'' ''10.0.1.0/24'' = Inr False"
    by (simp_all add: cidr_contains_def parse_cidr_any_def ok_or_def m ipv4_of_u32_def text_eval)
qed

lemma sample_lengths: "prefix_len_of ''10.0.0.0/24'' = Some 24" "prefix_len_of ''10.0.1.0/24'' = Some 24"
  by (simp_all add: prefix_len_of_def rsplit_once_def text_eval)

text \<open>Cisco semantics in which a community may withhold a route and every match term selects nothing.\<close>

definition sample_semantics :: export_semantics where
  "sample_semantics = \<lparr>es_selects = (\<lambda>_ _. False),
     es_withholds = (\<lambda>t _. pt_value t = ''community no-advertise''), es_undefined = (\<lambda>_. True)\<rparr>"

lemma sample_semantics_rewrites: "attributes_only_rewrite sample_semantics"
proof -
  have "\<not> starts_with ''as-path prepend '' ''community no-advertise''"
    "\<not> starts_with ''metric '' ''community no-advertise''"
    "\<not> starts_with ''local-preference '' ''community no-advertise''" by code_simp+
  then show ?thesis unfolding attributes_only_rewrite_def sample_semantics_def by auto
qed

definition sample_route :: route where
  "sample_route = (V4 (Ipv4 10 0 0 0), 24)"

theorem safety_effect_sound_witness:
  "safety_effect_of sample_export = Additive \<and>
   peer_receives sample_semantics (pa_after sample_export) sample_route"
proof -
  have m: "mask4 24 = 4294967040" by code_simp
  have parsed: "parse_cidr_any ''10.0.0.0/24'' = Inr sample_route" "ipv4_route sample_route"
    by (simp_all add: parse_cidr_any_def ok_or_def m ipv4_of_u32_def text_eval sample_route_def ipv4_route_def)
  have additive: "safety_effect_of sample_export = Additive"
    by (simp add: safety_effect_of_def sample_export_def get_str_def route_map_safe_def
        sample_attachment_def map_is_safe_def permitted_of_def sample_permit_def
        exact_permitted_prefixes_from_list_def ok_or_def sample_lengths policy_decision_def
        policy_entry_matches_def sample_contains)
  have receives: "peer_receives sample_semantics (pa_before sample_export) sample_route"
    by (simp add: peer_receives_def list_offers_def map_offers_def sample_export_def sample_attachment_def
        list_permits_def ios_selects_def sample_permit_def parsed split_beta)
  have words: "prefixes_are_words (pa_before sample_export)" "prefixes_are_words (pa_after sample_export)"
    by (auto simp: prefixes_are_words_def sample_export_def sample_attachment_def sample_permit_def is_ws_def code_def)
  from safety_effect_sound [OF sample_semantics_rewrites words parsed(2)] additive receives show ?thesis by blast
qed

end
