(* ===== verification/Database.thy ===== *)
theory Database
  imports Device_State
begin

text \<open>
  The tables the reroute engine keeps in MySQL (\<open>src/backend-rust/migrations\<close>), as lists of
  rows in insertion order, with the reads and writes that the engine's queries make. Columns
  that no modelled query reads are left out. A JSON column holds the value that serde reads back
  from it, or the decoding error. Every query can fail: a \<open>faults\<close> function gives the
  error of each query of one call, and a statement that fails inside a transaction leaves the
  database as it was. Times are seconds.
\<close>

subsection \<open>Rows\<close>

datatype reroute_state =
    Planned | Pending | Running | Verifying | Succeeded | Failed | Uncertain

datatype mutation_effect = EffectPending | EffectChanged | EffectNoop | EffectUnknown

datatype rollback_snapshot = InverseSnapshot prepared_inverse | CatalogSnapshot json

record reroute_row =
  rr_id :: u64
  rr_device_id :: "u64 option"
  rr_rule_id :: "u64 option"
  rr_bundle_id :: "u64 option"
  rr_bundle_position :: "u32 option"
  rr_rule_event_id :: "u64 option"
  rr_template_id :: u64
  rr_rollback_of :: "u64 option"
  rr_trigger_type :: string
  rr_user_id :: "u64 option"
  rr_state :: reroute_state
  rr_reason :: "string option"
  rr_params :: "json option"
  rr_commands :: "string list"
  rr_verification_mode :: "string option"
  rr_prior_state :: "(string + device_state list) option"
  rr_after_state :: "(string + device_state list) option"
  rr_template_snapshot :: "json option"
  rr_rollback_snapshot :: "rollback_snapshot option"
  rr_started_at :: "int option"
  rr_finished_at :: "int option"
  rr_success :: "bool option"
  rr_failure_reason :: "string option"
  rr_verification_status :: "string option"
  rr_mutation_effect :: mutation_effect
  rr_created_at :: int

record step_row =
  sr_reroute_id :: u64
  sr_step_number :: u32
  sr_description :: string
  sr_state :: string

datatype bundle_state =
    BundlePlanned | BundleRunning | BundleSucceeded | BundleAborted | BundleCompensating
  | BundleCompensated | BundleCompensationBlocked | BundleFailed

text \<open>The recovery columns of \<open>reroute_bundles\<close>.\<close>

datatype lifecycle_state =
    Inactive | Active | RecoveryScheduled | RecoveryClaimed | RecoveryRunning | RecoveryBlocked

record bundle_lifecycle =
  lf_state :: lifecycle_state
  lf_remaining :: u32
  lf_deadline :: "int option"
  lf_claim :: "string option"
  lf_claimed_at :: "int option"
  lf_started_at :: "int option"
  lf_recovery_bundle :: "u64 option"
  lf_cancelled_at :: "int option"
  lf_block_reason :: "string option"

definition no_lifecycle :: bundle_lifecycle where
  "no_lifecycle = \<lparr>lf_state = Inactive, lf_remaining = 0, lf_deadline = None, lf_claim = None,
     lf_claimed_at = None, lf_started_at = None, lf_recovery_bundle = None, lf_cancelled_at = None,
     lf_block_reason = None\<rparr>"

record bundle_row =
  bn_id :: u64
  bn_rule_id :: "u64 option"
  bn_trigger_type :: string
  bn_user_id :: "u64 option"
  bn_verification_mode :: "string option"
  bn_state :: bundle_state
  bn_rate_reserved :: u32
  bn_rate_consumed :: u32
  bn_finished_at :: "int option"
  bn_created_at :: int
  bn_parent :: "u64 option"
  bn_total_actions :: u32
  bn_source :: json
  bn_failure_reason :: "string option"
  bn_lifecycle :: bundle_lifecycle

text \<open>\<open>recovery_attempt_sources\<close> and \<open>recovery_attempt_device_memberships\<close>.\<close>

datatype settlement = ActiveClaim | Restored | KnownNoWrite | BlockedClaim

record attempt_source =
  rs_child :: u64
  rs_source :: u64
  rs_token :: string
  rs_settlement :: settlement
  rs_settled_at :: "int option"

record attempt_membership =
  am_child :: u64
  am_source :: u64
  am_device :: u64
  am_created :: bool
  am_released_at :: "int option"

text \<open>\<open>reroute_outputs\<close>, \<open>reroute_verifications\<close> and the reachability columns of
  \<open>devices\<close>; the three instants are in nanoseconds, as chrono reads them.\<close>

record output_row =
  or_reroute_id :: u64
  or_step_number :: u32
  or_request :: string
  or_response :: string
  or_status :: string

record verification_row =
  vr_reroute_id :: u64
  vr_expected :: string
  vr_observed :: string
  vr_result :: string

record device_row =
  dv_id :: u64
  dv_ssh_status :: string
  dv_last_ssh_ok_at :: "int option"
  dv_ssh_reachable_since :: "int option"
  dv_last_ssh_error :: "string option"

record bundle_action_row =
  ba_id :: u64
  ba_bundle_id :: u64
  ba_position :: u32
  ba_device_id :: u64
  ba_verification_mode :: "string option"
  ba_template_snapshot :: json
  ba_rollback_snapshot :: "json option"
  ba_prepared :: "(string + prepared_action) option"
  ba_state :: string
  ba_mutation_effect :: mutation_effect
  ba_reroute_id :: "u64 option"
  ba_original_reroute_id :: "u64 option"

record lock_row =
  lk_id :: u64
  lk_scope :: string
  lk_scope_ref :: "string option"
  lk_reroute_id :: "u64 option"
  lk_kind :: string
  lk_reason :: string
  lk_created_by :: "u64 option"
  lk_cleared_at :: "int option"
  lk_cleared_by :: "u64 option"

record change_window =
  cw_device_id :: u64
  cw_bundle_id :: "u64 option"
  cw_reroute_id :: "u64 option"
  cw_owner_token :: string
  cw_phase :: string

record cooldown_row =
  cd_scope :: string
  cd_scope_ref :: string
  cd_until :: int
  cd_reason :: string

record interface_row =
  if_device_id :: u64
  if_name :: "string option"
  if_descr :: "string option"
  if_protected :: int

record alert_row =
  al_event :: string
  al_severity :: string
  al_device_id :: "u64 option"
  al_dedup_key :: string

record audit_row =
  au_actor_type :: string
  au_user_id :: "u64 option"
  au_event :: string
  au_reroute_id :: u64
  au_message :: string

record database =
  db_reroutes :: "reroute_row list"
  db_steps :: "step_row list"
  db_outputs :: "output_row list"
  db_verifications :: "verification_row list"
  db_devices :: "device_row list"
  db_bundles :: "bundle_row list"
  db_bundle_actions :: "bundle_action_row list"
  db_locks :: "lock_row list"
  db_windows :: "change_window list"
  db_window_sources :: "(u64 \<times> u64) list"
  db_recovery_sources :: "attempt_source list"
  db_memberships :: "attempt_membership list"
  db_cooldowns :: "cooldown_row list"
  db_interfaces :: "interface_row list"
  db_settings :: "(string \<times> string) list"
  db_alerts :: "alert_row list"
  db_audit :: "audit_row list"
  db_bundle_audit :: "(string \<times> u64 \<times> string) list"
  db_next_bundle :: u64
  db_next_reroute :: u64
  db_next_lock :: u64

definition empty_database :: database where
  "empty_database = \<lparr>db_reroutes = [], db_steps = [], db_outputs = [], db_verifications = [],
     db_devices = [], db_bundles = [], db_bundle_actions = [], db_locks = [], db_windows = [],
     db_window_sources = [], db_recovery_sources = [], db_memberships = [], db_cooldowns = [],
     db_interfaces = [], db_settings = [], db_alerts = [], db_audit = [], db_bundle_audit = [],
     db_next_bundle = 1, db_next_reroute = 1, db_next_lock = 1\<rparr>"

subsection \<open>Queries and their failures\<close>

datatype db_query =
    QBundleMode | QBundleMixed | QBundleDevices | QBundleRequested u64 | QBundleReserve
  | QBundleReserved | QConnection | QRateLock string | QRateUnlock | QDeviceLock | QDeviceUnlock
  | QRecentCount "u64 option" | QOutstanding "u64 option" | QSetting string | QLocks | QWindow | QCooldown
  | QHistory | QPreparedAction | QInverse | QInterface | QRunning | QUncertain | QInverseExists
  | QInsert | QBegin | QCommit | QWindowSources | QRecoveryChild | QSteps
  | QDevice | QStamp | QStability | QFence | QMode string | QAuthority string | QAbort | QDetection string
  | QTransition reroute_state | QResolved | QStepText u32 | QStepState string | QOutput u32
  | QVerification | QUpdate | QAlert string | QAudit string | QCooldownWrite string string
  | QRecovery string u64
  | QFinal db_query | QStuck | QRecover u64 db_query | QReconcile db_query

type_synonym faults = "db_query \<Rightarrow> string option"

text \<open>The value of \<open>UTC_TIMESTAMP()\<close> that each query sees.\<close>

type_synonym clock = "db_query \<Rightarrow> int"

text \<open>The queries of one transaction, told apart from the same queries elsewhere in a call.\<close>

definition within :: "(db_query \<Rightarrow> db_query) \<Rightarrow> faults \<Rightarrow> faults" where
  "within tx f = (\<lambda>q. f (tx q))"

definition no_faults :: faults where
  "no_faults q = None"

definition fetch :: "faults \<Rightarrow> db_query \<Rightarrow> 'a \<Rightarrow> string + 'a" where
  "fetch f q v = (case f q of Some e \<Rightarrow> Inl e | None \<Rightarrow> Inr v)"

text \<open>\<open>UPDATE ... WHERE\<close>: the driver counts the rows that matched.\<close>

definition update_rows :: "('a \<Rightarrow> bool) \<Rightarrow> ('a \<Rightarrow> 'a) \<Rightarrow> 'a list \<Rightarrow> 'a list" where
  "update_rows p g rows = map (\<lambda>r. if p r then g r else r) rows"

definition rows_affected :: "('a \<Rightarrow> bool) \<Rightarrow> 'a list \<Rightarrow> nat" where
  "rows_affected p rows = length (filter p rows)"

definition count :: "('a \<Rightarrow> bool) \<Rightarrow> 'a list \<Rightarrow> i64" where
  "count p rows = int (length (filter p rows))"

definition as_i64 :: "'a::len word \<Rightarrow> i64" where
  "as_i64 w = sint w"

definition setting :: "database \<Rightarrow> string \<Rightarrow> string option" where
  "setting db k = map_of (db_settings db) k"

text \<open>\<open>api::settings::bool_setting\<close>: a read failure closes the gate.\<close>

definition bool_setting :: "faults \<Rightarrow> database \<Rightarrow> string \<Rightarrow> bool \<Rightarrow> bool" where
  "bool_setting f db key d =
     (case fetch f (QSetting key) (setting db key) of
        Inl _ \<Rightarrow> key = ''global_maintenance_lock''
      | Inr v \<Rightarrow> if v = Some ''true'' then True else if v = Some ''false'' then False else d)"

definition in_flight :: "reroute_state \<Rightarrow> bool" where
  "in_flight s \<longleftrightarrow> s \<in> {Planned, Pending, Running, Verifying}"

subsection \<open>Facts shared by the components\<close>

lemma fetch_no_faults [simp]: "fetch no_faults q v = Inr v"
  by (simp add: fetch_def no_faults_def)

lemma fetch_Inr_iff [res_simps]: "fetch f q v = Inr w \<longleftrightarrow> f q = None \<and> v = w"
  by (auto simp: fetch_def split: option.split)

lemma fetch_Inl_iff [res_simps]: "fetch f q v = Inl e \<longleftrightarrow> f q = Some e"
  by (auto simp: fetch_def split: option.split)

lemma set_update_rows:
  "x \<in> set (update_rows p g rows) \<longleftrightarrow> (\<exists>r \<in> set rows. x = (if p r then g r else r))"
  by (auto simp: update_rows_def)

lemma length_update_rows [simp]: "length (update_rows p g rows) = length rows"
  by (simp add: update_rows_def)

lemma map_update_rows:
  "(\<And>r. p r \<Longrightarrow> h (g r) = h r) \<Longrightarrow> map h (update_rows p g rows) = map h rows"
  by (simp add: update_rows_def)

lemma filter_update_rows:
  "(\<And>r. p r \<Longrightarrow> q (g r) = q r) \<Longrightarrow>
   filter q (update_rows p g rows) = update_rows p g (filter q rows)"
  by (induction rows) (auto simp: update_rows_def)

lemma count_pos: "0 < count p rows \<longleftrightarrow> (\<exists>r \<in> set rows. p r)"
  by (auto simp: count_def filter_empty_conv)

lemma count_nonneg [simp]: "0 \<le> count p rows"
  by (simp add: count_def)

lemma rows_affected_pos: "0 < rows_affected p rows \<longleftrightarrow> (\<exists>r \<in> set rows. p r)"
  by (auto simp: rows_affected_def filter_empty_conv)

lemma bool_setting_no_faults:
  "bool_setting no_faults db key d =
     (if setting db key = Some ''true'' then True
      else if setting db key = Some ''false'' then False else d)"
  by (simp add: bool_setting_def)

end
