(* ===== verification/Locks.thy ===== *)
theory Locks
  imports Database
begin

text \<open>
  \<open>src/backend-rust/src/reroute/locks.rs\<close>: the administrative locks of a device or of the
  whole installation, and the change windows that record which activation owns a device's
  configuration across controller crashes. SQL compares owner tokens under the column's
  collation; the comparison is the parameter \<open>same\<close>. The recovery transfer
  \<open>claim_change_windows_for_recovery\<close> belongs to the recovery component.
\<close>

subsection \<open>Administrative locks\<close>

definition lock_applies :: "string \<Rightarrow> string \<Rightarrow> lock_row \<Rightarrow> bool" where
  "lock_applies scope ref l =
     (lk_cleared_at l = None \<and>
      (lk_scope l = ''global'' \<or> (lk_scope l = scope \<and> lk_scope_ref l = Some ref)))"

definition is_blocked :: "faults \<Rightarrow> database \<Rightarrow> string \<Rightarrow> string \<Rightarrow> string + bool" where
  "is_blocked f db scope ref = fetch f QLocks (0 < count (lock_applies scope ref) (db_locks db))"

definition insert_lock ::
    "string \<Rightarrow> string option \<Rightarrow> u64 option \<Rightarrow> string \<Rightarrow> string \<Rightarrow> u64 option \<Rightarrow> database \<Rightarrow> database" where
  "insert_lock scope ref reroute kind reason actor db =
     db\<lparr>db_locks := db_locks db @
          [\<lparr>lk_id = db_next_lock db, lk_scope = scope, lk_scope_ref = ref, lk_reroute_id = reroute,
            lk_kind = kind, lk_reason = reason, lk_created_by = actor, lk_cleared_at = None,
            lk_cleared_by = None\<rparr>],
        db_next_lock := db_next_lock db + 1\<rparr>"

definition create_lock ::
    "faults \<Rightarrow> string \<Rightarrow> string option \<Rightarrow> u64 option \<Rightarrow> string \<Rightarrow> string \<Rightarrow> u64 option \<Rightarrow> database \<Rightarrow>
     string + (u64 \<times> database)" where
  "create_lock f scope ref reroute kind reason actor db =
     fetch f QLocks (db_next_lock db, insert_lock scope ref reroute kind reason actor db)"

definition clear_locks ::
    "faults \<Rightarrow> int \<Rightarrow> string \<Rightarrow> string option \<Rightarrow> u64 option \<Rightarrow> database \<Rightarrow> string + (nat \<times> database)" where
  "clear_locks f now scope ref actor db =
     (let hit = (\<lambda>l. lk_scope l = scope \<and> lk_scope_ref l = ref \<and> lk_cleared_at l = None) in
      fetch f QLocks (rows_affected hit (db_locks db),
        db\<lparr>db_locks := update_rows hit
             (\<lambda>l. l\<lparr>lk_cleared_at := Some now, lk_cleared_by := actor\<rparr>) (db_locks db)\<rparr>))"

subsection \<open>Change windows\<close>

datatype window_error =
    EmptyOwner
  | OwnedByRecovery u64
  | OwnedByOther u64 string
  | InvalidPhase
  | WindowQuery string

definition window_of :: "database \<Rightarrow> u64 \<Rightarrow> change_window option" where
  "window_of db d = List.find (\<lambda>w. cw_device_id w = d) (db_windows db)"

definition note_source :: "u64 \<Rightarrow> u64 \<Rightarrow> database \<Rightarrow> database" where
  "note_source d bundle db =
     (if (d, bundle) \<in> set (db_window_sources db) then db
      else db\<lparr>db_window_sources := db_window_sources db @ [(d, bundle)]\<rparr>)"

text \<open>One device of the acquiring transaction; \<open>child\<close> says that the bundle is a recovery
  child.\<close>

definition acquire_one ::
    "bool \<Rightarrow> u64 \<Rightarrow> string \<Rightarrow> u64 \<Rightarrow> database \<Rightarrow> window_error + database" where
  "acquire_one child bundle owner d db =
     and_then (if child then Inr ()
               else ensure (OwnedByRecovery d)
                      (count (\<lambda>(dev, src). dev = d \<and> src \<noteq> bundle) (db_window_sources db) = 0)) (\<lambda>_.
     and_then (case window_of db d of
                 Some w \<Rightarrow>
                   if cw_owner_token w = owner \<and> cw_bundle_id w = Some bundle then Inr db
                   else Inl (OwnedByOther (cw_device_id w) (cw_owner_token w))
               | None \<Rightarrow>
                   Inr (db\<lparr>db_windows := db_windows db @
                     [\<lparr>cw_device_id = d, cw_bundle_id = Some bundle, cw_reroute_id = None,
                       cw_owner_token = owner, cw_phase = ''prepared''\<rparr>]\<rparr>)) (\<lambda>db'.
       Inr (if child then db' else note_source d bundle db')))"

fun acquire_each ::
    "bool \<Rightarrow> u64 \<Rightarrow> string \<Rightarrow> u64 list \<Rightarrow> database \<Rightarrow> window_error + database" where
  "acquire_each child bundle owner [] db = Inr db"
| "acquire_each child bundle owner (d # ds) db =
     and_then (acquire_one child bundle owner d db) (acquire_each child bundle owner ds)"

definition acquire_bundle_change_windows ::
    "faults \<Rightarrow> u64 \<Rightarrow> string \<Rightarrow> u64 list \<Rightarrow> database \<Rightarrow> window_error + database" where
  "acquire_bundle_change_windows f bundle owner device_ids db =
     and_then (ensure EmptyOwner (trim owner \<noteq> [])) (\<lambda>_.
     and_then (map_err WindowQuery (fetch f QBegin ())) (\<lambda>_.
     and_then (map_err WindowQuery (fetch f QRecoveryChild
                 (0 < count (\<lambda>a. rs_child a = bundle) (db_recovery_sources db)))) (\<lambda>child.
     and_then (map_err WindowQuery (fetch f QWindow ())) (\<lambda>_.
     and_then (acquire_each child bundle owner (remdups (sort device_ids)) db) (\<lambda>db'.
       map_err WindowQuery (fetch f QCommit db'))))))"

definition change_window_allows ::
    "faults \<Rightarrow> database \<Rightarrow> u64 \<Rightarrow> string option \<Rightarrow> string + bool" where
  "change_window_allows f db d token =
     fetch f QWindow
       (case map_option cw_owner_token (window_of db d) of
          None \<Rightarrow> True
        | Some owner \<Rightarrow> token = Some owner)"

definition valid_phase :: "string \<Rightarrow> bool" where
  "valid_phase p \<longleftrightarrow> p \<in> {''prepared'', ''applying'', ''compensating'', ''uncertain''}"

definition owned_by :: "(string \<Rightarrow> string \<Rightarrow> bool) \<Rightarrow> u64 \<Rightarrow> string \<Rightarrow> change_window \<Rightarrow> bool" where
  "owned_by same bundle owner w = (cw_bundle_id w = Some bundle \<and> same (cw_owner_token w) owner)"

definition set_bundle_change_window_phase ::
    "(string \<Rightarrow> string \<Rightarrow> bool) \<Rightarrow> faults \<Rightarrow> u64 \<Rightarrow> string \<Rightarrow> string \<Rightarrow> database \<Rightarrow> window_error + database" where
  "set_bundle_change_window_phase same f bundle owner phase db =
     and_then (ensure InvalidPhase (valid_phase phase)) (\<lambda>_.
       map_err WindowQuery (fetch f QWindow
         (db\<lparr>db_windows := update_rows (owned_by same bundle owner)
               (\<lambda>w. w\<lparr>cw_phase := phase\<rparr>) (db_windows db)\<rparr>)))"

definition release_bundle_change_windows ::
    "(string \<Rightarrow> string \<Rightarrow> bool) \<Rightarrow> faults \<Rightarrow> u64 \<Rightarrow> string \<Rightarrow> database \<Rightarrow> string + (nat \<times> database)" where
  "release_bundle_change_windows same f bundle owner db =
     fetch f QWindow (rows_affected (owned_by same bundle owner) (db_windows db),
       db\<lparr>db_windows := filter (\<lambda>w. \<not> owned_by same bundle owner w) (db_windows db)\<rparr>)"

subsection \<open>Locks\<close>

lemma clear_locks_other_scope:
  assumes "clear_locks f now scope ref actor db = Inr (n, db')"
    and "lock_applies s r l" "l \<in> set (db_locks db)" "lk_scope l \<noteq> scope \<or> lk_scope_ref l \<noteq> ref"
  shows "l \<in> set (db_locks db')"
  using assms by (auto simp: clear_locks_def Let_def fetch_Inr_iff set_update_rows)

lemma insert_lock_blocks:
  "is_blocked no_faults (insert_lock scope (Some ref) reroute kind reason actor db) scope ref = Inr True"
  by (auto simp: is_blocked_def insert_lock_def count_pos lock_applies_def)

lemma global_lock_blocks:
  "is_blocked no_faults (insert_lock ''global'' ref reroute kind reason actor db) scope r = Inr True"
  by (auto simp: is_blocked_def insert_lock_def count_pos lock_applies_def)

subsection \<open>Windows: one owner per device\<close>

text \<open>The primary key of \<open>device_change_windows\<close>.\<close>

definition windows_ok :: "database \<Rightarrow> bool" where
  "windows_ok db = distinct (map cw_device_id (db_windows db))"

definition holds_window :: "u64 \<Rightarrow> string \<Rightarrow> u64 \<Rightarrow> database \<Rightarrow> bool" where
  "holds_window bundle owner d db =
     (case window_of db d of
        None \<Rightarrow> False
      | Some w \<Rightarrow> cw_owner_token w = owner \<and> cw_bundle_id w = Some bundle)"

lemma window_of_append:
  "List.find (\<lambda>w. cw_device_id w = d) (ws @ [w]) =
     (case List.find (\<lambda>w. cw_device_id w = d) ws of
        Some v \<Rightarrow> Some v | None \<Rightarrow> if cw_device_id w = d then Some w else None)"
  by (simp add: find_append split: option.split)

lemma note_source_windows [simp]: "db_windows (note_source d b db) = db_windows db"
  by (simp add: note_source_def)

lemma window_of_note_source [simp]: "window_of (note_source d b db) x = window_of db x"
  by (simp add: window_of_def)

lemma holds_window_note_source [simp]:
  "holds_window b owner x (note_source d c db) = holds_window b owner x db"
  by (simp add: holds_window_def)

lemma acquire_one_spec:
  assumes "acquire_one child bundle owner d db = Inr db'"
  shows "holds_window bundle owner d db'"
    and "window_of db x \<noteq> None \<Longrightarrow> window_of db' x = window_of db x"
    and "x \<noteq> d \<Longrightarrow> window_of db' x = window_of db x"
    and "windows_ok db \<Longrightarrow> windows_ok db'"
proof -
  from assms obtain db1 where
    cases: "(\<exists>w. window_of db d = Some w \<and> cw_owner_token w = owner \<and> cw_bundle_id w = Some bundle \<and>
               db1 = db) \<or>
            (window_of db d = None \<and>
             db1 = db\<lparr>db_windows := db_windows db @
                     [\<lparr>cw_device_id = d, cw_bundle_id = Some bundle, cw_reroute_id = None,
                       cw_owner_token = owner, cw_phase = ''prepared''\<rparr>]\<rparr>)"
    and db': "db' = (if child then db1 else note_source d bundle db1)"
    by (auto simp: acquire_one_def and_then_Inr_iff split: option.splits if_splits)
  show "holds_window bundle owner d db'"
    using cases by (auto simp: db' holds_window_def window_of_def window_of_append)
  show "window_of db x \<noteq> None \<Longrightarrow> window_of db' x = window_of db x"
    using cases by (auto simp: db' window_of_def window_of_append)
  show "x \<noteq> d \<Longrightarrow> window_of db' x = window_of db x"
    using cases by (auto simp: db' window_of_def window_of_append split: option.split)
  show "windows_ok db \<Longrightarrow> windows_ok db'"
    using cases by (auto simp: db' windows_ok_def window_of_def find_None_iff)
qed

lemma acquire_each_spec:
  "acquire_each child bundle owner ds db = Inr db' \<Longrightarrow>
   (\<forall>d \<in> set ds. holds_window bundle owner d db') \<and>
   (\<forall>x. window_of db x \<noteq> None \<longrightarrow> window_of db' x = window_of db x) \<and>
   (\<forall>x. x \<notin> set ds \<longrightarrow> window_of db' x = window_of db x) \<and>
   (windows_ok db \<longrightarrow> windows_ok db')"
proof (induction ds arbitrary: db)
  case Nil
  then show ?case by simp
next
  case (Cons d ds)
  from Cons.prems obtain db1 where one: "acquire_one child bundle owner d db = Inr db1"
    and rest: "acquire_each child bundle owner ds db1 = Inr db'"
    by (auto simp: and_then_Inr_iff)
  note s = acquire_one_spec [OF one] and IH = Cons.IH [OF rest]
  from s(1) have "window_of db1 d \<noteq> None" by (auto simp: holds_window_def split: option.splits)
  with IH s(1) have "holds_window bundle owner d db'" by (simp add: holds_window_def)
  moreover have "window_of db' x = window_of db x" if "window_of db x \<noteq> None" for x
    using IH s(2) [OF that] that by metis
  moreover have "window_of db' x = window_of db x" if "x \<notin> set (d # ds)" for x
    using IH s(3) [of x] that by simp
  ultimately show ?case using IH s(4) by simp
qed

lemma acquire_Inr:
  assumes "acquire_bundle_change_windows f bundle owner ds db = Inr db'"
  obtains child where "acquire_each child bundle owner (remdups (sort ds)) db = Inr db'"
  using assms by (auto simp: acquire_bundle_change_windows_def and_then_Inr_iff res_simps)

lemma acquire_each_foreign:
  assumes "holds_window b1 o1 d db" "d \<in> set ds" "o2 \<noteq> o1 \<or> b2 \<noteq> b1"
  shows "\<exists>e. acquire_each child b2 o2 ds db = Inl e"
proof (rule ccontr)
  assume "\<not> ?thesis"
  then obtain db' where ok: "acquire_each child b2 o2 ds db = Inr db'"
    by (cases "acquire_each child b2 o2 ds db") auto
  from acquire_each_spec [OF ok] assms have "holds_window b2 o2 d db'" "window_of db' d = window_of db d"
    by (auto simp: holds_window_def split: option.splits)
  with assms show False by (auto simp: holds_window_def split: option.splits)
qed

subsection \<open>Properties\<close>

text \<open>Acquiring the change windows of a bundle gives the bundle every device it names and
  leaves every other device, and every window that was already there, as it was; the windows
  stay one per device.\<close>

theorem acquired_windows_owned:
  assumes "acquire_bundle_change_windows f bundle owner ds db = Inr db'" "windows_ok db"
  shows "windows_ok db' \<and> (\<forall>d \<in> set ds. holds_window bundle owner d db') \<and>
     (\<forall>x. x \<notin> set ds \<or> window_of db x \<noteq> None \<longrightarrow> window_of db' x = window_of db x)"
  using assms(1)
proof (rule acquire_Inr)
  fix child assume "acquire_each child bundle owner (remdups (sort ds)) db = Inr db'"
  from acquire_each_spec [OF this] assms(2) show ?thesis by auto
qed

text \<open>C18: a device whose configuration one activation owns is closed to every other: another
  owner or bundle cannot acquire any set of devices that contains it, and an action without the
  owner's token is not allowed on it.\<close>

theorem change_windows_exclusive:
  assumes "holds_window b1 o1 d db" "d \<in> set ds" "o2 \<noteq> o1"
  shows "(\<exists>e. acquire_bundle_change_windows f b2 o2 ds db = Inl e) \<and>
     change_window_allows f db d (Some o2) \<noteq> Inr True \<and> change_window_allows f db d None \<noteq> Inr True"
proof -
  have "acquire_bundle_change_windows f b2 o2 ds db \<noteq> Inr db'" for db'
  proof
    assume "acquire_bundle_change_windows f b2 o2 ds db = Inr db'"
    then show False
    proof (rule acquire_Inr)
      fix child assume "acquire_each child b2 o2 (remdups (sort ds)) db = Inr db'"
      with acquire_each_foreign [OF assms(1), of "remdups (sort ds)" o2 b2 child] assms(2,3)
      show False by auto
    qed
  qed
  then have "\<exists>e. acquire_bundle_change_windows f b2 o2 ds db = Inl e"
    by (cases "acquire_bundle_change_windows f b2 o2 ds db") auto
  moreover from assms(1,3) have "change_window_allows f db d t \<noteq> Inr True" if "t = Some o2 \<or> t = None" for t
    using that by (auto simp: change_window_allows_def fetch_Inr_iff holds_window_def split: option.splits)
  ultimately show ?thesis by blast
qed

subsection \<open>Two activations and one device\<close>

definition owned_database :: database where
  "owned_database = empty_database\<lparr>db_windows :=
     [\<lparr>cw_device_id = 7, cw_bundle_id = Some 1, cw_reroute_id = None, cw_owner_token = ''aa'',
       cw_phase = ''prepared''\<rparr>], db_window_sources := [(7, 1)]\<rparr>"

theorem acquired_windows_owned_witness:
  "windows_ok owned_database \<and> holds_window 1 ''aa'' 7 owned_database \<and>
     window_of owned_database 3 = None"
proof -
  have "acquire_bundle_change_windows no_faults 1 ''aa'' [7, 7] empty_database = Inr owned_database"
    "windows_ok empty_database"
    by (simp_all add: acquire_bundle_change_windows_def owned_database_def empty_database_def
      acquire_one_def window_of_def note_source_def count_def windows_ok_def ensure_def map_err_def text_eval)
  from acquired_windows_owned [OF this] show ?thesis by (simp add: empty_database_def window_of_def)
qed

theorem change_windows_exclusive_witness:
  "(\<exists>e. acquire_bundle_change_windows no_faults 2 ''bb'' [3, 7] owned_database = Inl e) \<and>
     change_window_allows no_faults owned_database 7 (Some ''bb'') \<noteq> Inr True \<and>
     change_window_allows no_faults owned_database 7 None \<noteq> Inr True"
  by (rule change_windows_exclusive [of 1 "''aa''"])
    (simp_all add: holds_window_def owned_database_def window_of_def)

end
