(* ===== verification/Templates.thy ===== *)
theory Templates
  imports Json Cidr Prefix_List
begin

text \<open>
  \<open>src/backend-rust/src/reroute/templates.rs\<close>: validation of the parameters of a reroute
  template against its schema, and rendering of the exact command list. Error texts become
  constructors that carry the values they print.
\<close>

subsection \<open>Templates and rendered plans\<close>

definition DEFERRED_SEQUENCE :: string where
  "DEFERRED_SEQUENCE = ''<auto-seq>''"

definition SEQUENCE_PARAM :: string where
  "SEQUENCE_PARAM = ''sequence''"

record template =
  tp_id :: u64
  tp_name :: string
  tp_display_name :: "string option"
  tp_description :: "string option"
  tp_provider_type :: string
  tp_mode :: string
  tp_automatic_allowed :: bool
  tp_parameter_schema :: json
  tp_plan :: json
  tp_verification :: json
  tp_rollback_template_id :: "u64 option"
  tp_v6_sibling_template_id :: "u64 option"
  tp_enabled :: bool

record verify_step =
  vs_command :: string
  vs_expect :: "string option"
  vs_reject :: "string option"

record rendered_plan =
  rp_template_id :: u64
  rp_template_name :: string
  rp_config_mode :: bool
  rp_commands :: "string list"
  rp_verify :: "verify_step option"
  rp_sequence_pending :: bool

datatype param_error =
    NoSchema
  | UnknownParameter string
  | MissingRequired string
  | NotIpv4 string
  | NotAsn string
  | ZeroAsn string
  | NotInteger string
  | NotSequence string
  | SequenceOutOfRange string
  | BadCidr string cidr_error
  | TooBroad string u32 u32
  | HasWhitespace string
  | NotInEnum string "string list"
  | NotWithin string string string string
  | ContainmentCheck cidr_error

type_synonym substitution = "(string \<times> string) list"

subsection \<open>Validation\<close>

definition enforce_min_len :: "string \<Rightarrow> u32 \<Rightarrow> u32 option \<Rightarrow> param_error + unit" where
  "enforce_min_len name len min_len =
     (case min_len of
        None \<Rightarrow> Inr ()
      | Some m \<Rightarrow> if len < m then Inl (TooBroad name m len) else Inr ())"

text \<open>A non-empty string default or a number default of the schema.\<close>

definition schema_default :: "json \<Rightarrow> string option" where
  "schema_default spec =
     (case json_get spec ''default'' of
        Some (JStr s) \<Rightarrow> if s \<noteq> [] then Some s else None
      | Some (JNum n) \<Rightarrow> Some (show_number n)
      | _ \<Rightarrow> None)"

definition given_value :: "json option \<Rightarrow> string option" where
  "given_value v =
     (case v of
        Some (JStr s) \<Rightarrow> if trim s \<noteq> [] then Some (trim s) else None
      | Some (JNum n) \<Rightarrow> Some (show_number n)
      | _ \<Rightarrow> None)"

definition param_type :: "json \<Rightarrow> string" where
  "param_type spec = (case get_str spec ''type'' of Some t \<Rightarrow> t | None \<Rightarrow> ''string'')"

definition insert_cidr ::
    "string \<Rightarrow> json \<Rightarrow> string \<Rightarrow> substitution \<Rightarrow> param_error + substitution" where
  "insert_cidr name spec provided subst =
     (let family = (case get_str spec ''family'' of Some f \<Rightarrow> f | None \<Rightarrow> ''v4'');
          min_len = map_option (\<lambda>n. ucast n) (Option.bind (json_get spec ''min_len'') as_u64)
      in if family = ''v6''
         then and_then (map_err (BadCidr name) (parse_cidr_v6 provided)) (\<lambda>(net, len, norm).
              and_then (enforce_min_len name len min_len) (\<lambda>_.
                Inr (bt_insert (name @ ''_len'') (show_word len)
                    (bt_insert (name @ ''_net'') net (bt_insert name norm subst)))))
         else and_then (map_err (BadCidr name) (parse_cidr_v4 provided)) (\<lambda>(net, mask, len, norm).
              and_then (enforce_min_len name len min_len) (\<lambda>_.
                Inr (bt_insert (name @ ''_len'') (show_word len)
                    (bt_insert (name @ ''_mask'') mask
                    (bt_insert (name @ ''_net'') net (bt_insert name norm subst)))))))"

definition insert_text ::
    "string \<Rightarrow> json \<Rightarrow> string \<Rightarrow> substitution \<Rightarrow> param_error + substitution" where
  "insert_text name spec provided subst =
     (if \<exists>c \<in> set provided. is_ws c then Inl (HasWhitespace name)
      else (case Option.bind (json_get spec ''enum'') as_array of
              Some allowed \<Rightarrow>
                if \<exists>v \<in> set allowed. as_str v = Some provided
                then Inr (bt_insert name provided subst)
                else Inl (NotInEnum name (List.map_filter as_str allowed))
            | None \<Rightarrow> Inr (bt_insert name provided subst)))"

definition insert_typed ::
    "string \<Rightarrow> json \<Rightarrow> string \<Rightarrow> substitution \<Rightarrow> param_error + substitution" where
  "insert_typed name spec provided subst =
     (let ty = param_type spec in
      if ty = ''ip''
      then and_then (ok_or (NotIpv4 name) (parse_ipv4 provided)) (\<lambda>ip.
             Inr (bt_insert name (show_ipv4 ip) subst))
      else if ty = ''asn''
      then and_then (ok_or (NotAsn name) (parse_uint provided :: u32 option)) (\<lambda>asn.
             if asn = 0 then Inl (ZeroAsn name) else Inr (bt_insert name (show_word asn) subst))
      else if ty = ''int''
      then and_then (ok_or (NotInteger name) (parse_uint provided :: u32 option)) (\<lambda>n.
             Inr (bt_insert name (show_word n) subst))
      else if ty = ''seq''
      then and_then (ok_or (NotSequence name) (parse_uint provided :: u32 option)) (\<lambda>n.
             if \<not> (MIN_SEQ \<le> n \<and> n \<le> MAX_SEQ) then Inl (SequenceOutOfRange name)
             else Inr (bt_insert name (show_word n) subst))
      else if ty = ''cidr'' then insert_cidr name spec provided subst
      else insert_text name spec provided subst)"

definition expand_param ::
    "(string \<times> json) list \<Rightarrow> string \<times> json \<Rightarrow> substitution \<Rightarrow> param_error + substitution" where
  "expand_param params ns subst =
     (let (name, spec) = ns;
          required = (case Option.bind (json_get spec ''required'') as_bool of Some b \<Rightarrow> b | None \<Rightarrow> False)
      in case given_value (map_of params name) of
           Some provided \<Rightarrow> insert_typed name spec provided subst
         | None \<Rightarrow>
             (case schema_default spec of
                Some d \<Rightarrow> insert_typed name spec d subst
              | None \<Rightarrow>
                  if param_type spec = ''seq'' then Inr (bt_insert name DEFERRED_SEQUENCE subst)
                  else if required then Inl (MissingRequired name) else Inr subst))"

fun expand_params ::
    "(string \<times> json) list \<Rightarrow> (string \<times> json) list \<Rightarrow> substitution \<Rightarrow> param_error + substitution" where
  "expand_params params [] subst = Inr subst"
| "expand_params params (ns # rest) subst =
     and_then (expand_param params ns subst) (expand_params params rest)"

fun check_containment :: "(string \<times> json) list \<Rightarrow> substitution \<Rightarrow> param_error + unit" where
  "check_containment [] subst = Inr ()"
| "check_containment ((name, spec) # rest) subst =
     (case get_str spec ''subprefix_of'' of
        None \<Rightarrow> check_containment rest subst
      | Some parent \<Rightarrow>
          (case (map_of subst name, map_of subst parent) of
             (Some child, Some par) \<Rightarrow>
               and_then (map_err ContainmentCheck (cidr_contains par child)) (\<lambda>inside.
                 if inside then check_containment rest subst
                 else Inl (NotWithin name child parent par))
           | _ \<Rightarrow> check_containment rest subst))"

definition unknown_param :: "(string \<times> json) list \<Rightarrow> (string \<times> json) list \<Rightarrow> string option" where
  "unknown_param schema params =
     List.find (\<lambda>name. map_of schema name = None \<and> name \<noteq> ''prior_route_map'') (map fst params)"

definition validate_and_expand :: "json \<Rightarrow> json \<Rightarrow> param_error + substitution" where
  "validate_and_expand schema params =
     and_then (ok_or NoSchema (as_object schema)) (\<lambda>schema_obj.
       (let params_obj = (case as_object params of Some m \<Rightarrow> m | None \<Rightarrow> []) in
        case unknown_param schema_obj params_obj of
          Some name \<Rightarrow> Inl (UnknownParameter name)
        | None \<Rightarrow>
            and_then (expand_params params_obj schema_obj []) (\<lambda>subst.
            and_then (check_containment schema_obj subst) (\<lambda>_. Inr subst))))"

subsection \<open>Rendering\<close>

datatype render_error =
    NotDeviceCli
  | Params param_error
  | NoPlan
  | NoApply
  | EmptyApply
  | CommandNotText
  | UnbalancedBrace
  | Unresolved string
  | VerifyNotShow
  | VerifyWithoutExpectation
  | SequenceUnresolved string

text \<open>\<open>substitute\<close>: the text up to the next opening brace is copied, the text up to the
  closing brace is looked up.\<close>

function substitute :: "substitution \<Rightarrow> string \<Rightarrow> render_error + string" where
  "substitute subst rest =
     (case split_once (CHR ''{'') rest of
        None \<Rightarrow> Inr rest
      | Some (before, after) \<Rightarrow>
          (case split_once (CHR ''}'') after of
             None \<Rightarrow> Inl UnbalancedBrace
           | Some (key, rest') \<Rightarrow>
               (case map_of subst key of
                  None \<Rightarrow> Inl (Unresolved key)
                | Some v \<Rightarrow>
                    and_then (substitute subst rest') (\<lambda>out. Inr (before @ v @ out)))))"
  by pat_completeness auto
termination
proof (relation "measure (\<lambda>(_, s). length s)")
  fix subst :: substitution
  fix rest p before after q key rest'
  assume "split_once (CHR ''{'') rest = Some p" "(before, after) = p"
    "split_once (CHR ''}'') after = Some q" "(key, rest') = q"
  then have "rest = before @ CHR ''{'' # after" "after = key @ CHR ''}'' # rest'"
    by (auto simp: split_once_Some)
  then show "((subst, rest'), (subst, rest)) \<in> measure (\<lambda>(_, s). length s)" by simp
qed simp

declare substitute.simps [simp del]

fun substitute_all :: "substitution \<Rightarrow> json list \<Rightarrow> render_error + string list" where
  "substitute_all subst [] = Inr []"
| "substitute_all subst (c # cs) =
     and_then (ok_or CommandNotText (as_str c)) (\<lambda>raw.
     and_then (substitute subst raw) (\<lambda>cmd.
     and_then (substitute_all subst cs) (\<lambda>rest. Inr (cmd # rest))))"

definition subst_opt :: "json option \<Rightarrow> substitution \<Rightarrow> render_error + string option" where
  "subst_opt v subst =
     (case Option.bind v as_str of
        Some s \<Rightarrow> and_then (substitute subst s) (\<lambda>t. Inr (Some t))
      | None \<Rightarrow> Inr None)"

definition non_blank :: "string option \<Rightarrow> string option" where
  "non_blank v = (case v of Some s \<Rightarrow> if trim s \<noteq> [] then Some s else None | None \<Rightarrow> None)"

definition render_verify :: "json \<Rightarrow> substitution \<Rightarrow> render_error + verify_step option" where
  "render_verify verification subst =
     (case as_object verification of
        None \<Rightarrow> Inr None
      | Some _ \<Rightarrow>
          (case get_str verification ''command'' of
             None \<Rightarrow> Inr None
           | Some cmd \<Rightarrow>
               and_then (substitute subst cmd) (\<lambda>command.
                 if \<not> starts_with ''show '' (trim_start command) then Inl VerifyNotShow
                 else and_then (subst_opt (json_get verification ''expect'') subst) (\<lambda>e.
                      and_then (subst_opt (json_get verification ''reject'') subst) (\<lambda>r.
                        (let expect = non_blank e; reject = non_blank r in
                         if expect = None \<and> reject = None then Inl VerifyWithoutExpectation
                         else Inr (Some \<lparr>vs_command = command, vs_expect = expect,
                                         vs_reject = reject\<rparr>)))))))"

definition render :: "template \<Rightarrow> json \<Rightarrow> render_error + rendered_plan" where
  "render t params =
     (if tp_provider_type t \<noteq> ''device_cli'' then Inl NotDeviceCli
      else and_then (map_err Params (validate_and_expand (tp_parameter_schema t) params)) (\<lambda>subst.
      and_then (ok_or NoPlan (as_object (tp_plan t))) (\<lambda>_.
      (let plan = tp_plan t;
           config_mode = (case Option.bind (json_get plan ''config_mode'') as_bool of
                            Some b \<Rightarrow> b | None \<Rightarrow> False)
       in and_then (ok_or NoApply (Option.bind (json_get plan ''apply'') as_array)) (\<lambda>apply.
          if apply = [] then Inl EmptyApply
          else (let exec_after = (case Option.bind (json_get plan ''exec_after'') as_array of
                                    Some xs \<Rightarrow> xs | None \<Rightarrow> [])
                in and_then (substitute_all subst apply) (\<lambda>body.
                   and_then (substitute_all subst exec_after) (\<lambda>tail_cmds.
                   (let commands = (if config_mode then [''configure terminal''] else []) @ body
                          @ (if config_mode then [''end''] else []) @ tail_cmds
                    in and_then (render_verify (tp_verification t) subst) (\<lambda>verify.
                       Inr \<lparr>rp_template_id = tp_id t, rp_template_name = tp_name t,
                            rp_config_mode = config_mode, rp_commands = commands,
                            rp_verify = verify,
                            rp_sequence_pending =
                              list_ex (\<lambda>c. contains DEFERRED_SEQUENCE c) commands\<rparr>))))))))))"

definition render_with_sequence ::
    "template \<Rightarrow> json \<Rightarrow> u32 \<Rightarrow> render_error + rendered_plan \<times> json" where
  "render_with_sequence t params sequence =
     (let base = (case as_object params of Some m \<Rightarrow> m | None \<Rightarrow> []);
          resolved = JObj (bt_insert SEQUENCE_PARAM (JStr (show_word sequence)) base)
      in and_then (render t resolved) (\<lambda>plan.
           if rp_sequence_pending plan then Inl (SequenceUnresolved (tp_name t))
           else Inr (plan, resolved)))"

subsection \<open>Substituted values carry no whitespace\<close>

definition clean_text :: "string \<Rightarrow> bool" where
  "clean_text v = (\<forall>c \<in> set v. \<not> is_ws c)"

definition clean :: "substitution \<Rightarrow> bool" where
  "clean subst = (\<forall>kv \<in> set subst. clean_text (snd kv))"

lemma clean_insert: "clean subst \<Longrightarrow> clean_text v \<Longrightarrow> clean (bt_insert k v subst)"
  using set_bt_insert_subset [of k v subst] by (auto simp: clean_def)

lemma clean_Nil [simp]: "clean []"
  by (simp add: clean_def)

lemma clean_Nil_text [simp]: "clean_text []"
  by (simp add: clean_text_def)

lemma clean_Cons [simp]: "clean_text (c # cs) \<longleftrightarrow> \<not> is_ws c \<and> clean_text cs"
  by (simp add: clean_text_def)

lemma visible_chars [simp]:
  "\<not> is_ws (CHR '':'')" "\<not> is_ws (CHR ''/'')" "\<not> is_ws (CHR ''{'')" "\<not> is_ws (CHR ''}'')"
  "\<not> is_ws (CHR ''f'')" "\<not> is_ws (CHR ''<'')" "\<not> is_ws (CHR ''>'')" "\<not> is_ws (CHR ''-'')"
  by (simp_all add: is_ws_def code_def)

lemma clean_append: "clean_text (a @ b) \<longleftrightarrow> clean_text a \<and> clean_text b"
  by (auto simp: clean_text_def)

lemma clean_show [simp]: "clean_text (show_word w)" "clean_text (show_ipv4 a)"
  using is_token_show_word [of w] is_token_show_ipv4 [of a]
  by (simp_all add: is_token_def clean_text_def)

lemma hex_char_not_ws: "d < 16 \<Longrightarrow> \<not> is_ws (hex_char d)"
  by (auto simp: hex_char_def is_ws_def code_def Let_def of_char_of)

lemma clean_show_hex: "clean_text (show_hex n)"
proof (induction n rule: show_hex.induct)
  case (1 n)
  then show ?case
    using hex_char_not_ws [of n] hex_char_not_ws [of "n mod 16"]
    by (subst show_hex.simps) (auto simp: clean_text_def)
qed

lemma clean_join: "clean_text sep \<Longrightarrow> \<forall>t \<in> set ts. clean_text t \<Longrightarrow> clean_text (join sep ts)"
  by (induction sep ts rule: join.induct) (auto simp: clean_append)

lemma clean_pending [simp]: "clean_text DEFERRED_SEQUENCE"
  by (simp add: DEFERRED_SEQUENCE_def is_ws_def code_def)

lemma clean_show_groups: "clean_text (show_groups gs)"
  by (auto simp: show_groups_def clean_show_hex intro!: clean_join)

lemma clean_show_ipv6 [simp]: "clean_text (show_ipv6 a)"
  by (cases a) (auto simp: clean_append clean_show_groups Let_def intro!: clean_join
                     split: prod.splits)

lemma clean_cidr_v4:
  "parse_cidr_v4 s = Inr (net, msk, len, norm) \<Longrightarrow>
   clean_text net \<and> clean_text msk \<and> clean_text norm"
  by (auto simp: parse_cidr_v4_def res_simps Let_def clean_append split: if_splits)

lemma clean_cidr_v6: "parse_cidr_v6 s = Inr (net, len, norm) \<Longrightarrow> clean_text net \<and> clean_text norm"
  by (auto simp: parse_cidr_v6_def res_simps Let_def clean_append split: if_splits)

lemma insert_cidr_clean:
  "insert_cidr name spec p subst = Inr subst' \<Longrightarrow> clean subst \<Longrightarrow> clean subst'"
  by (auto simp: insert_cidr_def Let_def res_simps dest: clean_cidr_v4 clean_cidr_v6
           intro!: clean_insert split: if_splits)

lemma insert_text_clean:
  "insert_text name spec p subst = Inr subst' \<Longrightarrow> clean subst \<Longrightarrow> clean subst'"
  by (auto simp: insert_text_def clean_text_def intro!: clean_insert
           split: if_splits option.splits)

lemma insert_typed_clean:
  "insert_typed name spec p subst = Inr subst' \<Longrightarrow> clean subst \<Longrightarrow> clean subst'"
  by (auto simp: insert_typed_def Let_def res_simps intro: insert_cidr_clean insert_text_clean
           intro!: clean_insert split: if_splits)

lemma expand_param_clean:
  "expand_param params ns subst = Inr subst' \<Longrightarrow> clean subst \<Longrightarrow> clean subst'"
  by (auto simp: expand_param_def Let_def intro: insert_typed_clean
           intro!: clean_insert split: if_splits option.splits prod.splits)

lemma expand_params_clean:
  "expand_params params schema subst = Inr subst' \<Longrightarrow> clean subst \<Longrightarrow> clean subst'"
  by (induction params schema subst rule: expand_params.induct)
    (auto simp: res_simps dest: expand_param_clean)

lemma validate_and_expand_Inr:
  "validate_and_expand schema params = Inr subst \<Longrightarrow>
   \<exists>m. schema = JObj m \<and>
     unknown_param m (case as_object params of Some p \<Rightarrow> p | None \<Rightarrow> []) = None \<and>
     expand_params (case as_object params of Some p \<Rightarrow> p | None \<Rightarrow> []) m [] = Inr subst \<and>
     check_containment m subst = Inr ()"
  by (auto simp: validate_and_expand_def Let_def res_simps split: option.splits)

lemma validate_clean: "validate_and_expand schema params = Inr subst \<Longrightarrow> clean subst"
  by (auto dest!: validate_and_expand_Inr intro: expand_params_clean)

lemma clean_lookup: "clean subst \<Longrightarrow> map_of subst k = Some v \<Longrightarrow> clean_text v"
  by (auto simp: clean_def dest!: map_of_SomeD)

lemma clean_filter: "clean_text v \<Longrightarrow> filter is_ws v = []"
  by (simp add: clean_text_def)

subsection \<open>Rendered commands add no whitespace to the template\<close>

definition adds_no_space :: "string \<Rightarrow> string \<Rightarrow> bool" where
  "adds_no_space out raw = subseq (filter is_ws out) (filter is_ws raw)"

lemma substitute_adds_no_space:
  "substitute subst raw = Inr out \<Longrightarrow> clean subst \<Longrightarrow> adds_no_space out raw"
proof (induction subst raw arbitrary: out rule: substitute.induct)
  case (1 subst raw)
  show ?case
  proof (cases "split_once (CHR ''{'') raw")
    case None
    with "1.prems"(1) have "out = raw" by (simp add: substitute.simps [of subst raw])
    then show ?thesis by (simp add: adds_no_space_def)
  next
    case (Some p)
    then obtain before after where p: "split_once (CHR ''{'') raw = Some (before, after)"
      by (cases p) simp
    with "1.prems"(1) obtain key rest v out'
      where q: "split_once (CHR ''}'') after = Some (key, rest)" "map_of subst key = Some v"
        "substitute subst rest = Inr out'" "out = before @ v @ out'"
      by (auto simp: substitute.simps [of subst raw] res_simps split: option.splits prod.splits)
    have ih: "subseq (filter is_ws out') (filter is_ws rest)"
      using "1.IH" [OF p refl q(1) refl q(2)] q(3) "1.prems"(2) by (simp add: adds_no_space_def)
    have v: "filter is_ws v = []" using clean_lookup [OF "1.prems"(2) q(2)] by (rule clean_filter)
    have raw: "raw = before @ CHR ''{'' # key @ CHR ''}'' # rest"
      using p q(1) by (auto simp: split_once_Some)
    have "subseq (filter is_ws out') (filter is_ws (CHR ''{'' # key @ CHR ''}'' # rest))"
      using ih by (simp add: list_emb_append2)
    then have "subseq (filter is_ws before @ filter is_ws out')
        (filter is_ws before @ filter is_ws (CHR ''{'' # key @ CHR ''}'' # rest))"
      by (rule list_emb_append_mono [OF subseq_order.order_refl])
    with q(4) v raw show ?thesis by (simp add: adds_no_space_def)
  qed
qed

lemma substitute_all_adds_no_space:
  "substitute_all subst cs = Inr outs \<Longrightarrow> clean subst \<Longrightarrow>
   \<exists>raws. cs = map JStr raws \<and> list_all2 adds_no_space outs raws"
proof (induction cs arbitrary: outs)
  case Nil
  then show ?case by simp
next
  case (Cons c cs)
  then obtain raw cmd rest where c: "c = JStr raw" "substitute subst raw = Inr cmd"
    "substitute_all subst cs = Inr rest" "outs = cmd # rest"
    by (auto simp: res_simps)
  from Cons.IH [OF c(3) Cons.prems(2)] obtain raws
    where "cs = map JStr raws" "list_all2 adds_no_space rest raws" by blast
  with c substitute_adds_no_space [OF c(2) Cons.prems(2)]
  show ?case by (intro exI [of _ "raw # raws"]) simp
qed

lemma render_Inr:
  "render t params = Inr plan \<Longrightarrow>
   \<exists>subst apply_cmds body tail_cmds cm.
     validate_and_expand (tp_parameter_schema t) params = Inr subst \<and>
     Option.bind (json_get (tp_plan t) ''apply'') as_array = Some apply_cmds \<and> apply_cmds \<noteq> [] \<and>
     substitute_all subst apply_cmds = Inr body \<and>
     substitute_all subst (case Option.bind (json_get (tp_plan t) ''exec_after'') as_array of
        Some xs \<Rightarrow> xs | None \<Rightarrow> []) = Inr tail_cmds \<and>
     rp_config_mode plan = cm \<and>
     rp_commands plan = (if cm then [''configure terminal''] else []) @ body
        @ (if cm then [''end''] else []) @ tail_cmds \<and>
     rp_sequence_pending plan = list_ex (\<lambda>c. contains DEFERRED_SEQUENCE c) (rp_commands plan) \<and>
     rp_template_id plan = tp_id t \<and> rp_template_name plan = tp_name t"
  by (auto simp: render_def Let_def res_simps split: if_splits)

subsection \<open>What validation guarantees of the substitution\<close>

definition extends :: "substitution \<Rightarrow> substitution \<Rightarrow> bool" where
  "extends s s' = (bt_ok s \<longrightarrow> bt_ok s' \<and> dom (map_of s) \<subseteq> dom (map_of s'))"

lemma extends_refl [simp]: "extends s s"
  by (simp add: extends_def)

lemma extends_trans: "extends s t \<Longrightarrow> extends t u \<Longrightarrow> extends s u"
  by (auto simp: extends_def)

lemma extends_insert: "extends s t \<Longrightarrow> extends s (bt_insert k v t)"
  by (auto simp: extends_def map_of_bt_insert)

lemma insert_typed_extends:
  "insert_typed name spec p subst = Inr subst' \<Longrightarrow>
   extends subst subst' \<and> (bt_ok subst \<longrightarrow> map_of subst' name \<noteq> None)"
  by (auto simp: insert_typed_def insert_cidr_def insert_text_def Let_def res_simps
           map_of_bt_insert intro!: extends_insert split: if_splits option.splits)

lemma expand_param_extends:
  "expand_param params ns subst = Inr subst' \<Longrightarrow> extends subst subst'"
  by (auto simp: expand_param_def Let_def dest: insert_typed_extends intro!: extends_insert
           split: if_splits option.splits prod.splits)

definition is_required :: "json \<Rightarrow> bool" where
  "is_required spec = (Option.bind (json_get spec ''required'') as_bool = Some True)"

lemma expand_param_required:
  "expand_param params (name, spec) subst = Inr subst' \<Longrightarrow> is_required spec \<Longrightarrow> bt_ok subst \<Longrightarrow>
   map_of subst' name \<noteq> None"
  by (auto simp: expand_param_def is_required_def Let_def map_of_bt_insert
           dest: insert_typed_extends split: if_splits option.splits)

lemma expand_params_extends:
  "expand_params params schema subst = Inr subst' \<Longrightarrow> extends subst subst'"
  by (induction params schema subst rule: expand_params.induct)
    (auto simp: res_simps dest: expand_param_extends intro: extends_trans)

lemma expand_params_required:
  "expand_params params schema subst = Inr subst' \<Longrightarrow> bt_ok subst \<Longrightarrow>
   (name, spec) \<in> set schema \<Longrightarrow> is_required spec \<Longrightarrow> map_of subst' name \<noteq> None"
proof (induction params schema subst rule: expand_params.induct)
  case (1 params subst)
  then show ?case by simp
next
  case (2 params ns rest subst)
  then obtain s1 where s1: "expand_param params ns subst = Inr s1"
    "expand_params params rest s1 = Inr subst'" by (auto simp: res_simps)
  from expand_param_extends [OF s1(1)] "2.prems"(2) have ok: "bt_ok s1" by (simp add: extends_def)
  show ?case
  proof (cases "ns = (name, spec)")
    case True
    with expand_param_required s1(1) "2.prems"(2,4) have "map_of s1 name \<noteq> None" by blast
    with expand_params_extends [OF s1(2)] ok show ?thesis by (auto simp: extends_def)
  next
    case False
    with "2.IH" [OF s1(2) ok] "2.prems"(3,4) show ?thesis by auto
  qed
qed

lemma check_containment_sound:
  "check_containment schema subst = Inr () \<Longrightarrow> (name, spec) \<in> set schema \<Longrightarrow>
   get_str spec ''subprefix_of'' = Some parent \<Longrightarrow> map_of subst name = Some child \<Longrightarrow>
   map_of subst parent = Some par \<Longrightarrow> cidr_contains par child = Inr True"
  by (induction schema subst rule: check_containment.induct)
    (auto simp: res_simps split: option.splits if_splits)

lemma unknown_param_None:
  "unknown_param schema params = None \<Longrightarrow> map_of params k \<noteq> None \<Longrightarrow>
   map_of schema k \<noteq> None \<or> k = ''prior_route_map''"
proof -
  assume none: "unknown_param schema params = None" and "map_of params k \<noteq> None"
  then have "k \<in> set (map fst params)" by (force dest: map_of_SomeD)
  with none find_NoneD [of "\<lambda>name. map_of schema name = None \<and> name \<noteq> ''prior_route_map''" "map fst params" k]
  show ?thesis by (auto simp: unknown_param_def)
qed

subsection \<open>Properties\<close>

definition sample_schema :: json where
  "sample_schema = JObj [(''host'', JObj [(''required'', JBool True), (''subprefix_of'', JStr ''prefix''),
       (''type'', JStr ''cidr'')]),
     (''prefix'', JObj [(''min_len'', JNum (PosInt 8)), (''required'', JBool True), (''type'', JStr ''cidr'')])]"

definition sample_params :: json where
  "sample_params = JObj [(''host'', JStr ''10.2.3.4/32''), (''prefix'', JStr ''10.2.0.0/16'')]"

definition sample_template :: template where
  "sample_template = \<lparr>tp_id = 3, tp_name = ''null_route_prefix'', tp_display_name = None,
     tp_description = None, tp_provider_type = ''device_cli'', tp_mode = ''ios_ssh'',
     tp_automatic_allowed = True, tp_parameter_schema = sample_schema,
     tp_plan = JObj [(''apply'', JArr [JStr ''ip route {host_net} {host_mask} Null0'']),
                     (''config_mode'', JBool True)],
     tp_verification = JObj [(''command'', JStr ''show ip route {host_net}''), (''expect'', JStr ''Null0'')],
     tp_rollback_template_id = None, tp_v6_sibling_template_id = None, tp_enabled = True\<rparr>"

lemma sample_cidr_values:
  "parse_cidr_v4 ''10.2.3.4/32'' = Inr (''10.2.3.4'', ''255.255.255.255'', 32, ''10.2.3.4/32'')"
  "parse_cidr_v4 ''10.2.0.0/16'' = Inr (''10.2.0.0'', ''255.255.0.0'', 16, ''10.2.0.0/16'')"
  "cidr_contains ''10.2.0.0/16'' ''10.2.3.4/32'' = Inr True"
proof -
  have m: "mask4 32 = 4294967295" "mask4 16 = 4294901760" by code_simp+
  show "parse_cidr_v4 ''10.2.3.4/32'' = Inr (''10.2.3.4'', ''255.255.255.255'', 32, ''10.2.3.4/32'')"
    "parse_cidr_v4 ''10.2.0.0/16'' = Inr (''10.2.0.0'', ''255.255.0.0'', 16, ''10.2.0.0/16'')"
    by (simp_all add: parse_cidr_v4_def ok_or_def m ipv4_of_u32_def show_nat.simps text_eval)
  show "cidr_contains ''10.2.0.0/16'' ''10.2.3.4/32'' = Inr True"
    by (simp add: cidr_contains_def parse_cidr_any_def ok_or_def m ipv4_of_u32_def text_eval)
qed

lemma sample_subst:
  "validate_and_expand sample_schema sample_params =
     Inr [(''host'', ''10.2.3.4/32''), (''host_len'', ''32''), (''host_mask'', ''255.255.255.255''),
          (''host_net'', ''10.2.3.4''), (''prefix'', ''10.2.0.0/16''), (''prefix_len'', ''16''),
          (''prefix_mask'', ''255.255.0.0''), (''prefix_net'', ''10.2.0.0'')]"
  by (simp add: validate_and_expand_def sample_schema_def sample_params_def ok_or_def
      unknown_param_def expand_param_def given_value_def schema_default_def param_type_def
      get_str_def insert_typed_def insert_cidr_def enforce_min_len_def sample_cidr_values
      map_err_def show_nat.simps text_eval)

lemma sample_render:
  "render sample_template sample_params =
     Inr \<lparr>rp_template_id = 3, rp_template_name = ''null_route_prefix'', rp_config_mode = True,
          rp_commands = [''configure terminal'', ''ip route 10.2.3.4 255.255.255.255 Null0'', ''end''],
          rp_verify = Some \<lparr>vs_command = ''show ip route 10.2.3.4'', vs_expect = Some ''Null0'',
                            vs_reject = None\<rparr>,
          rp_sequence_pending = False\<rparr>"
  by (simp add: render_def sample_template_def sample_subst map_err_def ok_or_def
      substitute.simps render_verify_def subst_opt_def non_blank_def get_str_def
      DEFERRED_SEQUENCE_def text_eval)

text \<open>C26: rendering cannot inject anything into the command line: apart from the
  configuration-mode wrapper, every rendered command comes from the command of the template at the
  same position and contains no whitespace character, in particular no line break, that the
  template does not contain.\<close>

theorem render_adds_no_whitespace:
  assumes "render t params = Inr plan"
  shows "\<exists>apply_raws after_raws body tail_cmds.
     Option.bind (json_get (tp_plan t) ''apply'') as_array = Some (map JStr apply_raws) \<and>
     (case Option.bind (json_get (tp_plan t) ''exec_after'') as_array of
        Some xs \<Rightarrow> xs | None \<Rightarrow> []) = map JStr after_raws \<and>
     rp_commands plan = (if rp_config_mode plan then [''configure terminal''] else []) @ body
        @ (if rp_config_mode plan then [''end''] else []) @ tail_cmds \<and>
     list_all2 adds_no_space body apply_raws \<and> list_all2 adds_no_space tail_cmds after_raws"
proof -
  from render_Inr [OF assms] obtain subst apply_cmds body tail_cmds where r:
    "validate_and_expand (tp_parameter_schema t) params = Inr subst"
    "Option.bind (json_get (tp_plan t) ''apply'') as_array = Some apply_cmds"
    "substitute_all subst apply_cmds = Inr body"
    "substitute_all subst (case Option.bind (json_get (tp_plan t) ''exec_after'') as_array of
        Some xs \<Rightarrow> xs | None \<Rightarrow> []) = Inr tail_cmds"
    "rp_commands plan = (if rp_config_mode plan then [''configure terminal''] else []) @ body
        @ (if rp_config_mode plan then [''end''] else []) @ tail_cmds"
    by blast
  from r(1) have "clean subst" by (rule validate_clean)
  with r(2-5) substitute_all_adds_no_space [OF r(3)] substitute_all_adds_no_space [OF r(4)]
  show ?thesis by metis
qed

lemma render_adds_no_whitespace_witness:
  "\<exists>raws body. rp_commands (projr (render sample_template sample_params)) =
     [''configure terminal''] @ body @ [''end''] \<and> list_all2 adds_no_space body raws"
proof -
  obtain a b body tail_cmds where
    "Option.bind (json_get (tp_plan sample_template) ''apply'') as_array = Some (map JStr a)"
    "(case Option.bind (json_get (tp_plan sample_template) ''exec_after'') as_array of
        Some xs \<Rightarrow> xs | None \<Rightarrow> []) = map JStr b"
    "[''configure terminal'', ''ip route 10.2.3.4 255.255.255.255 Null0'', ''end''] =
       [''configure terminal''] @ body @ [''end''] @ tail_cmds"
    "list_all2 adds_no_space body a" "list_all2 adds_no_space tail_cmds b"
    using render_adds_no_whitespace [OF sample_render] by auto
  moreover from this(2) have "b = []" by (simp add: sample_template_def)
  ultimately show ?thesis unfolding sample_render by auto
qed

text \<open>An accepted substitution has every required parameter, only parameters of the schema
  were supplied, and every \<open>subprefix_of\<close> parameter lies in its parent.\<close>

theorem validate_and_expand_sound:
  assumes "validate_and_expand (JObj schema) (JObj params) = Inr subst"
  shows "(\<forall>name spec. (name, spec) \<in> set schema \<and> is_required spec \<longrightarrow> map_of subst name \<noteq> None) \<and>
     (\<forall>k. map_of params k \<noteq> None \<longrightarrow> map_of schema k \<noteq> None \<or> k = ''prior_route_map'') \<and>
     (\<forall>name spec parent child par. (name, spec) \<in> set schema \<longrightarrow>
        get_str spec ''subprefix_of'' = Some parent \<longrightarrow> map_of subst name = Some child \<longrightarrow>
        map_of subst parent = Some par \<longrightarrow> cidr_contains par child = Inr True)"
proof -
  from validate_and_expand_Inr [OF assms]
  have v: "unknown_param schema params = None" "expand_params params schema [] = Inr subst"
    "check_containment schema subst = Inr ()" by auto
  from unknown_param_None [OF v(1)] expand_params_required [OF v(2) bt_ok_Nil]
    check_containment_sound [OF v(3)] show ?thesis by metis
qed

lemma validate_and_expand_sound_witness:
  "cidr_contains ''10.2.0.0/16'' ''10.2.3.4/32'' = Inr True \<and>
   map_of [(''host'', ''10.2.3.4/32'')] ''host'' \<noteq> None"
proof -
  have "validate_and_expand (JObj (case sample_schema of JObj m \<Rightarrow> m | _ \<Rightarrow> []))
      (JObj (case sample_params of JObj m \<Rightarrow> m | _ \<Rightarrow> [])) =
     Inr [(''host'', ''10.2.3.4/32''), (''host_len'', ''32''), (''host_mask'', ''255.255.255.255''),
          (''host_net'', ''10.2.3.4''), (''prefix'', ''10.2.0.0/16''), (''prefix_len'', ''16''),
          (''prefix_mask'', ''255.255.0.0''), (''prefix_net'', ''10.2.0.0'')]"
    using sample_subst by (simp add: sample_schema_def sample_params_def)
  from validate_and_expand_sound [OF this] show ?thesis
    by (simp add: sample_schema_def get_str_def)
qed

text \<open>A plan rendered for the apply step carries the chosen sequence number in its stored
  parameters and no unresolved placeholder in any command.\<close>

lemma render_with_sequence_resolved:
  assumes "render_with_sequence t params s = Inr (plan, stored)"
    and "case as_object params of Some m \<Rightarrow> bt_ok m | None \<Rightarrow> True"
  shows "json_get stored SEQUENCE_PARAM = Some (JStr (show_word s)) \<and>
     (\<forall>c \<in> set (rp_commands plan). \<not> contains DEFERRED_SEQUENCE c) \<and> render t stored = Inr plan"
proof -
  from assms(1) have r: "render t stored = Inr plan" "\<not> rp_sequence_pending plan"
    "stored = JObj (bt_insert SEQUENCE_PARAM (JStr (show_word s))
       (case as_object params of Some m \<Rightarrow> m | None \<Rightarrow> []))"
    by (auto simp: render_with_sequence_def Let_def res_simps split: if_splits)
  moreover from r(3) assms(2) have "json_get stored SEQUENCE_PARAM = Some (JStr (show_word s))"
    by (auto simp: map_of_bt_insert split: option.splits)
  moreover from r(1,2) have "\<forall>c \<in> set (rp_commands plan). \<not> contains DEFERRED_SEQUENCE c"
    by (auto dest!: render_Inr simp: list_ex_iff)
  ultimately show ?thesis by simp
qed

end
