(* ===== verification/Guard.thy ===== *)
theory Guard
  imports Locks Templates
begin

text \<open>
  The gates of \<open>src/backend-rust/src/reroute/guard.rs\<close>: the facts a reroute is judged on,
  how they are read from the database, and the pure decision over them, with the cooldowns of
  \<open>detection/cooldown.rs\<close>. \<open>same\<close> stands for the column collation under which SQL compares
  interface names, \<open>rfc3339\<close> for chrono's rendering of an instant.
\<close>

subsection \<open>Requests and configuration\<close>

datatype authority_kind =
    Manual | ManualBundle | ManualRecovery | Automatic | Compensation | Recovery

record execution_authorization =
  xa_kind :: authority_kind
  xa_plan_id :: "u64 option"
  xa_bundle_id :: "u64 option"
  xa_owner_token :: string
  xa_snapshot_action_id :: "u64 option"

record bundle_membership =
  bm_bundle_id :: u64
  bm_position :: u32

record action_request =
  aq_device_id :: u64
  aq_template :: template
  aq_params :: json
  aq_trigger_type :: string
  aq_rule_id :: "u64 option"
  aq_rule_event_id :: "u64 option"
  aq_rollback_of :: "u64 option"
  aq_user_id :: "u64 option"
  aq_reason :: "string option"
  aq_defer_cooldown :: bool
  aq_bundle :: "bundle_membership option"
  aq_authorization :: "execution_authorization option"

record lab_device =
  ld_device_id :: u64
  ld_host :: string
  ld_port :: u16
  ld_fingerprint :: string
  ld_rate_limit_count :: u32
  ld_rate_limit_window :: u64

record safety_config =
  cf_rate_limit_count :: u32
  cf_rate_limit_window :: u64
  cf_device_cooldown :: u64
  cf_rule_cooldown :: u64
  cf_automatic_enabled :: bool
  cf_require_verification :: bool
  cf_test_devices :: "lab_device list"

subsection \<open>Block reasons\<close>

datatype block_reason =
    ProtectedInterface string
  | AutomaticDisabled
  | NoVerifyStep
  | MaintenanceLock
  | DeviceLocked
  | DeviceCooldown int
  | RuleCooldown u64 int
  | RateLimit i64 u64 u32
  | GateReadFailed string
  | GuardConnection string
  | GuardBusy
  | AlreadyRunning
  | UnresolvedUncertain
  | DeviceUnreachable string
  | DeviceStabilizing
  | PersistFailed string

fun show_block :: "(int \<Rightarrow> string) \<Rightarrow> block_reason \<Rightarrow> string" where
  "show_block rfc3339 (ProtectedInterface iface) =
     ''interface '' @ [CHR 0x27] @ iface @ [CHR 0x27] @
     '' is flagged as a protected management/transit path; '' @
     ''disruptive interface actions on it are blocked to prevent self-lockout''"
| "show_block rfc3339 AutomaticDisabled =
     ''automatic actions are globally disabled (automatic_actions_enabled = false)''"
| "show_block rfc3339 NoVerifyStep =
     ''template has no verification step and reroute.require_verification is enabled''"
| "show_block rfc3339 MaintenanceLock = ''global maintenance lock is active''"
| "show_block rfc3339 DeviceLocked =
     ''device is locked (a prior action needs admin acknowledgement)''"
| "show_block rfc3339 (DeviceCooldown until) = ''device is in cooldown until '' @ rfc3339 until"
| "show_block rfc3339 (RuleCooldown rule until) =
     ''rule '' @ show_word rule @ '' is in cooldown until '' @ rfc3339 until"
| "show_block rfc3339 (RateLimit recent window limit) =
     ''global action rate limit reached ('' @ show_int recent @ '' in '' @ show_word window @
     ''s; max '' @ show_word limit @ '')''"
| "show_block rfc3339 (GateReadFailed e) = ''could not verify a safety gate: '' @ e"
| "show_block rfc3339 (GuardConnection e) = ''could not acquire device guard: '' @ e"
| "show_block rfc3339 GuardBusy =
     ''could not acquire the per-device reroute guard (another action is being set up)''"
| "show_block rfc3339 AlreadyRunning = ''another reroute is already running on this device''"
| "show_block rfc3339 UnresolvedUncertain =
     ''an unresolved uncertain action exists on this device''"
| "show_block rfc3339 (DeviceUnreachable d) =
     ''device is not reachable over SSH for a mitigation ('' @ d @
     ''); a reroute pushes config over SSH, so it is refused up front rather than failing mid-push''"
| "show_block rfc3339 DeviceStabilizing =
     ''device has not been continuously SSH-reachable long enough (stabilizing); '' @
     ''automatic mitigations resume after 5 minutes of continuous reachability. '' @
     ''A manual reroute is still allowed.''"
| "show_block rfc3339 (PersistFailed e) = ''could not persist reroute: '' @ e"

subsection \<open>The decision\<close>

record gate_inputs =
  gi_trigger_type :: string
  gi_protected_interface :: "string option"
  gi_automatic_enabled :: bool
  gi_has_verify_step :: bool
  gi_require_verification :: bool
  gi_maintenance_lock :: bool
  gi_device_locked :: bool
  gi_device_cooldown :: "int option"
  gi_rule_id :: "u64 option"
  gi_rule_cooldown :: "int option"
  gi_rate_limit :: u32
  gi_rate_window :: u64
  gi_recent_count :: i64

definition decide :: "gate_inputs \<Rightarrow> block_reason + unit" where
  "decide i =
     (case gi_protected_interface i of
        Some iface \<Rightarrow> Inl (ProtectedInterface iface)
      | None \<Rightarrow>
          if gi_trigger_type i = ''automatic'' \<and> \<not> gi_automatic_enabled i then Inl AutomaticDisabled
          else if gi_require_verification i \<and> \<not> gi_has_verify_step i \<and>
                  gi_trigger_type i = ''automatic'' then Inl NoVerifyStep
          else if gi_maintenance_lock i then Inl MaintenanceLock
          else if gi_device_locked i then Inl DeviceLocked
          else if gi_trigger_type i = ''rollback'' then Inr ()
          else (case gi_device_cooldown i of
                  Some until \<Rightarrow> Inl (DeviceCooldown until)
                | None \<Rightarrow>
                    (case (gi_rule_id i, gi_rule_cooldown i) of
                       (Some rule, Some until) \<Rightarrow> Inl (RuleCooldown rule until)
                     | _ \<Rightarrow>
                         if 0 < gi_rate_limit i \<and> int (unat (gi_rate_limit i)) \<le> gi_recent_count i
                         then Inl (RateLimit (gi_recent_count i) (gi_rate_window i) (gi_rate_limit i))
                         else Inr ())))"

subsection \<open>Cooldowns\<close>

fun latest :: "int list \<Rightarrow> int option" where
  "latest [] = None"
| "latest (t # ts) = Some (case latest ts of None \<Rightarrow> t | Some m \<Rightarrow> max t m)"

definition active_until :: "faults \<Rightarrow> database \<Rightarrow> int \<Rightarrow> string \<Rightarrow> string \<Rightarrow> string + int option" where
  "active_until f db now scope ref =
     fetch f QCooldown (latest (map cd_until (filter
       (\<lambda>c. cd_scope c = scope \<and> cd_scope_ref c = ref \<and> now < cd_until c) (db_cooldowns db))))"

definition record_cooldown ::
    "faults \<Rightarrow> int \<Rightarrow> string \<Rightarrow> string \<Rightarrow> i64 \<Rightarrow> string \<Rightarrow> database \<Rightarrow> string + database" where
  "record_cooldown f now scope ref seconds reason db =
     fetch f (QCooldownWrite scope ref) (db\<lparr>db_cooldowns := db_cooldowns db @
       [\<lparr>cd_scope = scope, cd_scope_ref = ref, cd_until = now + seconds, cd_reason = reason\<rparr>]\<rparr>)"

text \<open>\<open>? IS NULL OR bundle_id IS NULL OR bundle_id <> ?\<close>.\<close>

definition outside_bundle :: "u64 option \<Rightarrow> reroute_row \<Rightarrow> bool" where
  "outside_bundle excluded r =
     (excluded = None \<or> rr_bundle_id r = None \<or> rr_bundle_id r \<noteq> excluded)"

definition last_started :: "(reroute_row \<Rightarrow> bool) \<Rightarrow> database \<Rightarrow> int option" where
  "last_started p db =
     latest (List.map_filter rr_started_at (filter p (db_reroutes db)))"

definition effective_cooldown ::
    "faults \<Rightarrow> database \<Rightarrow> int \<Rightarrow> string \<Rightarrow> string \<Rightarrow> u64 \<Rightarrow> u64 option \<Rightarrow> u64 \<Rightarrow> u64 option \<Rightarrow>
     string + int option" where
  "effective_cooldown f db now scope ref device rule seconds excluded =
     (if seconds = 0 then Inr None
      else and_then (active_until f db now scope ref) (\<lambda>explicit.
           and_then (fetch f QHistory (map_option (\<lambda>t. t + as_i64 seconds)
             (case rule of
                Some r \<Rightarrow> last_started (\<lambda>x. rr_rule_id x = Some r \<and> outside_bundle excluded x) db
              | None \<Rightarrow> last_started (\<lambda>x. rr_device_id x = Some device \<and> outside_bundle excluded x) db)))
             (\<lambda>historical.
               Inr (latest (filter (\<lambda>t. now < t)
                 (List.map_filter (\<lambda>x. x) [explicit, historical]))))))"

definition manual_device_cooldown_until ::
    "faults \<Rightarrow> safety_config \<Rightarrow> database \<Rightarrow> int \<Rightarrow> u64 \<Rightarrow> string + int option" where
  "manual_device_cooldown_until f cfg db now device =
     effective_cooldown f db now ''device'' (show_word device) device None (cf_device_cooldown cfg) None"

subsection \<open>Rate counts\<close>

definition verification_mode_of_row :: "database \<Rightarrow> reroute_row \<Rightarrow> string" where
  "verification_mode_of_row db r =
     (case rr_verification_mode r of
        Some m \<Rightarrow> m
      | None \<Rightarrow>
          (case Option.bind (rr_bundle_id r) (\<lambda>b. List.find (\<lambda>x. bn_id x = b) (db_bundles db)) of
             None \<Rightarrow> ''routing''
           | Some b \<Rightarrow> (case bn_verification_mode b of Some m \<Rightarrow> m | None \<Rightarrow> ''routing'')))"

definition bundle_mode :: "bundle_row \<Rightarrow> string" where
  "bundle_mode b = (case bn_verification_mode b of Some m \<Rightarrow> m | None \<Rightarrow> ''routing'')"

definition bundle_live :: "bundle_row \<Rightarrow> bool" where
  "bundle_live b \<longleftrightarrow> bn_state b \<in> {BundlePlanned, BundleRunning, BundleCompensating}"

definition or_max :: "string + i64 \<Rightarrow> i64" where
  "or_max r = (case r of Inl _ \<Rightarrow> i64_max | Inr n \<Rightarrow> n)"

definition recent_reroute_count ::
    "faults \<Rightarrow> database \<Rightarrow> int \<Rightarrow> u64 \<Rightarrow> u64 option \<Rightarrow> i64" where
  "recent_reroute_count f db now window excluded =
     or_max (fetch f (QRecentCount None) (count
       (\<lambda>r. now - as_i64 window < rr_created_at r \<and> outside_bundle excluded r \<and>
            verification_mode_of_row db r \<noteq> ''configuration_only'') (db_reroutes db)))"

definition outstanding_bundle_actions_pool ::
    "faults \<Rightarrow> database \<Rightarrow> int \<Rightarrow> u64 \<Rightarrow> u64 option \<Rightarrow> i64" where
  "outstanding_bundle_actions_pool f db now window excluded =
     or_max (fetch f (QOutstanding None) (sum_list (map (int \<circ> unat \<circ> bn_rate_reserved)
       (filter (\<lambda>b. bundle_live b \<and> (excluded = None \<or> Some (bn_id b) \<noteq> excluded) \<and>
                    bundle_mode b \<noteq> ''configuration_only'' \<and>
                    now - as_i64 window < bn_created_at b) (db_bundles db)))))"

subsection \<open>Protected interfaces\<close>

fun interface_param :: "(string \<times> json) list \<Rightarrow> string option" where
  "interface_param [] = None"
| "interface_param ((name, spec) # rest) =
     (if get_str spec ''source'' = Some ''interface_name'' then Some name else interface_param rest)"

definition requested_interface :: "template \<Rightarrow> json \<Rightarrow> string option" where
  "requested_interface t params =
     Option.bind (as_object (tp_parameter_schema t)) (\<lambda>schema.
     Option.bind (interface_param schema) (\<lambda>p.
     Option.bind (get_str params p) (\<lambda>s.
       if trim s = [] then None else Some (trim s))))"

text \<open>\<open>ORDER BY protected DESC LIMIT 1\<close>.\<close>

fun most_protected :: "interface_row list \<Rightarrow> interface_row option" where
  "most_protected [] = None"
| "most_protected (r # rs) =
     (case most_protected rs of
        None \<Rightarrow> Some r
      | Some b \<Rightarrow> Some (if if_protected b \<le> if_protected r then r else b))"

definition interface_matches ::
    "(string \<Rightarrow> string \<Rightarrow> bool) \<Rightarrow> u64 \<Rightarrow> string \<Rightarrow> interface_row \<Rightarrow> bool" where
  "interface_matches same device iface r =
     (if_device_id r = device \<and>
      ((case if_name r of Some n \<Rightarrow> same n iface | None \<Rightarrow> False) \<or>
       (case if_descr r of Some d \<Rightarrow> same d iface | None \<Rightarrow> False)))"

definition corrective_templates :: "string set" where
  "corrective_templates = {''iface_no_shutdown'', ''iface_tcp_adjust_mss_remove''}"

definition protected_interface_name ::
    "(string \<Rightarrow> string \<Rightarrow> bool) \<Rightarrow> faults \<Rightarrow> database \<Rightarrow> u64 \<Rightarrow> template \<Rightarrow> json \<Rightarrow> string + string option" where
  "protected_interface_name same f db device t params =
     (if tp_name t \<in> corrective_templates then Inr None
      else (case requested_interface t params of
        None \<Rightarrow> Inr None
      | Some iface \<Rightarrow>
          and_then (fetch f QInterface
            (most_protected (filter (interface_matches same device iface) (db_interfaces db)))) (\<lambda>row.
          (case row of
             None \<Rightarrow> Inl (''interface '' @ [CHR 0x27] @ iface @ [CHR 0x27] @
                          '' is no longer in device inventory'')
           | Some r \<Rightarrow>
               Inr (if if_protected r \<noteq> 0
                    then Some (case if_name r of Some n \<Rightarrow> n | None \<Rightarrow> iface) else None)))))"

definition decode_inverse :: "rollback_snapshot \<Rightarrow> string + prepared_inverse" where
  "decode_inverse s =
     (case s of InverseSnapshot iv \<Rightarrow> Inr iv | CatalogSnapshot _ \<Rightarrow> Inl ''missing field'')"

definition prepared_corrective_interface ::
    "faults \<Rightarrow> database \<Rightarrow> action_request \<Rightarrow> string + bool" where
  "prepared_corrective_interface f db req =
     (case aq_authorization req of
        None \<Rightarrow> Inr False
      | Some auth \<Rightarrow>
          (case xa_snapshot_action_id auth of
             Some action \<Rightarrow>
               and_then (fetch f QPreparedAction
                 (List.find (\<lambda>a. ba_id a = action) (db_bundle_actions db))) (\<lambda>row.
               (case row of
                  None \<Rightarrow> Inr False
                | Some a \<Rightarrow>
                    (case ba_prepared a of
                       None \<Rightarrow> Inl ''unexpected null''
                     | Some p \<Rightarrow> and_then p (\<lambda>prepared.
                         Inr (corrective_interface_state (pa_after prepared))))))
           | None \<Rightarrow>
               if xa_kind auth = Compensation
               then and_then (ok_or ''compensation has no original action'' (aq_rollback_of req)) (\<lambda>original.
                    and_then (fetch f QInverse
                      (Option.bind (List.find (\<lambda>r. rr_id r = original) (db_reroutes db))
                        rr_rollback_snapshot)) (\<lambda>snapshot.
                    and_then (ok_or ''original action has no prepared inverse'' snapshot) (\<lambda>s.
                    and_then (decode_inverse s) (\<lambda>iv.
                      Inr (corrective_interface_state (pi_restore iv))))))
               else Inr False))"

subsection \<open>Gathering the facts\<close>

definition request_owner :: "action_request \<Rightarrow> string option" where
  "request_owner req = map_option xa_owner_token (aq_authorization req)"

definition request_bundle :: "action_request \<Rightarrow> u64 option" where
  "request_bundle req = map_option bm_bundle_id (aq_bundle req)"

definition device_locked :: "faults \<Rightarrow> database \<Rightarrow> action_request \<Rightarrow> bool" where
  "device_locked f db req =
     (unwrap_or True (is_blocked f db ''device'' (show_word (aq_device_id req))) \<or>
      \<not> unwrap_or False (change_window_allows f db (aq_device_id req) (request_owner req)))"

definition gather ::
    "(string \<Rightarrow> string \<Rightarrow> bool) \<Rightarrow> faults \<Rightarrow> safety_config \<Rightarrow> int \<Rightarrow> database \<Rightarrow> action_request \<Rightarrow>
     rendered_plan \<Rightarrow> block_reason + gate_inputs" where
  "gather same f cfg now db req plan =
     and_then (map_err GateReadFailed (prepared_corrective_interface f db req)) (\<lambda>corrective.
     and_then (if corrective then Inr None
               else map_err GateReadFailed
                 (protected_interface_name same f db (aq_device_id req) (aq_template req) (aq_params req)))
       (\<lambda>protected.
     and_then (map_err GateReadFailed
       (effective_cooldown f db now ''device'' (show_word (aq_device_id req)) (aq_device_id req) None
         (cf_device_cooldown cfg) (request_bundle req))) (\<lambda>device_cd.
     and_then (case aq_rule_id req of
         Some rule \<Rightarrow> map_err GateReadFailed
           (effective_cooldown f db now ''rule'' (show_word rule) (aq_device_id req) (Some rule)
             (cf_rule_cooldown cfg) (request_bundle req))
       | None \<Rightarrow> Inr None) (\<lambda>rule_cd.
       Inr \<lparr>gi_trigger_type = aq_trigger_type req,
            gi_protected_interface = protected,
            gi_automatic_enabled =
              (if aq_trigger_type req = ''automatic''
               then bool_setting f db ''automatic_actions_enabled'' (cf_automatic_enabled cfg) else True),
            gi_has_verify_step = (rp_verify plan \<noteq> None \<or> aq_authorization req \<noteq> None),
            gi_require_verification = cf_require_verification cfg,
            gi_maintenance_lock = bool_setting f db ''global_maintenance_lock'' False,
            gi_device_locked = device_locked f db req,
            gi_device_cooldown = device_cd,
            gi_rule_id = aq_rule_id req,
            gi_rule_cooldown = rule_cd,
            gi_rate_limit = cf_rate_limit_count cfg,
            gi_rate_window = cf_rate_limit_window cfg,
            gi_recent_count =
              (if 0 < cf_rate_limit_count cfg \<and> aq_bundle req = None
               then sat_add_i64
                 (recent_reroute_count f db now (cf_rate_limit_window cfg) None)
                 (outstanding_bundle_actions_pool f db now (cf_rate_limit_window cfg) None)
               else 0)\<rparr>))))"

definition can_execute ::
    "(string \<Rightarrow> string \<Rightarrow> bool) \<Rightarrow> faults \<Rightarrow> safety_config \<Rightarrow> int \<Rightarrow> database \<Rightarrow> action_request \<Rightarrow>
     rendered_plan \<Rightarrow> block_reason + unit" where
  "can_execute same f cfg now db req plan = and_then (gather same f cfg now db req plan) decide"

subsection \<open>The latest instant\<close>

lemma latest_None_iff [simp]: "latest xs = None \<longleftrightarrow> xs = []"
  by (cases xs) auto

lemma latest_SomeD: "latest xs = Some t \<Longrightarrow> t \<in> set xs \<and> (\<forall>x \<in> set xs. x \<le> t)"
  by (induction xs arbitrary: t) (auto simp: max_def split: option.splits if_splits)

lemma set_map_filter_Some: "x \<in> set (List.map_filter g xs) \<longleftrightarrow> (\<exists>y \<in> set xs. g y = Some x)"
  by (auto simp: List.map_filter_def image_iff intro!: bexI)

subsection \<open>What an empty cooldown means\<close>

definition throttled ::
    "database \<Rightarrow> int \<Rightarrow> string \<Rightarrow> string \<Rightarrow> (reroute_row \<Rightarrow> bool) \<Rightarrow> u64 \<Rightarrow> bool" where
  "throttled db now scope ref p seconds =
     (seconds \<noteq> 0 \<and>
      ((\<exists>c \<in> set (db_cooldowns db). cd_scope c = scope \<and> cd_scope_ref c = ref \<and> now < cd_until c) \<or>
       (\<exists>r \<in> set (db_reroutes db). p r \<and>
          (case rr_started_at r of Some t \<Rightarrow> now < t + as_i64 seconds | None \<Rightarrow> False))))"

lemma active_until_Inr:
  assumes "active_until f db now scope ref = Inr explicit"
    and "\<forall>t. explicit = Some t \<longrightarrow> t \<le> now"
  shows "\<forall>c \<in> set (db_cooldowns db). cd_scope c = scope \<and> cd_scope_ref c = ref \<longrightarrow> cd_until c \<le> now"
proof (cases explicit)
  case None
  with assms(1) show ?thesis by (auto simp: active_until_def fetch_Inr_iff filter_empty_conv)
next
  case (Some t)
  with assms(1) have "t \<in> set (map cd_until (filter
     (\<lambda>c. cd_scope c = scope \<and> cd_scope_ref c = ref \<and> now < cd_until c) (db_cooldowns db)))"
    by (auto simp: active_until_def fetch_Inr_iff dest!: latest_SomeD)
  with assms(2) Some show ?thesis by fastforce
qed

lemma last_started_None: "last_started p db = None \<Longrightarrow> r \<in> set (db_reroutes db) \<Longrightarrow> p r \<Longrightarrow>
    rr_started_at r = None"
  by (auto simp: last_started_def List.map_filter_def filter_empty_conv)

lemma last_started_Some: "last_started p db = Some t \<Longrightarrow> r \<in> set (db_reroutes db) \<Longrightarrow> p r \<Longrightarrow>
    rr_started_at r = Some s \<Longrightarrow> s \<le> t"
  by (auto simp: last_started_def set_map_filter_Some dest!: latest_SomeD)

lemma effective_cooldown_free:
  assumes "effective_cooldown f db now scope ref device rule seconds excluded = Inr None"
    and "p = (case rule of
                Some r \<Rightarrow> (\<lambda>x. rr_rule_id x = Some r \<and> outside_bundle excluded x)
              | None \<Rightarrow> (\<lambda>x. rr_device_id x = Some device \<and> outside_bundle excluded x))"
  shows "\<not> throttled db now scope ref p seconds"
proof (cases "seconds = 0")
  case True
  then show ?thesis by (simp add: throttled_def)
next
  case False
  have hist: "(case rule of
                Some r \<Rightarrow> last_started (\<lambda>x. rr_rule_id x = Some r \<and> outside_bundle excluded x) db
              | None \<Rightarrow> last_started (\<lambda>x. rr_device_id x = Some device \<and> outside_bundle excluded x) db)
      = last_started p db"
    by (simp add: assms(2) split: option.split)
  from assms(1) False obtain explicit where ex: "active_until f db now scope ref = Inr explicit"
    and none: "filter (\<lambda>t. now < t) (List.map_filter (\<lambda>x. x)
        [explicit, map_option (\<lambda>t. t + as_i64 seconds) (last_started p db)]) = []"
    by (auto simp: effective_cooldown_def and_then_Inr_iff fetch_Inr_iff hist)
  from none have e: "\<forall>t. explicit = Some t \<longrightarrow> t \<le> now"
    and h: "\<forall>t. last_started p db = Some t \<longrightarrow> t + as_i64 seconds \<le> now"
    by (auto simp: List.map_filter_def filter_empty_conv split: if_splits option.splits)
  have "\<not> now < t + as_i64 seconds" if "r \<in> set (db_reroutes db)" "p r" "rr_started_at r = Some t" for r t
    using that h last_started_None [of p db r] last_started_Some [of p db _ r t]
    by (cases "last_started p db") fastforce+
  with active_until_Inr [OF ex e] show ?thesis
    by (fastforce simp: throttled_def split: option.splits)
qed

subsection \<open>Facts and decision\<close>

lemma decide_Inr:
  "decide i = Inr () \<longleftrightarrow>
     gi_protected_interface i = None \<and>
     (gi_trigger_type i = ''automatic'' \<longrightarrow>
        gi_automatic_enabled i \<and> (gi_require_verification i \<longrightarrow> gi_has_verify_step i)) \<and>
     \<not> gi_maintenance_lock i \<and> \<not> gi_device_locked i \<and>
     (gi_trigger_type i \<noteq> ''rollback'' \<longrightarrow>
        gi_device_cooldown i = None \<and> (gi_rule_id i = None \<or> gi_rule_cooldown i = None) \<and>
        (gi_rate_limit i = 0 \<or> gi_recent_count i < int (unat (gi_rate_limit i))))"
  by (auto simp: decide_def not_le word_gt_0 split: option.splits)

lemma gather_Inr:
  assumes "gather same f cfg now db req plan = Inr i"
  obtains corrective where
    "prepared_corrective_interface f db req = Inr corrective"
    "if corrective then gi_protected_interface i = None
     else protected_interface_name same f db (aq_device_id req) (aq_template req) (aq_params req)
            = Inr (gi_protected_interface i)"
    "effective_cooldown f db now ''device'' (show_word (aq_device_id req)) (aq_device_id req) None
       (cf_device_cooldown cfg) (request_bundle req) = Inr (gi_device_cooldown i)"
    "\<And>rule. aq_rule_id req = Some rule \<Longrightarrow>
       effective_cooldown f db now ''rule'' (show_word rule) (aq_device_id req) (Some rule)
         (cf_rule_cooldown cfg) (request_bundle req) = Inr (gi_rule_cooldown i)"
    "gi_trigger_type i = aq_trigger_type req" "gi_rule_id i = aq_rule_id req"
    "aq_trigger_type req = ''automatic'' \<Longrightarrow> gi_automatic_enabled i =
       bool_setting f db ''automatic_actions_enabled'' (cf_automatic_enabled cfg)"
    "gi_maintenance_lock i = bool_setting f db ''global_maintenance_lock'' False"
    "gi_device_locked i = device_locked f db req"
    "gi_rate_limit i = cf_rate_limit_count cfg"
    "cf_rate_limit_count cfg \<noteq> 0 \<Longrightarrow> aq_bundle req = None \<Longrightarrow> gi_recent_count i = sat_add_i64
       (recent_reroute_count f db now (cf_rate_limit_window cfg) None)
       (outstanding_bundle_actions_pool f db now (cf_rate_limit_window cfg) None)"
  using assms unfolding gather_def
  by (cases "aq_rule_id req")
    (fastforce simp: and_then_Inr_iff map_err_Inr_iff word_gt_0 split: if_splits)+

definition device_open :: "database \<Rightarrow> action_request \<Rightarrow> bool" where
  "device_open db req =
     ((\<forall>l \<in> set (db_locks db). \<not> lock_applies ''device'' (show_word (aq_device_id req)) l) \<and>
      (case window_of db (aq_device_id req) of
         None \<Rightarrow> True | Some w \<Rightarrow> request_owner req = Some (cw_owner_token w)))"

lemma not_device_locked: "\<not> device_locked f db req \<Longrightarrow> device_open db req"
proof -
  assume unlocked: "\<not> device_locked f db req"
  then have "f QLocks = None" "f QWindow = None"
    by (auto simp: device_locked_def is_blocked_def change_window_allows_def fetch_def
             split: option.splits)
  with unlocked show ?thesis
    by (auto simp: device_locked_def is_blocked_def change_window_allows_def fetch_def
        device_open_def count_pos split: option.splits)
qed

definition rate_load :: "database \<Rightarrow> int \<Rightarrow> u64 \<Rightarrow> i64" where
  "rate_load db now window =
     count (\<lambda>r. now - as_i64 window < rr_created_at r \<and>
        verification_mode_of_row db r \<noteq> ''configuration_only'') (db_reroutes db) +
     sum_list (map (int \<circ> unat \<circ> bn_rate_reserved)
       (filter (\<lambda>b. bundle_live b \<and> bundle_mode b \<noteq> ''configuration_only'' \<and>
          now - as_i64 window < bn_created_at b) (db_bundles db)))"

lemma sum_list_nonneg_int: "(\<And>x. x \<in> set xs \<Longrightarrow> 0 \<le> x) \<Longrightarrow> 0 \<le> sum_list xs" for xs :: "int list"
  by (induction xs) auto

lemma or_max_fetch: "or_max (fetch f q n) \<le> k \<Longrightarrow> k < i64_max \<Longrightarrow> n \<le> k"
  by (auto simp: or_max_def fetch_def split: option.splits)

lemma below_limit_load:
  assumes "sat_add_i64 (recent_reroute_count f db now window None)
     (outstanding_bundle_actions_pool f db now window None) < int (unat (limit :: u32))"
  shows "rate_load db now window < int (unat limit)"
proof -
  let ?rec = "count (\<lambda>r. now - as_i64 window < rr_created_at r \<and>
     verification_mode_of_row db r \<noteq> ''configuration_only'') (db_reroutes db)"
  let ?out = "sum_list (map (int \<circ> unat \<circ> bn_rate_reserved)
       (filter (\<lambda>b. bundle_live b \<and> bundle_mode b \<noteq> ''configuration_only'' \<and>
          now - as_i64 window < bn_created_at b) (db_bundles db)))"
  have "unat limit < 2 ^ LENGTH(32)" by (rule unsigned_less)
  then have "unat limit < 4294967296" by simp
  then have lim: "int (unat limit) < i64_max" unfolding i64_max_def by linarith
  have pos: "0 \<le> ?rec" "0 \<le> ?out" by (auto intro!: sum_list_nonneg_int)
  have r: "recent_reroute_count f db now window None = or_max (fetch f (QRecentCount None) ?rec)"
    by (simp add: recent_reroute_count_def outside_bundle_def conj_assoc)
  have o: "outstanding_bundle_actions_pool f db now window None = or_max (fetch f (QOutstanding None) ?out)"
    by (simp add: outstanding_bundle_actions_pool_def)
  have ge: "0 \<le> or_max (fetch f q n)" if "0 \<le> n" for q n
    using that by (auto simp: or_max_def fetch_def i64_max_def split: option.splits)
  let ?r = "or_max (fetch f (QRecentCount None) ?rec)"
  let ?o = "or_max (fetch f (QOutstanding None) ?out)"
  have "?r + ?o < int (unat limit)"
    using assms lim ge [OF pos(1), of "QRecentCount None"] ge [OF pos(2), of "QOutstanding None"]
    unfolding r o sat_add_i64_def by (simp add: i64_max_def i64_min_def)
  then have "?r < i64_max" "?o < i64_max"
    using lim ge [OF pos(1), of "QRecentCount None"] ge [OF pos(2), of "QOutstanding None"]
    by linarith+
  then have "?rec \<le> ?r" "?out \<le> ?o"
    by (simp_all only: or_max_fetch [OF order_refl])
  with \<open>?r + ?o < int (unat limit)\<close> show ?thesis by (simp add: rate_load_def)
qed

subsection \<open>Properties\<close>

text \<open>C7: whatever the database answers or fails to answer, an action that the guard lets
  through finds the device without an active lock and without a foreign change window and the
  installation without a maintenance lock; an automatic action is enabled; unless it is a
  rollback, neither the device nor the rule is cooling down and a standalone action is below the
  rate limit.\<close>

theorem can_execute_sound:
  assumes "can_execute same f cfg now db req plan = Inr ()"
  shows "device_open db req \<and> setting db ''global_maintenance_lock'' \<noteq> Some ''true'' \<and>
     (aq_trigger_type req = ''automatic'' \<longrightarrow>
        setting db ''automatic_actions_enabled'' = Some ''true'' \<or>
        setting db ''automatic_actions_enabled'' \<noteq> Some ''false'' \<and> cf_automatic_enabled cfg) \<and>
     (aq_trigger_type req \<noteq> ''rollback'' \<longrightarrow>
        \<not> throttled db now ''device'' (show_word (aq_device_id req))
            (\<lambda>r. rr_device_id r = Some (aq_device_id req) \<and> outside_bundle (request_bundle req) r)
            (cf_device_cooldown cfg) \<and>
        (case aq_rule_id req of
           None \<Rightarrow> True
         | Some rule \<Rightarrow> \<not> throttled db now ''rule'' (show_word rule)
             (\<lambda>r. rr_rule_id r = Some rule \<and> outside_bundle (request_bundle req) r)
             (cf_rule_cooldown cfg)) \<and>
        (aq_bundle req = None \<and> cf_rate_limit_count cfg \<noteq> 0 \<longrightarrow>
           rate_load db now (cf_rate_limit_window cfg) < int (unat (cf_rate_limit_count cfg))))"
proof -
  from assms obtain i where g: "gather same f cfg now db req plan = Inr i" and d: "decide i = Inr ()"
    by (auto simp: can_execute_def and_then_Inr_iff)
  from g show ?thesis
  proof (rule gather_Inr)
    fix corrective
    assume dev: "effective_cooldown f db now ''device'' (show_word (aq_device_id req)) (aq_device_id req)
        None (cf_device_cooldown cfg) (request_bundle req) = Inr (gi_device_cooldown i)"
      and rule: "\<And>rule. aq_rule_id req = Some rule \<Longrightarrow>
        effective_cooldown f db now ''rule'' (show_word rule) (aq_device_id req) (Some rule)
         (cf_rule_cooldown cfg) (request_bundle req) = Inr (gi_rule_cooldown i)"
      and i: "gi_trigger_type i = aq_trigger_type req" "gi_rule_id i = aq_rule_id req"
        "gi_maintenance_lock i = bool_setting f db ''global_maintenance_lock'' False"
        "gi_device_locked i = device_locked f db req" "gi_rate_limit i = cf_rate_limit_count cfg"
      and auto: "aq_trigger_type req = ''automatic'' \<Longrightarrow> gi_automatic_enabled i =
        bool_setting f db ''automatic_actions_enabled'' (cf_automatic_enabled cfg)"
      and recent: "cf_rate_limit_count cfg \<noteq> 0 \<Longrightarrow> aq_bundle req = None \<Longrightarrow> gi_recent_count i =
        sat_add_i64 (recent_reroute_count f db now (cf_rate_limit_window cfg) None)
         (outstanding_bundle_actions_pool f db now (cf_rate_limit_window cfg) None)"
    note d = d [unfolded decide_Inr i]
    have "device_open db req" using d by (blast intro: not_device_locked)
    moreover have "setting db ''global_maintenance_lock'' \<noteq> Some ''true''"
      using d by (auto simp: bool_setting_def fetch_def split: option.splits)
    moreover have "setting db ''automatic_actions_enabled'' = Some ''true'' \<or>
        setting db ''automatic_actions_enabled'' \<noteq> Some ''false'' \<and> cf_automatic_enabled cfg"
      if "aq_trigger_type req = ''automatic''"
      using d auto [OF that] that
      by (auto simp: bool_setting_def fetch_def split: option.splits if_splits)
    moreover have "\<not> throttled db now ''device'' (show_word (aq_device_id req))
            (\<lambda>r. rr_device_id r = Some (aq_device_id req) \<and> outside_bundle (request_bundle req) r)
            (cf_device_cooldown cfg)" if "aq_trigger_type req \<noteq> ''rollback''"
      using d dev that by (intro effective_cooldown_free) auto
    moreover have "\<not> throttled db now ''rule'' (show_word rid)
             (\<lambda>r. rr_rule_id r = Some rid \<and> outside_bundle (request_bundle req) r)
             (cf_rule_cooldown cfg)" if "aq_trigger_type req \<noteq> ''rollback''" "aq_rule_id req = Some rid" for rid
      using d rule [OF that(2)] that by (intro effective_cooldown_free) auto
    moreover have "rate_load db now (cf_rate_limit_window cfg) < int (unat (cf_rate_limit_count cfg))"
      if "aq_trigger_type req \<noteq> ''rollback''" "aq_bundle req = None" "cf_rate_limit_count cfg \<noteq> 0"
      using d recent [OF that(3,2)] that by (intro below_limit_load) auto
    ultimately show ?thesis by (simp split: option.split)
  qed
qed

lemma most_protected_None [simp]: "most_protected rs = None \<longleftrightarrow> rs = []"
  by (cases rs) (auto split: option.splits)

lemma most_protected_max: "most_protected rs = Some b \<Longrightarrow> r \<in> set rs \<Longrightarrow> if_protected r \<le> if_protected b"
  by (induction rs arbitrary: b) (auto split: option.splits if_splits intro: order_trans)

text \<open>C15: the controller cannot cut its own path: an action that names an interface flagged as
  protected never passes the guard, unless its template or its prepared state only brings
  interfaces up or lifts an MSS clamp.\<close>

theorem protected_interface_never_runs:
  assumes "requested_interface (aq_template req) (aq_params req) = Some iface"
    and "r \<in> set (db_interfaces db)" "interface_matches same (aq_device_id req) iface r"
    and "0 < if_protected r"
    and "tp_name (aq_template req) \<notin> corrective_templates"
    and "prepared_corrective_interface f db req \<noteq> Inr True"
  shows "can_execute same f cfg now db req plan \<noteq> Inr ()"
proof
  assume "can_execute same f cfg now db req plan = Inr ()"
  then obtain i where g: "gather same f cfg now db req plan = Inr i" and d: "decide i = Inr ()"
    by (auto simp: can_execute_def and_then_Inr_iff)
  from g show False
  proof (rule gather_Inr)
    fix corrective
    assume "prepared_corrective_interface f db req = Inr corrective"
      and p: "if corrective then gi_protected_interface i = None
        else protected_interface_name same f db (aq_device_id req) (aq_template req) (aq_params req)
            = Inr (gi_protected_interface i)"
    with assms(6) have "\<not> corrective" by auto
    with p d have n: "protected_interface_name same f db (aq_device_id req) (aq_template req) (aq_params req)
        = Inr None"
      by (simp add: decide_Inr)
    let ?rows = "filter (interface_matches same (aq_device_id req) iface) (db_interfaces db)"
    have mem: "r \<in> set ?rows" using assms(2,3) by simp
    then obtain b where b: "most_protected ?rows = Some b"
      by (cases "most_protected ?rows") (auto simp: filter_empty_conv)
    with most_protected_max [OF b mem] assms(4) n assms(1,5) show False
      by (auto simp: protected_interface_name_def and_then_Inr_iff fetch_Inr_iff split: if_splits)
  qed
qed

subsection \<open>An open installation and a protected uplink\<close>

definition uplink_template :: template where
  "uplink_template = \<lparr>tp_id = 4, tp_name = ''iface_shutdown'', tp_display_name = None,
     tp_description = None, tp_provider_type = ''device_cli'', tp_mode = ''config'',
     tp_automatic_allowed = True,
     tp_parameter_schema = JObj [(''interface'', JObj [(''source'', JStr ''interface_name'')])],
     tp_plan = JNull, tp_verification = JNull, tp_rollback_template_id = None,
     tp_v6_sibling_template_id = None, tp_enabled = True\<rparr>"

definition uplink_request :: action_request where
  "uplink_request = \<lparr>aq_device_id = 7, aq_template = uplink_template,
     aq_params = JObj [(''interface'', JStr ''Gi0/0'')], aq_trigger_type = ''automatic'',
     aq_rule_id = Some 3, aq_rule_event_id = None, aq_rollback_of = None, aq_user_id = None,
     aq_reason = None, aq_defer_cooldown = False, aq_bundle = None,
     aq_authorization = Some \<lparr>xa_kind = Automatic, xa_plan_id = None, xa_bundle_id = Some 1,
       xa_owner_token = ''aa'', xa_snapshot_action_id = None\<rparr>\<rparr>"

definition uplink_row :: "int \<Rightarrow> interface_row" where
  "uplink_row p = \<lparr>if_device_id = 7, if_name = Some ''Gi0/0'', if_descr = None, if_protected = p\<rparr>"

definition sample_plan :: rendered_plan where
  "sample_plan = \<lparr>rp_template_id = 4, rp_template_name = ''iface_shutdown'', rp_config_mode = True,
     rp_commands = [''interface Gi0/0'', ''shutdown''], rp_verify = None, rp_sequence_pending = False\<rparr>"

definition sample_config :: safety_config where
  "sample_config = \<lparr>cf_rate_limit_count = 2, cf_rate_limit_window = 600, cf_device_cooldown = 60,
     cf_rule_cooldown = 60, cf_automatic_enabled = True, cf_require_verification = True,
     cf_test_devices = []\<rparr>"

definition uplink_database :: "int \<Rightarrow> database" where
  "uplink_database p = empty_database\<lparr>db_interfaces := [uplink_row p]\<rparr>"

lemma uplink_requested:
  "requested_interface (aq_template uplink_request) (aq_params uplink_request) = Some ''Gi0/0''"
  by (simp add: requested_interface_def uplink_request_def uplink_template_def get_str_def text_eval)

lemma uplink_matches: "interface_matches (=) (aq_device_id uplink_request) ''Gi0/0'' (uplink_row p)"
  by (simp add: interface_matches_def uplink_row_def uplink_request_def)

lemma uplink_not_corrective: "prepared_corrective_interface f db uplink_request = Inr False"
  by (simp add: prepared_corrective_interface_def uplink_request_def)

lemma uplink_effective [simp]:
  "effective_cooldown no_faults (uplink_database p) now scope ref device rule seconds excluded = Inr None"
  by (simp add: effective_cooldown_def active_until_def last_started_def uplink_database_def
      empty_database_def List.map_filter_def split: option.split)

lemma uplink_runs: "can_execute (=) no_faults sample_config 1000 (uplink_database 0) uplink_request sample_plan = Inr ()"
proof -
  have "protected_interface_name (=) no_faults (uplink_database 0) (aq_device_id uplink_request)
      (aq_template uplink_request) (aq_params uplink_request) = Inr None"
    by (simp add: protected_interface_name_def uplink_requested uplink_database_def)
      (simp add: corrective_templates_def uplink_request_def uplink_template_def
        interface_matches_def uplink_row_def)
  moreover have "aq_rule_id uplink_request = Some 3" by (simp add: uplink_request_def)
  ultimately show ?thesis
    by (simp add: can_execute_def gather_def uplink_not_corrective map_err_def decide_def
        bool_setting_no_faults)
      (simp add: uplink_request_def sample_config_def uplink_database_def empty_database_def
        setting_def device_locked_def is_blocked_def change_window_allows_def window_of_def
        count_def recent_reroute_count_def outstanding_bundle_actions_pool_def or_max_def
        sat_add_i64_def i64_max_def i64_min_def)
qed

theorem can_execute_sound_witness:
  "device_open (uplink_database 0) uplink_request \<and>
   setting (uplink_database 0) ''global_maintenance_lock'' \<noteq> Some ''true'' \<and>
   rate_load (uplink_database 0) 1000 600 < 2"
  using can_execute_sound [OF uplink_runs] by (simp add: sample_config_def uplink_request_def)

theorem protected_interface_never_runs_witness:
  "can_execute (=) no_faults sample_config 1000 (uplink_database 1) uplink_request sample_plan \<noteq> Inr ()"
proof (rule protected_interface_never_runs [OF uplink_requested _ uplink_matches])
  show "uplink_row 1 \<in> set (db_interfaces (uplink_database 1))" by (simp add: uplink_database_def)
  show "0 < if_protected (uplink_row 1)" by (simp add: uplink_row_def)
  show "tp_name (aq_template uplink_request) \<notin> corrective_templates"
    by (simp add: corrective_templates_def uplink_request_def uplink_template_def)
  show "prepared_corrective_interface no_faults (uplink_database 1) uplink_request \<noteq> Inr True"
    by (simp add: uplink_not_corrective)
qed

end
