(* ===== verification/Reservation.thy ===== *)
theory Reservation
  imports Guard
begin

text \<open>
  The writing half of \<open>src/backend-rust/src/reroute/guard.rs\<close>: the admission of a whole bundle
  against the rate budget and the reservation of one reroute row. Both run under advisory locks
  on the server (a rate lock, then the device lock), so each is one step of the model; a lock
  that cannot be taken or released is a fault like any other.
\<close>

subsection \<open>The rate scope\<close>

record configuration_rate =
  cr_device_id :: u64
  cr_limit :: u32
  cr_window :: u64

datatype rate_scope =
    RoutingScope u32 u64
  | ConfigurationScope "configuration_rate list"

definition DEFAULT_CONFIGURATION_ONLY_ACTION_RATE_LIMIT_COUNT :: u32 where
  "DEFAULT_CONFIGURATION_ONLY_ACTION_RATE_LIMIT_COUNT = 32"

definition DEFAULT_CONFIGURATION_ONLY_ACTION_RATE_LIMIT_WINDOW_SECONDS :: u64 where
  "DEFAULT_CONFIGURATION_ONLY_ACTION_RATE_LIMIT_WINDOW_SECONDS = 600"

definition pad20 :: "string \<Rightarrow> string" where
  "pad20 s = replicate (20 - length s) (CHR ''0'') @ s"

definition configuration_rate_lock_label :: "u64 \<Rightarrow> string" where
  "configuration_rate_lock_label d = ''20:reroute:rate-config-only:'' @ pad20 (show_word d)"

definition device_rate :: "safety_config \<Rightarrow> u64 \<Rightarrow> configuration_rate" where
  "device_rate cfg d =
     (let override = List.find (\<lambda>t. ld_device_id t = d) (cf_test_devices cfg) in
      \<lparr>cr_device_id = d,
       cr_limit = (case override of Some t \<Rightarrow> ld_rate_limit_count t
                   | None \<Rightarrow> DEFAULT_CONFIGURATION_ONLY_ACTION_RATE_LIMIT_COUNT),
       cr_window = (case override of Some t \<Rightarrow> ld_rate_limit_window t
                    | None \<Rightarrow> DEFAULT_CONFIGURATION_ONLY_ACTION_RATE_LIMIT_WINDOW_SECONDS)\<rparr>)"

definition bundle_actions :: "database \<Rightarrow> u64 \<Rightarrow> bundle_action_row list" where
  "bundle_actions db bundle = filter (\<lambda>a. ba_bundle_id a = bundle) (db_bundle_actions db)"

definition action_mode :: "bundle_action_row \<Rightarrow> string" where
  "action_mode a = (case ba_verification_mode a of Some m \<Rightarrow> m | None \<Rightarrow> ''routing'')"

definition find_bundle :: "database \<Rightarrow> u64 \<Rightarrow> bundle_row option" where
  "find_bundle db bundle = List.find (\<lambda>b. bn_id b = bundle) (db_bundles db)"

definition bundle_rate_scope ::
    "faults \<Rightarrow> safety_config \<Rightarrow> database \<Rightarrow> u64 \<Rightarrow> block_reason + rate_scope" where
  "bundle_rate_scope f cfg db bundle =
     and_then (map_err GateReadFailed (fetch f QBundleMode
       (map_option bn_verification_mode (find_bundle db bundle)))) (\<lambda>row.
     and_then (ok_or (GateReadFailed ''bundle missing'') row) (\<lambda>mode.
     if mode = Some ''configuration_only''
     then and_then (map_err GateReadFailed (fetch f QBundleMixed
            (list_ex (\<lambda>a. action_mode a \<noteq> ''configuration_only'') (bundle_actions db bundle)))) (\<lambda>mixed.
          if mixed
          then Inl (GateReadFailed ''configuration-only bundle ledger has mixed verification scope'')
          else and_then (map_err GateReadFailed (fetch f QBundleDevices
                 (remdups (sort (map ba_device_id (bundle_actions db bundle)))))) (\<lambda>ids.
               if ids = [] then Inl (GateReadFailed ''configuration-only bundle has no device'')
               else Inr (ConfigurationScope (map (device_rate cfg) ids))))
     else if mode = None \<or> mode = Some ''routing''
     then and_then (map_err GateReadFailed (fetch f QBundleMixed
            (list_ex (\<lambda>a. action_mode a \<noteq> ''routing'') (bundle_actions db bundle)))) (\<lambda>mixed.
          if mixed
          then Inl (GateReadFailed ''routing bundle ledger has mixed verification scope'')
          else Inr (RoutingScope (cf_rate_limit_count cfg) (cf_rate_limit_window cfg)))
     else Inl (GateReadFailed ''bundle has unknown verification scope'')))"

subsection \<open>Scoped counts\<close>

definition scoped_recent_reroute_count ::
    "faults \<Rightarrow> database \<Rightarrow> int \<Rightarrow> u64 \<Rightarrow> u64 option \<Rightarrow> u64 option \<Rightarrow> i64" where
  "scoped_recent_reroute_count f db now window excluded lab =
     or_max (fetch f (QRecentCount lab) (count
       (\<lambda>r. now - as_i64 window < rr_created_at r \<and> outside_bundle excluded r \<and>
            (verification_mode_of_row db r = ''configuration_only'') = (lab \<noteq> None) \<and>
            (lab = None \<or> rr_device_id r = lab)) (db_reroutes db)))"

definition scoped_outstanding_bundle_actions ::
    "faults \<Rightarrow> database \<Rightarrow> int \<Rightarrow> u64 \<Rightarrow> u64 \<Rightarrow> u64 option \<Rightarrow> i64" where
  "scoped_outstanding_bundle_actions f db now window excluded lab =
     or_max (fetch f (QOutstanding lab) (sum_list (map (int \<circ> unat \<circ> bn_rate_reserved)
       (filter (\<lambda>b. bundle_live b \<and> bn_id b \<noteq> excluded \<and> now - as_i64 window < bn_created_at b \<and>
          (bundle_mode b = ''configuration_only'') = (lab \<noteq> None) \<and>
          (case lab of None \<Rightarrow> True
           | Some d \<Rightarrow> list_ex (\<lambda>a. ba_device_id a = d) (bundle_actions db (bn_id b))))
        (db_bundles db)))))"

definition scoped_outstanding_configuration_actions ::
    "faults \<Rightarrow> database \<Rightarrow> int \<Rightarrow> u64 \<Rightarrow> u64 \<Rightarrow> u64 \<Rightarrow> i64" where
  "scoped_outstanding_configuration_actions f db now window excluded d =
     or_max (fetch f (QOutstanding (Some d)) (count
       (\<lambda>a. ba_device_id a = d \<and>
            (case find_bundle db (ba_bundle_id a) of
               None \<Rightarrow> False
             | Some b \<Rightarrow> bundle_live b \<and> bn_id b \<noteq> excluded \<and>
                 now - as_i64 window < bn_created_at b \<and> bundle_mode b = ''configuration_only''))
       (db_bundle_actions db)))"

subsection \<open>Admission of a bundle\<close>

definition release_rate_guards :: "faults \<Rightarrow> nat \<Rightarrow> block_reason + unit" where
  "release_rate_guards f n =
     (if n = 0 then Inr () else map_err GuardConnection (fetch f QRateUnlock ()))"

definition acquire_rate :: "faults \<Rightarrow> string \<Rightarrow> block_reason + unit" where
  "acquire_rate f label = map_err GuardConnection (fetch f (QRateLock label) ())"

fun admit_devices ::
    "faults \<Rightarrow> int \<Rightarrow> database \<Rightarrow> u64 \<Rightarrow> configuration_rate list \<Rightarrow> nat \<Rightarrow> block_reason + nat" where
  "admit_devices f now db bundle [] guards = Inr guards"
| "admit_devices f now db bundle (d # ds) guards =
     (if cr_limit d = 0 then admit_devices f now db bundle ds guards
      else and_then (acquire_rate f (configuration_rate_lock_label (cr_device_id d))) (\<lambda>_.
           and_then (map_err GuardConnection (fetch f (QBundleRequested (cr_device_id d))
             (count (\<lambda>a. ba_device_id a = cr_device_id d) (bundle_actions db bundle)))) (\<lambda>requested.
             let projected = sat_add_i64
                   (scoped_recent_reroute_count f db now (cr_window d) (Some bundle) (Some (cr_device_id d)))
                   (scoped_outstanding_configuration_actions f db now (cr_window d) bundle (cr_device_id d))
             in if int (unat (cr_limit d)) < sat_add_i64 projected requested
                then and_then (release_rate_guards f (Suc guards))
                       (\<lambda>_. Inl (RateLimit projected (cr_window d) (cr_limit d)))
                else admit_devices f now db bundle ds (Suc guards))))"

definition admit_guards ::
    "faults \<Rightarrow> int \<Rightarrow> database \<Rightarrow> u64 \<Rightarrow> u32 \<Rightarrow> rate_scope \<Rightarrow> block_reason + nat" where
  "admit_guards f now db bundle actions scope =
     (case scope of
        RoutingScope limit window \<Rightarrow>
          if limit = 0 then Inr 0
          else and_then (acquire_rate f ''20:reroute:rate-global'') (\<lambda>_.
            let projected = sat_add_i64
                  (scoped_recent_reroute_count f db now window (Some bundle) None)
                  (scoped_outstanding_bundle_actions f db now window bundle None)
            in if int (unat limit) < sat_add_i64 projected (int (unat actions))
               then and_then (release_rate_guards f 1)
                      (\<lambda>_. Inl (RateLimit projected window limit))
               else Inr 1)
      | ConfigurationScope devices \<Rightarrow> admit_devices f now db bundle devices 0)"

definition admissible :: "u64 \<Rightarrow> bundle_row \<Rightarrow> bool" where
  "admissible bundle b \<longleftrightarrow> bn_id b = bundle \<and> bn_state b = BundlePlanned \<and> bn_rate_reserved b = 0"

text \<open>The result and the database left behind: a failure to release the locks comes after the
  reservation has been written.\<close>

definition admit_bundle ::
    "faults \<Rightarrow> safety_config \<Rightarrow> int \<Rightarrow> u64 \<Rightarrow> u32 \<Rightarrow> database \<Rightarrow> (block_reason + unit) \<times> database" where
  "admit_bundle f cfg now bundle actions db =
     (case and_then (bundle_rate_scope f cfg db bundle) (\<lambda>scope.
           and_then (map_err GuardConnection (fetch f QConnection ())) (\<lambda>_.
             admit_guards f now db bundle actions scope)) of
        Inl e \<Rightarrow> (Inl e, db)
      | Inr guards \<Rightarrow>
          if guards = 0 then (Inr (), db)
          else (case fetch f QBundleReserve () of
            Inl e \<Rightarrow> (Inl (PersistFailed e), db)
          | Inr _ \<Rightarrow>
              let hit = rows_affected (admissible bundle) (db_bundles db);
                  db' = db\<lparr>db_bundles := update_rows (admissible bundle)
                          (\<lambda>b. b\<lparr>bn_rate_reserved := actions\<rparr>) (db_bundles db)\<rparr>
              in if hit = 1 then (release_rate_guards f guards, db')
                 else (case fetch f QBundleReserved (map_option bn_rate_reserved (find_bundle db' bundle)) of
                   Inl e \<Rightarrow> (Inl (PersistFailed e), db')
                 | Inr existing \<Rightarrow>
                     if existing \<noteq> Some actions
                     then (and_then (release_rate_guards f guards) (\<lambda>_.
                             Inl (PersistFailed ''bundle was not in an admissible planned state'')), db')
                     else (release_rate_guards f guards, db'))))"

subsection \<open>The row of a reservation\<close>

fun show_mode :: "verification_mode \<Rightarrow> string" where
  "show_mode Routing = ''routing''"
| "show_mode ConfigurationOnly = ''configuration_only''"

definition json_opt_str :: "string option \<Rightarrow> json" where
  "json_opt_str s = (case s of None \<Rightarrow> JNull | Some x \<Rightarrow> JStr x)"

definition json_opt_u64 :: "u64 option \<Rightarrow> json" where
  "json_opt_u64 n = (case n of None \<Rightarrow> JNull | Some x \<Rightarrow> JNum (PosInt x))"

definition template_to_json :: "template \<Rightarrow> json" where
  "template_to_json t = JObj
     [(''automatic_allowed'', JBool (tp_automatic_allowed t)),
      (''description'', json_opt_str (tp_description t)),
      (''display_name'', json_opt_str (tp_display_name t)),
      (''enabled'', JBool (tp_enabled t)),
      (''id'', JNum (PosInt (tp_id t))),
      (''mode'', JStr (tp_mode t)),
      (''name'', JStr (tp_name t)),
      (''parameter_schema'', tp_parameter_schema t),
      (''plan'', tp_plan t),
      (''provider_type'', JStr (tp_provider_type t)),
      (''rollback_template_id'', json_opt_u64 (tp_rollback_template_id t)),
      (''v6_sibling_template_id'', json_opt_u64 (tp_v6_sibling_template_id t)),
      (''verification'', tp_verification t)]"

fun show_prepared_error :: "prepared_error \<Rightarrow> string" where
  "show_prepared_error (UnsupportedSchema v) =
     ''unsupported prepared action schema version '' @ show_word v"
| "show_prepared_error IncompleteIdentity = ''prepared action identity is incomplete''"
| "show_prepared_error ChangeWithoutEvidence =
     ''a changing prepared action needs commands and non-empty before/after/verification evidence''"
| "show_prepared_error SatisfiedOwnsCommands =
     ''an already-satisfied action must own no commands/inverse and must carry explicit '' @
     ''before/after/verification evidence''"
| "show_prepared_error InverseScopeDiffers =
     ''prepared inverse verification scope differs from its action''"
| "show_prepared_error InverseWithoutEvidence =
     ''a prepared inverse needs commands plus non-empty compare/restore/verification state''"

text \<open>The action that undoes a recorded one, from the inverse prepared with it.\<close>

definition inverse_action ::
    "u64 \<Rightarrow> u64 \<Rightarrow> string \<Rightarrow> json option \<Rightarrow> prepared_inverse \<Rightarrow> int \<Rightarrow> prepared_action" where
  "inverse_action device template_id name params iv now =
     \<lparr>pa_schema_version = PREPARED_DEVICE_ACTION_SCHEMA_VERSION, pa_device_id = device,
      pa_template_id = template_id, pa_template_name = name,
      pa_canonical_params = (case params of Some p \<Rightarrow> p | None \<Rightarrow> JNull),
      pa_verification_mode = pi_verification_mode iv, pa_commands = pi_commands iv,
      pa_before = pi_expected_current iv, pa_after = pi_restore iv, pa_verify = pi_verify iv,
      pa_effect = ChangeEffect, pa_inverse = None, pa_prepared_at = now\<rparr>"

text \<open>The template snapshot, the catalogue's rollback snapshot and the prepared action behind a
  reservation.\<close>

definition reservation_snapshot ::
    "faults \<Rightarrow> int \<Rightarrow> database \<Rightarrow> action_request \<Rightarrow> execution_authorization \<Rightarrow>
     string + (json \<times> json option \<times> prepared_action)" where
  "reservation_snapshot f now db req auth =
     (case xa_snapshot_action_id auth of
        Some action \<Rightarrow>
          and_then (fetch f QPreparedAction
            (List.find (\<lambda>a. ba_id a = action) (db_bundle_actions db))) (\<lambda>row.
          and_then (ok_or ''no rows returned'' row) (\<lambda>a.
          and_then (ok_or ''unexpected null'' (ba_prepared a)) (\<lambda>decoded.
          and_then decoded (\<lambda>prepared.
            Inr (ba_template_snapshot a, ba_rollback_snapshot a, prepared)))))
      | None \<Rightarrow>
          if xa_kind auth = Compensation
          then and_then (ok_or ''compensation has no original reroute'' (aq_rollback_of req)) (\<lambda>original.
               and_then (fetch f QInverse
                 (List.find (\<lambda>r. rr_id r = original) (db_reroutes db))) (\<lambda>row.
               and_then (ok_or ''no rows returned'' row) (\<lambda>r.
               and_then (ok_or ''original reroute has no prepared inverse'' (rr_rollback_snapshot r)) (\<lambda>s.
               and_then (decode_inverse s) (\<lambda>iv.
                 Inr (template_to_json (aq_template req), rr_template_snapshot r,
                      inverse_action (aq_device_id req) (tp_id (aq_template req))
                        (tp_name (aq_template req)) (rr_params r) iv now))))))
          else Inl ''reroute has no durable prepared sibling'')"

definition reservation_row ::
    "int \<Rightarrow> u64 \<Rightarrow> action_request \<Rightarrow> rendered_plan \<Rightarrow> json \<times> json option \<times> prepared_action \<Rightarrow> reroute_row" where
  "reservation_row now rid req plan snapshot =
     (let (template_snapshot, catalog, prepared) = snapshot in
      \<lparr>rr_id = rid, rr_device_id = Some (aq_device_id req), rr_rule_id = aq_rule_id req,
       rr_bundle_id = request_bundle req, rr_bundle_position = map_option bm_position (aq_bundle req),
       rr_rule_event_id = aq_rule_event_id req, rr_template_id = tp_id (aq_template req),
       rr_rollback_of = aq_rollback_of req, rr_trigger_type = aq_trigger_type req,
       rr_user_id = aq_user_id req, rr_state = Planned, rr_reason = aq_reason req,
       rr_params = Some (aq_params req), rr_commands = rp_commands plan,
       rr_verification_mode = Some (show_mode (pa_verification_mode prepared)),
       rr_prior_state = Some (Inr (pa_before prepared)), rr_after_state = Some (Inr (pa_after prepared)),
       rr_template_snapshot = Some template_snapshot,
       rr_rollback_snapshot = (case pa_inverse prepared of
           Some iv \<Rightarrow> Some (InverseSnapshot iv) | None \<Rightarrow> map_option CatalogSnapshot catalog),
       rr_started_at = None, rr_finished_at = None, rr_success = None, rr_failure_reason = None,
       rr_verification_status = None, rr_mutation_effect = EffectPending, rr_created_at = now\<rparr>)"

definition spend_reservation :: "u64 \<Rightarrow> database \<Rightarrow> string + database" where
  "spend_reservation bundle db =
     (let p = (\<lambda>b. bn_id b = bundle \<and> 0 < bn_rate_reserved b) in
      if rows_affected p (db_bundles db) \<noteq> 1 then Inl ''bundle has no unspent rate reservation''
      else Inr (db\<lparr>db_bundles := update_rows p
             (\<lambda>b. b\<lparr>bn_rate_reserved := bn_rate_reserved b - 1,
                     bn_rate_consumed := bn_rate_consumed b + 1\<rparr>) (db_bundles db)\<rparr>))"

definition step_rows :: "u64 \<Rightarrow> string list \<Rightarrow> step_row list" where
  "step_rows rid commands =
     map (\<lambda>(i, cmd). \<lparr>sr_reroute_id = rid, sr_step_number = of_nat (Suc i), sr_description = cmd,
            sr_state = ''planned''\<rparr>) (enumerate 0 commands)"

definition insert_reroute ::
    "faults \<Rightarrow> int \<Rightarrow> action_request \<Rightarrow> rendered_plan \<Rightarrow> bool \<Rightarrow> database \<Rightarrow> string + (u64 \<times> database)" where
  "insert_reroute f now req plan consume db =
     and_then (fetch f QBegin ()) (\<lambda>_.
     and_then (ok_or ''reroute has no durable execution authority'' (aq_authorization req)) (\<lambda>auth.
     and_then (reservation_snapshot f now db req auth) (\<lambda>snapshot.
     and_then (map_err show_prepared_error (validate_prepared (snd (snd snapshot)))) (\<lambda>_.
     and_then (case (consume, request_bundle req) of
                 (True, Some bundle) \<Rightarrow>
                   and_then (fetch f QBundleReserve ()) (\<lambda>_. spend_reservation bundle db)
               | _ \<Rightarrow> Inr db) (\<lambda>db1.
     and_then (fetch f QInsert ()) (\<lambda>_.
     and_then (fetch f QSteps ()) (\<lambda>_.
     and_then (fetch f QCommit ()) (\<lambda>_.
       let rid = db_next_reroute db1 in
       Inr (rid, db1\<lparr>db_reroutes := db_reroutes db1 @ [reservation_row now rid req plan snapshot],
                     db_steps := db_steps db1 @ step_rows rid (rp_commands plan),
                     db_next_reroute := rid + 1\<rparr>)))))))))"

subsection \<open>Reserving a slot\<close>

definition on_device :: "u64 \<Rightarrow> reroute_row \<Rightarrow> bool" where
  "on_device d r = (rr_device_id r = Some d)"

definition running_on_device :: "faults \<Rightarrow> database \<Rightarrow> u64 \<Rightarrow> bool" where
  "running_on_device f db d =
     (0 < unwrap_or 1 (fetch f QRunning (count (\<lambda>r. on_device d r \<and> in_flight (rr_state r)) (db_reroutes db))))"

definition has_uncertain :: "faults \<Rightarrow> database \<Rightarrow> u64 \<Rightarrow> bool" where
  "has_uncertain f db d =
     (0 < unwrap_or 1 (fetch f QUncertain (count (\<lambda>r. on_device d r \<and> rr_state r = Uncertain) (db_reroutes db))))"

definition inverse_exists :: "faults \<Rightarrow> database \<Rightarrow> u64 \<Rightarrow> bool" where
  "inverse_exists f db original =
     (0 < unwrap_or 1 (fetch f QInverseExists (count (\<lambda>r. rr_rollback_of r = Some original \<and>
        (in_flight (rr_state r) \<or> rr_state r = Succeeded)) (db_reroutes db))))"

definition maintenance_value :: "string option \<Rightarrow> bool" where
  "maintenance_value v \<longleftrightarrow> v \<in> {Some ''true'', Some ''1'', Some ''yes'', Some ''on''}"

definition reserve_slot ::
    "faults \<Rightarrow> int \<Rightarrow> action_request \<Rightarrow> rendered_plan \<Rightarrow> bool \<Rightarrow> database \<Rightarrow> block_reason + (u64 \<times> database)" where
  "reserve_slot f now req plan consume db =
     and_then (map_err GateReadFailed
       (fetch f (QSetting ''global_maintenance_lock'') (setting db ''global_maintenance_lock''))) (\<lambda>m.
     and_then (ensure MaintenanceLock (\<not> maintenance_value m)) (\<lambda>_.
     and_then (map_err GateReadFailed
       (is_blocked f db ''device'' (show_word (aq_device_id req)))) (\<lambda>blocked.
     and_then (ensure DeviceLocked (\<not> blocked)) (\<lambda>_.
     and_then (map_err GateReadFailed
       (fetch f QWindow (map_option cw_owner_token (window_of db (aq_device_id req))))) (\<lambda>owner.
     and_then (ensure DeviceLocked (owner = None \<or> request_owner req = owner)) (\<lambda>_.
     and_then (ensure AlreadyRunning (\<not> running_on_device f db (aq_device_id req))) (\<lambda>_.
     and_then (ensure UnresolvedUncertain (\<not> has_uncertain f db (aq_device_id req))) (\<lambda>_.
     and_then (case aq_rollback_of req of
         None \<Rightarrow> Inr ()
       | Some original \<Rightarrow> ensure AlreadyRunning (\<not> inverse_exists f db original)) (\<lambda>_.
       map_err PersistFailed (insert_reroute f now req plan consume db))))))))))"

text \<open>The limit, the window, the lock label and the lab device of a request.\<close>

definition request_rate ::
    "faults \<Rightarrow> safety_config \<Rightarrow> database \<Rightarrow> action_request \<Rightarrow>
     block_reason + (u32 \<times> u64 \<times> string \<times> u64 option)" where
  "request_rate f cfg db req =
     and_then (case request_bundle req of
         Some bundle \<Rightarrow> bundle_rate_scope f cfg db bundle
       | None \<Rightarrow> Inr (RoutingScope (cf_rate_limit_count cfg) (cf_rate_limit_window cfg))) (\<lambda>scope.
       case scope of
         RoutingScope limit window \<Rightarrow> Inr (limit, window, ''20:reroute:rate-global'', None)
       | ConfigurationScope devices \<Rightarrow>
           (case List.find (\<lambda>d. cr_device_id d = aq_device_id req) devices of
             None \<Rightarrow> Inl (GateReadFailed
               ''configuration-only action device is absent from its bundle ledger'')
           | Some d \<Rightarrow> Inr (cr_limit d, cr_window d, configuration_rate_lock_label (cr_device_id d),
                            Some (cr_device_id d))))"

definition own_reserved :: "faults \<Rightarrow> database \<Rightarrow> u64 \<Rightarrow> u32" where
  "own_reserved f db bundle =
     (case fetch f QBundleReserved (map_option bn_rate_reserved (find_bundle db bundle)) of
        Inr (Some n) \<Rightarrow> n | _ \<Rightarrow> 0)"

text \<open>The authoritative rate check under the rate lock.\<close>

definition rate_check ::
    "faults \<Rightarrow> int \<Rightarrow> database \<Rightarrow> action_request \<Rightarrow> u32 \<Rightarrow> u64 \<Rightarrow> u64 option \<Rightarrow> block_reason + unit" where
  "rate_check f now db req limit window lab =
     (let projected = sat_add_i64
            (scoped_recent_reroute_count f db now window (request_bundle req) lab)
            (case lab of
               Some d \<Rightarrow> scoped_outstanding_configuration_actions f db now window
                 (case request_bundle req of Some b \<Rightarrow> b | None \<Rightarrow> 0) d
             | None \<Rightarrow> outstanding_bundle_actions_pool f db now window (request_bundle req))
      in if (case request_bundle req of
               Some bundle \<Rightarrow> own_reserved f db bundle = 0
             | None \<Rightarrow> int (unat limit) \<le> projected)
         then and_then (release_rate_guards f 1) (\<lambda>_. Inl (RateLimit projected window limit))
         else Inr ())"

definition uses_budget :: "action_request \<Rightarrow> u32 \<Rightarrow> bool" where
  "uses_budget req limit \<longleftrightarrow> aq_trigger_type req \<noteq> ''rollback'' \<and> 0 < limit"

text \<open>Everything before the slot: the rate scope, the rate lock and its check, the device lock. The
  result says whether the action spends rate budget.\<close>

definition reservation_gate ::
    "faults \<Rightarrow> safety_config \<Rightarrow> int \<Rightarrow> database \<Rightarrow> action_request \<Rightarrow> block_reason + bool" where
  "reservation_gate f cfg now db req =
     and_then (request_rate f cfg db req) (\<lambda>(limit, window, label, lab).
     and_then (if uses_budget req limit then acquire_rate f label else Inr ()) (\<lambda>_.
     and_then (map_err GuardConnection (fetch f QConnection ())) (\<lambda>_.
     and_then (if uses_budget req limit then rate_check f now db req limit window lab else Inr ()) (\<lambda>_.
     and_then (map_err GuardConnection (fetch f QDeviceLock ())) (\<lambda>_.
       Inr (uses_budget req limit))))))"

definition reserve_and_persist ::
    "faults \<Rightarrow> safety_config \<Rightarrow> int \<Rightarrow> action_request \<Rightarrow> rendered_plan \<Rightarrow> database \<Rightarrow>
     (block_reason + u64) \<times> database" where
  "reserve_and_persist f cfg now req plan db =
     (case reservation_gate f cfg now db req of
        Inl e \<Rightarrow> (Inl e, db)
      | Inr budget \<Rightarrow>
          let reserved = reserve_slot f now req plan budget db;
              db' = (case reserved of Inl _ \<Rightarrow> db | Inr (_, d) \<Rightarrow> d)
          in (and_then (map_err GuardConnection (fetch f QDeviceUnlock ())) (\<lambda>_.
              and_then (release_rate_guards f (if budget then 1 else 0)) (\<lambda>_.
                and_then reserved (\<lambda>(rid, _). Inr rid))), db'))"

subsection \<open>What a reservation writes\<close>

definition spent :: "action_request \<Rightarrow> bool \<Rightarrow> database \<Rightarrow> database \<Rightarrow> bool" where
  "spent req consume db db1 =
     (case (consume, request_bundle req) of
        (True, Some bundle) \<Rightarrow> spend_reservation bundle db = Inr db1
      | _ \<Rightarrow> db1 = db)"

lemma insert_reroute_Inr:
  assumes "insert_reroute f now req plan consume db = Inr (rid, db')"
  obtains db1 snapshot where "spent req consume db db1" "rid = db_next_reroute db1"
    "db' = db1\<lparr>db_reroutes := db_reroutes db1 @ [reservation_row now rid req plan snapshot],
                db_steps := db_steps db1 @ step_rows rid (rp_commands plan),
                db_next_reroute := rid + 1\<rparr>"
proof -
  from assms obtain snapshot db1 where
    s: "(case (consume, request_bundle req) of
           (True, Some bundle) \<Rightarrow> and_then (fetch f QBundleReserve ()) (\<lambda>_. spend_reservation bundle db)
         | _ \<Rightarrow> Inr db) = Inr db1"
    and d: "rid = db_next_reroute db1"
      "db' = db1\<lparr>db_reroutes := db_reroutes db1 @ [reservation_row now rid req plan snapshot],
                db_steps := db_steps db1 @ step_rows rid (rp_commands plan),
                db_next_reroute := rid + 1\<rparr>"
    by (auto simp: insert_reroute_def and_then_Inr_iff Let_def)
  from s have "spent req consume db db1"
    by (cases consume; cases "request_bundle req") (auto simp: spent_def and_then_Inr_iff)
  with d show ?thesis by (rule that [rotated])
qed

lemma spend_reservation_frame:
  "spend_reservation bundle db = Inr db1 \<Longrightarrow> \<exists>bs. db1 = db\<lparr>db_bundles := bs\<rparr>"
  by (auto simp: spend_reservation_def Let_def split: if_splits)

lemma spent_frame: "spent req consume db db1 \<Longrightarrow> \<exists>bs. db1 = db\<lparr>db_bundles := bs\<rparr>"
  by (cases consume; cases "request_bundle req")
    (auto simp: spent_def spend_reservation_frame intro: exI [of _ "db_bundles db"])

lemma reservation_row_fields [simp]:
  "rr_id (reservation_row now rid req plan s) = rid"
  "rr_device_id (reservation_row now rid req plan s) = Some (aq_device_id req)"
  "rr_state (reservation_row now rid req plan s) = Planned"
  "rr_bundle_id (reservation_row now rid req plan s) = request_bundle req"
  "rr_rollback_of (reservation_row now rid req plan s) = aq_rollback_of req"
  "rr_created_at (reservation_row now rid req plan s) = now"
  "rr_started_at (reservation_row now rid req plan s) = None"
  "rr_mutation_effect (reservation_row now rid req plan s) = EffectPending"
  "rr_verification_mode (reservation_row now rid req plan s) = Some (show_mode (pa_verification_mode (snd (snd s))))"
  by (simp_all add: reservation_row_def split: prod.split)

definition device_idle :: "database \<Rightarrow> u64 \<Rightarrow> bool" where
  "device_idle db d =
     (\<forall>r \<in> set (db_reroutes db). on_device d r \<longrightarrow> \<not> in_flight (rr_state r) \<and> rr_state r \<noteq> Uncertain)"

lemma idle_reads: "\<not> running_on_device f db d \<Longrightarrow> \<not> has_uncertain f db d \<Longrightarrow> device_idle db d"
  by (auto simp: running_on_device_def has_uncertain_def fetch_def device_idle_def count_pos
      simp del: not_less split: option.splits)

lemma no_inverse: "\<not> inverse_exists f db original \<Longrightarrow>
    \<forall>r \<in> set (db_reroutes db). rr_rollback_of r = Some original \<longrightarrow>
      rr_state r = Failed \<or> rr_state r = Uncertain"
  by (auto simp: inverse_exists_def fetch_def count_pos in_flight_def
      simp del: not_less split: option.splits) (metis reroute_state.exhaust)

lemma reserve_slot_Inr:
  assumes "reserve_slot f now req plan consume db = Inr (rid, db')"
  shows "\<not> maintenance_value (setting db ''global_maintenance_lock'')"
    and "device_open db req" and "device_idle db (aq_device_id req)"
    and "aq_rollback_of req = Some original \<Longrightarrow> \<not> inverse_exists f db original"
    and "insert_reroute f now req plan consume db = Inr (rid, db')"
proof -
  let ?d = "aq_device_id req"
  from assms have m: "\<not> maintenance_value (setting db ''global_maintenance_lock'')"
    and b: "is_blocked f db ''device'' (show_word ?d) = Inr False"
    and o: "map_option cw_owner_token (window_of db ?d) = None \<or>
      request_owner req = map_option cw_owner_token (window_of db ?d)"
    and i: "\<not> running_on_device f db ?d" "\<not> has_uncertain f db ?d"
    and inv: "\<And>original. aq_rollback_of req = Some original \<Longrightarrow> \<not> inverse_exists f db original"
    and ins: "insert_reroute f now req plan consume db = Inr (rid, db')"
    by (auto simp: reserve_slot_def and_then_Inr_iff map_err_Inr_iff fetch_Inr_iff ensure_def
        split: if_splits option.splits)
  show "\<not> maintenance_value (setting db ''global_maintenance_lock'')" by (rule m)
  show "device_open db req"
    using b o by (auto simp: device_open_def is_blocked_def fetch_Inr_iff count_pos
        simp del: not_less split: option.splits)
  show "device_idle db ?d" using i by (rule idle_reads)
  show "aq_rollback_of req = Some original \<Longrightarrow> \<not> inverse_exists f db original" by (rule inv)
  show "insert_reroute f now req plan consume db = Inr (rid, db')" by (rule ins)
qed

lemma reserve_and_persist_Inr:
  assumes "reserve_and_persist f cfg now req plan db = (Inr rid, db')"
  obtains limit window label lab where
    "request_rate f cfg db req = Inr (limit, window, label, lab)"
    "uses_budget req limit \<Longrightarrow> rate_check f now db req limit window lab = Inr ()"
    "reserve_slot f now req plan (uses_budget req limit) db = Inr (rid, db')"
proof -
  from assms obtain budget where pre: "reservation_gate f cfg now db req = Inr budget"
    and post: "reserve_slot f now req plan budget db = Inr (rid, db')"
    unfolding reserve_and_persist_def
    by (auto simp: Let_def and_then_Inr_iff split: sum.splits)
  from pre obtain limit window label lab where
    "request_rate f cfg db req = Inr (limit, window, label, lab)"
    "uses_budget req limit \<Longrightarrow> rate_check f now db req limit window lab = Inr ()"
    "budget = uses_budget req limit"
    by (auto simp: reservation_gate_def and_then_Inr_iff split: if_splits)
  with post that show ?thesis by blast
qed

subsection \<open>Properties of a reservation\<close>

text \<open>C2: whatever the reads answer, a reservation succeeds only while the installation is not
  under maintenance, the device has no active lock and no foreign change window, no other action
  is in flight or unresolved on it, and a rollback is the first live inverse of its original;
  it adds one planned row with a fresh id and touches no lock, no window and no other row.\<close>

theorem reservation_sound:
  assumes "reserve_and_persist f cfg now req plan db = (Inr rid, db')"
  shows "\<not> maintenance_value (setting db ''global_maintenance_lock'') \<and> device_open db req \<and>
     device_idle db (aq_device_id req) \<and> rid = db_next_reroute db \<and>
     (\<exists>row. db_reroutes db' = db_reroutes db @ [row] \<and> rr_id row = rid \<and> rr_state row = Planned \<and>
        on_device (aq_device_id req) row) \<and>
     db_locks db' = db_locks db \<and> db_windows db' = db_windows db \<and>
     (case aq_rollback_of req of
        None \<Rightarrow> True
      | Some original \<Rightarrow> \<forall>r \<in> set (db_reroutes db). rr_rollback_of r = Some original \<longrightarrow>
          rr_state r = Failed \<or> rr_state r = Uncertain)"
  using assms
proof (rule reserve_and_persist_Inr)
  fix limit window label lab
  assume slot: "reserve_slot f now req plan (uses_budget req limit) db = Inr (rid, db')"
  note s = reserve_slot_Inr [OF slot]
  from s(5) obtain db1 snapshot where sp: "spent req (uses_budget req limit) db db1"
    and rid: "rid = db_next_reroute db1"
    and db': "db' = db1\<lparr>db_reroutes := db_reroutes db1 @ [reservation_row now rid req plan snapshot],
                db_steps := db_steps db1 @ step_rows rid (rp_commands plan),
                db_next_reroute := rid + 1\<rparr>"
    by (rule insert_reroute_Inr)
  from spent_frame [OF sp] obtain bs where db1: "db1 = db\<lparr>db_bundles := bs\<rparr>" by blast
  have "\<forall>r \<in> set (db_reroutes db). rr_rollback_of r = Some original \<longrightarrow>
      rr_state r = Failed \<or> rr_state r = Uncertain" if "aq_rollback_of req = Some original" for original
    using s(4) [OF that] by (rule no_inverse)
  with s(1-3) show ?thesis
    by (simp add: db' db1 rid on_device_def split: option.split)
qed

text \<open>A refused reservation leaves the database as it was, unless the refusal is that a lock
  could not be released.\<close>

theorem refused_reservation_changes_nothing:
  assumes "reserve_and_persist f cfg now req plan db = (Inl e, db')"
    and "f QDeviceUnlock = None" "f QRateUnlock = None"
  shows "db' = db"
  using assms
  by (auto simp: reserve_and_persist_def Let_def release_rate_guards_def fetch_def map_err_def
      split: sum.splits if_splits)

lemma fetch_unlock [simp]:
  "q \<noteq> QDeviceUnlock \<Longrightarrow> fetch (f(QDeviceUnlock := e)) q v = fetch f q v"
  by (simp add: fetch_def)

lemma scope_ignores_unlock [simp]:
  "bundle_rate_scope (f(QDeviceUnlock := e)) cfg db b = bundle_rate_scope f cfg db b"
  by (simp add: bundle_rate_scope_def cong: if_cong)

lemma rate_ignores_unlock [simp]:
  "request_rate (f(QDeviceUnlock := e)) cfg db req = request_rate f cfg db req"
  by (simp add: request_rate_def cong: if_cong option.case_cong)

lemma check_ignores_unlock [simp]:
  "rate_check (f(QDeviceUnlock := e)) now db req limit window lab = rate_check f now db req limit window lab"
  by (simp add: rate_check_def scoped_recent_reroute_count_def release_rate_guards_def
      scoped_outstanding_configuration_actions_def outstanding_bundle_actions_pool_def own_reserved_def
      cong: if_cong option.case_cong)

lemma gate_ignores_unlock [simp]:
  "reservation_gate (f(QDeviceUnlock := e)) cfg now db req = reservation_gate f cfg now db req"
  by (simp add: reservation_gate_def acquire_rate_def cong: if_cong)

lemma insert_ignores_unlock [simp]:
  "insert_reroute (f(QDeviceUnlock := e)) now req plan budget db = insert_reroute f now req plan budget db"
  by (cases budget)
    (simp_all add: insert_reroute_def reservation_snapshot_def cong: if_cong option.case_cong)

lemma slot_ignores_unlock [simp]:
  "reserve_slot (f(QDeviceUnlock := e)) now req plan budget db = reserve_slot f now req plan budget db"
  by (simp add: reserve_slot_def is_blocked_def running_on_device_def has_uncertain_def
      inverse_exists_def cong: if_cong option.case_cong)

lemma reserved_runs:
  assumes "reserve_slot f now req plan budget db = Inr (rid, db')"
  shows "running_on_device g db' (aq_device_id req)"
proof -
  from reserve_slot_Inr(5) [OF assms] obtain db1 snapshot where
    "db' = db1\<lparr>db_reroutes := db_reroutes db1 @ [reservation_row now rid req plan snapshot],
                db_steps := db_steps db1 @ step_rows rid (rp_commands plan),
                db_next_reroute := rid + 1\<rparr>"
    by (rule insert_reroute_Inr)
  then have "0 < count (\<lambda>r. on_device (aq_device_id req) r \<and> in_flight (rr_state r)) (db_reroutes db')"
    by (simp add: count_def on_device_def in_flight_def)
  then show ?thesis by (simp add: running_on_device_def fetch_def split: option.split)
qed

text \<open>When the device lock cannot be released, the reservation is reported as refused
  although its planned row is committed, and the device stays busy for every later action.\<close>

theorem unlock_failure_loses_reservation:
  assumes "reserve_and_persist f cfg now req plan db = (Inr rid, db')"
  shows "reserve_and_persist (f(QDeviceUnlock := Some e)) cfg now req plan db = (Inl (GuardConnection e), db') \<and>
     running_on_device g db' (aq_device_id req)"
proof
  from assms obtain limit window label lab where "reserve_slot f now req plan (uses_budget req limit) db = Inr (rid, db')"
    by (rule reserve_and_persist_Inr)
  then show "running_on_device g db' (aq_device_id req)" by (rule reserved_runs)
  have "fetch (f(QDeviceUnlock := Some e)) QDeviceUnlock () = Inl e" by (simp add: fetch_def)
  moreover from assms obtain budget where "reservation_gate f cfg now db req = Inr budget"
    by (cases "reservation_gate f cfg now db req") (simp_all add: reserve_and_persist_def)
  ultimately show "reserve_and_persist (f(QDeviceUnlock := Some e)) cfg now req plan db = (Inl (GuardConnection e), db')"
    using assms by (simp add: reserve_and_persist_def Let_def map_err_def)
qed

subsection \<open>The rate budget\<close>

text \<open>The primary key of \<open>reroute_bundles\<close>.\<close>

definition bundles_ok :: "database \<Rightarrow> bool" where
  "bundles_ok db = distinct (map bn_id (db_bundles db))"

definition counted :: "database \<Rightarrow> int \<Rightarrow> u64 \<Rightarrow> reroute_row \<Rightarrow> bool" where
  "counted db now window r \<longleftrightarrow>
     now - as_i64 window < rr_created_at r \<and> verification_mode_of_row db r \<noteq> ''configuration_only''"

definition in_budget :: "int \<Rightarrow> u64 \<Rightarrow> bundle_row \<Rightarrow> bool" where
  "in_budget now window b \<longleftrightarrow>
     bundle_live b \<and> bundle_mode b \<noteq> ''configuration_only'' \<and> now - as_i64 window < bn_created_at b"

definition reserved_sum :: "(bundle_row \<Rightarrow> bool) \<Rightarrow> bundle_row list \<Rightarrow> int" where
  "reserved_sum p bs = sum_list (map (int \<circ> unat \<circ> bn_rate_reserved) (filter p bs))"

lemma rate_load_alt:
  "rate_load db now window =
     count (counted db now window) (db_reroutes db) + reserved_sum (in_budget now window) (db_bundles db)"
  by (simp add: rate_load_def counted_def [abs_def] in_budget_def [abs_def] reserved_sum_def)

lemma reserved_sum_nonneg [simp]: "0 \<le> reserved_sum p bs"
  unfolding reserved_sum_def by (rule sum_list_nonneg_int) auto

lemma reserved_sum_Nil [simp]: "reserved_sum p [] = 0"
  by (simp add: reserved_sum_def)

lemma reserved_sum_Cons [simp]:
  "reserved_sum p (b # bs) = (if p b then int (unat (bn_rate_reserved b)) else 0) + reserved_sum p bs"
  by (simp add: reserved_sum_def)

lemma reserved_sum_cong: "(\<And>b. b \<in> set bs \<Longrightarrow> p b = q b) \<Longrightarrow> reserved_sum p bs = reserved_sum q bs"
  by (simp add: reserved_sum_def cong: filter_cong)

lemma reserved_sum_split:
  "distinct (map bn_id bs) \<Longrightarrow> reserved_sum p bs =
     reserved_sum (\<lambda>x. p x \<and> bn_id x \<noteq> k) bs +
     (case List.find (\<lambda>x. bn_id x = k) bs of
        Some x \<Rightarrow> if p x then int (unat (bn_rate_reserved x)) else 0 | None \<Rightarrow> 0)"
proof (induction bs)
  case Nil
  then show ?case by simp
next
  case (Cons b bs)
  show ?case
  proof (cases "bn_id b = k")
    case True
    with Cons.prems have "\<forall>x \<in> set bs. bn_id x \<noteq> k"
      by simp (metis imageI)
    then have "reserved_sum (\<lambda>x. p x \<and> bn_id x \<noteq> k) bs = reserved_sum p bs"
      by (intro reserved_sum_cong) auto
    with True show ?thesis by simp
  next
    case False
    with Cons show ?thesis by simp
  qed
qed

lemma reserved_sum_update_other:
  "(\<And>b. u b \<Longrightarrow> bn_id b = k \<and> bn_id (g b) = k) \<Longrightarrow>
   reserved_sum (\<lambda>x. p x \<and> bn_id x \<noteq> k) (update_rows u g bs) =
   reserved_sum (\<lambda>x. p x \<and> bn_id x \<noteq> k) bs"
  by (induction bs) (auto simp: update_rows_def)

lemma find_update_rows:
  "(\<And>b. u b \<Longrightarrow> bn_id (g b) = bn_id b) \<Longrightarrow>
   List.find (\<lambda>x. bn_id x = k) (update_rows u g bs) =
   map_option (\<lambda>b. if u b then g b else b) (List.find (\<lambda>x. bn_id x = k) bs)"
  by (induction bs) (auto simp: update_rows_def)

lemma mode_update_rows:
  assumes "\<And>b. u b \<Longrightarrow> bn_id (g b) = bn_id b \<and> bn_verification_mode (g b) = bn_verification_mode b"
  shows "verification_mode_of_row (db\<lparr>db_bundles := update_rows u g (db_bundles db)\<rparr>) r =
     verification_mode_of_row db r"
proof -
  have "List.find (\<lambda>x. bn_id x = k) (update_rows u g (db_bundles db)) =
      map_option (\<lambda>b. if u b then g b else b) (List.find (\<lambda>x. bn_id x = k) (db_bundles db))" for k
    using assms by (intro find_update_rows) auto
  then show ?thesis
    using assms by (cases "rr_bundle_id r") (auto simp: verification_mode_of_row_def split: option.splits)
qed

lemma count_split: "count p xs = count (\<lambda>x. p x \<and> q x) xs + count (\<lambda>x. p x \<and> \<not> q x) xs"
  by (induction xs) (auto simp: count_def)

lemma count_append: "count p (xs @ [x]) = count p xs + (if p x then 1 else 0)"
  by (simp add: count_def)

lemma limit_below_max: "int (unat (limit :: u32)) < i64_max"
proof -
  have "unat limit < 2 ^ LENGTH(32)" by (rule unsigned_less)
  then have "unat limit < 4294967296" by simp
  then show ?thesis unfolding i64_max_def by linarith
qed

lemma sat_sum_exact:
  "sat_add_i64 a b \<le> k \<Longrightarrow> k < i64_max \<Longrightarrow> 0 \<le> a \<Longrightarrow> 0 \<le> b \<Longrightarrow> sat_add_i64 a b = a + b"
  by (auto simp: sat_add_i64_def i64_min_def min_def max_def split: if_splits)

lemma or_max_nonneg: "0 \<le> n \<Longrightarrow> 0 \<le> or_max (fetch f q n)"
  by (auto simp: or_max_def fetch_def i64_max_def split: option.splits)

lemma scoped_recent_routing:
  "scoped_recent_reroute_count f db now window excluded None =
     or_max (fetch f (QRecentCount None)
       (count (\<lambda>r. counted db now window r \<and> outside_bundle excluded r) (db_reroutes db)))"
  by (simp add: scoped_recent_reroute_count_def counted_def conj_ac)

lemma pool_count_routing:
  "recent_reroute_count f db now window None = scoped_recent_reroute_count f db now window None None"
  by (simp add: scoped_recent_routing recent_reroute_count_def counted_def outside_bundle_def conj_ac)

lemma scoped_outstanding_routing:
  "scoped_outstanding_bundle_actions f db now window k None =
     or_max (fetch f (QOutstanding None)
       (reserved_sum (\<lambda>b. in_budget now window b \<and> bn_id b \<noteq> k) (db_bundles db)))"
  by (simp add: scoped_outstanding_bundle_actions_def reserved_sum_def in_budget_def conj_ac)

lemma reserved_row_load:
  assumes "db_bundles db1 = db_bundles db2"
  shows "verification_mode_of_row db1 r = verification_mode_of_row db2 r"
  using assms by (cases "rr_bundle_id r"; cases "rr_verification_mode r")
    (simp_all add: verification_mode_of_row_def)

lemma rate_load_reserve:
  assumes "db' = db1\<lparr>db_reroutes := db_reroutes db1 @ [row], db_steps := ss, db_next_reroute := n\<rparr>"
  shows "rate_load db' now window = rate_load db1 now window + (if counted db1 now window row then 1 else 0)"
proof -
  have "counted db' now window = counted db1 now window"
    using assms reserved_row_load [of db' db1] by (simp add: counted_def [abs_def])
  with assms show ?thesis by (simp add: rate_load_alt count_append)
qed

lemma routing_scope_mode:
  "bundle_rate_scope f cfg db k = Inr (RoutingScope limit window) \<Longrightarrow> find_bundle db k = Some b \<Longrightarrow>
   bundle_mode b \<noteq> ''configuration_only''"
  by (auto simp: bundle_rate_scope_def and_then_Inr_iff map_err_Inr_iff fetch_Inr_iff
      ok_or_def bundle_mode_def split: if_splits)

lemma request_rate_routing:
  assumes "request_rate f cfg db req = Inr (limit, window, label, None)" "request_bundle req = Some k"
    and "find_bundle db k = Some b"
  shows "bundle_mode b \<noteq> ''configuration_only''"
proof -
  from assms(1,2) obtain scope where s: "bundle_rate_scope f cfg db k = Inr scope"
    by (auto simp: request_rate_def and_then_Inr_iff)
  with assms(1,2) have "scope = RoutingScope limit window"
    by (cases scope) (auto simp: request_rate_def split: option.splits)
  with s assms(3) show ?thesis by (simp add: routing_scope_mode)
qed

lemma spend_reservation_Inr:
  assumes "spend_reservation k db = Inr db1"
  shows "db1 = db\<lparr>db_bundles := update_rows (\<lambda>b. bn_id b = k \<and> 0 < bn_rate_reserved b)
     (\<lambda>b. b\<lparr>bn_rate_reserved := bn_rate_reserved b - 1, bn_rate_consumed := bn_rate_consumed b + 1\<rparr>)
     (db_bundles db)\<rparr>"
    and "\<exists>b \<in> set (db_bundles db). bn_id b = k \<and> 0 < bn_rate_reserved b"
  using assms rows_affected_pos [of "\<lambda>b. bn_id b = k \<and> 0 < bn_rate_reserved b" "db_bundles db"]
  by (auto simp: spend_reservation_def Let_def split: if_splits)

lemma find_distinct:
  "distinct (map bn_id bs) \<Longrightarrow> b \<in> set bs \<Longrightarrow> List.find (\<lambda>x. bn_id x = bn_id b) bs = Some b"
  by (induction bs) (auto simp: image_iff)

lemma load_after_spending:
  assumes "spend_reservation k db = Inr db1" "bundles_ok db" "find_bundle db k = Some b"
    and "bundle_mode b \<noteq> ''configuration_only''"
  shows "rate_load db1 now window =
     rate_load db now window - (if bundle_live b \<and> now - as_i64 window < bn_created_at b then 1 else 0)"
proof -
  let ?u = "\<lambda>b. bn_id b = k \<and> 0 < bn_rate_reserved b"
  let ?g = "\<lambda>b. b\<lparr>bn_rate_reserved := bn_rate_reserved b - 1, bn_rate_consumed := bn_rate_consumed b + 1\<rparr>"
  note db1 = spend_reservation_Inr(1) [OF assms(1)]
  from spend_reservation_Inr(2) [OF assms(1)] obtain c where
    c: "c \<in> set (db_bundles db)" "bn_id c = k" "0 < bn_rate_reserved c" by blast
  with assms(2,3) have b: "List.find (\<lambda>x. bn_id x = k) (db_bundles db) = Some b" "?u b"
    using find_distinct [of "db_bundles db" c] by (auto simp: find_bundle_def bundles_ok_def)
  then have f1: "List.find (\<lambda>x. bn_id x = k) (db_bundles db1) = Some (?g b)"
    by (simp add: db1 find_update_rows)
  have ids: "distinct (map bn_id (db_bundles db1))"
    using assms(2) by (simp add: db1 bundles_ok_def map_update_rows)
  have same: "in_budget now window (?g b) = in_budget now window b"
    by (simp add: in_budget_def bundle_live_def bundle_mode_def)
  have "unat (bn_rate_reserved b - 1) = unat (bn_rate_reserved b) - 1"
    using b(2) by (simp add: unat_sub word_le_nat_alt word_less_nat_alt)
  then have dec: "int (unat (bn_rate_reserved b - 1)) = int (unat (bn_rate_reserved b)) - 1"
    using b(2) by (simp add: word_less_nat_alt of_nat_diff)
  have "reserved_sum (\<lambda>x. in_budget now window x \<and> bn_id x \<noteq> k) (db_bundles db1) =
      reserved_sum (\<lambda>x. in_budget now window x \<and> bn_id x \<noteq> k) (db_bundles db)"
    unfolding db1 by simp (rule reserved_sum_update_other, auto)
  with reserved_sum_split [OF ids, of "in_budget now window" k]
    reserved_sum_split [of "db_bundles db" "in_budget now window" k] assms(2)
  have "reserved_sum (in_budget now window) (db_bundles db1) =
      reserved_sum (in_budget now window) (db_bundles db) - (if in_budget now window b then 1 else 0)"
    using dec by (simp add: f1 b(1) same bundles_ok_def)
  moreover have "verification_mode_of_row db1 r = verification_mode_of_row db r" for r
    unfolding db1 by (rule mode_update_rows) simp
  then have "counted db1 now window = counted db now window" by (simp add: counted_def [abs_def])
  moreover have "db_reroutes db1 = db_reroutes db" by (simp add: db1)
  ultimately show ?thesis using assms(4) by (simp add: rate_load_alt in_budget_def)
qed

text \<open>C25: a standalone action that spends budget is reserved only below the limit, and the load
  of the window, with the unspent reservations of running bundles, is still within the limit after
  it.\<close>

theorem standalone_within_budget:
  assumes "reserve_and_persist f cfg now req plan db = (Inr rid, db')"
    and "request_bundle req = None" "uses_budget req (cf_rate_limit_count cfg)"
  shows "rate_load db now (cf_rate_limit_window cfg) < int (unat (cf_rate_limit_count cfg)) \<and>
     rate_load db' now (cf_rate_limit_window cfg) \<le> int (unat (cf_rate_limit_count cfg))"
  using assms(1)
proof (rule reserve_and_persist_Inr)
  fix limit window label lab
  assume r: "request_rate f cfg db req = Inr (limit, window, label, lab)"
    and check: "uses_budget req limit \<Longrightarrow> rate_check f now db req limit window lab = Inr ()"
    and slot: "reserve_slot f now req plan (uses_budget req limit) db = Inr (rid, db')"
  from r assms(2) have q: "limit = cf_rate_limit_count cfg" "window = cf_rate_limit_window cfg" "lab = None"
    by (simp_all add: request_rate_def)
  from check assms(2,3) q have "sat_add_i64 (recent_reroute_count f db now window None)
      (outstanding_bundle_actions_pool f db now window None) < int (unat limit)"
    by (auto simp: rate_check_def Let_def pool_count_routing and_then_Inr_iff split: if_splits)
  then have below: "rate_load db now window < int (unat limit)" by (rule below_limit_load)
  from reserve_slot_Inr(5) [OF slot] obtain db1 snapshot where sp: "spent req (uses_budget req limit) db db1"
    and db': "db' = db1\<lparr>db_reroutes := db_reroutes db1 @ [reservation_row now rid req plan snapshot],
                db_steps := db_steps db1 @ step_rows rid (rp_commands plan),
                db_next_reroute := rid + 1\<rparr>"
    by (rule insert_reroute_Inr)
  from sp assms(2) have "db1 = db" by (cases "uses_budget req limit") (simp_all add: spent_def)
  with rate_load_reserve [OF db', of now window] below q show ?thesis by (simp split: if_splits)
qed

text \<open>C21: a bundle that the budget admits fits into it as a whole: with its full reservation the
  load of the window does not exceed the limit.\<close>

theorem admitted_bundle_within_budget:
  assumes "admit_bundle f cfg now k n db = (Inr (), db')"
    and "bundle_rate_scope f cfg db k = Inr (RoutingScope limit window)" "limit \<noteq> 0" "bundles_ok db"
    and "\<forall>r \<in> set (db_reroutes db). rr_bundle_id r = Some k \<longrightarrow> rr_created_at r \<le> now - as_i64 window"
  shows "rate_load db' now window \<le> int (unat limit)"
proof -
  let ?rec = "count (\<lambda>r. counted db now window r \<and> outside_bundle (Some k) r) (db_reroutes db)"
  let ?out = "reserved_sum (\<lambda>b. in_budget now window b \<and> bn_id b \<noteq> k) (db_bundles db)"
  let ?u = "\<lambda>b. b\<lparr>bn_rate_reserved := n\<rparr>"
  from assms(1-3) have fits: "sat_add_i64 (sat_add_i64 (or_max (fetch f (QRecentCount None) ?rec))
      (or_max (fetch f (QOutstanding None) ?out))) (int (unat n)) \<le> int (unat limit)"
    by (auto simp: admit_bundle_def admit_guards_def and_then_Inr_iff Let_def not_less
        scoped_recent_routing scoped_outstanding_routing split: sum.splits if_splits)
  have rec0: "0 \<le> or_max (fetch f (QRecentCount None) ?rec)" and out0: "0 \<le> or_max (fetch f (QOutstanding None) ?out)"
    by (simp_all add: or_max_nonneg)
  have inner0: "0 \<le> sat_add_i64 a b" if "0 \<le> a" "0 \<le> b" for a b
    using that by (simp add: sat_add_i64_def i64_max_def)
  note lim = limit_below_max [of limit]
  have e1: "sat_add_i64 (or_max (fetch f (QRecentCount None) ?rec)) (or_max (fetch f (QOutstanding None) ?out)) +
      int (unat n) \<le> int (unat limit)"
    using sat_sum_exact [OF fits lim inner0 [OF rec0 out0]] fits by linarith
  then have "sat_add_i64 (or_max (fetch f (QRecentCount None) ?rec)) (or_max (fetch f (QOutstanding None) ?out))
      \<le> int (unat limit)" by linarith
  from sat_sum_exact [OF this lim rec0 out0] e1
  have e2: "or_max (fetch f (QRecentCount None) ?rec) + or_max (fetch f (QOutstanding None) ?out) +
      int (unat n) \<le> int (unat limit)" by linarith
  have "?rec \<le> or_max (fetch f (QRecentCount None) ?rec)"
    by (rule or_max_fetch [OF order_refl]) (use e2 out0 lim in linarith)
  moreover have "?out \<le> or_max (fetch f (QOutstanding None) ?out)"
    by (rule or_max_fetch [OF order_refl]) (use e2 rec0 lim in linarith)
  ultimately have total: "?rec + ?out + int (unat n) \<le> int (unat limit)" using e2 by linarith
  have own: "count (\<lambda>r. counted db now window r \<and> \<not> outside_bundle (Some k) r) (db_reroutes db) = 0"
    using assms(5) by (auto simp: count_def filter_empty_conv counted_def outside_bundle_def)
  from assms(1-3) have db': "db' = db\<lparr>db_bundles := update_rows (admissible k) ?u (db_bundles db)\<rparr>"
    and cases: "rows_affected (admissible k) (db_bundles db) = 1 \<or>
      map_option bn_rate_reserved (find_bundle db' k) = Some n"
    by (auto simp: admit_bundle_def admit_guards_def and_then_Inr_iff Let_def fetch_Inr_iff
        split: sum.splits if_splits)
  have find': "List.find (\<lambda>x. bn_id x = k) (db_bundles db') =
      map_option (\<lambda>b. if admissible k b then ?u b else b) (List.find (\<lambda>x. bn_id x = k) (db_bundles db))"
    by (simp add: db' find_update_rows)
  have "map_option bn_rate_reserved (find_bundle db' k) = Some n"
    using cases
  proof
    assume "rows_affected (admissible k) (db_bundles db) = 1"
    then obtain b where "b \<in> set (db_bundles db)" "admissible k b"
      using rows_affected_pos [of "admissible k" "db_bundles db"] by auto
    with assms(4) find_distinct [of "db_bundles db" b] show ?thesis
      by (simp add: find_bundle_def find' bundles_ok_def admissible_def)
  qed
  then obtain b where b: "List.find (\<lambda>x. bn_id x = k) (db_bundles db') = Some b" "bn_rate_reserved b = n"
    by (auto simp: find_bundle_def)
  have ids: "distinct (map bn_id (db_bundles db'))"
    using assms(4) by (simp add: db' bundles_ok_def map_update_rows)
  have "reserved_sum (\<lambda>x. in_budget now window x \<and> bn_id x \<noteq> k) (db_bundles db') = ?out"
    unfolding db' by simp (rule reserved_sum_update_other, auto simp: admissible_def)
  with reserved_sum_split [OF ids, of "in_budget now window" k]
  have "reserved_sum (in_budget now window) (db_bundles db') \<le> ?out + int (unat n)"
    by (simp add: b)
  moreover have "verification_mode_of_row db' r = verification_mode_of_row db r" for r
    unfolding db' by (rule mode_update_rows) simp
  then have "counted db' now window = counted db now window" by (simp add: counted_def [abs_def])
  then have "count (counted db' now window) (db_reroutes db') = ?rec"
    using count_split [of "counted db now window" "db_reroutes db" "outside_bundle (Some k)"] own
    by (simp add: db')
  ultimately show ?thesis using total by (simp add: rate_load_alt)
qed

text \<open>While its bundle is young enough to be counted, an action of an admitted bundle costs
  no new budget: it turns one reserved unit into one recorded action.\<close>

theorem bundled_action_keeps_budget:
  assumes "reserve_and_persist f cfg now req plan db = (Inr rid, db')" "bundles_ok db"
    and "request_bundle req = Some k" "find_bundle db k = Some b" "bundle_live b"
    and "request_rate f cfg db req = Inr (limit, window, label, None)" "uses_budget req limit"
    and "now - as_i64 window < bn_created_at b"
  shows "rate_load db' now window \<le> rate_load db now window"
  using assms(1)
proof (rule reserve_and_persist_Inr)
  fix limit' window' label' lab'
  assume r: "request_rate f cfg db req = Inr (limit', window', label', lab')"
    and slot: "reserve_slot f now req plan (uses_budget req limit') db = Inr (rid, db')"
  from r assms(6) have "limit' = limit" by simp
  with reserve_slot_Inr(5) [OF slot] obtain db1 snapshot where sp: "spent req (uses_budget req limit) db db1"
    and db': "db' = db1\<lparr>db_reroutes := db_reroutes db1 @ [reservation_row now rid req plan snapshot],
                db_steps := db_steps db1 @ step_rows rid (rp_commands plan),
                db_next_reroute := rid + 1\<rparr>"
    by (auto elim: insert_reroute_Inr)
  from sp assms(3,7) have spend: "spend_reservation k db = Inr db1" by (simp add: spent_def)
  from load_after_spending [OF spend assms(2,4) request_rate_routing [OF assms(6,3,4)], of now window]
    assms(5,8)
  have "rate_load db1 now window = rate_load db now window - 1" by simp
  with rate_load_reserve [OF db', of now window] show ?thesis by simp
qed

text \<open>The budget forgets the reservation of a bundle older than the window although the
  bundle may still spend it: each routing action it then runs adds to the load, whatever the load
  already is.\<close>

theorem aged_bundle_overruns_budget:
  assumes "reserve_and_persist f cfg now req plan db = (Inr rid, db')" "bundles_ok db"
    and "request_bundle req = Some k" "find_bundle db k = Some b"
    and "request_rate f cfg db req = Inr (limit, window, label, None)" "uses_budget req limit"
    and "bn_created_at b \<le> now - as_i64 window" "0 < as_i64 window"
    and "\<forall>row \<in> set (db_reroutes db'). rr_id row = rid \<longrightarrow> rr_verification_mode row = Some ''routing''"
  shows "rate_load db' now window = rate_load db now window + 1"
  using assms(1)
proof (rule reserve_and_persist_Inr)
  fix limit' window' label' lab'
  assume r: "request_rate f cfg db req = Inr (limit', window', label', lab')"
    and slot: "reserve_slot f now req plan (uses_budget req limit') db = Inr (rid, db')"
  from r assms(5) have "limit' = limit" by simp
  with reserve_slot_Inr(5) [OF slot] obtain db1 snapshot where sp: "spent req (uses_budget req limit) db db1"
    and db': "db' = db1\<lparr>db_reroutes := db_reroutes db1 @ [reservation_row now rid req plan snapshot],
                db_steps := db_steps db1 @ step_rows rid (rp_commands plan),
                db_next_reroute := rid + 1\<rparr>"
    by (auto elim: insert_reroute_Inr)
  from sp assms(3,6) have spend: "spend_reservation k db = Inr db1" by (simp add: spent_def)
  from load_after_spending [OF spend assms(2,4) request_rate_routing [OF assms(5,3,4)], of now window]
    assms(7)
  have "rate_load db1 now window = rate_load db now window" by simp
  moreover have "rr_verification_mode (reservation_row now rid req plan snapshot) = Some ''routing''"
    using assms(9) by (simp add: db')
  then have "counted db1 now window (reservation_row now rid req plan snapshot)"
    using assms(8) by (simp add: counted_def verification_mode_of_row_def del: reservation_row_fields(9))
  ultimately show ?thesis using rate_load_reserve [OF db', of now window] by simp
qed

subsection \<open>Reservations on a small installation\<close>

definition slot_prepared :: prepared_action where
  "slot_prepared = \<lparr>pa_schema_version = 1, pa_device_id = 7, pa_template_id = 4,
     pa_template_name = ''iface_shutdown'', pa_canonical_params = JObj [],
     pa_verification_mode = Routing, pa_commands = [''shutdown''],
     pa_before = [InterfaceAdmin ''Gi0/0'' False], pa_after = [InterfaceAdmin ''Gi0/0'' True],
     pa_verify = [InterfaceAdmin ''Gi0/0'' True], pa_effect = ChangeEffect, pa_inverse = None,
     pa_prepared_at = 0\<rparr>"

definition slot_bundle :: "u64 \<Rightarrow> bundle_state \<Rightarrow> u32 \<Rightarrow> int \<Rightarrow> bundle_row" where
  "slot_bundle k st reserved created = \<lparr>bn_id = k, bn_rule_id = None, bn_trigger_type = ''manual'',
     bn_user_id = None, bn_verification_mode = None, bn_state = st, bn_rate_reserved = reserved,
     bn_rate_consumed = 0, bn_finished_at = None, bn_created_at = created,
     bn_parent = None, bn_total_actions = 1, bn_source = JNull, bn_failure_reason = None,
     bn_lifecycle = no_lifecycle\<rparr>"

definition slot_database :: "bundle_row list \<Rightarrow> database" where
  "slot_database bs = empty_database\<lparr>db_bundles := bs, db_bundle_actions :=
     [\<lparr>ba_id = 5, ba_bundle_id = 1, ba_position = 0, ba_device_id = 7, ba_verification_mode = Some ''routing'',
       ba_template_snapshot = JNull, ba_rollback_snapshot = None, ba_prepared = Some (Inr slot_prepared),
       ba_state = ''queued'', ba_mutation_effect = EffectPending, ba_reroute_id = None,
       ba_original_reroute_id = None\<rparr>]\<rparr>"

definition slot_request :: "bundle_membership option \<Rightarrow> action_request" where
  "slot_request m = uplink_request\<lparr>aq_trigger_type := ''manual'', aq_bundle := m,
     aq_authorization := Some \<lparr>xa_kind = ManualBundle, xa_plan_id = None, xa_bundle_id = Some 1,
       xa_owner_token = ''aa'', xa_snapshot_action_id = Some 5\<rparr>\<rparr>"

abbreviation slot_member :: "bundle_membership option" where
  "slot_member \<equiv> Some \<lparr>bm_bundle_id = 1, bm_position = 0\<rparr>"

lemma slot_prepared_valid: "validate_prepared slot_prepared = Inr ()"
  by (simp add: validate_prepared_def slot_prepared_def PREPARED_DEVICE_ACTION_SCHEMA_VERSION_def text_eval)

lemma slot_free:
  "reserve_slot no_faults now (slot_request m) plan budget (slot_database bs) =
     map_err PersistFailed (insert_reroute no_faults now (slot_request m) plan budget (slot_database bs))"
  by (simp add: reserve_slot_def slot_database_def empty_database_def setting_def maintenance_value_def
      is_blocked_def count_def window_of_def running_on_device_def has_uncertain_def ensure_def
      map_err_def slot_request_def uplink_request_def)

lemma slot_inserted:
  assumes "spent (slot_request m) budget (slot_database bs) db1"
  shows "insert_reroute no_faults now (slot_request m) plan budget (slot_database bs) =
     Inr (1, db1\<lparr>db_reroutes := [reservation_row now 1 (slot_request m) plan (JNull, None, slot_prepared)],
                 db_steps := step_rows 1 (rp_commands plan), db_next_reroute := 2\<rparr>)"
proof -
  from spent_frame [OF assms] obtain cs where db1: "db1 = slot_database bs\<lparr>db_bundles := cs\<rparr>" by blast
  have "reservation_snapshot no_faults now (slot_database bs) (slot_request m)
      \<lparr>xa_kind = ManualBundle, xa_plan_id = None, xa_bundle_id = Some 1, xa_owner_token = ''aa'',
       xa_snapshot_action_id = Some 5\<rparr> = Inr (JNull, None, slot_prepared)"
    by (simp add: reservation_snapshot_def slot_database_def ok_or_def)
  moreover have "(case (budget, request_bundle (slot_request m)) of
        (True, Some bundle) \<Rightarrow> and_then (fetch no_faults QBundleReserve ())
            (\<lambda>_. spend_reservation bundle (slot_database bs))
      | _ \<Rightarrow> Inr (slot_database bs)) = Inr db1"
    using assms by (cases budget; cases "request_bundle (slot_request m)") (simp_all add: spent_def)
  ultimately show ?thesis
    by (simp add: insert_reroute_def slot_request_def ok_or_def slot_prepared_valid map_err_def)
      (simp add: db1 slot_database_def empty_database_def)
qed

lemma slot_gate_alone: "reservation_gate no_faults sample_config 1000 (slot_database []) (slot_request None) = Inr True"
  by (simp add: reservation_gate_def request_rate_def request_bundle_def slot_request_def sample_config_def
      uses_budget_def acquire_rate_def map_err_def rate_check_def scoped_recent_reroute_count_def
      outstanding_bundle_actions_pool_def slot_database_def empty_database_def count_def or_max_def
      sat_add_i64_def i64_max_def i64_min_def)

lemma slot_alone:
  "\<exists>db'. reserve_and_persist no_faults sample_config 1000 (slot_request None) sample_plan (slot_database [])
     = (Inr 1, db')"
proof -
  have "spent (slot_request None) True (slot_database []) (slot_database [])"
    by (simp add: spent_def request_bundle_def slot_request_def)
  from slot_inserted [OF this, of 1000 sample_plan] show ?thesis
    by (simp add: reserve_and_persist_def slot_gate_alone slot_free map_err_def release_rate_guards_def)
qed

theorem reservation_sound_witness:
  "\<exists>db'. reserve_and_persist no_faults sample_config 1000 (slot_request None) sample_plan (slot_database [])
       = (Inr 1, db') \<and> device_open (slot_database []) (slot_request None) \<and> device_idle (slot_database []) 7 \<and>
     (\<exists>row. db_reroutes db' = db_reroutes (slot_database []) @ [row] \<and> rr_id row = 1 \<and>
        rr_state row = Planned \<and> on_device 7 row)"
proof -
  have d: "aq_device_id (slot_request None) = 7" by (simp add: slot_request_def uplink_request_def)
  from slot_alone obtain db' where r:
    "reserve_and_persist no_faults sample_config 1000 (slot_request None) sample_plan (slot_database []) = (Inr 1, db')"
    by blast
  from reservation_sound [OF r] show ?thesis by (intro exI [of _ db']) (simp add: d r)
qed

theorem refused_reservation_changes_nothing_witness:
  "\<exists>e. fst (reserve_and_persist no_faults sample_config 1000 (slot_request None) sample_plan empty_database) = Inl e \<and>
     snd (reserve_and_persist no_faults sample_config 1000 (slot_request None) sample_plan empty_database) = empty_database"
proof -
  have gate: "reservation_gate no_faults sample_config 1000 empty_database (slot_request None) = Inr True"
    using slot_gate_alone by (simp add: reservation_gate_def request_rate_def request_bundle_def
      slot_request_def sample_config_def uses_budget_def acquire_rate_def map_err_def rate_check_def
      scoped_recent_reroute_count_def outstanding_bundle_actions_pool_def empty_database_def count_def
      or_max_def sat_add_i64_def i64_max_def i64_min_def)
  have "\<exists>e. reserve_slot no_faults 1000 (slot_request None) sample_plan True empty_database = Inl e"
    by (simp add: reserve_slot_def empty_database_def setting_def maintenance_value_def
      is_blocked_def count_def window_of_def running_on_device_def has_uncertain_def ensure_def
      map_err_def slot_request_def uplink_request_def insert_reroute_def ok_or_def reservation_snapshot_def)
  with gate obtain e where r: "reserve_and_persist no_faults sample_config 1000 (slot_request None) sample_plan
      empty_database = (Inl e, empty_database)"
    by (auto simp: reserve_and_persist_def map_err_def release_rate_guards_def)
  from refused_reservation_changes_nothing [OF r] r show ?thesis by (simp add: no_faults_def)
qed

theorem unlock_failure_loses_reservation_witness:
  "\<exists>db'. reserve_and_persist (no_faults(QDeviceUnlock := Some ''timeout'')) sample_config 1000
       (slot_request None) sample_plan (slot_database []) = (Inl (GuardConnection ''timeout''), db') \<and>
     running_on_device no_faults db' (aq_device_id (slot_request None))"
proof -
  from slot_alone obtain db' where
    "reserve_and_persist no_faults sample_config 1000 (slot_request None) sample_plan (slot_database []) = (Inr 1, db')"
    by blast
  from unlock_failure_loses_reservation [OF this] show ?thesis by blast
qed

theorem standalone_within_budget_witness:
  "\<exists>db'. reserve_and_persist no_faults sample_config 1000 (slot_request None) sample_plan (slot_database []) = (Inr 1, db') \<and>
     rate_load db' 1000 600 \<le> 2"
proof -
  from slot_alone obtain db' where r:
    "reserve_and_persist no_faults sample_config 1000 (slot_request None) sample_plan (slot_database []) = (Inr 1, db')"
    by blast
  have "request_bundle (slot_request None) = None" "uses_budget (slot_request None) (cf_rate_limit_count sample_config)"
    by (simp_all add: request_bundle_def slot_request_def uses_budget_def sample_config_def)
  from standalone_within_budget [OF r this] r show ?thesis by (simp add: sample_config_def)
qed

lemma slot_scope:
  "bundle_rate_scope no_faults sample_config (slot_database [slot_bundle 1 st n t]) 1 = Inr (RoutingScope 2 600)"
  by (simp add: bundle_rate_scope_def find_bundle_def slot_database_def slot_bundle_def ok_or_def map_err_def
      bundle_actions_def action_mode_def sample_config_def)

theorem admitted_bundle_within_budget_witness:
  "rate_load (snd (admit_bundle no_faults sample_config 1000 1 2 (slot_database [slot_bundle 1 BundlePlanned 0 990])))
     1000 600 \<le> 2"
proof -
  let ?db = "slot_database [slot_bundle 1 BundlePlanned 0 990]"
  have "fst (admit_bundle no_faults sample_config 1000 1 2 ?db) = Inr ()"
    by (simp add: admit_bundle_def slot_scope map_err_def admit_guards_def acquire_rate_def
        scoped_recent_routing scoped_outstanding_routing)
      (simp add: slot_database_def empty_database_def slot_bundle_def count_def or_max_def sat_add_i64_def
        i64_max_def i64_min_def rows_affected_def admissible_def release_rate_guards_def map_err_def)
  then have "admit_bundle no_faults sample_config 1000 1 2 ?db =
      (Inr (), snd (admit_bundle no_faults sample_config 1000 1 2 ?db))"
    by (simp add: prod_eq_iff)
  from admitted_bundle_within_budget [OF this slot_scope] show ?thesis
    by (simp add: bundles_ok_def slot_database_def empty_database_def)
qed

lemma slot_member_reserved:
  fixes t :: int
  defines "db \<equiv> slot_database [slot_bundle 1 BundleRunning 2 t]"
  shows "\<exists>db'. reserve_and_persist no_faults sample_config 1000 (slot_request slot_member) sample_plan db = (Inr 1, db') \<and>
     db_reroutes db' = [reservation_row 1000 1 (slot_request slot_member) sample_plan (JNull, None, slot_prepared)]"
    and "request_rate no_faults sample_config db (slot_request slot_member) =
      Inr (2, 600, ''20:reroute:rate-global'', None)"
proof -
  have rb: "request_bundle (slot_request slot_member) = Some 1"
    by (simp add: request_bundle_def slot_request_def)
  show rate: "request_rate no_faults sample_config db (slot_request slot_member) =
      Inr (2, 600, ''20:reroute:rate-global'', None)"
    by (simp add: db_def request_rate_def rb slot_scope)
  have budget: "uses_budget (slot_request slot_member) 2"
    by (simp add: uses_budget_def slot_request_def)
  have own: "own_reserved no_faults db 1 = 2"
    by (simp add: db_def own_reserved_def find_bundle_def slot_database_def slot_bundle_def)
  have gate: "reservation_gate no_faults sample_config 1000 db (slot_request slot_member) = Inr True"
    by (simp add: reservation_gate_def rate budget rate_check_def rb own acquire_rate_def map_err_def)
  obtain db1 where "spend_reservation 1 db = Inr db1"
    by (simp add: db_def spend_reservation_def rows_affected_def slot_database_def slot_bundle_def)
  then have "spent (slot_request slot_member) True db db1" by (simp add: spent_def rb)
  from slot_inserted [OF this [unfolded db_def], of 1000 sample_plan]
  show "\<exists>db'. reserve_and_persist no_faults sample_config 1000 (slot_request slot_member) sample_plan db = (Inr 1, db') \<and>
     db_reroutes db' = [reservation_row 1000 1 (slot_request slot_member) sample_plan (JNull, None, slot_prepared)]"
    by (simp add: reserve_and_persist_def gate) (simp add: db_def slot_free map_err_def release_rate_guards_def)
qed

lemma slot_member_facts:
  "bundles_ok (slot_database [slot_bundle 1 BundleRunning 2 t])"
  "request_bundle (slot_request slot_member) = Some 1"
  "find_bundle (slot_database [slot_bundle 1 BundleRunning 2 t]) 1 = Some (slot_bundle 1 BundleRunning 2 t)"
  "uses_budget (slot_request slot_member) 2"
  "bundle_live (slot_bundle 1 BundleRunning 2 t)"
  "bn_created_at (slot_bundle 1 BundleRunning 2 t) = t"
  "as_i64 (600 :: u64) = 600"
  by (simp_all add: bundles_ok_def slot_database_def request_bundle_def slot_request_def find_bundle_def
      slot_bundle_def uses_budget_def bundle_live_def as_i64_def)

theorem bundled_action_keeps_budget_witness:
  "\<exists>db'. reserve_and_persist no_faults sample_config 1000 (slot_request slot_member) sample_plan
       (slot_database [slot_bundle 1 BundleRunning 2 990]) = (Inr 1, db') \<and>
     rate_load db' 1000 600 \<le> rate_load (slot_database [slot_bundle 1 BundleRunning 2 990]) 1000 600"
proof -
  from slot_member_reserved(1) [of 990] obtain db' where r:
    "reserve_and_persist no_faults sample_config 1000 (slot_request slot_member) sample_plan
       (slot_database [slot_bundle 1 BundleRunning 2 990]) = (Inr 1, db')" by blast
  from bundled_action_keeps_budget [OF r slot_member_facts(1,2,3,5) slot_member_reserved(2) slot_member_facts(4)] r
  show ?thesis by (simp add: slot_member_facts)
qed

theorem aged_bundle_overruns_budget_witness:
  "\<exists>db'. reserve_and_persist no_faults sample_config 1000 (slot_request slot_member) sample_plan
       (slot_database [slot_bundle 1 BundleRunning 2 0]) = (Inr 1, db') \<and>
     rate_load db' 1000 600 = rate_load (slot_database [slot_bundle 1 BundleRunning 2 0]) 1000 600 + 1"
proof -
  from slot_member_reserved(1) [of 0] obtain db' where r:
    "reserve_and_persist no_faults sample_config 1000 (slot_request slot_member) sample_plan
       (slot_database [slot_bundle 1 BundleRunning 2 0]) = (Inr 1, db')"
    and rows: "db_reroutes db' = [reservation_row 1000 1 (slot_request slot_member) sample_plan (JNull, None, slot_prepared)]"
    by blast
  from aged_bundle_overruns_budget [OF r slot_member_facts(1,2,3) slot_member_reserved(2) slot_member_facts(4)] r rows
  show ?thesis by (simp add: slot_member_facts slot_prepared_def)
qed

end
