(* ===== verification/Evidence.thy ===== *)
theory Evidence
  imports Device_State
begin

text \<open>
  Exact evidence from router output (\<open>src/backend-rust/src/reroute/device_plan.rs\<close>): which
  lines of a \<open>show\<close> response prove that a route, an advertisement or a static route is
  present, which prove that it is absent, and which prove nothing.
\<close>

subsection \<open>Lines and tokens\<close>

definition trim_matches :: "char list \<Rightarrow> string \<Rightarrow> string" where
  "trim_matches cs s =
     rev (dropWhile (\<lambda>c. c \<in> set cs) (rev (dropWhile (\<lambda>c. c \<in> set cs) s)))"

definition has_exact_config_line :: "string \<Rightarrow> string \<Rightarrow> bool" where
  "has_exact_config_line output expected =
     list_ex (\<lambda>line. split_whitespace line = split_whitespace expected) (lines output)"

definition bgp_status_token :: "string \<Rightarrow> bool" where
  "bgp_status_token token = (token \<noteq> [] \<and> list_all (\<lambda>c. c \<in> set ''*><sdhrSfxacmbi'') token)"

text \<open>The candidate token of a table row, the arms of the match in their order: the first token
  when it is a CIDR, the one behind one column of status glyphs, the one behind two.\<close>

definition row_candidate :: "string list \<Rightarrow> string option" where
  "row_candidate tokens =
     (if tokens \<noteq> [] \<and> normalize_cidr (hd tokens) \<noteq> None then Some (hd tokens)
      else if 2 \<le> length tokens \<and> bgp_status_token (tokens ! 0) then Some (tokens ! 1)
      else if 3 \<le> length tokens \<and> bgp_status_token (tokens ! 0) \<and> bgp_status_token (tokens ! 1)
      then Some (tokens ! 2)
      else None)"

definition entry_marker :: string where
  "entry_marker = ''BGP routing table entry for ''"

definition first_word :: "string \<Rightarrow> string option" where
  "first_word s = (case split_whitespace s of [] \<Rightarrow> None | w # _ \<Rightarrow> Some w)"

definition line_has_cidr :: "string \<Rightarrow> string \<Rightarrow> bool" where
  "line_has_cidr line expected =
     (case strip_prefix entry_marker (trim line) of
        Some rest \<Rightarrow>
          normalize_cidr (trim_matches '',()'' (case first_word rest of Some w \<Rightarrow> w | None \<Rightarrow> []))
            = Some expected
      | None \<Rightarrow>
          (case row_candidate (split_whitespace (trim line)) of
             None \<Rightarrow> False
           | Some candidate \<Rightarrow> normalize_cidr candidate = Some expected))"

definition has_exact_cidr :: "string \<Rightarrow> string \<Rightarrow> bool" where
  "has_exact_cidr output expected =
     (case normalize_cidr expected of
        None \<Rightarrow> False
      | Some e \<Rightarrow> list_ex (\<lambda>line. line_has_cidr line e) (lines output))"

definition bgp_line_prefix :: "string \<Rightarrow> string option" where
  "bgp_line_prefix line =
     (case strip_prefix entry_marker (trim line) of
        Some rest \<Rightarrow> Option.bind (map_option (trim_matches '',()'') (first_word rest)) normalize_cidr
      | None \<Rightarrow> Option.bind (row_candidate (split_whitespace (trim line))) normalize_cidr)"

definition bgp_line_has_exact_prefix :: "string \<Rightarrow> string \<Rightarrow> bool" where
  "bgp_line_has_exact_prefix line pfx = (bgp_line_prefix line = normalize_cidr pfx)"

text \<open>A block is a line and the lines behind it up to the next that opens a block.\<close>

definition block_of :: "(string \<Rightarrow> bool) \<Rightarrow> string list \<Rightarrow> string list" where
  "block_of opens ls = (case ls of [] \<Rightarrow> [] | l # rest \<Rightarrow> l # takeWhile (\<lambda>c. \<not> opens c) rest)"

fun suffixes_of :: "'a list \<Rightarrow> 'a list list" where
  "suffixes_of [] = []"
| "suffixes_of (x # xs) = (x # xs) # suffixes_of xs"

definition block_has_token :: "char list \<Rightarrow> string \<Rightarrow> string list \<Rightarrow> bool" where
  "block_has_token cs wanted block =
     list_ex (\<lambda>l. list_ex (\<lambda>t. trim_matches cs t = wanted) (split_whitespace l)) block"

definition has_exact_bgp_route :: "string \<Rightarrow> string \<Rightarrow> string option \<Rightarrow> bool" where
  "has_exact_bgp_route output pfx community =
     list_ex (\<lambda>ls. bgp_line_has_exact_prefix (hd ls) pfx \<and>
          (case community of
             None \<Rightarrow> True
           | Some wanted \<Rightarrow>
               block_has_token '',()'' wanted (block_of (\<lambda>c. bgp_line_prefix c \<noteq> None) ls)))
       (suffixes_of (lines output))"

definition routing_marker :: string where
  "routing_marker = ''Routing entry for ''"

definition has_exact_route_resolution :: "string \<Rightarrow> string \<Rightarrow> string \<Rightarrow> bool" where
  "has_exact_route_resolution output pfx next_hop =
     (case normalize_cidr pfx of
        None \<Rightarrow> False
      | Some expected \<Rightarrow>
          list_ex (\<lambda>ls.
              Option.bind (map_option (trim_matches '',()'')
                 (Option.bind (strip_prefix routing_marker (trim (hd ls))) first_word)) normalize_cidr
                = Some expected \<and>
              block_has_token '',*()'' next_hop
                (block_of (\<lambda>c. starts_with routing_marker (trim c)) ls))
            (suffixes_of (lines output)))"

subsection \<open>A complete advertisement table\<close>

fun has_window2 :: "string \<Rightarrow> string \<Rightarrow> string list \<Rightarrow> bool" where
  "has_window2 a b (x # y # zs) = ((x = a \<and> y = b) \<or> has_window2 a b (y # zs))"
| "has_window2 a b _ = False"

definition is_table_header :: "string \<Rightarrow> bool" where
  "is_table_header line =
     has_window2 ''network'' ''next'' (split_whitespace (to_ascii_lowercase line))"

definition footer_count :: "string \<Rightarrow> nat option" where
  "footer_count line =
     Option.bind (strip_prefix ''total number of prefixes '' (to_ascii_lowercase (trim line)))
       (\<lambda>c. map_option unat (parse_uint (trim c) :: u64 option))"

text \<open>The rows between the header and the first footer behind it, the declared count and the
  lines behind the footer.\<close>

fun split_footer :: "string list \<Rightarrow> (string list \<times> nat \<times> string list) option" where
  "split_footer [] = None"
| "split_footer (l # ls) =
     (case footer_count l of
        Some n \<Rightarrow> Some ([], n, ls)
      | None \<Rightarrow> (case split_footer ls of
                  None \<Rightarrow> None
                | Some (rows, n, rest) \<Rightarrow> Some (l # rows, n, rest)))"

definition complete_advertisement_table :: "string \<Rightarrow> bool" where
  "complete_advertisement_table output =
     (case dropWhile (\<lambda>l. \<not> is_table_header l) (lines output) of
        [] \<Rightarrow> False
      | _ # body \<Rightarrow>
          (case split_footer body of
             None \<Rightarrow> False
           | Some (rows, declared, rest) \<Rightarrow>
               list_all (\<lambda>l. trim l = [] \<or> bgp_line_prefix l \<noteq> None) rows \<and>
               length (filter (\<lambda>l. bgp_line_prefix l \<noteq> None) rows) = declared \<and>
               list_all (\<lambda>l. trim l = []) rest))"

subsection \<open>Verdicts\<close>

datatype evidence_verdict = Matched | ProvenMismatch | UnprovenEvidence

text \<open>\<open>evidence_matches\<close>: an unproven verdict is an error, never an answer.\<close>

definition evidence_matches :: "evidence_verdict \<Rightarrow> string \<Rightarrow> string + bool" where
  "evidence_matches v subject =
     (case v of Matched \<Rightarrow> Inr True | ProvenMismatch \<Rightarrow> Inr False | UnprovenEvidence \<Rightarrow> Inl subject)"

definition absence_texts :: "string list" where
  "absence_texts =
     [''% network not in table'', ''network not in table'', ''% route not found'', ''route not found'',
      ''% no matching route'', ''no matching route'']"

definition explicit_absence :: "string \<Rightarrow> bool" where
  "explicit_absence output =
     list_ex (\<lambda>line. to_ascii_lowercase (trim line) \<in> set absence_texts) (lines output)"

definition bgp_evidence ::
    "string \<Rightarrow> string \<Rightarrow> string option \<Rightarrow> bool \<Rightarrow> bool \<Rightarrow> evidence_verdict" where
  "bgp_evidence output pfx community advertisement expected_present =
     (if trim output = [] then UnprovenEvidence
      else if has_exact_cidr output pfx
      then (if expected_present \<and> has_exact_bgp_route output pfx community then Matched
            else ProvenMismatch)
      else if (advertisement \<and> complete_advertisement_table output) \<or>
              (\<not> advertisement \<and> explicit_absence output)
      then (if expected_present then ProvenMismatch else Matched)
      else UnprovenEvidence)"

definition routing_entry_line :: "string \<Rightarrow> string \<Rightarrow> bool" where
  "routing_entry_line line pfx =
     (Option.bind (Option.bind (strip_prefix routing_marker (trim line)) first_word) normalize_cidr
        = normalize_cidr pfx)"

definition route_resolution_evidence ::
    "string \<Rightarrow> string \<Rightarrow> string \<Rightarrow> bool \<Rightarrow> evidence_verdict" where
  "route_resolution_evidence output pfx next_hop expected_present =
     (if has_exact_route_resolution output pfx next_hop \<or>
         list_ex (\<lambda>line. routing_entry_line line pfx) (lines output)
      then (if expected_present \<and> has_exact_route_resolution output pfx next_hop then Matched
            else ProvenMismatch)
      else if explicit_absence output
      then (if expected_present then ProvenMismatch else Matched)
      else UnprovenEvidence)"

subsection \<open>Lines that carry a prefix\<close>

lemma normalize_Nil [simp]: "normalize_cidr [] = None"
  by (simp add: normalize_cidr_def)

lemma trim_matches_Nil [simp]: "trim_matches cs [] = []"
  by (simp add: trim_matches_def)

lemma line_has_cidr_iff: "line_has_cidr line e \<longleftrightarrow> bgp_line_prefix line = Some e"
  by (auto simp: line_has_cidr_def bgp_line_prefix_def split: option.splits)

lemma has_exact_cidr_iff:
  "has_exact_cidr output pfx \<longleftrightarrow>
   (\<exists>e. normalize_cidr pfx = Some e \<and> (\<exists>line \<in> set (lines output). bgp_line_prefix line = Some e))"
  by (auto simp: has_exact_cidr_def line_has_cidr_iff list_ex_iff split: option.splits)

lemma suffixes_of_iff: "s \<in> set (suffixes_of xs) \<longleftrightarrow> s \<noteq> [] \<and> (\<exists>ys. xs = ys @ s)"
  by (induction xs) (auto simp: Cons_eq_append_conv)

text \<open>The arm for two columns of status glyphs is never reached: the arm before it already
  takes the second token of such a row.\<close>

lemma row_candidate_two_columns:
  "bgp_status_token a \<Longrightarrow> normalize_cidr a = None \<Longrightarrow> row_candidate (a # b # rest) = Some b"
  by (simp add: row_candidate_def)

lemma status_row_not_recognised:
  "bgp_line_prefix ''* i 10.0.0.0/24 192.0.2.1'' = None"
proof -
  have "normalize_cidr ''*'' = None" "normalize_cidr ''i'' = None"
    by (simp_all add: normalize_cidr_def)
  moreover have "bgp_status_token ''*''" by (simp add: bgp_status_token_def)
  ultimately show ?thesis
    by (simp add: bgp_line_prefix_def entry_marker_def row_candidate_def text_eval)
qed

subsection \<open>Properties\<close>

text \<open>For a readable prefix, a match of expected presence is backed by a line with exactly
  that network and length and, when a community is required, by that community inside the block
  of such a line; a match of expected absence is backed by a response in which no line carries the
  prefix and which is a complete table or states the absence. Silence proves nothing.\<close>

theorem bgp_evidence_sound:
  assumes "normalize_cidr pfx = Some e"
  shows "(bgp_evidence output pfx community adv True = Matched \<longleftrightarrow>
      trim output \<noteq> [] \<and>
      (\<exists>before line after. lines output = before @ line # after \<and> bgp_line_prefix line = Some e \<and>
         (\<forall>wanted. community = Some wanted \<longrightarrow>
            block_has_token '',()'' wanted
              (line # takeWhile (\<lambda>c. bgp_line_prefix c = None) after)))) \<and>
    (bgp_evidence output pfx community adv False = Matched \<longleftrightarrow>
      trim output \<noteq> [] \<and> (\<forall>line \<in> set (lines output). bgp_line_prefix line \<noteq> Some e) \<and>
      (if adv then complete_advertisement_table output else explicit_absence output)) \<and>
    (bgp_evidence output pfx community adv True = UnprovenEvidence \<longleftrightarrow>
     bgp_evidence output pfx community adv False = UnprovenEvidence)"
proof -
  have present: "has_exact_cidr output pfx \<longleftrightarrow> (\<exists>line \<in> set (lines output). bgp_line_prefix line = Some e)"
    using assms by (simp add: has_exact_cidr_iff)
  have route: "has_exact_bgp_route output pfx community \<longleftrightarrow>
      (\<exists>before line after. lines output = before @ line # after \<and> bgp_line_prefix line = Some e \<and>
         (\<forall>wanted. community = Some wanted \<longrightarrow>
            block_has_token '',()'' wanted (line # takeWhile (\<lambda>c. bgp_line_prefix c = None) after)))"
    (is "_ = ?R")
  proof
    assume "has_exact_bgp_route output pfx community"
    then obtain s where "s \<in> set (suffixes_of (lines output))" "bgp_line_has_exact_prefix (hd s) pfx"
      "\<forall>wanted. community = Some wanted \<longrightarrow>
         block_has_token '',()'' wanted (block_of (\<lambda>c. bgp_line_prefix c \<noteq> None) s)"
      by (auto simp: has_exact_bgp_route_def list_ex_iff split: option.splits)
    with assms show ?R
      by (cases s) (auto simp: suffixes_of_iff bgp_line_has_exact_prefix_def block_of_def)
  next
    assume ?R
    then obtain before line after where "lines output = before @ line # after"
      "bgp_line_prefix line = Some e" "\<forall>wanted. community = Some wanted \<longrightarrow>
         block_has_token '',()'' wanted (line # takeWhile (\<lambda>c. bgp_line_prefix c = None) after)"
      by blast
    with assms show "has_exact_bgp_route output pfx community"
      unfolding has_exact_bgp_route_def list_ex_iff
      by (intro bexI [of _ "line # after"])
        (auto simp: suffixes_of_iff bgp_line_has_exact_prefix_def block_of_def split: option.splits)
  qed
  have "has_exact_bgp_route output pfx community \<Longrightarrow> has_exact_cidr output pfx"
    unfolding present route by auto
  then show ?thesis
    unfolding route [symmetric] by (auto simp: bgp_evidence_def present split: if_splits)
qed

lemma sample_normal: "normalize_cidr ''10.0.0.0/24'' = Some ''10.0.0.0/24''"
proof -
  have "(push_bit 8 (- 1) :: u32) = 4294967040" by code_simp
  then show ?thesis by (simp add: normalize_cidr_def ipv4_of_u32_def show_nat.simps text_eval)
qed

lemma bgp_evidence_sound_witness:
  "bgp_evidence ''*> 10.0.0.0/24 192.0.2.1'' ''10.0.0.0/24'' None True True = Matched"
proof -
  have "normalize_cidr ''*>'' = None" by (simp add: normalize_cidr_def)
  then have "bgp_line_prefix ''*> 10.0.0.0/24 192.0.2.1'' = Some ''10.0.0.0/24''"
    by (simp add: bgp_line_prefix_def entry_marker_def row_candidate_def bgp_status_token_def
        sample_normal text_eval)
  moreover have "lines ''*> 10.0.0.0/24 192.0.2.1'' = [] @ ''*> 10.0.0.0/24 192.0.2.1'' # []"
    "trim ''*> 10.0.0.0/24 192.0.2.1'' \<noteq> []"
    by (simp_all add: text_eval)
  ultimately show ?thesis using bgp_evidence_sound [OF sample_normal] by blast
qed

text \<open>A malformed prefix is taken to be present by the exact-route test on any line that
  carries no prefix.\<close>

lemma has_exact_bgp_route_malformed: "has_exact_bgp_route ''hello'' ''10.0.0.0'' None"
proof -
  have "normalize_cidr ''10.0.0.0'' = None" "normalize_cidr ''hello'' = None"
    by (simp_all add: normalize_cidr_def)
  then show ?thesis
    by (simp add: has_exact_bgp_route_def bgp_line_has_exact_prefix_def bgp_line_prefix_def
        entry_marker_def row_candidate_def bgp_status_token_def text_eval)
qed

end
