(* ===== verification/Device_Config.thy ===== *)
theory Device_Config
  imports Evidence Templates
begin

text \<open>
  Configuration lines and their evidence (\<open>src/backend-rust/src/reroute/device_plan.rs\<close>):
  static routes, scoped neighbor and route-map configuration, the state of a BGP neighbor and the
  prefix-list text rebuilt from a snapshot.
\<close>

subsection \<open>Static routes\<close>

datatype static_error =
    NotStaticRoute
  | StaticPrefix mask_error
  | InvalidPrefixText

fun static_present :: "device_state \<Rightarrow> static_error + bool" where
  "static_present (Ipv4StaticRoute _ _ _ present) = Inr present"
| "static_present (Ipv6StaticRoute _ _ _ present) = Inr present"
| "static_present _ = Inl NotStaticRoute"

fun set_static_present :: "device_state \<Rightarrow> bool \<Rightarrow> static_error + device_state" where
  "set_static_present (Ipv4StaticRoute p h t _) v = Inr (Ipv4StaticRoute p h t v)"
| "set_static_present (Ipv6StaticRoute p h t _) v = Inr (Ipv6StaticRoute p h t v)"
| "set_static_present _ v = Inl NotStaticRoute"

fun same_static_prefix :: "device_state \<Rightarrow> device_state \<Rightarrow> bool" where
  "same_static_prefix (Ipv4StaticRoute a _ _ _) (Ipv4StaticRoute b _ _ _) =
     (normalize_cidr a = normalize_cidr b)"
| "same_static_prefix (Ipv6StaticRoute a _ _ _) (Ipv6StaticRoute b _ _ _) =
     (normalize_cidr a = normalize_cidr b)"
| "same_static_prefix _ _ = False"

definition tag_suffix :: "u32 option \<Rightarrow> string" where
  "tag_suffix tag = (case tag of Some t \<Rightarrow> '' tag '' @ show_word t | None \<Rightarrow> [])"

fun static_config_line :: "device_state \<Rightarrow> static_error + string" where
  "static_config_line (Ipv4StaticRoute pfx hop tag _) =
     and_then (map_err StaticPrefix (ipv4_network_mask pfx)) (\<lambda>(network, msk).
       Inr (''ip route '' @ network @ '' '' @ msk @ '' '' @ hop @ tag_suffix tag))"
| "static_config_line (Ipv6StaticRoute pfx hop tag _) =
     and_then (ok_or InvalidPrefixText (normalize_cidr pfx)) (\<lambda>p.
       Inr (''ipv6 route '' @ p @ '' '' @ hop @ tag_suffix tag))"
| "static_config_line _ = Inl NotStaticRoute"

fun static_config_read_command :: "device_state \<Rightarrow> static_error + string" where
  "static_config_read_command (Ipv4StaticRoute pfx hop tag present) =
     and_then (static_config_line (Ipv4StaticRoute pfx hop tag present)) (\<lambda>line.
       Inr (''show running-config | include ^'' @ line @ ''$''))"
| "static_config_read_command (Ipv6StaticRoute _ _ _ _) =
     Inr ''show running-config | include ^ipv6 route''"
| "static_config_read_command _ = Inl NotStaticRoute"

definition ipv6_route_line_matches ::
    "string \<Rightarrow> string \<Rightarrow> u32 option \<Rightarrow> string \<Rightarrow> bool" where
  "ipv6_route_line_matches expected_prefix next_hop tag line =
     (case split_whitespace line of
        [a, b, candidate, hop] \<Rightarrow>
          a = ''ipv6'' \<and> b = ''route'' \<and> normalize_cidr candidate = Some expected_prefix \<and>
          hop = next_hop \<and> tag = None
      | [a, b, candidate, hop, t, v] \<Rightarrow>
          a = ''ipv6'' \<and> b = ''route'' \<and> t = ''tag'' \<and>
          normalize_cidr candidate = Some expected_prefix \<and> hop = next_hop \<and> parse_uint v = tag
      | _ \<Rightarrow> False)"

fun static_snapshot_matches :: "string \<Rightarrow> device_state \<Rightarrow> static_error + bool" where
  "static_snapshot_matches output (Ipv4StaticRoute p h t pr) =
     and_then (static_config_line (Ipv4StaticRoute p h t pr)) (\<lambda>line.
       Inr (has_exact_config_line output line))"
| "static_snapshot_matches output (Ipv6StaticRoute p h t pr) =
     and_then (ok_or InvalidPrefixText (normalize_cidr p)) (\<lambda>expected_prefix.
       if \<not> contains '':'' expected_prefix then Inl InvalidPrefixText
       else Inr (list_ex (ipv6_route_line_matches expected_prefix h t) (lines output)))"
| "static_snapshot_matches output _ = Inl NotStaticRoute"

definition valid_ipv6_route_line :: "string \<Rightarrow> bool" where
  "valid_ipv6_route_line line =
     (let ok = (\<lambda>pfx hop. (case normalize_cidr pfx of Some p \<Rightarrow> contains '':'' p | None \<Rightarrow> False) \<and>
                          (hop = ''Null0'' \<or> parse_ip hop \<noteq> None))
      in case split_whitespace line of
           [a, b, pfx, hop] \<Rightarrow> a = ''ipv6'' \<and> b = ''route'' \<and> ok pfx hop
         | [a, b, pfx, hop, t, v] \<Rightarrow>
             a = ''ipv6'' \<and> b = ''route'' \<and> t = ''tag'' \<and> ok pfx hop \<and> (parse_uint v :: u32 option) \<noteq> None
         | _ \<Rightarrow> False)"

definition static_output_valid :: "string \<Rightarrow> device_state \<Rightarrow> static_error + bool" where
  "static_output_valid output expected =
     (case expected of
        Ipv4StaticRoute _ _ _ _ \<Rightarrow>
          and_then (static_config_line expected) (\<lambda>expected_line.
            Inr (list_all (\<lambda>line. has_exact_config_line line expected_line) (lines output)))
      | Ipv6StaticRoute _ _ _ _ \<Rightarrow> Inr (list_all valid_ipv6_route_line (lines output))
      | _ \<Rightarrow> Inr False)"

definition static_config_evidence :: "string \<Rightarrow> device_state \<Rightarrow> static_error + evidence_verdict" where
  "static_config_evidence output expected =
     (if trim output = [] then Inr ProvenMismatch
      else and_then (static_output_valid output expected) (\<lambda>valid.
        if \<not> valid then Inr UnprovenEvidence
        else and_then (static_snapshot_matches output expected) (\<lambda>m.
          Inr (if m then Matched else ProvenMismatch))))"

fun static_prefix :: "device_state \<Rightarrow> string option" where
  "static_prefix (Ipv4StaticRoute p _ _ _) = normalize_cidr p"
| "static_prefix (Ipv6StaticRoute p _ _ _) = normalize_cidr p"
| "static_prefix _ = None"

definition line_same_prefix :: "device_state \<Rightarrow> string \<Rightarrow> string \<Rightarrow> bool" where
  "line_same_prefix expected wanted line =
     (case expected of
        Ipv4StaticRoute p _ _ _ \<Rightarrow>
          (case split_whitespace line of
             a # b # network # msk # _ \<Rightarrow>
               a = ''ip'' \<and> b = ''route'' \<and> ipv4_network_mask p = Inr (network, msk)
           | _ \<Rightarrow> False)
      | Ipv6StaticRoute _ _ _ _ \<Rightarrow>
          (case split_whitespace line of
             a # b # candidate # _ \<Rightarrow>
               a = ''ipv6'' \<and> b = ''route'' \<and> normalize_cidr candidate = Some wanted
           | _ \<Rightarrow> False)
      | _ \<Rightarrow> False)"

definition static_expected_evidence ::
    "string \<Rightarrow> device_state \<Rightarrow> bool \<Rightarrow> static_error + evidence_verdict" where
  "static_expected_evidence output expected expected_present =
     and_then (static_config_evidence output expected) (\<lambda>parsed.
       if parsed = UnprovenEvidence then Inr parsed
       else (let exact = (parsed = Matched) in
         and_then (ok_or InvalidPrefixText (static_prefix expected)) (\<lambda>wanted.
           (let same_prefix = list_ex (line_same_prefix expected wanted) (lines output) \<or> exact in
            Inr (if expected_present then (if exact then Matched else ProvenMismatch)
                 else if same_prefix then ProvenMismatch else Matched)))))"

definition static_route_commands ::
    "device_state \<Rightarrow> bool \<Rightarrow> static_error + string list option" where
  "static_route_commands state present =
     and_then (static_present state) (\<lambda>now.
       if now = present then Inr None
       else and_then (static_config_line state) (\<lambda>line.
         Inr (Some [''configure terminal'', if present then line else ''no '' @ line, ''end''])))"

subsection \<open>Neighbor and route-map scopes\<close>

definition family_of :: "string \<Rightarrow> string" where
  "family_of v = (if v = ''ipv4'' \<or> v = ''ipv4 unicast'' then ''ipv4'' else ''unsupported'')"

datatype context_error =
    AsnUnproven | ScopeUnproven string | UnsupportedFamily string
  | MultipleAssignments | NoNeighborHeader string | NoNeighborState string
  | WrongStanza string

text \<open>One line of \<open>prove_neighbor_context\<close>: the address family, the families found (a
  \<open>BTreeSet\<close>) and whether the neighbor is declared globally.\<close>

definition context_line ::
    "string \<Rightarrow> string \<times> string set \<times> bool \<Rightarrow> string \<Rightarrow> string \<times> string set \<times> bool" where
  "context_line neighbor st line =
     (let (family, found, declared) = st; s = trim line in
      case strip_prefix ''address-family '' s of
        Some v \<Rightarrow> (family_of v, found, declared)
      | None \<Rightarrow>
          if s = ''exit-address-family'' then (''default_ipv4'', found, declared)
          else (case strip_prefix (''neighbor '' @ neighbor @ '' '') s of
                  None \<Rightarrow> st
                | Some rest \<Rightarrow>
                    if family = ''default_ipv4'' then (family, found, True)
                    else if rest = ''activate'' \<or> starts_with ''prefix-list '' rest \<or>
                            starts_with ''route-map '' rest
                    then (family, insert family found, declared)
                    else st))"

fun find_map :: "('a \<Rightarrow> 'b option) \<Rightarrow> 'a list \<Rightarrow> 'b option" where
  "find_map f [] = None"
| "find_map f (x # xs) = (case f x of Some y \<Rightarrow> Some y | None \<Rightarrow> find_map f xs)"

definition prove_neighbor_context :: "string \<Rightarrow> string \<Rightarrow> context_error + u32 \<times> string" where
  "prove_neighbor_context config neighbor =
     and_then (ok_or AsnUnproven (find_map (\<lambda>line. Option.bind (strip_prefix ''router bgp '' (trim line))
                                     parse_uint) (lines config))) (\<lambda>local_asn.
       (let (_, found, declared) = foldl (context_line neighbor) (''default_ipv4'', {}, False) (lines config);
            found = (if found = {} \<and> declared then {''default_ipv4''} else found)
        in if card found \<noteq> 1 then Inl (ScopeUnproven neighbor)
           else if ''unsupported'' \<in> found then Inl (UnsupportedFamily neighbor)
           else Inr (local_asn, if ''ipv4'' \<in> found then ''ipv4'' else ''default_ipv4'')))"

definition export_attachment_commands :: "u32 \<Rightarrow> string \<Rightarrow> string \<Rightarrow> string \<Rightarrow> string list" where
  "export_attachment_commands local_asn family neighbor line =
     [''configure terminal'', ''router bgp '' @ show_word local_asn] @
     (if family = ''ipv4'' then [''address-family ipv4''] else []) @ [line] @
     (if family = ''ipv4'' then [''exit-address-family''] else []) @
     [''end'', ''clear ip bgp '' @ neighbor @ '' soft out'']"

definition scoped_route_map_commands ::
    "u32 \<Rightarrow> string \<Rightarrow> string \<Rightarrow> string \<Rightarrow> string \<Rightarrow> string list" where
  "scoped_route_map_commands local_asn family neighbor direction line =
     [''configure terminal'', ''router bgp '' @ show_word local_asn] @
     (if family \<noteq> ''default_ipv4'' then [''address-family '' @ family] else []) @ [line] @
     (if family \<noteq> ''default_ipv4'' then [''exit-address-family''] else []) @
     [''end'', ''clear ip bgp '' @ neighbor @ '' soft '' @ direction]"

definition assignment_line ::
    "string \<Rightarrow> string \<Rightarrow> string \<Rightarrow> string \<times> string list \<Rightarrow> string \<Rightarrow> string \<times> string list" where
  "assignment_line neighbor direction wanted st line =
     (let (family, found) = st; s = trim line in
      case strip_prefix ''address-family '' s of
        Some v \<Rightarrow> (family_of v, found)
      | None \<Rightarrow>
          if s = ''exit-address-family'' then (''default_ipv4'', found)
          else (case split_whitespace s of
                  [a, peer, b, rm, dir] \<Rightarrow>
                    if a = ''neighbor'' \<and> b = ''route-map'' \<and> peer = neighbor \<and> dir = direction \<and>
                       family = wanted
                    then (family, found @ [rm]) else st
                | _ \<Rightarrow> st))"

definition parse_route_map_assignment_scoped ::
    "string \<Rightarrow> string \<Rightarrow> string \<Rightarrow> string \<Rightarrow> context_error + string option" where
  "parse_route_map_assignment_scoped output neighbor direction wanted =
     (let (_, found) = foldl (assignment_line neighbor direction wanted) (''default_ipv4'', []) (lines output)
      in case found of
           [] \<Rightarrow> Inr None
         | [m] \<Rightarrow> Inr (Some m)
         | _ \<Rightarrow> Inl MultipleAssignments)"

definition neighbor_state_word :: "string \<Rightarrow> string option" where
  "neighbor_state_word line =
     (case strip_prefix ''BGP state = '' (trim_start line) of
        None \<Rightarrow> None
      | Some rest \<Rightarrow>
          (let stop = (\<lambda>c. c = CHR '','' \<or> c = CHR ''('' \<or> is_ws c);
               w = takeWhile (\<lambda>c. \<not> stop c) (dropWhile stop rest)
           in if w = [] then None else Some w))"

text \<open>The administrative flag and the state word.\<close>

definition parse_bgp_neighbor_state :: "string \<Rightarrow> string \<Rightarrow> context_error + bool \<times> string" where
  "parse_bgp_neighbor_state output neighbor =
     (if \<not> list_ex (\<lambda>line. starts_with (''BGP neighbor is '' @ neighbor) (trim_start line)) (lines output)
      then Inl (NoNeighborHeader neighbor)
      else (case find_map neighbor_state_word (lines output) of
              None \<Rightarrow> Inl (NoNeighborState neighbor)
            | Some state \<Rightarrow>
                Inr (contains ''administratively shut'' (to_ascii_lowercase output), state)))"

definition validate_interface_stanza :: "string \<Rightarrow> string \<Rightarrow> context_error + unit" where
  "validate_interface_stanza output interface =
     (let headers = List.map_filter (\<lambda>line. strip_prefix ''interface '' (trim line)) (lines output)
      in if headers \<noteq> [interface] then Inl (WrongStanza interface) else Inr ())"

subsection \<open>The prefix-list text of a snapshot\<close>

definition prefix_entry_snapshot :: "prefix_list_entry \<Rightarrow> snapshot_entry" where
  "prefix_entry_snapshot e =
     \<lparr>se_sequence = pl_sequence e, se_permit = pl_permit e,
      se_prefix = show_ipv4 (pl_network e) @ ''/'' @ show_word (pl_length e),
      se_ge = pl_ge e, se_le = pl_le e\<rparr>"

definition render_snapshot_entry :: "snapshot_entry \<Rightarrow> string" where
  "render_snapshot_entry e =
     ''seq '' @ show_word (se_sequence e) @ '' '' @ (if se_permit e then ''permit'' else ''deny'') @
     '' '' @ se_prefix e @
     (case se_ge e of None \<Rightarrow> [] | Some g \<Rightarrow> '' ge '' @ show_word g) @
     (case se_le e of None \<Rightarrow> [] | Some l \<Rightarrow> '' le '' @ show_word l)"

definition render_prefix_list_snapshot :: "string \<Rightarrow> snapshot_entry list \<Rightarrow> string" where
  "render_prefix_list_snapshot name entries =
     ''ip prefix-list '' @ name @ '': '' @ show_nat (length entries) @ '' '' @
     (if length entries = 1 then ''entry'' else ''entries'') @
     concat (map (\<lambda>e. newline # render_snapshot_entry e) entries)"

subsection \<open>Reading back a rendered list\<close>

lemma lines_from_line:
  "newline \<notin> set l \<Longrightarrow> lines_from acc (l @ newline # r) =
   (case rev l @ acc of [] \<Rightarrow> [] | a # rest \<Rightarrow> if a = carriage_return then rev rest else rev (a # rest))
     # lines_from [] r"
  by (induction l arbitrary: acc) (auto split: list.splits)

lemma lines_from_last:
  "newline \<notin> set l \<Longrightarrow> lines_from acc l = (if rev l @ acc = [] then [] else [rev acc @ l])"
  by (induction l arbitrary: acc) auto

definition plain_line :: "string \<Rightarrow> bool" where
  "plain_line l = (l \<noteq> [] \<and> newline \<notin> set l \<and> \<not> is_ws (hd l) \<and> \<not> is_ws (last l))"

lemma carriage_return_ws [simp]: "is_ws carriage_return" "is_ws newline"
  by (simp_all add: is_ws_def code_def carriage_return_def newline_def)

lemma lines_plain:
  "plain_line l \<Longrightarrow> \<forall>x \<in> set ls. plain_line x \<Longrightarrow>
   lines (l @ concat (map (\<lambda>x. newline # x) ls)) = l # ls"
proof (induction ls arbitrary: l)
  case Nil
  then show ?case by (simp add: lines_def lines_from_last plain_line_def)
next
  case (Cons x ls)
  then have ih: "lines_from [] (x @ concat (map (\<lambda>x. newline # x) ls)) = x # ls"
    by (simp add: lines_def)
  obtain l' c where l: "l = l' @ [c]"
    using Cons.prems(1) by (cases l rule: rev_cases) (auto simp: plain_line_def)
  moreover have "c \<noteq> carriage_return" using Cons.prems(1) l by (auto simp: plain_line_def)
  moreover have "newline \<notin> set l" using Cons.prems(1) by (simp add: plain_line_def)
  ultimately show ?case
    using lines_from_line [of l "[]" "x @ concat (map (\<lambda>x. newline # x) ls)"] ih
    by (simp add: lines_def)
qed

lemma trim_plain: "plain_line l \<Longrightarrow> trim l = l"
  by (simp add: plain_line_def trim_id)

lemma render_snapshot_entry_clause: "render_snapshot_entry (prefix_entry_snapshot e) = render_entry e"
  by (simp add: render_snapshot_entry_def prefix_entry_snapshot_def render_entry_def clause_def)

lemma last_show_word: "\<not> is_ws (last (show_word w))"
proof -
  have "last (show_word w) \<in> set (show_word w)" by simp
  then show ?thesis using show_word_digits is_digit_not_ws by blast
qed

lemma ws_letters [simp]: "\<not> is_ws (CHR ''s'')" "\<not> is_ws (CHR ''i'')" "\<not> is_ws (CHR ''y'')"
  by (simp_all add: is_ws_def code_def)

lemma newline_not_in_token: "is_token t \<Longrightarrow> newline \<notin> set t"
  using carriage_return_ws(2) by (auto simp: is_token_def)

lemma newline_ne [simp]: "newline \<noteq> CHR '' ''" "newline \<noteq> CHR ''s''" "newline \<noteq> CHR ''e''"
  "newline \<noteq> CHR ''q''"
  by (simp_all add: newline_def)

lemma newline_join: "\<forall>t \<in> set ts. is_token t \<Longrightarrow> newline \<notin> set (join '' '' ts)"
  by (induction "'' ''" ts rule: join.induct) (auto dest: newline_not_in_token)

lemma plain_render_entry: "plain_line (render_entry e)"
proof -
  have "newline \<notin> set (render_entry e)"
    unfolding render_entry_tokens by (rule newline_join) (rule entry_tokens_tokens)
  moreover have "render_entry e \<noteq> []" "hd (render_entry e) = CHR ''s''"
    by (simp_all add: render_entry_def)
  moreover have "\<not> is_ws (last (render_entry e))"
    using last_show_word [of "pl_length e"]
    by (auto simp: render_entry_def clause_def last_show_word split: option.splits)
  ultimately show ?thesis by (simp add: plain_line_def)
qed

definition header_line :: "string \<Rightarrow> nat \<Rightarrow> string" where
  "header_line name n =
     ''ip prefix-list '' @ name @ '': '' @ show_nat n @ '' '' @ (if n = 1 then ''entry'' else ''entries'')"

definition plain_name :: "string \<Rightarrow> bool" where
  "plain_name name = (is_token name \<and> CHR '':'' \<notin> set name)"

lemma is_token_show_nat: "is_token (show_nat n)"
  using show_nat_digits is_digit_not_ws by (auto simp: is_token_def)

lemma parse_uint_show_nat: "n < 2 ^ 64 \<Longrightarrow> parse_uint (show_nat n) = Some (of_nat n :: u64)"
  using parse_uint_show_word [of "of_nat n :: u64"]
  by (simp add: show_word_def unsigned_of_nat take_bit_nat_eq_self)

lemma parse_header_line:
  assumes "plain_name name" "n < 2 ^ 64"
  shows "parse_header (header_line name n) = Some (name, n)"
proof -
  let ?e = "if n = 1 then ''entry'' else ''entries''"
  have tok: "is_token ?e" by (simp add: is_token_def is_ws_def code_def)
  have words: "split_whitespace ('' '' @ show_nat n @ '' '' @ ?e) = [show_nat n, ?e]"
    using split_whitespace_join [of "[show_nat n, ?e]"] tok is_token_show_nat [of n]
    by (simp add: split_whitespace_def)
  have "trim name = name" "name \<noteq> []"
    using assms(1) by (auto simp: plain_name_def is_token_def intro: trim_no_ws)
  moreover have "split_once (CHR '':'') (name @ CHR '':'' # '' '' @ show_nat n @ '' '' @ ?e) =
      Some (name, '' '' @ show_nat n @ '' '' @ ?e)"
    using assms(1) by (intro split_once_append) (simp add: plain_name_def)
  moreover have "strip_prefix ''ip prefix-list '' (header_line name n) =
      Some (name @ CHR '':'' # '' '' @ show_nat n @ '' '' @ ?e)"
    by (simp add: strip_prefix_Some header_line_def)
  moreover have "unat (of_nat n :: u64) = n"
    using assms(2) by (simp add: unsigned_of_nat take_bit_nat_eq_self)
  ultimately show ?thesis
    using words parse_uint_show_nat [OF assms(2)] by (simp add: parse_header_def Let_def)
qed

lemma plain_header_line: "plain_name name \<Longrightarrow> plain_line (header_line name n)"
proof -
  assume "plain_name name"
  then have "newline \<notin> set name" by (simp add: plain_name_def newline_not_in_token)
  moreover have "newline \<notin> set (show_nat n)" using is_token_show_nat by (rule newline_not_in_token)
  moreover have "newline \<notin> set ''ip prefix-list ''" "newline \<notin> set '': ''" "newline \<notin> set ''entry''"
    "newline \<notin> set ''entries''" by (simp_all add: newline_def)
  ultimately show ?thesis by (auto simp: plain_line_def header_line_def)
qed

lemma render_prefix_list_lines:
  "plain_name name \<Longrightarrow>
   lines (render_prefix_list_snapshot name (map prefix_entry_snapshot es)) =
   header_line name (length es) # map render_entry es"
proof -
  assume name: "plain_name name"
  have "render_prefix_list_snapshot name (map prefix_entry_snapshot es) =
      header_line name (length es) @ concat (map (\<lambda>x. newline # x) (map render_entry es))"
    by (simp add: render_prefix_list_snapshot_def header_line_def render_snapshot_entry_clause
        comp_def)
  then show ?thesis
    using lines_plain [OF plain_header_line [OF name], of "map render_entry es" "length es"]
    by (simp add: plain_render_entry)
qed

lemma read_lines_rendered:
  "\<forall>e \<in> set es. entry_in_range e \<Longrightarrow> rd_in_target st \<Longrightarrow>
   distinct (map pl_sequence (rd_entries st @ es)) \<Longrightarrow>
   read_lines name st (map render_entry es) = Inr (st\<lparr>rd_entries := rd_entries st @ es\<rparr>)"
proof (induction es arbitrary: st)
  case Nil
  then show ?case by simp
next
  case (Cons e es)
  have "parse_header (render_entry e) = None" "starts_with ''seq '' (render_entry e)"
    "render_entry e \<noteq> []"
    by (simp_all add: parse_header_def render_entry_def starts_with_def)
  moreover have "parse_entry (render_entry e) = Inr e"
    using Cons.prems(1) by (intro parse_entry_rendered) simp
  moreover have "\<not> (\<exists>x \<in> set (rd_entries st). pl_sequence x = pl_sequence e)"
    using Cons.prems(3) by (auto simp: image_iff)
  ultimately have "read_line name st (render_entry e) = Inr (st\<lparr>rd_entries := rd_entries st @ [e]\<rparr>)"
    using Cons.prems(2) by (simp add: read_line_def trim_plain [OF plain_render_entry])
  with Cons.IH [of "st\<lparr>rd_entries := rd_entries st @ [e]\<rparr>"] Cons.prems show ?case by simp
qed

subsection \<open>Properties\<close>

text \<open>A prefix-list snapshot is faithful: the text rebuilt from the snapshot of a well-formed
  list, which later actions of the same bundle plan against, is read back as exactly that list.\<close>

theorem snapshot_text_read_back:
  assumes "well_read es" "\<forall>e \<in> set es. entry_in_range e" "plain_name name" "length es < 2 ^ 64"
    and "denied (render_prefix_list_snapshot name (map prefix_entry_snapshot es)) = None"
  shows "parse_prefix_list (render_prefix_list_snapshot name (map prefix_entry_snapshot es)) name = Inr es"
proof -
  let ?st = "\<lparr>rd_entries = [], rd_header_seen = True, rd_expected = Some (length es), rd_in_target = True\<rparr>"
  have "read_line name read_start (header_line name (length es)) = Inr ?st"
    using plain_header_line [OF assms(3), of "length es"] parse_header_line [OF assms(3,4)]
    by (simp add: read_line_def read_start_def trim_plain plain_line_def)
  moreover have "read_lines name ?st (map render_entry es) = Inr (?st\<lparr>rd_entries := es\<rparr>)"
    using read_lines_rendered [of es ?st name] assms(1,2) by (simp add: well_read_def)
  ultimately have "read_lines name read_start
      (lines (render_prefix_list_snapshot name (map prefix_entry_snapshot es))) = Inr (?st\<lparr>rd_entries := es\<rparr>)"
    by (simp add: render_prefix_list_lines [OF assms(3)])
  moreover have "sort_key pl_sequence es = es"
    using assms(1) by (intro sort_key_id_if_sorted) (simp add: well_read_def)
  ultimately show ?thesis using assms(5) by (simp add: parse_prefix_list_def)
qed

lemma snapshot_text_read_back_witness:
  "parse_prefix_list (render_prefix_list_snapshot ''L''
      (map prefix_entry_snapshot [exact_permit 5 (Ipv4 10 0 0 0) 24])) ''L'' =
   Inr [exact_permit 5 (Ipv4 10 0 0 0) 24]"
proof (rule snapshot_text_read_back)
  show "well_read [exact_permit 5 (Ipv4 10 0 0 0) 24]"
    by (simp add: well_read_def exact_permit_def MIN_SEQ_def MAX_SEQ_def)
  show "\<forall>e \<in> set [exact_permit 5 (Ipv4 10 0 0 0) 24]. entry_in_range e"
    by (simp add: entry_in_range_def exact_permit_def MIN_SEQ_def MAX_SEQ_def)
  show "plain_name ''L''" by (simp add: plain_name_def is_token_def is_ws_def code_def)
  show "length [exact_permit 5 (Ipv4 10 0 0 0) 24] < 2 ^ 64" by simp
  show "denied (render_prefix_list_snapshot ''L''
      (map prefix_entry_snapshot [exact_permit 5 (Ipv4 10 0 0 0) 24])) = None"
    by (simp add: render_prefix_list_snapshot_def prefix_entry_snapshot_def render_snapshot_entry_def
        exact_permit_def denied_def denied_markers_def show_nat.simps text_eval)
qed

text \<open>The neighbor header is compared as a prefix: output about a neighbor whose address starts
  with the requested one is accepted.\<close>

lemma parse_bgp_neighbor_state_prefix:
  "parse_bgp_neighbor_state (''BGP neighbor is 10.0.0.10,'' @ [newline] @ ''BGP state = Idle'') ''10.0.0.1'' =
   Inr (False, ''Idle'')"
  by (simp add: parse_bgp_neighbor_state_def neighbor_state_word_def text_eval)

end
