(* ===== verification/Policy_Inventory.thy ===== *)
theory Policy_Inventory
  imports Device_State
begin

text \<open>
  \<open>src/backend-rust/src/reroute/policy.rs\<close>: the bounded inventory of prefix-lists, route-maps
  and outbound peer bindings read from three pieces of IOS text. Whatever cannot be read becomes
  a named blocker; an inventory is complete only without blockers. Ordered maps are association
  lists in ascending key order.
\<close>

subsection \<open>The inventory\<close>

datatype binding_scope = Direct | Inherited | Ambiguous

datatype policy_kind = PrefixListKind | RouteMapKind

record peer_binding =
  pb_neighbor_ip :: string
  pb_local_asn :: u32
  pb_address_family :: string
  pb_direction :: string
  pb_policy_kind :: policy_kind
  pb_policy_name :: string
  pb_scope :: binding_scope

datatype inventory_completeness = Complete | Partial | Stale

record routing_policy_inventory =
  ri_device_id :: u64
  ri_read_at :: int
  ri_completeness :: inventory_completeness
  ri_blockers :: "string list"
  ri_prefix_lists :: "named_prefix_list list"
  ri_route_maps :: "named_route_map list"
  ri_peer_bindings :: "peer_binding list"

subsection \<open>Prefix-lists\<close>

type_synonym list_map = "(string \<times> named_prefix_list) list"

type_synonym route_maps = "(string \<times> named_route_map) list"

text \<open>The first \<open>prefix-list\<close> token that is not the last token, with the name behind it.\<close>

fun after_prefix_list :: "string list \<Rightarrow> (string \<times> string list) option" where
  "after_prefix_list (k # name # rest) =
     (if k = ''prefix-list'' then Some (name, rest) else after_prefix_list (name # rest))"
| "after_prefix_list _ = None"

definition valid_prefix :: "string \<Rightarrow> bool" where
  "valid_prefix s =
     (case split_once (CHR ''/'') s of
        None \<Rightarrow> False
      | Some (ip, len) \<Rightarrow>
          parse_ipv4 ip \<noteq> None \<and>
          (case (parse_uint len :: u8 option) of Some n \<Rightarrow> n \<le> 32 | None \<Rightarrow> False))"

fun read_action :: "string option \<Rightarrow> permit_deny option" where
  "read_action (Some s) =
     (if s = ''permit'' then Some Permit else if s = ''deny'' then Some Deny else None)"
| "read_action None = None"

text \<open>The qualifier loop, two tokens at a time: a \<open>ge\<close> or \<open>le\<close> whose value does not parse
  leaves no qualifier, any other keyword makes the entry unsupported.\<close>

fun read_qualifiers ::
    "u8 option \<Rightarrow> u8 option \<Rightarrow> bool \<Rightarrow> string list \<Rightarrow> u8 option \<times> u8 option \<times> bool" where
  "read_qualifiers ge le valid [] = (ge, le, valid)"
| "read_qualifiers ge le valid [k] =
     (if k = ''ge'' then (None, le, valid)
      else if k = ''le'' then (ge, None, valid) else (ge, le, False))"
| "read_qualifiers ge le valid (k # v # rest) =
     (if k = ''ge'' then read_qualifiers (parse_uint v) le valid rest
      else if k = ''le'' then read_qualifiers ge (parse_uint v) valid rest
      else read_qualifiers ge le False rest)"

definition add_list_entry :: "string \<Rightarrow> policy_entry \<Rightarrow> list_map \<Rightarrow> list_map" where
  "add_list_entry name e lsts =
     (let l = (case map_of lsts name of
                 Some l \<Rightarrow> l
               | None \<Rightarrow> \<lparr>np_name = name, np_entries = [], np_referenced_by = []\<rparr>)
      in bt_insert name (l\<lparr>np_entries := np_entries l @ [e]\<rparr>) lsts)"

definition nth_token :: "string list \<Rightarrow> nat \<Rightarrow> string option" where
  "nth_token ts n = (if n < length ts then Some (ts ! n) else None)"

definition prefix_list_line ::
    "string list \<times> list_map \<Rightarrow> string \<Rightarrow> string list \<times> list_map" where
  "prefix_list_line st line =
     (let (blockers, lsts) = st in
      case after_prefix_list (split_whitespace line) of
        None \<Rightarrow> st
      | Some (name, rest) \<Rightarrow>
          if name = ''sequence-number'' then st
          else (let (sequence, pos) =
                  (if nth_token rest 0 = Some ''seq''
                   then (Option.bind (nth_token rest 1) parse_uint :: u32 option, 2)
                   else (None, 0))
            in case sequence of
                 None \<Rightarrow> (blockers @ [''prefix_list_'' @ name @ ''_missing_sequence''], lsts)
               | Some sq \<Rightarrow>
                 (case read_action (nth_token rest pos) of
                    None \<Rightarrow> (blockers @ [''prefix_list_'' @ name @ ''_unsupported_action''], lsts)
                  | Some action \<Rightarrow>
                    (case nth_token rest (pos + 1) of
                       None \<Rightarrow> (blockers @ [''prefix_list_'' @ name @ ''_invalid_prefix''], lsts)
                     | Some pfx \<Rightarrow>
                       if \<not> valid_prefix pfx
                       then (blockers @ [''prefix_list_'' @ name @ ''_invalid_prefix''], lsts)
                       else (let (ge, le, valid) = read_qualifiers None None True (drop (pos + 2) rest)
                         in if \<not> valid \<or> (case ge of Some v \<Rightarrow> 32 < v | None \<Rightarrow> False) \<or>
                               (case le of Some v \<Rightarrow> 32 < v | None \<Rightarrow> False)
                            then (blockers @ [''prefix_list_'' @ name @ ''_unsupported_qualifier''], lsts)
                            else (blockers, add_list_entry name
                                   \<lparr>pe_sequence = sq, pe_action = action, pe_prefix = pfx,
                                    pe_ge = ge, pe_le = le\<rparr> lsts))))))"

fun adjacent_equal :: "u32 list \<Rightarrow> bool" where
  "adjacent_equal (a # b # xs) = (a = b \<or> adjacent_equal (b # xs))"
| "adjacent_equal _ = False"

text \<open>Sorting every list and naming the ones with a repeated sequence number.\<close>

definition sort_list :: "named_prefix_list \<Rightarrow> named_prefix_list" where
  "sort_list l = l\<lparr>np_entries := sort_key pe_sequence (np_entries l)\<rparr>"

definition duplicate_blockers :: "list_map \<Rightarrow> string list" where
  "duplicate_blockers lsts =
     concat (map (\<lambda>(_, l). if adjacent_equal (map pe_sequence (np_entries l))
       then [''prefix_list_'' @ np_name l @ ''_duplicate_sequence''] else []) lsts)"

subsection \<open>Route-maps\<close>

record map_state =
  ms_blockers :: "string list"
  ms_maps :: route_maps
  ms_active :: "(string \<times> nat) option"

definition add_clause :: "string \<Rightarrow> route_map_clause \<Rightarrow> map_state \<Rightarrow> map_state" where
  "add_clause name cl st =
     (let m = (case map_of (ms_maps st) name of
                 Some m \<Rightarrow> m
               | None \<Rightarrow> \<lparr>nm_name = name, nm_clauses = [], nm_references = []\<rparr>);
          m' = m\<lparr>nm_clauses := nm_clauses m @ [cl]\<rparr>
      in st\<lparr>ms_maps := bt_insert name m' (ms_maps st),
            ms_active := Some (name, length (nm_clauses m') - 1)\<rparr>)"

definition update_clause ::
    "string \<Rightarrow> nat \<Rightarrow> (route_map_clause \<Rightarrow> route_map_clause) \<Rightarrow> route_maps \<Rightarrow> route_maps" where
  "update_clause name idx f maps =
     (case map_of maps name of
        None \<Rightarrow> maps
      | Some m \<Rightarrow>
          if idx < length (nm_clauses m)
          then bt_insert name
                 (m\<lparr>nm_clauses := (nm_clauses m)[idx := f (nm_clauses m ! idx)]\<rparr>) maps
          else maps)"

definition term_of :: "nat \<Rightarrow> string \<Rightarrow> policy_term" where
  "term_of n v = \<lparr>pt_kind = join ''_'' (take n (split_whitespace v)), pt_value = v\<rparr>"

definition clause_line :: "map_state \<Rightarrow> string \<Rightarrow> map_state" where
  "clause_line st line =
     (case ms_active st of
        None \<Rightarrow> st
      | Some (name, idx) \<Rightarrow>
          (case strip_prefix ''match '' (trim line) of
             Some v \<Rightarrow>
               st\<lparr>ms_maps := update_clause name idx
                   (\<lambda>cl. cl\<lparr>rc_matches := rc_matches cl @ [term_of 3 v]\<rparr>) (ms_maps st)\<rparr>
           | None \<Rightarrow>
               (case strip_prefix ''set '' (trim line) of
                  Some v \<Rightarrow>
                    st\<lparr>ms_maps := update_clause name idx
                        (\<lambda>cl. cl\<lparr>rc_sets := rc_sets cl @ [term_of 2 v]\<rparr>) (ms_maps st)\<rparr>
                | None \<Rightarrow> st)))"

definition route_map_line :: "map_state \<Rightarrow> string \<Rightarrow> map_state" where
  "route_map_line st line =
     (case split_whitespace line of
        [k, name, act, sq] \<Rightarrow>
          if k = ''route-map''
          then (case read_action (Some act) of
                  None \<Rightarrow>
                    st\<lparr>ms_blockers := ms_blockers st @ [''route_map_'' @ name @ ''_unsupported_action'']\<rparr>
                | Some action \<Rightarrow>
                    (case (parse_uint sq :: u32 option) of
                       None \<Rightarrow>
                         st\<lparr>ms_blockers := ms_blockers st @ [''route_map_'' @ name @ ''_invalid_sequence'']\<rparr>
                     | Some n \<Rightarrow>
                         add_clause name \<lparr>rc_sequence = n, rc_action = action, rc_matches = [],
                                          rc_sets = []\<rparr> st))
          else clause_line st line
      | _ \<Rightarrow> clause_line st line)"

subsection \<open>Peer bindings\<close>

record binding_state =
  bs_blockers :: "string list"
  bs_asn :: "u32 option"
  bs_family :: string
  bs_direct :: "(string \<times> policy_kind \<times> string \<times> string) list"
  bs_groups :: "(string \<times> (policy_kind \<times> string) list) list"
  bs_memberships :: "(string \<times> string) list"

definition policy_statement :: "string list \<Rightarrow> (policy_kind \<times> string \<times> string) option" where
  "policy_statement t =
     (case t of
        [_, k, n, d] \<Rightarrow>
          if k = ''prefix-list'' then Some (PrefixListKind, n, d)
          else if k = ''route-map'' then Some (RouteMapKind, n, d) else None
      | _ \<Rightarrow> None)"

definition peer_group_statement :: "string list \<Rightarrow> (string \<times> string) option" where
  "peer_group_statement t =
     (case t of
        [peer, k, grp] \<Rightarrow> if k = ''peer-group'' then Some (peer, grp) else None
      | _ \<Rightarrow> None)"

definition neighbor_statement :: "binding_state \<Rightarrow> string list \<Rightarrow> binding_state" where
  "neighbor_statement st t =
     (case peer_group_statement t of
        Some (peer, grp) \<Rightarrow>
          if parse_ipv4 peer \<noteq> None
          then st\<lparr>bs_memberships := bt_insert peer grp (bs_memberships st)\<rparr> else st
      | None \<Rightarrow>
          (case policy_statement t of
             None \<Rightarrow> st
           | Some (kind, name, dir) \<Rightarrow>
               if dir \<noteq> ''out'' then st
               else if bs_family st = ''unsupported''
               then st\<lparr>bs_blockers := bs_blockers st @ [''unsupported_address_family_for_'' @ hd t]\<rparr>
               else (case parse_ipv4 (hd t) of
                       Some ip \<Rightarrow>
                         st\<lparr>bs_direct := bs_direct st @ [(show_ipv4 ip, kind, name, bs_family st)]\<rparr>
                     | None \<Rightarrow>
                         st\<lparr>bs_groups := bt_insert (hd t)
                              ((case map_of (bs_groups st) (hd t) of Some p \<Rightarrow> p | None \<Rightarrow> []) @ [(kind, name)])
                              (bs_groups st)\<rparr>)))"

definition bgp_line :: "binding_state \<Rightarrow> string \<Rightarrow> binding_state" where
  "bgp_line st line =
     (let s = trim line in
      case strip_prefix ''router bgp '' s of
        Some v \<Rightarrow> st\<lparr>bs_asn := parse_uint v\<rparr>
      | None \<Rightarrow>
          (case strip_prefix ''address-family '' s of
             Some v \<Rightarrow>
               st\<lparr>bs_family := (if v = ''ipv4'' \<or> v = ''ipv4 unicast'' then ''ipv4'' else ''unsupported'')\<rparr>
           | None \<Rightarrow>
               if s = ''exit-address-family'' then st\<lparr>bs_family := ''default_ipv4''\<rparr>
               else (case strip_prefix ''neighbor '' s of
                       None \<Rightarrow> st
                     | Some r \<Rightarrow> neighbor_statement st (split_whitespace r))))"

definition start_bindings :: "string list \<Rightarrow> binding_state" where
  "start_bindings blockers =
     \<lparr>bs_blockers = blockers, bs_asn = None, bs_family = ''default_ipv4'', bs_direct = [],
      bs_groups = [], bs_memberships = []\<rparr>"

definition direct_binding :: "u32 \<Rightarrow> string \<times> policy_kind \<times> string \<times> string \<Rightarrow> peer_binding" where
  "direct_binding asn d =
     (let (peer, kind, name, family) = d in
      \<lparr>pb_neighbor_ip = peer, pb_local_asn = asn, pb_address_family = family, pb_direction = ''out'',
       pb_policy_kind = kind, pb_policy_name = name, pb_scope = Direct\<rparr>)"

definition inherited_bindings ::
    "u32 \<Rightarrow> (string \<times> (policy_kind \<times> string) list) list \<Rightarrow> string \<times> string \<Rightarrow> peer_binding list" where
  "inherited_bindings asn groups pg =
     (let (peer, grp) = pg in
      case map_of groups grp of
        None \<Rightarrow> []
      | Some p \<Rightarrow>
          map (\<lambda>(kind, name).
            \<lparr>pb_neighbor_ip = peer, pb_local_asn = asn, pb_address_family = ''ipv4'',
             pb_direction = ''out'', pb_policy_kind = kind, pb_policy_name = name,
             pb_scope = (if length p = 1 then Inherited else Ambiguous)\<rparr>) p)"

definition same_slot :: "peer_binding \<Rightarrow> peer_binding \<Rightarrow> bool" where
  "same_slot a b =
     (pb_neighbor_ip a = pb_neighbor_ip b \<and> pb_address_family a = pb_address_family b \<and>
      pb_direction a = pb_direction b \<and> pb_policy_kind a = pb_policy_kind b)"

text \<open>The last loop only changes scopes, which it does not read, so each step sees the same
  slots.\<close>

definition mark_ambiguous :: "peer_binding list \<Rightarrow> peer_binding list" where
  "mark_ambiguous bs =
     map (\<lambda>b. if 1 < length (filter (\<lambda>c. same_slot c b) bs) then b\<lparr>pb_scope := Ambiguous\<rparr> else b) bs"

definition parse_bindings ::
    "string \<Rightarrow> string list \<Rightarrow> string list \<times> u32 option \<times> peer_binding list" where
  "parse_bindings bgp blockers =
     (let st = foldl bgp_line (start_bindings blockers) (lines bgp) in
      case bs_asn st of
        None \<Rightarrow> (bs_blockers st, None, [])
      | Some asn \<Rightarrow>
          (bs_blockers st, Some asn,
           mark_ambiguous (map (direct_binding asn) (bs_direct st) @
             concat (map (inherited_bindings asn (bs_groups st)) (bs_memberships st)))))"

subsection \<open>The whole inventory\<close>

definition binding_reference :: "peer_binding \<Rightarrow> string" where
  "binding_reference b =
     ''neighbor:'' @ pb_neighbor_ip b @ '':'' @ pb_address_family b @ '':'' @ pb_direction b"

definition note_reference :: "list_map \<times> route_maps \<Rightarrow> peer_binding \<Rightarrow> list_map \<times> route_maps" where
  "note_reference ms b =
     (let (lsts, maps) = ms in
      case pb_policy_kind b of
        PrefixListKind \<Rightarrow>
          (case map_of lsts (pb_policy_name b) of
             None \<Rightarrow> (lsts, maps)
           | Some l \<Rightarrow> (bt_insert (pb_policy_name b)
               (l\<lparr>np_referenced_by := np_referenced_by l @ [binding_reference b]\<rparr>) lsts, maps))
      | RouteMapKind \<Rightarrow>
          (case map_of maps (pb_policy_name b) of
             None \<Rightarrow> (lsts, maps)
           | Some m \<Rightarrow> (lsts, bt_insert (pb_policy_name b)
               (m\<lparr>nm_references := nm_references m @ [binding_reference b]\<rparr>) maps)))"

definition policy_known :: "list_map \<times> route_maps \<Rightarrow> peer_binding \<Rightarrow> bool" where
  "policy_known ms b =
     (case pb_policy_kind b of
        PrefixListKind \<Rightarrow> map_of (fst ms) (pb_policy_name b) \<noteq> None
      | RouteMapKind \<Rightarrow> map_of (snd ms) (pb_policy_name b) \<noteq> None)"

definition read_lists :: "string \<Rightarrow> string list \<times> list_map" where
  "read_lists prefix_lists =
     (let (blockers, lsts) = foldl prefix_list_line ([], []) (lines prefix_lists);
          sorted_lists = map (\<lambda>(k, l). (k, sort_list l)) lsts
      in (blockers @ duplicate_blockers sorted_lists, sorted_lists))"

definition parse_inventory ::
    "u64 \<Rightarrow> string \<Rightarrow> string \<Rightarrow> string \<Rightarrow> int \<Rightarrow> routing_policy_inventory" where
  "parse_inventory device_id bgp route_map_text prefix_lists read_at =
     (let (blockers1, lsts) = read_lists prefix_lists;
          mst = foldl route_map_line \<lparr>ms_blockers = blockers1, ms_maps = [], ms_active = None\<rparr>
                  (lines route_map_text);
          (blockers2, local_asn, bindings) = parse_bindings bgp (ms_blockers mst);
          (lsts', maps') = foldl note_reference (lsts, ms_maps mst) bindings;
          dangling = map (\<lambda>b. ''dangling_policy_'' @ pb_policy_name b)
                       (filter (\<lambda>b. \<not> policy_known (lsts', maps') b) bindings);
          blockers = blockers2 @ dangling @ (if local_asn = None then [''bgp_local_asn_unproven''] else [])
      in \<lparr>ri_device_id = device_id, ri_read_at = read_at,
          ri_completeness = (if blockers = [] then Complete else Partial),
          ri_blockers = blockers, ri_prefix_lists = map snd lsts', ri_route_maps = map snd maps',
          ri_peer_bindings = bindings\<rparr>)"

subsection \<open>The prefix-lists of an inventory\<close>

definition good_entry :: "policy_entry \<Rightarrow> bool" where
  "good_entry e =
     (valid_prefix (pe_prefix e) \<and>
      (case pe_ge e of Some v \<Rightarrow> v \<le> 32 | None \<Rightarrow> True) \<and>
      (case pe_le e of Some v \<Rightarrow> v \<le> 32 | None \<Rightarrow> True))"

definition good_lists :: "list_map \<Rightarrow> bool" where
  "good_lists m =
     (bt_ok m \<and> (\<forall>kl \<in> set m. np_name (snd kl) = fst kl \<and> (\<forall>e \<in> set (np_entries (snd kl)). good_entry e)))"

lemma good_lists_insert:
  "good_lists m \<Longrightarrow> np_name l = k \<Longrightarrow> \<forall>e \<in> set (np_entries l). good_entry e \<Longrightarrow>
   good_lists (bt_insert k l m)"
  using set_bt_insert_subset [of k l m] by (fastforce simp: good_lists_def)

lemma good_lists_lookup:
  "good_lists m \<Longrightarrow> map_of m k = Some l \<Longrightarrow> np_name l = k \<and> (\<forall>e \<in> set (np_entries l). good_entry e)"
  by (auto simp: good_lists_def dest!: map_of_SomeD)

lemma good_lists_add: "good_lists m \<Longrightarrow> good_entry e \<Longrightarrow> good_lists (add_list_entry name e m)"
  using good_lists_lookup [of m name]
  by (cases "map_of m name") (auto simp: add_list_entry_def intro!: good_lists_insert)

lemma prefix_list_line_good:
  assumes "good_lists (snd st)"
  shows "good_lists (snd (prefix_list_line st line))"
proof -
  obtain b m where st: "st = (b, m)" by (cases st)
  with assms have "good_lists m" by simp
  then show ?thesis
    by (auto simp: prefix_list_line_def st Let_def not_less good_entry_def intro!: good_lists_add
             split: option.splits prod.splits)
qed

lemma prefix_list_lines_good: "good_lists (snd st) \<Longrightarrow> good_lists (snd (foldl prefix_list_line st ls))"
  by (induction ls arbitrary: st) (simp_all add: prefix_list_line_good)

lemma adjacent_equal_sorted: "sorted xs \<Longrightarrow> \<not> adjacent_equal xs \<Longrightarrow> sorted_wrt (<) xs"
proof (induction xs rule: adjacent_equal.induct)
  case (1 a b xs)
  then have "a < b" "sorted_wrt (<) (b # xs)" by auto
  then show ?case by (auto intro: less_trans)
qed auto

lemma duplicate_blockers_Nil:
  "duplicate_blockers m = [] \<longleftrightarrow> (\<forall>kl \<in> set m. \<not> adjacent_equal (map pe_sequence (np_entries (snd kl))))"
  by (auto simp: duplicate_blockers_def)

lemma map_keys_sorted: "map fst (map (\<lambda>(k, l). (k, f l)) m) = map fst m"
  by (simp add: comp_def case_prod_unfold)

lemma read_lists_good: "good_lists (snd (read_lists text))"
proof -
  have "good_lists (snd (foldl prefix_list_line ([], []) (lines text)))"
    by (rule prefix_list_lines_good) (simp add: good_lists_def)
  then show ?thesis
    by (auto simp: read_lists_def Let_def good_lists_def bt_ok_def sort_list_def comp_def
             case_prod_unfold)
qed

lemma read_lists_strict:
  assumes "fst (read_lists text) = []" "kl \<in> set (snd (read_lists text))"
  shows "sorted_wrt (<) (map pe_sequence (np_entries (snd kl)))"
  using assms
  by (auto simp: read_lists_def Let_def duplicate_blockers_Nil sort_list_def case_prod_unfold
           intro!: adjacent_equal_sorted)

subsection \<open>Blockers are never dropped\<close>

lemma route_map_line_blockers: "prefix (ms_blockers st) (ms_blockers (route_map_line st line))"
proof -
  have "ms_blockers (clause_line st line) = ms_blockers st"
    by (simp add: clause_line_def split: option.split)
  moreover have "ms_blockers (add_clause name cl st) = ms_blockers st" for name cl
    by (simp add: add_clause_def Let_def)
  ultimately show ?thesis by (simp add: route_map_line_def split: list.split option.split)
qed

lemma route_map_lines_blockers: "prefix (ms_blockers st) (ms_blockers (foldl route_map_line st ls))"
  by (induction ls arbitrary: st)
    (auto intro: prefix_order.trans [OF route_map_line_blockers])

lemma policy_binding_blockers:
  "prefix (bs_blockers st) (bs_blockers (neighbor_statement st t))"
  by (simp add: neighbor_statement_def split: option.split prod.split)

lemma bgp_line_blockers: "prefix (bs_blockers st) (bs_blockers (bgp_line st line))"
  by (simp add: bgp_line_def Let_def policy_binding_blockers split: option.split)

lemma bgp_lines_blockers: "prefix (bs_blockers st) (bs_blockers (foldl bgp_line st ls))"
  by (induction ls arbitrary: st) (auto intro: prefix_order.trans [OF bgp_line_blockers])

lemma parse_bindings_blockers:
  "parse_bindings bgp blockers = (b, asn, bs) \<Longrightarrow> prefix blockers b"
proof -
  assume "parse_bindings bgp blockers = (b, asn, bs)"
  then have "b = bs_blockers (foldl bgp_line (start_bindings blockers) (lines bgp))"
    by (simp add: parse_bindings_def Let_def split: option.splits)
  with bgp_lines_blockers [of "start_bindings blockers" "lines bgp"] show ?thesis
    by (simp add: start_bindings_def)
qed

subsection \<open>References leave the policy objects alone\<close>

definition strict_lists :: "list_map \<Rightarrow> bool" where
  "strict_lists m =
     (good_lists m \<and> (\<forall>kl \<in> set m. sorted_wrt (<) (map pe_sequence (np_entries (snd kl)))))"

definition named_maps :: "route_maps \<Rightarrow> bool" where
  "named_maps m = (bt_ok m \<and> (\<forall>km \<in> set m. nm_name (snd km) = fst km))"

lemma strict_lists_insert:
  "strict_lists m \<Longrightarrow> np_name l = k \<Longrightarrow> \<forall>e \<in> set (np_entries l). good_entry e \<Longrightarrow>
   sorted_wrt (<) (map pe_sequence (np_entries l)) \<Longrightarrow> strict_lists (bt_insert k l m)"
  using set_bt_insert_subset [of k l m] by (auto simp: strict_lists_def good_lists_insert)

lemma strict_lists_lookup:
  "strict_lists m \<Longrightarrow> map_of m k = Some l \<Longrightarrow>
   np_name l = k \<and> (\<forall>e \<in> set (np_entries l). good_entry e) \<and>
   sorted_wrt (<) (map pe_sequence (np_entries l))"
  using good_lists_lookup [of m k l] by (auto simp: strict_lists_def dest!: map_of_SomeD)

lemma named_maps_insert: "named_maps m \<Longrightarrow> nm_name v = k \<Longrightarrow> named_maps (bt_insert k v m)"
  using set_bt_insert_subset [of k v m] by (fastforce simp: named_maps_def)

lemma named_maps_lookup: "named_maps m \<Longrightarrow> map_of m k = Some v \<Longrightarrow> nm_name v = k"
  by (auto simp: named_maps_def dest!: map_of_SomeD)

lemma update_clause_named: "named_maps m \<Longrightarrow> named_maps (update_clause name idx f m)"
  using named_maps_lookup [of m name]
  by (auto simp: update_clause_def intro!: named_maps_insert split: option.split)

lemma add_clause_named: "named_maps (ms_maps st) \<Longrightarrow> named_maps (ms_maps (add_clause name cl st))"
  using named_maps_lookup [of "ms_maps st" name]
  by (auto simp: add_clause_def Let_def intro!: named_maps_insert split: option.split)

lemma clause_line_named: "named_maps (ms_maps st) \<Longrightarrow> named_maps (ms_maps (clause_line st line))"
  by (simp add: clause_line_def update_clause_named split: option.split)

lemma route_map_line_named: "named_maps (ms_maps st) \<Longrightarrow> named_maps (ms_maps (route_map_line st line))"
  by (simp add: route_map_line_def clause_line_named add_clause_named split: list.split option.split)

lemma route_map_lines_named:
  "named_maps (ms_maps st) \<Longrightarrow> named_maps (ms_maps (foldl route_map_line st ls))"
  by (induction ls arbitrary: st) (simp_all add: route_map_line_named)

lemma note_reference_keeps:
  assumes "strict_lists (fst ms)" "named_maps (snd ms)"
  shows "strict_lists (fst (note_reference ms b)) \<and> named_maps (snd (note_reference ms b))"
proof (cases "pb_policy_kind b")
  case PrefixListKind
  with assms strict_lists_lookup [of "fst ms" "pb_policy_name b"] show ?thesis
    by (cases ms) (auto simp: note_reference_def intro!: strict_lists_insert split: option.split)
next
  case RouteMapKind
  with assms named_maps_lookup [of "snd ms" "pb_policy_name b"] show ?thesis
    by (cases ms) (auto simp: note_reference_def intro!: named_maps_insert split: option.split)
qed

lemma note_references_keep:
  "strict_lists (fst ms) \<Longrightarrow> named_maps (snd ms) \<Longrightarrow>
   strict_lists (fst (foldl note_reference ms bs)) \<and> named_maps (snd (foldl note_reference ms bs))"
  by (induction bs arbitrary: ms) (simp_all add: note_reference_keeps)

subsection \<open>Properties\<close>

definition binding_resolved :: "routing_policy_inventory \<Rightarrow> peer_binding \<Rightarrow> bool" where
  "binding_resolved r b =
     (case pb_policy_kind b of
        PrefixListKind \<Rightarrow> \<exists>l \<in> set (ri_prefix_lists r). np_name l = pb_policy_name b
      | RouteMapKind \<Rightarrow> \<exists>m \<in> set (ri_route_maps r). nm_name m = pb_policy_name b)"

text \<open>A complete inventory can be trusted: every prefix-list has strictly ascending sequence
  numbers and well-formed prefixes and ranges, and every outbound binding names a prefix-list or
  route-map that the inventory defines.\<close>

theorem complete_inventory_sound:
  assumes "ri_completeness (parse_inventory device bgp maps_text lists_text at) = Complete"
  shows "let r = parse_inventory device bgp maps_text lists_text at in
     (\<forall>l \<in> set (ri_prefix_lists r).
        sorted_wrt (<) (map pe_sequence (np_entries l)) \<and> (\<forall>e \<in> set (np_entries l). good_entry e)) \<and>
     (\<forall>b \<in> set (ri_peer_bindings r). binding_resolved r b)"
proof -
  obtain b1 lsts where l: "read_lists lists_text = (b1, lsts)" by (cases "read_lists lists_text")
  let ?mst = "foldl route_map_line \<lparr>ms_blockers = b1, ms_maps = [], ms_active = None\<rparr> (lines maps_text)"
  obtain b2 asn bs where p: "parse_bindings bgp (ms_blockers ?mst) = (b2, asn, bs)"
    by (cases "parse_bindings bgp (ms_blockers ?mst)")
  obtain lsts' maps' where n: "foldl note_reference (lsts, ms_maps ?mst) bs = (lsts', maps')"
    by (cases "foldl note_reference (lsts, ms_maps ?mst) bs")
  let ?r = "parse_inventory device bgp maps_text lists_text at"
  have r: "ri_prefix_lists ?r = map snd lsts'" "ri_route_maps ?r = map snd maps'"
    "ri_peer_bindings ?r = bs"
    by (simp_all add: parse_inventory_def l p n)
  from assms have "b2 = []" and known: "\<forall>b \<in> set bs. policy_known (lsts', maps') b"
    by (auto simp: parse_inventory_def l p n filter_empty_conv split: if_splits)
  then have "b1 = []"
    using route_map_lines_blockers [of "\<lparr>ms_blockers = b1, ms_maps = [], ms_active = None\<rparr>" "lines maps_text"]
      parse_bindings_blockers [OF p] by simp
  then have strict: "strict_lists lsts"
    using read_lists_good [of lists_text] read_lists_strict [of lists_text] l
    by (simp add: strict_lists_def)
  have named: "named_maps (ms_maps ?mst)"
    by (rule route_map_lines_named) (simp add: named_maps_def)
  from note_references_keep [of "(lsts, ms_maps ?mst)" bs] strict named n
  have fin: "strict_lists lsts'" "named_maps maps'" by simp_all
  have "binding_resolved ?r b" if "b \<in> set bs" for b
    using known that fin unfolding binding_resolved_def r
    by (cases "pb_policy_kind b")
      (force simp: policy_known_def dest: strict_lists_lookup named_maps_lookup map_of_SomeD)+
  moreover have "\<forall>l \<in> set (ri_prefix_lists ?r).
      sorted_wrt (<) (map pe_sequence (np_entries l)) \<and> (\<forall>e \<in> set (np_entries l). good_entry e)"
    using fin(1) by (auto simp: r strict_lists_def good_lists_def)
  ultimately show ?thesis using r by (simp add: Let_def)
qed

text \<open>A binding that is not marked ambiguous is the only outbound binding of its policy kind
  for its neighbor and address family.\<close>

theorem unambiguous_binding_unique:
  assumes "b \<in> set (ri_peer_bindings (parse_inventory device bgp maps_text lists_text at))"
    and "pb_scope b \<noteq> Ambiguous"
  shows "filter (same_slot b) (ri_peer_bindings (parse_inventory device bgp maps_text lists_text at)) = [b]"
proof -
  obtain raw where raw: "ri_peer_bindings (parse_inventory device bgp maps_text lists_text at) = mark_ambiguous raw"
  proof -
    have "[] = mark_ambiguous []" by (simp add: mark_ambiguous_def)
    then have "\<exists>raw. snd (snd (parse_bindings t bl)) = mark_ambiguous raw" for t bl
      by (cases "bs_asn (foldl bgp_line (start_bindings bl) (lines t))")
        (auto simp: parse_bindings_def Let_def)
    then show ?thesis using that
      by (simp add: parse_inventory_def Let_def case_prod_unfold) blast
  qed
  let ?m = "\<lambda>c. if 1 < length (filter (\<lambda>d. same_slot d c) raw) then c\<lparr>pb_scope := Ambiguous\<rparr> else c"
  from assms raw obtain c where c: "c \<in> set raw" "b = ?m c" "length (filter (\<lambda>d. same_slot d c) raw) \<le> 1"
    by (auto simp: mark_ambiguous_def split: if_splits)
  then have b: "b = c" by simp
  have sym: "same_slot x y \<longleftrightarrow> same_slot y x" for x y by (auto simp: same_slot_def)
  have "c \<in> set (filter (\<lambda>d. same_slot d c) raw)" using c(1) by (simp add: same_slot_def)
  with c(3) have one: "filter (\<lambda>d. same_slot d c) raw = [c]"
    by (cases "filter (\<lambda>d. same_slot d c) raw") auto
  have "same_slot b (?m d) \<longleftrightarrow> same_slot d c" for d
    using b by (auto simp: same_slot_def)
  then have "filter (same_slot b) (map ?m raw) = map ?m (filter (\<lambda>d. same_slot d c) raw)"
    by (simp add: filter_map comp_def)
  with one b c(2) raw show ?thesis by (simp add: mark_ambiguous_def)
qed

subsection \<open>An inventory read from three texts\<close>

definition sample_bgp :: string where
  "sample_bgp = ''router bgp 65000'' @ [newline] @ '' neighbor 10.0.0.2 prefix-list OUT out''"

definition sample_lists :: string where
  "sample_lists = ''ip prefix-list OUT seq 5 permit 10.0.0.0/8''"

lemma sample_lists_read:
  "read_lists sample_lists =
     ([], [(''OUT'', \<lparr>np_name = ''OUT'',
        np_entries = [\<lparr>pe_sequence = 5, pe_action = Permit, pe_prefix = ''10.0.0.0/8'',
                        pe_ge = None, pe_le = None\<rparr>], np_referenced_by = []\<rparr>)])"
  by (simp add: read_lists_def prefix_list_line_def sample_lists_def nth_token_def valid_prefix_def
      add_list_entry_def sort_list_def duplicate_blockers_def text_eval)

lemma sample_bgp_read:
  "parse_bindings sample_bgp [] =
     ([], Some 65000, [\<lparr>pb_neighbor_ip = ''10.0.0.2'', pb_local_asn = 65000,
        pb_address_family = ''default_ipv4'', pb_direction = ''out'',
        pb_policy_kind = PrefixListKind, pb_policy_name = ''OUT'', pb_scope = Direct\<rparr>])"
  by (simp add: parse_bindings_def sample_bgp_def start_bindings_def bgp_line_def
      neighbor_statement_def peer_group_statement_def policy_statement_def direct_binding_def
      mark_ambiguous_def same_slot_def show_nat.simps text_eval)

lemma sample_inventory:
  "ri_completeness (parse_inventory 1 sample_bgp [] sample_lists 0) = Complete"
  "ri_peer_bindings (parse_inventory 1 sample_bgp [] sample_lists 0) = snd (snd (parse_bindings sample_bgp []))"
  by (simp_all add: parse_inventory_def sample_lists_read sample_bgp_read note_reference_def
      policy_known_def lines_def)

theorem complete_inventory_sound_witness:
  "let r = parse_inventory 1 sample_bgp [] sample_lists 0 in
     (\<forall>l \<in> set (ri_prefix_lists r).
        sorted_wrt (<) (map pe_sequence (np_entries l)) \<and> (\<forall>e \<in> set (np_entries l). good_entry e)) \<and>
     (\<forall>b \<in> set (ri_peer_bindings r). binding_resolved r b)"
  by (rule complete_inventory_sound) (rule sample_inventory)

theorem unambiguous_binding_unique_witness:
  "let r = parse_inventory 1 sample_bgp [] sample_lists 0; b = hd (ri_peer_bindings r) in
     filter (same_slot b) (ri_peer_bindings r) = [b]"
proof -
  let ?r = "parse_inventory 1 sample_bgp [] sample_lists 0"
  have "hd (ri_peer_bindings ?r) \<in> set (ri_peer_bindings ?r)"
    "pb_scope (hd (ri_peer_bindings ?r)) \<noteq> Ambiguous"
    by (simp_all add: sample_inventory sample_bgp_read)
  from unambiguous_binding_unique [OF this] show ?thesis by (simp add: Let_def)
qed

end
