(* ===== verification/Projection.thy ===== *)
theory Projection
  imports Device_Config
begin

text \<open>
  \<open>src/backend-rust/src/reroute/projection.rs\<close>: the projection of an ordered set of prepared
  actions onto the configuration of each device before, after and on reverting the set.
\<close>

subsection \<open>Stores of states by key\<close>

text \<open>The contract of the two ways the projection adds a state to a list: the last state of a
  key wins, or the first one does.\<close>

locale keyed_store =
  fixes key :: "'s \<Rightarrow> 'k"
    and look :: "'s list \<Rightarrow> 'k \<Rightarrow> 's option"
    and put :: "'s list \<Rightarrow> 's \<Rightarrow> 's list"
    and put_first :: "'s list \<Rightarrow> 's \<Rightarrow> 's list"
  assumes look_put: "look (put xs x) k = (if k = key x then Some x else look xs k)"
    and look_put_first:
      "look (put_first xs x) k = (if k = key x \<and> look xs k = None then Some x else look xs k)"
    and look_empty: "look [] k = None"
begin

lemma look_fold_put:
  "look (foldl put xs ys) k =
   (case List.find (\<lambda>y. key y = k) (rev ys) of Some y \<Rightarrow> Some y | None \<Rightarrow> look xs k)"
proof (induction ys arbitrary: xs)
  case Nil
  then show ?case by simp
next
  case (Cons y ys)
  then show ?case by (auto simp: look_put find_append split: option.splits)
qed

lemma look_fold_put_first:
  "look (foldl put_first xs ys) k =
   (case look xs k of Some x \<Rightarrow> Some x | None \<Rightarrow> List.find (\<lambda>y. key y = k) ys)"
  by (induction ys arbitrary: xs) (auto simp: look_put_first split: option.splits)

lemma look_put_all: "look (foldl put [] ys) k = List.find (\<lambda>y. key y = k) (rev ys)"
  by (simp add: look_fold_put look_empty split: option.splits)

lemma look_put_first_all: "look (foldl put_first [] ys) k = List.find (\<lambda>y. key y = k) ys"
  by (simp add: look_fold_put_first look_empty)

end

subsection \<open>Keys\<close>

text \<open>\<open>Debug\<close> of a string and of the optional tag and address family.\<close>

definition debug_char :: "char \<Rightarrow> string" where
  "debug_char c = (let n = code c in
     if n = 0 then [CHR 0x5C, CHR ''0'']
     else if n = 9 then [CHR 0x5C, CHR ''t'']
     else if n = 10 then [CHR 0x5C, CHR ''n'']
     else if n = 13 then [CHR 0x5C, CHR ''r'']
     else if n = 34 then [CHR 0x5C, CHR 0x22]
     else if n = 92 then [CHR 0x5C, CHR 0x5C]
     else if n < 32 \<or> (127 \<le> n \<and> n \<le> 160) \<or> n = 173 then CHR 0x5C # ''u{'' @ show_hex n @ ''}''
     else [c])"

definition debug_str :: "string \<Rightarrow> string" where
  "debug_str s = [CHR 0x22] @ concat (map debug_char s) @ [CHR 0x22]"

definition debug_option :: "('a \<Rightarrow> string) \<Rightarrow> 'a option \<Rightarrow> string" where
  "debug_option f x = (case x of None \<Rightarrow> ''None'' | Some v \<Rightarrow> ''Some('' @ f v @ '')'')"

fun projection_key :: "device_state \<Rightarrow> string" where
  "projection_key (PrefixListState name _ _) = ''prefix-list:'' @ name"
| "projection_key (Ipv4StaticRoute p h t _) =
     ''v4-route:'' @ p @ '':'' @ h @ '':'' @ debug_option show_word t"
| "projection_key (Ipv6StaticRoute p h t _) =
     ''v6-route:'' @ p @ '':'' @ h @ '':'' @ debug_option show_word t"
| "projection_key (RouteResolution p h _) = ''route-resolution:'' @ p @ '':'' @ h"
| "projection_key (BgpAdvertisement n p _ _) = ''advertisement:'' @ n @ '':'' @ p"
| "projection_key (BgpRoute p _ _) = ''bgp-route:'' @ p"
| "projection_key (NeighborShutdown _ n _) = ''neighbor:'' @ n @ '':shutdown''"
| "projection_key (BgpNeighborState n _ _) = ''neighbor:'' @ n @ '':operational''"
| "projection_key (RouteMapAssignment _ n d af _) =
     ''peer:'' @ n @ '':'' @ d @ '':'' @ debug_option debug_str af"
| "projection_key (ExportPolicyAttachment _ n af _ _ _ _ _ _) =
     ''export-policy:'' @ n @ '':'' @ af"
| "projection_key (InterfaceAdmin i _) = ''interface:'' @ i @ '':admin''"
| "projection_key (InterfaceOperational i _) = ''interface:'' @ i @ '':operational''"
| "projection_key (InterfaceMss i _) = ''interface:'' @ i @ '':mss''"

text \<open>\<open>upsert\<close> replaces the first state with the key or appends.\<close>

fun upsert :: "device_state list \<Rightarrow> device_state \<Rightarrow> device_state list" where
  "upsert [] s = [s]"
| "upsert (t # ts) s = (if projection_key t = projection_key s then s # ts else t # upsert ts s)"

definition insert_first :: "device_state list \<Rightarrow> device_state \<Rightarrow> device_state list" where
  "insert_first states s =
     (if \<exists>t \<in> set states. projection_key t = projection_key s then states else states @ [s])"

definition state_of :: "device_state list \<Rightarrow> string \<Rightarrow> device_state option" where
  "state_of states k = List.find (\<lambda>s. projection_key s = k) states"

lemma state_of_upsert:
  "state_of (upsert xs x) k = (if k = projection_key x then Some x else state_of xs k)"
  by (induction xs) (auto simp: state_of_def)

lemma state_of_insert_first:
  "state_of (insert_first xs x) k =
   (if k = projection_key x \<and> state_of xs k = None then Some x else state_of xs k)"
  by (auto simp: state_of_def insert_first_def find_append find_None_iff find_None_iff2
           split: option.splits dest: find_SomeD)

interpretation projected: keyed_store projection_key state_of upsert insert_first
  by unfold_locales (simp_all add: state_of_upsert state_of_insert_first, simp add: state_of_def)

subsection \<open>Projecting a set of actions\<close>

record projected_change =
  pc_action_index :: nat
  pc_template_name :: string
  pc_effect :: prepared_effect

record projection_state =
  pj_before :: "device_state list"
  pj_after :: "device_state list"
  pj_revert :: "device_state list"
  pj_changes :: "projected_change list"
  pj_read_at :: int

definition start_projection :: "prepared_action \<Rightarrow> projection_state" where
  "start_projection a =
     \<lparr>pj_before = [], pj_after = [], pj_revert = [], pj_changes = [], pj_read_at = pa_prepared_at a\<rparr>"

definition absorb_action :: "nat \<Rightarrow> prepared_action \<Rightarrow> projection_state \<Rightarrow> projection_state" where
  "absorb_action index a d =
     d\<lparr>pj_before := foldl insert_first (pj_before d) (pa_before a),
       pj_after := foldl upsert (foldl insert_first (pj_after d) (pa_before a)) (pa_after a),
       pj_changes := pj_changes d @ [\<lparr>pc_action_index = index, pc_template_name = pa_template_name a,
                                       pc_effect = pa_effect a\<rparr>],
       pj_read_at := max (pj_read_at d) (pa_prepared_at a)\<rparr>"

definition revert_states :: "prepared_action \<Rightarrow> device_state list" where
  "revert_states a = (case pa_inverse a of Some iv \<Rightarrow> pi_restore iv | None \<Rightarrow> pa_before a)"

type_synonym projections = "(u64 \<times> projection_state) list"

definition absorb_into :: "nat \<times> prepared_action \<Rightarrow> projections \<Rightarrow> projections" where
  "absorb_into ia devices =
     (let (index, a) = ia;
          d = (case map_of devices (pa_device_id a) of Some d \<Rightarrow> d | None \<Rightarrow> start_projection a)
      in bt_insert (pa_device_id a) (absorb_action index a d) devices)"

definition revert_into :: "prepared_action \<Rightarrow> projections \<Rightarrow> projections" where
  "revert_into a devices =
     (case map_of devices (pa_device_id a) of
        None \<Rightarrow> devices
      | Some d \<Rightarrow>
          bt_insert (pa_device_id a)
            (d\<lparr>pj_revert := foldl upsert (pj_revert d) (revert_states a)\<rparr>) devices)"

definition project_states :: "prepared_action list \<Rightarrow> projections" where
  "project_states actions =
     fold revert_into (rev actions) (fold absorb_into (enumerate 0 actions) [])"

definition is_legacy_scope :: "device_state \<Rightarrow> bool" where
  "is_legacy_scope s = (case s of RouteMapAssignment _ _ _ None _ \<Rightarrow> True | _ \<Rightarrow> False)"

subsection \<open>Rendering\<close>

fun show_action :: "permit_deny \<Rightarrow> string" where
  "show_action Permit = ''permit''"
| "show_action Deny = ''deny''"

definition range_suffix :: "u8 option \<Rightarrow> u8 option \<Rightarrow> string" where
  "range_suffix ge le =
     (case ge of None \<Rightarrow> [] | Some v \<Rightarrow> '' ge '' @ show_word v) @
     (case le of None \<Rightarrow> [] | Some v \<Rightarrow> '' le '' @ show_word v)"

definition policy_entry_line :: "string \<Rightarrow> policy_entry \<Rightarrow> string" where
  "policy_entry_line name e =
     ''ip prefix-list '' @ name @ '' seq '' @ show_word (pe_sequence e) @ '' '' @
     show_action (pe_action e) @ '' '' @ pe_prefix e @ range_suffix (pe_ge e) (pe_le e)"

definition snapshot_entry_line :: "string \<Rightarrow> snapshot_entry \<Rightarrow> string" where
  "snapshot_entry_line name e =
     ''ip prefix-list '' @ name @ '' seq '' @ show_word (se_sequence e) @ '' '' @
     (if se_permit e then ''permit'' else ''deny'') @ '' '' @ se_prefix e @
     range_suffix (se_ge e) (se_le e)"

definition route_map_lines :: "named_route_map \<Rightarrow> string list" where
  "route_map_lines m =
     concat (map (\<lambda>cl.
       (''route-map '' @ nm_name m @ '' '' @ show_action (rc_action cl) @ '' '' @
        show_word (rc_sequence cl)) #
       map (\<lambda>t. '' match '' @ pt_value t) (rc_matches cl) @
       map (\<lambda>t. '' set '' @ pt_value t) (rc_sets cl)) (nm_clauses m))"

definition attachment_lines :: "string \<Rightarrow> string option \<Rightarrow> string option \<Rightarrow> string list" where
  "attachment_lines neighbor pl rm =
     (case pl of None \<Rightarrow> [] | Some n \<Rightarrow> [''  neighbor '' @ neighbor @ '' prefix-list '' @ n @ '' out'']) @
     (case rm of None \<Rightarrow> [] | Some n \<Rightarrow> [''  neighbor '' @ neighbor @ '' route-map '' @ n @ '' out''])"

abbreviation nl :: string where "nl \<equiv> [newline]"

definition show_bool :: "bool \<Rightarrow> string" where
  "show_bool b = (if b then ''true'' else ''false'')"

definition render_assignment ::
    "u32 \<Rightarrow> string \<Rightarrow> string \<Rightarrow> string option \<Rightarrow> string option \<Rightarrow> string" where
  "render_assignment local_asn neighbor direction address_family route_map =
     (case address_family of
        Some family \<Rightarrow>
          (let line = (case route_map of
                 Some m \<Rightarrow> ''neighbor '' @ neighbor @ '' route-map '' @ m @ '' '' @ direction
               | None \<Rightarrow> ''! neighbor '' @ neighbor @ '' has no '' @ direction @ '' route-map'')
           in if family = ''default_ipv4''
              then ''router bgp '' @ show_word local_asn @ nl @ '' '' @ line
              else ''router bgp '' @ show_word local_asn @ nl @ '' address-family '' @ family @ nl @
                   ''  '' @ line @ nl @ '' exit-address-family'')
      | None \<Rightarrow>
          (case route_map of
             Some m \<Rightarrow> ''! incomplete scope: router bgp '' @ show_word local_asn @ '', neighbor '' @
                       neighbor @ '' route-map '' @ m @ '' '' @ direction
           | None \<Rightarrow> ''! incomplete scope: router bgp '' @ show_word local_asn @ '', neighbor '' @
                     neighbor @ '' has no '' @ direction @ '' route-map''))"

definition render_static :: "device_state \<Rightarrow> bool \<Rightarrow> string" where
  "render_static s present =
     (let line = unwrap_or ''! invalid static route evidence'' (static_config_line s)
      in if present then line else ''! absent: '' @ line)"

fun render_state :: "device_state \<Rightarrow> string" where
  "render_state (PrefixListState name entries _) = join nl (map (snapshot_entry_line name) entries)"
| "render_state (RouteMapAssignment asn n d af rm) = render_assignment asn n d af rm"
| "render_state (Ipv4StaticRoute p h t present) = render_static (Ipv4StaticRoute p h t present) present"
| "render_state (Ipv6StaticRoute p h t present) = render_static (Ipv6StaticRoute p h t present) present"
| "render_state (NeighborShutdown asn n sd) =
     ''router bgp '' @ show_word asn @ nl @ '' '' @ (if sd then [] else ''no '') @ ''neighbor '' @ n @
     '' shutdown''"
| "render_state (InterfaceAdmin i sd) =
     ''interface '' @ i @ nl @ '' '' @ (if sd then [] else ''no '') @ ''shutdown''"
| "render_state (InterfaceMss i mss) =
     (case mss of
        Some v \<Rightarrow> ''interface '' @ i @ nl @ '' ip tcp adjust-mss '' @ show_word v
      | None \<Rightarrow> ''interface '' @ i @ nl @ '' no ip tcp adjust-mss'')"
| "render_state (BgpAdvertisement n p present _) =
     ''! neighbor '' @ n @ '' '' @ (if present then [] else ''does not '') @ ''advertises '' @ p"
| "render_state (BgpRoute p present _) =
     ''! BGP route '' @ p @ '' '' @ (if present then [] else ''not '') @ ''present''"
| "render_state (RouteResolution p h present) =
     ''! route '' @ p @ '' via '' @ h @ '' '' @ (if present then [] else ''not '') @ ''present''"
| "render_state (BgpNeighborState n sd st) =
     ''! neighbor '' @ n @ '': admin_shutdown='' @ show_bool sd @ '', state='' @
     (case st of Some s \<Rightarrow> s | None \<Rightarrow> ''unknown'')"
| "render_state (InterfaceOperational i down) =
     ''! interface '' @ i @ '': administratively_down='' @ show_bool down"
| "render_state (ExportPolicyAttachment asn n af pl rm pls rms _ _) =
     join nl ([''router bgp '' @ show_word asn, '' address-family '' @ af] @ attachment_lines n pl rm @
       ['' exit-address-family''] @
       concat (map (\<lambda>l. map (policy_entry_line (np_name l)) (np_entries l)) pls) @
       concat (map route_map_lines rms))"

text \<open>Attachments are gathered by autonomous system and address family, their policy objects by
  name; the first definition of a name is kept, and the lines of a family are a \<open>BTreeSet\<close>.\<close>

record gathered =
  ga_sections :: "string list"
  ga_attachments :: "((u32 \<times> string) \<times> string list) list"
  ga_prefix_lists :: "(string \<times> named_prefix_list) list"
  ga_route_maps :: "(string \<times> named_route_map) list"

definition pair_less :: "u32 \<times> string \<Rightarrow> u32 \<times> string \<Rightarrow> bool" where
  "pair_less a b = (fst a < fst b \<or> (fst a = fst b \<and> snd a < snd b))"

fun insert_family ::
    "u32 \<times> string \<Rightarrow> string list \<Rightarrow> ((u32 \<times> string) \<times> string list) list \<Rightarrow>
     ((u32 \<times> string) \<times> string list) list" where
  "insert_family k ls [] = [(k, remdups (sort ls))]"
| "insert_family k ls ((j, old) # m) =
     (if pair_less k j then (k, remdups (sort ls)) # (j, old) # m
      else if k = j then (j, remdups (sort (old @ ls))) # m
      else (j, old) # insert_family k ls m)"

definition keep_first :: "('v \<Rightarrow> string) \<Rightarrow> (string \<times> 'v) list \<Rightarrow> 'v \<Rightarrow> (string \<times> 'v) list" where
  "keep_first name_of m v = (if map_of m (name_of v) = None then bt_insert (name_of v) v m else m)"

fun gather_state :: "gathered \<Rightarrow> device_state \<Rightarrow> gathered" where
  "gather_state g (ExportPolicyAttachment asn n af pl rm pls rms _ _) =
     g\<lparr>ga_attachments := insert_family (asn, af) (attachment_lines n pl rm) (ga_attachments g),
       ga_prefix_lists := foldl (keep_first np_name) (ga_prefix_lists g) pls,
       ga_route_maps := foldl (keep_first nm_name) (ga_route_maps g) rms\<rparr>"
| "gather_state g s = g\<lparr>ga_sections := ga_sections g @ [render_state s]\<rparr>"

definition render_states :: "device_state list \<Rightarrow> string" where
  "render_states states =
     (let g = foldl gather_state
            \<lparr>ga_sections = [], ga_attachments = [], ga_prefix_lists = [], ga_route_maps = []\<rparr> states
      in join nl (ga_sections g @
           map (\<lambda>((asn, af), ls). join nl ([''router bgp '' @ show_word asn, '' address-family '' @ af] @
                  ls @ ['' exit-address-family''])) (ga_attachments g) @
           concat (map (\<lambda>(_, l). map (policy_entry_line (np_name l)) (np_entries l)) (ga_prefix_lists g)) @
           concat (map (\<lambda>(_, m). route_map_lines m) (ga_route_maps g))))"

record device_projection =
  dp_device_id :: u64
  dp_before_config :: string
  dp_after_config :: string
  dp_revert_config :: string
  dp_changes :: "projected_change list"
  dp_completeness :: string
  dp_blockers :: "string list"
  dp_read_at :: int

definition device_projection_of :: "u64 \<times> projection_state \<Rightarrow> device_projection" where
  "device_projection_of ds =
     (let (device_id, st) = ds;
          legacy = list_ex is_legacy_scope (pj_before st @ pj_after st @ pj_revert st)
      in \<lparr>dp_device_id = device_id, dp_before_config = render_states (pj_before st),
          dp_after_config = render_states (pj_after st),
          dp_revert_config = render_states (pj_revert st), dp_changes = pj_changes st,
          dp_completeness = (if legacy then ''incomplete'' else ''complete''),
          dp_blockers = (if legacy
            then [''legacy route-map assignment has no proven address-family scope''] else []),
          dp_read_at = pj_read_at st\<rparr>)"

fun validate_all :: "prepared_action list \<Rightarrow> prepared_error + unit" where
  "validate_all [] = Inr ()"
| "validate_all (a # as) = and_then (validate_prepared a) (\<lambda>_. validate_all as)"

definition project_action_set ::
    "prepared_action list \<Rightarrow> prepared_error + device_projection list" where
  "project_action_set actions =
     and_then (validate_all actions) (\<lambda>_. Inr (map device_projection_of (project_states actions)))"

subsection \<open>What the projection of a device holds\<close>

definition actions_of :: "u64 \<Rightarrow> prepared_action list \<Rightarrow> prepared_action list" where
  "actions_of d actions = filter (\<lambda>a. pa_device_id a = d) actions"

definition first_with :: "string \<Rightarrow> device_state list \<Rightarrow> device_state option" where
  "first_with k states = List.find (\<lambda>s. projection_key s = k) states"

definition last_with :: "string \<Rightarrow> device_state list \<Rightarrow> device_state option" where
  "last_with k states = List.find (\<lambda>s. projection_key s = k) (rev states)"

lemma first_with_append:
  "first_with k (xs @ ys) = (case first_with k xs of Some s \<Rightarrow> Some s | None \<Rightarrow> first_with k ys)"
  by (simp add: first_with_def find_append split: option.splits)

lemma last_with_append:
  "last_with k (xs @ ys) = (case last_with k ys of Some s \<Rightarrow> Some s | None \<Rightarrow> last_with k xs)"
  by (simp add: last_with_def find_append split: option.splits)

lemma state_of_puts:
  "state_of (foldl upsert xs ys) k = (case last_with k ys of Some y \<Rightarrow> Some y | None \<Rightarrow> state_of xs k)"
  "state_of (foldl insert_first xs ys) k = (case state_of xs k of Some x \<Rightarrow> Some x | None \<Rightarrow> first_with k ys)"
  unfolding first_with_def last_with_def
  by (rule projected.look_fold_put, rule projected.look_fold_put_first)

lemma with_Nil [simp]: "first_with k [] = None" "last_with k [] = None"
  by (simp_all add: first_with_def last_with_def)

lemma state_of_Nil [simp]: "state_of [] k = None"
  by (simp add: state_of_def)

definition absorbed :: "prepared_action list \<Rightarrow> u64 \<Rightarrow> projection_state \<Rightarrow> bool" where
  "absorbed actions d st =
     (actions_of d actions \<noteq> [] \<and> pj_revert st = [] \<and>
      (\<forall>k. state_of (pj_before st) k = first_with k (concat (map pa_before (actions_of d actions))) \<and>
           state_of (pj_after st) k =
             (case last_with k (concat (map pa_after (actions_of d actions))) of
                Some s \<Rightarrow> Some s
              | None \<Rightarrow> first_with k (concat (map pa_before (actions_of d actions))))))"

definition absorbs :: "prepared_action list \<Rightarrow> projections \<Rightarrow> bool" where
  "absorbs actions m =
     (bt_ok m \<and> (\<forall>d. case map_of m d of None \<Rightarrow> actions_of d actions = []
                                     | Some st \<Rightarrow> absorbed actions d st))"

lemma absorbed_step:
  assumes "pa_device_id a = d"
    "case x of None \<Rightarrow> actions_of d actions = [] | Some st \<Rightarrow> absorbed actions d st"
  shows "absorbed (actions @ [a]) d
     (absorb_action i a (case x of Some st \<Rightarrow> st | None \<Rightarrow> start_projection a))"
  using assms
  by (auto simp: absorbed_def absorb_action_def actions_of_def start_projection_def state_of_puts
      first_with_append last_with_append split: option.splits)

lemma absorbs_step: "absorbs actions m \<Longrightarrow> absorbs (actions @ [a]) (absorb_into (i, a) m)"
proof -
  assume m: "absorbs actions m"
  then have ok: "bt_ok m" by (simp add: absorbs_def)
  have "case map_of (absorb_into (i, a) m) d of
      None \<Rightarrow> actions_of d (actions @ [a]) = [] | Some st \<Rightarrow> absorbed (actions @ [a]) d st" for d
  proof (cases "pa_device_id a = d")
    case True
    moreover have "case map_of m d of None \<Rightarrow> actions_of d actions = [] | Some st \<Rightarrow> absorbed actions d st"
      using m by (simp add: absorbs_def)
    ultimately show ?thesis
      using absorbed_step [where a = a and d = d and x = "map_of m d" and actions = actions and i = i] ok
      by (simp add: absorb_into_def map_of_bt_insert)
  next
    case False
    then have same: "actions_of d (actions @ [a]) = actions_of d actions"
      by (simp add: actions_of_def)
    moreover have "map_of (absorb_into (i, a) m) d = map_of m d"
      using False ok by (simp add: absorb_into_def map_of_bt_insert)
    moreover have "case map_of m d of None \<Rightarrow> actions_of d actions = [] | Some st \<Rightarrow> absorbed actions d st"
      using m by (simp add: absorbs_def)
    ultimately show ?thesis
      unfolding absorbed_def same by (cases "map_of m d") simp_all
  qed
  with ok show ?thesis by (simp add: absorbs_def absorb_into_def)
qed

lemma absorbs_all: "absorbs actions (fold absorb_into (enumerate 0 actions) [])"
proof (induction actions rule: rev_induct)
  case Nil
  then show ?case by (simp add: absorbs_def actions_of_def)
next
  case (snoc a actions)
  then show ?case by (simp add: enumerate_append_eq absorbs_step)
qed

definition same_but_revert :: "projection_state \<Rightarrow> projection_state \<Rightarrow> bool" where
  "same_but_revert s t =
     (pj_before s = pj_before t \<and> pj_after s = pj_after t \<and> pj_changes s = pj_changes t \<and>
      pj_read_at s = pj_read_at t)"

lemma revert_all:
  "bt_ok m \<Longrightarrow> bt_ok (fold revert_into actions m) \<and>
   (\<forall>d. case map_of m d of
      None \<Rightarrow> map_of (fold revert_into actions m) d = None
    | Some st \<Rightarrow> \<exists>st'. map_of (fold revert_into actions m) d = Some st' \<and> same_but_revert st st' \<and>
        pj_revert st' = foldl upsert (pj_revert st) (concat (map revert_states (actions_of d actions))))"
proof (induction actions arbitrary: m)
  case Nil
  then show ?case by (auto simp: actions_of_def same_but_revert_def split: option.splits)
next
  case (Cons a actions)
  let ?m = "revert_into a m"
  have ok: "bt_ok ?m" using Cons.prems by (simp add: revert_into_def split: option.splits)
  have step: "map_of ?m d = map_option (\<lambda>st. if pa_device_id a = d
      then st\<lparr>pj_revert := foldl upsert (pj_revert st) (revert_states a)\<rparr> else st) (map_of m d)" for d
    using Cons.prems
    by (cases "pa_device_id a = d"; cases "map_of m d")
      (auto simp: revert_into_def map_of_bt_insert split: option.splits)
  have all: "case map_of m d of
      None \<Rightarrow> map_of (fold revert_into actions ?m) d = None
    | Some st \<Rightarrow> \<exists>st'. map_of (fold revert_into actions ?m) d = Some st' \<and> same_but_revert st st' \<and>
        pj_revert st' = foldl upsert (pj_revert st) (concat (map revert_states (actions_of d (a # actions))))"
    for d
    using Cons.IH [OF ok, THEN conjunct2, rule_format, of d] step [of d]
    by (cases "map_of m d") (auto simp: actions_of_def same_but_revert_def)
  show ?case
  proof (intro conjI allI)
    show "bt_ok (fold revert_into (a # actions) m)" using Cons.IH [OF ok] by simp
    fix d
    show "case map_of m d of
        None \<Rightarrow> map_of (fold revert_into (a # actions) m) d = None
      | Some st \<Rightarrow> \<exists>st'. map_of (fold revert_into (a # actions) m) d = Some st' \<and>
          same_but_revert st st' \<and> pj_revert st' =
            foldl upsert (pj_revert st) (concat (map revert_states (actions_of d (a # actions))))"
      using all [of d] by (cases "map_of m d") simp_all
  qed
qed

lemma rev_concat_rev: "rev (concat (map f (rev xs))) = concat (map (\<lambda>x. rev (f x)) xs)"
  by (induction xs) auto

lemma last_with_reverted:
  "last_with k (concat (map revert_states (rev xs))) =
   first_with k (concat (map (\<lambda>a. rev (revert_states a)) xs))"
  by (simp add: last_with_def first_with_def rev_concat_rev)

lemma project_states_lookup:
  "case map_of (project_states actions) d of
     None \<Rightarrow> actions_of d actions = []
   | Some st \<Rightarrow>
       state_of (pj_before st) k = first_with k (concat (map pa_before (actions_of d actions))) \<and>
       state_of (pj_after st) k =
         (case last_with k (concat (map pa_after (actions_of d actions))) of
            Some s \<Rightarrow> Some s
          | None \<Rightarrow> first_with k (concat (map pa_before (actions_of d actions)))) \<and>
       state_of (pj_revert st) k =
         first_with k (concat (map (\<lambda>a. rev (revert_states a)) (actions_of d actions)))"
proof -
  let ?m = "fold absorb_into (enumerate 0 actions) []"
  have abs: "bt_ok ?m" "case map_of ?m d of None \<Rightarrow> actions_of d actions = [] | Some st \<Rightarrow> absorbed actions d st"
    using absorbs_all [of actions] by (simp_all add: absorbs_def)
  have rev: "actions_of d (rev actions) = rev (actions_of d actions)"
    by (simp add: actions_of_def rev_filter)
  show ?thesis
  proof (cases "map_of ?m d")
    case None
    with abs revert_all [OF abs(1), of "rev actions", THEN conjunct2, rule_format, of d]
    show ?thesis by (simp add: project_states_def)
  next
    case (Some st)
    with revert_all [OF abs(1), of "rev actions", THEN conjunct2, rule_format, of d] rev
    obtain st' where st': "map_of (project_states actions) d = Some st'" "same_but_revert st st'"
      "pj_revert st' = foldl upsert (pj_revert st) (concat (map revert_states (rev (actions_of d actions))))"
      by (auto simp: project_states_def)
    have "absorbed actions d st" using abs(2) Some by simp
    with st' show ?thesis
      by (simp add: same_but_revert_def absorbed_def state_of_puts last_with_reverted split: option.splits)
  qed
qed

lemma first_with_rev: "distinct (map projection_key xs) \<Longrightarrow> first_with k (rev xs) = first_with k xs"
proof (induction xs)
  case Nil
  then show ?case by simp
next
  case (Cons x xs)
  then have "first_with k (rev xs) = first_with k xs" by simp
  moreover have "projection_key x = k \<Longrightarrow> first_with k xs = None"
    using Cons.prems by (auto simp: first_with_def find_None_iff) (metis imageI)
  moreover have "first_with k [x] = (if projection_key x = k then Some x else None)"
    "first_with k (x # xs) = (if projection_key x = k then Some x else first_with k xs)"
    by (simp_all add: first_with_def)
  ultimately show ?case by (simp add: first_with_append split: option.splits)
qed

lemma first_with_concat_cong:
  "(\<And>a. a \<in> set as \<Longrightarrow> first_with k (f a) = first_with k (g a)) \<Longrightarrow>
   first_with k (concat (map f as)) = first_with k (concat (map g as))"
  by (induction as) (auto simp: first_with_append split: option.splits)

subsection \<open>Properties\<close>

text \<open>The projection of a device before, after and on reverting the set: per key, the first
  state any of its actions observed; the last state any of them leaves, or the observed one; and
  the state that the earliest of them restores, since reverting runs the actions backwards.\<close>

theorem project_states_spec:
  "case map_of (project_states actions) d of
     None \<Rightarrow> actions_of d actions = []
   | Some st \<Rightarrow>
       state_of (pj_before st) k = first_with k (concat (map pa_before (actions_of d actions))) \<and>
       state_of (pj_after st) k =
         (case last_with k (concat (map pa_after (actions_of d actions))) of
            Some s \<Rightarrow> Some s
          | None \<Rightarrow> first_with k (concat (map pa_before (actions_of d actions)))) \<and>
       state_of (pj_revert st) k =
         first_with k (concat (map (\<lambda>a. rev (revert_states a)) (actions_of d actions)))"
  by (rule project_states_lookup)

text \<open>When every action restores exactly what it observed, reverting the whole set projects
  each device back to the state that was observed before the first action touched it, even where
  several actions change the same object.\<close>

theorem revert_restores_observed:
  assumes "\<forall>a \<in> set (actions_of d actions).
      revert_states a = pa_before a \<and> distinct (map projection_key (pa_before a))"
    and "map_of (project_states actions) d = Some st"
  shows "state_of (pj_revert st) k = state_of (pj_before st) k"
proof -
  have revert: "state_of (pj_revert st) k =
      first_with k (concat (map (\<lambda>a. rev (revert_states a)) (actions_of d actions)))"
    and before: "state_of (pj_before st) k = first_with k (concat (map pa_before (actions_of d actions)))"
    using project_states_lookup [where actions = actions and d = d and k = k] assms(2) by simp_all
  have "first_with k (concat (map (\<lambda>a. rev (revert_states a)) (actions_of d actions))) =
      first_with k (concat (map pa_before (actions_of d actions)))"
    using assms(1) by (intro first_with_concat_cong) (simp add: first_with_rev)
  with revert before show ?thesis by simp
qed

definition sample_action :: "bool \<Rightarrow> bool \<Rightarrow> prepared_action" where
  "sample_action was now =
     \<lparr>pa_schema_version = 1, pa_device_id = 4, pa_template_id = 9, pa_template_name = ''iface_shutdown'',
      pa_canonical_params = JNull, pa_verification_mode = Routing, pa_commands = [''end''],
      pa_before = [InterfaceAdmin ''Gi0/1'' was], pa_after = [InterfaceAdmin ''Gi0/1'' now],
      pa_verify = [InterfaceAdmin ''Gi0/1'' now], pa_effect = ChangeEffect,
      pa_inverse = Some \<lparr>pi_verification_mode = Routing,
        pi_expected_current = [InterfaceAdmin ''Gi0/1'' now], pi_restore = [InterfaceAdmin ''Gi0/1'' was],
        pi_commands = [''end''], pi_verify = [InterfaceAdmin ''Gi0/1'' was]\<rparr>, pa_prepared_at = 0\<rparr>"

lemma revert_restores_observed_witness:
  "\<exists>st. map_of (project_states [sample_action False True, sample_action True False]) 4 = Some st \<and>
     state_of (pj_revert st) ''interface:Gi0/1:admin'' = state_of (pj_before st) ''interface:Gi0/1:admin'' \<and>
     state_of (pj_before st) ''interface:Gi0/1:admin'' = Some (InterfaceAdmin ''Gi0/1'' False)"
proof -
  let ?as = "[sample_action False True, sample_action True False]"
  have "\<exists>st. map_of (project_states ?as) 4 = Some st \<and>
      state_of (pj_before st) ''interface:Gi0/1:admin'' = Some (InterfaceAdmin ''Gi0/1'' False)"
    by (simp add: project_states_def absorb_into_def revert_into_def start_projection_def
        absorb_action_def sample_action_def insert_first_def revert_states_def state_of_def)
  moreover have "\<forall>a \<in> set (actions_of 4 ?as).
      revert_states a = pa_before a \<and> distinct (map projection_key (pa_before a))"
    by (simp add: actions_of_def sample_action_def revert_states_def)
  ultimately show ?thesis using revert_restores_observed [where d = 4 and actions = ?as] by blast
qed

end
