(* ===== verification/Consumers.thy ===== *)
theory Consumers
  imports Device_State Ordered_Map "HOL-Library.Product_Lexorder"
begin

text \<open>
  Who uses a prefix list, from \<open>src/backend-rust/src/ssh/mod.rs\<close>: every neighbor statement,
  route-map clause and unclassified reference that three configuration reads show, and the proof
  that one peer is the only consumer, without which the one-peer templates refuse to edit the list.
\<close>

subsection \<open>Enumeration\<close>

definition in_or_out :: "string \<Rightarrow> bool" where
  "in_or_out d \<longleftrightarrow> d = ''in'' \<or> d = ''out''"

text \<open>\<open>owner prefix-list name direction\<close> behind \<open>neighbor\<close>.\<close>

definition neighbor_use :: "string \<Rightarrow> string list \<Rightarrow> (string \<times> string) option" where
  "neighbor_use lst tokens =
     (case tokens of
        [owner, k, name, d] \<Rightarrow>
          if k = ''prefix-list'' \<and> name = lst \<and> in_or_out d then Some (owner, d) else None
      | _ \<Rightarrow> None)"

definition neighbor_consumer :: "string option \<Rightarrow> string \<times> string \<Rightarrow> list_consumer" where
  "neighbor_consumer family use =
     (let (owner, d) = use in
      \<lparr>pc_kind = (if family \<noteq> None then ''neighbor_address_family''
                  else if parse_ip owner \<noteq> None then ''neighbor'' else ''peer_group''),
       pc_owner = (case family of Some f \<Rightarrow> owner @ ''@'' @ f | None \<Rightarrow> owner),
       pc_direction = d\<rparr>)"

fun bgp_consumers :: "string \<Rightarrow> string option \<Rightarrow> string list \<Rightarrow> list_consumer list" where
  "bgp_consumers lst family [] = []"
| "bgp_consumers lst family (line # rest) =
     (let t = trim line in
      case strip_prefix ''address-family '' t of
        Some f \<Rightarrow> bgp_consumers lst (Some f) rest
      | None \<Rightarrow>
          if t = ''exit-address-family'' \<or> starts_with ''router bgp '' t then bgp_consumers lst None rest
          else (case strip_prefix ''neighbor '' t of
                  None \<Rightarrow> bgp_consumers lst family rest
                | Some r \<Rightarrow>
                    (case neighbor_use lst (split_whitespace r) of
                       None \<Rightarrow> bgp_consumers lst family rest
                     | Some use \<Rightarrow> neighbor_consumer family use # bgp_consumers lst family rest)))"

definition first_token :: "string \<Rightarrow> string option" where
  "first_token s = (case split_whitespace s of [] \<Rightarrow> None | w # _ \<Rightarrow> Some w)"

fun map_consumers :: "string \<Rightarrow> string option \<Rightarrow> string list \<Rightarrow> list_consumer list" where
  "map_consumers lst current [] = []"
| "map_consumers lst current (line # rest) =
     (let t = trim line in
      case strip_prefix ''route-map '' t of
        Some r \<Rightarrow> map_consumers lst (first_token r) rest
      | None \<Rightarrow>
          (case strip_prefix ''match ip address prefix-list '' t of
             None \<Rightarrow> map_consumers lst current rest
           | Some r \<Rightarrow>
               if lst \<in> set (split_whitespace r)
               then \<lparr>pc_kind = ''route_map'',
                     pc_owner = (case current of Some m \<Rightarrow> m | None \<Rightarrow> ''<unclassified>''),
                     pc_direction = ''unknown''\<rparr> # map_consumers lst current rest
               else map_consumers lst current rest))"

definition known_reference :: "string \<Rightarrow> string list \<Rightarrow> bool" where
  "known_reference lst tokens =
     ((case tokens of a # b # name # _ \<Rightarrow> a = ''ip'' \<and> b = ''prefix-list'' \<and> name = lst | _ \<Rightarrow> False) \<or>
      (case tokens of
         [a, _, b, name, d] \<Rightarrow> a = ''neighbor'' \<and> b = ''prefix-list'' \<and> name = lst \<and> in_or_out d
       | _ \<Rightarrow> False) \<or>
      (case tokens of
         a # b # c # d # names \<Rightarrow>
           a = ''match'' \<and> b = ''ip'' \<and> c = ''address'' \<and> d = ''prefix-list'' \<and> lst \<in> set names
       | _ \<Rightarrow> False))"

definition unclassified_consumers :: "string \<Rightarrow> string list \<Rightarrow> list_consumer list" where
  "unclassified_consumers lst ls =
     List.map_filter (\<lambda>line. let tokens = split_whitespace (trim line) in
       if lst \<in> set tokens \<and> \<not> known_reference lst tokens
       then Some \<lparr>pc_kind = ''unclassified'', pc_owner = ''<redacted unclassified reference>'',
                  pc_direction = ''unknown''\<rparr>
       else None) ls"

definition prefix_list_consumers :: "string \<Rightarrow> string \<Rightarrow> string \<Rightarrow> string \<Rightarrow> list_consumer list" where
  "prefix_list_consumers bgp_config route_map_config full_config lst =
     remdups_adj (sort_key (\<lambda>c. (pc_kind c, pc_owner c, pc_direction c))
       (bgp_consumers lst None (lines bgp_config) @ map_consumers lst None (lines route_map_config) @
        unclassified_consumers lst (lines full_config)))"

subsection \<open>One peer only\<close>

definition ensure_exclusive_prefix_list_consumer ::
    "string \<Rightarrow> string \<Rightarrow> string \<Rightarrow> string \<Rightarrow> string \<Rightarrow> list_consumer list + list_consumer list" where
  "ensure_exclusive_prefix_list_consumer bgp_config route_map_config full_config lst peer =
     (let consumers = prefix_list_consumers bgp_config route_map_config full_config lst in
      case consumers of
        [c] \<Rightarrow> if pc_kind c = ''neighbor'' \<and> pc_owner c = peer \<and> pc_direction c = ''out''
               then Inr consumers else Inl consumers
      | _ \<Rightarrow> Inl consumers)"

subsection \<open>Properties\<close>

lemma set_consumers:
  "set (prefix_list_consumers bgp rm full lst) =
     set (bgp_consumers lst None (lines bgp)) \<union> set (map_consumers lst None (lines rm)) \<union>
     set (unclassified_consumers lst (lines full))"
  by (simp add: prefix_list_consumers_def Un_assoc)

lemma exclusive_Inr:
  "ensure_exclusive_prefix_list_consumer bgp rm full lst peer = Inr cs \<longleftrightarrow>
     cs = [\<lparr>pc_kind = ''neighbor'', pc_owner = peer, pc_direction = ''out''\<rparr>] \<and>
     cs = prefix_list_consumers bgp rm full lst"
  by (auto simp: ensure_exclusive_prefix_list_consumer_def Let_def split: list.splits if_splits)

lemma neighbor_use_Some:
  "neighbor_use lst tokens = Some (owner, d) \<longleftrightarrow> tokens = [owner, ''prefix-list'', lst, d] \<and> in_or_out d"
  by (auto simp: neighbor_use_def split: list.splits if_splits)

lemma bgp_consumers_complete:
  "line \<in> set ls \<Longrightarrow> strip_prefix ''neighbor '' (trim line) = Some r \<Longrightarrow>
   neighbor_use lst (split_whitespace r) = Some use \<Longrightarrow>
   \<exists>f. neighbor_consumer f use \<in> set (bgp_consumers lst family ls)"
proof (induction ls arbitrary: family)
  case (Cons l ls)
  show ?case
  proof (cases "line = l")
    case True
    have "strip_prefix ''address-family '' (trim l) = None" "trim l \<noteq> ''exit-address-family''"
      "\<not> starts_with ''router bgp '' (trim l)"
      using Cons.prems(2) True by (auto simp: strip_prefix_Some starts_with_iff)
    with True Cons.prems(2,3) show ?thesis by (auto simp: Let_def)
  next
    case False
    with Cons.prems(1) have "line \<in> set ls" by simp
    from Cons.IH [OF this Cons.prems(2,3)] show ?thesis
      by (auto simp: Let_def split: option.splits)
  qed
qed simp

lemma map_consumers_complete:
  "line \<in> set ls \<Longrightarrow> strip_prefix ''match ip address prefix-list '' (trim line) = Some r \<Longrightarrow>
   lst \<in> set (split_whitespace r) \<Longrightarrow>
   \<exists>c \<in> set (map_consumers lst current ls). pc_kind c = ''route_map''"
proof (induction ls arbitrary: current)
  case (Cons l ls)
  show ?case
  proof (cases "line = l")
    case True
    have "strip_prefix ''route-map '' (trim l) = None"
      using Cons.prems(2) True by (auto simp: strip_prefix_Some)
    with True Cons.prems(2,3) show ?thesis by (auto simp: Let_def)
  next
    case False
    with Cons.prems(1) have "line \<in> set ls" by simp
    from Cons.IH [OF this Cons.prems(2,3)] show ?thesis
      by (fastforce simp: Let_def split: option.splits)
  qed
qed simp

lemma unclassified_complete:
  "line \<in> set ls \<Longrightarrow> lst \<in> set (split_whitespace (trim line)) \<Longrightarrow>
   \<not> known_reference lst (split_whitespace (trim line)) \<Longrightarrow>
   \<exists>c \<in> set (unclassified_consumers lst ls). pc_kind c = ''unclassified''"
  by (induction ls) (auto simp: unclassified_consumers_def Let_def List.map_filter_simps split: if_splits)

lemma neighbor_kind: "pc_kind (neighbor_consumer f (owner, d)) = ''neighbor'' \<Longrightarrow> f = None"
  by (auto simp: neighbor_consumer_def split: if_splits)

text \<open>C37: when a prefix list is accepted as exclusive to one peer, every neighbor statement of the
  BGP configuration that applies it is this peer's, outbound; no route-map clause matches on it; and
  every line of the running configuration that names it is a definition of it, a neighbor
  statement or a route-map match, so no other feature is affected by editing it.\<close>

theorem exclusive_consumer_sound:
  assumes "ensure_exclusive_prefix_list_consumer bgp rm full lst peer = Inr cs"
  shows "(\<forall>line \<in> set (lines bgp). \<forall>owner d.
        Option.bind (strip_prefix ''neighbor '' (trim line)) (\<lambda>r. neighbor_use lst (split_whitespace r))
          = Some (owner, d) \<longrightarrow> owner = peer \<and> d = ''out'') \<and>
     (\<forall>line \<in> set (lines rm). \<forall>r. strip_prefix ''match ip address prefix-list '' (trim line) = Some r \<longrightarrow>
        lst \<notin> set (split_whitespace r)) \<and>
     (\<forall>line \<in> set (lines full). lst \<in> set (split_whitespace (trim line)) \<longrightarrow>
        known_reference lst (split_whitespace (trim line)))"
proof -
  let ?c = "\<lparr>pc_kind = ''neighbor'', pc_owner = peer, pc_direction = ''out''\<rparr>"
  from assms have "prefix_list_consumers bgp rm full lst = [?c]" unfolding exclusive_Inr by metis
  then have all: "c = ?c" if "c \<in> set (bgp_consumers lst None (lines bgp)) \<union>
      set (map_consumers lst None (lines rm)) \<union> set (unclassified_consumers lst (lines full))" for c
    using that unfolding set_consumers [symmetric] by simp
  have "owner = peer \<and> d = ''out''" if "line \<in> set (lines bgp)"
    "strip_prefix ''neighbor '' (trim line) = Some r" "neighbor_use lst (split_whitespace r) = Some (owner, d)"
    for line r owner d
  proof -
    from bgp_consumers_complete [OF that] all obtain f where f: "neighbor_consumer f (owner, d) = ?c"
      by blast
    with neighbor_kind have "f = None" by (metis list_consumer.select_convs(1))
    with f show ?thesis by (simp add: neighbor_consumer_def)
  qed
  moreover have "lst \<notin> set (split_whitespace r)" if "line \<in> set (lines rm)"
    "strip_prefix ''match ip address prefix-list '' (trim line) = Some r" for line r
    using map_consumers_complete [OF that, of lst None] all by fastforce
  moreover have "known_reference lst (split_whitespace (trim line))" if "line \<in> set (lines full)"
    "lst \<in> set (split_whitespace (trim line))" for line
    using unclassified_complete [OF that] all by fastforce
  ultimately show ?thesis by (auto simp: bind_eq_Some_conv)
qed

lemma exclusive_consumer_sound_witness:
  "known_reference ''L'' (split_whitespace (trim ''ip prefix-list L seq 5 permit 10.0.0.0/8'')) \<and>
   (\<exists>owner d. Option.bind (strip_prefix ''neighbor '' (trim ''neighbor 10.0.0.1 prefix-list L out''))
        (\<lambda>r. neighbor_use ''L'' (split_whitespace r)) = Some (owner, d) \<and> owner = ''10.0.0.1'' \<and> d = ''out'')"
proof -
  have "ensure_exclusive_prefix_list_consumer ''neighbor 10.0.0.1 prefix-list L out'' ''route-map M permit 10''
      ''ip prefix-list L seq 5 permit 10.0.0.0/8'' ''L'' ''10.0.0.1'' =
    Inr [\<lparr>pc_kind = ''neighbor'', pc_owner = ''10.0.0.1'', pc_direction = ''out''\<rparr>]"
    by code_simp
  note sound = exclusive_consumer_sound [OF this]
  have l: "''neighbor 10.0.0.1 prefix-list L out'' \<in> set (lines ''neighbor 10.0.0.1 prefix-list L out'')"
    "''ip prefix-list L seq 5 permit 10.0.0.0/8'' \<in> set (lines ''ip prefix-list L seq 5 permit 10.0.0.0/8'')"
    by code_simp+
  have u: "Option.bind (strip_prefix ''neighbor '' (trim ''neighbor 10.0.0.1 prefix-list L out''))
      (\<lambda>r. neighbor_use ''L'' (split_whitespace r)) = Some (''10.0.0.1'', ''out'')"
    "''L'' \<in> set (split_whitespace (trim ''ip prefix-list L seq 5 permit 10.0.0.0/8''))"
    by code_simp+
  from sound l u show ?thesis by blast
qed

end
