(* ===== verification/Redaction.thy ===== *)
theory Redaction
  imports Rust_Text
begin

text \<open>
  Secret redaction of raw device output, from \<open>src/backend-rust/src/ssh/mod.rs\<close>: everything
  that leaves the SSH module as device text passes \<open>redact_device_output\<close> first. A line is
  rewritten only when one of its tokens is masked; a \<open>key-string\<close> opens a block in which every
  indented line is masked.
\<close>

subsection \<open>Keywords\<close>

definition REDACTED :: string where
  "REDACTED = ''<redacted>''"

definition SECRET_REST_OF_LINE :: "string list" where
  "SECRET_REST_OF_LINE = [''password'', ''secret'', ''key-string'', ''md5'', ''pre-shared-key'',
     ''passphrase'', ''psk'']"

definition SECRET_ONE_TOKEN :: "string list" where
  "SECRET_ONE_TOKEN = [''community'']"

definition KEY_NOT_SECRET_NEXT :: "string list" where
  "KEY_NOT_SECRET_NEXT = [''chain'', ''generate'', ''zeroize'', ''config-key'', ''pubkey-chain'']"

definition is_encryption_type :: "string \<Rightarrow> bool" where
  "is_encryption_type tok = (length tok = 1 \<and> list_all is_digit tok)"

definition rest_of_line_is_secret :: "string \<Rightarrow> string list \<Rightarrow> bool" where
  "rest_of_line_is_secret tok rest =
     (tok \<in> set SECRET_REST_OF_LINE \<or>
      tok = ''key'' \<and> (case rest of [] \<Rightarrow> False | n # _ \<Rightarrow> n \<notin> set KEY_NOT_SECRET_NEXT))"

subsection \<open>One line\<close>

text \<open>The value after a keyword that hides the rest of the line: an encryption type is kept.\<close>

definition mask_value :: "string list \<Rightarrow> string list \<times> bool" where
  "mask_value rest =
     (let (kept, left) = (case rest of
            ty # more \<Rightarrow> if is_encryption_type ty then ([ty], more) else ([], rest)
          | [] \<Rightarrow> ([], []))
      in if left \<noteq> [] then (kept @ [REDACTED], True) else (kept, False))"

text \<open>The token loop: the tokens kept, whether one was masked, and whether a \<open>key-string\<close> was
  seen.\<close>

fun mask_tokens :: "string list \<Rightarrow> string list \<times> bool \<times> bool" where
  "mask_tokens [] = ([], False, False)"
| "mask_tokens (tok # rest) =
     (if rest_of_line_is_secret tok rest
      then (let (kept, masked) = mask_value rest in (tok # kept, masked, tok = ''key-string''))
      else if tok \<in> set SECRET_ONE_TOKEN \<and> rest \<noteq> []
      then (let (kept, _, block) = mask_tokens (tl rest) in (tok # REDACTED # kept, True, block))
      else (let (kept, masked, block) = mask_tokens rest in (tok # kept, masked, block)))"

definition indent_of :: "string \<Rightarrow> string" where
  "indent_of line = take (length line - length (trim_start line)) line"

definition redact_tokens :: "string \<Rightarrow> string \<times> bool" where
  "redact_tokens line =
     (let (kept, masked, block) = mask_tokens (split_whitespace (trim line))
      in (if masked then indent_of line @ join '' '' kept else line, block))"

definition block_end :: "string \<Rightarrow> bool" where
  "block_end trimmed \<longleftrightarrow> trimmed \<in> {''exit'', ''quit'', ''!'', ''end''}"

definition redact_line :: "string \<Rightarrow> bool \<Rightarrow> string \<times> bool" where
  "redact_line line in_key_block =
     (let trimmed = trim line; indent = indent_of line in
      if in_key_block then
        (if block_end trimmed then (line, False)
         else if trimmed \<noteq> [] \<and> indent = [] then redact_tokens line
         else if trimmed = [] then (line, True)
         else (indent @ REDACTED, True))
      else redact_tokens line)"

subsection \<open>Whole outputs\<close>

fun redact_lines :: "bool \<Rightarrow> string list \<Rightarrow> string list" where
  "redact_lines block [] = []"
| "redact_lines block (line # rest) =
     (let (out, block') = redact_line line block in out # redact_lines block' rest)"

definition redact_device_output :: "string \<Rightarrow> string" where
  "redact_device_output text = join [newline] (redact_lines False (split_char newline text))"

record command_result =
  cr_command :: string
  cr_output :: string

definition redact_results :: "command_result list \<Rightarrow> command_result list" where
  "redact_results = map (\<lambda>r. r\<lparr>cr_output := redact_device_output (cr_output r)\<rparr>)"

definition diagnostic_excerpt :: "string \<Rightarrow> string" where
  "diagnostic_excerpt text =
     (let shown = rev (take 8 (rev (lines (redact_device_output text))));
          joined = join [newline] shown
      in drop (length joined - 1024) joined)"

subsection \<open>The token loop\<close>

lemma keyword_facts [simp]:
  "REDACTED \<notin> set KEY_NOT_SECRET_NEXT" "\<not> is_encryption_type REDACTED"
  "tok \<in> set SECRET_ONE_TOKEN \<Longrightarrow> \<not> rest_of_line_is_secret tok rest"
  by (auto simp: REDACTED_def KEY_NOT_SECRET_NEXT_def is_encryption_type_def SECRET_ONE_TOKEN_def
      rest_of_line_is_secret_def SECRET_REST_OF_LINE_def)

lemma mask_value_cases:
  assumes "mask_value rest = (kept, masked)"
  obtains "\<not> masked" "kept = rest" "rest = [] \<or> (\<exists>ty. is_encryption_type ty \<and> rest = [ty])"
    | "masked" "kept = [REDACTED]" "rest \<noteq> []" "\<not> is_encryption_type (hd rest)"
    | ty where "masked" "is_encryption_type ty" "kept = [ty, REDACTED]" "hd rest = ty" "rest \<noteq> []"
  using assms by (cases rest) (auto simp: mask_value_def Let_def split: if_splits)

lemma mask_value_again:
  "mask_value rest = (kept, masked) \<Longrightarrow> mask_value kept = (kept, masked)"
  by (erule mask_value_cases) (auto simp: mask_value_def split: list.splits)

lemma secret_after_masking:
  assumes "rest_of_line_is_secret tok rest" "mask_value rest = (kept, masked)"
  shows "rest_of_line_is_secret tok kept"
  using assms(2)
  by (rule mask_value_cases)
    (use assms(1) in \<open>auto simp: rest_of_line_is_secret_def split: list.splits\<close>)

lemma mask_tokens_head:
  "mask_tokens toks = (kept, masked, block) \<Longrightarrow> (kept = [] \<longleftrightarrow> toks = []) \<and> (toks \<noteq> [] \<longrightarrow> hd kept = hd toks)"
  by (cases toks) (auto simp: Let_def split: if_splits prod.splits)

lemma secret_same_head:
  "(kept = [] \<longleftrightarrow> rest = []) \<Longrightarrow> (rest \<noteq> [] \<longrightarrow> hd kept = hd rest) \<Longrightarrow>
   rest_of_line_is_secret tok kept = rest_of_line_is_secret tok rest"
  by (cases kept; cases rest) (auto simp: rest_of_line_is_secret_def)

lemma mask_tokens_again:
  "mask_tokens toks = (kept, masked, block) \<Longrightarrow>
   mask_tokens kept = (kept, masked, block) \<and> (\<not> masked \<longrightarrow> kept = toks)"
proof (induction toks arbitrary: kept masked block rule: mask_tokens.induct)
  case (2 tok rest)
  consider (secret) "rest_of_line_is_secret tok rest"
    | (one) "\<not> rest_of_line_is_secret tok rest" "tok \<in> set SECRET_ONE_TOKEN" "rest \<noteq> []"
    | (plain) "\<not> rest_of_line_is_secret tok rest" "\<not> (tok \<in> set SECRET_ONE_TOKEN \<and> rest \<noteq> [])"
    by blast
  then show ?case
  proof cases
    case secret
    obtain k m where v: "mask_value rest = (k, m)" by fastforce
    with secret "2.prems" have k: "kept = tok # k" "masked = m" "block = (tok = ''key-string'')" by auto
    from v have "\<not> m \<longrightarrow> k = rest" by (auto elim: mask_value_cases)
    with k secret_after_masking [OF secret v] mask_value_again [OF v]
    show ?thesis by auto
  next
    case one
    obtain k m b where r: "mask_tokens (tl rest) = (k, m, b)" by (cases "mask_tokens (tl rest)")
    with one "2.prems" have k: "kept = tok # REDACTED # k" "masked" "block = b" by auto
    from "2.IH"(1) [OF one(1) _ r] one(2,3) have "mask_tokens k = (k, m, b)" by auto
    with k one show ?thesis by auto
  next
    case plain
    obtain k m b where r: "mask_tokens rest = (k, m, b)" by (cases "mask_tokens rest")
    with plain "2.prems" have k: "kept = tok # k" "masked = m" "block = b" by auto
    have h: "(k = [] \<longleftrightarrow> rest = [])" "(rest \<noteq> [] \<longrightarrow> hd k = hd rest)"
      using mask_tokens_head [OF r] by auto
    have "mask_tokens k = (k, m, b) \<and> (\<not> m \<longrightarrow> k = rest)"
      using "2.IH"(2) [OF plain r] by simp
    with k plain h secret_same_head [OF h, of tok] show ?thesis by auto
  qed
qed simp

lemma mask_tokens_tokens:
  "mask_tokens toks = (kept, masked, block) \<Longrightarrow> \<forall>t \<in> set toks. is_token t \<Longrightarrow> t \<in> set kept \<Longrightarrow> is_token t"
proof (induction toks arbitrary: kept masked block rule: mask_tokens.induct)
  case (2 tok rest)
  have R: "is_token REDACTED" by (simp add: REDACTED_def is_token_def text_eval)
  consider (secret) "rest_of_line_is_secret tok rest"
    | (one) "\<not> rest_of_line_is_secret tok rest" "tok \<in> set SECRET_ONE_TOKEN" "rest \<noteq> []"
    | (plain) "\<not> rest_of_line_is_secret tok rest" "\<not> (tok \<in> set SECRET_ONE_TOKEN \<and> rest \<noteq> [])"
    by blast
  then show ?case
  proof cases
    case secret
    then obtain k m where v: "mask_value rest = (k, m)" "kept = tok # k"
      using "2.prems"(1) by (auto split: prod.splits)
    from v(1) have "set k \<subseteq> insert REDACTED (set rest)"
      by (rule mask_value_cases) (auto intro: list.set_sel)
    with v(2) R "2.prems"(2,3) show ?thesis by auto
  next
    case one
    obtain k m b where r: "mask_tokens (tl rest) = (k, m, b)" by (cases "mask_tokens (tl rest)")
    with one "2.prems" have k: "kept = tok # REDACTED # k" by auto
    have "set (tl rest) \<subseteq> set rest" by (cases rest) auto
    with "2.IH"(1) [OF one(1) _ r] one "2.prems"(2,3) k R show ?thesis by auto
  next
    case plain
    obtain k m b where r: "mask_tokens rest = (k, m, b)" by (cases "mask_tokens rest")
    with plain "2.prems" have k: "kept = tok # k" by auto
    with "2.IH"(2) [OF plain r] "2.prems"(2,3) show ?thesis by auto
  qed
qed simp

subsection \<open>Lines\<close>

lemma indent_of_takeWhile: "indent_of line = takeWhile is_ws line"
proof -
  have "line = takeWhile is_ws line @ dropWhile is_ws line" by simp
  then have "length line - length (dropWhile is_ws line) = length (takeWhile is_ws line)"
    by (metis add_diff_cancel_right' length_append)
  then show ?thesis
    unfolding indent_of_def trim_start_def by (simp add: takeWhile_eq_take [symmetric])
qed

lemma indent_ws: "c \<in> set (indent_of line) \<Longrightarrow> is_ws c"
  unfolding indent_of_takeWhile by (drule set_takeWhileD) simp

lemma trim_indent: "\<forall>c \<in> set w. is_ws c \<Longrightarrow> trim (w @ x) = trim x"
  by (simp add: trim_def trim_start_def)

lemma indent_of_append: "\<forall>c \<in> set w. is_ws c \<Longrightarrow> x \<noteq> [] \<Longrightarrow> \<not> is_ws (hd x) \<Longrightarrow> indent_of (w @ x) = w"
  by (cases x) (simp_all add: indent_of_takeWhile)

lemma join_ends:
  "ts \<noteq> [] \<Longrightarrow> \<forall>t \<in> set ts. is_token t \<Longrightarrow>
   join '' '' ts \<noteq> [] \<and> \<not> is_ws (hd (join '' '' ts)) \<and> \<not> is_ws (last (join '' '' ts))"
proof (induction ts rule: join.induct [of _ "'' ''", case_names Nil One More])
  case (More x y xs)
  then show ?case by (auto simp: is_token_def)
qed (auto simp: is_token_def)

lemma trim_join:
  "ts \<noteq> [] \<Longrightarrow> \<forall>t \<in> set ts. is_token t \<Longrightarrow> trim (join '' '' ts) = join '' '' ts"
  using join_ends by (auto intro: trim_id)

text \<open>A line built from an indent and tokens is read back as this indent and these tokens.\<close>

lemma rebuilt_line:
  assumes "ts \<noteq> []" "\<forall>t \<in> set ts. is_token t" "\<forall>c \<in> set w. is_ws c"
  shows "indent_of (w @ join '' '' ts) = w" "split_whitespace (trim (w @ join '' '' ts)) = ts"
    "trim (w @ join '' '' ts) = join '' '' ts"
  using assms join_ends [OF assms(1,2)]
  by (simp_all add: indent_of_append trim_indent trim_join split_whitespace_join)

lemma set_join: "set (join sep ts) \<subseteq> set sep \<union> \<Union> (set ` set ts)"
  by (induction sep ts rule: join.induct) auto

lemma newline_not_token: "is_token t \<Longrightarrow> newline \<notin> set t"
  by (auto simp: is_token_def newline_def text_eval)

lemma terminator_words:
  "split_whitespace ''exit'' = [''exit'']" "split_whitespace ''quit'' = [''quit'']"
  "split_whitespace ''!'' = [''!'']" "split_whitespace ''end'' = [''end'']"
  by code_simp+

lemma block_end_cases: "block_end t \<longleftrightarrow> t = ''exit'' \<or> t = ''quit'' \<or> t = ''!'' \<or> t = ''end''"
  by (simp add: block_end_def)

lemma block_end_words: "block_end t \<Longrightarrow> split_whitespace t = [t]"
  unfolding block_end_cases using terminator_words by metis

lemma terminators_unmasked:
  "mask_tokens [''exit''] = ([''exit''], False, False)" "mask_tokens [''quit''] = ([''quit''], False, False)"
  "mask_tokens [''!''] = ([''!''], False, False)" "mask_tokens [''end''] = ([''end''], False, False)"
  by code_simp+

lemma block_end_unmasked:
  assumes "block_end t"
  shows "mask_tokens (split_whitespace t) = ([t], False, False)"
proof -
  from assms show ?thesis unfolding block_end_words [OF assms] block_end_cases using terminators_unmasked by metis
qed

lemma redact_tokens_again:
  assumes "redact_tokens line = (out, block)"
  shows "redact_tokens out = (out, block) \<and>
     block = snd (snd (mask_tokens (split_whitespace (trim out)))) \<and> indent_of out = indent_of line \<and>
     (trim out = [] \<longleftrightarrow> trim line = []) \<and> (block_end (trim out) \<longleftrightarrow> block_end (trim line)) \<and> (newline \<notin> set line \<longrightarrow> newline \<notin> set out)"
proof -
  obtain kept masked where m: "mask_tokens (split_whitespace (trim line)) = (kept, masked, block)"
    and out: "out = (if masked then indent_of line @ join '' '' kept else line)"
    using assms by (auto simp: redact_tokens_def Let_def split: prod.splits)
  have again: "mask_tokens kept = (kept, masked, block)"
    "\<not> masked \<Longrightarrow> kept = split_whitespace (trim line)"
    using mask_tokens_again [OF m] by auto
  have toks: "\<forall>t \<in> set kept. is_token t"
    using mask_tokens_tokens [OF m] split_whitespace_tokens by blast
  show ?thesis
  proof (cases masked)
    case False
    with out again m show ?thesis by (simp add: assms)
  next
    case True
    have ne: "kept \<noteq> []" using True again(1) by auto
    with mask_tokens_head [OF m] have "trim line \<noteq> []" by (auto simp: split_whitespace_def)
    moreover have "newline \<notin> set (join '' '' kept)"
      using set_join [of "'' ''" kept] toks newline_not_token by (fastforce simp: newline_def)
    moreover have "newline \<notin> set line \<longrightarrow> newline \<notin> set (indent_of line)"
      by (auto simp: indent_of_takeWhile dest: set_takeWhileD)
    moreover have "\<not> block_end (trim line)" using block_end_unmasked m True by fastforce
    moreover have "\<not> block_end (join '' '' kept)"
      using block_end_unmasked again(1) True toks by (fastforce simp: split_whitespace_join)
    ultimately show ?thesis
      using rebuilt_line [OF ne toks, of "indent_of line"] indent_ws [of _ line] True again join_ends [OF ne toks]
      by (auto simp: out redact_tokens_def)
  qed
qed

lemma redacted_line: "\<forall>c \<in> set w. is_ws c \<Longrightarrow> trim (w @ REDACTED) = REDACTED \<and> indent_of (w @ REDACTED) = w"
proof -
  have "is_token REDACTED" by (simp add: REDACTED_def is_token_def text_eval)
  then show "\<forall>c \<in> set w. is_ws c \<Longrightarrow> trim (w @ REDACTED) = REDACTED \<and> indent_of (w @ REDACTED) = w"
    using rebuilt_line [of "[REDACTED]" w] by simp
qed

lemma not_block_end_REDACTED [simp]: "\<not> block_end REDACTED" "REDACTED \<noteq> []"
  by (simp_all add: block_end_def REDACTED_def)

lemma redact_line_cases:
  assumes "redact_line line block = (out, block')"
  obtains (ended) "block" "block_end (trim line)" "out = line" "\<not> block'"
    | (tokens) "redact_tokens line = (out, block')"
        "block \<Longrightarrow> \<not> block_end (trim line) \<and> trim line \<noteq> [] \<and> indent_of line = []"
    | (blank) "block" "trim line = []" "out = line" "block'"
    | (hidden) "block" "\<not> block_end (trim line)" "trim line \<noteq> []" "indent_of line \<noteq> []"
        "out = indent_of line @ REDACTED" "block'"
proof (cases block)
  case False
  with assms show ?thesis by (intro that(2)) (simp_all add: redact_line_def)
next
  case block: True
  show ?thesis
  proof (cases "block_end (trim line)")
    case True
    with block assms show ?thesis by (intro that(1)) (simp_all add: redact_line_def)
  next
    case going: False
    consider "trim line = []" | "trim line \<noteq> []" "indent_of line = []"
      | "trim line \<noteq> []" "indent_of line \<noteq> []" by blast
    then show ?thesis
    proof cases
      case 1
      with block going assms show ?thesis by (intro that(3)) (simp_all add: redact_line_def Let_def)
    next
      case 2
      with block going assms show ?thesis by (intro that(2)) (simp_all add: redact_line_def Let_def)
    next
      case 3
      with block going assms show ?thesis by (intro that(4)) (simp_all add: redact_line_def Let_def)
    qed
  qed
qed

lemma redact_line_again:
  assumes "redact_line line block = (out, block')"
  shows "redact_line out block = (out, block') \<and>
     (newline \<notin> set line \<longrightarrow> newline \<notin> set out)"
  using assms
proof (cases rule: redact_line_cases)
  case ended
  then show ?thesis by (simp add: redact_line_def)
next
  case tokens
  from redact_tokens_again [OF tokens(1)] tokens(2) show ?thesis
    by (auto simp: redact_line_def Let_def)
next
  case blank
  then show ?thesis by (simp add: redact_line_def Let_def block_end_def)
next
  case hidden
  have "newline \<notin> set REDACTED" by (simp add: REDACTED_def newline_def)
  moreover have "newline \<notin> set line \<longrightarrow> newline \<notin> set (indent_of line)"
    by (auto simp: indent_of_takeWhile dest: set_takeWhileD)
  ultimately show ?thesis
    using hidden redacted_line [of "indent_of line"] indent_ws [of _ line]
    by (simp add: redact_line_def Let_def)
qed

subsection \<open>Outputs\<close>

lemma redact_lines_again:
  "redact_lines block (redact_lines block ls) = redact_lines block ls \<and>
   length (redact_lines block ls) = length ls \<and>
   ((\<forall>l \<in> set ls. newline \<notin> set l) \<longrightarrow> (\<forall>l \<in> set (redact_lines block ls). newline \<notin> set l))"
  by (induction ls arbitrary: block) (auto simp: Let_def split: prod.splits dest: redact_line_again)

lemma split_char_lines: "l \<in> set (split_char d s) \<Longrightarrow> d \<notin> set l"
proof (induction d s rule: split_char.induct)
  case (1 d s)
  then show ?case
    by (cases "split_once d s")
      (auto simp: split_char.simps [of d s] split_once_None split_once_Some split: if_splits)
qed

lemma split_char_nonempty [simp]: "split_char d s \<noteq> []"
  by (simp add: split_char.simps [of d s] split: option.split prod.split)

lemma split_char_join:
  "ls \<noteq> [] \<Longrightarrow> \<forall>l \<in> set ls. d \<notin> set l \<Longrightarrow> split_char d (join [d] ls) = ls"
proof (induction "[d]" ls rule: join.induct)
  case (2 x)
  then have "split_once d x = None" by (simp add: split_once_None)
  then show ?case by (simp add: split_char.simps [of d x])
next
  case (3 x y xs)
  then have "split_once d (join [d] (x # y # xs)) = Some (x, join [d] (y # xs))"
    by (simp add: split_once_append)
  with 3 show ?case by (simp add: split_char.simps [of d "x @ d # join [d] (y # xs)"])
qed simp

lemma redacted_lines:
  "split_char newline (redact_device_output text) = redact_lines False (split_char newline text)"
proof -
  have "redact_lines False (split_char newline text) \<noteq> []"
    using redact_lines_again [of False "split_char newline text"] by (metis length_0_conv split_char_nonempty)
  moreover have "\<forall>l \<in> set (redact_lines False (split_char newline text)). newline \<notin> set l"
    using redact_lines_again [of False "split_char newline text"] split_char_lines by blast
  ultimately show ?thesis unfolding redact_device_output_def by (rule split_char_join)
qed

subsection \<open>What a reader may not learn\<close>

text \<open>Two lists of words that differ only in secrets. After a keyword of the first kind, or after \<open>key\<close>
  where it names key material, the rest of the line is secret up to an encryption type (one digit),
  after \<open>community\<close> the next word is. A single digit right after a keyword of the first kind counts as
  an encryption type and is public.\<close>

definition one_digit :: "string \<Rightarrow> bool" where
  "one_digit w = (\<exists>c. w = [c] \<and> is_digit c)"

inductive same_words :: "string list \<Rightarrow> string list \<Rightarrow> bool" where
  equal: "same_words ws ws"
| public: "same_words vs ws \<Longrightarrow> w \<noteq> ''community'' \<Longrightarrow> same_words (w # vs) (w # ws)"
| secret: "w \<in> {''password'', ''secret'', ''key-string'', ''md5'', ''pre-shared-key'', ''passphrase'', ''psk''} \<Longrightarrow>
    \<not> one_digit v \<Longrightarrow> \<not> one_digit x \<Longrightarrow> same_words (w # v # vs) (w # x # xs)"
| typed: "w \<in> {''password'', ''secret'', ''key-string'', ''md5'', ''pre-shared-key'', ''passphrase'', ''psk'', ''key''} \<Longrightarrow>
    one_digit d \<Longrightarrow> same_words (w # d # v # vs) (w # d # x # xs)"
| key: "v \<notin> {''chain'', ''generate'', ''zeroize'', ''config-key'', ''pubkey-chain''} \<Longrightarrow> \<not> one_digit v \<Longrightarrow>
    x \<notin> {''chain'', ''generate'', ''zeroize'', ''config-key'', ''pubkey-chain''} \<Longrightarrow> \<not> one_digit x \<Longrightarrow>
    same_words (''key'' # v # vs) (''key'' # x # xs)"
| community: "same_words vs ws \<Longrightarrow> same_words (''community'' # v # vs) (''community'' # w # ws)"

text \<open>Two lines that differ only in secrets, of the same indent.\<close>

definition words_of :: "string \<Rightarrow> string list" where
  "words_of line = split_whitespace (trim line)"

definition same_line :: "string \<Rightarrow> string \<Rightarrow> bool" where
  "same_line l m \<longleftrightarrow> l = m \<or>
     takeWhile is_ws l = takeWhile is_ws m \<and> same_words (words_of l) (words_of m) \<and> words_of l \<noteq> words_of m"

text \<open>Key material: the indented lines below a line that starts with \<open>key-string\<close>, up to a terminator or
  a line at the margin.\<close>

definition enclosed :: "string \<Rightarrow> bool" where
  "enclosed line \<longleftrightarrow> (words_of line = [] \<or> takeWhile is_ws line \<noteq> []) \<and>
     trim line \<notin> {''exit'', ''quit'', ''!'', ''end''}"

definition inside_after :: "bool \<Rightarrow> string \<Rightarrow> bool" where
  "inside_after inside line \<longleftrightarrow>
     (case words_of line of w # _ \<Rightarrow> w = ''key-string'' | [] \<Rightarrow> False) \<or> inside \<and> enclosed line"

inductive same_lines :: "bool \<Rightarrow> string list \<Rightarrow> string list \<Rightarrow> bool" where
  finished: "same_lines inside [] []"
| line: "same_line l m \<Longrightarrow> same_lines (inside_after inside l) ls ms \<Longrightarrow> same_lines inside (l # ls) (m # ms)"
| material: "enclosed l \<Longrightarrow> enclosed m \<Longrightarrow> words_of l \<noteq> [] \<Longrightarrow> words_of m \<noteq> [] \<Longrightarrow>
    takeWhile is_ws l = takeWhile is_ws m \<Longrightarrow> same_lines True ls ms \<Longrightarrow> same_lines True (l # ls) (m # ms)"

inductive_cases same_lines_empty [elim!]: "same_lines inside [] ms"

lemma one_digit_iff [simp]: "is_encryption_type w = one_digit w"
  by (auto simp: is_encryption_type_def one_digit_def length_Suc_conv)

lemma one_digit_kept: "one_digit d \<Longrightarrow> d \<notin> set KEY_NOT_SECRET_NEXT"
  by (auto simp: one_digit_def KEY_NOT_SECRET_NEXT_def)

lemma same_words_shape:
  "same_words vs ws \<Longrightarrow> (vs = [] \<longleftrightarrow> ws = []) \<and> (vs \<noteq> [] \<longrightarrow> hd vs = hd ws \<and> (tl vs = [] \<longleftrightarrow> tl ws = [])) \<and>
   (vs \<noteq> ws \<longrightarrow> tl vs \<noteq> [])"
  by (induction rule: same_words.induct) auto

lemma same_words_masked:
  "same_words vs ws \<Longrightarrow>
   mask_tokens ws = mask_tokens vs \<and> (vs \<noteq> ws \<longrightarrow> fst (snd (mask_tokens vs)))"
proof (induction rule: same_words.induct)
  case (public vs ws w)
  note shape = same_words_shape [OF public(1)]
  then have head: "rest_of_line_is_secret w ws = rest_of_line_is_secret w vs"
    by (intro secret_same_head) auto
  show ?case
  proof (cases "rest_of_line_is_secret w vs")
    case True
    have "mask_value ws = mask_value vs" "vs \<noteq> ws \<longrightarrow> snd (mask_value vs)"
      using shape by (cases vs; cases ws; auto simp: mask_value_def Let_def)+
    with True head show ?thesis by (auto split: prod.splits)
  next
    case False
    with head public(2,3) show ?thesis by (auto simp: SECRET_ONE_TOKEN_def split: prod.splits)
  qed
next
  case (secret w v x vs xs)
  have "w \<in> set SECRET_REST_OF_LINE" using secret(1) unfolding SECRET_REST_OF_LINE_def by simp
  then have "rest_of_line_is_secret w ys" for ys by (simp add: rest_of_line_is_secret_def)
  with secret show ?case by (simp add: mask_value_def)
next
  case (typed w d v vs x xs)
  have "w \<in> set SECRET_REST_OF_LINE \<or> w = ''key''" using typed(1) unfolding SECRET_REST_OF_LINE_def by simp
  then have "rest_of_line_is_secret w (d # ys)" for ys
    using one_digit_kept [OF typed(2)] by (auto simp: rest_of_line_is_secret_def)
  with typed show ?case by (simp add: mask_value_def)
next
  case (key v x vs xs)
  then have "rest_of_line_is_secret ''key'' (v # ys)" "rest_of_line_is_secret ''key'' (x # ys)" for ys
    by (simp_all add: rest_of_line_is_secret_def KEY_NOT_SECRET_NEXT_def)
  with key show ?case by (simp add: mask_value_def)
next
  case (community vs ws v w)
  have "\<not> rest_of_line_is_secret ''community'' ys" for ys
    by (simp add: rest_of_line_is_secret_def SECRET_REST_OF_LINE_def)
  with community show ?case by (auto simp: SECRET_ONE_TOKEN_def split: prod.splits)
qed simp

lemma same_words_singleton: "same_words [w] ws \<Longrightarrow> ws = [w]"
  using same_words_shape by fastforce

lemma same_line_tokens: "same_line l m \<Longrightarrow> redact_tokens l = redact_tokens m"
  using same_words_masked [of "words_of l" "words_of m"]
  by (auto simp: same_line_def redact_tokens_def words_of_def indent_of_takeWhile split: prod.splits)

lemma trim_edge: "trim l \<noteq> [] \<Longrightarrow> \<not> is_ws (hd (trim l))"
proof -
  assume ne: "trim l \<noteq> []"
  let ?s = "dropWhile is_ws l"
  obtain u where u: "?s = trim l @ u"
    by (metis trim_def trim_end_def trim_start_def rev_rev_ident rev_append takeWhile_dropWhile_id)
  with ne have "hd (trim l) = hd ?s" "?s \<noteq> []" by auto
  then show ?thesis using hd_dropWhile [of is_ws l] by metis
qed

lemma words_of_empty: "words_of l = [] \<longleftrightarrow> trim l = []"
proof
  assume w: "words_of l = []"
  have "words_from acc s = [] \<longleftrightarrow> acc = [] \<and> list_all is_ws s" for acc s
    by (induction acc s rule: words_from.induct) auto
  with w have "\<forall>c \<in> set (trim l). is_ws c"
    by (simp add: words_of_def split_whitespace_def list_all_iff)
  with trim_edge [of l] show "trim l = []" by (metis hd_in_set)
qed (simp add: words_of_def split_whitespace_def)

lemma same_words_edges:
  assumes "same_line l m" "l \<noteq> m"
  shows "takeWhile is_ws l = takeWhile is_ws m" "words_of l \<noteq> []" "words_of m \<noteq> []"
    "tl (words_of l) \<noteq> []" "tl (words_of m) \<noteq> []" "hd (words_of l) = hd (words_of m)"
  using assms same_words_shape [of "words_of l" "words_of m"] by (auto simp: same_line_def)

lemma terminator_edges: "block_end (trim l) \<Longrightarrow> tl (words_of l) = []"
  unfolding words_of_def by (simp add: block_end_words)

text \<open>A line that may differ in secrets is redacted to the same text, and leaves the block alike.\<close>

lemma same_line_redacted: "same_line l m \<Longrightarrow> redact_line l block = redact_line m block"
proof (cases "l = m")
  case False
  assume s: "same_line l m"
  note e = same_words_edges [OF s False]
  have "\<not> block_end (trim l)" "\<not> block_end (trim m)" using terminator_edges e(4,5) by blast+
  moreover have "trim l \<noteq> []" "trim m \<noteq> []" using e(2,3) words_of_empty by blast+
  ultimately show ?thesis using e(1) same_line_tokens [OF s] by (simp add: redact_line_def Let_def indent_of_takeWhile)
qed simp

lemma key_string_opens:
  "words_of l = ''key-string'' # ws \<Longrightarrow> snd (redact_tokens l)"
  by (simp add: redact_tokens_def words_of_def rest_of_line_is_secret_def SECRET_REST_OF_LINE_def split: prod.split)

lemma inside_stays:
  assumes "inside \<longrightarrow> block" "inside_after inside l"
  shows "snd (redact_line l block)"
proof (cases "words_of l \<noteq> [] \<and> hd (words_of l) = ''key-string''")
  case True
  then obtain ws where w: "words_of l = ''key-string'' # ws" by (cases "words_of l") auto
  then have "trim l \<noteq> []" "\<not> block_end (trim l)"
    by (auto simp: words_of_empty [symmetric]) (auto simp: words_of_def block_end_words block_end_cases)
  with key_string_opens [OF w] show ?thesis by (simp add: redact_line_def Let_def)
next
  case False
  with assms have "block" "enclosed l" by (auto simp: inside_after_def split: list.splits)
  then show ?thesis
    by (auto simp: redact_line_def enclosed_def words_of_empty block_end_def indent_of_takeWhile Let_def)
qed

lemma material_redacted:
  assumes "enclosed l" "words_of l \<noteq> []"
  shows "redact_line l True = (takeWhile is_ws l @ REDACTED, True)"
  using assms by (simp add: redact_line_def enclosed_def words_of_empty block_end_def indent_of_takeWhile Let_def)

lemma same_lines_redacted:
  "same_lines inside ls ms \<Longrightarrow> inside \<longrightarrow> block \<Longrightarrow> redact_lines block ls = redact_lines block ms"
proof (induction arbitrary: block rule: same_lines.induct)
  case (line l m inside ls ms)
  from line(2,4) inside_stays have "inside_after inside l \<longrightarrow> snd (redact_line l block)" by blast
  moreover obtain out block' where "redact_line l block = (out, block')" by fastforce
  ultimately show ?case using line(3) [of block'] same_line_redacted [OF line(1), of block] by simp
next
  case (material l m ls ms)
  with material_redacted [of l] material_redacted [of m] show ?case by simp
qed simp

text \<open>A text without any keyword of a secret is public: it is shown as it is.\<close>

definition public_text :: "string \<Rightarrow> bool" where
  "public_text text =
     (\<forall>line \<in> set (split_char newline text). \<forall>w \<in> set (words_of line).
        w \<notin> {''password'', ''secret'', ''key-string'', ''md5'', ''pre-shared-key'', ''passphrase'', ''psk'',
             ''key'', ''community''})"

lemma public_words:
  assumes "\<forall>w \<in> set ws. w \<notin> {''password'', ''secret'', ''key-string'', ''md5'', ''pre-shared-key'',
    ''passphrase'', ''psk'', ''key'', ''community''}"
  shows "mask_tokens ws = (ws, False, False)"
  using assms
proof (induction ws)
  case (Cons w ws)
  then have "\<not> rest_of_line_is_secret w ws" "w \<notin> set SECRET_ONE_TOKEN"
    by (simp_all add: rest_of_line_is_secret_def SECRET_REST_OF_LINE_def SECRET_ONE_TOKEN_def)
  with Cons show ?case by simp
qed simp

lemma public_lines:
  assumes "\<forall>line \<in> set ls. mask_tokens (words_of line) = (words_of line, False, False)"
  shows "redact_lines False ls = ls"
  using assms by (induction ls) (simp_all add: redact_line_def redact_tokens_def words_of_def)

lemma join_split_char: "join [d] (split_char d s) = s"
proof (induction d s rule: split_char.induct)
  case (1 d s)
  show ?case
  proof (cases "split_once d s")
    case None
    then show ?thesis by (simp add: split_char.simps [of d s])
  next
    case (Some p)
    then obtain a b where p: "split_once d s = Some (a, b)" by (cases p) auto
    moreover from p have shorter: "length b < length s" by (simp add: split_once_Some)
    ultimately have "join [d] (split_char d b) = b" using 1 by simp
    moreover have "join [d] (a # ls) = a @ d # join [d] ls" if "ls \<noteq> []" for ls using that by (cases ls) auto
    ultimately have tail: "join [d] (a # split_char d b) = a @ d # b" by simp
    have e: "split_char d s = a # split_char d b" using p shorter by (simp add: split_char.simps [of d s])
    from p tail show ?thesis unfolding e by (simp add: split_once_Some)
  qed
qed

text \<open>C32: redacted output does not depend on the secrets of the device. Two outputs that differ only in the
  words after a secret keyword (up to an encryption digit), in the word after \<open>community\<close>, or in
  the lines of key material below a \<open>key-string\<close>, are redacted to the same text; and an output without any
  such keyword is shown unchanged, so that nothing else is hidden.\<close>

theorem redaction_conceals:
  assumes "same_lines False (split_char newline a) (split_char newline b)"
  shows "redact_device_output a = redact_device_output b \<and>
    (\<forall>c. public_text c \<longrightarrow> redact_device_output c = c)"
proof (intro conjI allI impI)
  show "redact_device_output a = redact_device_output b"
    using same_lines_redacted [OF assms] by (simp add: redact_device_output_def)
next
  fix c
  assume "public_text c"
  then have "redact_lines False (split_char newline c) = split_char newline c"
    by (intro public_lines) (auto simp: public_text_def intro: public_words)
  then show "redact_device_output c = c" by (simp add: redact_device_output_def join_split_char)
qed

text \<open>Redaction is idempotent and keeps the number of lines, so output that passes two
  boundaries (\<open>plan_failure\<close> redacts what a rejected command already redacted) is not
  damaged further.\<close>

theorem redaction_idempotent:
  "redact_device_output (redact_device_output text) = redact_device_output text \<and>
   length (split_char newline (redact_device_output text)) = length (split_char newline text)"
  using redact_lines_again [of False "split_char newline text"]
  by (metis redact_device_output_def redacted_lines)

lemma redaction_example:
  "redact_device_output '' neighbor 1.2.3.4 password 7 070C28'' = '' neighbor 1.2.3.4 password 7 <redacted>''"
  "redact_device_output ''snmp-server community s3cr3t RO 99'' = ''snmp-server community <redacted> RO 99''"
  "redact_device_output ''crypto key generate rsa'' = ''crypto key generate rsa''"
  by code_simp+

definition key_text :: "string \<Rightarrow> string \<Rightarrow> string" where
  "key_text word material = '' neighbor 10.0.0.1 password 7 '' @ word @ [newline] @ '' key-string 7'' @ [newline] @
     ''   '' @ material"

lemma key_text_lines:
  "split_char newline (key_text ''070C'' ''AAAA'') =
     ['' neighbor 10.0.0.1 password 7 070C'', '' key-string 7'', ''   AAAA'']"
  "split_char newline (key_text ''1F2E'' ''BB BB'') =
     ['' neighbor 10.0.0.1 password 7 1F2E'', '' key-string 7'', ''   BB BB'']"
  by code_simp+

lemma key_text_words:
  "words_of '' neighbor 10.0.0.1 password 7 070C'' = [''neighbor'', ''10.0.0.1'', ''password'', ''7'', ''070C'']"
  "words_of '' neighbor 10.0.0.1 password 7 1F2E'' = [''neighbor'', ''10.0.0.1'', ''password'', ''7'', ''1F2E'']"
  "words_of '' key-string 7'' = [''key-string'', ''7'']"
  "words_of ''   AAAA'' = [''AAAA'']" "words_of ''   BB BB'' = [''BB'', ''BB'']"
  "trim ''   AAAA'' = ''AAAA''" "trim ''   BB BB'' = ''BB BB''"
  "takeWhile is_ws ''   AAAA'' = ''   ''" "takeWhile is_ws ''   BB BB'' = ''   ''"
  "takeWhile is_ws '' neighbor 10.0.0.1 password 7 070C'' = '' ''"
  "takeWhile is_ws '' neighbor 10.0.0.1 password 7 1F2E'' = '' ''"
  by code_simp+

theorem redaction_conceals_witness:
  "redact_device_output (key_text ''070C'' ''AAAA'') = redact_device_output (key_text ''1F2E'' ''BB BB'')"
proof -
  have d: "one_digit ''7''" by code_simp
  have "same_words [''neighbor'', ''10.0.0.1'', ''password'', ''7'', ''070C'']
      [''neighbor'', ''10.0.0.1'', ''password'', ''7'', ''1F2E'']"
    by (intro same_words.public same_words.typed d) simp_all
  then have l: "same_line '' neighbor 10.0.0.1 password 7 070C'' '' neighbor 10.0.0.1 password 7 1F2E''"
    unfolding same_line_def key_text_words by simp
  have k: "same_line '' key-string 7'' '' key-string 7''" by (simp add: same_line_def)
  have i: "inside_after b '' key-string 7''" for b unfolding inside_after_def key_text_words by simp
  have e: "enclosed ''   AAAA''" "enclosed ''   BB BB''" unfolding enclosed_def key_text_words by simp_all
  have w: "words_of ''   AAAA'' \<noteq> []" "words_of ''   BB BB'' \<noteq> []"
    "takeWhile is_ws ''   AAAA'' = takeWhile is_ws ''   BB BB''" unfolding key_text_words by simp_all
  have "same_lines (inside_after b '' key-string 7'') [''   AAAA''] [''   BB BB'']" for b
    using same_lines.material [OF e w same_lines.finished] i [of b] by simp
  then have "same_lines False (split_char newline (key_text ''070C'' ''AAAA''))
      (split_char newline (key_text ''1F2E'' ''BB BB''))"
    unfolding key_text_lines by (rule same_lines.line [OF l same_lines.line [OF k]])
  from redaction_conceals [OF this] show ?thesis by simp
qed

end
