(* ===== verification/Ssh_Gate.thy ===== *)
theory Ssh_Gate
  imports Templates Redaction
begin

text \<open>
  The fail-closed command gate of \<open>src/backend-rust/src/ssh/mod.rs\<close>: the allowlist of exact
  command shapes, the interface-context check on a whole plan, and the rewriting of a plan that
  runs under the native configuration lock. \<open>command_shapes\<close> lists the arms of the Rust
  \<open>match\<close> in their order.
\<close>

subsection \<open>Tokens\<close>

definition tok_ipv4 :: "string \<Rightarrow> bool" where
  "tok_ipv4 tok = (parse_ipv4 tok \<noteq> None)"

definition tok_u32 :: "string \<Rightarrow> bool" where
  "tok_u32 tok = (tok \<noteq> [] \<and> (parse_uint tok :: u32 option) \<noteq> None)"

definition tok_len :: "u8 \<Rightarrow> string \<Rightarrow> bool" where
  "tok_len bound len = (case (parse_uint len :: u8 option) of Some l \<Rightarrow> l \<le> bound | None \<Rightarrow> False)"

definition tok_cidr :: "string \<Rightarrow> bool" where
  "tok_cidr tok =
     (case split_once (CHR ''/'') tok of
        Some (ip, len) \<Rightarrow> parse_ipv4 ip \<noteq> None \<and> tok_len 32 len
      | None \<Rightarrow> False)"

definition tok_ipv6 :: "string \<Rightarrow> bool" where
  "tok_ipv6 tok = (parse_ipv6 tok \<noteq> None)"

definition tok_cidr6 :: "string \<Rightarrow> bool" where
  "tok_cidr6 tok =
     (case split_once (CHR ''/'') tok of
        Some (ip, len) \<Rightarrow> parse_ipv6 ip \<noteq> None \<and> tok_len 128 len
      | None \<Rightarrow> False)"

definition tok_prefix_list_seq :: "string \<Rightarrow> bool" where
  "tok_prefix_list_seq tok =
     (case (parse_uint tok :: u32 option) of Some n \<Rightarrow> MIN_SEQ \<le> n \<and> n \<le> MAX_SEQ | None \<Rightarrow> False)"

definition name_char :: "char \<Rightarrow> bool" where
  "name_char c \<longleftrightarrow> is_ascii_alphanumeric c \<or> c \<in> set ''/._:-''"

definition tok_name :: "string \<Rightarrow> bool" where
  "tok_name tok = (tok \<noteq> [] \<and> list_all name_char tok)"

definition tok_ipv6_or_cidr6 :: "string \<Rightarrow> bool" where
  "tok_ipv6_or_cidr6 a = (tok_ipv6 a \<or> tok_cidr6 a)"

definition tok_ipv4_or_cidr :: "string \<Rightarrow> bool" where
  "tok_ipv4_or_cidr a = (tok_ipv4 a \<or> tok_cidr a)"

definition tok_direction :: "string \<Rightarrow> bool" where
  "tok_direction d \<longleftrightarrow> d = ''in'' \<or> d = ''out''"

subsection \<open>Command shapes\<close>

datatype shape = Word string | Arg "string \<Rightarrow> bool"

text \<open>The pattern of an arm fits when its length and its literal words agree; its guard checks
  the variable tokens.\<close>

fun shape_fits :: "shape list \<Rightarrow> string list \<Rightarrow> bool" where
  "shape_fits [] [] = True"
| "shape_fits (Word w # ss) (t # ts) = (t = w \<and> shape_fits ss ts)"
| "shape_fits (Arg ok # ss) (t # ts) = shape_fits ss ts"
| "shape_fits _ _ = False"

fun args_ok :: "shape list \<Rightarrow> string list \<Rightarrow> bool" where
  "args_ok (Arg ok # ss) (t # ts) = (ok t \<and> args_ok ss ts)"
| "args_ok (Word w # ss) (t # ts) = args_ok ss ts"
| "args_ok _ _ = True"

definition session_shapes :: "shape list list" where
  "session_shapes =
    [[Word ''terminal'', Word ''length'', Word ''0''],
     [Word ''configure'', Word ''terminal''],
     [Word ''configure'', Word ''terminal'', Word ''lock''],
     [Word ''end''], [Word ''exit''],
     [Word ''show'', Word ''configuration'', Word ''lock''],
     [Word ''show'', Word ''clock''],
     [Word ''show'', Word ''version''],
     [Word ''show'', Word ''running-config''],
     [Word ''show'', Word ''ip'', Word ''route'', Word ''summary''],
     [Word ''show'', Word ''ip'', Word ''route'', Arg tok_ipv4],
     [Word ''show'', Word ''ipv6'', Word ''route'', Word ''summary''],
     [Word ''show'', Word ''ipv6'', Word ''route'', Arg tok_ipv6_or_cidr6],
     [Word ''show'', Word ''ip'', Word ''bgp'', Word ''summary''],
     [Word ''show'', Word ''ip'', Word ''bgp'', Arg tok_ipv4_or_cidr],
     [Word ''show'', Word ''bgp'', Word ''ipv6'', Word ''unicast'', Arg tok_cidr6],
     [Word ''show'', Word ''ip'', Word ''bgp'', Word ''neighbors'', Arg tok_ipv4],
     [Word ''show'', Word ''ip'', Word ''bgp'', Word ''neighbors'', Arg tok_ipv4, Word ''advertised-routes''],
     [Word ''show'', Word ''interfaces'', Arg tok_name],
     [Word ''show'', Word ''running-config'', Word ''interface'', Arg tok_name],
     [Word ''show'', Word ''ip'', Word ''prefix-list''],
     [Word ''show'', Word ''ip'', Word ''prefix-list'', Arg tok_name]]"

definition route_shapes :: "shape list list" where
  "route_shapes =
    [[Word ''ip'', Word ''route'', Arg tok_ipv4, Arg tok_ipv4, Word ''Null0''],
     [Word ''ip'', Word ''route'', Arg tok_ipv4, Arg tok_ipv4, Word ''Null0'', Word ''name'', Arg tok_name],
     [Word ''ip'', Word ''route'', Arg tok_ipv4, Arg tok_ipv4, Word ''Null0'', Word ''tag'', Arg tok_u32],
     [Word ''no'', Word ''ip'', Word ''route'', Arg tok_ipv4, Arg tok_ipv4, Word ''Null0''],
     [Word ''no'', Word ''ip'', Word ''route'', Arg tok_ipv4, Arg tok_ipv4, Word ''Null0'', Word ''tag'', Arg tok_u32],
     [Word ''ipv6'', Word ''route'', Arg tok_cidr6, Word ''Null0''],
     [Word ''ipv6'', Word ''route'', Arg tok_cidr6, Word ''Null0'', Word ''name'', Arg tok_name],
     [Word ''ipv6'', Word ''route'', Arg tok_cidr6, Word ''Null0'', Word ''tag'', Arg tok_u32],
     [Word ''no'', Word ''ipv6'', Word ''route'', Arg tok_cidr6, Word ''Null0''],
     [Word ''no'', Word ''ipv6'', Word ''route'', Arg tok_cidr6, Word ''Null0'', Word ''tag'', Arg tok_u32]]"

definition bgp_shapes :: "shape list list" where
  "bgp_shapes =
    [[Word ''router'', Word ''bgp'', Arg tok_u32],
     [Word ''address-family'', Word ''ipv4''],
     [Word ''address-family'', Word ''ipv4'', Word ''unicast''],
     [Word ''exit-address-family''],
     [Word ''neighbor'', Arg tok_ipv4, Word ''shutdown''],
     [Word ''no'', Word ''neighbor'', Arg tok_ipv4, Word ''shutdown''],
     [Word ''ip'', Word ''prefix-list'', Arg tok_name, Word ''seq'', Arg tok_prefix_list_seq, Word ''permit'', Arg tok_cidr],
     [Word ''no'', Word ''ip'', Word ''prefix-list'', Arg tok_name, Word ''seq'', Arg tok_prefix_list_seq, Word ''permit'', Arg tok_cidr],
     [Word ''ip'', Word ''prefix-list'', Arg tok_name, Word ''permit'', Arg tok_cidr],
     [Word ''no'', Word ''ip'', Word ''prefix-list'', Arg tok_name, Word ''permit'', Arg tok_cidr],
     [Word ''clear'', Word ''ip'', Word ''bgp'', Arg tok_ipv4, Word ''soft'', Arg tok_direction],
     [Word ''neighbor'', Arg tok_ipv4, Word ''route-map'', Arg tok_name, Arg tok_direction],
     [Word ''no'', Word ''neighbor'', Arg tok_ipv4, Word ''route-map'', Arg tok_name, Arg tok_direction],
     [Word ''neighbor'', Arg tok_ipv4, Word ''prefix-list'', Arg tok_name, Word ''out''],
     [Word ''no'', Word ''neighbor'', Arg tok_ipv4, Word ''prefix-list'', Arg tok_name, Word ''out'']]"

definition interface_shapes :: "shape list list" where
  "interface_shapes =
    [[Word ''interface'', Arg tok_name],
     [Word ''ip'', Word ''tcp'', Word ''adjust-mss'', Arg tok_u32],
     [Word ''no'', Word ''ip'', Word ''tcp'', Word ''adjust-mss''],
     [Word ''shutdown''], [Word ''no'', Word ''shutdown'']]"

definition command_shapes :: "shape list list" where
  "command_shapes = session_shapes @ route_shapes @ bgp_shapes @ interface_shapes"

definition soft_clear :: "shape list" where
  "soft_clear = [Word ''clear'', Word ''ip'', Word ''bgp'', Arg tok_ipv4, Word ''soft'', Arg tok_direction]"

definition tokens_allowed :: "string list \<Rightarrow> bool" where
  "tokens_allowed toks =
     (case List.find (\<lambda>s. shape_fits s toks) command_shapes of
        None \<Rightarrow> False | Some s \<Rightarrow> args_ok s toks)"

subsection \<open>The gate\<close>

definition filter_char :: "char \<Rightarrow> bool" where
  "filter_char c \<longleftrightarrow> is_ascii_alphanumeric c \<or> c = CHR '' '' \<or> c \<in> set ''()^|._:/-=[]$''"

definition filter_allowed :: "string \<Rightarrow> string \<Rightarrow> bool" where
  "filter_allowed base f =
     (starts_with ''show '' base \<and>
      (case split_whitespace f of [] \<Rightarrow> [] | w # _ \<Rightarrow> w)
        \<in> {''include'', ''exclude'', ''section'', ''begin'', ''count''} \<and>
      list_all filter_char f)"

lemma length_trim: "length (trim s) \<le> length s"
proof -
  have "length (dropWhile P xs) \<le> length xs" for P and xs :: string by (rule length_dropWhile_le)
  then show ?thesis unfolding trim_def trim_end_def trim_start_def
    by (metis length_rev order_trans)
qed

function command_allowed :: "string \<Rightarrow> bool" where
  "command_allowed raw =
     (let cmd = trim raw in
      if cmd = [] \<or> list_ex is_ascii_control cmd then False
      else case strip_prefix ''do '' cmd of
        Some inner \<Rightarrow>
          (starts_with ''show '' inner \<and> command_allowed inner) \<or>
          (shape_fits soft_clear (split_whitespace inner) \<and> args_ok soft_clear (split_whitespace inner))
      | None \<Rightarrow>
          (let (base, flt) = (case split_once (CHR ''|'') cmd of
                 Some (b, f) \<Rightarrow> (trim b, Some (trim f)) | None \<Rightarrow> (cmd, None))
           in (case flt of Some f \<Rightarrow> filter_allowed base f | None \<Rightarrow> True) \<and>
              tokens_allowed (split_whitespace base)))"
  by pat_completeness auto
termination
proof (relation "measure length")
  fix raw cmd inner
  assume "cmd = trim raw" "strip_prefix ''do '' cmd = Some inner"
  then have "length (trim raw) = length inner + 3" by (simp add: strip_prefix_Some)
  with length_trim [of raw] show "(inner, raw) \<in> measure length" by simp
qed simp

declare command_allowed.simps [simp del]

subsection \<open>Whole plans\<close>

datatype gate_error = NotOnAllowlist string | ShutdownOutsideInterface string

definition enters_interface :: "string \<Rightarrow> bool" where
  "enters_interface c = (case split_whitespace c of [a, _] \<Rightarrow> a = ''interface'' | _ \<Rightarrow> False)"

definition leaves_interface :: "string \<Rightarrow> bool" where
  "leaves_interface c =
     (let toks = split_whitespace c in
      toks \<in> {[''configure'', ''terminal''], [''configure'', ''terminal'', ''lock''], [''end''], [''exit'']} \<or>
      (case toks of [a, b, _] \<Rightarrow> a = ''router'' \<and> b = ''bgp'' | _ \<Rightarrow> False))"

definition bare_shutdown :: "string \<Rightarrow> bool" where
  "bare_shutdown c \<longleftrightarrow> split_whitespace c \<in> {[''shutdown''], [''no'', ''shutdown'']}"

fun sequence_from :: "bool \<Rightarrow> string list \<Rightarrow> gate_error + unit" where
  "sequence_from in_interface [] = Inr ()"
| "sequence_from in_interface (c # cs) =
     (if enters_interface c then sequence_from True cs
      else if leaves_interface c then sequence_from False cs
      else if bare_shutdown c \<and> \<not> in_interface then Inl (ShutdownOutsideInterface (trim c))
      else sequence_from in_interface cs)"

definition sequence_safe :: "string list \<Rightarrow> gate_error + unit" where
  "sequence_safe commands = sequence_from False commands"

definition check_allowed :: "string list \<Rightarrow> gate_error + unit" where
  "check_allowed commands =
     (case List.find (\<lambda>c. \<not> command_allowed c) commands of
        Some c \<Rightarrow> Inl (NotOnAllowlist c)
      | None \<Rightarrow> sequence_safe commands)"

subsection \<open>Plans under the native configuration lock\<close>

datatype locked_error =
    MisplacedEntry | RawExit | MisplacedEnd | AfterConfigBlock string | SecondSubcontext
  | IncompleteEnvelope

record envelope =
  en_out :: "string list"
  en_nested :: bool
  en_after_end :: bool
  en_entered :: bool
  en_ended :: bool

definition opens_subcontext :: "string \<Rightarrow> bool" where
  "opens_subcontext c \<longleftrightarrow> starts_with ''interface '' c \<or> starts_with ''router bgp '' c"

definition locked_step :: "bool \<Rightarrow> string \<Rightarrow> envelope \<Rightarrow> locked_error + envelope" where
  "locked_step first raw st =
     (let command = trim raw in
      if command = ''configure terminal'' \<and> first \<and> \<not> en_entered st
      then Inr (st\<lparr>en_entered := True\<rparr>)
      else if command = ''configure terminal'' \<or> command = ''configure terminal lock''
      then Inl MisplacedEntry
      else if command = ''exit'' then Inl RawExit
      else if command = ''end'' then
        (if \<not> en_entered st \<or> en_ended st then Inl MisplacedEnd
         else Inr (st\<lparr>en_out := (if en_nested st then en_out st @ [''exit''] else en_out st),
                      en_nested := False, en_after_end := True, en_ended := True\<rparr>))
      else if en_after_end st \<and> starts_with ''clear '' command
      then Inr (st\<lparr>en_out := en_out st @ [''do '' @ command]\<rparr>)
      else if en_after_end st then Inl (AfterConfigBlock command)
      else if opens_subcontext command \<and> en_nested st then Inl SecondSubcontext
      else Inr (st\<lparr>en_nested := (en_nested st \<or> opens_subcontext command),
                   en_out := en_out st @ [command]\<rparr>))"

fun locked_from :: "bool \<Rightarrow> string list \<Rightarrow> envelope \<Rightarrow> locked_error + envelope" where
  "locked_from first [] st = Inr st"
| "locked_from first (c # cs) st = and_then (locked_step first c st) (locked_from False cs)"

definition locked_commands :: "string list \<Rightarrow> locked_error + string list" where
  "locked_commands commands =
     and_then (locked_from True commands \<lparr>en_out = [], en_nested = False, en_after_end = False,
                 en_entered = False, en_ended = False\<rparr>) (\<lambda>st.
       if \<not> en_entered st \<or> \<not> en_ended st \<or> en_nested st then Inl IncompleteEnvelope
       else Inr (en_out st))"

subsection \<open>The alphabet of accepted tokens\<close>

definition gate_char :: "char \<Rightarrow> bool" where
  "gate_char c \<longleftrightarrow> name_char c \<or> c = CHR ''+''"

text \<open>A reader consumes a prefix of its input and leaves the rest.\<close>

definition consumes :: "string \<Rightarrow> string \<Rightarrow> bool" where
  "consumes s rest \<longleftrightarrow> (\<exists>p. s = p @ rest \<and> list_all gate_char p)"

lemma consumes_refl [simp]: "consumes s s"
  by (simp add: consumes_def)

lemma consumes_trans [trans]: "consumes a b \<Longrightarrow> consumes b c \<Longrightarrow> consumes a c"
  by (auto simp: consumes_def)

lemma consumes_Cons: "gate_char c \<Longrightarrow> consumes s rest \<Longrightarrow> consumes (c # s) rest"
  by (auto simp: consumes_def intro: exI [of _ "c # _"])

lemma consumes_all: "consumes s [] \<Longrightarrow> list_all gate_char s"
  by (auto simp: consumes_def)

lemma gate_char_digit: "is_digit c \<Longrightarrow> gate_char c"
  by (auto simp: gate_char_def name_char_def is_digit_def is_ascii_alphanumeric_def Let_def)

lemma gate_char_hex: "hex_digit c = Some d \<Longrightarrow> gate_char c"
  by (auto simp: gate_char_def name_char_def hex_digit_def is_ascii_alphanumeric_def Let_def split: if_splits)

lemma gate_char_marks [simp]: "gate_char (CHR ''.'')" "gate_char (CHR '':'')" "gate_char (CHR ''/'')"
  "gate_char (CHR ''+'')" "gate_char (CHR ''-'')"
  by (simp_all add: gate_char_def name_char_def)

lemma read_char_consumes: "read_char d s = Some r \<Longrightarrow> gate_char d \<Longrightarrow> consumes s r"
  by (cases s) (auto simp: intro: consumes_Cons split: if_splits)

lemma read_dec_consumes: "read_dec n v s = Some (n', v', r) \<Longrightarrow> consumes s r"
  by (induction n v s rule: read_dec.induct)
    (auto simp: Let_def intro: consumes_Cons gate_char_digit split: if_splits)

lemma read_octet_consumes: "read_octet s = Some (v, r) \<Longrightarrow> consumes s r"
  by (auto simp: read_octet_def split: option.splits if_splits dest: read_dec_consumes)

lemma read_ipv4_consumes: "read_ipv4 s = Some (a, r) \<Longrightarrow> consumes s r"
  by (auto simp: read_ipv4_def bind_eq_Some_conv dest!: read_octet_consumes read_char_consumes)
    (meson consumes_trans)

lemma read_hex_consumes: "read_hex n v s = Some (n', v', r) \<Longrightarrow> consumes s r"
  by (induction n v s rule: read_hex.induct)
    (auto intro: consumes_Cons gate_char_hex split: if_splits option.splits)

lemma read_group_consumes: "read_group s = Some (g, r) \<Longrightarrow> consumes s r"
  by (auto simp: read_group_def split: option.splits if_splits dest: read_hex_consumes)

lemma read_separator_consumes:
  assumes "\<And>s g r. p s = Some (g, r) \<Longrightarrow> consumes s r" "read_separator i p s = Some (g, r)"
  shows "consumes s r"
proof (cases "0 < i")
  case False
  with assms show ?thesis by (auto simp: read_separator_def)
next
  case True
  with assms(2) obtain s' where "read_char (CHR '':'') s = Some s'" "p s' = Some (g, r)"
    by (auto simp: read_separator_def split: option.splits)
  with assms(1) read_char_consumes show ?thesis by (metis consumes_trans gate_char_marks(2))
qed

lemma read_groups_step:
  "read_groups (Suc k) i s = (gs, v4, r) \<Longrightarrow>
   (\<exists>a. read_separator i read_ipv4 s = Some (a, r)) \<or> r = s \<or>
   (\<exists>g s' gs'. read_separator i read_group s = Some (g, s') \<and> read_groups k (Suc i) s' = (gs', v4, r))"
  unfolding read_groups.simps
  by (cases "if 0 < k then read_separator i read_ipv4 s else None"; cases "read_separator i read_group s")
    (auto split: ipv4.splits if_splits prod.splits simp del: read_groups.simps)

lemma read_groups_consumes: "read_groups k i s = (gs, v4, r) \<Longrightarrow> consumes s r"
proof (induction k arbitrary: i s gs)
  case (Suc k)
  have "consumes s s'" if "read_separator i read_group s = Some (g, s')" for i s g s'
    using read_separator_consumes [of read_group, OF _ that] read_group_consumes by blast
  moreover have "consumes s s'" if "read_separator i read_ipv4 s = Some (a, s')" for i s a s'
    using read_separator_consumes [of read_ipv4, OF _ that] read_ipv4_consumes by blast
  ultimately show ?case
    using read_groups_step [OF Suc.prems] Suc.IH consumes_trans consumes_refl by metis
qed simp

lemma parse_ipv4_chars: "parse_ipv4 s = Some a \<Longrightarrow> list_all gate_char s"
  by (auto simp: parse_ipv4_def split: if_splits option.splits list.splits
      dest!: read_ipv4_consumes intro: consumes_all)

lemma parse_ipv6_chars: "parse_ipv6 s = Some a \<Longrightarrow> list_all gate_char s"
proof -
  assume "parse_ipv6 s = Some a"
  then obtain gs where "read_ipv6 s = Some (gs, [])"
    by (auto simp: parse_ipv6_def split: option.splits list.splits)
  moreover obtain head v4 s1 where r: "read_groups 8 0 s = (head, v4, s1)" by (metis prod_cases3)
  ultimately have "length head = 8 \<and> s1 = [] \<or> (\<exists>s2 s3. read_char (CHR '':'') s1 = Some s2 \<and>
      read_char (CHR '':'') s2 = Some s3 \<and> snd (snd (read_groups (8 - (length head + 1)) 0 s3)) = [])"
    unfolding read_ipv6_def
    by (auto simp: bind_eq_Some_conv split: if_splits prod.splits simp del: read_groups.simps)
      (metis prod_cases3 snd_conv)
  then have "consumes s1 []"
    by (metis consumes_trans consumes_refl read_char_consumes read_groups_consumes gate_char_marks(2) prod.collapse)
  with read_groups_consumes [OF r] show ?thesis by (blast intro: consumes_all consumes_trans)
qed

lemma digits_value_chars: "digits_value n s = Some v \<Longrightarrow> list_all gate_char s"
  by (induction n s rule: digits_value.induct) (auto intro: gate_char_digit split: if_splits)

lemma gate_uint_chars: "(parse_uint s :: 'a::len word option) = Some v \<Longrightarrow> list_all gate_char s"
  by (cases s) (auto simp: parse_uint_def Let_def gate_char_digit split: if_splits option.splits dest: digits_value_chars)

text \<open>Every check of a variable token admits safe characters only.\<close>

lemma tok_chars [intro]:
  "tok_ipv4 t \<Longrightarrow> list_all gate_char t" "tok_u32 t \<Longrightarrow> list_all gate_char t"
  "tok_cidr t \<Longrightarrow> list_all gate_char t" "tok_cidr6 t \<Longrightarrow> list_all gate_char t"
  "tok_prefix_list_seq t \<Longrightarrow> list_all gate_char t" "tok_name t \<Longrightarrow> list_all gate_char t"
  "tok_ipv6_or_cidr6 t \<Longrightarrow> list_all gate_char t" "tok_ipv4_or_cidr t \<Longrightarrow> list_all gate_char t"
  "tok_direction t \<Longrightarrow> list_all gate_char t"
proof -
  have c4: "list_all gate_char t" if "tok_ipv4 t" for t
    using that by (auto simp: tok_ipv4_def dest: parse_ipv4_chars)
  have cidr: "list_all gate_char t" if "tok_cidr t" for t
    using that by (auto simp: tok_cidr_def tok_len_def split_once_Some split: option.splits
        dest: gate_uint_chars parse_ipv4_chars)
  have cidr6: "list_all gate_char t" if "tok_cidr6 t" for t
    using that by (auto simp: tok_cidr6_def tok_len_def split_once_Some split: option.splits
        dest: gate_uint_chars parse_ipv6_chars)
  show "tok_ipv4 t \<Longrightarrow> list_all gate_char t" by (rule c4)
  show "tok_u32 t \<Longrightarrow> list_all gate_char t" by (auto simp: tok_u32_def dest: gate_uint_chars)
  show "tok_cidr t \<Longrightarrow> list_all gate_char t" by (rule cidr)
  show "tok_cidr6 t \<Longrightarrow> list_all gate_char t" by (rule cidr6)
  show "tok_prefix_list_seq t \<Longrightarrow> list_all gate_char t"
    by (auto simp: tok_prefix_list_seq_def split: option.splits dest: gate_uint_chars)
  show "tok_name t \<Longrightarrow> list_all gate_char t"
    by (auto simp: tok_name_def list_all_iff gate_char_def)
  show "tok_ipv6_or_cidr6 t \<Longrightarrow> list_all gate_char t"
    using cidr6 by (auto simp: tok_ipv6_or_cidr6_def tok_ipv6_def dest: parse_ipv6_chars)
  show "tok_ipv4_or_cidr t \<Longrightarrow> list_all gate_char t"
    using c4 cidr by (auto simp: tok_ipv4_or_cidr_def)
  show "tok_direction t \<Longrightarrow> list_all gate_char t"
    by (auto simp: tok_direction_def gate_char_def name_char_def is_ascii_alphanumeric_def code_def)
qed

subsection \<open>The alphabet of accepted commands\<close>

fun shape_safe :: "shape \<Rightarrow> bool" where
  "shape_safe (Word w) = list_all gate_char w"
| "shape_safe (Arg ok) = (\<forall>t. ok t \<longrightarrow> list_all gate_char t)"

fun shape_words :: "shape list \<Rightarrow> string list" where
  "shape_words [] = []"
| "shape_words (Word w # ss) = w # shape_words ss"
| "shape_words (Arg ok # ss) = shape_words ss"

fun shape_args :: "shape list \<Rightarrow> (string \<Rightarrow> bool) list" where
  "shape_args [] = []"
| "shape_args (Word w # ss) = shape_args ss"
| "shape_args (Arg ok # ss) = ok # shape_args ss"

lemma shape_safe_split:
  "list_all (list_all gate_char) (shape_words ss) \<Longrightarrow>
   \<forall>ok \<in> set (shape_args ss). \<forall>t. ok t \<longrightarrow> list_all gate_char t \<Longrightarrow> list_all shape_safe ss"
  by (induction ss rule: shape_args.induct) auto

lemma shape_words_safe:
  "list_all (\<lambda>ss. list_all (list_all gate_char) (shape_words ss)) (soft_clear # command_shapes)"
  by code_simp

lemma shape_args_checked:
  "list_all (\<lambda>ss. set (shape_args ss) \<subseteq> {tok_ipv4, tok_u32, tok_cidr, tok_cidr6, tok_prefix_list_seq,
     tok_name, tok_ipv6_or_cidr6, tok_ipv4_or_cidr, tok_direction}) (soft_clear # command_shapes)"
  by (simp add: soft_clear_def command_shapes_def session_shapes_def route_shapes_def bgp_shapes_def
      interface_shapes_def)

lemma shapes_safe: "ss \<in> set (soft_clear # command_shapes) \<Longrightarrow> list_all shape_safe ss"
proof (rule shape_safe_split)
  assume "ss \<in> set (soft_clear # command_shapes)"
  with shape_words_safe show "list_all (list_all gate_char) (shape_words ss)"
    unfolding list_all_iff [of _ "soft_clear # command_shapes"] by blast
  from \<open>ss \<in> _\<close> shape_args_checked have "set (shape_args ss) \<subseteq> {tok_ipv4, tok_u32, tok_cidr, tok_cidr6,
      tok_prefix_list_seq, tok_name, tok_ipv6_or_cidr6, tok_ipv4_or_cidr, tok_direction}"
    unfolding list_all_iff by blast
  then show "\<forall>ok \<in> set (shape_args ss). \<forall>t. ok t \<longrightarrow> list_all gate_char t" by blast
qed

lemma fitting_tokens_safe:
  "shape_fits ss toks \<Longrightarrow> args_ok ss toks \<Longrightarrow> list_all shape_safe ss \<Longrightarrow> list_all (list_all gate_char) toks"
  by (induction ss toks rule: shape_fits.induct) auto

lemma tokens_allowed_safe: "tokens_allowed toks \<Longrightarrow> list_all (list_all gate_char) toks"
proof -
  assume "tokens_allowed toks"
  then obtain ss where f: "List.find (\<lambda>s. shape_fits s toks) command_shapes = Some ss" "args_ok ss toks"
    unfolding tokens_allowed_def by (auto split: option.splits)
  from find_SomeD [OF f(1)] have "ss \<in> set (soft_clear # command_shapes)" "shape_fits ss toks" by simp_all
  with f(2) shapes_safe fitting_tokens_safe show ?thesis by blast
qed

lemma words_cover:
  "c \<in> set s \<union> set acc \<Longrightarrow> is_ws c \<or> (\<exists>t \<in> set (words_from acc s). c \<in> set t)"
proof (induction acc s rule: words_from.induct)
  case (2 acc c' cs)
  then show ?case by (cases "is_ws c'"; cases "acc = []") auto
qed auto

lemma split_whitespace_covers:
  "list_all (list_all ok) (split_whitespace s) \<Longrightarrow> list_all (\<lambda>c. is_ws c \<or> ok c) s"
  using words_cover [of _ s "[]"] by (fastforce simp: list_all_iff split_whitespace_def)

lemma trim_end_prefix: "\<exists>w. s = trim_end s @ w"
proof -
  have "s = rev (takeWhile is_ws (rev s) @ dropWhile is_ws (rev s))" by simp
  then show ?thesis unfolding trim_end_def by (metis rev_append)
qed

lemma trim_ends:
  assumes "trim s \<noteq> []"
  shows "\<not> is_ws (hd (trim s)) \<and> \<not> is_ws (last (trim s))"
proof -
  obtain w where w: "trim_start s = trim s @ w" unfolding trim_def using trim_end_prefix by blast
  with assms have "trim_start s \<noteq> []" "hd (trim s) = hd (trim_start s)" by auto
  then have "\<not> is_ws (hd (trim s))" unfolding trim_start_def by (metis hd_dropWhile)
  moreover have "dropWhile is_ws (rev (trim_start s)) \<noteq> []"
    using assms by (simp add: trim_def trim_end_def)
  then have "\<not> is_ws (hd (dropWhile is_ws (rev (trim_start s))))" by (rule hd_dropWhile)
  then have "\<not> is_ws (last (trim s))"
    by (simp add: trim_def trim_end_def last_rev)
  ultimately show ?thesis by blast
qed

definition allowed_char :: "string \<Rightarrow> char \<Rightarrow> bool" where
  "allowed_char cmd c \<longleftrightarrow> gate_char c \<or> (is_ws c \<and> \<not> is_ascii_control c) \<or>
     (filter_char c \<and> (starts_with ''show '' cmd \<or> starts_with ''do show '' cmd))"

lemma words_allowed:
  assumes "list_all (list_all gate_char) (split_whitespace s)" "\<not> list_ex is_ascii_control s"
  shows "list_all (allowed_char cmd) s"
  using split_whitespace_covers [OF assms(1)] assms(2)
  by (auto simp: list_all_iff list_ex_iff allowed_char_def)

lemma starts_with_trim: "\<not> is_ws (hd s) \<Longrightarrow> starts_with p (trim s) \<Longrightarrow> s \<noteq> [] \<Longrightarrow> starts_with p s"
proof -
  assume "\<not> is_ws (hd s)" "starts_with p (trim s)" "s \<noteq> []"
  then have "trim_start s = s" by (cases s) (simp_all add: trim_start_def)
  then have "trim s = trim_end s" by (simp add: trim_def)
  moreover obtain w where "s = trim_end s @ w" using trim_end_prefix by blast
  ultimately show ?thesis using \<open>starts_with p (trim s)\<close> unfolding starts_with_iff by (metis append_assoc)
qed

lemma trim_covers: "list_all ok (trim s) \<Longrightarrow> list_all (\<lambda>c. is_ws c \<or> ok c) s"
proof -
  assume a: "list_all ok (trim s)"
  obtain w where "s = takeWhile is_ws s @ trim s @ w" unfolding trim_def trim_start_def
    using trim_end_prefix [of "dropWhile is_ws s"] by (metis takeWhile_dropWhile_id)
  have t: "trim_start s = trim s @ rev (takeWhile is_ws (rev (trim_start s)))"
    unfolding trim_def trim_end_def by (metis rev_append rev_rev_ident takeWhile_dropWhile_id)
  have "s = takeWhile is_ws s @ trim s @ rev (takeWhile is_ws (rev (trim_start s)))"
    using t unfolding trim_start_def by (metis takeWhile_dropWhile_id)
  moreover have "list_all is_ws (takeWhile is_ws s)" "list_all is_ws (rev (takeWhile is_ws (rev (trim_start s))))"
    by (auto simp: list_all_iff dest: set_takeWhileD)
  ultimately show ?thesis using a by (smt (verit) list_all_append list_all_iff)
qed

lemma command_allowed_chars:
  "command_allowed raw \<Longrightarrow> list_all (allowed_char (trim raw)) (trim raw)"
proof (induction raw rule: command_allowed.induct)
  case (1 raw)
  let ?cmd = "trim raw"
  from "1.prems" have ne: "?cmd \<noteq> []" and nc: "\<not> list_ex is_ascii_control ?cmd"
    by (auto simp: command_allowed.simps [of raw] Let_def split: if_splits)
  show ?case
  proof (cases "strip_prefix ''do '' ?cmd")
    case (Some inner)
    then have cmd: "?cmd = ''do '' @ inner" by (simp add: strip_prefix_Some)
    from "1.prems" ne nc Some consider
      (reads) "starts_with ''show '' inner" "command_allowed inner"
      | (clear) "shape_fits soft_clear (split_whitespace inner)" "args_ok soft_clear (split_whitespace inner)"
      by (auto simp: command_allowed.simps [of raw] Let_def)
    then have "list_all (allowed_char ?cmd) inner"
    proof cases
      case reads
      then obtain r where inner: "inner = ''show '' @ r" by (auto simp: starts_with_iff)
      have "\<not> is_ws (last inner)" using trim_ends [OF ne] cmd inner by (simp split: if_splits)
      then have "trim inner = inner" using inner by (intro trim_id) (auto simp: is_ws_def code_def)
      with "1.IH" [OF refl _ Some] ne nc reads have "list_all (allowed_char inner) inner" by simp
      moreover have "starts_with ''do show '' ?cmd" unfolding cmd inner by (simp add: starts_with_iff)
      ultimately show ?thesis by (auto simp: list_all_iff allowed_char_def)
    next
      case clear
      with fitting_tokens_safe shapes_safe [of soft_clear]
      have "list_all (list_all gate_char) (split_whitespace inner)" by simp
      with nc cmd show ?thesis by (intro words_allowed) (simp_all add: list_ex_iff)
    qed
    moreover have "allowed_char ?cmd (CHR ''d'')" "allowed_char ?cmd (CHR ''o'')" "allowed_char ?cmd (CHR '' '')"
      by (simp_all add: allowed_char_def gate_char_def name_char_def is_ascii_alphanumeric_def code_def
          is_ws_def is_ascii_control_def)
    ultimately show ?thesis by (simp add: cmd)
  next
    case None
    show ?thesis
    proof (cases "split_once (CHR ''|'') ?cmd")
      case none: None
      with None "1.prems" ne nc have "tokens_allowed (split_whitespace ?cmd)"
        by (auto simp: command_allowed.simps [of raw] Let_def)
      with nc show ?thesis by (intro words_allowed tokens_allowed_safe)
    next
      case (Some bf)
      obtain b f where bf: "bf = (b, f)" by fastforce
      with Some have cmd: "?cmd = b @ CHR ''|'' # f" by (simp add: split_once_Some)
      from None Some bf "1.prems" ne nc
      have fa: "filter_allowed (trim b) (trim f)" and ta: "tokens_allowed (split_whitespace (trim b))"
        by (auto simp: command_allowed.simps [of raw] Let_def)
      from fa have sb: "starts_with ''show '' (trim b)" by (simp add: filter_allowed_def)
      then have "b \<noteq> []" by (auto simp: starts_with_iff trim_def trim_start_def trim_end_def)
      moreover from this trim_ends [OF ne] cmd have "\<not> is_ws (hd b)" by simp
      ultimately have "starts_with ''show '' b" using sb starts_with_trim by blast
      then have sc: "starts_with ''show '' ?cmd" unfolding cmd by (auto simp: starts_with_iff)
      have "list_all (\<lambda>c. is_ws c \<or> gate_char c) b"
        using trim_covers [OF split_whitespace_covers [OF tokens_allowed_safe [OF ta]]] by (auto simp: list_all_iff)
      moreover have "list_all (\<lambda>c. is_ws c \<or> filter_char c) f"
        using fa trim_covers [of filter_char f] by (simp add: filter_allowed_def)
      moreover have "filter_char (CHR ''|'')" by (simp add: filter_char_def)
      ultimately show ?thesis using nc sc unfolding cmd list_all_iff list_ex_iff allowed_char_def
        by (simp add: ball_Un) blast
    qed
  qed
qed

subsection \<open>The interface context\<close>

text \<open>The reference: the last command before position \<open>i\<close> that changes the context entered an
  interface.\<close>

definition inside_interface :: "string list \<Rightarrow> nat \<Rightarrow> bool" where
  "inside_interface cs i =
     (\<exists>j < i. enters_interface (cs ! j) \<and> (\<forall>k. j < k \<and> k < i \<longrightarrow> \<not> leaves_interface (cs ! k)))"

lemma enters_not_shutdown: "enters_interface c \<Longrightarrow> \<not> bare_shutdown c"
proof -
  assume "enters_interface c"
  then obtain n where "split_whitespace c = [''interface'', n]"
    unfolding enters_interface_def by (simp split: list.splits)
  then show ?thesis by (simp add: bare_shutdown_def)
qed

lemma leaves_not_shutdown: "leaves_interface c \<Longrightarrow> \<not> bare_shutdown c"
proof -
  assume "leaves_interface c"
  then have "split_whitespace c \<in> {[''configure'', ''terminal''], [''configure'', ''terminal'', ''lock''],
      [''end''], [''exit'']} \<or> (\<exists>n. split_whitespace c = [''router'', ''bgp'', n])"
    unfolding leaves_interface_def Let_def by (simp split: list.splits)
  then show ?thesis unfolding bare_shutdown_def insert_iff empty_iff by (elim disjE exE) simp_all
qed

lemma inside_interface_0: "inside_interface cs 0 = False"
  by (simp add: inside_interface_def)

lemma inside_interface_Suc:
  "inside_interface (c # cs) (Suc i) \<longleftrightarrow>
     inside_interface cs i \<or> (enters_interface c \<and> (\<forall>k < i. \<not> leaves_interface (cs ! k)))"
    (is "?l \<longleftrightarrow> ?r")
proof
  assume ?l
  then obtain j where j: "j < Suc i" "enters_interface ((c # cs) ! j)"
    "\<forall>k. j < k \<and> k < Suc i \<longrightarrow> \<not> leaves_interface ((c # cs) ! k)"
    unfolding inside_interface_def by blast
  from j(3) have rest: "\<not> leaves_interface (cs ! k)" if "j < Suc k" "k < i" for k using that by force
  show ?r
  proof (cases j)
    case 0
    with j(2) rest show ?thesis by simp
  next
    case (Suc m)
    with j(1,2) rest show ?thesis unfolding inside_interface_def by (intro disjI1 exI [of _ m]) simp
  qed
next
  assume ?r
  then consider (later) j where "j < i" "enters_interface (cs ! j)"
      "\<forall>k. j < k \<and> k < i \<longrightarrow> \<not> leaves_interface (cs ! k)"
    | (now) "enters_interface c" "\<forall>k < i. \<not> leaves_interface (cs ! k)"
    unfolding inside_interface_def by blast
  then show ?l
  proof cases
    case later
    then show ?thesis unfolding inside_interface_def
      by (intro exI [of _ "Suc j"]) (auto simp: less_Suc_eq_0_disj)
  next
    case now
    then show ?thesis unfolding inside_interface_def
      by (intro exI [of _ 0]) (auto simp: less_Suc_eq_0_disj)
  qed
qed

lemma sequence_from_iff:
  "sequence_from b cs = Inr () \<longleftrightarrow>
     (\<forall>i < length cs. bare_shutdown (cs ! i) \<longrightarrow>
        inside_interface cs i \<or> (b \<and> (\<forall>k < i. \<not> leaves_interface (cs ! k))))"
proof (induction cs arbitrary: b)
  case (Cons c cs)
  let ?goal = "\<lambda>b cs. \<forall>i < length cs. bare_shutdown (cs ! i) \<longrightarrow>
        inside_interface cs i \<or> (b \<and> (\<forall>k < i. \<not> leaves_interface (cs ! k)))"
  have split: "?goal b (c # cs) \<longleftrightarrow> (bare_shutdown c \<longrightarrow> b) \<and>
      ?goal (enters_interface c \<or> b \<and> \<not> leaves_interface c) cs"
    unfolding length_Cons All_less_Suc2 nth_Cons_0 nth_Cons_Suc inside_interface_Suc
    by (simp only: inside_interface_0 not_less0) blast
  consider "enters_interface c" | "\<not> enters_interface c" "leaves_interface c"
    | "\<not> enters_interface c" "\<not> leaves_interface c" by blast
  then show ?case
  proof cases
    case 1
    then show ?thesis unfolding split by (simp add: Cons.IH enters_not_shutdown)
  next
    case 2
    then show ?thesis unfolding split by (simp add: Cons.IH leaves_not_shutdown)
  next
    case 3
    then show ?thesis unfolding split by (cases b; cases "bare_shutdown c") (simp_all add: Cons.IH)
  qed
qed simp

lemma check_allowed_iff:
  "check_allowed cs = Inr () \<longleftrightarrow> (\<forall>c \<in> set cs. command_allowed c) \<and> sequence_safe cs = Inr ()"
  by (cases "List.find (\<lambda>c. \<not> command_allowed c) cs")
    (auto simp: check_allowed_def dest: find_SomeD find_NoneD)

text \<open>The gate lets a plan through exactly when every command has an accepted shape and every
  bare shutdown stands inside the interface that the last context change entered: it can neither
  shut a BGP process nor an interface other than the named one.\<close>

theorem check_allowed_equivalence:
  "check_allowed cs = Inr () \<longleftrightarrow>
     list_all command_allowed cs \<and>
     {i. i < length cs \<and> bare_shutdown (cs ! i)} \<subseteq> {i. inside_interface cs i}"
  unfolding check_allowed_iff sequence_safe_def sequence_from_iff by (auto simp: list_all_iff)

subsection \<open>Commands that reach a router\<close>

lemma contains_set: "contains p s \<Longrightarrow> set p \<subseteq> set s"
proof (induction p s rule: contains.induct)
  case (2 p c cs)
  then show ?case by (force simp: starts_with_iff dest: arg_cong [where f = set])
qed simp

lemma bracket_refused: "\<not> allowed_char cmd (CHR ''<'')"
proof -
  have "\<not> gate_char (CHR ''<'')" "\<not> filter_char (CHR ''<'')" "\<not> is_ws (CHR ''<'')" by code_simp+
  then show ?thesis by (simp add: allowed_char_def)
qed

text \<open>C27: an accepted command is made of letters, digits and the marks of names, addresses and
  numbers, separated by whitespace without a line break; only a read may also carry the characters
  of an output filter. A command that still carries the placeholder of a deferred sequence number
  never passes.\<close>

theorem command_gate_alphabet:
  assumes "command_allowed cmd"
  shows "list_all (allowed_char (trim cmd)) (trim cmd) \<and> \<not> contains DEFERRED_SEQUENCE cmd"
proof
  show chars: "list_all (allowed_char (trim cmd)) (trim cmd)" by (rule command_allowed_chars [OF assms])
  show "\<not> contains DEFERRED_SEQUENCE cmd"
  proof
    assume "contains DEFERRED_SEQUENCE cmd"
    from contains_set [OF this] have "CHR ''<'' \<in> set cmd" by (simp add: DEFERRED_SEQUENCE_def)
    with trim_covers [OF chars] bracket_refused show False
      by (auto simp: list_all_iff is_ws_def code_def)
  qed
qed

lemma sample_allowed:
  "command_allowed ''interface Gi0/1''" "command_allowed ''configure terminal''"
  "command_allowed ''no shutdown''" "command_allowed ''end''" "command_allowed ''exit''"
  by (simp_all add: command_allowed.simps tokens_allowed_def command_shapes_def session_shapes_def
      route_shapes_def bgp_shapes_def interface_shapes_def tok_name_def name_char_def text_eval)

lemma command_gate_alphabet_witness:
  "list_all (allowed_char ''interface Gi0/1'') ''interface Gi0/1'' \<and>
   \<not> contains DEFERRED_SEQUENCE ''interface Gi0/1''"
  using command_gate_alphabet [OF sample_allowed(1)] by (simp add: trim_id is_ws_def code_def)

subsection \<open>What a locked plan does to the router\<close>

text \<open>The configuration parser of IOS, as far as a plan uses it: a stack of contexts, empty in
  privileged EXEC. \<open>end\<close> leaves configuration (and so releases the configuration lock of the
  session), \<open>exit\<close> leaves one context, \<open>do\<close> runs an EXEC command from any context. The
  trace lists the commands that act, each in its context.\<close>

definition ios_step :: "string \<Rightarrow> string list \<Rightarrow> string list \<times> (string list \<times> string) list" where
  "ios_step c ctx =
     (if ctx = [] then (if c = ''configure terminal'' then ([''configure''], []) else ([], [([], c)]))
      else if c = ''end'' then ([], [])
      else if c = ''exit'' then (tl ctx, [])
      else (case strip_prefix ''do '' c of
              Some x \<Rightarrow> (ctx, [([], x)])
            | None \<Rightarrow>
                if opens_subcontext c \<or> starts_with ''address-family '' c then (c # ctx, [])
                else if c = ''exit-address-family''
                then (if starts_with ''address-family '' (hd ctx) then tl ctx else ctx, [])
                else (ctx, [(ctx, c)])))"

fun ios_run :: "string list \<Rightarrow> string list \<Rightarrow> string list \<times> (string list \<times> string) list" where
  "ios_run ctx [] = (ctx, [])"
| "ios_run ctx (c # cs) =
     (let (ctx', t) = ios_step c ctx; (ctx'', t') = ios_run ctx' cs in (ctx'', t @ t'))"

lemma ios_run_append:
  "ios_run ctx (xs @ ys) =
     (let (ctx', t) = ios_run ctx xs; (ctx'', t') = ios_run ctx' ys in (ctx'', t @ t'))"
  by (induction xs arbitrary: ctx) (auto simp: Let_def split: prod.splits)

lemma ios_run_snoc:
  "ios_run ctx (cs @ [c]) =
     (fst (ios_step c (fst (ios_run ctx cs))), snd (ios_run ctx cs) @ snd (ios_step c (fst (ios_run ctx cs))))"
  by (simp add: ios_run_append Let_def split: prod.split)

fun stays_locked :: "string list \<Rightarrow> string list \<Rightarrow> bool" where
  "stays_locked ctx [] = (ctx \<noteq> [])"
| "stays_locked ctx (c # cs) = (ctx \<noteq> [] \<and> stays_locked (fst (ios_step c ctx)) cs)"

lemma stays_locked_snoc:
  "stays_locked ctx (cs @ [c]) \<longleftrightarrow> stays_locked ctx cs \<and> fst (ios_run ctx (cs @ [c])) \<noteq> []"
proof (induction cs arbitrary: ctx)
  case Nil
  then show ?case by (simp add: Let_def split: prod.split)
next
  case (Cons d cs)
  then show ?case by (auto simp: Let_def split: prod.splits)
qed

text \<open>The contexts of a session that holds the lock.\<close>

definition locked_ctx :: "bool \<Rightarrow> string list \<Rightarrow> bool" where
  "locked_ctx nested ctx \<longleftrightarrow> ctx \<noteq> [] \<and> last ctx = ''configure'' \<and>
     (nested \<longrightarrow> (\<exists>x \<in> set ctx. opens_subcontext x))"

lemma configure_plain: "\<not> opens_subcontext ''configure''" "\<not> starts_with ''address-family '' ''configure''"
  by (simp_all add: opens_subcontext_def starts_with_def)

lemma locked_ctx_tl: "locked_ctx nested ctx \<Longrightarrow> hd ctx \<noteq> ''configure'' \<or> nested \<Longrightarrow> locked_ctx False (tl ctx)"
  using configure_plain by (cases ctx) (auto simp: locked_ctx_def split: if_splits)

lemma address_family_plain: "starts_with ''address-family '' c \<Longrightarrow> \<not> opens_subcontext c"
  by (auto simp: opens_subcontext_def starts_with_iff)

lemma locked_ctx_step:
  assumes "locked_ctx nested ctx" "c \<noteq> ''end''" "c \<noteq> ''exit''"
  shows "locked_ctx (nested \<or> opens_subcontext c) (fst (ios_step c ctx))"
proof -
  from assms(1) have ne: "ctx \<noteq> []" by (simp add: locked_ctx_def)
  show ?thesis
  proof (cases "strip_prefix ''do '' c")
    case (Some x)
    then have "\<not> opens_subcontext c" by (auto simp: strip_prefix_Some opens_subcontext_def starts_with_iff)
    with Some ne assms show ?thesis by (simp add: ios_step_def)
  next
    case None
    have af: "locked_ctx nested (tl ctx)" if "starts_with ''address-family '' (hd ctx)"
      using that assms(1) configure_plain address_family_plain
      by (cases ctx) (auto simp: locked_ctx_def split: if_splits)
    have "\<not> opens_subcontext ''exit-address-family''" by (simp add: opens_subcontext_def starts_with_def)
    with None ne af assms show ?thesis
      by (cases "opens_subcontext c \<or> starts_with ''address-family '' c")
        (auto simp: ios_step_def locked_ctx_def)
  qed
qed

text \<open>The commands read so far acted on the router as the commands sent so far.\<close>

definition envelope_inv :: "string list \<Rightarrow> envelope \<Rightarrow> bool" where
  "envelope_inv seen st =
     (let (ctx, t) = ios_run [] seen; (ctx', t') = ios_run [''configure''] (en_out st)
      in en_entered st \<and> en_after_end st = en_ended st \<and> t = t' \<and>
         stays_locked [''configure''] (en_out st) \<and> locked_ctx (en_nested st) ctx' \<and>
         (if en_ended st then ctx = [] else ctx = ctx'))"

lemma do_step: "ctx \<noteq> [] \<Longrightarrow> ios_step (''do '' @ c) ctx = (ctx, [([], c)])"
  by (simp add: ios_step_def)

lemma envelope_step:
  assumes inv: "envelope_inv seen st" and step: "locked_step False c st = Inr st'"
  shows "envelope_inv (seen @ [trim c]) st'"
proof -
  let ?c = "trim c"
  obtain ctx t where r: "ios_run [] seen = (ctx, t)" by fastforce
  obtain ctx' t' where r': "ios_run [''configure''] (en_out st) = (ctx', t')" by fastforce
  from inv r r' have f: "en_entered st" "en_after_end st = en_ended st" "t = t'"
    "stays_locked [''configure''] (en_out st)" "locked_ctx (en_nested st) ctx'"
    "if en_ended st then ctx = [] else ctx = ctx'"
    by (simp_all add: envelope_inv_def)
  from f(5) have ne: "ctx' \<noteq> []" by (simp add: locked_ctx_def)
  have nc: "?c \<noteq> ''configure terminal''" "?c \<noteq> ''exit''" "?c \<noteq> ''configure terminal lock''"
    using step by (auto simp: locked_step_def Let_def split: if_splits)
  consider (fin) "?c = ''end''" "\<not> en_ended st"
      "st' = st\<lparr>en_out := (if en_nested st then en_out st @ [''exit''] else en_out st),
                en_nested := False, en_after_end := True, en_ended := True\<rparr>"
    | (clear) "?c \<noteq> ''end''" "en_ended st" "st' = st\<lparr>en_out := en_out st @ [''do '' @ ?c]\<rparr>"
    | (plain) "?c \<noteq> ''end''" "\<not> en_ended st"
      "st' = st\<lparr>en_nested := (en_nested st \<or> opens_subcontext ?c), en_out := en_out st @ [?c]\<rparr>"
    using step nc f(1,2) by (auto simp: locked_step_def Let_def split: if_splits)
  then show ?thesis
  proof cases
    case fin
    with f(6) have "ctx = ctx'" by simp
    then have "ios_step ?c ctx = ([], [])" using ne fin(1) by (simp add: ios_step_def)
    moreover have "ios_step ''exit'' ctx' = (tl ctx', [])" using ne by (simp add: ios_step_def)
    moreover have "en_nested st \<Longrightarrow> locked_ctx False (tl ctx')" using locked_ctx_tl f(5) by blast
    moreover from this have "en_nested st \<Longrightarrow> tl ctx' \<noteq> []" by (simp add: locked_ctx_def)
    moreover have "locked_ctx False ctx'" using f(5) by (simp add: locked_ctx_def)
    ultimately show ?thesis using f fin r r'
      by (simp add: envelope_inv_def ios_run_snoc stays_locked_snoc)
  next
    case clear
    with f(6) have "ctx = []" by simp
    then have "ios_step ?c ctx = ([], [([], ?c)])" using nc by (simp add: ios_step_def)
    then show ?thesis using f clear r r' ne do_step [OF ne, of ?c]
      by (simp add: envelope_inv_def ios_run_snoc stays_locked_snoc)
  next
    case plain
    with f(6) have "ctx = ctx'" by simp
    moreover have l: "locked_ctx (en_nested st \<or> opens_subcontext ?c) (fst (ios_step ?c ctx'))"
      using locked_ctx_step f(5) plain(1) nc(2) by blast
    moreover from l have "fst (ios_step ?c ctx') \<noteq> []" by (simp add: locked_ctx_def)
    ultimately show ?thesis using f plain r r'
      by (simp add: envelope_inv_def ios_run_snoc stays_locked_snoc)
  qed
qed

lemma locked_from_inv:
  "envelope_inv seen st \<Longrightarrow> locked_from False cs st = Inr st' \<Longrightarrow> envelope_inv (seen @ map trim cs) st'"
proof (induction cs arbitrary: seen st)
  case (Cons c cs)
  then obtain st1 where s: "locked_step False c st = Inr st1" "locked_from False cs st1 = Inr st'"
    by (auto simp: res_simps)
  from Cons.IH [OF envelope_step [OF Cons.prems(1) s(1)] s(2)] show ?case by simp
qed simp

lemma never_entered:
  "locked_from False cs st = Inr st' \<Longrightarrow> \<not> en_entered st \<Longrightarrow> \<not> en_entered st'"
proof (induction cs arbitrary: st)
  case (Cons c cs)
  then obtain st1 where s: "locked_step False c st = Inr st1" "locked_from False cs st1 = Inr st'"
    by (auto simp: res_simps)
  from s(1) Cons.prems(2) have "\<not> en_entered st1"
    by (auto simp: locked_step_def Let_def split: if_splits)
  with Cons.IH s(2) show ?case by blast
qed simp

text \<open>C13: the commands sent while the native configuration lock is held do to the router exactly
  what the prepared plan would do on its own, each in the same context and in the same order, and
  the session stays in configuration mode after every one of them, so the lock is never released
  between the configuration commands and the soft clear that follows them.\<close>

theorem locked_plan_equivalence:
  assumes "locked_commands cs = Inr out"
  shows "snd (ios_run [''configure''] out) = snd (ios_run [] (map trim cs)) \<and>
     stays_locked [''configure''] out \<and> fst (ios_run [] (map trim cs)) = []"
proof -
  let ?st0 = "\<lparr>en_out = [], en_nested = False, en_after_end = False, en_entered = False, en_ended = False\<rparr>"
  from assms obtain st where l: "locked_from True cs ?st0 = Inr st" "en_entered st" "en_ended st" "en_out st = out"
    by (auto simp: locked_commands_def res_simps split: if_splits)
  then obtain c cs' where cs: "cs = c # cs'" by (cases cs) auto
  with l(1) obtain st1 where s: "locked_step True c ?st0 = Inr st1" "locked_from False cs' st1 = Inr st"
    by (auto simp: res_simps)
  from never_entered [OF s(2)] l(2) have "en_entered st1" by blast
  with s(1) have c: "trim c = ''configure terminal''" and "st1 = ?st0\<lparr>en_entered := True\<rparr>"
    by (auto simp: locked_step_def Let_def split: if_splits)
  then have "envelope_inv [trim c] st1"
    by (simp add: envelope_inv_def ios_step_def locked_ctx_def)
  from locked_from_inv [OF this s(2)] have "envelope_inv (map trim cs) st" by (simp add: cs)
  with l(3,4) show ?thesis by (auto simp: envelope_inv_def split: prod.splits)
qed

lemma locked_plan_example:
  "locked_commands [''configure terminal'', ''router bgp 65010'', ''neighbor 10.0.0.1 prefix-list L out'',
      ''end'', ''clear ip bgp 10.0.0.1 soft out''] =
   Inr [''router bgp 65010'', ''neighbor 10.0.0.1 prefix-list L out'', ''exit'',
      ''do clear ip bgp 10.0.0.1 soft out'']"
  by code_simp

lemma locked_plan_equivalence_witness:
  "snd (ios_run [''configure''] [''router bgp 65010'', ''neighbor 10.0.0.1 prefix-list L out'', ''exit'',
      ''do clear ip bgp 10.0.0.1 soft out'']) =
   snd (ios_run [] (map trim [''configure terminal'', ''router bgp 65010'',
      ''neighbor 10.0.0.1 prefix-list L out'', ''end'', ''clear ip bgp 10.0.0.1 soft out'']))"
  using locked_plan_equivalence [OF locked_plan_example] by blast

end
