(* ===== verification/Verdicts.thy ===== *)
theory Verdicts
  imports Evidence Templates
begin

text \<open>
  The pure half of \<open>src/backend-rust/src/reroute/executor.rs\<close>: what an open session does
  with a prefix-list decision, how the output of a verification command is judged, and the
  terminal state that follows.
\<close>

subsection \<open>From a prefix-list decision to a session\<close>

datatype session_plan =
    Push "string list"
  | Skip pl_note
  | RefuseSession refusal

definition session_plan_for ::
    "sequence_plan \<Rightarrow> template \<Rightarrow> json \<Rightarrow>
     render_error + session_plan \<times> (u32 \<times> rendered_plan option) option" where
  "session_plan_for decision t params =
     (case decision of
        Refuse reason \<Rightarrow> Inr (RefuseSession reason, None)
      | AlreadySatisfied sequence note \<Rightarrow>
          Inr (Skip note, map_option (\<lambda>s. (s, None)) sequence)
      | Use sequence \<Rightarrow>
          and_then (render_with_sequence t params sequence) (\<lambda>(concrete, _).
            Inr (Push (rp_commands concrete), Some (sequence, Some concrete))))"

subsection \<open>Verdicts and terminal states\<close>

datatype verdict = Pass | Fail | UncertainVerdict | NoVerdict

datatype terminal_state = StateSucceeded | StateFailed | StateUncertain

definition final_state_for :: "bool \<Rightarrow> verdict \<Rightarrow> bool \<Rightarrow> terminal_state" where
  "final_state_for applied_ok verdict require_verification =
     (if \<not> applied_ok then StateUncertain
      else (case verdict of
              Pass \<Rightarrow> StateSucceeded
            | Fail \<Rightarrow> StateFailed
            | UncertainVerdict \<Rightarrow> StateUncertain
            | NoVerdict \<Rightarrow> if require_verification then StateUncertain else StateSucceeded))"

definition judge :: "string \<Rightarrow> verify_step \<Rightarrow> bool" where
  "judge output v =
     (let hay = to_lowercase output in
      (case vs_expect v of Some s \<Rightarrow> contains (to_lowercase s) hay | None \<Rightarrow> True) \<and>
      (case vs_reject v of Some s \<Rightarrow> \<not> contains (to_lowercase s) hay | None \<Rightarrow> True))"

subsection \<open>Filtered static routes\<close>

text \<open>The four shapes of a static route line: IPv4 network, mask and next hop or IPv6 prefix and
  next hop, each with an optional tag.\<close>

datatype route_words =
    RouteV4 string string string "string option"
  | RouteV6 string string "string option"

fun parse_route_words :: "string list \<Rightarrow> route_words option" where
  "parse_route_words [a, b, p, h] =
     (if a = ''ipv6'' \<and> b = ''route'' then Some (RouteV6 p h None) else None)"
| "parse_route_words [a, b, n, m, h] =
     (if a = ''ip'' \<and> b = ''route'' then Some (RouteV4 n m h None) else None)"
| "parse_route_words [a, b, p, h, k, t] =
     (if a = ''ipv6'' \<and> b = ''route'' \<and> k = ''tag'' then Some (RouteV6 p h (Some t)) else None)"
| "parse_route_words [a, b, n, m, h, k, t] =
     (if a = ''ip'' \<and> b = ''route'' \<and> k = ''tag'' then Some (RouteV4 n m h (Some t)) else None)"
| "parse_route_words _ = None"

definition parse_tag :: "string \<Rightarrow> u32 option" where
  "parse_tag t = parse_uint t"

fun route_supported :: "route_words \<Rightarrow> bool" where
  "route_supported (RouteV4 n m h tag) =
     (parse_ipv4 n \<noteq> None \<and> parse_ipv4 m \<noteq> None \<and>
      (case tag of Some t \<Rightarrow> parse_tag t \<noteq> None | None \<Rightarrow> True))"
| "route_supported (RouteV6 p h tag) =
     ((case normalize_cidr p of Some q \<Rightarrow> CHR '':'' \<in> set q | None \<Rightarrow> False) \<and>
      (case tag of Some t \<Rightarrow> parse_tag t \<noteq> None | None \<Rightarrow> True))"

fun same_tag :: "string option \<Rightarrow> string option \<Rightarrow> bool" where
  "same_tag None None = True"
| "same_tag (Some a) (Some b) = (parse_tag a = parse_tag b)"
| "same_tag _ _ = False"

fun same_static_route :: "route_words \<Rightarrow> route_words \<Rightarrow> bool" where
  "same_static_route (RouteV4 wn wm wh wt) (RouteV4 an am ah at) =
     (parse_ipv4 wn = parse_ipv4 an \<and> parse_ipv4 wm = parse_ipv4 am \<and> wh = ah \<and> same_tag wt at)"
| "same_static_route (RouteV6 wp wh wt) (RouteV6 ap ah at) =
     (normalize_cidr wp = normalize_cidr ap \<and> wh = ah \<and> same_tag wt at)"
| "same_static_route _ _ = False"

definition filter_pattern :: "string \<Rightarrow> string option" where
  "filter_pattern command =
     Option.bind (strip_prefix ''show running-config | include ^'' command) (strip_suffix ''$'')"

definition legacy_static_filter_matches :: "string \<Rightarrow> string \<Rightarrow> bool" where
  "legacy_static_filter_matches command output =
     (case Option.bind (filter_pattern command) (\<lambda>p. parse_route_words (split_whitespace p)) of
        None \<Rightarrow> False
      | Some wanted \<Rightarrow>
          route_supported wanted \<and>
          list_all (\<lambda>line. case parse_route_words (split_whitespace line) of
              None \<Rightarrow> False | Some actual \<Rightarrow> same_static_route wanted actual) (lines output))"

definition mss_filter_interface :: "string \<Rightarrow> string option" where
  "mss_filter_interface command =
     Option.bind (strip_prefix ''show running-config interface '' command) (\<lambda>rest.
     Option.bind (strip_suffix '' | include ip tcp adjust-mss'' rest) (\<lambda>n.
       if trim n \<noteq> [] \<and> (\<forall>c \<in> set (trim n). \<not> is_ws c) then Some (trim n) else None))"

definition mss_line :: "string \<Rightarrow> bool" where
  "mss_line line =
     (case split_whitespace line of
        [a, b, c, v] \<Rightarrow> a = ''ip'' \<and> b = ''tcp'' \<and> c = ''adjust-mss'' \<and> (parse_uint v :: u32 option) \<noteq> None
      | _ \<Rightarrow> False)"

definition legacy_mss_filter_matches :: "string \<Rightarrow> string \<Rightarrow> bool" where
  "legacy_mss_filter_matches command output =
     (mss_filter_interface command \<noteq> None \<and> list_all mss_line (lines output))"

subsection \<open>Structured outputs\<close>

lemma strip_prefix_length: "strip_prefix p s = Some r \<Longrightarrow> length s = length p + length r"
  by (induction p s rule: strip_prefix.induct) (auto split: if_splits)

text \<open>\<open>trim_start_matches\<close> strips the pattern as often as it occurs.\<close>

function trim_start_matches :: "string \<Rightarrow> string \<Rightarrow> string" where
  "trim_start_matches p s =
     (case strip_prefix p s of
        None \<Rightarrow> s
      | Some r \<Rightarrow> if p = [] then s else trim_start_matches p r)"
  by pat_completeness auto

termination
  by (relation "measure (\<lambda>(p, s). length s)") (auto dest: strip_prefix_length)

declare trim_start_matches.simps [simp del]

definition interface_answer :: "string \<Rightarrow> string \<Rightarrow> bool" where
  "interface_answer command output =
     (let interface = trim (trim_start_matches ''show interfaces '' command) in
      list_ex (\<lambda>line. starts_with (interface @ '' is '') (trim_start line)) (lines output))"

definition advertised_answer :: "string \<Rightarrow> verify_step \<Rightarrow> bool" where
  "advertised_answer output v =
     ((case vs_expect v of Some p \<Rightarrow> has_exact_cidr output p | None \<Rightarrow> False) \<or>
      complete_advertisement_table output)"

definition route_headers :: "string \<Rightarrow> string list" where
  "route_headers output =
     List.map_filter (\<lambda>line. strip_prefix ''Routing entry for '' (trim line)) (lines output)"

definition observed_route :: "string \<Rightarrow> string" where
  "observed_route rest =
     rev (dropWhile (\<lambda>c. c = CHR '','')
       (rev (case split_whitespace rest of [] \<Rightarrow> [] | w # _ \<Rightarrow> w)))"

definition no_route_line :: "string \<Rightarrow> bool" where
  "no_route_line line \<longleftrightarrow> to_ascii_lowercase (trim line) \<in>
     {''% network not in table'', ''network not in table'', ''% route not found'', ''route not found''}"

definition route_answer :: "string \<Rightarrow> string \<Rightarrow> bool" where
  "route_answer command output =
     (let requested = (case rev (split_whitespace command) of [] \<Rightarrow> [] | w # _ \<Rightarrow> w);
          headers = route_headers output
      in (headers \<noteq> [] \<and>
          list_all (\<lambda>rest. observed_route rest = requested \<or>
            starts_with (requested @ ''/'') (observed_route rest)) headers) \<or>
         list_ex no_route_line (lines output))"

definition interface_config_answer :: "string \<Rightarrow> string \<Rightarrow> bool" where
  "interface_config_answer command output =
     (List.map_filter (\<lambda>line. strip_prefix ''interface '' (trim line)) (lines output)
        = [trim (trim_start_matches ''show running-config interface '' command)])"

definition structured :: "string \<Rightarrow> string \<Rightarrow> verify_step \<Rightarrow> bool" where
  "structured command output v =
     (let filtered_static = legacy_static_filter_matches command [];
          filtered_mss = legacy_mss_filter_matches command []
      in if starts_with ''show interfaces '' command then interface_answer command output
         else if starts_with ''show ip bgp neighbors '' command \<and>
                 ends_with '' advertised-routes'' command then advertised_answer output v
         else if starts_with ''show ip route '' command \<or> starts_with ''show ipv6 route '' command
         then route_answer command output
         else if starts_with ''show running-config interface '' command \<and>
                 \<not> (filtered_static \<or> filtered_mss) then interface_config_answer command output
         else if filtered_static then legacy_static_filter_matches command output
         else if filtered_mss then legacy_mss_filter_matches command output
         else False)"

definition filtered_command :: "string \<Rightarrow> bool" where
  "filtered_command command =
     (legacy_static_filter_matches command [] \<or> legacy_mss_filter_matches command [])"

definition legacy_verdict :: "string \<Rightarrow> verify_step \<Rightarrow> verdict" where
  "legacy_verdict output v =
     (let command = trim (vs_command v) in
      if trim output = [] \<and> \<not> filtered_command command then UncertainVerdict
      else if \<not> structured command output v then UncertainVerdict
      else if judge output v then Pass else Fail)"

subsection \<open>Properties\<close>

lemma succeeded_iff_verified:
  "final_state_for applied v required = StateSucceeded \<longleftrightarrow>
     applied \<and> (v = Pass \<or> v = NoVerdict \<and> \<not> required)"
  by (cases v) (auto simp: final_state_for_def)

lemma not_applied_uncertain [simp]: "final_state_for False v required = StateUncertain"
  by (simp add: final_state_for_def)

lemma pass_structured:
  "legacy_verdict output v = Pass \<Longrightarrow>
   judge output v \<and> structured (trim (vs_command v)) output v \<and>
   (filtered_command (trim (vs_command v)) \<or> trim output \<noteq> [])"
  by (auto simp: legacy_verdict_def Let_def split: if_splits)

lemma static_filter_lines:
  assumes "legacy_static_filter_matches command output" "filter_pattern command = Some p"
    and "parse_route_words (split_whitespace p) = Some wanted" "line \<in> set (lines output)"
  shows "\<exists>actual. parse_route_words (split_whitespace line) = Some actual \<and> same_static_route wanted actual"
  using assms
  by (cases "parse_route_words (split_whitespace line)")
    (auto simp: legacy_static_filter_matches_def list_all_iff)

lemma static_filter_structured:
  assumes "structured command output v" "legacy_static_filter_matches command []"
  shows "legacy_static_filter_matches command output"
proof -
  from assms(2) obtain r where c: "strip_prefix ''show running-config | include ^'' command = Some r"
    by (auto simp: legacy_static_filter_matches_def filter_pattern_def split: option.splits
        bind_splits)
  then have "command = ''show running-config | include ^'' @ r" by (simp add: strip_prefix_Some)
  with assms show ?thesis
    by (simp add: structured_def Let_def starts_with_def)
qed

text \<open>The check of a filtered static route passes only on an output in which every line is
  that very route, by network, mask, next hop and tag; a line of any other route, or any other
  text, leaves the action uncertain or failed.\<close>

theorem static_check_pass_exact:
  assumes "legacy_verdict output v = Pass" "legacy_static_filter_matches (trim (vs_command v)) []"
    and "filter_pattern (trim (vs_command v)) = Some p" "parse_route_words (split_whitespace p) = Some wanted"
  shows "judge output v \<and> (\<forall>line \<in> set (lines output). \<exists>actual.
     parse_route_words (split_whitespace line) = Some actual \<and> same_static_route wanted actual)"
  using pass_structured [OF assms(1)] static_filter_structured [OF _ assms(2)]
    static_filter_lines [OF _ assms(3,4)] by blast

lemma session_push_cases:
  "session_plan_for decision t params = Inr (Push commands, persist) \<longleftrightarrow>
      (\<exists>sequence concrete stored. decision = Use sequence \<and>
         render_with_sequence t params sequence = Inr (concrete, stored) \<and>
         commands = rp_commands concrete \<and> persist = Some (sequence, Some concrete))"
  by (auto simp: session_plan_for_def and_then_Inr_iff split: sequence_plan.splits)

text \<open>When an open session decides to push an insertion, the read list has no entry under
  the chosen sequence number, that number is what is recorded before the push, and the commands are
  fully resolved: they are what the template renders from the recorded parameters.\<close>

theorem session_push_resolved:
  assumes "session_plan_for (plan_add out lst pfx) t params = Inr (Push commands, persist)"
    and "case as_object params of Some m \<Rightarrow> bt_ok m | None \<Rightarrow> True"
  shows "\<exists>es s plan stored. parse_prefix_list out lst = Inr es \<and> s \<notin> pl_sequence ` set es \<and>
     persist = Some (s, Some plan) \<and> commands = rp_commands plan \<and>
     json_get stored SEQUENCE_PARAM = Some (JStr (show_word s)) \<and> render t stored = Inr plan \<and>
     (\<forall>c \<in> set commands. \<not> contains DEFERRED_SEQUENCE c)"
proof -
  from assms(1) obtain s plan stored where d: "plan_add out lst pfx = Use s"
    and r: "render_with_sequence t params s = Inr (plan, stored)"
    and p: "commands = rp_commands plan" "persist = Some (s, Some plan)"
    unfolding session_push_cases by blast
  from d obtain es net len where e: "parse_prefix_list out lst = Inr es"
    "plan_add_entries es lst pfx net len = Use s"
    using plan_add_parsed by metis
  from e(2) have "s \<notin> pl_sequence ` set es" by (auto elim: plan_add_Use_cases)
  with e(1) p render_with_sequence_resolved [OF r assms(2)] show ?thesis by auto
qed

definition permit_template :: template where
  "permit_template = sample_template\<lparr>tp_name := ''prefix_list_permit'',
     tp_parameter_schema := JObj [(''prefix'', JObj [(''required'', JBool True), (''type'', JStr ''cidr'')]),
                                  (''sequence'', JObj [(''type'', JStr ''seq'')])],
     tp_plan := JObj [(''apply'', JArr [JStr ''ip prefix-list L seq {sequence} permit {prefix}'']),
                      (''config_mode'', JBool True)],
     tp_verification := JNull\<rparr>"

definition permit_params :: json where
  "permit_params = JObj [(''prefix'', JStr ''10.0.1.0/24'')]"

lemma permit_add: "plan_add sample_list ''L'' ''10.0.1.0/24'' = Use 7"
  by (simp add: plan_add_def sample_parse sample_prefix plan_add_entries_def entry_matches_def
        last_sequence_def midpoint_def free_or_refuse_def MIN_SEQ_def
        MAX_SEQ_def word_le_nat_alt)

lemma permit_rendered:
  "render_with_sequence permit_template permit_params 7 =
     Inr (\<lparr>rp_template_id = 3, rp_template_name = ''prefix_list_permit'', rp_config_mode = True,
           rp_commands = [''configure terminal'', ''ip prefix-list L seq 7 permit 10.0.1.0/24'', ''end''],
           rp_verify = None, rp_sequence_pending = False\<rparr>,
          JObj [(''prefix'', JStr ''10.0.1.0/24''), (''sequence'', JStr ''7'')])"
proof -
  have m: "mask4 24 = 4294967040" by code_simp
  have c: "parse_cidr_v4 ''10.0.1.0/24'' = Inr (''10.0.1.0'', ''255.255.255.0'', 24, ''10.0.1.0/24'')"
    by (simp_all add: parse_cidr_v4_def ok_or_def m ipv4_of_u32_def show_nat.simps text_eval)
  show ?thesis
    by (simp add: render_with_sequence_def render_def permit_template_def permit_params_def
        sample_template_def map_err_def ok_or_def substitute.simps render_verify_def
        DEFERRED_SEQUENCE_def SEQUENCE_PARAM_def validate_and_expand_def unknown_param_def
        expand_param_def given_value_def schema_default_def param_type_def get_str_def
        insert_typed_def insert_cidr_def enforce_min_len_def c MIN_SEQ_def MAX_SEQ_def
        show_nat.simps text_eval)
qed

lemma session_push_resolved_witness:
  "\<exists>es s plan stored. parse_prefix_list sample_list ''L'' = Inr es \<and> s \<notin> pl_sequence ` set es \<and>
     render permit_template stored = Inr plan \<and>
     list_all (\<lambda>c. \<not> contains DEFERRED_SEQUENCE c)
       [''configure terminal'', ''ip prefix-list L seq 7 permit 10.0.1.0/24'', ''end'']"
proof -
  have "session_plan_for (plan_add sample_list ''L'' ''10.0.1.0/24'') permit_template permit_params =
      Inr (Push [''configure terminal'', ''ip prefix-list L seq 7 permit 10.0.1.0/24'', ''end''],
        Some (7, Some (fst (projr (render_with_sequence permit_template permit_params 7)))))"
    by (simp add: session_plan_for_def permit_add permit_rendered)
  from session_push_resolved [OF this] show ?thesis
    by (auto simp: permit_params_def bt_ok_def)
qed

definition static_check :: verify_step where
  "static_check = \<lparr>vs_command = ''show running-config | include ^ip route 10.9.0.0 255.255.0.0 Null0$'',
     vs_expect = Some ''ip route 10.9.0.0 255.255.0.0 Null0'', vs_reject = None\<rparr>"

lemma static_check_pass_exact_witness:
  "list_all (\<lambda>line. \<exists>actual. parse_route_words (split_whitespace line) = Some actual \<and>
       same_static_route (RouteV4 ''10.9.0.0'' ''255.255.0.0'' ''Null0'' None) actual)
     (lines ''ip route 10.9.0.0 255.255.0.0 Null0'')"
proof -
  have "legacy_verdict ''ip route 10.9.0.0 255.255.0.0 Null0'' static_check = Pass"
    "legacy_static_filter_matches (trim (vs_command static_check)) []"
    "filter_pattern (trim (vs_command static_check)) = Some ''ip route 10.9.0.0 255.255.0.0 Null0''"
    "parse_route_words (split_whitespace ''ip route 10.9.0.0 255.255.0.0 Null0'') =
       Some (RouteV4 ''10.9.0.0'' ''255.255.0.0'' ''Null0'' None)"
    by code_simp+
  from static_check_pass_exact [OF this] show ?thesis by (simp add: list_all_iff)
qed

end
