(* ===== verification/Ssh_Session.thy ===== *)
theory Ssh_Session
  imports Ssh_Gate Verdicts
begin

text \<open>
  One SSH session with an IOS router, from \<open>src/backend-rust/src/ssh/mod.rs\<close>: reading a
  response up to the device's prompt, running one command, running a whole plan, and the evidence
  that a failed plan leaves. The network is a parameter: a \<open>line\<close> over a state \<open>'s\<close>
  says whether the session budget has run out and answers each sent line with the messages of the
  channel, each with the answer of the clock after it.
\<close>

subsection \<open>Prompts\<close>

definition prompt_shaped :: "string \<Rightarrow> bool" where
  "prompt_shaped l = (2 \<le> length l \<and> CHR '' '' \<notin> set l \<and> (ends_with ''#'' l \<or> ends_with ''>'' l))"

definition line_noise :: "char \<Rightarrow> bool" where
  "line_noise c \<longleftrightarrow> c = CHR '' '' \<or> c = carriage_return \<or> c = newline"

definition tail_prompt :: "string \<Rightarrow> string option" where
  "tail_prompt buf =
     (case rev (lines (rev (dropWhile line_noise (rev buf)))) of
        [] \<Rightarrow> None
      | l # _ \<Rightarrow> if prompt_shaped (trim l) then Some (trim l) else None)"

definition prompt_hostname :: "string \<Rightarrow> string" where
  "prompt_hostname prompt =
     hd (split_char (CHR ''('')
           (rev (dropWhile (\<lambda>c. c = CHR ''#'' \<or> c = CHR ''>'') (rev prompt))))"

definition prompt_matcher :: "string \<Rightarrow> string \<Rightarrow> bool" where
  "prompt_matcher hostname buf =
     (case tail_prompt buf of
        None \<Rightarrow> False | Some p \<Rightarrow> prompt_hostname p = hostname \<and> hostname \<noteq> [])"

subsection \<open>Reading a response\<close>

text \<open>A message of the channel; \<open>Quiet\<close> is the expiry of the per-chunk timeout. The flag says
  that a time budget had expired when the loop looked after the message.\<close>

datatype channel_event = Data string | Extended string | ClosedChannel | OtherMessage | Quiet

datatype read_fault = ClosedEarly | Stalled | OverBudget

fun read_until ::
    "(string \<Rightarrow> bool) \<Rightarrow> string \<Rightarrow> (channel_event \<times> bool) list \<Rightarrow> read_fault \<times> string + string" where
  "read_until done_at buf [] = (if done_at buf then Inr buf else Inl (ClosedEarly, buf))"
| "read_until done_at buf ((ev, late) # rest) =
     (case ev of
        Data d \<Rightarrow>
          if done_at (buf @ d) then Inr (buf @ d)
          else if late then Inl (OverBudget, buf @ d) else read_until done_at (buf @ d) rest
      | Extended d \<Rightarrow>
          if late then Inl (OverBudget, buf @ d) else read_until done_at (buf @ d) rest
      | ClosedChannel \<Rightarrow> if done_at buf then Inr buf else Inl (ClosedEarly, buf)
      | OtherMessage \<Rightarrow> if late then Inl (OverBudget, buf) else read_until done_at buf rest
      | Quiet \<Rightarrow> if done_at buf then Inr buf else Inl (Stalled, buf))"

fun drop_trailing :: "string list \<Rightarrow> string list" where
  "drop_trailing [] = []"
| "drop_trailing (l # ls) =
     (if trim l = [] \<or> prompt_shaped (trim l) then drop_trailing ls else l # ls)"

definition strip_returns :: "string \<Rightarrow> string" where
  "strip_returns l = rev (dropWhile (\<lambda>c. c = carriage_return) (rev l))"

definition clean_output :: "string \<Rightarrow> string \<Rightarrow> string" where
  "clean_output raw command =
     (let ls = map strip_returns (split_char newline raw);
          body = (case ls of l # rest \<Rightarrow> if trim l = trim command then rest else ls | [] \<Rightarrow> [])
      in trim (join [newline] (rev (drop_trailing (rev body)))))"

definition error_markers :: "string list" where
  "error_markers = [''% Invalid input'', ''ommand authorization failed'', ''not authorized'',
     ''% Incomplete command'', ''% Ambiguous command'', ''% Permission denied'',
     ''% Configuration locked'', ''% Configuration lock failed'', ''%Error'', ''% Error'']"

definition ios_command_error :: "string \<Rightarrow> string option" where
  "ios_command_error output =
     List.find (\<lambda>l. list_ex (\<lambda>m. contains m l) error_markers) (map trim (lines output))"

subsection \<open>One command\<close>

record 's line =
  ln_late :: "'s \<Rightarrow> bool"
  ln_send :: "string \<Rightarrow> 's \<Rightarrow> (string + (channel_event \<times> bool) list) \<times> 's"

datatype run_error =
    SessionOverBudget string
  | SendFailed string
  | IncompleteResponse read_fault string
  | CommandRejected string string string

definition session_run ::
    "'s line \<Rightarrow> string \<Rightarrow> string \<Rightarrow> 's \<Rightarrow> (run_error + command_result) \<times> 's" where
  "session_run ln hostname command s =
     (if ln_late ln s then (Inl (SessionOverBudget command), s)
      else (case ln_send ln command s of
        (Inl e, s') \<Rightarrow> (Inl (SendFailed e), s')
      | (Inr events, s') \<Rightarrow>
          (case read_until (prompt_matcher hostname) [] events of
             Inl (fault, partial) \<Rightarrow> (Inl (IncompleteResponse fault partial), s')
           | Inr raw \<Rightarrow>
               (let output = clean_output raw command in
                case ios_command_error output of
                  Some marker \<Rightarrow>
                    (Inl (CommandRejected command (redact_device_output output) marker), s')
                | None \<Rightarrow> (Inr \<lparr>cr_command = command, cr_output = output\<rparr>, s')))))"

subsection \<open>What a failed plan proves\<close>

datatype effect_certainty = ProvenNoEffect | UnknownEffect

record plan_failure =
  pf_completed :: "command_result list"
  pf_failed_command :: string
  pf_failed_output :: string
  pf_certainty :: effect_certainty
  pf_reason :: run_error

definition command_may_change_state :: "string \<Rightarrow> bool" where
  "command_may_change_state command =
     (let c = trim command in
      \<not> (starts_with ''show '' c \<or> starts_with ''do show '' c \<or>
         c \<in> {''terminal length 0'', ''configure terminal'', ''configure terminal lock'',
              ''end'', ''exit''}))"

definition failed_output :: "string \<Rightarrow> run_error \<Rightarrow> string" where
  "failed_output command e =
     (case e of
        CommandRejected _ output _ \<Rightarrow> output
      | IncompleteResponse _ partial \<Rightarrow> redact_device_output (clean_output partial command)
      | _ \<Rightarrow> [])"

definition rejected :: "run_error \<Rightarrow> bool" where
  "rejected e = (case e of CommandRejected _ _ _ \<Rightarrow> True | _ \<Rightarrow> False)"

definition plan_failure :: "command_result list \<Rightarrow> string \<Rightarrow> run_error \<Rightarrow> plan_failure" where
  "plan_failure completed command e =
     (let failed_may_have_changed = \<not> rejected e \<and> command_may_change_state command;
          earlier_changed = list_ex (\<lambda>r. command_may_change_state (cr_command r)) completed
      in \<lparr>pf_completed = redact_results completed, pf_failed_command = command,
          pf_failed_output = failed_output command e,
          pf_certainty = (if failed_may_have_changed \<or> earlier_changed then UnknownEffect
                          else ProvenNoEffect),
          pf_reason = e\<rparr>)"

subsection \<open>A whole plan\<close>

record ssh_outcome =
  so_results :: "command_result list"
  so_fingerprint :: string
  so_pinned_now :: bool

fun run_each ::
    "'s line \<Rightarrow> string \<Rightarrow> command_result list \<Rightarrow> string list \<Rightarrow> 's \<Rightarrow>
     (plan_failure + command_result list) \<times> 's" where
  "run_each ln hostname results [] s = (Inr results, s)"
| "run_each ln hostname results (c # cs) s =
     (case session_run ln hostname c s of
        (Inl e, s') \<Rightarrow> (Inl (plan_failure results c e), s')
      | (Inr r, s') \<Rightarrow> run_each ln hostname (results @ [r]) cs s')"

text \<open>An opened session: the prompt's host name and the observed host key.\<close>

record opened =
  op_hostname :: string
  op_fingerprint :: string
  op_pinned_now :: bool

datatype ssh_error =
    Gate gate_error
  | LockedPlan locked_error
  | OpenFailed string
  | PlanFailed plan_failure
  | RunFailed run_error
  | NotAReadCommand
  | LockSetOverBudget
  | NotInLockedSet u64
  | ResolverFailed string

definition run_on ::
    "('s \<Rightarrow> (string + opened) \<times> 's) \<Rightarrow> 's line \<Rightarrow> string list \<Rightarrow> 's \<Rightarrow> (ssh_error + ssh_outcome) \<times> 's" where
  "run_on connect ln commands s =
     (case check_allowed commands of
        Inl e \<Rightarrow> (Inl (Gate e), s)
      | Inr _ \<Rightarrow>
          (case connect s of
             (Inl e, s1) \<Rightarrow> (Inl (OpenFailed e), s1)
           | (Inr h, s1) \<Rightarrow>
               (case run_each ln (op_hostname h) [] commands s1 of
                  (Inl f, s2) \<Rightarrow> (Inl (PlanFailed f), s2)
                | (Inr rs, s2) \<Rightarrow>
                    (Inr \<lparr>so_results = rs, so_fingerprint = op_fingerprint h,
                          so_pinned_now = op_pinned_now h\<rparr>, s2))))"

subsection \<open>A session that resolves its plan from a read\<close>

text \<open>What the session was told to do: the resolver's plan, or the refusal that stands for an
  unreadable state.\<close>

datatype resolved_decision = Resolved session_plan | Unreadable string run_error

definition run_on_resolved ::
    "('s \<Rightarrow> (string + opened) \<times> 's) \<Rightarrow> 's line \<Rightarrow> string \<Rightarrow>
     (string \<Rightarrow> 'd \<Rightarrow> (string + session_plan) \<times> 'd) \<Rightarrow> 's \<Rightarrow> 'd \<Rightarrow>
     (ssh_error + ssh_outcome \<times> resolved_decision) \<times> 's \<times> 'd" where
  "run_on_resolved connect ln read_command resolve s d =
     (let read = trim read_command in
      if \<not> starts_with ''show '' read then (Inl NotAReadCommand, s, d)
      else case check_allowed [read] of
        Inl e \<Rightarrow> (Inl (Gate e), s, d)
      | Inr _ \<Rightarrow>
         (case connect s of
            (Inl e, s1) \<Rightarrow> (Inl (OpenFailed e), s1, d)
          | (Inr h, s1) \<Rightarrow>
             (let outcome = (\<lambda>rs. \<lparr>so_results = rs, so_fingerprint = op_fingerprint h,
                                  so_pinned_now = op_pinned_now h\<rparr>) in
              case session_run ln (op_hostname h) read s1 of
                (Inl e, s2) \<Rightarrow> (Inr (outcome [], Unreadable read e), s2, d)
              | (Inr r, s2) \<Rightarrow>
                 (case resolve (cr_output r) d of
                    (Inl e, d') \<Rightarrow> (Inl (ResolverFailed e), s2, d')
                  | (Inr plan, d') \<Rightarrow>
                     (case plan of
                        Push commands \<Rightarrow>
                          (case check_allowed commands of
                             Inl e \<Rightarrow> (Inl (Gate e), s2, d')
                           | Inr _ \<Rightarrow>
                              (case run_each ln (op_hostname h) [r] commands s2 of
                                 (Inl f, s3) \<Rightarrow> (Inl (PlanFailed f), s3, d')
                               | (Inr rs, s3) \<Rightarrow> (Inr (outcome rs, Resolved plan), s3, d')))
                      | _ \<Rightarrow> (Inr (outcome [r], Resolved plan), s2, d'))))))"

subsection \<open>Devices under the native configuration lock\<close>

text \<open>The sessions of a locked device set, sorted by device; \<open>link\<close> is the line of each device
  and \<open>over\<close> the expiry of the lock set's own budget.\<close>

type_synonym locked_devices = "(u64 \<times> opened) list"

definition locked_read ::
    "('s \<Rightarrow> bool) \<Rightarrow> (u64 \<Rightarrow> 's line) \<Rightarrow> locked_devices \<Rightarrow> u64 \<Rightarrow> string \<Rightarrow> 's \<Rightarrow>
     (ssh_error + command_result) \<times> 's" where
  "locked_read over link devices dev raw s =
     (if over s then (Inl LockSetOverBudget, s)
      else if \<not> starts_with ''show '' (trim raw) then (Inl NotAReadCommand, s)
      else case check_allowed [''do '' @ trim raw] of
        Inl e \<Rightarrow> (Inl (Gate e), s)
      | Inr _ \<Rightarrow>
          (case map_of devices dev of
             None \<Rightarrow> (Inl (NotInLockedSet dev), s)
           | Some h \<Rightarrow>
               (case session_run (link dev) (op_hostname h) (''do '' @ trim raw) s of
                  (Inl e, s') \<Rightarrow> (Inl (RunFailed e), s')
                | (Inr r, s') \<Rightarrow> (Inr r, s'))))"

definition locked_execute ::
    "('s \<Rightarrow> bool) \<Rightarrow> (u64 \<Rightarrow> 's line) \<Rightarrow> locked_devices \<Rightarrow> u64 \<Rightarrow> string list \<Rightarrow> 's \<Rightarrow>
     (ssh_error + ssh_outcome) \<times> 's" where
  "locked_execute over link devices dev commands s =
     (if over s then (Inl LockSetOverBudget, s)
      else case check_allowed commands of
        Inl e \<Rightarrow> (Inl (Gate e), s)
      | Inr _ \<Rightarrow>
        (case locked_commands commands of
           Inl e \<Rightarrow> (Inl (LockedPlan e), s)
         | Inr transformed \<Rightarrow>
           (case check_allowed transformed of
              Inl e \<Rightarrow> (Inl (Gate e), s)
            | Inr _ \<Rightarrow>
              (case map_of devices dev of
                 None \<Rightarrow> (Inl (NotInLockedSet dev), s)
               | Some h \<Rightarrow>
                   (case run_each (link dev) (op_hostname h) [] transformed s of
                      (Inl f, s') \<Rightarrow> (Inl (PlanFailed f), s')
                    | (Inr rs, s') \<Rightarrow>
                        (Inr \<lparr>so_results = rs, so_fingerprint = op_fingerprint h,
                              so_pinned_now = op_pinned_now h\<rparr>, s'))))))"

text \<open>\<open>acquire_config_lock\<close> and \<open>release_config_lock\<close>.\<close>

definition acquire_config_lock ::
    "'s line \<Rightarrow> string \<Rightarrow> 's \<Rightarrow> (run_error + unit) \<times> 's" where
  "acquire_config_lock ln hostname s =
     (case session_run ln hostname ''show configuration lock'' s of
        (Inl e, s1) \<Rightarrow> (Inl e, s1)
      | (Inr _, s1) \<Rightarrow>
          (case session_run ln hostname ''configure terminal lock'' s1 of
             (Inl e, s2) \<Rightarrow> (Inl e, s2)
           | (Inr _, s2) \<Rightarrow> (Inr (), s2)))"

fun unlock_all ::
    "(u64 \<Rightarrow> 's line) \<Rightarrow> locked_devices \<Rightarrow> 's \<Rightarrow> (u64 \<times> run_error) list \<times> 's" where
  "unlock_all link [] s = ([], s)"
| "unlock_all link ((dev, h) # rest) s =
     (case session_run (link dev) (op_hostname h) ''end'' s of
        (Inl e, s') \<Rightarrow> (let (fs, s'') = unlock_all link rest s' in ((dev, e) # fs, s''))
      | (Inr _, s') \<Rightarrow> unlock_all link rest s')"

datatype lock_error =
    EmptyLockSet
  | LoadFailed u64 string
  | NoPinnedKey u64
  | LockOpenFailed u64 string
  | ConfigLockRefused u64 run_error

record device_ssh =
  ds_host :: string
  ds_port :: u16
  ds_expected_fingerprint :: "string option"

record transport_identity =
  ti_host :: string
  ti_port :: u16
  ti_pinned :: string

text \<open>\<open>LockedDevices::acquire\<close>, one device after the other in ascending order. \<open>persist_tofu\<close>
  does nothing here: every device of the set has a pinned key. A session that is dropped
  disconnects, which releases its lock on the router.\<close>

fun acquire_locked ::
    "(u64 \<Rightarrow> string + device_ssh) \<Rightarrow> (u64 \<Rightarrow> device_ssh \<Rightarrow> 's \<Rightarrow> (string + opened) \<times> 's) \<Rightarrow>
     (u64 \<Rightarrow> 's line) \<Rightarrow> locked_devices \<Rightarrow> (u64 \<times> transport_identity) list \<Rightarrow> u64 list \<Rightarrow> 's \<Rightarrow>
     (lock_error + locked_devices \<times> (u64 \<times> transport_identity) list) \<times> 's" where
  "acquire_locked load connect link devices ids [] s = (Inr (devices, ids), s)"
| "acquire_locked load connect link devices ids (d # ds) s =
     (case load d of
        Inl e \<Rightarrow> (Inl (LoadFailed d e), s)
      | Inr dev \<Rightarrow>
        (case ds_expected_fingerprint dev of
           None \<Rightarrow> (Inl (NoPinnedKey d), s)
         | Some pinned \<Rightarrow>
           (case connect d dev s of
              (Inl e, s1) \<Rightarrow> (Inl (LockOpenFailed d e), s1)
            | (Inr h, s1) \<Rightarrow>
              (case acquire_config_lock (link d) (op_hostname h) s1 of
                 (Inl e, s2) \<Rightarrow> (Inl (ConfigLockRefused d e), snd (unlock_all link devices s2))
               | (Inr _, s2) \<Rightarrow>
                   acquire_locked load connect link (devices @ [(d, h)])
                     (ids @ [(d, \<lparr>ti_host = ds_host dev, ti_port = ds_port dev, ti_pinned = pinned\<rparr>)])
                     ds s2))))"

definition acquire_devices ::
    "(u64 \<Rightarrow> string + device_ssh) \<Rightarrow> (u64 \<Rightarrow> device_ssh \<Rightarrow> 's \<Rightarrow> (string + opened) \<times> 's) \<Rightarrow>
     (u64 \<Rightarrow> 's line) \<Rightarrow> u64 list \<Rightarrow> 's \<Rightarrow>
     (lock_error + locked_devices \<times> (u64 \<times> transport_identity) list) \<times> 's" where
  "acquire_devices load connect link device_ids s =
     (if device_ids = [] then (Inl EmptyLockSet, s)
      else acquire_locked load connect link [] [] (remdups (sort device_ids)) s)"

subsection \<open>The certainty of a failure\<close>

text \<open>What the controller relies on about IOS: a read or a mode change leaves the configuration as
  it is, and so does a command that IOS rejects.\<close>

definition honest_line :: "('s \<Rightarrow> 'c) \<Rightarrow> 's line \<Rightarrow> bool" where
  "honest_line cfg ln \<longleftrightarrow>
     (\<forall>c s. \<not> command_may_change_state c \<longrightarrow> cfg (snd (ln_send ln c s)) = cfg s) \<and>
     (\<forall>c s events h raw. ln_send ln c s = (Inr events, snd (ln_send ln c s)) \<longrightarrow>
        read_until (prompt_matcher h) [] events = Inr raw \<longrightarrow>
        ios_command_error (clean_output raw c) \<noteq> None \<longrightarrow> cfg (snd (ln_send ln c s)) = cfg s)"

lemma session_run_harmless:
  assumes "honest_line cfg ln" "session_run ln h c s = (r, s')"
    and "\<not> command_may_change_state c \<or> (\<exists>e. r = Inl e \<and> rejected e)"
  shows "cfg s' = cfg s"
proof (cases "ln_late ln s")
  case True
  with assms(2) show ?thesis by (simp add: session_run_def)
next
  case False
  obtain a s1 where send: "ln_send ln c s = (a, s1)" by fastforce
  with False assms(2) have s': "s' = s1"
    by (auto simp: session_run_def Let_def split: sum.splits option.splits)
  from assms(3) show ?thesis
  proof
    assume "\<not> command_may_change_state c"
    with assms(1) send s' show ?thesis unfolding honest_line_def by (metis snd_conv)
  next
    assume "\<exists>e. r = Inl e \<and> rejected e"
    with False send assms(2) obtain events raw where "a = Inr events"
      "read_until (prompt_matcher h) [] events = Inr raw"
      "ios_command_error (clean_output raw c) \<noteq> None"
      by (auto simp: session_run_def Let_def rejected_def split: sum.splits option.splits)
    with assms(1) send s' show ?thesis unfolding honest_line_def by (metis snd_conv)
  qed
qed

lemma session_run_command: "session_run ln h c s = (Inr r, s') \<Longrightarrow> cr_command r = c"
  by (auto simp: session_run_def Let_def split: if_splits prod.splits sum.splits option.splits)

lemma plan_failure_proven:
  "pf_certainty (plan_failure rs c e) = ProvenNoEffect \<longleftrightarrow>
     (\<forall>r \<in> set rs. \<not> command_may_change_state (cr_command r)) \<and>
     (rejected e \<or> \<not> command_may_change_state c)"
  by (auto simp: plan_failure_def Let_def list_ex_iff)

lemma run_each_proven:
  "run_each ln h rs cs s = (Inl f, s') \<Longrightarrow> pf_certainty f = ProvenNoEffect \<Longrightarrow>
   (\<forall>r \<in> set rs. \<not> command_may_change_state (cr_command r)) \<and> (honest_line cfg ln \<longrightarrow> cfg s' = cfg s)"
proof (induction cs arbitrary: rs s)
  case (Cons c cs)
  obtain r s1 where step: "session_run ln h c s = (r, s1)" by fastforce
  show ?case
  proof (cases r)
    case (Inl e)
    with step Cons.prems(1) have f: "f = plan_failure rs c e" "s' = s1" by auto
    from Cons.prems(2) have p: "\<forall>r \<in> set rs. \<not> command_may_change_state (cr_command r)"
      "rejected e \<or> \<not> command_may_change_state c"
      unfolding f(1) plan_failure_proven by blast+
    from p(2) Inl have "\<not> command_may_change_state c \<or> (\<exists>e. r = Inl e \<and> rejected e)" by blast
    with p(1) f(2) session_run_harmless [OF _ step, of cfg] show ?thesis by blast
  next
    case (Inr v)
    with step Cons.prems(1) have rest: "run_each ln h (rs @ [v]) cs s1 = (Inl f, s')" by simp
    have c: "cr_command v = c" using step session_run_command unfolding Inr by fast
    from Cons.IH [OF rest Cons.prems(2)] c
    have "\<forall>r \<in> set rs. \<not> command_may_change_state (cr_command r)" "\<not> command_may_change_state c"
      "honest_line cfg ln \<longrightarrow> cfg s' = cfg s1" by simp_all
    with session_run_harmless [OF _ step, of cfg] show ?thesis by simp
  qed
qed simp

text \<open>C10: a plan failure that is reported as proven to have no effect left the router's
  configuration as it was, and a session in which nothing has run reports it only then.\<close>

theorem proven_no_effect_sound:
  assumes "honest_line cfg ln" "run_each ln hostname [] commands s = (Inl failure, s')"
    and "pf_certainty failure = ProvenNoEffect"
  shows "cfg s' = cfg s"
  using run_each_proven [OF assms(2,3), of cfg] assms(1) by blast

definition refusing_line :: "nat line" where
  "refusing_line = \<lparr>ln_late = (\<lambda>s. False),
     ln_send = (\<lambda>c s. if command_may_change_state c then (Inr [(Data ''R#'', False)], s + 1)
                        else (Inr [(Data (''% Invalid input'' @ [newline] @ ''R#''), False)], s))\<rparr>"

lemma refusing_line_honest: "honest_line id refusing_line"
proof -
  have r: "read_until (prompt_matcher h) [] [(Data ''R#'', False)] = Inr raw \<Longrightarrow> raw = ''R#''" for h raw
    by (simp split: if_splits)
  have "ios_command_error (clean_output ''R#'' c) = None" for c
  proof -
    have "split_char newline ''R#'' = [''R#'']" "trim ''R#'' = ''R#''" "prompt_shaped ''R#''"
      "strip_returns ''R#'' = ''R#''"
      by code_simp+
    then have "clean_output ''R#'' c = []"
      by (cases "trim c = ''R#''")
        (simp_all add: clean_output_def Let_def trim_def trim_start_def trim_end_def)
    then show ?thesis by (simp add: ios_command_error_def lines_def)
  qed
  with r show ?thesis unfolding honest_line_def refusing_line_def by auto
qed

lemma refusing_line_fails:
  "\<exists>f. run_each refusing_line ''R'' [] [''show clock''] 4 = (Inl f, 4) \<and> pf_certainty f = ProvenNoEffect"
proof -
  have c: "\<not> command_may_change_state ''show clock''" by code_simp
  have "read_until (prompt_matcher ''R'') [] [(Data (''% Invalid input'' @ [newline] @ ''R#''), False)]
      = Inr (''% Invalid input'' @ [newline] @ ''R#'')"
    "ios_command_error (clean_output (''% Invalid input'' @ [newline] @ ''R#'') ''show clock'') = Some ''% Invalid input''"
    by code_simp+
  with c show ?thesis
    by (simp add: refusing_line_def session_run_def Let_def plan_failure_proven rejected_def)
qed

lemma proven_no_effect_sound_witness:
  "\<exists>f. run_each refusing_line ''R'' [] [''show clock''] 4 = (Inl f, 4) \<and> id 4 = id (4 :: nat)"
  using refusing_line_fails proven_no_effect_sound [OF refusing_line_honest] by blast

end
