(* ===== verification/Live_State.thy ===== *)
theory Live_State
  imports Device_Config Policy_Inventory Projection Consumers Ssh_Session
begin

text \<open>
  Comparing typed snapshots with the live router and executing a prepared action under the retained
  configuration lock, from \<open>src/backend-rust/src/reroute/device_plan.rs\<close>. Every read goes
  through a port; \<open>locked_read\<close> of \<open>Ssh_Session\<close> is the port of a locked device set. A
  computation over the port returns a result or an error and the new state of the world.
\<close>

subsection \<open>Computations over a port\<close>

type_synonym ('e, 's, 'a) io = "'s \<Rightarrow> ('e + 'a) \<times> 's"

definition io_return :: "'a \<Rightarrow> ('e, 's, 'a) io" where
  "io_return x s = (Inr x, s)"

definition io_error :: "'e \<Rightarrow> ('e, 's, 'a) io" where
  "io_error e s = (Inl e, s)"

definition io_of :: "'e + 'a \<Rightarrow> ('e, 's, 'a) io" where
  "io_of r s = (r, s)"

definition io_bind :: "('e, 's, 'a) io \<Rightarrow> ('a \<Rightarrow> ('e, 's, 'b) io) \<Rightarrow> ('e, 's, 'b) io" where
  "io_bind m f s = (case m s of (Inl e, s') \<Rightarrow> (Inl e, s') | (Inr x, s') \<Rightarrow> f x s')"

definition io_map_err :: "('e \<Rightarrow> 'f) \<Rightarrow> ('e, 's, 'a) io \<Rightarrow> ('f, 's, 'a) io" where
  "io_map_err g m s = (case m s of (r, s') \<Rightarrow> (map_err g r, s'))"

datatype live_error =
    PortError ssh_error
  | ListText refusal
  | StaticText static_error
  | ContextText context_error
  | NotProven string
  | BadRoutePrefix string

type_synonym 's port = "string \<Rightarrow> 's \<Rightarrow> (ssh_error + string) \<times> 's"

definition read_port :: "'s port \<Rightarrow> string \<Rightarrow> (live_error, 's, string) io" where
  "read_port port command = io_map_err PortError (port command)"

subsection \<open>One snapshot\<close>

definition matches_prefix_list ::
    "'s port \<Rightarrow> string \<Rightarrow> snapshot_entry list \<Rightarrow> list_consumer list \<Rightarrow> (live_error, 's, bool) io" where
  "matches_prefix_list port name entries consumers =
     io_bind (read_port port (''show ip prefix-list '' @ name)) (\<lambda>output.
     io_bind (io_of (map_err ListText (parse_prefix_list output name))) (\<lambda>parsed.
     io_bind (read_port port ''show running-config | section ^router bgp'') (\<lambda>bgp.
     io_bind (read_port port ''show running-config | section ^route-map'') (\<lambda>route_maps.
     io_bind (read_port port ''show running-config'') (\<lambda>full.
       io_return (map prefix_entry_snapshot parsed = entries \<and>
                  prefix_list_consumers bgp route_maps full name = consumers))))))"

definition matches_static :: "'s port \<Rightarrow> device_state \<Rightarrow> bool \<Rightarrow> string \<Rightarrow> (live_error, 's, bool) io" where
  "matches_static port state present subject =
     io_bind (io_of (map_err StaticText (static_config_read_command state))) (\<lambda>command.
     io_bind (read_port port command) (\<lambda>output.
     io_bind (io_of (map_err StaticText (static_expected_evidence output state present))) (\<lambda>v.
       io_of (map_err NotProven (evidence_matches v subject)))))"

definition matches_resolution ::
    "'s port \<Rightarrow> string \<Rightarrow> string \<Rightarrow> bool \<Rightarrow> (live_error, 's, bool) io" where
  "matches_resolution port pfx next_hop present =
     io_bind (io_of (ok_or (BadRoutePrefix pfx) (normalize_cidr pfx))) (\<lambda>normalized.
     io_bind (io_of (ok_or (BadRoutePrefix pfx) (split_once (CHR ''/'') normalized))) (\<lambda>(network, _).
     io_bind (read_port port
        (if CHR '':'' \<in> set normalized then ''show ipv6 route '' @ normalized
         else ''show ip route '' @ network)) (\<lambda>output.
       io_of (map_err NotProven
         (evidence_matches (route_resolution_evidence output normalized next_hop present)
            ''route-resolution'')))))"

definition router_line_present :: "u32 \<Rightarrow> string \<Rightarrow> bool" where
  "router_line_present asn output =
     list_ex (\<lambda>line. trim line = ''router bgp '' @ show_word asn) (lines output)"

definition matches_assignment ::
    "'s port \<Rightarrow> u32 \<Rightarrow> string \<Rightarrow> string \<Rightarrow> string option \<Rightarrow> string option \<Rightarrow> (live_error, 's, bool) io" where
  "matches_assignment port local_asn neighbor direction family route_map =
     io_bind (read_port port ''show running-config | section ^router bgp'') (\<lambda>output.
     io_bind (io_of (case family of
                 None \<Rightarrow> Inr None
               | Some f \<Rightarrow> map_err ContextText
                   (parse_route_map_assignment_scoped output neighbor direction f))) (\<lambda>actual.
       io_return (router_line_present local_asn output \<and> actual = route_map \<and> family \<noteq> None)))"

definition without_references ::
    "named_prefix_list list \<Rightarrow> named_route_map list \<Rightarrow> named_prefix_list list \<times> named_route_map list" where
  "without_references ls ms =
     (map (\<lambda>l. l\<lparr>np_referenced_by := []\<rparr>) ls, map (\<lambda>m. m\<lparr>nm_references := []\<rparr>) ms)"

definition required_match :: "('a \<Rightarrow> string) \<Rightarrow> string list option \<Rightarrow> 'a list \<Rightarrow> 'a list \<Rightarrow> bool" where
  "required_match name required expected actual =
     (case required of
        None \<Rightarrow> actual = expected
      | Some names \<Rightarrow>
          list_all (\<lambda>n. let e = List.find (\<lambda>item. name item = n) expected in
            e \<noteq> None \<and> List.find (\<lambda>item. name item = n) actual = e) names)"

definition inventory_attachment_matches :: "routing_policy_inventory \<Rightarrow> device_state \<Rightarrow> bool" where
  "inventory_attachment_matches iv state =
     (case state of
        ExportPolicyAttachment local_asn neighbor family prefix_list route_map ls ms rl rm \<Rightarrow>
          (let direct = filter (\<lambda>b. pb_neighbor_ip b = neighbor \<and> pb_local_asn b = local_asn \<and>
                  pb_address_family b = family \<and> pb_direction b = ''out'' \<and> pb_scope b = Direct)
                (ri_peer_bindings iv);
               named = (\<lambda>k. map_option pb_policy_name (List.find (\<lambda>b. pb_policy_kind b = k) direct));
               (actual_lists, actual_maps) = without_references (ri_prefix_lists iv) (ri_route_maps iv)
           in ri_blockers iv = [] \<and> named PrefixListKind = prefix_list \<and>
              named RouteMapKind = route_map \<and> required_match np_name rl ls actual_lists \<and>
              required_match nm_name rm ms actual_maps)
      | _ \<Rightarrow> False)"

definition matches_attachment ::
    "'s port \<Rightarrow> u64 \<Rightarrow> int \<Rightarrow> device_state \<Rightarrow> (live_error, 's, bool) io" where
  "matches_attachment port dev now state =
     io_bind (read_port port ''show running-config | section ^router bgp'') (\<lambda>bgp.
     io_bind (read_port port ''show running-config | section ^route-map'') (\<lambda>rm.
     io_bind (read_port port ''show running-config | section ^ip prefix-list'') (\<lambda>pl.
       io_return (inventory_attachment_matches (parse_inventory dev bgp rm pl now) state))))"

definition mss_of_line :: "string \<Rightarrow> u32 option" where
  "mss_of_line line =
     (case split_whitespace line of
        [a, b, c, v] \<Rightarrow> if a = ''ip'' \<and> b = ''tcp'' \<and> c = ''adjust-mss'' then parse_uint v else None
      | _ \<Rightarrow> None)"

fun state_matches :: "'s port \<Rightarrow> u64 \<Rightarrow> int \<Rightarrow> device_state \<Rightarrow> (live_error, 's, bool) io" where
  "state_matches port dev now (PrefixListState name entries consumers) =
     matches_prefix_list port name entries consumers"
| "state_matches port dev now (Ipv4StaticRoute p h t present) =
     matches_static port (Ipv4StaticRoute p h t present) present ''IPv4 static-route''"
| "state_matches port dev now (Ipv6StaticRoute p h t present) =
     matches_static port (Ipv6StaticRoute p h t present) present ''IPv6 static-route''"
| "state_matches port dev now (RouteResolution pfx next_hop present) =
     matches_resolution port pfx next_hop present"
| "state_matches port dev now (BgpAdvertisement neighbor pfx present community) =
     io_bind (read_port port (''show ip bgp neighbors '' @ neighbor @ '' advertised-routes'')) (\<lambda>output.
       io_of (map_err NotProven
         (evidence_matches (bgp_evidence output pfx community True present) ''BGP advertisement'')))"
| "state_matches port dev now (BgpRoute pfx present community) =
     io_bind (read_port port
        (if CHR '':'' \<in> set pfx then ''show bgp ipv6 unicast '' @ pfx else ''show ip bgp '' @ pfx)) (\<lambda>output.
       io_of (map_err NotProven
         (evidence_matches (bgp_evidence output pfx community False present) ''BGP route'')))"
| "state_matches port dev now (NeighborShutdown local_asn neighbor shutdown) =
     io_bind (read_port port ''show running-config | section ^router bgp'') (\<lambda>output.
       io_return (router_line_present local_asn output \<and>
         (has_exact_config_line output (''neighbor '' @ neighbor @ '' shutdown'') = shutdown)))"
| "state_matches port dev now (BgpNeighborState neighbor down state) =
     io_bind (read_port port (''show ip bgp neighbors '' @ neighbor)) (\<lambda>output.
     io_bind (io_of (map_err ContextText (parse_bgp_neighbor_state output neighbor))) (\<lambda>(actual, word).
       io_return (actual = down \<and> (case state of None \<Rightarrow> True | Some e \<Rightarrow> word = e))))"
| "state_matches port dev now (RouteMapAssignment local_asn neighbor direction family route_map) =
     matches_assignment port local_asn neighbor direction family route_map"
| "state_matches port dev now (ExportPolicyAttachment a n f p r ls ms rl rm) =
     matches_attachment port dev now (ExportPolicyAttachment a n f p r ls ms rl rm)"
| "state_matches port dev now (InterfaceAdmin interface shutdown) =
     io_bind (read_port port (''show running-config interface '' @ interface)) (\<lambda>output.
     io_bind (io_of (map_err ContextText (validate_interface_stanza output interface))) (\<lambda>_.
       io_return (has_exact_config_line output ''shutdown'' = shutdown)))"
| "state_matches port dev now (InterfaceOperational interface down) =
     io_bind (read_port port (''show interfaces '' @ interface)) (\<lambda>output.
       io_return (list_ex (\<lambda>line. starts_with (interface @ '' is '') (trim_start line)) (lines output) \<and>
         (contains ''administratively down'' (to_ascii_lowercase output) = down)))"
| "state_matches port dev now (InterfaceMss interface mss) =
     io_bind (read_port port (''show running-config interface '' @ interface)) (\<lambda>output.
     io_bind (io_of (map_err ContextText (validate_interface_stanza output interface))) (\<lambda>_.
       io_return (find_map mss_of_line (lines output) = mss)))"

subsection \<open>Lists of snapshots\<close>

fun verify_current :: "'s port \<Rightarrow> u64 \<Rightarrow> int \<Rightarrow> device_state list \<Rightarrow> (live_error, 's, bool) io" where
  "verify_current port dev now [] = io_return True"
| "verify_current port dev now (st # rest) =
     io_bind (state_matches port dev now st) (\<lambda>m.
       if m then verify_current port dev now rest else io_return False)"

text \<open>Sixteen attempts; the pause between two of them has no effect on the model.\<close>

definition ATTEMPTS :: nat where
  "ATTEMPTS = 16"

fun verify_attempts :: "nat \<Rightarrow> 's port \<Rightarrow> u64 \<Rightarrow> int \<Rightarrow> device_state list \<Rightarrow> (live_error, 's, bool) io" where
  "verify_attempts 0 port dev now expected = io_return False"
| "verify_attempts (Suc n) port dev now expected =
     io_bind (verify_current port dev now expected) (\<lambda>m.
       if m then io_return True else verify_attempts n port dev now expected)"

definition verify_with_retry :: "'s port \<Rightarrow> u64 \<Rightarrow> int \<Rightarrow> device_state list \<Rightarrow> (live_error, 's, bool) io" where
  "verify_with_retry = verify_attempts ATTEMPTS"

subsection \<open>Keys of projected states\<close>

fun state_suffix :: "device_state \<Rightarrow> string" where
  "state_suffix (PrefixListState name _ _) = ''prefix_list:'' @ name"
| "state_suffix (Ipv4StaticRoute p h t _) = ''v4_route:'' @ p @ '':'' @ h @ '':'' @ debug_option show_word t"
| "state_suffix (Ipv6StaticRoute p h t _) = ''v6_route:'' @ p @ '':'' @ h @ '':'' @ debug_option show_word t"
| "state_suffix (RouteResolution p h _) = ''route_resolution:'' @ p @ '':'' @ h"
| "state_suffix (NeighborShutdown _ n _) = ''neighbor:'' @ n"
| "state_suffix (BgpNeighborState n _ _) = ''neighbor_operational:'' @ n"
| "state_suffix (RouteMapAssignment _ n d af _) =
     ''route_map:'' @ n @ '':'' @ d @ '':'' @ debug_option debug_str af"
| "state_suffix (ExportPolicyAttachment _ n af _ _ _ _ _ _) = ''export_policy:'' @ n @ '':'' @ af"
| "state_suffix (InterfaceAdmin i _) = ''interface_admin:'' @ i"
| "state_suffix (InterfaceOperational i _) = ''interface_operational:'' @ i"
| "state_suffix (InterfaceMss i _) = ''interface_mss:'' @ i"
| "state_suffix (BgpRoute p _ _) = ''bgp_route:'' @ p"
| "state_suffix (BgpAdvertisement n p _ _) = ''bgp_advertisement:'' @ n @ '':'' @ p"

definition state_key :: "u64 \<Rightarrow> device_state \<Rightarrow> string" where
  "state_key dev state = show_word dev @ '':'' @ state_suffix state"

subsection \<open>Executing a prepared action\<close>

datatype exec_error =
    InvalidPrepared prepared_error
  | LiveFailed live_error
  | PreparedFailed effect_certainty string
  | SessionFailed ssh_error

type_synonym 's executor = "string list \<Rightarrow> 's \<Rightarrow> (ssh_error + ssh_outcome) \<times> 's"

definition retained_outcome :: ssh_outcome where
  "retained_outcome = \<lparr>so_results = [], so_fingerprint = ''retained-locked-session'', so_pinned_now = False\<rparr>"

text \<open>The exact check after the commands, or of an already satisfied action.\<close>

definition confirm ::
    "'s port \<Rightarrow> u64 \<Rightarrow> int \<Rightarrow> device_state list \<Rightarrow> effect_certainty \<Rightarrow> string \<Rightarrow> ssh_outcome \<Rightarrow>
     (exec_error, 's, ssh_outcome) io" where
  "confirm port dev now expected certainty reason outcome =
     io_bind (io_map_err LiveFailed (verify_with_retry port dev now expected)) (\<lambda>ok.
       if \<not> ok then io_error (PreparedFailed certainty reason) else io_return outcome)"

definition execute_prepared ::
    "'s port \<Rightarrow> 's executor \<Rightarrow> int \<Rightarrow> prepared_action \<Rightarrow> (exec_error, 's, ssh_outcome) io" where
  "execute_prepared port exec now a =
     io_bind (io_of (map_err InvalidPrepared (validate_prepared a))) (\<lambda>_.
     io_bind (io_map_err LiveFailed (verify_current port (pa_device_id a) now (pa_before a))) (\<lambda>current.
       if \<not> current
       then io_error (PreparedFailed ProvenNoEffect ''router state changed after preparation; no command was sent'')
       else if pa_effect a = AlreadySatisfiedEffect
       then confirm port (pa_device_id a) now (pa_verify a) ProvenNoEffect
              ''already-satisfied state did not pass exact verification'' retained_outcome
       else io_bind (io_map_err SessionFailed (exec (pa_commands a)))
              (confirm port (pa_device_id a) now (pa_verify a) UnknownEffect
                 ''commands ran but exact prepared after-state was not proved'')))"

definition execute_inverse ::
    "'s port \<Rightarrow> 's executor \<Rightarrow> int \<Rightarrow> u64 \<Rightarrow> prepared_inverse \<Rightarrow> (exec_error, 's, ssh_outcome) io" where
  "execute_inverse port exec now dev iv =
     io_bind (io_map_err LiveFailed (verify_current port dev now (pi_expected_current iv))) (\<lambda>current.
       if \<not> current
       then io_error (PreparedFailed ProvenNoEffect
              ''router state no longer matches the action-owned after-state; inverse refused'')
       else io_bind (io_map_err SessionFailed (exec (pi_commands iv)))
              (confirm port dev now (pi_verify iv) UnknownEffect
                 ''inverse commands ran but the exact restore state was not proved''))"

definition verify_transport_identities ::
    "u64 list \<Rightarrow> (u64 \<Rightarrow> string + transport_identity) \<Rightarrow> (u64 \<times> transport_identity) list \<Rightarrow> string + bool" where
  "verify_transport_identities devices identity expected =
     (if devices \<noteq> map fst expected then Inr False
      else foldr (\<lambda>(d, e) r. and_then (identity d) (\<lambda>i. if i \<noteq> e then Inr False else r)) expected (Inr True))"

subsection \<open>Ordered sets of actions\<close>

type_synonym projected = "string \<rightharpoonup> device_state"

fun match_projected ::
    "(u64 \<Rightarrow> 's port) \<Rightarrow> int \<Rightarrow> u64 \<Rightarrow> projected \<Rightarrow> device_state list \<Rightarrow> (exec_error, 's, bool) io" where
  "match_projected ports now dev proj [] = io_return True"
| "match_projected ports now dev proj (st # rest) =
     (case proj (state_key dev st) of
        Some p \<Rightarrow> if p \<noteq> st then io_return False else match_projected ports now dev proj rest
      | None \<Rightarrow>
          io_bind (io_map_err LiveFailed (verify_current (ports dev) dev now [st])) (\<lambda>m.
            if \<not> m then io_return False else match_projected ports now dev proj rest))"

definition project_onto :: "u64 \<Rightarrow> device_state list \<Rightarrow> projected \<Rightarrow> projected" where
  "project_onto dev states proj = foldl (\<lambda>m s. m(state_key dev s \<mapsto> s)) proj states"

fun verify_prepared_sequence ::
    "(u64 \<Rightarrow> 's port) \<Rightarrow> int \<Rightarrow> projected \<Rightarrow> prepared_action list \<Rightarrow> (exec_error, 's, bool) io" where
  "verify_prepared_sequence ports now proj [] = io_return True"
| "verify_prepared_sequence ports now proj (a # as) =
     io_bind (io_of (map_err InvalidPrepared (validate_prepared a))) (\<lambda>_.
     io_bind (match_projected ports now (pa_device_id a) proj (pa_before a)) (\<lambda>ok.
       if \<not> ok then io_return False
       else verify_prepared_sequence ports now (project_onto (pa_device_id a) (pa_after a) proj) as))"

definition states_match_with_projection ::
    "(u64 \<Rightarrow> 's port) \<Rightarrow> int \<Rightarrow> u64 \<Rightarrow> projected \<Rightarrow> device_state list \<Rightarrow> (exec_error, 's, bool) io" where
  "states_match_with_projection ports now dev proj states =
     (if states = [] then io_return False else match_projected ports now dev proj states)"

definition satisfied_inverse :: "int \<Rightarrow> prepared_action \<Rightarrow> prepared_action" where
  "satisfied_inverse now a =
     a\<lparr>pa_commands := [], pa_before := pa_after a, pa_effect := AlreadySatisfiedEffect,
       pa_inverse := None, pa_prepared_at := now\<rparr>"

datatype reconcile_error =
    ReconcileExec exec_error
  | NoopLost
  | ThirdState
  | ConvertedInvalid prepared_error

text \<open>One action of the inverse preview: it stays a change, becomes a verified no-op, or the
  preview is refused.\<close>

definition reconcile_one ::
    "(u64 \<Rightarrow> 's port) \<Rightarrow> int \<Rightarrow> projected \<Rightarrow> prepared_action \<Rightarrow> (reconcile_error, 's, prepared_action) io" where
  "reconcile_one ports now proj a =
     (let matching = (\<lambda>states. io_map_err ReconcileExec
            (states_match_with_projection ports now (pa_device_id a) proj states)) in
      io_bind (io_of (map_err (\<lambda>e. ReconcileExec (InvalidPrepared e)) (validate_prepared a))) (\<lambda>_.
      if pa_effect a = AlreadySatisfiedEffect then
        io_bind (matching (pa_verify a)) (\<lambda>ok. if \<not> ok then io_error NoopLost else io_return a)
      else
        io_bind (matching (pa_before a)) (\<lambda>owned.
          if owned then io_return a
          else io_bind (matching (pa_after a)) (\<lambda>restored.
            if \<not> restored then io_error ThirdState
            else io_bind (matching (pa_verify a)) (\<lambda>verified.
              if \<not> verified then io_error ThirdState
              else io_bind (io_of (map_err ConvertedInvalid (validate_prepared (satisfied_inverse now a)))) (\<lambda>_.
                io_return (satisfied_inverse now a)))))))"

fun reconcile_inverse_sequence ::
    "(u64 \<Rightarrow> 's port) \<Rightarrow> int \<Rightarrow> projected \<Rightarrow> prepared_action list \<Rightarrow>
     (reconcile_error, 's, prepared_action list) io" where
  "reconcile_inverse_sequence ports now proj [] = io_return []"
| "reconcile_inverse_sequence ports now proj (a # as) =
     io_bind (reconcile_one ports now proj a) (\<lambda>a'.
     io_bind (reconcile_inverse_sequence ports now
                (project_onto (pa_device_id a') (pa_after a' @ pa_verify a') proj) as) (\<lambda>as'.
       io_return (a' # as')))"

text \<open>\<open>verify_projected_after\<close>: the last expectation for each key, then one comparison per
  device in ascending order. The order of the states of one device is the hash map's; the model
  keeps the order in which the keys were first inserted.\<close>

fun final_states ::
    "(string \<times> u64 \<times> device_state) list \<Rightarrow> prepared_action list \<Rightarrow>
     exec_error + (string \<times> u64 \<times> device_state) list" where
  "final_states m [] = Inr m"
| "final_states m (a # as) =
     and_then (map_err InvalidPrepared (validate_prepared a)) (\<lambda>_.
       final_states (foldl (\<lambda>m s. AList.update (state_key (pa_device_id a) s) (pa_device_id a, s) m) m
                       (pa_after a @ pa_verify a)) as)"

fun verify_devices ::
    "(u64 \<Rightarrow> 's port) \<Rightarrow> int \<Rightarrow> (u64 \<times> device_state list) list \<Rightarrow> (exec_error, 's, bool) io" where
  "verify_devices ports now [] = io_return True"
| "verify_devices ports now ((dev, states) # rest) =
     io_bind (io_map_err LiveFailed (verify_current (ports dev) dev now states)) (\<lambda>m.
       if \<not> m then io_return False else verify_devices ports now rest)"

definition states_by_device :: "(u64 \<times> device_state) list \<Rightarrow> (u64 \<times> device_state list) list" where
  "states_by_device xs =
     map (\<lambda>d. (d, map snd (filter (\<lambda>(d', _). d' = d) xs))) (remdups (sort (map fst xs)))"

definition verify_projected_after ::
    "(u64 \<Rightarrow> 's port) \<Rightarrow> int \<Rightarrow> prepared_action list \<Rightarrow> (exec_error, 's, bool) io" where
  "verify_projected_after ports now as =
     io_bind (io_of (final_states [] as)) (\<lambda>m.
       verify_devices ports now (states_by_device (map snd m)))"

subsection \<open>Computations that leave the routers alone\<close>

named_theorems quiet_intros \<open>computations that do not change what a state says of the routers\<close>

definition quiet :: "('s \<Rightarrow> 'c) \<Rightarrow> ('e, 's, 'a) io \<Rightarrow> bool" where
  "quiet cfg m = (\<forall>s. cfg (snd (m s)) = cfg s)"

lemma quiet_return [quiet_intros]: "quiet cfg (io_return x)"
  by (simp add: quiet_def io_return_def)

lemma quiet_error [quiet_intros]: "quiet cfg (io_error e)"
  by (simp add: quiet_def io_error_def)

lemma quiet_of [quiet_intros]: "quiet cfg (io_of r)"
  by (simp add: quiet_def io_of_def)

lemma quiet_bind [quiet_intros]:
  "quiet cfg m \<Longrightarrow> (\<And>x. quiet cfg (f x)) \<Longrightarrow> quiet cfg (io_bind m f)"
  unfolding quiet_def io_bind_def by (auto split: prod.split sum.split) (metis snd_conv)+

lemma quiet_map_err [quiet_intros]: "quiet cfg m \<Longrightarrow> quiet cfg (io_map_err g m)"
  unfolding quiet_def io_map_err_def by (auto split: prod.split) (metis snd_conv)

lemma quiet_if [quiet_intros]: "quiet cfg a \<Longrightarrow> quiet cfg b \<Longrightarrow> quiet cfg (if p then a else b)"
  by simp

lemma quiet_pair [quiet_intros]: "(\<And>x y. quiet cfg (f x y)) \<Longrightarrow> quiet cfg (case p of (x, y) \<Rightarrow> f x y)"
  by (cases p) simp

definition quiet_port :: "('s \<Rightarrow> 'c) \<Rightarrow> 's port \<Rightarrow> bool" where
  "quiet_port cfg port = (\<forall>command. quiet cfg (port command))"

lemma quiet_read [quiet_intros]: "quiet_port cfg port \<Longrightarrow> quiet cfg (read_port port command)"
  by (simp add: quiet_port_def read_port_def quiet_map_err)

lemma state_matches_quiet [quiet_intros]: "quiet_port cfg port \<Longrightarrow> quiet cfg (state_matches port dev now st)"
  by (cases st)
    (simp_all only: state_matches.simps matches_prefix_list_def matches_static_def matches_resolution_def
      matches_assignment_def matches_attachment_def, (intro quiet_intros; assumption?)+)

lemma verify_current_quiet [quiet_intros]:
  "quiet_port cfg port \<Longrightarrow> quiet cfg (verify_current port dev now sts)"
  by (induction sts) (auto intro!: quiet_intros)

lemma verify_attempts_quiet: "quiet_port cfg port \<Longrightarrow> quiet cfg (verify_attempts n port dev now sts)"
  by (induction n) (auto intro!: quiet_intros)

lemma verify_with_retry_quiet [quiet_intros]:
  "quiet_port cfg port \<Longrightarrow> quiet cfg (verify_with_retry port dev now sts)"
  by (simp add: verify_with_retry_def verify_attempts_quiet)

subsection \<open>The locked device set as a port\<close>

definition locked_port ::
    "('s \<Rightarrow> bool) \<Rightarrow> (u64 \<Rightarrow> 's line) \<Rightarrow> locked_devices \<Rightarrow> u64 \<Rightarrow> 's port" where
  "locked_port over link devices dev command s =
     (case locked_read over link devices dev command s of
        (Inl e, s') \<Rightarrow> (Inl e, s') | (Inr r, s') \<Rightarrow> (Inr (cr_output r), s'))"

definition no_effect_proven :: "exec_error \<Rightarrow> bool" where
  "no_effect_proven e =
     (case e of
        PreparedFailed c _ \<Rightarrow> c = ProvenNoEffect
      | SessionFailed (PlanFailed f) \<Rightarrow> pf_certainty f = ProvenNoEffect
      | _ \<Rightarrow> False)"

lemma do_show_harmless:
  assumes "starts_with ''show '' (trim c)"
  shows "\<not> command_may_change_state (''do '' @ trim c)"
proof -
  from assms obtain r where r: "trim c = ''show '' @ r" by (auto simp: starts_with_iff)
  then have "\<not> is_ws (last (trim c))" using trim_ends [of c] by auto
  then have "trim (''do '' @ trim c) = ''do show '' @ r"
    using r by (subst trim_id) (auto simp: is_ws_def code_def)
  then show ?thesis by (simp add: command_may_change_state_def starts_with_def)
qed

lemma locked_read_quiet:
  assumes "honest_line cfg (link dev)" "locked_read over link devices dev c s = (r, s')"
  shows "cfg s' = cfg s"
proof (cases "over s \<or> \<not> starts_with ''show '' (trim c)")
  case True
  with assms(2) show ?thesis by (auto simp: locked_read_def split: if_splits)
next
  case False
  then have harmless: "\<not> command_may_change_state (''do '' @ trim c)"
    by (intro do_show_harmless) simp
  from False assms(2) consider "s' = s"
    | h :: opened and a where "session_run (link dev) (op_hostname h) (''do '' @ trim c) s = (a, s')"
    by (auto simp: locked_read_def split: sum.splits option.splits prod.splits)
  then show ?thesis using session_run_harmless [OF assms(1)] harmless by cases blast+
qed

lemma locked_port_quiet [quiet_intros]:
  "(\<And>d. honest_line cfg (link d)) \<Longrightarrow> quiet_port cfg (locked_port over link devices dev)"
  unfolding quiet_port_def quiet_def locked_port_def
  using locked_read_quiet [of cfg link dev over devices] by (auto split: prod.split sum.split)

lemma locked_execute_proven:
  assumes "honest_line cfg (link dev)"
    and "locked_execute over link devices dev commands s = (Inl (PlanFailed f), s')"
    and "pf_certainty f = ProvenNoEffect"
  shows "cfg s' = cfg s"
proof -
  from assms(2) obtain transformed and h :: opened where
    "run_each (link dev) (op_hostname h) [] transformed s = (Inl f, s')"
    by (auto simp: locked_execute_def split: if_splits sum.splits option.splits prod.splits)
  from run_each_proven [OF this assms(3), of cfg] assms(1) show ?thesis by blast
qed

subsection \<open>Failures that are proven to have no effect\<close>

text \<open>Either every failure that claims to have no effect has none, or no failure claims so.\<close>

definition claims_sound :: "('s \<Rightarrow> 'c) \<Rightarrow> (exec_error, 's, 'a) io \<Rightarrow> bool" where
  "claims_sound cfg m = (\<forall>s e s'. m s = (Inl e, s') \<longrightarrow> no_effect_proven e \<longrightarrow> cfg s' = cfg s)"

definition claims_nothing :: "(exec_error, 's, 'a) io \<Rightarrow> bool" where
  "claims_nothing m = (\<forall>s e s'. m s = (Inl e, s') \<longrightarrow> \<not> no_effect_proven e)"

lemma quiet_sound: "quiet cfg m \<Longrightarrow> claims_sound cfg m"
  unfolding quiet_def claims_sound_def by (metis snd_conv)

lemma sound_bind_quiet:
  "quiet cfg m \<Longrightarrow> (\<And>x. claims_sound cfg (f x)) \<Longrightarrow> claims_sound cfg (io_bind m f)"
  unfolding quiet_def claims_sound_def io_bind_def
  by (auto split: prod.splits sum.splits) (metis snd_conv)+

lemma sound_bind_final:
  "claims_sound cfg m \<Longrightarrow> (\<And>x. claims_nothing (f x)) \<Longrightarrow> claims_sound cfg (io_bind m f)"
  unfolding claims_nothing_def claims_sound_def io_bind_def
  by (fastforce split: prod.splits sum.splits)

lemma live_claims_nothing: "claims_nothing (io_map_err LiveFailed m)"
  by (auto simp: claims_nothing_def io_map_err_def map_err_def no_effect_proven_def
      split: prod.splits sum.splits)

lemma confirm_unknown: "claims_nothing (confirm port dev now expected UnknownEffect reason outcome)"
  using live_claims_nothing [of "verify_with_retry port dev now expected"]
  by (auto simp: claims_nothing_def confirm_def io_bind_def io_error_def io_return_def no_effect_proven_def
      split: prod.splits sum.splits if_splits)

lemma confirm_quiet:
  "quiet_port cfg port \<Longrightarrow> quiet cfg (confirm port dev now expected certainty reason outcome)"
  unfolding confirm_def by (intro quiet_intros)

lemma session_sound:
  "honest_line cfg (link dev) \<Longrightarrow>
   claims_sound cfg (io_map_err SessionFailed (locked_execute over link devices dev commands))"
  by (auto simp: claims_sound_def io_map_err_def map_err_def no_effect_proven_def
      split: prod.splits sum.splits ssh_error.splits dest: locked_execute_proven)

lemma executed_sound:
  "honest_line cfg (link dev) \<Longrightarrow>
   claims_sound cfg (io_bind (io_map_err SessionFailed (locked_execute over link devices dev commands))
     (confirm port d now expected UnknownEffect reason))"
  by (intro sound_bind_final session_sound confirm_unknown)

lemma execute_prepared_sound:
  assumes "\<forall>d. honest_line cfg (link d)"
  shows "claims_sound cfg (execute_prepared (locked_port over link devices dev)
      (locked_execute over link devices dev) now a)"
proof -
  from assms have h: "honest_line cfg (link d)" for d by blast
  then have q: "quiet_port cfg (locked_port over link devices dev)" by (rule locked_port_quiet)
  show ?thesis unfolding execute_prepared_def
    by (intro sound_bind_quiet [OF quiet_of] sound_bind_quiet [OF quiet_map_err [OF verify_current_quiet [OF q]]])
      (simp add: executed_sound h quiet_sound [OF quiet_error] quiet_sound [OF confirm_quiet [OF q]])
qed

lemma execute_inverse_sound:
  assumes "\<forall>d. honest_line cfg (link d)"
  shows "claims_sound cfg (execute_inverse (locked_port over link devices dev)
      (locked_execute over link devices dev) now dev iv)"
proof -
  from assms have h: "honest_line cfg (link d)" for d by blast
  then have q: "quiet_port cfg (locked_port over link devices dev)" by (rule locked_port_quiet)
  show ?thesis unfolding execute_inverse_def
    by (intro sound_bind_quiet [OF quiet_map_err [OF verify_current_quiet [OF q]]])
      (simp add: executed_sound h quiet_sound [OF quiet_error])
qed

lemma satisfied_action_quiet:
  assumes "\<forall>d. honest_line cfg (link d)" "pa_effect a = AlreadySatisfiedEffect"
  shows "quiet cfg (execute_prepared (locked_port over link devices dev) exec now a)"
proof -
  from assms(1) have q: "quiet_port cfg (locked_port over link devices dev)" by (auto intro: locked_port_quiet)
  show ?thesis unfolding execute_prepared_def using assms(2)
    by (intro quiet_bind quiet_of quiet_map_err verify_current_quiet [OF q])
      (simp add: quiet_error confirm_quiet [OF q])
qed

text \<open>When executing a prepared action (or an inverse) on the locked devices fails with the
  claim that nothing was changed, the routers' configuration is what it was before, whatever was
  read, sent, rejected or lost on the way. The executor ends such an action as a known failure
  without locking the device.\<close>

theorem prepared_no_effect_sound:
  assumes "\<forall>d. honest_line cfg (link d)" "no_effect_proven e"
    and "execute_prepared (locked_port over link devices dev) (locked_execute over link devices dev) now a s
           = (Inl e, s') \<or>
         execute_inverse (locked_port over link devices dev) (locked_execute over link devices dev) now dev iv s
           = (Inl e, s')"
  shows "cfg s' = cfg s"
  using execute_prepared_sound [OF assms(1)] execute_inverse_sound [OF assms(1)] assms(2,3)
  unfolding claims_sound_def by blast

lemma io_bind_Inr: "io_bind m f s = (Inr y, s') \<longleftrightarrow> (\<exists>x s1. m s = (Inr x, s1) \<and> f x s1 = (Inr y, s'))"
  by (auto simp: io_bind_def split: prod.splits sum.splits)

lemma io_map_err_Inr: "io_map_err g m s = (Inr x, s') \<longleftrightarrow> m s = (Inr x, s')"
  by (auto simp: io_map_err_def map_err_def split: prod.splits sum.splits)

lemma confirm_Inr:
  "confirm port dev now expected c reason outcome s = (Inr out, s') \<longleftrightarrow>
     out = outcome \<and> verify_with_retry port dev now expected s = (Inr True, s')"
  by (auto simp: confirm_def io_bind_Inr io_map_err_Inr io_error_def io_return_def split: if_splits)

lemma verify_attempts_last:
  "verify_attempts n port dev now expected s = (Inr True, s') \<Longrightarrow>
   \<exists>s0. verify_current port dev now expected s0 = (Inr True, s')"
  by (induction n arbitrary: s) (auto simp: io_bind_Inr io_return_def split: if_splits)

lemma execute_prepared_Inr:
  assumes "execute_prepared port exec now a s = (Inr outcome, s')"
  shows "validate_prepared a = Inr () \<and>
     (\<exists>s1. verify_current port (pa_device_id a) now (pa_before a) s = (Inr True, s1) \<and>
        (if pa_effect a = AlreadySatisfiedEffect then outcome = retained_outcome
         else (\<exists>s2. exec (pa_commands a) s1 = (Inr outcome, s2)))) \<and>
     (\<exists>s0. verify_current port (pa_device_id a) now (pa_verify a) s0 = (Inr True, s'))"
  using assms verify_attempts_last
  by (fastforce simp: execute_prepared_def io_bind_Inr io_map_err_Inr io_of_def io_error_def confirm_Inr
      res_simps verify_with_retry_def split: if_splits)

text \<open>An execution succeeds only when the live state was found to be exactly the authorized
  before-state, then the prepared commands ran completely (unless there was nothing to change), and
  the last thing done was a complete comparison that found exactly the expected after-state.\<close>

theorem prepared_success_verified:
  assumes "execute_prepared port exec now a s = (Inr outcome, s')"
  shows "validate_prepared a = Inr () \<and>
     (\<exists>s1. verify_current port (pa_device_id a) now (pa_before a) s = (Inr True, s1) \<and>
        (if pa_effect a = AlreadySatisfiedEffect then outcome = retained_outcome
         else (\<exists>s2. exec (pa_commands a) s1 = (Inr outcome, s2)))) \<and>
     (\<exists>s0. verify_current port (pa_device_id a) now (pa_verify a) s0 = (Inr True, s'))"
  using assms by (rule execute_prepared_Inr)

subsection \<open>Two executions\<close>

definition rejection :: string where
  "rejection = ''% Invalid input'' @ [newline] @ ''R#''"

definition rejecting_line :: "nat line" where
  "rejecting_line = \<lparr>ln_late = (\<lambda>s. False), ln_send = (\<lambda>c s. (Inr [(Data rejection, False)], s))\<rparr>"

definition rejected_devices :: locked_devices where
  "rejected_devices = [(7, \<lparr>op_hostname = ''R'', op_fingerprint = [], op_pinned_now = False\<rparr>)]"

definition open_port :: prepared_inverse where
  "open_port = \<lparr>pi_verification_mode = Routing, pi_expected_current = [], pi_restore = [],
     pi_commands = [''configure terminal'', ''interface Gi0/1'', ''no shutdown'', ''end''], pi_verify = []\<rparr>"

lemma rejected_inverse:
  "\<exists>e. execute_inverse (locked_port (\<lambda>_. False) (\<lambda>_. rejecting_line) rejected_devices 7)
     (locked_execute (\<lambda>_. False) (\<lambda>_. rejecting_line) rejected_devices 7) 0 7 open_port 4 = (Inl e, 4) \<and>
   no_effect_proven e"
proof -
  have words: "enters_interface ''interface Gi0/1''" "leaves_interface ''configure terminal''"
    "\<not> enters_interface ''configure terminal''" "\<not> enters_interface ''no shutdown''"
    "\<not> leaves_interface ''no shutdown''" "\<not> enters_interface ''end''" "\<not> bare_shutdown ''end''"
    "\<not> enters_interface ''exit''" "\<not> bare_shutdown ''exit''"
    by code_simp+
  have gate: "check_allowed [''configure terminal'', ''interface Gi0/1'', ''no shutdown'', ''end''] = Inr ()"
    "check_allowed [''interface Gi0/1'', ''no shutdown'', ''exit''] = Inr ()"
    unfolding check_allowed_iff using sample_allowed words by (simp_all add: sequence_safe_def)
  have plan: "locked_commands [''configure terminal'', ''interface Gi0/1'', ''no shutdown'', ''end''] =
      Inr [''interface Gi0/1'', ''no shutdown'', ''exit'']"
    by code_simp
  have reply: "prompt_matcher ''R'' rejection"
    "ios_command_error (clean_output rejection ''interface Gi0/1'') = Some ''% Invalid input''"
    by code_simp+
  obtain e where run: "session_run rejecting_line ''R'' ''interface Gi0/1'' 4 = (Inl e, 4)" "rejected e"
    by (simp add: rejecting_line_def session_run_def reply Let_def rejected_def)
  then show ?thesis
    by (simp add: execute_inverse_def open_port_def io_bind_def io_map_err_def io_return_def map_err_def
        locked_execute_def gate plan rejected_devices_def no_effect_proven_def plan_failure_proven)
qed

lemma prepared_no_effect_sound_witness:
  "\<exists>e. execute_inverse (locked_port (\<lambda>_. False) (\<lambda>_. rejecting_line) rejected_devices 7)
     (locked_execute (\<lambda>_. False) (\<lambda>_. rejecting_line) rejected_devices 7) 0 7 open_port 4 = (Inl e, 4) \<and>
   id (4 :: nat) = id 4"
proof -
  have "\<forall>d :: u64. honest_line id rejecting_line" by (simp add: honest_line_def rejecting_line_def)
  from prepared_no_effect_sound [where cfg = id and link = "\<lambda>_. rejecting_line", OF this] rejected_inverse
  show ?thesis by blast
qed

definition shut_action :: prepared_action where
  "shut_action = \<lparr>pa_schema_version = 1, pa_device_id = 7, pa_template_id = 3, pa_template_name = ''iface_shutdown'',
     pa_canonical_params = JNull, pa_verification_mode = Routing, pa_commands = [],
     pa_before = [InterfaceAdmin ''Gi0/1'' True], pa_after = [InterfaceAdmin ''Gi0/1'' True],
     pa_verify = [InterfaceAdmin ''Gi0/1'' True], pa_effect = AlreadySatisfiedEffect, pa_inverse = None,
     pa_prepared_at = 0\<rparr>"

definition shut_port :: "nat port" where
  "shut_port command s = (Inr (''interface Gi0/1'' @ [newline] @ '' shutdown''), s + 1)"

lemma shut_executes:
  "execute_prepared shut_port (\<lambda>_ s. (Inl LockSetOverBudget, s)) 0 shut_action 0 = (Inr retained_outcome, 2)"
  by code_simp

lemma prepared_success_verified_witness:
  "validate_prepared shut_action = Inr () \<and>
   (\<exists>s0. verify_current shut_port 7 0 [InterfaceAdmin ''Gi0/1'' True] s0 = (Inr True, 2))"
  using prepared_success_verified [OF shut_executes] by (simp add: shut_action_def)

end
