(* ===== verification/Reachability.thy ===== *)
theory Reachability
  imports Ssh_Session Database
begin

text \<open>
  \<open>src/backend-rust/src/reroute/reachability.rs\<close> with the probe of \<open>ssh/mod.rs\<close> behind it:
  whether a device can be mitigated now, and whether it has been reachable for long enough to be
  acted on automatically. Wall-clock instants are nanoseconds since the epoch; \<open>tick\<close> is the
  process clock of \<open>Instant\<close>. The rendering of an SSH error is the parameter \<open>say\<close>.
\<close>

subsection \<open>Probing the commands a reroute needs\<close>

datatype ssh_reach =
    Privileged
  | UserExec string
  | Restricted string
  | Unreachable string

record capability_check =
  cc_name :: string
  cc_command :: string
  cc_ok :: bool
  cc_detail :: string

definition probes :: "(string \<times> string) list" where
  "probes =
     [(''Read running-config'', ''show running-config | section ^router bgp''),
      (''Read IPv4 routing table'', ''show ip route summary''),
      (''Read IPv6 routing table'', ''show ipv6 route summary''),
      (''Read BGP table'', ''show ip bgp summary''),
      (''Read interfaces'', ''show interfaces summary''),
      (''Read prefix-lists'', ''show ip prefix-list''),
      (''Read configuration lock'', ''show configuration lock''),
      (''Acquire exclusive configuration lock'', ''configure terminal lock'')]"

definition capability_of :: "ssh_outcome \<Rightarrow> nat \<times> string \<times> string \<Rightarrow> capability_check" where
  "capability_of outcome =
     (\<lambda>(i, name, command).
        let output = (if i < length (so_results outcome) then cr_output (so_results outcome ! i) else []);
            denied = ios_command_error output
        in \<lparr>cc_name = name, cc_command = command, cc_ok = (denied = None),
            cc_detail = (case denied of Some d \<Rightarrow> d | None \<Rightarrow> [])\<rparr>)"

definition probe_capabilities ::
    "('s \<Rightarrow> (string + opened) \<times> 's) \<Rightarrow> 's line \<Rightarrow> 's \<Rightarrow> (ssh_error + capability_check list) \<times> 's" where
  "probe_capabilities connect ln s =
     (case run_on connect ln (map snd probes) s of
        (Inl e, s') \<Rightarrow> (Inl e, s')
      | (Inr outcome, s') \<Rightarrow> (Inr (map (capability_of outcome) (enumerate 0 probes)), s'))"

definition backticked :: "string \<Rightarrow> string" where
  "backticked s = [CHR 0x60] @ s @ [CHR 0x60]"

definition denied_text :: "capability_check \<Rightarrow> string" where
  "denied_text c =
     (if cc_detail c = [] then backticked (cc_command c)
      else backticked (cc_command c) @ '' ('' @ cc_detail c @ '')'')"

definition caps_denied_summary :: "capability_check list \<Rightarrow> string option" where
  "caps_denied_summary checks =
     (let denied = filter (\<lambda>c. \<not> cc_ok c) checks in
      if denied = [] then None
      else Some (''SSH reached enable mode but the account was denied '' @
        show_nat (length denied) @ ''/'' @ show_nat (length checks) @ '' required commands: '' @
        join ''; '' (map denied_text denied) @
        ''. Give the account privilege 15 or a parser view that permits these (see the device'' @
        [CHR 0x27] @ ''s Command access panel).''))"

definition is_user_exec_error :: "string \<Rightarrow> bool" where
  "is_user_exec_error msg = contains ''user-EXEC'' msg"

definition ssh_probe ::
    "(ssh_error \<Rightarrow> string) \<Rightarrow> ('s \<Rightarrow> (string + opened) \<times> 's) \<Rightarrow> 's line \<Rightarrow> 's \<Rightarrow> ssh_reach \<times> 's" where
  "ssh_probe say connect ln s =
     (case probe_capabilities connect ln s of
        (Inr checks, s') \<Rightarrow>
          (case caps_denied_summary checks of
             None \<Rightarrow> (Privileged, s')
           | Some summary \<Rightarrow> (Restricted summary, s'))
      | (Inl e, s') \<Rightarrow>
          (if is_user_exec_error (say e) then (UserExec (say e), s') else (Unreachable (say e), s')))"

subsection \<open>The clocks of a device\<close>

definition NANOS :: int where
  "NANOS = 1000000000"

text \<open>chrono's \<open>num_seconds\<close> cuts towards zero.\<close>

definition num_seconds :: "int \<Rightarrow> int" where
  "num_seconds d = sgn d * (\<bar>d\<bar> div NANOS)"

definition RECENCY_WINDOW :: int where
  "RECENCY_WINDOW = 60"

definition STABILITY_WINDOW :: int where
  "STABILITY_WINDOW = 60"

definition STATUS_REACHABLE :: string where
  "STATUS_REACHABLE = ''reachable''"

definition STATUS_NO_PRIVILEGE :: string where
  "STATUS_NO_PRIVILEGE = ''no_privilege''"

definition STATUS_UNREACHABLE :: string where
  "STATUS_UNREACHABLE = ''unreachable''"

definition device_stable :: "string \<Rightarrow> int option \<Rightarrow> int \<Rightarrow> bool" where
  "device_stable status since now =
     (status = STATUS_REACHABLE \<and>
      (case since of
         Some t \<Rightarrow> (let secs = num_seconds (now - t) in 0 \<le> secs \<and> STABILITY_WINDOW \<le> secs)
       | None \<Rightarrow> False))"

definition recent_enough :: "int option \<Rightarrow> int \<Rightarrow> bool" where
  "recent_enough last_ok now =
     (case last_ok of
        Some t \<Rightarrow> (let secs = num_seconds (now - t) in 0 \<le> secs \<and> secs < RECENCY_WINDOW)
      | None \<Rightarrow> False)"

text \<open>The successes of this process, by device.\<close>

type_synonym successes = "u64 \<rightharpoonup> int"

definition recent_process_success :: "successes \<Rightarrow> int \<Rightarrow> u64 \<Rightarrow> bool" where
  "recent_process_success cache tick d =
     (case cache d of Some at \<Rightarrow> tick - at < RECENCY_WINDOW * NANOS | None \<Rightarrow> False)"

definition set_process_success :: "u64 \<Rightarrow> bool \<Rightarrow> int \<Rightarrow> successes \<Rightarrow> successes" where
  "set_process_success d reachable tick cache =
     (if reachable then cache(d \<mapsto> tick) else cache(d := None))"

subsection \<open>Recording an outcome\<close>

definition stamp_reachable :: "int \<Rightarrow> device_row \<Rightarrow> device_row" where
  "stamp_reachable utc r =
     r\<lparr>dv_ssh_status := STATUS_REACHABLE, dv_last_ssh_error := None, dv_last_ssh_ok_at := Some utc,
       dv_ssh_reachable_since := (case dv_ssh_reachable_since r of Some t \<Rightarrow> Some t | None \<Rightarrow> Some utc)\<rparr>"

definition stamp_failure :: "string \<Rightarrow> string option \<Rightarrow> device_row \<Rightarrow> device_row" where
  "stamp_failure status err r =
     r\<lparr>dv_ssh_status := status, dv_last_ssh_error := err, dv_ssh_reachable_since := None\<rparr>"

definition update_device :: "u64 \<Rightarrow> (device_row \<Rightarrow> device_row) \<Rightarrow> database \<Rightarrow> database" where
  "update_device d g db = db\<lparr>db_devices := update_rows (\<lambda>r. dv_id r = d) g (db_devices db)\<rparr>"

definition stamp_ssh_status ::
    "faults \<Rightarrow> int \<Rightarrow> int \<Rightarrow> u64 \<Rightarrow> string \<Rightarrow> string option \<Rightarrow> database \<times> successes \<Rightarrow>
     (string + unit) \<times> database \<times> successes" where
  "stamp_ssh_status f utc tick d status err =
     (\<lambda>(db, cache).
        if status = STATUS_REACHABLE
        then (case f QStamp of
                Some e \<Rightarrow> (Inl e, db, cache)
              | None \<Rightarrow> (Inr (), update_device d (stamp_reachable utc) db,
                         set_process_success d True tick cache))
        else (let cleared = set_process_success d False tick cache in
              case f QStamp of
                Some e \<Rightarrow> (Inl e, db, cleared)
              | None \<Rightarrow> (Inr (), update_device d (stamp_failure status err) db, cleared)))"

definition stamp_ssh_ok ::
    "faults \<Rightarrow> int \<Rightarrow> int \<Rightarrow> u64 \<Rightarrow> database \<times> successes \<Rightarrow> (string + unit) \<times> database \<times> successes" where
  "stamp_ssh_ok f utc tick d = stamp_ssh_status f utc tick d STATUS_REACHABLE None"

definition reset_stability ::
    "faults \<Rightarrow> database \<times> successes \<Rightarrow> (string + unit) \<times> database \<times> successes" where
  "reset_stability f =
     (\<lambda>(db, cache).
        case f QStability of
          Some e \<Rightarrow> (Inl e, db, Map.empty)
        | None \<Rightarrow> (Inr (), db\<lparr>db_devices := map (\<lambda>r. r\<lparr>dv_ssh_reachable_since := None\<rparr>) (db_devices db)\<rparr>,
                   Map.empty))"

subsection \<open>The decision\<close>

record reachability =
  re_ssh_ok :: bool
  re_ssh_status :: string
  re_stable :: bool
  re_via_recency :: bool
  re_last_ssh_ok_at :: "int option"
  re_ssh_reachable_since :: "int option"
  re_ssh_error :: "string option"

definition read_device :: "faults \<Rightarrow> database \<Rightarrow> u64 \<Rightarrow> string \<times> int option \<times> int option" where
  "read_device f db d =
     (case fetch f QDevice (List.find (\<lambda>r. dv_id r = d) (db_devices db)) of
        Inr (Some r) \<Rightarrow> (dv_ssh_status r, dv_last_ssh_ok_at r, dv_ssh_reachable_since r)
      | _ \<Rightarrow> (STATUS_UNREACHABLE, None, None))"

definition not_reachable :: "string \<Rightarrow> int option \<Rightarrow> string \<Rightarrow> reachability" where
  "not_reachable status last_ok msg =
     \<lparr>re_ssh_ok = False, re_ssh_status = status, re_stable = False, re_via_recency = False,
      re_last_ssh_ok_at = last_ok, re_ssh_reachable_since = None, re_ssh_error = Some msg\<rparr>"

definition reachable_for_mitigation ::
    "faults \<Rightarrow> int \<Rightarrow> int \<Rightarrow> int \<Rightarrow> ('s \<Rightarrow> ssh_reach \<times> 's) \<Rightarrow> u64 \<Rightarrow> database \<times> successes \<Rightarrow> 's \<Rightarrow>
     reachability \<times> (database \<times> successes) \<times> 's" where
  "reachable_for_mitigation f now utc tick probe d st s =
     (let (status, last_ok, since) = read_device f (fst st) d in
      if status = STATUS_REACHABLE \<and> recent_enough last_ok now \<and>
         recent_process_success (snd st) tick d
      then (\<lparr>re_ssh_ok = True, re_ssh_status = STATUS_REACHABLE,
             re_stable = device_stable STATUS_REACHABLE since now, re_via_recency = True,
             re_last_ssh_ok_at = last_ok, re_ssh_reachable_since = since, re_ssh_error = None\<rparr>, st, s)
      else (case probe s of
         (Privileged, s') \<Rightarrow>
           (case stamp_ssh_status f utc tick d STATUS_REACHABLE None st of
              (Inl e, st') \<Rightarrow>
                (not_reachable STATUS_UNREACHABLE last_ok
                   (''could not persist SSH reachability: '' @ e), st', s')
            | (Inr _, st') \<Rightarrow>
                (let since_after = (case since of Some t \<Rightarrow> Some t | None \<Rightarrow> Some now) in
                 (\<lparr>re_ssh_ok = True, re_ssh_status = STATUS_REACHABLE,
                   re_stable = device_stable STATUS_REACHABLE since_after now, re_via_recency = False,
                   re_last_ssh_ok_at = Some now, re_ssh_reachable_since = since_after,
                   re_ssh_error = None\<rparr>, st', s')))
       | (Unreachable msg, s') \<Rightarrow>
           (not_reachable STATUS_UNREACHABLE last_ok msg,
            snd (stamp_ssh_status f utc tick d STATUS_UNREACHABLE (Some msg) st), s')
       | (UserExec msg, s') \<Rightarrow>
           (not_reachable STATUS_NO_PRIVILEGE last_ok msg,
            snd (stamp_ssh_status f utc tick d STATUS_NO_PRIVILEGE (Some msg) st), s')
       | (Restricted msg, s') \<Rightarrow>
           (not_reachable STATUS_NO_PRIVILEGE last_ok msg,
            snd (stamp_ssh_status f utc tick d STATUS_NO_PRIVILEGE (Some msg) st), s')))"

fun probe_status :: "ssh_reach \<Rightarrow> string \<times> string option" where
  "probe_status Privileged = (STATUS_REACHABLE, None)"
| "probe_status (UserExec m) = (STATUS_NO_PRIVILEGE, Some m)"
| "probe_status (Restricted m) = (STATUS_NO_PRIVILEGE, Some m)"
| "probe_status (Unreachable m) = (STATUS_UNREACHABLE, Some m)"

definition probe_ssh_and_store ::
    "faults \<Rightarrow> int \<Rightarrow> int \<Rightarrow> ('s \<Rightarrow> ssh_reach \<times> 's) \<Rightarrow> u64 \<Rightarrow> database \<times> successes \<Rightarrow> 's \<Rightarrow>
     string \<times> (database \<times> successes) \<times> 's" where
  "probe_ssh_and_store f utc tick probe d st s =
     (let (reach, s') = probe s;
          (status, err) = probe_status reach
      in (status, snd (stamp_ssh_status f utc tick d status err st), s'))"

subsection \<open>Denied commands\<close>

lemma session_run_clean:
  "session_run ln h c s = (Inr r, s') \<Longrightarrow> ios_command_error (cr_output r) = None"
  by (auto simp: session_run_def Let_def split: if_splits prod.splits sum.splits option.splits)

lemma run_each_clean:
  "run_each ln h rs cs s = (Inr out, s') \<Longrightarrow> list_all (\<lambda>r. ios_command_error (cr_output r) = None) rs \<Longrightarrow>
   list_all (\<lambda>r. ios_command_error (cr_output r) = None) out"
  by (induction ln h rs cs s rule: run_each.induct)
    (auto split: prod.splits sum.splits dest: session_run_clean)

lemma no_output_no_error: "ios_command_error [] = None"
  by code_simp

lemma probe_checks_pass:
  "probe_capabilities connect ln s = (Inr checks, s') \<Longrightarrow> list_all cc_ok checks"
  by (auto simp: probe_capabilities_def run_on_def capability_of_def Let_def no_output_no_error
      list_all_iff list_all_length split: prod.splits sum.splits if_splits dest!: run_each_clean)

text \<open>A session stops at the first command that the router rejects, so the probe that was to name
  every denied command never gets to name one: an account that is denied a command counts as
  unreachable.\<close>

lemma probe_never_restricted: "fst (ssh_probe say connect ln s) \<noteq> Restricted m"
proof (cases "probe_capabilities connect ln s")
  case (Pair r s')
  then show ?thesis
  proof (cases r)
    case (Inr checks)
    with Pair have "filter (\<lambda>c. \<not> cc_ok c) checks = []"
      using probe_checks_pass by (fastforce simp: list_all_iff filter_empty_conv)
    with Pair Inr show ?thesis by (simp add: ssh_probe_def caps_denied_summary_def)
  qed (simp add: ssh_probe_def)
qed

subsection \<open>Stability\<close>

lemma num_seconds_ge:
  assumes "0 < n"
  shows "n \<le> num_seconds d \<longleftrightarrow> n * NANOS \<le> d"
proof (cases "0 < d")
  case True
  have "n \<le> d div NANOS \<longleftrightarrow> n * NANOS \<le> d" unfolding NANOS_def by linarith
  with True show ?thesis by (simp add: num_seconds_def)
next
  case False
  then have "num_seconds d \<le> 0"
    using div_int_pos_iff [of "\<bar>d\<bar>" NANOS] by (simp add: num_seconds_def NANOS_def sgn_if)
  moreover from assms have "0 < n * NANOS" by (simp add: NANOS_def)
  ultimately show ?thesis using assms False by linarith
qed

lemma device_stable_iff:
  "device_stable status since now \<longleftrightarrow>
     status = STATUS_REACHABLE \<and> (\<exists>t. since = Some t \<and> t + STABILITY_WINDOW * NANOS \<le> now)"
proof (cases since)
  case (Some t)
  have w: "0 < STABILITY_WINDOW" by (simp add: STABILITY_WINDOW_def)
  then have "STABILITY_WINDOW \<le> num_seconds (now - t) \<longleftrightarrow> t + STABILITY_WINDOW * NANOS \<le> now"
    by (simp add: num_seconds_ge le_diff_eq add.commute)
  moreover have "0 \<le> num_seconds (now - t)" if "STABILITY_WINDOW \<le> num_seconds (now - t)"
    using that w by linarith
  ultimately show ?thesis using Some by (auto simp: device_stable_def Let_def)
qed (simp add: device_stable_def)

lemma find_update_device:
  "(\<And>r. dv_id (g r) = dv_id r) \<Longrightarrow>
   List.find (\<lambda>r. dv_id r = d) (update_rows (\<lambda>r. dv_id r = d) g rows) =
     map_option g (List.find (\<lambda>r. dv_id r = d) rows)"
  by (induction rows) (auto simp: update_rows_def)

text \<open>A device's row after a sequence of probes, each with the clocks it saw.\<close>

type_synonym sighting = "int \<times> int \<times> ssh_reach"

definition note_sighting :: "u64 \<Rightarrow> sighting \<Rightarrow> database \<times> successes \<Rightarrow> database \<times> successes" where
  "note_sighting d =
     (\<lambda>(utc, tick, reach) st.
        snd (stamp_ssh_status no_faults utc tick d (fst (probe_status reach)) (snd (probe_status reach)) st))"

definition since_of :: "u64 \<Rightarrow> database \<times> successes \<Rightarrow> int option" where
  "since_of d st = snd (snd (read_device no_faults (fst st) d))"

lemma status_distinct:
  "STATUS_NO_PRIVILEGE \<noteq> STATUS_REACHABLE" "STATUS_UNREACHABLE \<noteq> STATUS_REACHABLE"
  by (simp_all add: STATUS_NO_PRIVILEGE_def STATUS_UNREACHABLE_def STATUS_REACHABLE_def)

lemma since_after_loss:
  "reach \<noteq> Privileged \<Longrightarrow> since_of d (note_sighting d (utc, tick, reach) st) = None"
  by (cases reach; cases st)
    (auto simp: since_of_def read_device_def note_sighting_def stamp_ssh_status_def status_distinct
      no_faults_def update_device_def find_update_device stamp_failure_def fetch_def Let_def
      split: option.splits)

lemma since_after_contact:
  "since_of d (note_sighting d (utc, tick, Privileged) st) = Some t \<Longrightarrow>
   since_of d st = Some t \<or> since_of d st = None \<and> t = utc"
  by (cases st)
    (auto simp: since_of_def read_device_def note_sighting_def stamp_ssh_status_def
      no_faults_def update_device_def find_update_device stamp_reachable_def fetch_def
      split: option.splits)

lemma since_uninterrupted:
  "sorted (map fst es) \<Longrightarrow> since_of d st = None \<Longrightarrow>
   since_of d (fold (note_sighting d) es st) = Some t \<Longrightarrow>
   \<forall>(utc, _, reach) \<in> set es. t < utc \<longrightarrow> reach = Privileged"
proof (induction es arbitrary: t rule: rev_induct)
  case (snoc e es)
  obtain utc tick reach where e: "e = (utc, tick, reach)" by (cases e) auto
  from snoc.prems(1) have le: "\<forall>x \<in> set es. fst x \<le> utc" by (auto simp: sorted_append e)
  show ?case
  proof (cases "reach = Privileged")
    case True
    with snoc.prems(3) consider "since_of d (fold (note_sighting d) es st) = Some t" | "t = utc"
      by (auto simp: e dest: since_after_contact)
    then show ?thesis
    proof cases
      case 1
      with snoc.IH [of t] snoc.prems True show ?thesis by (auto simp: sorted_append e)
    next
      case 2
      with le True show ?thesis by (auto simp: e)
    qed
  next
    case False
    with snoc.prems(3) show ?thesis by (simp add: e since_after_loss)
  qed
qed simp

text \<open>After a restart, a device whose probes are all recorded only counts as stable when every
  probe of the last sixty seconds reached it with the full privilege: one failure, or the restart
  itself, makes automatic mitigations wait for a whole uninterrupted window.\<close>

theorem stability_uninterrupted:
  assumes "sorted (map fst es)"
    and "device_stable status (since_of d (fold (note_sighting d) es (snd (reset_stability no_faults st)))) now"
    and "(utc, tick, reach) \<in> set es" "now - utc < STABILITY_WINDOW * NANOS"
  shows "reach = Privileged"
proof -
  let ?st = "snd (reset_stability no_faults st)"
  have "since_of d ?st = None"
    by (cases st) (auto simp: since_of_def read_device_def reset_stability_def no_faults_def fetch_def
      split: option.splits dest!: find_SomeD)
  moreover from assms(2) obtain t where "since_of d (fold (note_sighting d) es ?st) = Some t"
    "t + STABILITY_WINDOW * NANOS \<le> now" by (auto simp: device_stable_iff)
  ultimately show ?thesis using since_uninterrupted [OF assms(1), of d ?st t] assms(3,4) by auto
qed

definition watched_device :: device_row where
  "watched_device = \<lparr>dv_id = 7, dv_ssh_status = STATUS_REACHABLE, dv_last_ssh_ok_at = None,
     dv_ssh_reachable_since = Some 0, dv_last_ssh_error = None\<rparr>"

definition watched :: "database \<times> successes" where
  "watched = (empty_database\<lparr>db_devices := [watched_device]\<rparr>, Map.empty)"

definition sightings :: "sighting list" where
  "sightings = [(0, 0, Privileged), (30 * NANOS, 0, Unreachable ''timeout''),
     (60 * NANOS, 60, Privileged), (121 * NANOS, 121, Privileged)]"

lemma sightings_since:
  "since_of 7 (fold (note_sighting 7) sightings (snd (reset_stability no_faults watched))) = Some (60 * NANOS)"
  by (simp add: sightings_def watched_def watched_device_def since_of_def read_device_def note_sighting_def
      reset_stability_def stamp_ssh_status_def no_faults_def update_device_def stamp_reachable_def
      stamp_failure_def fetch_def update_rows_def status_distinct Let_def)

theorem stability_uninterrupted_witness:
  "device_stable STATUS_REACHABLE
     (since_of 7 (fold (note_sighting 7) sightings (snd (reset_stability no_faults watched)))) (121 * NANOS) \<and>
   (121 * NANOS, 121, Privileged) \<in> set sightings \<and> Privileged = Privileged"
proof -
  have stable: "device_stable STATUS_REACHABLE
     (since_of 7 (fold (note_sighting 7) sightings (snd (reset_stability no_faults watched)))) (121 * NANOS)"
    by (simp add: sightings_since device_stable_iff STABILITY_WINDOW_def NANOS_def)
  have mem: "(121 * NANOS, 121, Privileged) \<in> set sightings" by (simp add: sightings_def)
  have "sorted (map fst sightings)" by (simp add: sightings_def NANOS_def)
  from stability_uninterrupted [OF this stable mem] stable mem show ?thesis
    by (simp add: STABILITY_WINDOW_def NANOS_def)
qed

subsection \<open>Losses\<close>

text \<open>Whether or not the database took the record, a failed probe of this process forces the next
  decision to probe again.\<close>

lemma loss_forces_probe:
  assumes "reach \<noteq> Privileged"
    and "snd (stamp_ssh_status f utc tick d (fst (probe_status reach)) err st) = st1"
    and "reachable_for_mitigation g now utc2 tick2 probe d st1 s = (r, st2, s')" "re_ssh_ok r"
  shows "fst (probe s) = Privileged \<and> \<not> re_via_recency r"
proof -
  have "snd st1 d = None" using assms(1,2)
    by (cases reach; cases st)
      (auto simp: stamp_ssh_status_def status_distinct set_process_success_def Let_def split: option.splits)
  then have "\<not> recent_process_success (snd st1) tick2 d" by (simp add: recent_process_success_def)
  with assms(3,4) show ?thesis
    by (auto simp: reachable_for_mitigation_def not_reachable_def Let_def
        split: prod.splits ssh_reach.splits sum.splits)
qed

text \<open>The stability clock is less careful: when the record of a failed probe is lost, the next
  contact continues the old clock, and the device counts as stable although it was unreachable
  within the window.\<close>

lemma lost_loss_keeps_stability:
  assumes "List.find (\<lambda>r. dv_id r = d) (db_devices (fst st)) = Some row"
    and "dv_ssh_reachable_since row = Some t" "t + STABILITY_WINDOW * NANOS \<le> now"
    and "f QStamp = Some e" "\<And>s. probe s = (Privileged, s)"
  shows "re_stable (fst (reachable_for_mitigation no_faults now utc tick2 probe d
      (snd (stamp_ssh_status f now tick d STATUS_UNREACHABLE (Some msg) st)) s))"
proof (cases st)
  case (Pair db cache)
  then show ?thesis using assms
    by (auto simp: reachable_for_mitigation_def stamp_ssh_status_def status_distinct read_device_def
        no_faults_def fetch_def device_stable_iff Let_def set_process_success_def
        recent_process_success_def split: sum.splits prod.splits)
qed

end
