(* ===== verification/Execution.thy ===== *)
theory Execution
  imports Reservation Live_State Reachability
begin

text \<open>
  The state machine of one reserved reroute, \<open>run_state_machine\<close> of
  \<open>src/backend-rust/src/reroute/executor.rs\<close>: the checked transitions before anything is
  sent, the three ways to apply a plan, the durable trail, and the terminal transaction. The SSH
  transport is the record \<open>ssh_executor\<close>, the trait of \<open>ssh/mod.rs\<close>; its state is
  \<open>'s\<close>. The texts of errors, refusals and notes come from the parameter \<open>say\<close>.
\<close>

subsection \<open>The transport\<close>

type_synonym resolver = "string \<Rightarrow> database \<Rightarrow> (string + session_plan) \<times> database"

record 's ssh_executor =
  sx_prepared :: "prepared_action \<Rightarrow> (exec_error, 's, ssh_outcome) io"
  sx_apply :: "u64 \<Rightarrow> string list \<Rightarrow> (ssh_error, 's, ssh_outcome) io"
  sx_read :: "u64 \<Rightarrow> string \<Rightarrow> (ssh_error, 's, string) io"
  sx_resolved :: "u64 \<Rightarrow> string \<Rightarrow> resolver \<Rightarrow> 's \<Rightarrow> database \<Rightarrow>
                  (ssh_error + ssh_outcome \<times> resolved_decision) \<times> 's \<times> database"

datatype apply_error =
    PreparedError exec_error
  | TransportError ssh_error
  | ParameterError param_error
  | PlanError string

datatype message =
    OfApply apply_error
  | OfDecision resolved_decision
  | OfRender render_error
  | OfSsh ssh_error

fun failure_of :: "apply_error \<Rightarrow> plan_failure option" where
  "failure_of (PreparedError (SessionFailed (PlanFailed f))) = Some f"
| "failure_of (TransportError (PlanFailed f)) = Some f"
| "failure_of _ = None"

text \<open>The transport over the sessions that hold the routers' configuration locks:
  \<open>LockedSshExecutor\<close>.\<close>

definition locked_resolved ::
    "('s \<Rightarrow> bool) \<Rightarrow> (u64 \<Rightarrow> 's line) \<Rightarrow> locked_devices \<Rightarrow> u64 \<Rightarrow> string \<Rightarrow> resolver \<Rightarrow> 's \<Rightarrow> database \<Rightarrow>
     (ssh_error + ssh_outcome \<times> resolved_decision) \<times> 's \<times> database" where
  "locked_resolved over link devices dev command resolve s db =
     (case locked_read over link devices dev command s of
        (Inl e, s1) \<Rightarrow> (Inl e, s1, db)
      | (Inr r, s1) \<Rightarrow>
          (case resolve (cr_output r) db of
             (Inl e, db') \<Rightarrow> (Inl (ResolverFailed e), s1, db')
           | (Inr plan, db') \<Rightarrow>
               (let outcome = (\<lambda>rs. \<lparr>so_results = rs, so_fingerprint = [], so_pinned_now = False\<rparr>) in
                case plan of
                  Push commands \<Rightarrow>
                    (case locked_execute over link devices dev commands s1 of
                       (Inl e, s2) \<Rightarrow> (Inl e, s2, db')
                     | (Inr pushed, s2) \<Rightarrow>
                         (Inr (outcome (r # so_results pushed), Resolved plan), s2, db'))
                | _ \<Rightarrow> (Inr (outcome [r], Resolved plan), s1, db'))))"

definition locked_executor ::
    "('s \<Rightarrow> bool) \<Rightarrow> (u64 \<Rightarrow> 's line) \<Rightarrow> locked_devices \<Rightarrow> int \<Rightarrow> 's ssh_executor" where
  "locked_executor over link devices now =
     \<lparr>sx_prepared = (\<lambda>a. execute_prepared (locked_port over link devices (pa_device_id a))
                          (locked_execute over link devices (pa_device_id a)) now a),
      sx_apply = locked_execute over link devices,
      sx_read = locked_port over link devices,
      sx_resolved = locked_resolved over link devices\<rparr>"

subsection \<open>Checked transitions\<close>

definition at_state :: "u64 \<Rightarrow> reroute_state set \<Rightarrow> reroute_row \<Rightarrow> bool" where
  "at_state rid states r = (rr_id r = rid \<and> rr_state r \<in> states)"

definition write_reroute ::
    "u64 \<Rightarrow> reroute_state set \<Rightarrow> (reroute_row \<Rightarrow> reroute_row) \<Rightarrow> database \<Rightarrow> database" where
  "write_reroute rid states g db =
     db\<lparr>db_reroutes := update_rows (at_state rid states) g (db_reroutes db)\<rparr>"

text \<open>An update that must hit exactly one row. It is committed before its count is read.\<close>

definition checked_update ::
    "faults \<Rightarrow> db_query \<Rightarrow> string \<Rightarrow> u64 \<Rightarrow> reroute_state set \<Rightarrow> (reroute_row \<Rightarrow> reroute_row) \<Rightarrow>
     database \<Rightarrow> (string + unit) \<times> database" where
  "checked_update f q conflict rid states g db =
     (case f q of
        Some e \<Rightarrow> (Inl e, db)
      | None \<Rightarrow>
          (if rows_affected (at_state rid states) (db_reroutes db) = 1 then Inr () else Inl conflict,
           write_reroute rid states g db))"

definition to_pending :: "faults \<Rightarrow> u64 \<Rightarrow> database \<Rightarrow> (string + unit) \<times> database" where
  "to_pending f rid =
     checked_update f (QTransition Pending) ''planned state was cancelled or changed before execution''
       rid {Planned} (\<lambda>r. r\<lparr>rr_state := Pending\<rparr>)"

definition to_running :: "faults \<Rightarrow> clock \<Rightarrow> u64 \<Rightarrow> database \<Rightarrow> (string + unit) \<times> database" where
  "to_running f clk rid =
     checked_update f (QTransition Running) ''pending state was cancelled or changed before execution''
       rid {Pending} (\<lambda>r. r\<lparr>rr_state := Running, rr_started_at := Some (clk (QTransition Running))\<rparr>)"

definition to_verifying :: "faults \<Rightarrow> u64 \<Rightarrow> database \<Rightarrow> (string + unit) \<times> database" where
  "to_verifying f rid =
     checked_update f (QTransition Verifying) [] rid {Running} (\<lambda>r. r\<lparr>rr_state := Verifying\<rparr>)"

subsection \<open>The durable trail\<close>

text \<open>Every write of the trail reports whether it was stored.\<close>

definition persist_output ::
    "faults \<Rightarrow> u64 \<Rightarrow> u32 \<Rightarrow> string \<Rightarrow> string \<Rightarrow> string \<Rightarrow> database \<Rightarrow> bool \<times> database" where
  "persist_output f rid step request response status db =
     (case f (QOutput step) of
        Some _ \<Rightarrow> (False, db)
      | None \<Rightarrow> (True, db\<lparr>db_outputs := db_outputs db @
          [\<lparr>or_reroute_id = rid, or_step_number = step, or_request = request, or_response = response,
            or_status = status\<rparr>]\<rparr>))"

fun persist_results :: "faults \<Rightarrow> u64 \<Rightarrow> nat \<Rightarrow> command_result list \<Rightarrow> database \<Rightarrow> bool \<times> database" where
  "persist_results f rid n [] db = (True, db)"
| "persist_results f rid n (r # rs) db =
     (let (ok, db1) = persist_output f rid (of_nat (Suc n)) (cr_command r) (cr_output r) ''ok'' db;
          (rest, db2) = persist_results f rid (Suc n) rs db1
      in (ok \<and> rest, db2))"

definition persist_failure :: "faults \<Rightarrow> u64 \<Rightarrow> plan_failure \<Rightarrow> database \<Rightarrow> bool \<times> database" where
  "persist_failure f rid pf db =
     (let (ok, db1) = persist_results f rid 0 (pf_completed pf) db;
          (last_ok, db2) = persist_output f rid (of_nat (length (pf_completed pf) + 1))
            (pf_failed_command pf) (pf_failed_output pf) ''error'' db1
      in (ok \<and> last_ok, db2))"

definition mark_steps ::
    "faults \<Rightarrow> u64 \<Rightarrow> string \<Rightarrow> (step_row \<Rightarrow> bool) \<Rightarrow> database \<Rightarrow> bool \<times> database" where
  "mark_steps f rid state p db =
     (case f (QStepState state) of
        Some _ \<Rightarrow> (False, db)
      | None \<Rightarrow> (True, db\<lparr>db_steps := update_rows (\<lambda>r. sr_reroute_id r = rid \<and> p r)
                            (\<lambda>r. r\<lparr>sr_state := state\<rparr>) (db_steps db)\<rparr>))"

definition verification_text :: "verify_step \<Rightarrow> string" where
  "verification_text v =
     ''expect='' @ (case vs_expect v of Some e \<Rightarrow> e | None \<Rightarrow> ''-'') @
     '' reject='' @ (case vs_reject v of Some r \<Rightarrow> r | None \<Rightarrow> ''-'')"

definition persist_verification ::
    "faults \<Rightarrow> u64 \<Rightarrow> verify_step \<Rightarrow> string \<Rightarrow> string \<Rightarrow> database \<Rightarrow> bool \<times> database" where
  "persist_verification f rid v observed res db =
     (case f QVerification of
        Some _ \<Rightarrow> (False, db)
      | None \<Rightarrow> (True, db\<lparr>db_verifications := db_verifications db @
          [\<lparr>vr_reroute_id = rid, vr_expected = verification_text v, vr_observed = observed,
            vr_result = res\<rparr>]\<rparr>))"

subsection \<open>Resolving a deferred sequence number\<close>

fun describe_steps :: "faults \<Rightarrow> u64 \<Rightarrow> nat \<Rightarrow> string list \<Rightarrow> database \<Rightarrow> (string + unit) \<times> database" where
  "describe_steps f rid n [] db = (Inr (), db)"
| "describe_steps f rid n (c # cs) db =
     (let step = of_nat (Suc n) in
      case f (QStepText step) of
        Some e \<Rightarrow> (Inl e, db)
      | None \<Rightarrow> describe_steps f rid (Suc n) cs
          (db\<lparr>db_steps := update_rows (\<lambda>r. sr_reroute_id r = rid \<and> sr_step_number r = step)
                (\<lambda>r. r\<lparr>sr_description := c\<rparr>) (db_steps db)\<rparr>))"

definition no_longer_running :: "u64 \<Rightarrow> string \<Rightarrow> string" where
  "no_longer_running rid what =
     ''reroute #'' @ show_word rid @ '' was no longer running when its prefix-list '' @ what"

definition persist_resolved_sequence ::
    "faults \<Rightarrow> action_request \<Rightarrow> u64 \<Rightarrow> u32 \<Rightarrow> rendered_plan option \<Rightarrow> database \<Rightarrow> (string + unit) \<times> database" where
  "persist_resolved_sequence f req rid sequence plan db =
     (let base = (case as_object (aq_params req) of Some m \<Rightarrow> m | None \<Rightarrow> []);
          params = JObj (bt_insert SEQUENCE_PARAM (JStr (show_word sequence)) base)
      in case plan of
           Some p \<Rightarrow>
             (case checked_update f QResolved (no_longer_running rid ''sequence was resolved'') rid {Running}
                     (\<lambda>r. r\<lparr>rr_params := Some params, rr_commands := rp_commands p\<rparr>) db of
                (Inl e, db1) \<Rightarrow> (Inl e, db1)
              | (Inr _, db1) \<Rightarrow> describe_steps f rid 0 (rp_commands p) db1)
         | None \<Rightarrow>
             checked_update f QResolved (no_longer_running rid ''entry was identified'') rid {Running}
               (\<lambda>r. r\<lparr>rr_params := Some params\<rparr>) db)"

definition sequence_resolver ::
    "faults \<Rightarrow> (message \<Rightarrow> string) \<Rightarrow> action_request \<Rightarrow> u64 \<Rightarrow> bool \<Rightarrow> string \<Rightarrow> string \<Rightarrow> resolver" where
  "sequence_resolver f say req rid adding lst pfx output db =
     (let decision = (if adding then plan_add output lst pfx else plan_remove output lst pfx) in
      case session_plan_for decision (aq_template req) (aq_params req) of
        Inl e \<Rightarrow> (Inl (say (OfRender e)), db)
      | Inr (plan, None) \<Rightarrow> (Inr plan, db)
      | Inr (plan, Some (sequence, concrete)) \<Rightarrow>
          (case persist_resolved_sequence f req rid sequence concrete db of
             (Inl e, db') \<Rightarrow> (Inl e, db')
           | (Inr _, db') \<Rightarrow> (Inr plan, db')))"

definition sequenced_direction :: "string \<Rightarrow> bool option" where
  "sequenced_direction name =
     (if name = ''bgp_advertise_add'' then Some True
      else if name = ''bgp_advertise_remove'' then Some False else None)"

definition apply_with_sequence_resolution ::
    "faults \<Rightarrow> (message \<Rightarrow> string) \<Rightarrow> 's ssh_executor \<Rightarrow> action_request \<Rightarrow> u64 \<Rightarrow> 's \<Rightarrow> database \<Rightarrow>
     (apply_error + ssh_outcome \<times> resolved_decision) \<times> 's \<times> database" where
  "apply_with_sequence_resolution f say ssh req rid s db =
     (case validate_and_expand (tp_parameter_schema (aq_template req)) (aq_params req) of
        Inl e \<Rightarrow> (Inl (ParameterError e), s, db)
      | Inr subst \<Rightarrow>
         (case map_of subst ''prefix_list_name'' of
            None \<Rightarrow> (Inl (PlanError ''sequenced prefix-list action has no prefix_list_name''), s, db)
          | Some lst \<Rightarrow>
             (case map_of subst ''prefix'' of
                None \<Rightarrow> (Inl (PlanError ''sequenced prefix-list action has no prefix''), s, db)
              | Some pfx \<Rightarrow>
                 (case sequenced_direction (tp_name (aq_template req)) of
                    None \<Rightarrow> (Inl (PlanError (''template '' @ [CHR 0x27] @ tp_name (aq_template req) @
                       [CHR 0x27] @ '' has no prefix-list sequence resolver'')), s, db)
                  | Some adding \<Rightarrow>
                     (case sx_resolved ssh (aq_device_id req) (''show ip prefix-list '' @ lst)
                             (sequence_resolver f say req rid adding lst pfx) s db of
                        (Inl e, s', db') \<Rightarrow> (Inl (TransportError e), s', db')
                      | (Inr out, s', db') \<Rightarrow> (Inr out, s', db'))))))"

subsection \<open>Applying a plan\<close>

record applied =
  ap_result :: "apply_error + ssh_outcome"
  ap_refusal :: "string option"
  ap_skip :: "string option"
  ap_persisted :: bool

definition empty_outcome :: ssh_outcome where
  "empty_outcome = \<lparr>so_results = [], so_fingerprint = [], so_pinned_now = False\<rparr>"

definition satisfied_note :: string where
  "satisfied_note = ''prepared state was already satisfied; no configuration was pushed''"

text \<open>A prepared action. An error that proves that nothing was changed becomes a refusal.\<close>

definition apply_prepared ::
    "faults \<Rightarrow> (message \<Rightarrow> string) \<Rightarrow> 's ssh_executor \<Rightarrow> u64 \<Rightarrow> prepared_action \<Rightarrow> 's \<Rightarrow> database \<Rightarrow>
     applied \<times> 's \<times> database" where
  "apply_prepared f say ssh rid prepared s db =
     (case sx_prepared ssh prepared s of
        (Inr outcome, s') \<Rightarrow>
          (\<lparr>ap_result = Inr outcome, ap_refusal = None,
            ap_skip = (if pa_effect prepared = AlreadySatisfiedEffect then Some satisfied_note else None),
            ap_persisted = True\<rparr>, s', db)
      | (Inl e, s') \<Rightarrow>
          (if no_effect_proven e
           then let (ok, db') = (case failure_of (PreparedError e) of
                      Some pf \<Rightarrow> persist_failure f rid pf db | None \<Rightarrow> (True, db))
                in (\<lparr>ap_result = Inr empty_outcome, ap_refusal = Some (say (OfApply (PreparedError e))),
                     ap_skip = None, ap_persisted = ok\<rparr>, s', db')
           else (\<lparr>ap_result = Inl (PreparedError e), ap_refusal = None, ap_skip = None,
                  ap_persisted = True\<rparr>, s', db)))"

definition apply_resolved ::
    "faults \<Rightarrow> (message \<Rightarrow> string) \<Rightarrow> 's ssh_executor \<Rightarrow> action_request \<Rightarrow> u64 \<Rightarrow> 's \<Rightarrow> database \<Rightarrow>
     applied \<times> 's \<times> database" where
  "apply_resolved f say ssh req rid s db =
     (case apply_with_sequence_resolution f say ssh req rid s db of
        (Inl e, s', db') \<Rightarrow>
          (\<lparr>ap_result = Inl e, ap_refusal = None, ap_skip = None, ap_persisted = True\<rparr>, s', db')
      | (Inr (outcome, decision), s', db') \<Rightarrow>
          (\<lparr>ap_result = Inr outcome,
            ap_refusal = (case decision of
                Resolved (Push _) \<Rightarrow> None | Resolved (Skip _) \<Rightarrow> None
              | _ \<Rightarrow> Some (say (OfDecision decision))),
            ap_skip = (case decision of
                Resolved (Skip _) \<Rightarrow> Some (say (OfDecision decision)) | _ \<Rightarrow> None),
            ap_persisted = True\<rparr>, s', db'))"

definition apply_plain ::
    "'s ssh_executor \<Rightarrow> action_request \<Rightarrow> rendered_plan \<Rightarrow> 's \<Rightarrow> database \<Rightarrow> applied \<times> 's \<times> database" where
  "apply_plain ssh req plan s db =
     (let (r, s') = sx_apply ssh (aq_device_id req) (rp_commands plan) s in
      (\<lparr>ap_result = map_err TransportError r, ap_refusal = None, ap_skip = None,
        ap_persisted = True\<rparr>, s', db))"

definition apply_phase ::
    "faults \<Rightarrow> (message \<Rightarrow> string) \<Rightarrow> 's ssh_executor \<Rightarrow> action_request \<Rightarrow> u64 \<Rightarrow> rendered_plan \<Rightarrow>
     prepared_action option \<Rightarrow> 's \<Rightarrow> database \<Rightarrow> applied \<times> 's \<times> database" where
  "apply_phase f say ssh req rid plan prepared s db =
     (case prepared of
        Some a \<Rightarrow> apply_prepared f say ssh rid a s db
      | None \<Rightarrow>
          if rp_sequence_pending plan then apply_resolved f say ssh req rid s db
          else apply_plain ssh req plan s db)"

text \<open>The outputs, the steps and the contact of an apply.\<close>

definition record_applied ::
    "faults \<Rightarrow> clock \<Rightarrow> int \<Rightarrow> (message \<Rightarrow> string) \<Rightarrow> u64 \<Rightarrow> u64 \<Rightarrow> apply_error + ssh_outcome \<Rightarrow>
     database \<times> successes \<Rightarrow> bool \<times> database \<times> successes" where
  "record_applied f clk tick say rid dev result =
     (\<lambda>(db, cache).
        case result of
          Inr outcome \<Rightarrow>
            (let (ok1, db1) = persist_results f rid 0 (so_results outcome) db;
                 (ok2, db2) = mark_steps f rid ''done'' (\<lambda>_. True) db1;
                 (stamped, st) = stamp_ssh_ok f (clk QStamp * NANOS) tick dev (db2, cache)
             in (ok1 \<and> ok2 \<and> is_ok stamped, st))
        | Inl e \<Rightarrow>
            (let (ok1, db1) = (case failure_of e of
                   Some pf \<Rightarrow> persist_failure f rid pf db
                 | None \<Rightarrow> persist_output f rid 0 ''<apply>'' (say (OfApply e)) ''error'' db);
                 (ok2, db2) = mark_steps f rid ''failed'' (\<lambda>_. True) db1
             in (ok1 \<and> ok2, db2, cache)))"

definition verdict_text :: "verdict \<Rightarrow> string" where
  "verdict_text v =
     (case v of Pass \<Rightarrow> ''pass'' | Fail \<Rightarrow> ''fail'' | UncertainVerdict \<Rightarrow> ''uncertain''
      | NoVerdict \<Rightarrow> ''none'')"

definition verify_plan ::
    "faults \<Rightarrow> (message \<Rightarrow> string) \<Rightarrow> 's ssh_executor \<Rightarrow> action_request \<Rightarrow> u64 \<Rightarrow> rendered_plan \<Rightarrow>
     's \<Rightarrow> database \<Rightarrow> (verdict \<times> bool) \<times> 's \<times> database" where
  "verify_plan f say ssh req rid plan s db =
     (case rp_verify plan of
        None \<Rightarrow> ((NoVerdict, True), s, db)
      | Some v \<Rightarrow>
          (case sx_read ssh (aq_device_id req) (vs_command v) s of
             (Inr output, s') \<Rightarrow>
               (let verdict = legacy_verdict output v;
                    res = (case verdict of Pass \<Rightarrow> ''pass'' | Fail \<Rightarrow> ''fail'' | _ \<Rightarrow> ''uncertain'');
                    (ok, db') = persist_verification f rid v output res db
                in ((verdict, ok), s', db'))
           | (Inl e, s') \<Rightarrow>
               (let (ok, db') = persist_verification f rid v
                      (''verify read failed: '' @ say (OfSsh e)) ''uncertain'' db
                in ((UncertainVerdict, ok), s', db'))))"

subsection \<open>The terminal transaction\<close>

definition state_text :: "terminal_state \<Rightarrow> string" where
  "state_text st =
     (case st of StateSucceeded \<Rightarrow> ''succeeded'' | StateFailed \<Rightarrow> ''failed''
      | StateUncertain \<Rightarrow> ''uncertain'')"

definition row_state :: "terminal_state \<Rightarrow> reroute_state" where
  "row_state st =
     (case st of StateSucceeded \<Rightarrow> Succeeded | StateFailed \<Rightarrow> Failed | StateUncertain \<Rightarrow> Uncertain)"

definition row_success :: "terminal_state \<Rightarrow> bool option" where
  "row_success st =
     (case st of StateSucceeded \<Rightarrow> Some True | StateFailed \<Rightarrow> Some False | StateUncertain \<Rightarrow> None)"

definition failure_text :: "terminal_state \<Rightarrow> bool \<Rightarrow> string option \<Rightarrow> string option" where
  "failure_text st applied_ok refused =
     (case refused of
        Some reason \<Rightarrow> Some reason
      | None \<Rightarrow>
         (case st of
            StateFailed \<Rightarrow> Some (if applied_ok
              then ''commands ran but verification did not confirm the intended state''
              else ''command push failed and verification did not confirm the change'')
          | StateUncertain \<Rightarrow> Some (if applied_ok
              then ''could not verify the resulting state after pushing config''
              else ''the SSH apply ended ambiguously and may have applied only part of the command plan'')
          | StateSucceeded \<Rightarrow> None))"

definition finalized_row ::
    "int \<Rightarrow> terminal_state \<Rightarrow> bool \<Rightarrow> verdict \<Rightarrow> mutation_effect \<Rightarrow> string option \<Rightarrow> reroute_row \<Rightarrow> reroute_row" where
  "finalized_row now st applied_ok v effect refused r =
     r\<lparr>rr_state := row_state st, rr_finished_at := Some now, rr_success := row_success st,
       rr_verification_status := Some (verdict_text v), rr_mutation_effect := effect,
       rr_failure_reason := failure_text st applied_ok refused\<rparr>"

definition record_alert :: "string \<Rightarrow> string \<Rightarrow> u64 option \<Rightarrow> string \<Rightarrow> database \<Rightarrow> database" where
  "record_alert event severity dev key db =
     db\<lparr>db_alerts := db_alerts db @
       [\<lparr>al_event = event, al_severity = severity, al_device_id = dev, al_dedup_key = key\<rparr>]\<rparr>"

definition record_audit :: "string \<Rightarrow> u64 option \<Rightarrow> string \<Rightarrow> u64 \<Rightarrow> string \<Rightarrow> database \<Rightarrow> database" where
  "record_audit actor user event rid msg db =
     db\<lparr>db_audit := db_audit db @
       [\<lparr>au_actor_type = actor, au_user_id = user, au_event = event, au_reroute_id = rid,
         au_message = msg\<rparr>]\<rparr>"

definition actor_of :: "action_request \<Rightarrow> string" where
  "actor_of req = (if aq_user_id req = None then ''controller'' else ''user'')"

definition finalize_transaction ::
    "faults \<Rightarrow> clock \<Rightarrow> action_request \<Rightarrow> u64 \<Rightarrow> terminal_state \<Rightarrow> bool \<Rightarrow> verdict \<Rightarrow> mutation_effect \<Rightarrow>
     string option \<Rightarrow> database \<Rightarrow> string + database" where
  "finalize_transaction f clk req rid st applied_ok v effect refused db =
     (let event = ''reroute_'' @ state_text st in
      and_then (fetch f QBegin ()) (\<lambda>_.
      and_then (fetch f QUpdate ()) (\<lambda>_.
      and_then (ensure ''terminal state conflict''
        (rows_affected (at_state rid {Running, Verifying}) (db_reroutes db) = 1)) (\<lambda>_.
      and_then (let db1 = write_reroute rid {Running, Verifying}
                  (finalized_row (clk (QFinal QUpdate)) st applied_ok v effect refused) db
                in if st = StateUncertain
                   then (and_then (create_lock f ''device'' (Some (show_word (aq_device_id req)))
                          (Some rid) ''auto_uncertain''
                          (''reroute #'' @ show_word rid @ '' could not be verified'') None db1)
                          (\<lambda>(_, db2). Inr db2))
                   else Inr db1) (\<lambda>db2.
      and_then (fetch f (QAlert event) ()) (\<lambda>_.
      and_then (fetch f (QAudit event) ()) (\<lambda>_.
      and_then (fetch f QCommit ()) (\<lambda>_.
        Inr (record_audit (actor_of req) (aq_user_id req) event rid
               (''reroute #'' @ show_word rid @ '' '' @ state_text st)
              (record_alert event (if st = StateSucceeded then ''info'' else ''critical'')
                 (Some (aq_device_id req)) (event @ '':reroute:'' @ show_word rid) db2))))))))))"

text \<open>A terminal state that could not be written is reported as uncertain and leaves the row in
  flight for the recovery at the next start.\<close>

definition finalize ::
    "faults \<Rightarrow> clock \<Rightarrow> action_request \<Rightarrow> u64 \<Rightarrow> terminal_state \<Rightarrow> bool \<Rightarrow> verdict \<Rightarrow> mutation_effect \<Rightarrow>
     string option \<Rightarrow> database \<Rightarrow> terminal_state \<times> database" where
  "finalize f clk req rid st applied_ok v effect refused db =
     (case finalize_transaction (within QFinal f) clk req rid st applied_ok v effect refused db of
        Inl _ \<Rightarrow> (StateUncertain, db)
      | Inr db' \<Rightarrow> (st, db'))"

subsection \<open>The state machine\<close>

record machine_result =
  mr_state :: terminal_state
  mr_note :: "string option"
  mr_refused :: bool
  mr_effect :: mutation_effect

definition finish_refused ::
    "faults \<Rightarrow> clock \<Rightarrow> action_request \<Rightarrow> u64 \<Rightarrow> bool \<Rightarrow> string \<Rightarrow> database \<Rightarrow> machine_result \<times> database" where
  "finish_refused f clk req rid persisted reason db =
     (let (marked, db1) = mark_steps (within QFinal f) rid ''failed'' (\<lambda>r. 0 < sr_step_number r) db;
          ok = (persisted \<and> marked);
          effect = (if ok then EffectNoop else EffectUnknown);
          (st, db2) = finalize f clk req rid (if ok then StateFailed else StateUncertain) True NoVerdict
            effect (Some reason) db1
      in (\<lparr>mr_state = st, mr_note = Some reason, mr_refused = True, mr_effect = effect\<rparr>, db2))"

definition finish_applied ::
    "faults \<Rightarrow> clock \<Rightarrow> (message \<Rightarrow> string) \<Rightarrow> 's ssh_executor \<Rightarrow> bool \<Rightarrow> action_request \<Rightarrow> u64 \<Rightarrow>
     rendered_plan \<Rightarrow> prepared_action option \<Rightarrow> bool \<Rightarrow> bool \<Rightarrow> string option \<Rightarrow> 's \<Rightarrow> database \<Rightarrow>
     machine_result \<times> 's \<times> database" where
  "finish_applied f clk say ssh required req rid plan prepared applied_ok persisted skip s db =
     (let (moved, db1) = to_verifying f rid db;
          ((v, checked), s1, db2) =
            (if prepared \<noteq> None then ((Pass, True), s, db1)
             else verify_plan f say ssh req rid plan s db1);
          ok = (persisted \<and> is_ok moved \<and> checked);
          final = (if ok then final_state_for applied_ok v required else StateUncertain);
          effect = (if \<not> ok \<or> \<not> applied_ok then EffectUnknown
                    else if skip \<noteq> None \<or> map_option pa_effect prepared = Some AlreadySatisfiedEffect
                    then EffectNoop else EffectChanged);
          (st, db3) = finalize f clk req rid final applied_ok v effect None db2
      in (\<lparr>mr_state = st, mr_note = skip, mr_refused = False, mr_effect = effect\<rparr>, s1, db3))"

definition run_state_machine ::
    "faults \<Rightarrow> clock \<Rightarrow> int \<Rightarrow> (message \<Rightarrow> string) \<Rightarrow> 's ssh_executor \<Rightarrow> bool \<Rightarrow> action_request \<Rightarrow> u64 \<Rightarrow>
     rendered_plan \<Rightarrow> prepared_action option \<Rightarrow> 's \<Rightarrow> database \<times> successes \<Rightarrow>
     (string + machine_result) \<times> 's \<times> database \<times> successes" where
  "run_state_machine f clk tick say ssh required req rid plan prepared s =
     (\<lambda>(db, cache).
      case to_pending f rid db of
        (Inl e, db1) \<Rightarrow> (Inl e, s, db1, cache)
      | (Inr _, db1) \<Rightarrow>
       (case to_running f clk rid db1 of
          (Inl e, db2) \<Rightarrow> (Inl e, s, db2, cache)
        | (Inr _, db2) \<Rightarrow>
           (let (ap, s1, db3) = apply_phase f say ssh req rid plan prepared s db2;
                (recorded, db4, cache') =
                  record_applied f clk tick say rid (aq_device_id req) (ap_result ap) (db3, cache);
                ok = (ap_persisted ap \<and> recorded)
            in case ap_refusal ap of
                 Some reason \<Rightarrow>
                   (let (res, db5) = finish_refused f clk req rid ok reason db4
                    in (Inr res, s1, db5, cache'))
               | None \<Rightarrow>
                   (let (res, s2, db5) = finish_applied f clk say ssh required req rid plan prepared
                          (is_ok (ap_result ap)) ok (ap_skip ap) s1 db4
                    in (Inr res, s2, db5, cache')))))"

end
