(* ===== verification/Outcomes.thy ===== *)
theory Outcomes
  imports Execution
begin

text \<open>
  What an execution leaves behind: the row of the reroute, the lock of its device and the
  configuration of the routers, against the outcome that the state machine reports. The proofs
  use a transport only through the two contracts below, which the transport over the locked
  sessions meets.
\<close>

subsection \<open>Rows and the trail\<close>

definition reroutes_ok :: "database \<Rightarrow> bool" where
  "reroutes_ok db = distinct (map rr_id (db_reroutes db))"

definition row_of :: "database \<Rightarrow> u64 \<Rightarrow> reroute_row option" where
  "row_of db rid = List.find (\<lambda>r. rr_id r = rid) (db_reroutes db)"

definition others :: "u64 \<Rightarrow> database \<Rightarrow> reroute_row list" where
  "others rid db = filter (\<lambda>r. rr_id r \<noteq> rid) (db_reroutes db)"

text \<open>\<open>db'\<close> differs from \<open>db\<close> in at most the row of one reroute, which keeps its device.\<close>

definition tracks :: "u64 \<Rightarrow> database \<Rightarrow> database \<Rightarrow> bool" where
  "tracks rid db db' =
     (map (\<lambda>r. (rr_id r, rr_device_id r)) (db_reroutes db') =
        map (\<lambda>r. (rr_id r, rr_device_id r)) (db_reroutes db) \<and>
      others rid db' = others rid db)"

named_theorems trail \<open>writes of the trail that leave the reroute rows as they are\<close>

lemma tracks_refl [simp]: "tracks rid db db"
  by (simp add: tracks_def)

lemma tracks_trans: "tracks rid a b \<Longrightarrow> tracks rid b c \<Longrightarrow> tracks rid a c"
  by (simp add: tracks_def)

lemma tracks_rows: "db_reroutes db' = db_reroutes db \<Longrightarrow> tracks rid db db'"
  by (simp add: tracks_def others_def)

lemma row_of_rows: "db_reroutes db' = db_reroutes db \<Longrightarrow> row_of db' rid = row_of db rid"
  by (simp add: row_of_def)

lemma tracks_ok: "tracks rid db db' \<Longrightarrow> reroutes_ok db' = reroutes_ok db"
  unfolding tracks_def reroutes_ok_def by (auto dest: arg_cong [where f = "map fst"] simp: comp_def)

lemma row_of_SomeD: "row_of db rid = Some r \<Longrightarrow> r \<in> set (db_reroutes db) \<and> rr_id r = rid"
  by (auto simp: row_of_def dest: find_SomeD)

lemma tracks_write:
  assumes "\<And>r. rr_id (g r) = rr_id r \<and> rr_device_id (g r) = rr_device_id r"
  shows "tracks rid db (write_reroute rid states g db)"
proof -
  have "filter (\<lambda>r. rr_id r \<noteq> rid) (update_rows (at_state rid states) g rows) =
      filter (\<lambda>r. rr_id r \<noteq> rid) rows" for rows
    using assms by (induction rows) (auto simp: update_rows_def at_state_def)
  with assms show ?thesis
    by (simp add: tracks_def others_def write_reroute_def update_rows_def)
qed

lemma row_of_write:
  "(\<And>r. rr_id (g r) = rr_id r) \<Longrightarrow>
   row_of (write_reroute rid states g db) rid =
     map_option (\<lambda>r. if rr_state r \<in> states then g r else r) (row_of db rid)"
proof -
  assume "\<And>r. rr_id (g r) = rr_id r"
  then have "List.find (\<lambda>r. rr_id r = rid) (update_rows (at_state rid states) g rows) =
      map_option (\<lambda>r. if rr_state r \<in> states then g r else r) (List.find (\<lambda>r. rr_id r = rid) rows)" for rows
    by (induction rows) (auto simp: update_rows_def at_state_def)
  then show ?thesis by (simp add: row_of_def write_reroute_def)
qed

lemma find_distinct_id:
  "distinct (map rr_id rows) \<Longrightarrow> r \<in> set rows \<Longrightarrow> List.find (\<lambda>x. rr_id x = rr_id r) rows = Some r"
  by (induction rows) (auto simp: image_iff)

lemma affected_row:
  assumes "reroutes_ok db" "rows_affected (at_state rid states) (db_reroutes db) = 1"
  obtains r where "row_of db rid = Some r" "rr_state r \<in> states"
proof -
  from assms(2) have "0 < rows_affected (at_state rid states) (db_reroutes db)" by simp
  then obtain r where r: "r \<in> set (db_reroutes db)" "at_state rid states r"
    unfolding rows_affected_pos by blast
  then have "row_of db rid = Some r"
    using assms(1) find_distinct_id [of "db_reroutes db" r] by (simp add: row_of_def reroutes_ok_def at_state_def)
  with r that show ?thesis by (auto simp: at_state_def)
qed

lemma persist_output_rows [trail]: "db_reroutes (snd (persist_output f rid n q a st db)) = db_reroutes db"
  by (simp add: persist_output_def split: option.split)

lemma persist_results_rows [trail]: "db_reroutes (snd (persist_results f rid n rs db)) = db_reroutes db"
  by (induction rs arbitrary: n db) (simp_all add: split_beta trail)

lemma persist_failure_rows [trail]: "db_reroutes (snd (persist_failure f rid pf db)) = db_reroutes db"
  by (simp add: persist_failure_def split_beta trail)

lemma mark_steps_rows [trail]: "db_reroutes (snd (mark_steps f rid st p db)) = db_reroutes db"
  by (simp add: mark_steps_def split: option.split)

lemma persist_verification_rows [trail]:
  "db_reroutes (snd (persist_verification f rid v observed res db)) = db_reroutes db"
  by (simp add: persist_verification_def split: option.split)

lemma stamp_rows [trail]:
  "db_reroutes (fst (snd (stamp_ssh_status f utc tick d status err st))) = db_reroutes (fst st)"
  by (cases st) (simp add: stamp_ssh_status_def update_device_def Let_def split: option.split)

lemma stamp_ok_rows [trail]:
  "db_reroutes (fst (snd (stamp_ssh_ok f utc tick d st))) = db_reroutes (fst st)"
  by (simp add: stamp_ssh_ok_def trail)

lemma record_applied_rows [trail]:
  "db_reroutes (fst (snd (record_applied f clk tick say rid dev result st))) = db_reroutes (fst st)"
  by (cases st; cases result)
    (auto simp: record_applied_def split_beta Let_def trail split: option.split)

lemma describe_steps_rows [trail]:
  "db_reroutes (snd (describe_steps f rid n cs db)) = db_reroutes db"
  by (induction f rid n cs db rule: describe_steps.induct) (simp_all add: Let_def split: option.split)

lemma verify_plan_rows [trail]:
  "db_reroutes (snd (snd (verify_plan f say ssh req rid plan s db))) = db_reroutes db"
proof (cases "rp_verify plan")
  case (Some v)
  obtain r s' where "sx_read ssh (aq_device_id req) (vs_command v) s = (r, s')" by fastforce
  with Some show ?thesis by (cases r) (simp_all add: verify_plan_def split_beta Let_def trail)
qed (simp add: verify_plan_def)

subsection \<open>Transitions\<close>

definition row_in :: "reroute_state set \<Rightarrow> u64 \<Rightarrow> database \<Rightarrow> bool" where
  "row_in states rid db = (\<exists>r. row_of db rid = Some r \<and> rr_state r \<in> states)"

lemma row_in_rows: "db_reroutes db' = db_reroutes db \<Longrightarrow> row_in states rid db' = row_in states rid db"
  by (simp add: row_in_def row_of_def)

lemma checked_update_tracks:
  assumes "\<And>r. rr_id (g r) = rr_id r \<and> rr_device_id (g r) = rr_device_id r"
  shows "tracks rid db (snd (checked_update f q conflict rid states g db))"
  by (simp add: checked_update_def tracks_write assms split: option.split)

lemma checked_update_Inr:
  assumes "checked_update f q conflict rid states g db = (Inr (), db')" "reroutes_ok db"
    and "\<And>r. rr_id (g r) = rr_id r" "\<And>r. rr_state (g r) \<in> after"
  shows "row_in states rid db \<and> row_in after rid db'"
proof -
  from assms(1) have n: "rows_affected (at_state rid states) (db_reroutes db) = 1"
    and db': "db' = write_reroute rid states g db"
    by (auto simp: checked_update_def split: option.splits if_splits)
  from affected_row [OF assms(2) n] obtain r where "row_of db rid = Some r" "rr_state r \<in> states" .
  then show ?thesis using assms(3,4) by (auto simp: row_in_def db' row_of_write)
qed

lemma checked_update_keeps:
  assumes "row_in after rid db" "\<And>r. rr_id (g r) = rr_id r"
    and "\<And>r. rr_state r \<in> after \<Longrightarrow> rr_state (g r) \<in> after"
  shows "row_in after rid (snd (checked_update f q conflict rid states g db))"
proof -
  from assms(1) obtain r where "row_of db rid = Some r" "rr_state r \<in> after" by (auto simp: row_in_def)
  with assms(2,3) show ?thesis
    by (cases "rr_state r \<in> states") (auto simp: row_in_def checked_update_def row_of_write split: option.split)
qed

subsection \<open>The terminal transaction\<close>

text \<open>The lock that an unverified reroute leaves on its device.\<close>

definition quarantined :: "u64 \<Rightarrow> u64 \<Rightarrow> database \<Rightarrow> bool" where
  "quarantined rid dev db =
     list_ex (\<lambda>l. lock_applies ''device'' (show_word dev) l \<and> lk_reroute_id l = Some rid) (db_locks db)"

lemma quarantined_insert:
  "quarantined rid dev (insert_lock ''device'' (Some (show_word dev)) (Some rid) kind reason actor db)"
  by (simp add: quarantined_def insert_lock_def lock_applies_def)

lemma quarantined_blocks: "quarantined rid dev db \<Longrightarrow> is_blocked no_faults db ''device'' (show_word dev) = Inr True"
  by (auto simp: quarantined_def is_blocked_def count_pos list_ex_iff)

lemma insert_lock_rows [trail]: "db_reroutes (insert_lock scope ref reroute kind reason actor db) = db_reroutes db"
  by (simp add: insert_lock_def)

lemma record_rows [trail]:
  "db_reroutes (record_audit actor user event rid msg db) = db_reroutes db"
  "db_locks (record_audit actor user event rid msg db) = db_locks db"
  "db_reroutes (record_alert event severity dev key db) = db_reroutes db"
  "db_locks (record_alert event severity dev key db) = db_locks db"
  by (simp_all add: record_audit_def record_alert_def)

lemma finalized_row_fields [simp]:
  "rr_id (finalized_row now st a v e refused r) = rr_id r"
  "rr_device_id (finalized_row now st a v e refused r) = rr_device_id r"
  "rr_state (finalized_row now st a v e refused r) = row_state st"
  "rr_mutation_effect (finalized_row now st a v e refused r) = e"
  by (simp_all add: finalized_row_def)

lemma finalize_transaction_Inr:
  assumes "finalize_transaction f clk req rid st a v e refused db = Inr db'"
  defines "db1 \<equiv> write_reroute rid {Running, Verifying} (finalized_row (clk (QFinal QUpdate)) st a v e refused) db"
  shows "rows_affected (at_state rid {Running, Verifying}) (db_reroutes db) = 1"
    and "db_reroutes db' = db_reroutes db1"
    and "st = StateUncertain \<Longrightarrow> quarantined rid (aq_device_id req) db'"
proof -
  from assms(1) show "rows_affected (at_state rid {Running, Verifying}) (db_reroutes db) = 1"
    by (auto simp: finalize_transaction_def Let_def and_then_Inr_iff ensure_Inr_iff)
  from assms(1) show "db_reroutes db' = db_reroutes db1"
    by (auto simp: finalize_transaction_def Let_def and_then_Inr_iff create_lock_def fetch_Inr_iff trail
        db1_def split: if_splits)
  from assms(1) show "st = StateUncertain \<Longrightarrow> quarantined rid (aq_device_id req) db'"
    by (auto simp: finalize_transaction_def Let_def and_then_Inr_iff create_lock_def fetch_Inr_iff
        quarantined_def trail insert_lock_def lock_applies_def)
qed

text \<open>The report of a terminal transaction against the row it leaves.\<close>

definition settled :: "u64 \<Rightarrow> u64 \<Rightarrow> terminal_state \<Rightarrow> mutation_effect \<Rightarrow> database \<Rightarrow> bool" where
  "settled rid dev st effect db =
     (\<exists>r. row_of db rid = Some r \<and>
        (rr_state r = row_state st \<and> rr_mutation_effect r = effect \<and>
           (st = StateUncertain \<longrightarrow> quarantined rid dev db) \<or>
         st = StateUncertain \<and> rr_state r \<in> {Running, Verifying}))"

lemma finalize_settles:
  assumes "finalize f clk req rid st a v e refused db = (st', db')"
    and "reroutes_ok db" "row_in {Running, Verifying} rid db"
  shows "tracks rid db db' \<and> settled rid (aq_device_id req) st' e db' \<and> (st' = st \<or> st' = StateUncertain)"
proof (cases "finalize_transaction (within QFinal f) clk req rid st a v e refused db")
  case (Inl err)
  with assms show ?thesis by (auto simp: finalize_def settled_def row_in_def)
next
  case (Inr db2)
  with assms(1) have eq: "db' = db2" "st' = st" by (simp_all add: finalize_def)
  note t = finalize_transaction_Inr [OF Inr]
  from assms(3) obtain r where r: "row_of db rid = Some r" "rr_state r \<in> {Running, Verifying}"
    by (auto simp: row_in_def)
  then have row: "row_of db2 rid = Some (finalized_row (clk (QFinal QUpdate)) st a v e refused r)"
    by (simp add: row_of_rows [OF t(2)] row_of_write)
  have "tracks rid db db2"
    by (rule tracks_trans [OF _ tracks_rows [OF t(2)]]) (simp add: tracks_write)
  with row t(3) show ?thesis by (auto simp: eq settled_def)
qed

lemmas row_defs = row_in_def row_of_def tracks_def others_def reroutes_ok_def

subsection \<open>What is used of a transport\<close>

text \<open>A transport writes to the database only by calling the resolver it was given.\<close>

locale trailing_transport =
  fixes ssh :: "'s ssh_executor"
  assumes resolver_only: "sx_resolved ssh dev command res s db = (r, s', db') \<Longrightarrow>
    db' = db \<or> (\<exists>out. db' = snd (res out db))"

text \<open>\<open>cfg\<close> is what a transport state says of the routers' configuration.\<close>

locale honest_transport = trailing_transport ssh for ssh :: "'s ssh_executor" +
  fixes cfg :: "'s \<Rightarrow> 'c"
  assumes prepared_claims: "claims_sound cfg (sx_prepared ssh a)"
    and satisfied_quiet: "pa_effect a = AlreadySatisfiedEffect \<Longrightarrow> quiet cfg (sx_prepared ssh a)"
    and read_quiet: "quiet cfg (sx_read ssh dev command)"
    and unpushed_quiet: "sx_resolved ssh dev command res s db = (Inr (out, decision), s', db') \<Longrightarrow>
      \<forall>commands. decision \<noteq> Resolved (Push commands) \<Longrightarrow> cfg s' = cfg s"

subsection \<open>The phases of a run\<close>

lemma run_state_machine_Inr:
  assumes "run_state_machine f clk tick say ssh required req rid plan prepared s (db, cache) =
      (Inr m, s', db', cache')"
  obtains db1 db2 ap s1 db3 recorded db4 where
    "to_pending f rid db = (Inr (), db1)" "to_running f clk rid db1 = (Inr (), db2)"
    "apply_phase f say ssh req rid plan prepared s db2 = (ap, s1, db3)"
    "record_applied f clk tick say rid (aq_device_id req) (ap_result ap) (db3, cache) = (recorded, db4, cache')"
    "case ap_refusal ap of
       Some reason \<Rightarrow> s' = s1 \<and> finish_refused f clk req rid (ap_persisted ap \<and> recorded) reason db4 = (m, db')
     | None \<Rightarrow> finish_applied f clk say ssh required req rid plan prepared (is_ok (ap_result ap))
         (ap_persisted ap \<and> recorded) (ap_skip ap) s1 db4 = (m, s', db')"
proof -
  obtain p db1 where p: "to_pending f rid db = (p, db1)" by fastforce
  obtain r db2 where r: "to_running f clk rid db1 = (r, db2)" by fastforce
  obtain ap s1 db3 where a: "apply_phase f say ssh req rid plan prepared s db2 = (ap, s1, db3)"
    by (metis prod_cases3)
  obtain rec db4 c where d: "record_applied f clk tick say rid (aq_device_id req) (ap_result ap) (db3, cache) =
      (rec, db4, c)" by (metis prod_cases3)
  from assms p r have ok: "p = Inr ()" "r = Inr ()"
    by (auto simp: run_state_machine_def split: sum.splits)
  with assms p r a d have "c = cache'" "case ap_refusal ap of
       Some reason \<Rightarrow> s' = s1 \<and> finish_refused f clk req rid (ap_persisted ap \<and> rec) reason db4 = (m, db')
     | None \<Rightarrow> finish_applied f clk say ssh required req rid plan prepared (is_ok (ap_result ap))
         (ap_persisted ap \<and> rec) (ap_skip ap) s1 db4 = (m, s', db')"
    by (auto simp: run_state_machine_def Let_def split: option.splits prod.splits)
  with that p r a d ok show ?thesis by blast
qed

lemma transitions_track:
  "tracks rid db (snd (to_pending f rid db))"
  "tracks rid db (snd (to_running f clk rid db))"
  "tracks rid db (snd (to_verifying f rid db))"
  by (simp_all add: to_pending_def to_running_def to_verifying_def checked_update_tracks)

lemma to_running_Inr: "to_running f clk rid db = (Inr (), db') \<Longrightarrow> reroutes_ok db \<Longrightarrow> row_in {Running} rid db'"
  unfolding to_running_def by (drule (1) checked_update_Inr [where after = "{Running}"]) simp_all

lemma row_in_mono: "row_in A rid db \<Longrightarrow> A \<subseteq> B \<Longrightarrow> row_in B rid db"
  by (auto simp: row_in_def)

lemma finish_refused_settles:
  assumes "finish_refused f clk req rid persisted reason db = (m, db')"
    and "reroutes_ok db" "row_in {Running} rid db"
  shows "tracks rid db db' \<and> settled rid (aq_device_id req) (mr_state m) (mr_effect m) db'"
proof -
  obtain marked db1 where mk: "mark_steps (within QFinal f) rid ''failed'' (\<lambda>r. 0 < sr_step_number r) db = (marked, db1)"
    by fastforce
  then have rows: "db_reroutes db1 = db_reroutes db" by (metis mark_steps_rows snd_conv)
  with assms(2,3) have pre: "reroutes_ok db1" "row_in {Running, Verifying} rid db1"
    by (auto simp: row_defs)
  from assms(1) mk obtain st where "finalize f clk req rid st True NoVerdict (mr_effect m) (Some reason) db1 =
      (mr_state m, db')"
    by (auto simp: finish_refused_def Let_def split: prod.splits)
  from finalize_settles [OF this pre] tracks_rows [OF rows] show ?thesis by (blast intro: tracks_trans)
qed

lemma finish_applied_settles:
  assumes "finish_applied f clk say ssh required req rid plan prepared applied persisted skip s db = (m, s', db')"
    and "reroutes_ok db" "row_in {Running} rid db"
  shows "tracks rid db db' \<and> settled rid (aq_device_id req) (mr_state m) (mr_effect m) db'"
proof -
  obtain moved db1 where mv: "to_verifying f rid db = (moved, db1)" by fastforce
  have "row_in {Running, Verifying} rid (snd (to_verifying f rid db))"
    unfolding to_verifying_def using row_in_mono [OF assms(3)] by (intro checked_update_keeps) auto
  with mv have r1: "row_in {Running, Verifying} rid db1" by simp
  from mv have t1: "tracks rid db db1" by (metis transitions_track(3) snd_conv)
  obtain v ok s1 db2 where vf: "(if prepared \<noteq> None then ((Pass, True), s, db1)
      else verify_plan f say ssh req rid plan s db1) = ((v, ok), s1, db2)"
    by (metis prod_cases4 prod.collapse)
  then have rows: "db_reroutes db2 = db_reroutes db1"
    using verify_plan_rows [of f say ssh req rid plan s db1] by (auto split: if_splits)
  with r1 t1 assms(2) have pre: "reroutes_ok db2" "row_in {Running, Verifying} rid db2"
    using tracks_ok [OF t1] by (simp_all add: row_in_def row_of_def reroutes_ok_def)
  from assms(1) mv vf obtain st a where
    "finalize f clk req rid st a v (mr_effect m) None db2 = (mr_state m, db')"
    by (auto simp: finish_applied_def Let_def split: prod.splits)
  from finalize_settles [OF this pre] tracks_trans [OF t1 tracks_rows [OF rows]] show ?thesis
    by (blast intro: tracks_trans)
qed

lemma resolver_rows:
  "tracks rid db (snd (sequence_resolver f say req rid adding lst pfx out db)) \<and>
   (row_in {Running} rid db \<longrightarrow> row_in {Running} rid (snd (sequence_resolver f say req rid adding lst pfx out db)))"
proof -
  have persist: "tracks rid db (snd (persist_resolved_sequence f req rid n p db)) \<and>
      (row_in {Running} rid db \<longrightarrow> row_in {Running} rid (snd (persist_resolved_sequence f req rid n p db)))" for n p
  proof (cases p)
    case None
    then show ?thesis
      by (auto simp: persist_resolved_sequence_def Let_def intro!: checked_update_tracks checked_update_keeps)
  next
    case (Some q)
    let ?u = "\<lambda>ps. checked_update f QResolved (no_longer_running rid ''sequence was resolved'') rid {Running}
        (\<lambda>r. r\<lparr>rr_params := Some ps, rr_commands := rp_commands q\<rparr>) db"
    have "tracks rid db (snd (?u ps))" "row_in {Running} rid db \<Longrightarrow> row_in {Running} rid (snd (?u ps))" for ps
      by (auto intro!: checked_update_tracks checked_update_keeps)
    moreover have "db_reroutes (snd (persist_resolved_sequence f req rid n p db)) =
        db_reroutes (snd (?u (JObj (bt_insert SEQUENCE_PARAM (JStr (show_word n))
          (case as_object (aq_params req) of Some m \<Rightarrow> m | None \<Rightarrow> [])))))"
      by (simp add: persist_resolved_sequence_def Some Let_def split_beta trail split: sum.split)
    ultimately show ?thesis by (simp add: row_defs)
  qed
  show ?thesis
  proof (cases "session_plan_for (if adding then plan_add out lst pfx else plan_remove out lst pfx)
      (aq_template req) (aq_params req)")
    case (Inr v)
    obtain sp c where v: "v = (sp, c)" by fastforce
    show ?thesis
    proof (cases c)
      case (Some nc)
      obtain n q where "nc = (n, q)" by fastforce
      with persist [of n q] Inr v Some show ?thesis
        by (simp add: sequence_resolver_def split_beta split: sum.split)
    qed (simp add: sequence_resolver_def Inr v)
  qed (simp add: sequence_resolver_def)
qed

context trailing_transport
begin

lemma resolved_rows:
  assumes "apply_with_sequence_resolution f say ssh req rid s db = (r, s', db')"
  shows "tracks rid db db' \<and> (row_in {Running} rid db \<longrightarrow> row_in {Running} rid db')"
proof -
  from assms consider "db' = db"
    | adding lst pfx r2 where "sx_resolved ssh (aq_device_id req) (''show ip prefix-list '' @ lst)
        (sequence_resolver f say req rid adding lst pfx) s db = (r2, s', db')"
    by (auto simp: apply_with_sequence_resolution_def split: sum.splits option.splits prod.splits)
  then show ?thesis
  proof cases
    case 2
    from resolver_only [OF this] resolver_rows show ?thesis by (metis tracks_refl)
  qed simp
qed

lemma apply_phase_rows:
  assumes "apply_phase f say ssh req rid plan prepared s db = (ap, s', db')"
  shows "tracks rid db db' \<and> (row_in {Running} rid db \<longrightarrow> row_in {Running} rid db')"
proof (cases prepared)
  case (Some a)
  with assms have p: "apply_prepared f say ssh rid a s db = (ap, s', db')" by (simp add: apply_phase_def)
  obtain r s1 where "sx_prepared ssh a s = (r, s1)" by fastforce
  with p have "db_reroutes db' = db_reroutes db"
    by (auto simp: apply_prepared_def split_beta trail split: sum.splits if_splits option.splits)
  then show ?thesis by (simp add: row_defs)
next
  case None
  show ?thesis
  proof (cases "rp_sequence_pending plan")
    case True
    obtain r s1 db1 where r: "apply_with_sequence_resolution f say ssh req rid s db = (r, s1, db1)"
      by (metis prod_cases3)
    with assms None True have "db' = db1"
      by (auto simp: apply_phase_def apply_resolved_def split: sum.splits prod.splits)
    with resolved_rows [OF r] show ?thesis by simp
  next
    case False
    with assms None show ?thesis by (auto simp: apply_phase_def apply_plain_def split_beta)
  qed
qed

lemma run_settles:
  assumes "run_state_machine f clk tick say ssh required req rid plan prepared s (db, cache) =
      (Inr m, s', db', cache')" "reroutes_ok db"
  shows "tracks rid db db' \<and> settled rid (aq_device_id req) (mr_state m) (mr_effect m) db'"
  using assms(1)
proof (rule run_state_machine_Inr)
  fix db1 db2 ap s1 db3 recorded db4
  assume p: "to_pending f rid db = (Inr (), db1)" and r: "to_running f clk rid db1 = (Inr (), db2)"
    and a: "apply_phase f say ssh req rid plan prepared s db2 = (ap, s1, db3)"
    and d: "record_applied f clk tick say rid (aq_device_id req) (ap_result ap) (db3, cache) = (recorded, db4, cache')"
    and fin: "case ap_refusal ap of
       Some reason \<Rightarrow> s' = s1 \<and> finish_refused f clk req rid (ap_persisted ap \<and> recorded) reason db4 = (m, db')
     | None \<Rightarrow> finish_applied f clk say ssh required req rid plan prepared (is_ok (ap_result ap))
         (ap_persisted ap \<and> recorded) (ap_skip ap) s1 db4 = (m, s', db')"
  from p have t1: "tracks rid db db1" by (metis transitions_track(1) snd_conv)
  with r have t2: "tracks rid db db2" by (metis transitions_track(2) snd_conv tracks_trans)
  have running: "row_in {Running} rid db2" using to_running_Inr [OF r] assms(2) by (simp add: tracks_ok [OF t1])
  from apply_phase_rows [OF a] t2 running have t3: "tracks rid db db3" "row_in {Running} rid db3"
    by (blast intro: tracks_trans)+
  have "db_reroutes db4 = db_reroutes db3"
    using record_applied_rows [of f clk tick say rid "aq_device_id req" "ap_result ap" "(db3, cache)"] d by simp
  then have t4: "tracks rid db db4" "row_in {Running} rid db4" using t3 by (simp_all add: row_defs)
  with assms(2) have ok: "reroutes_ok db4" by (simp add: tracks_ok [OF t4(1)])
  show ?thesis
  proof (cases "ap_refusal ap")
    case (Some reason)
    with fin have "finish_refused f clk req rid (ap_persisted ap \<and> recorded) reason db4 = (m, db')" by simp
    from finish_refused_settles [OF this ok t4(2)] t4(1) show ?thesis by (blast intro: tracks_trans)
  next
    case None
    with fin have "finish_applied f clk say ssh required req rid plan prepared (is_ok (ap_result ap))
         (ap_persisted ap \<and> recorded) (ap_skip ap) s1 db4 = (m, s', db')" by simp
    from finish_applied_settles [OF this ok t4(2)] t4(1) show ?thesis by (blast intro: tracks_trans)
  qed
qed

end

subsection \<open>Refusals and no-ops\<close>

context honest_transport
begin

lemma prepared_quiet:
  assumes "sx_prepared ssh a s = (r, s')" "pa_effect a = AlreadySatisfiedEffect \<or> (\<exists>e. r = Inl e \<and> no_effect_proven e)"
  shows "cfg s' = cfg s"
  using assms satisfied_quiet prepared_claims unfolding quiet_def claims_sound_def by (metis snd_conv)

text \<open>A phase that refused or skipped the push has not touched a router.\<close>

lemma apply_phase_quiet:
  assumes "apply_phase f say ssh req rid plan prepared s db = (ap, s', db')"
    and "ap_refusal ap \<noteq> None \<or> ap_skip ap \<noteq> None \<or> map_option pa_effect prepared = Some AlreadySatisfiedEffect"
  shows "cfg s' = cfg s"
proof (cases prepared)
  case (Some a)
  obtain r s1 where r: "sx_prepared ssh a s = (r, s1)" by fastforce
  with assms Some have "s' = s1" "pa_effect a = AlreadySatisfiedEffect \<or> (\<exists>e. r = Inl e \<and> no_effect_proven e)"
    by (auto simp: apply_phase_def apply_prepared_def split: sum.splits if_splits prod.splits)
  with prepared_quiet [OF r] show ?thesis by simp
next
  case None
  show ?thesis
  proof (cases "rp_sequence_pending plan")
    case True
    obtain r s1 db1 where w: "apply_with_sequence_resolution f say ssh req rid s db = (r, s1, db1)"
      by (metis prod_cases3)
    from assms None True w obtain out decision where r: "r = Inr (out, decision)" "s' = s1"
      and d: "\<forall>commands. decision \<noteq> Resolved (Push commands)"
      by (auto simp: apply_phase_def apply_resolved_def split: sum.splits prod.splits
          resolved_decision.splits session_plan.splits)
    from w r obtain c res where "sx_resolved ssh (aq_device_id req) c res s db = (Inr (out, decision), s', db1)"
      by (auto simp: apply_with_sequence_resolution_def split: sum.splits option.splits prod.splits)
    from unpushed_quiet [OF this d] show ?thesis .
  next
    case False
    with assms None show ?thesis by (auto simp: apply_phase_def apply_plain_def split_beta)
  qed
qed

lemma verify_plan_quiet:
  assumes "verify_plan f say ssh req rid plan s db = (v, s', db')"
  shows "cfg s' = cfg s"
proof (cases "rp_verify plan")
  case (Some st)
  obtain r s1 where r: "sx_read ssh (aq_device_id req) (vs_command st) s = (r, s1)" by fastforce
  with assms Some have "s' = s1" by (cases r) (auto simp: verify_plan_def Let_def split: prod.splits)
  with r read_quiet [of "aq_device_id req" "vs_command st"] show ?thesis unfolding quiet_def by (metis snd_conv)
qed (use assms in \<open>simp add: verify_plan_def\<close>)

lemma noop_quiet:
  assumes "run_state_machine f clk tick say ssh required req rid plan prepared s (db, cache) =
      (Inr m, s', db', cache')" "mr_refused m \<or> mr_effect m = EffectNoop"
  shows "cfg s' = cfg s"
  using assms(1)
proof (rule run_state_machine_Inr)
  fix db1 db2 ap s1 db3 recorded db4
  assume a: "apply_phase f say ssh req rid plan prepared s db2 = (ap, s1, db3)"
    and fin: "case ap_refusal ap of
       Some reason \<Rightarrow> s' = s1 \<and> finish_refused f clk req rid (ap_persisted ap \<and> recorded) reason db4 = (m, db')
     | None \<Rightarrow> finish_applied f clk say ssh required req rid plan prepared (is_ok (ap_result ap))
         (ap_persisted ap \<and> recorded) (ap_skip ap) s1 db4 = (m, s', db')"
  show ?thesis
  proof (cases "ap_refusal ap")
    case (Some reason)
    with fin apply_phase_quiet [OF a] show ?thesis by simp
  next
    case None
    obtain mv db5 where mv: "to_verifying f rid db4 = (mv, db5)" by fastforce
    obtain v ok s2 db6 where vf: "(if prepared \<noteq> None then ((Pass, True), s1, db5)
        else verify_plan f say ssh req rid plan s1 db5) = ((v, ok), s2, db6)"
      by (metis prod_cases4 prod.collapse)
    from fin None mv vf assms(2) have "s' = s2" "ap_skip ap \<noteq> None \<or>
        map_option pa_effect prepared = Some AlreadySatisfiedEffect"
      by (auto simp: finish_applied_def Let_def split: prod.splits if_splits)
    with apply_phase_quiet [OF a] vf verify_plan_quiet show ?thesis by (metis prod.inject)
  qed
qed

end

subsection \<open>The transport over the locked sessions\<close>

text \<open>The configuration of the routers, as far as the lines are those of IOS.\<close>

definition observed :: "('s \<Rightarrow> 'c) \<Rightarrow> (u64 \<Rightarrow> 's line) \<Rightarrow> 's \<Rightarrow> 'c option" where
  "observed cfg link s = (if \<forall>d. honest_line cfg (link d) then Some (cfg s) else None)"

lemma observed_eq: "observed cfg link s' = observed cfg link s \<longleftrightarrow>
    ((\<forall>d. honest_line cfg (link d)) \<longrightarrow> cfg s' = cfg s)"
  by (auto simp: observed_def)

lemma locked_resolved_db:
  "locked_resolved over link devices dev command res s db = (r, s', db') \<Longrightarrow>
   db' = db \<or> (\<exists>out. db' = snd (res out db))"
  by (auto simp: locked_resolved_def Let_def split: prod.splits sum.splits session_plan.splits) (metis snd_conv)+

lemma locked_resolved_quiet:
  assumes "locked_resolved over link devices dev command res s db = (Inr (out, decision), s', db')"
    and "\<forall>commands. decision \<noteq> Resolved (Push commands)" "honest_line cfg (link dev)"
  shows "cfg s' = cfg s"
proof -
  from assms(1,2) obtain r where "locked_read over link devices dev command s = (r, s')"
    by (auto simp: locked_resolved_def Let_def split: prod.splits sum.splits session_plan.splits)
  from locked_read_quiet [OF assms(3) this] show ?thesis .
qed

interpretation locked: honest_transport "locked_executor over link devices now" "observed cfg link"
  for over link devices now cfg
proof unfold_locales
  fix dev command res s db r s' db'
  assume "sx_resolved (locked_executor over link devices now) dev command res s db = (r, s', db')"
  then show "db' = db \<or> (\<exists>out. db' = snd (res out db))"
    by (intro locked_resolved_db) (simp add: locked_executor_def)
next
  fix a
  show "claims_sound (observed cfg link) (sx_prepared (locked_executor over link devices now) a)"
    using execute_prepared_sound [of cfg link over devices "pa_device_id a" now a]
    by (auto simp: claims_sound_def observed_eq locked_executor_def)
next
  fix a :: prepared_action
  assume "pa_effect a = AlreadySatisfiedEffect"
  then show "quiet (observed cfg link) (sx_prepared (locked_executor over link devices now) a)"
    using satisfied_action_quiet [of cfg link a over devices "pa_device_id a" "locked_execute over link devices (pa_device_id a)" now]
    by (auto simp: quiet_def observed_eq locked_executor_def)
next
  fix dev command
  show "quiet (observed cfg link) (sx_read (locked_executor over link devices now) dev command)"
    using locked_port_quiet [of cfg link over devices dev]
    by (auto simp: quiet_def quiet_port_def observed_eq locked_executor_def)
next
  fix dev command res s db out decision s' db'
  assume "sx_resolved (locked_executor over link devices now) dev command res s db = (Inr (out, decision), s', db')"
    and "\<forall>commands. decision \<noteq> Resolved (Push commands)"
  then show "observed cfg link s' = observed cfg link s"
    using locked_resolved_quiet [of over link devices dev command res s db out decision s' db' cfg]
    by (simp add: locked_executor_def observed_eq)
qed

subsection \<open>Properties of a run\<close>

lemma settled_busy:
  assumes "settled rid dev StateUncertain e db" "map_option rr_device_id (row_of db rid) = Some (Some d)"
  shows "\<not> device_idle db d"
proof -
  from assms obtain r where "row_of db rid = Some r" "rr_state r \<in> {Uncertain, Running, Verifying}"
    by (auto simp: settled_def row_state_def)
  with assms(2) show ?thesis
    by (auto dest!: row_of_SomeD simp: device_idle_def on_device_def in_flight_def)
qed

lemma tracks_device:
  "tracks rid db db' \<Longrightarrow> map_option rr_device_id (row_of db' rid) = map_option rr_device_id (row_of db rid)"
proof -
  have find: "map (\<lambda>r. (rr_id r, rr_device_id r)) rows' = map (\<lambda>r. (rr_id r, rr_device_id r)) rows \<Longrightarrow>
      map_option rr_device_id (List.find (\<lambda>r. rr_id r = rid) rows') =
      map_option rr_device_id (List.find (\<lambda>r. rr_id r = rid) rows)" for rows rows'
    by (induction rows' arbitrary: rows) (auto simp: Cons_eq_map_conv)
  show "tracks rid db db' \<Longrightarrow> ?thesis" by (auto simp: tracks_def row_of_def intro: find)
qed

text \<open>C3: what the state machine reports is what the database holds. The row ends in the reported
  terminal state with the reported effect, and an uncertain one has left an active lock on its
  device; or the terminal transaction was lost, the report says uncertain, and the row is still in
  flight. No other reroute's row changes.\<close>

theorem outcome_recorded:
  assumes "reroutes_ok db"
    and "run_state_machine f clk tick say (locked_executor over link devices now) required req rid plan
           prepared s (db, cache) = (Inr m, s', db', cache')"
  shows "settled rid (aq_device_id req) (mr_state m) (mr_effect m) db' \<and> others rid db' = others rid db"
  using locked.run_settles [OF assms(2,1)] by (simp add: tracks_def)

text \<open>C4: a device whose action ended uncertain takes no further action, whoever asks and whatever
  the reads answer: every later reservation on it is refused until somebody resolves the row.\<close>

theorem uncertain_outcome_blocks:
  assumes "reroutes_ok db" "map_option rr_device_id (row_of db rid) = Some (Some (aq_device_id req))"
    and "run_state_machine f clk tick say (locked_executor over link devices now) required req rid plan
           prepared s (db, cache) = (Inr m, s', db', cache')"
    and "mr_state m = StateUncertain" "aq_device_id next = aq_device_id req"
  shows "is_ok (fst (reserve_and_persist g cfg later next plan2 db')) = False"
proof -
  from locked.run_settles [OF assms(3,1)] assms(2,4) have busy: "\<not> device_idle db' (aq_device_id next)"
    using settled_busy tracks_device assms(5) by metis
  show ?thesis
  proof (cases "fst (reserve_and_persist g cfg later next plan2 db')")
    case (Inr new)
    then have "reserve_and_persist g cfg later next plan2 db' =
        (Inr new, snd (reserve_and_persist g cfg later next plan2 db'))" by (simp add: prod_eq_iff)
    then show ?thesis
    proof (rule reserve_and_persist_Inr)
      fix limit
      assume "reserve_slot g later next plan2 (uses_budget next limit) db' =
          Inr (new, snd (reserve_and_persist g cfg later next plan2 db'))"
      from reserve_slot_Inr(3) [OF this] busy show ?thesis by simp
    qed
  qed simp
qed

text \<open>C8: an action that is refused, or recorded to have had no effect, has left the configuration
  of every router as it was.\<close>

theorem noop_changes_nothing:
  assumes "\<forall>d. honest_line cfg (link d)"
    and "run_state_machine f clk tick say (locked_executor over link devices now) required req rid plan
           prepared s (db, cache) = (Inr m, s', db', cache')"
    and "mr_refused m \<or> mr_effect m = EffectNoop"
  shows "cfg s' = cfg s"
  using locked.noop_quiet [OF assms(2,3), of cfg] assms(1) by (simp add: observed_eq)

lemma affected_once:
  "distinct (map rr_id rows) \<Longrightarrow> r \<in> set rows \<Longrightarrow> at_state rid states r \<Longrightarrow>
   rows_affected (at_state rid states) rows = 1"
proof (induction rows)
  case (Cons x rows)
  then show ?case
    by (cases "x = r") (auto simp: rows_affected_def at_state_def filter_empty_conv image_iff)
qed simp

lemma checked_update_Inl:
  assumes "checked_update f q conflict rid states g db = (Inl e, db')" "reroutes_ok db" "\<And>r. rr_id (g r) = rr_id r"
  shows "row_of db' rid = row_of db rid"
proof (cases "f q")
  case None
  with assms(1) have "rows_affected (at_state rid states) (db_reroutes db) \<noteq> 1"
    and db': "db' = write_reroute rid states g db"
    by (auto simp: checked_update_def split: if_splits)
  then have "\<not> row_in states rid db"
    using affected_once assms(2) by (auto simp: row_in_def reroutes_ok_def at_state_def dest!: row_of_SomeD)
  then show ?thesis
    by (cases "row_of db rid") (auto simp: db' row_of_write assms(3) row_in_def)
qed (use assms(1) in \<open>simp add: checked_update_def\<close>)

lemma transitions_Inl:
  "to_pending f rid db = (Inl e, db') \<Longrightarrow> reroutes_ok db \<Longrightarrow> row_of db' rid = row_of db rid"
  "to_running f clk rid db = (Inl e, db') \<Longrightarrow> reroutes_ok db \<Longrightarrow> row_of db' rid = row_of db rid"
  unfolding to_pending_def to_running_def by (erule (1) checked_update_Inl; simp)+

lemma to_pending_Inr: "to_pending f rid db = (Inr (), db') \<Longrightarrow> reroutes_ok db \<Longrightarrow> row_in {Pending} rid db'"
  unfolding to_pending_def by (drule (1) checked_update_Inr [where after = "{Pending}"]) simp_all

lemma transitions_outputs [trail]:
  "db_outputs (snd (checked_update f q conflict rid states g db)) = db_outputs db"
  by (simp add: checked_update_def write_reroute_def split: option.split)

text \<open>C22: a run that fails before it reports an outcome has sent nothing to any router and stored
  no output, and the row of the reroute is as it was or has only advanced to pending.\<close>

theorem abort_sends_nothing:
  assumes "reroutes_ok db"
    and "run_state_machine f clk tick say ssh required req rid plan prepared s (db, cache) = (Inl e, s', db', cache')"
  shows "s' = s \<and> cache' = cache \<and> db_outputs db' = db_outputs db \<and>
    (row_of db' rid = row_of db rid \<or> row_in {Pending} rid db')"
proof -
  obtain p db1 where p: "to_pending f rid db = (p, db1)" by fastforce
  obtain r db2 where r: "to_running f clk rid db1 = (r, db2)" by fastforce
  have o1: "db_outputs db1 = db_outputs db" using p transitions_outputs unfolding to_pending_def by (metis snd_conv)
  have o2: "db_outputs db2 = db_outputs db1" using r transitions_outputs unfolding to_running_def by (metis snd_conv)
  have ok: "reroutes_ok db1" using p assms(1) transitions_track(1) [of rid db f] tracks_ok by (metis snd_conv)
  show ?thesis
  proof (cases p)
    case (Inl e1)
    with assms(2) p have "s' = s" "cache' = cache" "db' = db1" by (auto simp: run_state_machine_def)
    moreover have "row_of db1 rid = row_of db rid"
      using transitions_Inl(1) p assms(1) unfolding Inl by blast
    ultimately show ?thesis using o1 by simp
  next
    case (Inr u)
    with assms(2) p r have eq: "s' = s" "cache' = cache" "db' = db2" "r = Inl e"
      by (auto simp: run_state_machine_def Let_def split: sum.splits prod.splits option.splits)
    have "row_in {Pending} rid db1"
      using to_pending_Inr p Inr assms(1) by simp
    moreover have "row_of db2 rid = row_of db1 rid"
      using transitions_Inl(2) r ok unfolding eq(4) by blast
    ultimately show ?thesis using eq o1 o2 by (simp add: row_in_def)
  qed
qed

subsection \<open>Success\<close>

lemma finalize_state: "finalize f clk req rid st a v e refused db = (st', db') \<Longrightarrow> st' = st \<or> st' = StateUncertain"
  by (auto simp: finalize_def split: sum.splits)

lemma finish_refused_state:
  "finish_refused f clk req rid persisted reason db = (m, db') \<Longrightarrow> mr_state m \<noteq> StateSucceeded"
  by (auto simp: finish_refused_def Let_def split: prod.splits if_splits dest!: finalize_state)

text \<open>C9: a reroute only counts as succeeded when its result was verified. A prepared action ends
  with a complete read under the lock that found exactly the expected after-state; a rendered plan
  ends with its verification command, whose output passed, and only a plan without one can succeed
  unverified, when verification is not required.\<close>

theorem success_is_verified:
  assumes "run_state_machine f clk tick say (locked_executor over link devices now) required req rid plan
           prepared s (db, cache) = (Inr m, s', db', cache')"
    and "mr_state m = StateSucceeded"
  shows "case prepared of
      Some a \<Rightarrow> \<exists>s0. verify_current (locked_port over link devices (pa_device_id a)) (pa_device_id a) now
                  (pa_verify a) s0 = (Inr True, s')
    | None \<Rightarrow> (case rp_verify plan of
        Some v \<Rightarrow> \<exists>s0 out. locked_port over link devices (aq_device_id req) (vs_command v) s0 = (Inr out, s') \<and>
                    legacy_verdict out v = Pass
      | None \<Rightarrow> \<not> required)"
  using assms(1)
proof (rule run_state_machine_Inr)
  let ?ssh = "locked_executor over link devices now"
  fix db1 db2 ap s1 db3 recorded db4
  assume a: "apply_phase f say ?ssh req rid plan prepared s db2 = (ap, s1, db3)"
    and fin: "case ap_refusal ap of
       Some reason \<Rightarrow> s' = s1 \<and> finish_refused f clk req rid (ap_persisted ap \<and> recorded) reason db4 = (m, db')
     | None \<Rightarrow> finish_applied f clk say ?ssh required req rid plan prepared (is_ok (ap_result ap))
         (ap_persisted ap \<and> recorded) (ap_skip ap) s1 db4 = (m, s', db')"
  have ref: "ap_refusal ap = None"
    using fin assms(2) finish_refused_state by (cases "ap_refusal ap") auto
  obtain mv db5 where mv: "to_verifying f rid db4 = (mv, db5)" by fastforce
  obtain v ok s2 db6 where vf: "(if prepared \<noteq> None then ((Pass, True), s1, db5)
      else verify_plan f say ?ssh req rid plan s1 db5) = ((v, ok), s2, db6)"
    by (metis prod_cases4 prod.collapse)
  from fin ref mv vf assms(2) have "s' = s2" "final_state_for (is_ok (ap_result ap)) v required = StateSucceeded"
    by (auto simp: finish_applied_def Let_def split: prod.splits if_splits dest!: finalize_state)
  then have applied: "is_ok (ap_result ap)" "v = Pass \<or> v = NoVerdict \<and> \<not> required"
    by (auto simp: succeeded_iff_verified)
  show ?thesis
  proof (cases prepared)
    case (Some pa)
    from a ref applied(1) Some obtain outcome where
      "execute_prepared (locked_port over link devices (pa_device_id pa))
         (locked_execute over link devices (pa_device_id pa)) now pa s = (Inr outcome, s1)"
      by (auto simp: apply_phase_def apply_prepared_def locked_executor_def
          split: sum.splits if_splits prod.splits)
    from execute_prepared_Inr [OF this] \<open>s' = s2\<close> vf Some show ?thesis by auto
  next
    case None
    show ?thesis
    proof (cases "rp_verify plan")
      case (Some st)
      obtain r s3 where r: "locked_port over link devices (aq_device_id req) (vs_command st) s1 = (r, s3)" by fastforce
      with vf None Some applied(2) have "s3 = s2" "\<exists>out. r = Inr out \<and> legacy_verdict out st = Pass"
        by (auto simp: verify_plan_def locked_executor_def Let_def legacy_verdict_def
            split: sum.splits prod.splits if_splits)
      with r \<open>s' = s2\<close> None Some show ?thesis by auto
    qed (use vf None applied(2) in \<open>simp add: verify_plan_def\<close>)
  qed
qed

subsection \<open>Recorded before it is sent\<close>

lemma checked_update_row:
  assumes "checked_update f q conflict rid states g db = (Inr u, db')" "reroutes_ok db" "\<And>r. rr_id (g r) = rr_id r"
  obtains r where "row_of db rid = Some r" "rr_state r \<in> states" "row_of db' rid = Some (g r)"
proof -
  from assms(1) have n: "rows_affected (at_state rid states) (db_reroutes db) = 1"
    and db': "db' = write_reroute rid states g db"
    by (auto simp: checked_update_def split: option.splits if_splits)
  from affected_row [OF assms(2) n] obtain r where "row_of db rid = Some r" "rr_state r \<in> states" .
  with that assms(3) show ?thesis by (simp add: db' row_of_write)
qed

text \<open>C19: an open session is told to push a resolved plan only after the row of the running
  reroute names the chosen sequence number and exactly the commands that will be sent: a crash
  during the push leaves a record of the very entry to remove.\<close>

theorem push_is_recorded_first:
  assumes "reroutes_ok db"
    and "sequence_resolver f say req rid adding lst pfx output db = (Inr (Push commands), db')"
  shows "\<exists>r n base. row_of db' rid = Some r \<and> rr_state r = Running \<and> rr_commands r = commands \<and>
    rr_params r = Some (JObj (bt_insert SEQUENCE_PARAM (JStr (show_word n)) base)) \<and>
    (if adding then plan_add output lst pfx else plan_remove output lst pfx) = Use n"
proof -
  let ?d = "if adding then plan_add output lst pfx else plan_remove output lst pfx"
  from assms(2) obtain c where c: "session_plan_for ?d (aq_template req) (aq_params req) = Inr (Push commands, c)"
    by (auto simp: sequence_resolver_def Let_def split: sum.splits option.splits prod.splits)
  then obtain n p where p: "?d = Use n" "c = Some (n, Some p)" "commands = rp_commands p"
    by (auto simp: session_plan_for_def and_then_Inr_iff split: sequence_plan.splits)
  with c assms(2) obtain u where u: "persist_resolved_sequence f req rid n (Some p) db = (Inr u, db')"
    by (auto simp: sequence_resolver_def split: sum.splits prod.splits)
  let ?params = "JObj (bt_insert SEQUENCE_PARAM (JStr (show_word n))
      (case as_object (aq_params req) of Some m \<Rightarrow> m | None \<Rightarrow> []))"
  let ?g = "\<lambda>r. r\<lparr>rr_params := Some ?params, rr_commands := rp_commands p\<rparr>"
  from u obtain w db1 where w: "checked_update f QResolved (no_longer_running rid ''sequence was resolved'')
      rid {Running} ?g db = (Inr w, db1)"
    and steps: "describe_steps f rid 0 (rp_commands p) db1 = (Inr u, db')"
    by (auto simp: persist_resolved_sequence_def Let_def split: sum.splits prod.splits)
  from checked_update_row [OF w assms(1)] obtain r where "rr_state r \<in> {Running}" "row_of db1 rid = Some (?g r)"
    by auto
  moreover have "row_of db' rid = row_of db1 rid"
    using steps describe_steps_rows [of f rid 0 "rp_commands p" db1] by (simp add: row_of_def)
  ultimately show ?thesis using p(1,3) by auto
qed

subsection \<open>Two runs\<close>

text \<open>A prepared action that finds its state already in place, and a plan whose locked sessions
  have run out of time.\<close>

definition shut_text :: string where
  "shut_text = ''interface Gi0/1'' @ [newline] @ '' shutdown'' @ [newline] @ ''R#''"

definition shut_line :: "nat line" where
  "shut_line = \<lparr>ln_late = (\<lambda>s. False), ln_send = (\<lambda>c s. (Inr [(Data shut_text, False)], s))\<rparr>"

definition planned_row :: reroute_row where
  "planned_row =
     \<lparr>rr_id = 1, rr_device_id = Some 7, rr_rule_id = None, rr_bundle_id = None, rr_bundle_position = None,
      rr_rule_event_id = None, rr_template_id = 4, rr_rollback_of = None, rr_trigger_type = ''automatic'',
      rr_user_id = None, rr_state = Planned, rr_reason = None, rr_params = None, rr_commands = [],
      rr_verification_mode = None, rr_prior_state = None, rr_after_state = None,
      rr_template_snapshot = None, rr_rollback_snapshot = None, rr_started_at = None,
      rr_finished_at = None, rr_success = None, rr_failure_reason = None,
      rr_verification_status = None, rr_mutation_effect = EffectPending, rr_created_at = 0\<rparr>"

definition planned_database :: database where
  "planned_database = empty_database\<lparr>db_reroutes := [planned_row]\<rparr>"

definition satisfied_run :: "(string + machine_result) \<times> nat \<times> database \<times> successes" where
  "satisfied_run = run_state_machine no_faults (\<lambda>_. 100) 0 (\<lambda>_. [])
     (locked_executor (\<lambda>_. False) (\<lambda>_. shut_line) rejected_devices 0) True uplink_request 1 sample_plan
     (Some shut_action) 4 (planned_database, Map.empty)"

definition lost_run :: "(string + machine_result) \<times> nat \<times> database \<times> successes" where
  "lost_run = run_state_machine no_faults (\<lambda>_. 100) 0 (\<lambda>_. [])
     (locked_executor (\<lambda>_. True) (\<lambda>_. shut_line) rejected_devices 0) True uplink_request 1 sample_plan
     None 4 (planned_database, Map.empty)"

lemma satisfied_run_outcome:
  "case satisfied_run of
     (Inr m, s', _) \<Rightarrow> mr_state m = StateSucceeded \<and> mr_effect m = EffectNoop \<and> s' = 4 | _ \<Rightarrow> False"
  by code_simp

lemma lost_run_outcome:
  "case lost_run of
     (Inr m, s', _) \<Rightarrow> mr_state m = StateUncertain \<and> mr_effect m = EffectUnknown \<and> s' = 4 | _ \<Rightarrow> False"
  by code_simp

lemma satisfied_run_Inr:
  obtains m db' cache' where "satisfied_run = (Inr m, 4, db', cache')" "mr_state m = StateSucceeded" "mr_effect m = EffectNoop"
  using satisfied_run_outcome by (auto split: prod.splits sum.splits)

lemma lost_run_Inr:
  obtains m db' cache' where "lost_run = (Inr m, 4, db', cache')" "mr_state m = StateUncertain" "mr_effect m = EffectUnknown"
  using lost_run_outcome by (auto split: prod.splits sum.splits)

lemma planned_ok: "reroutes_ok planned_database"
  by (simp add: reroutes_ok_def planned_database_def)

theorem outcome_recorded_witness:
  "\<exists>m s' db' cache'. lost_run = (Inr m, s', db', cache') \<and> settled 1 7 (mr_state m) (mr_effect m) db' \<and>
     others 1 db' = others 1 planned_database"
proof (rule lost_run_Inr)
  fix m db' cache'
  assume run: "lost_run = (Inr m, 4, db', cache')"
  from outcome_recorded [OF planned_ok run [unfolded lost_run_def]] run show ?thesis
    by (auto simp: uplink_request_def)
qed

theorem uncertain_outcome_blocks_witness:
  "\<exists>m s' db' cache'. lost_run = (Inr m, s', db', cache') \<and>
     is_ok (fst (reserve_and_persist no_faults sample_config 200 uplink_request sample_plan db')) = False"
proof (rule lost_run_Inr)
  fix m db' cache'
  assume run: "lost_run = (Inr m, 4, db', cache')" "mr_state m = StateUncertain"
  have dev: "map_option rr_device_id (row_of planned_database 1) = Some (Some (aq_device_id uplink_request))"
    by (simp add: row_of_def planned_database_def planned_row_def uplink_request_def)
  from uncertain_outcome_blocks [OF planned_ok dev run(1) [unfolded lost_run_def] run(2)] run(1)
  show ?thesis by blast
qed

theorem noop_changes_nothing_witness:
  "\<exists>m s' db' cache'. satisfied_run = (Inr m, s', db', cache') \<and> mr_effect m = EffectNoop \<and> id s' = id 4"
proof (rule satisfied_run_Inr)
  fix m db' cache'
  assume run: "satisfied_run = (Inr m, 4, db', cache')" "mr_effect m = EffectNoop"
  have "\<forall>d :: u64. honest_line id shut_line" by (simp add: honest_line_def shut_line_def)
  from noop_changes_nothing [OF this run(1) [unfolded satisfied_run_def]] run show ?thesis by auto
qed

theorem success_is_verified_witness:
  "\<exists>m s' db' cache'. satisfied_run = (Inr m, s', db', cache') \<and>
     (\<exists>s0. verify_current (locked_port (\<lambda>_. False) (\<lambda>_. shut_line) rejected_devices 7) 7 0
        [InterfaceAdmin ''Gi0/1'' True] s0 = (Inr True, s'))"
proof (rule satisfied_run_Inr)
  fix m db' cache'
  assume run: "satisfied_run = (Inr m, 4, db', cache')" "mr_state m = StateSucceeded"
  from success_is_verified [OF run(1) [unfolded satisfied_run_def] run(2)] run(1) show ?thesis
    by (auto simp: shut_action_def)
qed

definition stale_run :: "(string + machine_result) \<times> nat \<times> database \<times> successes" where
  "stale_run = run_state_machine no_faults (\<lambda>_. 100) 0 (\<lambda>_. [])
     (locked_executor (\<lambda>_. False) (\<lambda>_. shut_line) rejected_devices 0) True uplink_request 2 sample_plan
     None 4 (planned_database, Map.empty)"

theorem abort_sends_nothing_witness:
  "\<exists>e s' db' cache'. stale_run = (Inl e, s', db', cache') \<and> s' = 4 \<and>
     (row_of db' 2 = row_of planned_database 2 \<or> row_in {Pending} 2 db')"
proof -
  have "case stale_run of (Inl _, _) \<Rightarrow> True | _ \<Rightarrow> False" by code_simp
  then obtain e s' db' cache' where run: "stale_run = (Inl e, s', db', cache')"
    by (auto split: prod.splits sum.splits)
  from abort_sends_nothing [OF planned_ok run [unfolded stale_run_def]] run show ?thesis by blast
qed

definition running_database :: database where
  "running_database = empty_database\<lparr>db_reroutes := [planned_row\<lparr>rr_state := Running\<rparr>]\<rparr>"

definition permit_request :: action_request where
  "permit_request = uplink_request\<lparr>aq_template := permit_template, aq_params := permit_params\<rparr>"

theorem push_is_recorded_first_witness:
  "\<exists>db' r. sequence_resolver no_faults (\<lambda>_. []) permit_request 1 True ''L'' ''10.0.1.0/24'' sample_list
       running_database =
       (Inr (Push [''configure terminal'', ''ip prefix-list L seq 7 permit 10.0.1.0/24'', ''end'']), db') \<and>
     row_of db' 1 = Some r \<and>
     rr_commands r = [''configure terminal'', ''ip prefix-list L seq 7 permit 10.0.1.0/24'', ''end'']"
proof -
  have plan: "session_plan_for (plan_add sample_list ''L'' ''10.0.1.0/24'') permit_template permit_params =
      Inr (Push [''configure terminal'', ''ip prefix-list L seq 7 permit 10.0.1.0/24'', ''end''],
        Some (7, Some (fst (projr (render_with_sequence permit_template permit_params 7)))))"
    by (simp add: session_plan_for_def permit_add permit_rendered)
  have once: "rows_affected (at_state 1 {Running}) (db_reroutes running_database) = 1"
    by (simp add: rows_affected_def at_state_def running_database_def planned_row_def)
  obtain db' where run: "sequence_resolver no_faults (\<lambda>_. []) permit_request 1 True ''L'' ''10.0.1.0/24'' sample_list
       running_database =
       (Inr (Push [''configure terminal'', ''ip prefix-list L seq 7 permit 10.0.1.0/24'', ''end'']), db')"
    by (simp add: sequence_resolver_def permit_request_def plan persist_resolved_sequence_def
        checked_update_def no_faults_def once permit_rendered Let_def)
  have "reroutes_ok running_database" by (simp add: reroutes_ok_def running_database_def)
  from push_is_recorded_first [OF this run] run show ?thesis by blast
qed

end
