(* ===== verification/Authorization.thy ===== *)
theory Authorization
  imports Outcomes
begin

text \<open>
  Who may execute: \<open>authority_is_unattended\<close>, \<open>validate_execution_authorization\<close> and
  \<open>load_prepared_action\<close> of \<open>src/backend-rust/src/reroute/executor.rs\<close>, over the tables
  that record plans, rules, admissions and recovery attempts. A join over primary keys is a lookup.
  MySQL's cast of a JSON value to an unsigned number is the parameter \<open>cast\<close>, its
  \<open>JSON_CONTAINS\<close> the parameter \<open>inside\<close>, and \<open>evidence\<close> stands for the two
  questions that are put to the detection engine.
\<close>

subsection \<open>The tables behind an authority\<close>

record plan_row =
  ep_id :: u64
  ep_user_id :: u64
  ep_consumed_at :: "int option"
  ep_expires_at :: int
  ep_bundle_id :: "u64 option"
  ep_snapshot :: json

record rule_row =
  ru_id :: u64
  ru_enabled :: bool
  ru_automatic :: bool
  ru_automatic_revert :: bool
  ru_manual_apply :: bool
  ru_revision :: u64
  ru_state :: "string option"

record admission_row =
  ad_bundle_id :: u64
  ad_source :: json
  ad_cancelled_at :: "int option"
  ad_claim_token :: "string option"
  ad_recovery_bundle :: "u64 option"

record attempt_row =
  as_recovery_bundle :: u64
  as_source_bundle :: u64
  as_settlement :: string
  as_claim_token :: string

record authority_tables =
  at_plans :: "plan_row list"
  at_rules :: "rule_row list"
  at_admissions :: "admission_row list"
  at_attempts :: "attempt_row list"
  at_templates :: "template list"

definition rule_of :: "authority_tables \<Rightarrow> u64 \<Rightarrow> rule_row option" where
  "rule_of at i = List.find (\<lambda>r. ru_id r = i) (at_rules at)"

definition admission_of :: "authority_tables \<Rightarrow> u64 \<Rightarrow> admission_row option" where
  "admission_of at i = List.find (\<lambda>a. ad_bundle_id a = i) (at_admissions at)"

definition source_text :: "authority_tables \<Rightarrow> u64 \<Rightarrow> string \<Rightarrow> string option" where
  "source_text at i key = Option.bind (admission_of at i) (\<lambda>a. get_str (ad_source a) key)"

definition revision_current :: "(json \<Rightarrow> u64 option) \<Rightarrow> authority_tables \<Rightarrow> u64 \<Rightarrow> rule_row \<Rightarrow> bool" where
  "revision_current cast at i r =
     (Option.bind (admission_of at i) (\<lambda>a. Option.bind (json_get (ad_source a) ''actions_revision'') cast)
        = Some (ru_revision r))"

definition holds :: "('a \<Rightarrow> bool) \<Rightarrow> 'a option \<Rightarrow> bool" where
  "holds p v = (case v of Some x \<Rightarrow> p x | None \<Rightarrow> False)"

subsection \<open>Unattended authority\<close>

definition authority_is_unattended :: "faults \<Rightarrow> database \<Rightarrow> execution_authorization option \<Rightarrow> bool" where
  "authority_is_unattended f db auth =
     (case auth of
        None \<Rightarrow> False
      | Some a \<Rightarrow>
          if xa_kind a \<in> {Automatic, Recovery} then True
          else if xa_kind a = Compensation
          then (case xa_bundle_id a of
                  None \<Rightarrow> True
                | Some b \<Rightarrow>
                    unwrap_or None (fetch f (QAuthority ''trigger'') (map_option bn_trigger_type (find_bundle db b)))
                      = Some ''automatic'')
          else False)"

definition configuration_only_authority_allowed :: "bool \<Rightarrow> u64 option \<Rightarrow> bool" where
  "configuration_only_authority_allowed unattended rule_id = (\<not> unattended \<and> rule_id = None)"

subsection \<open>Each kind of authority\<close>

datatype auth_error =
    Unauthorized string
  | WrongTrigger
  | AuthQuery string
  | TemplateMissing

definition ask :: "faults \<Rightarrow> string \<Rightarrow> 'a \<Rightarrow> auth_error + 'a" where
  "ask f q v = map_err AuthQuery (fetch f (QAuthority q) v)"

definition runnable :: "bundle_row \<Rightarrow> bool" where
  "runnable b = (bn_state b \<in> {BundlePlanned, BundleRunning})"

definition consumed_plan :: "execution_authorization \<Rightarrow> u64 \<Rightarrow> u64 \<Rightarrow> plan_row \<Rightarrow> bool" where
  "consumed_plan auth plan user p =
     (ep_id p = plan \<and> ep_user_id p = user \<and>
      holds (\<lambda>t. t \<le> ep_expires_at p) (ep_consumed_at p) \<and>
      (xa_bundle_id auth = None \<and> ep_bundle_id p = None \<or>
       xa_bundle_id auth \<noteq> None \<and> ep_bundle_id p = xa_bundle_id auth))"

definition rule_still_applies ::
    "(json \<Rightarrow> u64 option) \<Rightarrow> authority_tables \<Rightarrow> database \<Rightarrow> u64 option \<Rightarrow> u64 \<Rightarrow> bool" where
  "rule_still_applies cast at db bundle rule =
     holds (\<lambda>i. holds (\<lambda>b. bn_rule_id b = Some rule) (find_bundle db i) \<and>
        holds (\<lambda>r. ru_manual_apply r \<and> revision_current cast at i r) (rule_of at rule)) bundle"

definition live_inverse :: "database \<Rightarrow> u64 \<Rightarrow> bool" where
  "live_inverse db original =
     list_ex (\<lambda>r. rr_rollback_of r = Some original \<and>
       rr_state r \<in> {Planned, Pending, Running, Verifying, Succeeded}) (db_reroutes db)"

definition invertible :: "database \<Rightarrow> u64 \<Rightarrow> bool" where
  "invertible db original =
     (holds (\<lambda>r. rr_state r \<in> {Succeeded, Failed} \<and> rr_mutation_effect r = EffectChanged \<and>
        rr_template_snapshot r \<noteq> None \<and> rr_rollback_snapshot r \<noteq> None) (row_of db original) \<and>
      \<not> live_inverse db original)"

definition authorize_manual ::
    "faults \<Rightarrow> (json \<Rightarrow> u64 option) \<Rightarrow> authority_tables \<Rightarrow> database \<Rightarrow> action_request \<Rightarrow>
     execution_authorization \<Rightarrow> auth_error + unit" where
  "authorize_manual f cast at db req auth =
     and_then (ensure WrongTrigger (aq_trigger_type req \<in> {''manual'', ''rollback''})) (\<lambda>_.
     and_then (ok_or (Unauthorized ''manual execution has no consumed plan'') (xa_plan_id auth)) (\<lambda>plan.
     and_then (ok_or (Unauthorized ''manual execution has no actor'') (aq_user_id req)) (\<lambda>user.
     and_then (ask f ''plan'' (count (consumed_plan auth plan user) (at_plans at))) (\<lambda>valid.
     and_then (ensure (Unauthorized ''plan is missing, unconsumed, expired, or actor-mismatched'') (valid = 1)) (\<lambda>_.
     and_then (case (aq_trigger_type req = ''manual'', aq_rule_id req) of
                 (True, Some rule) \<Rightarrow>
                   and_then (ask f ''rule'' (rule_still_applies cast at db (xa_bundle_id auth) rule \<and>
                       holds (\<lambda>i. source_text at i ''kind'' = Some ''rule'') (xa_bundle_id auth))) (\<lambda>current.
                     ensure (Unauthorized ''rule actions changed or manual apply was disabled after authorization'') current)
               | _ \<Rightarrow> Inr ()) (\<lambda>_.
       if aq_trigger_type req = ''rollback''
       then and_then (ok_or (Unauthorized ''manual rollback has no original action'') (aq_rollback_of req)) (\<lambda>original.
            and_then (ask f ''original'' (invertible db original)) (\<lambda>owned.
              ensure (Unauthorized ''original action is not safely invertible'') owned))
       else Inr ()))))))"

definition authorize_manual_bundle ::
    "faults \<Rightarrow> (json \<Rightarrow> u64 option) \<Rightarrow> authority_tables \<Rightarrow> database \<Rightarrow> action_request \<Rightarrow>
     execution_authorization \<Rightarrow> auth_error + unit" where
  "authorize_manual_bundle f cast at db req auth =
     and_then (ensure WrongTrigger (aq_trigger_type req = ''manual'')) (\<lambda>_.
     and_then (ok_or (Unauthorized ''direct manual execution has no bundle'') (xa_bundle_id auth)) (\<lambda>bundle.
     and_then (ok_or (Unauthorized ''direct manual execution has no actor'') (aq_user_id req)) (\<lambda>user.
     and_then (ask f ''bundle''
        (holds (\<lambda>b. bn_trigger_type b = ''manual'' \<and> bn_user_id b = Some user \<and> runnable b) (find_bundle db bundle) \<and>
         source_text at bundle ''admission_kind'' = Some ''direct'' \<and>
         source_text at bundle ''preparation_phase'' = Some ''prepared'')) (\<lambda>valid.
     and_then (ensure (Unauthorized ''direct manual bundle is not runnable'') valid) (\<lambda>_.
       case aq_rule_id req of
         None \<Rightarrow> Inr ()
       | Some rule \<Rightarrow>
           and_then (ask f ''rule'' (rule_still_applies cast at db (Some bundle) rule)) (\<lambda>current.
             ensure (Unauthorized ''rule actions changed or manual apply was disabled after admission'') current))))))"

definition authorize_automatic ::
    "faults \<Rightarrow> (json \<Rightarrow> u64 option) \<Rightarrow> (u64 \<Rightarrow> string + bool) \<Rightarrow> authority_tables \<Rightarrow> database \<Rightarrow>
     action_request \<Rightarrow> execution_authorization \<Rightarrow> auth_error + unit" where
  "authorize_automatic f cast flow at db req auth =
     and_then (ensure WrongTrigger (aq_trigger_type req = ''automatic'')) (\<lambda>_.
     and_then (ok_or (Unauthorized ''automatic execution has no activation'') (xa_bundle_id auth)) (\<lambda>bundle.
     and_then (ask f ''activation''
        (holds (\<lambda>b. bn_trigger_type b = ''automatic'' \<and> runnable b \<and>
           holds (\<lambda>rule. holds (\<lambda>r. ru_enabled r \<and> ru_automatic r \<and> ru_state r = Some ''firing'' \<and>
             revision_current cast at bundle r) (rule_of at rule)) (bn_rule_id b)) (find_bundle db bundle))) (\<lambda>valid.
     and_then (ensure (Unauthorized ''automatic activation is not runnable'') valid) (\<lambda>_.
       case aq_rule_id req of
         None \<Rightarrow> Inr ()
       | Some rule \<Rightarrow>
           and_then (map_err AuthQuery (flow rule))
             (ensure (Unauthorized ''flow evidence is stale, incomplete, or no longer SNMP-corroborated''))))))"

definition authorize_compensation ::
    "faults \<Rightarrow> database \<Rightarrow> action_request \<Rightarrow> execution_authorization \<Rightarrow> auth_error + unit" where
  "authorize_compensation f db req auth =
     and_then (ensure WrongTrigger (aq_trigger_type req = ''rollback'')) (\<lambda>_.
     and_then (ok_or (Unauthorized ''compensation has no bundle'') (xa_bundle_id auth)) (\<lambda>bundle.
     and_then (ok_or (Unauthorized ''compensation has no original reroute'') (aq_rollback_of req)) (\<lambda>original.
     and_then (ask f ''original'' (holds (\<lambda>r. rr_bundle_id r = Some bundle \<and> rr_mutation_effect r = EffectChanged)
        (row_of db original)))
       (ensure (Unauthorized ''original action is not an owned mutation of this bundle'')))))"

text \<open>The siblings of a recovery bundle that reverse the original.\<close>

definition reversing_siblings :: "database \<Rightarrow> u64 \<Rightarrow> u64 \<Rightarrow> i64" where
  "reversing_siblings db bundle original =
     count (\<lambda>a. ba_bundle_id a = bundle \<and> ba_original_reroute_id a = Some original) (db_bundle_actions db)"

definition recovery_owned ::
    "authority_tables \<Rightarrow> database \<Rightarrow> u64 \<Rightarrow> u64 \<Rightarrow> i64" where
  "recovery_owned at db bundle original =
     (if holds (\<lambda>b. bn_trigger_type b = ''automatic'' \<and> runnable b \<and>
           source_text at bundle ''kind'' = Some ''recovery'' \<and>
           holds (\<lambda>r. rr_mutation_effect r = EffectChanged \<and>
             holds (\<lambda>owner. find_bundle db owner \<noteq> None \<and>
               holds (\<lambda>a. ad_cancelled_at a = None \<and> ad_claim_token a \<noteq> None \<and> ad_recovery_bundle a = Some bundle)
                 (admission_of at owner)) (rr_bundle_id r) \<and>
             (bn_rule_id b = None \<or>
              rr_rule_id r = bn_rule_id b \<and>
              holds (\<lambda>rule. holds (\<lambda>u. ru_automatic_revert u \<and> ru_state u = Some ''recovered_awaiting_revert'')
                (rule_of at rule)) (bn_rule_id b))) (row_of db original) \<and>
           \<not> live_inverse db original) (find_bundle db bundle)
      then reversing_siblings db bundle original else 0)"

definition authorize_recovery ::
    "faults \<Rightarrow> (u64 \<Rightarrow> string + bool) \<Rightarrow> authority_tables \<Rightarrow> database \<Rightarrow> action_request \<Rightarrow>
     execution_authorization \<Rightarrow> auth_error + unit" where
  "authorize_recovery f condition at db req auth =
     and_then (ensure WrongTrigger (aq_trigger_type req = ''rollback'')) (\<lambda>_.
     and_then (ok_or (Unauthorized ''recovery has no bundle'') (xa_bundle_id auth)) (\<lambda>bundle.
     and_then (ok_or (Unauthorized ''recovery has no original reroute'') (aq_rollback_of req)) (\<lambda>original.
     and_then (ask f ''recovery'' (recovery_owned at db bundle original)) (\<lambda>valid.
     and_then (ensure (Unauthorized ''automatic recovery ownership check failed'') (valid = 1)) (\<lambda>_.
       case aq_rule_id req of
         None \<Rightarrow> Inr ()
       | Some rule \<Rightarrow>
           and_then (map_err AuthQuery (condition rule))
             (ensure (Unauthorized ''condition recovery evidence is stale or no longer recovered'')))))))"

text \<open>Every pair of a sibling and an active attempt is a row of the join.\<close>

definition manual_recovery_owned ::
    "authority_tables \<Rightarrow> database \<Rightarrow> u64 \<Rightarrow> u64 \<Rightarrow> u64 \<Rightarrow> i64" where
  "manual_recovery_owned at db user bundle original =
     (if holds (\<lambda>b. bn_trigger_type b = ''manual'' \<and> bn_user_id b = Some user \<and> runnable b \<and>
           source_text at bundle ''kind'' = Some ''recovery'' \<and>
           source_text at bundle ''admission_kind'' = Some ''direct'') (find_bundle db bundle) \<and>
         \<not> live_inverse db original
      then (case row_of db original of
              None \<Rightarrow> 0
            | Some r \<Rightarrow>
                if rr_mutation_effect r \<noteq> EffectChanged then 0
                else (case rr_bundle_id r of
                  None \<Rightarrow> 0
                | Some owner \<Rightarrow>
                    reversing_siblings db bundle original *
                    count (\<lambda>t. as_recovery_bundle t = bundle \<and> as_source_bundle t = owner \<and>
                       as_settlement t = ''active'' \<and> find_bundle db owner \<noteq> None \<and>
                       holds (\<lambda>a. ad_claim_token a = Some (as_claim_token t)) (admission_of at owner))
                     (at_attempts at)))
      else 0)"

definition authorize_manual_recovery ::
    "faults \<Rightarrow> authority_tables \<Rightarrow> database \<Rightarrow> action_request \<Rightarrow> execution_authorization \<Rightarrow> auth_error + unit" where
  "authorize_manual_recovery f at db req auth =
     and_then (ensure WrongTrigger (aq_trigger_type req = ''rollback'')) (\<lambda>_.
     and_then (ok_or (Unauthorized ''manual recovery has no bundle'') (xa_bundle_id auth)) (\<lambda>bundle.
     and_then (ok_or (Unauthorized ''manual recovery has no original reroute'') (aq_rollback_of req)) (\<lambda>original.
     and_then (ok_or (Unauthorized ''manual recovery has no actor'') (aq_user_id req)) (\<lambda>user.
     and_then (ask f ''recovery'' (manual_recovery_owned at db user bundle original)) (\<lambda>valid.
       ensure (Unauthorized ''manual recovery ownership check failed'') (valid = 1))))))"

subsection \<open>The template, the prepared sibling and the window\<close>

definition template_unchanged ::
    "faults \<Rightarrow> authority_tables \<Rightarrow> action_request \<Rightarrow> auth_error + unit" where
  "template_unchanged f at req =
     and_then (ask f ''template'' (List.find (\<lambda>t. tp_id t = tp_id (aq_template req)) (at_templates at))) (\<lambda>stored.
     and_then (ok_or TemplateMissing stored) (\<lambda>current.
     and_then (ensure (Unauthorized ''action template was disabled after preparation'') (tp_enabled current)) (\<lambda>_.
     and_then (ensure (Unauthorized ''action template is no longer allowed for automatic execution'')
       (aq_trigger_type req \<noteq> ''automatic'' \<or> tp_automatic_allowed current)) (\<lambda>_.
       ensure (Unauthorized ''action template changed after preparation'')
         (template_to_json current = template_to_json (aq_template req))))))"

definition sibling_bound ::
    "faults \<Rightarrow> (json \<Rightarrow> string + prepared_action \<Rightarrow> bool) \<Rightarrow> authority_tables \<Rightarrow> database \<Rightarrow> action_request \<Rightarrow>
     execution_authorization \<Rightarrow> u64 \<Rightarrow> auth_error + unit" where
  "sibling_bound f inside at db req auth action =
     (let sibling = List.find (\<lambda>a. ba_id a = action) (db_bundle_actions db) in
      and_then (ask f ''sibling'' (holds (\<lambda>a. ba_device_id a = aq_device_id req \<and> ba_prepared a \<noteq> None \<and>
         (xa_bundle_id auth = None \<or> xa_bundle_id auth = Some (ba_bundle_id a))) sibling)) (\<lambda>valid.
      and_then (ensure (Unauthorized ''prepared sibling does not match this device/bundle'') valid) (\<lambda>_.
        if xa_kind auth = Manual
        then and_then (ask f ''bound'' (holds (\<lambda>a. holds (\<lambda>prepared.
               list_ex (\<lambda>p. Some (ep_id p) = xa_plan_id auth \<and> inside (ep_snapshot p) prepared) (at_plans at))
               (ba_prepared a)) sibling))
             (ensure (Unauthorized ''prepared sibling is not part of the consumed plan snapshot''))
        else Inr ())))"

record oracles =
  or_cast :: "json \<Rightarrow> u64 option"
  or_contained :: "json \<Rightarrow> string + prepared_action \<Rightarrow> bool"
  or_flow_qualified :: "u64 \<Rightarrow> string + bool"
  or_recovery_qualified :: "u64 \<Rightarrow> string + bool"

definition authorize_kind ::
    "faults \<Rightarrow> oracles \<Rightarrow> authority_tables \<Rightarrow> database \<Rightarrow> action_request \<Rightarrow> execution_authorization \<Rightarrow>
     auth_error + unit" where
  "authorize_kind f ora at db req auth =
     (case xa_kind auth of
        Manual \<Rightarrow> authorize_manual f (or_cast ora) at db req auth
      | ManualBundle \<Rightarrow> authorize_manual_bundle f (or_cast ora) at db req auth
      | Automatic \<Rightarrow> authorize_automatic f (or_cast ora) (or_flow_qualified ora) at db req auth
      | Compensation \<Rightarrow> authorize_compensation f db req auth
      | Recovery \<Rightarrow> authorize_recovery f (or_recovery_qualified ora) at db req auth
      | ManualRecovery \<Rightarrow> authorize_manual_recovery f at db req auth)"

definition validate_execution_authorization ::
    "faults \<Rightarrow> oracles \<Rightarrow> authority_tables \<Rightarrow> database \<Rightarrow> action_request \<Rightarrow> auth_error + unit" where
  "validate_execution_authorization f ora at db req =
     and_then (ok_or (Unauthorized ''a durable prepared-action authority is required'') (aq_authorization req)) (\<lambda>auth.
     and_then (ensure (Unauthorized ''empty device-window owner'') (trim (xa_owner_token auth) \<noteq> [])) (\<lambda>_.
     and_then (authorize_kind f ora at db req auth) (\<lambda>_.
     and_then (if aq_rollback_of req = None then template_unchanged f at req else Inr ()) (\<lambda>_.
     and_then (case xa_snapshot_action_id auth of
                 Some action \<Rightarrow> sibling_bound f (or_contained ora) at db req auth action
               | None \<Rightarrow> ensure (Unauthorized ''bundle execution is missing its prepared sibling id'')
                           (aq_bundle req = None)) (\<lambda>_.
     and_then (map_err AuthQuery (change_window_allows f db (aq_device_id req) (Some (xa_owner_token auth)))) (\<lambda>mine.
       ensure (Unauthorized ''device change window belongs to another activation'') mine))))))"

subsection \<open>The prepared action to execute\<close>

definition load_prepared_action ::
    "faults \<Rightarrow> int \<Rightarrow> database \<Rightarrow> action_request \<Rightarrow> string + prepared_action" where
  "load_prepared_action f now db req =
     and_then (ok_or ''missing execution authority'' (aq_authorization req)) (\<lambda>auth.
       if xa_kind auth = Compensation
       then and_then (ok_or ''compensation has no original reroute'' (aq_rollback_of req)) (\<lambda>original.
            and_then (fetch f (QAuthority ''inverse'') (row_of db original)) (\<lambda>row.
            and_then (ok_or ''no rows returned'' row) (\<lambda>r.
            and_then (ok_or ''original reroute has no prepared inverse'' (rr_rollback_snapshot r)) (\<lambda>s.
            and_then (decode_inverse s) (\<lambda>iv.
              let prepared = inverse_action (aq_device_id req) (rr_template_id r)
                    (''inverse-of-'' @ show_word original) (rr_params r) iv now
              in and_then (map_err show_prepared_error (validate_prepared prepared)) (\<lambda>_. Inr prepared))))))
       else and_then (ok_or ''missing prepared sibling id'' (xa_snapshot_action_id auth)) (\<lambda>action.
            and_then (fetch f (QAuthority ''prepared'')
              (List.find (\<lambda>a. ba_id a = action) (db_bundle_actions db))) (\<lambda>row.
            and_then (ok_or ''no rows returned'' row) (\<lambda>a.
            and_then (ok_or ''unexpected null'' (ba_prepared a)) (\<lambda>decoded.
            and_then decoded (\<lambda>prepared.
            and_then (map_err show_prepared_error (validate_prepared prepared)) (\<lambda>_.
            and_then (ensure ''prepared device mismatch'' (pa_device_id prepared = aq_device_id req)) (\<lambda>_.
            and_then (ensure ''prepared template mismatch'' (pa_template_id prepared = tp_id (aq_template req))) (\<lambda>_.
              Inr prepared)))))))))"

end
