(* ===== verification/Executor.thy ===== *)
theory Executor
  imports Authorization
begin

text \<open>
  The whole of one execution, \<open>execute_with_inner\<close> of
  \<open>src/backend-rust/src/reroute/executor.rs\<close>: previews, authority, guard, reachability,
  reservation, the required records, the state machine and the cooldowns. The record
  \<open>environment\<close> holds what a call depends on: failing queries, clocks, configuration, the
  tables of the authorities, and as parameters the probe of the device, the inventory behind
  parameters, the paired rollback and the texts of errors. The foreground scope of the advisory
  locks around a call and the names of devices are left out.
\<close>

subsection \<open>Outcomes\<close>

record exec_outcome =
  eo_executed :: bool
  eo_reroute_id :: "u64 option"
  eo_state :: "string option"
  eo_effect :: "string option"
  eo_message :: string
  eo_blocked :: "string option"
  eo_would_run :: "rendered_plan option"
  eo_would_run_rollback :: "rendered_plan option"

record 's environment =
  en_faults :: faults
  en_clock :: clock
  en_now :: int
  en_tick :: int
  en_same :: "string \<Rightarrow> string \<Rightarrow> bool"
  en_rfc3339 :: "int \<Rightarrow> string"
  en_say :: "message \<Rightarrow> string"
  en_say_auth :: "auth_error \<Rightarrow> string"
  en_config :: safety_config
  en_enforce :: bool
  en_tables :: authority_tables
  en_oracles :: oracles
  en_probe :: "'s \<Rightarrow> ssh_reach \<times> 's"
  en_identity :: "u64 \<Rightarrow> string + transport_identity"
  en_canonical :: "u64 \<Rightarrow> template \<Rightarrow> json \<Rightarrow> string + json"
  en_rollback_plan :: "u64 \<Rightarrow> json \<Rightarrow> rendered_plan option"

definition effect_text :: "mutation_effect \<Rightarrow> string" where
  "effect_text e =
     (case e of EffectChanged \<Rightarrow> ''changed'' | EffectNoop \<Rightarrow> ''noop'' | EffectUnknown \<Rightarrow> ''unknown''
      | EffectPending \<Rightarrow> ''pending'')"

definition blocked :: "string \<Rightarrow> exec_outcome" where
  "blocked reason =
     \<lparr>eo_executed = False, eo_reroute_id = None, eo_state = None, eo_effect = None, eo_message = reason,
      eo_blocked = Some reason, eo_would_run = None, eo_would_run_rollback = None\<rparr>"

definition aborted :: "u64 \<Rightarrow> bool \<Rightarrow> string \<Rightarrow> exec_outcome" where
  "aborted rid persisted reason =
     \<lparr>eo_executed = False, eo_reroute_id = Some rid,
      eo_state = Some (if persisted then ''failed'' else ''uncertain''),
      eo_effect = Some (if persisted then ''noop'' else ''unknown''),
      eo_message = ''reroute aborted before command execution'', eo_blocked = Some reason,
      eo_would_run = None, eo_would_run_rollback = None\<rparr>"

subsection \<open>Reads before the gates\<close>

definition operating_mode :: "faults \<Rightarrow> string \<Rightarrow> bool \<Rightarrow> database \<Rightarrow> bool" where
  "operating_mode f phase default_enforce db =
     (case fetch f (QMode phase) (setting db ''operating_mode'') of
        Inl _ \<Rightarrow> False
      | Inr v \<Rightarrow> if v = Some ''enforce'' then True else if v = Some ''observe'' then False
                 else default_enforce)"

definition configuration_test_identity_matches ::
    "safety_config \<Rightarrow> (u64 \<Rightarrow> string + transport_identity) \<Rightarrow> u64 \<Rightarrow> bool" where
  "configuration_test_identity_matches cfg identity d =
     (case identity d of
        Inl _ \<Rightarrow> False
      | Inr actual \<Rightarrow>
          (case List.find (\<lambda>l. ld_device_id l = d) (cf_test_devices cfg) of
             None \<Rightarrow> True
           | Some l \<Rightarrow> ti_host actual = ld_host l \<and> ti_port actual = ld_port l \<and>
                       ti_pinned actual = ld_fingerprint l))"

definition preview ::
    "'s environment \<Rightarrow> action_request \<Rightarrow> bool \<Rightarrow> exec_outcome" where
  "preview env req dry_run =
     (case (if aq_trigger_type req \<noteq> ''rollback''
            then map_err (\<lambda>e. ''inventory validation failed: '' @ e)
                   (en_canonical env (aq_device_id req) (aq_template req) (aq_params req))
            else Inr (aq_params req)) of
        Inl e \<Rightarrow> blocked e
      | Inr params \<Rightarrow>
          (case render (aq_template req) params of
             Inl e \<Rightarrow> blocked (''invalid parameters: '' @ en_say env (OfRender e))
           | Inr plan \<Rightarrow>
               \<lparr>eo_executed = False, eo_reroute_id = None, eo_state = None, eo_effect = None,
                eo_message = (if dry_run then ''dry run: rendered plan only, nothing executed''
                              else ''observe mode blocks unattended execution''),
                eo_blocked = None, eo_would_run = Some plan,
                eo_would_run_rollback = en_rollback_plan env (tp_id (aq_template req)) params\<rparr>))"

definition execution_plan :: "prepared_action \<Rightarrow> rendered_plan" where
  "execution_plan a =
     \<lparr>rp_template_id = pa_template_id a, rp_template_name = pa_template_name a, rp_config_mode = False,
      rp_commands = pa_commands a, rp_verify = None, rp_sequence_pending = False\<rparr>"

text \<open>The gates from the policy fence to the guard: the reason of a refusal, or the request with the
  prepared parameters and the action to execute.\<close>

definition admit ::
    "'s environment \<Rightarrow> action_request \<Rightarrow> bool \<Rightarrow> database \<Rightarrow> string + action_request \<times> prepared_action" where
  "admit env req unattended db =
     (let f = en_faults env in
      and_then (map_err (\<lambda>e. ''execution policy fence unavailable: '' @ e) (fetch f QFence ())) (\<lambda>_.
      and_then (ensure ''operating mode changed to observe before execution''
        (\<not> unattended \<or> operating_mode f ''fenced'' (en_enforce env) db)) (\<lambda>_.
      and_then (ensure ''automatic actions are globally disabled''
        (\<not> unattended \<or> bool_setting f db ''automatic_actions_enabled'' (cf_automatic_enabled (en_config env)))) (\<lambda>_.
      and_then (map_err (\<lambda>e. ''execution authorization refused: '' @ en_say_auth env e)
        (validate_execution_authorization f (en_oracles env) (en_tables env) db req)) (\<lambda>_.
      and_then (map_err (\<lambda>e. ''prepared action snapshot refused: '' @ e)
        (load_prepared_action f (en_now env) db req)) (\<lambda>prepared.
      let req' = req\<lparr>aq_params := pa_canonical_params prepared\<rparr> in
      and_then (if pa_verification_mode prepared = ConfigurationOnly
                then and_then (ensure (''configuration-only verification cannot run through automatic '' @
                         ''authority, recovery, or rules'')
                       (configuration_only_authority_allowed unattended (aq_rule_id req'))) (\<lambda>_.
                     ensure ''configuration-only device identity changed before execution''
                       (configuration_test_identity_matches (en_config env) (en_identity env) (aq_device_id req')))
                else Inr ()) (\<lambda>_.
      and_then (map_err (show_block (en_rfc3339 env))
        (can_execute (en_same env) f (en_config env) (en_now env) db req' (execution_plan prepared))) (\<lambda>_.
        Inr (req', prepared)))))))))"

subsection \<open>Aborts and cooldowns\<close>

definition failed_row :: "int \<Rightarrow> string \<Rightarrow> reroute_row \<Rightarrow> reroute_row" where
  "failed_row now reason r =
     r\<lparr>rr_state := Failed, rr_finished_at := Some now, rr_success := Some False,
       rr_mutation_effect := EffectNoop, rr_failure_reason := Some reason\<rparr>"

definition abort_reserved ::
    "faults \<Rightarrow> clock \<Rightarrow> u64 \<Rightarrow> string \<Rightarrow> database \<Rightarrow> exec_outcome \<times> database" where
  "abort_reserved f clk rid reason db =
     (let (persisted, db') = checked_update f QAbort [] rid {Planned} (failed_row (clk QAbort) reason) db
      in (aborted rid (is_ok persisted) reason, db'))"

definition abort_run ::
    "faults \<Rightarrow> clock \<Rightarrow> action_request \<Rightarrow> u64 \<Rightarrow> string \<Rightarrow> database \<Rightarrow> exec_outcome \<times> database" where
  "abort_run f clk req rid e db =
     (let (persisted, db1) = checked_update f QAbort [] rid {Planned, Pending}
            (failed_row (clk QAbort) (''aborted before command execution: '' @ e)) db;
          db2 = (case f (QAudit ''reroute_aborted'') of
            Some _ \<Rightarrow> db1
          | None \<Rightarrow> record_audit (actor_of req) (aq_user_id req) ''reroute_aborted'' rid
              (''reroute #'' @ show_word rid @ '' aborted before SSH: '' @ e) db1)
      in (aborted rid (is_ok persisted) e, db2))"

text \<open>Every row is its own statement: the rows before a failure stay.\<close>

fun record_device_cooldowns ::
    "faults \<Rightarrow> clock \<Rightarrow> i64 \<Rightarrow> u64 list \<Rightarrow> u64 list \<Rightarrow> database \<Rightarrow> (string + unit) \<times> database" where
  "record_device_cooldowns f clk seconds seen [] db = (Inr (), db)"
| "record_device_cooldowns f clk seconds seen (d # ds) db =
     (if d \<in> set seen then record_device_cooldowns f clk seconds seen ds db
      else (case record_cooldown f (clk (QCooldownWrite ''device'' (show_word d))) ''device'' (show_word d) seconds ''post-action device cooldown'' db of
              Inl e \<Rightarrow> (Inl e, db)
            | Inr db' \<Rightarrow> record_device_cooldowns f clk seconds (d # seen) ds db'))"

definition record_cooldowns ::
    "faults \<Rightarrow> clock \<Rightarrow> safety_config \<Rightarrow> u64 option \<Rightarrow> u64 list \<Rightarrow> database \<Rightarrow> (string + unit) \<times> database" where
  "record_cooldowns f clk cfg rule_id devices db =
     (case record_device_cooldowns f clk (as_i64 (cf_device_cooldown cfg)) [] devices db of
        (Inl e, db1) \<Rightarrow> (Inl e, db1)
      | (Inr _, db1) \<Rightarrow>
          (case rule_id of
             None \<Rightarrow> (Inr (), db1)
           | Some rule \<Rightarrow>
               if devices = [] then (Inr (), db1)
               else (case record_cooldown f (clk (QCooldownWrite ''rule'' (show_word rule))) ''rule'' (show_word rule)
                            (as_i64 (cf_rule_cooldown cfg))
                            ''post-action rule cooldown'' db1 of
                       Inl e \<Rightarrow> (Inl e, db1)
                     | Inr db2 \<Rightarrow> (Inr (), db2))))"

subsection \<open>One execution\<close>

definition outcome_text :: "machine_result \<Rightarrow> string" where
  "outcome_text m =
     (case mr_state m of
        StateSucceeded \<Rightarrow>
          (case mr_note m of Some n \<Rightarrow> ''reroute verified - '' @ n
           | None \<Rightarrow> ''reroute executed and verified'')
      | StateFailed \<Rightarrow> ''reroute failed: verification did not confirm the change''
      | StateUncertain \<Rightarrow> ''reroute UNCERTAIN: device locked pending admin acknowledgement'')"

definition outcome_of :: "u64 \<Rightarrow> machine_result \<Rightarrow> exec_outcome" where
  "outcome_of rid m =
     (if mr_refused m
      then \<lparr>eo_executed = False, eo_reroute_id = Some rid, eo_state = Some (state_text (mr_state m)),
            eo_effect = Some (effect_text (mr_effect m)),
            eo_message = (case mr_note m of Some n \<Rightarrow> n
              | None \<Rightarrow> ''reroute refused after reading the device'' @ [CHR 0x27] @ ''s current state''),
            eo_blocked = mr_note m, eo_would_run = None, eo_would_run_rollback = None\<rparr>
      else \<lparr>eo_executed = (mr_effect m \<noteq> EffectNoop), eo_reroute_id = Some rid,
            eo_state = Some (state_text (mr_state m)), eo_effect = Some (effect_text (mr_effect m)),
            eo_message = outcome_text m, eo_blocked = None, eo_would_run = None,
            eo_would_run_rollback = None\<rparr>)"

text \<open>From the reservation on.\<close>

definition run_reserved ::
    "'s environment \<Rightarrow> 's ssh_executor \<Rightarrow> action_request \<Rightarrow> prepared_action \<Rightarrow> u64 \<Rightarrow>
     database \<times> successes \<Rightarrow> 's \<Rightarrow> exec_outcome \<times> (database \<times> successes) \<times> 's" where
  "run_reserved env ssh req prepared rid st s =
     (let f = en_faults env; clk = en_clock env; (db, cache) = st in
      case f (QAudit ''reroute_planned'') of
        Some e \<Rightarrow>
          (let (out, db') = abort_reserved f clk rid
                 (''required pre-action audit could not be persisted: '' @ e) db
           in (out, (db', cache), s))
      | None \<Rightarrow>
          (let db1 = record_audit (actor_of req) (aq_user_id req) ''reroute_planned'' rid
                 (''planned '' @ [CHR 0x27] @ tp_name (aq_template req) @ [CHR 0x27] @ '' on device '' @
                  show_word (aq_device_id req)) db in
           case f (QAlert ''reroute_started'') of
             Some e \<Rightarrow>
               (let (out, db') = abort_reserved f clk rid
                      (''required pre-action alert could not be persisted: '' @ e) db1
                in (out, (db', cache), s))
           | None \<Rightarrow>
               (let db2 = record_alert ''reroute_started'' ''info'' (Some (aq_device_id req))
                      (''reroute_started:reroute:'' @ show_word rid) db1 in
                case run_state_machine f clk (en_tick env) (en_say env) ssh
                       (cf_require_verification (en_config env)) req rid (execution_plan prepared)
                       (Some prepared) s (db2, cache) of
                  (Inl e, s', db3, cache') \<Rightarrow>
                    (let (out, db4) = abort_run f clk req rid e db3 in (out, (db4, cache'), s'))
                | (Inr m, s', db3, cache') \<Rightarrow>
                    (let db4 = (if aq_defer_cooldown req then db3
                           else snd (record_cooldowns f clk (en_config env) (aq_rule_id req)
                                  [aq_device_id req] db3))
                     in (outcome_of rid m, (db4, cache'), s')))))"

definition execute_with_inner ::
    "'s environment \<Rightarrow> 's ssh_executor \<Rightarrow> action_request \<Rightarrow> bool \<Rightarrow> database \<times> successes \<Rightarrow> 's \<Rightarrow>
     exec_outcome \<times> (database \<times> successes) \<times> 's" where
  "execute_with_inner env ssh req dry_run st s =
     (let f = en_faults env; db = fst st in
      if \<not> tp_enabled (aq_template req) then (blocked ''template is disabled'', st, s)
      else if aq_trigger_type req = ''automatic'' \<and> \<not> tp_automatic_allowed (aq_template req)
      then (blocked ''template is not allowed for automatic execution'', st, s)
      else
        let enforce = operating_mode f ''first'' (en_enforce env) db;
            unattended = authority_is_unattended f db (aq_authorization req)
        in if dry_run \<or> \<not> enforce \<and> unattended then (preview env req dry_run, st, s)
        else case admit env req unattended db of
          Inl reason \<Rightarrow> (blocked reason, st, s)
        | Inr (req', prepared) \<Rightarrow>
            (let (reach, st1, s1) = reachable_for_mitigation f (en_now env * NANOS)
                   (en_clock env QStamp * NANOS) (en_tick env) (en_probe env) (aq_device_id req') st s in
             if \<not> re_ssh_ok reach
             then (blocked (show_block (en_rfc3339 env) (DeviceUnreachable
                     (case re_ssh_error reach of Some e \<Rightarrow> e | None \<Rightarrow> ''no SSH response''))), st1, s1)
             else if aq_trigger_type req' = ''automatic'' \<and> \<not> re_stable reach
             then (blocked (show_block (en_rfc3339 env) DeviceStabilizing), st1, s1)
             else
               case reserve_and_persist f (en_config env) (en_now env) req' (execution_plan prepared) (fst st1) of
                 (Inl reason, db') \<Rightarrow> (blocked (show_block (en_rfc3339 env) reason), (db', snd st1), s1)
               | (Inr rid, db') \<Rightarrow> run_reserved env ssh req' prepared rid (db', snd st1) s1))"


subsection \<open>The cases of an execution\<close>

text \<open>An execution that stops before the reservation reports no reroute.\<close>

lemma blocked_fields [simp]: "eo_reroute_id (blocked r) = None" "eo_executed (blocked r) = False"
  by (simp_all add: blocked_def)

lemma preview_fields [simp]: "eo_reroute_id (preview env req d) = None" "eo_executed (preview env req d) = False"
  by (simp_all add: preview_def split: sum.split)

lemma aborted_fields [simp]: "eo_reroute_id (aborted rid p r) = Some rid" "eo_executed (aborted rid p r) = False"
  by (simp_all add: aborted_def)

lemma abort_outcomes [simp]:
  "eo_executed (fst (abort_reserved f clk rid e db)) = False"
  "eo_executed (fst (abort_run f clk req rid e db)) = False"
  by (simp_all add: abort_reserved_def abort_run_def Let_def split: prod.split)

text \<open>The gates that an action passes on its way to a reservation. A configuration-only verification is
  for an attended request of no rule, on a device whose transport identity is on record and, where the
  configuration pins a test device, is the pinned one.\<close>

definition test_identity_holds :: "'s environment \<Rightarrow> u64 \<Rightarrow> bool" where
  "test_identity_holds env d =
     (\<exists>actual. en_identity env d = Inr actual \<and>
        (case filter (\<lambda>l. ld_device_id l = d) (cf_test_devices (en_config env)) of
           [] \<Rightarrow> True
         | pinned # _ \<Rightarrow> ti_host actual = ld_host pinned \<and> ti_port actual = ld_port pinned \<and>
             ti_pinned actual = ld_fingerprint pinned))"

lemma find_first_match: "List.find P xs = (case filter P xs of [] \<Rightarrow> None | x # _ \<Rightarrow> Some x)"
  by (induction xs) auto

lemma test_identity_iff:
  "configuration_test_identity_matches (en_config env) (en_identity env) d = test_identity_holds env d"
  by (auto simp: configuration_test_identity_matches_def test_identity_holds_def find_first_match
      split: sum.split option.split list.split)

definition passed_gates ::
    "'s environment \<Rightarrow> action_request \<Rightarrow> database \<times> successes \<Rightarrow> 's \<Rightarrow> prepared_action \<Rightarrow> bool" where
  "passed_gates env req st s prepared =
     (let f = en_faults env; db = fst st;
          req' = req\<lparr>aq_params := pa_canonical_params prepared\<rparr>;
          reach = fst (reachable_for_mitigation f (en_now env * NANOS) (en_clock env QStamp * NANOS)
            (en_tick env) (en_probe env) (aq_device_id req) st s) in
      tp_enabled (aq_template req) \<and>
      (aq_trigger_type req = ''automatic'' \<longrightarrow> tp_automatic_allowed (aq_template req) \<and> re_stable reach) \<and>
      f QFence = None \<and>
      (authority_is_unattended f db (aq_authorization req) \<longrightarrow>
         operating_mode f ''first'' (en_enforce env) db \<and> operating_mode f ''fenced'' (en_enforce env) db \<and>
         bool_setting f db ''automatic_actions_enabled'' (cf_automatic_enabled (en_config env)) \<and>
         pa_verification_mode prepared \<noteq> ConfigurationOnly) \<and>
      (pa_verification_mode prepared = ConfigurationOnly \<longrightarrow>
         aq_rule_id req = None \<and> test_identity_holds env (aq_device_id req)) \<and>
      validate_execution_authorization f (en_oracles env) (en_tables env) db req = Inr () \<and>
      load_prepared_action f (en_now env) db req = Inr prepared \<and>
      can_execute (en_same env) f (en_config env) (en_now env) db req' (execution_plan prepared) = Inr () \<and>
      re_ssh_ok reach)"

definition reserved_as ::
    "'s environment \<Rightarrow> action_request \<Rightarrow> database \<times> successes \<Rightarrow> 's \<Rightarrow> prepared_action \<Rightarrow> u64 \<Rightarrow> bool" where
  "reserved_as env req st s prepared rid =
     (case reachable_for_mitigation (en_faults env) (en_now env * NANOS) (en_clock env QStamp * NANOS)
             (en_tick env) (en_probe env) (aq_device_id req) st s of
        (_, st1, _) \<Rightarrow>
          fst (reserve_and_persist (en_faults env) (en_config env) (en_now env)
                 (req\<lparr>aq_params := pa_canonical_params prepared\<rparr>) (execution_plan prepared) (fst st1)) = Inr rid)"

lemma admit_Inr:
  assumes "admit env req unattended db = Inr (req', prepared)"
  shows "req' = req\<lparr>aq_params := pa_canonical_params prepared\<rparr>"
    and "unattended \<longrightarrow> operating_mode (en_faults env) ''fenced'' (en_enforce env) db \<and>
      bool_setting (en_faults env) db ''automatic_actions_enabled'' (cf_automatic_enabled (en_config env)) \<and>
      pa_verification_mode prepared \<noteq> ConfigurationOnly"
    and "en_faults env QFence = None"
    and "pa_verification_mode prepared = ConfigurationOnly \<longrightarrow>
      aq_rule_id req = None \<and> test_identity_holds env (aq_device_id req)"
    and "validate_execution_authorization (en_faults env) (en_oracles env) (en_tables env) db req = Inr ()"
    and "load_prepared_action (en_faults env) (en_now env) db req = Inr prepared"
    and "can_execute (en_same env) (en_faults env) (en_config env) (en_now env) db req' (execution_plan prepared) = Inr ()"
  using assms
  by (auto simp: admit_def Let_def res_simps configuration_only_authority_allowed_def test_identity_iff
      fetch_Inr_iff split: if_splits)

lemma execution_cases:
  assumes "execute_with_inner env ssh req dry_run st s = (out, st', s')"
  obtains (stopped) "eo_reroute_id out = None" "eo_executed out = False"
      "s' = s \<or> s' = snd (snd (reachable_for_mitigation (en_faults env) (en_now env * NANOS)
        (en_clock env QStamp * NANOS) (en_tick env) (en_probe env) (aq_device_id req) st s))"
    | (ran) prepared reach st1 s1 rid db' where "\<not> dry_run" "passed_gates env req st s prepared"
      "reachable_for_mitigation (en_faults env) (en_now env * NANOS) (en_clock env QStamp * NANOS)
        (en_tick env) (en_probe env) (aq_device_id req) st s = (reach, st1, s1)"
      "reserve_and_persist (en_faults env) (en_config env) (en_now env)
        (req\<lparr>aq_params := pa_canonical_params prepared\<rparr>) (execution_plan prepared) (fst st1) = (Inr rid, db')"
      "run_reserved env ssh (req\<lparr>aq_params := pa_canonical_params prepared\<rparr>) prepared rid (db', snd st1) s1 =
        (out, st', s')"
proof -
  let ?db = "fst st"
  let ?reach = "reachable_for_mitigation (en_faults env) (en_now env * NANOS)
        (en_clock env QStamp * NANOS) (en_tick env) (en_probe env) (aq_device_id req) st s"
  let ?unattended = "authority_is_unattended (en_faults env) ?db (aq_authorization req)"
  consider (early) r where "out = blocked r \<or> out = preview env req dry_run" "s' = s"
    | (late) req' prepared where "\<not> dry_run" "tp_enabled (aq_template req)"
        "aq_trigger_type req = ''automatic'' \<longrightarrow> tp_automatic_allowed (aq_template req)"
        "admit env req ?unattended ?db = Inr (req', prepared)"
        "operating_mode (en_faults env) ''first'' (en_enforce env) ?db \<or> \<not> ?unattended"
    using assms unfolding execute_with_inner_def Let_def
    by (auto split: if_splits sum.splits)
  then show ?thesis
  proof cases
    case early
    with stopped show ?thesis by auto
  next
    case late
    note gates = admit_Inr [OF late(4)]
    obtain reach st1 s1 where reach: "?reach = (reach, st1, s1)" by (metis prod_cases3)
    have req': "aq_trigger_type req' = aq_trigger_type req" "aq_device_id req' = aq_device_id req"
      by (simp_all add: gates(1))
    show ?thesis
    proof (cases "re_ssh_ok reach \<and> (aq_trigger_type req = ''automatic'' \<longrightarrow> re_stable reach)")
      case False
      with assms late reach have "\<exists>r. out = blocked r" "s' = s1"
        by (auto simp: execute_with_inner_def Let_def req' split: if_splits)
      with stopped reach show ?thesis by auto
    next
      case True
      obtain r db' where r: "reserve_and_persist (en_faults env) (en_config env) (en_now env) req'
          (execution_plan prepared) (fst st1) = (r, db')" by fastforce
      show ?thesis
      proof (cases r)
        case (Inl e)
        with assms late reach r True have "\<exists>r. out = blocked r" "s' = s1"
          by (auto simp: execute_with_inner_def Let_def req' split: if_splits)
        with stopped reach show ?thesis by auto
      next
        case (Inr rid)
        with assms late reach r True
        have "run_reserved env ssh req' prepared rid (db', snd st1) s1 = (out, st', s')"
          by (auto simp: execute_with_inner_def Let_def req' split: if_splits)
        moreover have "passed_gates env req st s prepared"
          using late gates reach True by (simp add: passed_gates_def Let_def gates(1)) blast
        ultimately show ?thesis using ran late(1) reach r Inr gates(1) by blast
      qed
    qed
  qed
qed


lemma machine_error_quiet:
  "run_state_machine f clk tick say ssh required req rid plan prepared s (db, cache) = (Inl e, s', db', cache') \<Longrightarrow>
   s' = s"
  by (auto simp: run_state_machine_def Let_def split: sum.splits prod.splits option.splits)

lemma outcome_of_fields [simp]:
  "eo_executed (outcome_of rid m) = (\<not> mr_refused m \<and> mr_effect m \<noteq> EffectNoop)"
  "eo_reroute_id (outcome_of rid m) = Some rid"
  by (simp_all add: outcome_of_def)

lemma run_reserved_cases:
  assumes "run_reserved env ssh req prepared rid st s = (out, st', s')"
  obtains (aborted) "\<not> eo_executed out" "s' = s"
    | (ran) m db0 db' cache' where "run_state_machine (en_faults env) (en_clock env) (en_tick env) (en_say env) ssh
        (cf_require_verification (en_config env)) req rid (execution_plan prepared) (Some prepared) s
        (db0, snd st) = (Inr m, s', db', cache')" "out = outcome_of rid m"
proof -
  obtain db cache where st: "st = (db, cache)" by fastforce
  let ?db2 = "record_alert ''reroute_started'' ''info'' (Some (aq_device_id req))
      (''reroute_started:reroute:'' @ show_word rid) (record_audit (actor_of req) (aq_user_id req)
        ''reroute_planned'' rid (''planned '' @ [CHR 0x27] @ tp_name (aq_template req) @ [CHR 0x27] @
          '' on device '' @ show_word (aq_device_id req)) db)"
  obtain r s1 db3 cache' where run: "run_state_machine (en_faults env) (en_clock env) (en_tick env) (en_say env) ssh
        (cf_require_verification (en_config env)) req rid (execution_plan prepared) (Some prepared) s
        (?db2, cache) = (r, s1, db3, cache')" by (metis prod_cases4)
  consider (noaudit) e where "en_faults env (QAudit ''reroute_planned'') = Some e"
    | (noalert) e where "en_faults env (QAudit ''reroute_planned'') = None"
        "en_faults env (QAlert ''reroute_started'') = Some e"
    | (err) e where "en_faults env (QAudit ''reroute_planned'') = None"
        "en_faults env (QAlert ''reroute_started'') = None" "r = Inl e"
    | (ok) m where "en_faults env (QAudit ''reroute_planned'') = None"
        "en_faults env (QAlert ''reroute_started'') = None" "r = Inr m"
    by (metis not_None_eq sum.exhaust)
  then show ?thesis
  proof cases
    case noaudit
    with assms st abort_outcomes(1) have "\<not> eo_executed out" "s' = s"
      by (auto simp: run_reserved_def Let_def split: prod.splits) (metis abort_outcomes(1) fst_conv)
    with aborted show ?thesis .
  next
    case noalert
    with assms st have "\<not> eo_executed out" "s' = s"
      by (auto simp: run_reserved_def Let_def split: prod.splits) (metis abort_outcomes(1) fst_conv)
    with aborted show ?thesis .
  next
    case err
    with assms st run have "\<not> eo_executed out" "s' = s1"
      by (auto simp: run_reserved_def Let_def split: prod.splits) (metis abort_outcomes(2) fst_conv)
    with aborted run err machine_error_quiet show ?thesis by metis
  next
    case ok
    with assms st run have "out = outcome_of rid m" "s' = s1"
      by (auto simp: run_reserved_def Let_def)
    with that(2) run ok st show ?thesis by (metis snd_conv)
  qed
qed

lemma reach_quiet:
  "\<forall>s. cfg (snd (probe s)) = cfg s \<Longrightarrow> cfg (snd (snd (reachable_for_mitigation f now utc tick probe d st s))) = cfg s"
  by (auto simp: reachable_for_mitigation_def Let_def split: prod.splits ssh_reach.splits sum.splits)
    (metis snd_conv)+

text \<open>C1: the configuration of a router changes in an execution only after every gate: the execution is no
  preview, its template is enabled (and allowed, for an automatic trigger, on a router that is
  stable), the policy fence was taken, an unattended authority found enforce mode at both of its
  reads with automatic actions on and no configuration-only verification, a configuration-only
  action comes of no rule and meets a device whose transport identity is known and equals the pinned
  one of the test devices, the durable authority was validated, the prepared action loaded from it
  passed the guard, the router answered, the action was reserved as the reroute that the outcome
  names, and the outcome says that something was executed.\<close>

theorem configuration_needs_every_gate:
  assumes "\<forall>d. honest_line cfg (link d)" and "\<forall>s. cfg (snd (en_probe env s)) = cfg s"
    and "execute_with_inner env (locked_executor over link devices now) req dry_run st s = (out, st', s')"
    and "cfg s' \<noteq> cfg s"
  shows "\<not> dry_run \<and> eo_executed out \<and>
    (\<exists>prepared rid. passed_gates env req st s prepared \<and> eo_reroute_id out = Some rid \<and>
       reserved_as env req st s prepared rid)"
  using assms(3)
proof (cases rule: execution_cases)
  case stopped
  with reach_quiet [OF assms(2)] assms(4) show ?thesis by metis
next
  case (ran prepared reach st1 s1 rid db')
  note reach = ran(3) and reserve = ran(4)
  have s1: "cfg s1 = cfg s" using reach_quiet [OF assms(2)] ran(3) by (metis snd_conv)
  from ran(5) show ?thesis
  proof (cases rule: run_reserved_cases)
    case aborted
    with s1 assms(4) show ?thesis by simp
  next
    case (ran m db0 db1 cache1)
    have "\<not> (mr_refused m \<or> mr_effect m = EffectNoop)"
    proof
      assume "mr_refused m \<or> mr_effect m = EffectNoop"
      from locked.noop_quiet [OF ran(1) this, of cfg] assms(1) have "cfg s' = cfg s1"
        by (simp add: observed_eq)
      with s1 assms(4) show False by simp
    qed
    moreover from reach reserve have "reserved_as env req st s prepared rid" by (simp add: reserved_as_def)
    ultimately show ?thesis using ran(2) \<open>\<not> dry_run\<close> \<open>passed_gates env req st s prepared\<close> by auto
  qed
qed


text \<open>C33: a preview, asked for or forced on an unattended authority by observe mode, runs nothing: the
  database, the cached successes and every router are as they were, and no reroute is reserved.\<close>

theorem preview_changes_nothing:
  assumes "dry_run \<or> \<not> operating_mode (en_faults env) ''first'' (en_enforce env) (fst st) \<and>
      authority_is_unattended (en_faults env) (fst st) (aq_authorization req)"
  shows "\<exists>out. execute_with_inner env ssh req dry_run st s = (out, st, s) \<and>
    \<not> eo_executed out \<and> eo_reroute_id out = None"
  using assms by (auto simp: execute_with_inner_def Let_def)

lemma holds_iff [res_simps]: "holds p v \<longleftrightarrow> (\<exists>x. v = Some x \<and> p x)"
  by (simp add: holds_def split: option.split)

lemma ask_Inr [res_simps]: "ask f q v = Inr x \<longleftrightarrow> f (QAuthority q) = None \<and> x = v"
  by (auto simp: ask_def res_simps fetch_Inr_iff)

text \<open>C16: whatever authority lets an action reverse another, the reversed reroute is on record as a change
  of the router, and none but a compensation runs while the reroute has an inverse that is planned,
  under way or done.\<close>

theorem reversal_is_owned:
  assumes "validate_execution_authorization f ora at db req = Inr ()" and "aq_trigger_type req = ''rollback''"
  shows "\<exists>auth original r. aq_authorization req = Some auth \<and> aq_rollback_of req = Some original \<and>
    row_of db original = Some r \<and> rr_mutation_effect r = EffectChanged \<and>
    (xa_kind auth = Compensation \<or> \<not> live_inverse db original)"
proof -
  from assms(1) obtain auth where auth: "aq_authorization req = Some auth"
    and kind: "authorize_kind f ora at db req auth = Inr ()"
    by (auto simp: validate_execution_authorization_def res_simps)
  from kind assms(2) have "\<exists>original r. aq_rollback_of req = Some original \<and>
      row_of db original = Some r \<and> rr_mutation_effect r = EffectChanged \<and>
      (xa_kind auth = Compensation \<or> \<not> live_inverse db original)"
    by (cases "xa_kind auth"; simp add: authorize_kind_def)
      (auto simp: authorize_manual_def authorize_manual_bundle_def authorize_automatic_def
        authorize_compensation_def authorize_recovery_def authorize_manual_recovery_def recovery_owned_def
        manual_recovery_owned_def invertible_def res_simps split: if_splits option.splits)
  with auth show ?thesis by blast
qed

subsection \<open>A run that shuts an interface down\<close>

definition gi_text :: "nat \<Rightarrow> string" where
  "gi_text s = (if s = 0 then ''interface Gi0/1'' @ [newline] @ '' no shutdown'' @ [newline] @ ''R#'' else shut_text)"

definition gi_line :: "nat line" where
  "gi_line = \<lparr>ln_late = (\<lambda>s. False), ln_send = (\<lambda>c s.
     (let s' = (if c = ''shutdown'' then 1 else s) in (Inr [(Data (gi_text s'), False)], s')))\<rparr>"

definition shutting_action :: prepared_action where
  "shutting_action = \<lparr>pa_schema_version = 1, pa_device_id = 7, pa_template_id = 4, pa_template_name = ''iface_shutdown'',
     pa_canonical_params = JNull, pa_verification_mode = Routing,
     pa_commands = [''configure terminal'', ''interface Gi0/1'', ''shutdown'', ''end''],
     pa_before = [InterfaceAdmin ''Gi0/1'' False], pa_after = [InterfaceAdmin ''Gi0/1'' True],
     pa_verify = [InterfaceAdmin ''Gi0/1'' True], pa_effect = ChangeEffect, pa_inverse = None,
     pa_prepared_at = 0\<rparr>"

definition manual_request :: action_request where
  "manual_request = uplink_request\<lparr>aq_trigger_type := ''manual'', aq_rule_id := None, aq_user_id := Some 5,
     aq_authorization := Some \<lparr>xa_kind = Manual, xa_plan_id = Some 9, xa_bundle_id = None,
       xa_owner_token = ''aa'', xa_snapshot_action_id = Some 3\<rparr>\<rparr>"

definition manual_database :: database where
  "manual_database = empty_database\<lparr>db_bundle_actions := [\<lparr>ba_id = 3, ba_bundle_id = 2, ba_position = 0, ba_device_id = 7,
     ba_verification_mode = None, ba_template_snapshot = JNull, ba_rollback_snapshot = None,
     ba_prepared = Some (Inr shutting_action), ba_state = ''planned'', ba_mutation_effect = EffectPending,
     ba_reroute_id = None, ba_original_reroute_id = None\<rparr>]\<rparr>"

definition manual_tables :: authority_tables where
  "manual_tables = \<lparr>at_plans = [\<lparr>ep_id = 9, ep_user_id = 5, ep_consumed_at = Some 90, ep_expires_at = 100,
     ep_bundle_id = None, ep_snapshot = JNull\<rparr>], at_rules = [], at_admissions = [], at_attempts = [],
     at_templates = [uplink_template]\<rparr>"

definition manual_environment :: "nat environment" where
  "manual_environment = \<lparr>en_faults = no_faults, en_clock = (\<lambda>_. 100), en_now = 100, en_tick = 0, en_same = (=),
     en_rfc3339 = (\<lambda>_. []), en_say = (\<lambda>_. []), en_say_auth = (\<lambda>_. []), en_config = sample_config,
     en_enforce = False, en_tables = manual_tables,
     en_oracles = \<lparr>or_cast = (\<lambda>_. None), or_contained = (\<lambda>_ _. True), or_flow_qualified = (\<lambda>_. Inr False),
       or_recovery_qualified = (\<lambda>_. Inr False)\<rparr>,
     en_probe = (\<lambda>s. (Privileged, s)), en_identity = (\<lambda>_. Inl []), en_canonical = (\<lambda>_ _. Inr),
     en_rollback_plan = (\<lambda>_ _. None)\<rparr>"

definition manual_run :: "exec_outcome \<times> (database \<times> successes) \<times> nat" where
  "manual_run = execute_with_inner manual_environment (locked_executor (\<lambda>_. False) (\<lambda>_. gi_line) rejected_devices 0)
     manual_request False (manual_database, Map.empty) 0"

lemma manual_run_executes:
  "case manual_run of (out, _, s') \<Rightarrow> eo_executed out \<and> eo_reroute_id out = Some 1 \<and> s' = 1"
  by code_simp

lemma gi_line_honest: "honest_line id gi_line"
proof -
  have reply: "ios_command_error (clean_output (gi_text 1) ''shutdown'') = None" by code_simp
  have change: "command_may_change_state ''shutdown''" by code_simp
  have raw: "read_until p [] [(Data t, False)] = Inr raw \<Longrightarrow> raw = t" for p t raw
    by (auto split: if_splits)
  show ?thesis
    unfolding honest_line_def gi_line_def
    using reply change by (auto simp: Let_def dest!: raw)
qed

theorem configuration_needs_every_gate_witness:
  "\<exists>out st' prepared rid. manual_run = (out, st', 1) \<and> eo_executed out \<and> eo_reroute_id out = Some rid \<and>
     passed_gates manual_environment manual_request (manual_database, Map.empty) 0 prepared \<and>
     reserved_as manual_environment manual_request (manual_database, Map.empty) 0 prepared rid"
proof -
  obtain out st' where run: "manual_run = (out, st', 1)"
    using manual_run_executes by (cases manual_run) (auto split: prod.splits)
  have "\<forall>d :: u64. honest_line id gi_line" "\<forall>s. id (snd (en_probe manual_environment s)) = id s"
    by (simp_all add: gi_line_honest manual_environment_def)
  moreover have "id (1 :: nat) \<noteq> id 0" by simp
  ultimately show ?thesis using configuration_needs_every_gate [OF _ _ run [unfolded manual_run_def]] run by blast
qed

theorem preview_changes_nothing_witness:
  "\<exists>out. execute_with_inner manual_environment
       (locked_executor (\<lambda>_. False) (\<lambda>_. gi_line) rejected_devices 0) uplink_request False (manual_database, Map.empty) 4 =
     (out, (manual_database, Map.empty), 4) \<and> \<not> eo_executed out \<and> eo_reroute_id out = None"
proof -
  have "\<not> operating_mode (en_faults manual_environment) ''first'' (en_enforce manual_environment)
      (fst (manual_database, Map.empty :: successes)) \<and>
    authority_is_unattended (en_faults manual_environment) (fst (manual_database, Map.empty :: successes))
      (aq_authorization uplink_request)"
    by (simp add: operating_mode_def manual_environment_def no_faults_def fetch_def setting_def
      manual_database_def empty_database_def authority_is_unattended_def uplink_request_def)
  from preview_changes_nothing [OF disjI2, OF this] show ?thesis .
qed

definition compensation_request :: action_request where
  "compensation_request = uplink_request\<lparr>aq_trigger_type := ''rollback'', aq_rollback_of := Some 1,
     aq_authorization := Some \<lparr>xa_kind = Compensation, xa_plan_id = None, xa_bundle_id = Some 2,
       xa_owner_token = ''aa'', xa_snapshot_action_id = None\<rparr>\<rparr>"

definition changed_database :: database where
  "changed_database = empty_database\<lparr>db_reroutes :=
     [planned_row\<lparr>rr_state := Succeeded, rr_bundle_id := Some 2, rr_mutation_effect := EffectChanged\<rparr>]\<rparr>"

theorem reversal_is_owned_witness:
  "validate_execution_authorization no_faults (en_oracles manual_environment) manual_tables changed_database
     compensation_request = Inr () \<and>
   (\<exists>original r. aq_rollback_of compensation_request = Some original \<and>
      row_of changed_database original = Some r \<and> rr_mutation_effect r = EffectChanged)"
proof -
  have ok: "validate_execution_authorization no_faults (en_oracles manual_environment) manual_tables changed_database
     compensation_request = Inr ()" by code_simp
  have "aq_trigger_type compensation_request = ''rollback''" by (simp add: compensation_request_def)
  from reversal_is_owned [OF ok this] ok show ?thesis by blast
qed

end
