(* ===== verification/Startup.thy ===== *)
theory Startup
  imports Outcomes
begin

text \<open>
  \<open>src/backend-rust/src/reroute/state_machine.rs\<close>: the recovery of reroutes that a crash left in
  flight, and the reconciliation that resolves an uncertain reroute from exact evidence. The
  read-only comparison of snapshots with the live device is the parameter \<open>matches\<close>; the
  completion of a recovery child belongs to the recovery component and is left out.
\<close>

subsection \<open>Recovery at startup\<close>

definition in_flight_states :: "reroute_state set" where
  "in_flight_states = {Planned, Pending, Running, Verifying}"

definition crashed_row :: "int \<Rightarrow> reroute_row \<Rightarrow> reroute_row" where
  "crashed_row now r =
     r\<lparr>rr_state := Uncertain, rr_finished_at := Some now, rr_mutation_effect := EffectUnknown,
       rr_failure_reason := Some ''controller restarted mid-action; outcome unverified''\<rparr>"

definition recover_one ::
    "faults \<Rightarrow> clock \<Rightarrow> u64 \<times> u64 option \<Rightarrow> database \<Rightarrow> string + database" where
  "recover_one f clk =
     (\<lambda>(rid, dev) db.
      and_then (fetch f QBegin ()) (\<lambda>_.
      and_then (fetch f QUpdate ()) (\<lambda>_.
      and_then (ensure ''in-flight state changed during recovery''
        (rows_affected (at_state rid in_flight_states) (db_reroutes db) = 1)) (\<lambda>_.
      and_then (let db1 = write_reroute rid in_flight_states (crashed_row (clk (QRecover rid QUpdate))) db in
                case dev of
                  None \<Rightarrow> Inr db1
                | Some d \<Rightarrow>
                    and_then (create_lock f ''device'' (Some (show_word d)) (Some rid) ''auto_crash''
                      (''reroute #'' @ show_word rid @ '' was in-flight at restart; outcome unknown'') None db1)
                      (\<lambda>(_, db2). Inr db2)) (\<lambda>db2.
      and_then (fetch f (QAlert ''reroute_uncertain'') ()) (\<lambda>_.
      and_then (fetch f (QAudit ''reroute_uncertain'') ()) (\<lambda>_.
      and_then (fetch f QCommit ()) (\<lambda>_.
        Inr (record_audit ''system'' None ''reroute_uncertain'' rid ''marked uncertain on startup recovery''
              (record_alert ''reroute_uncertain'' ''critical'' dev
                 (''reroute_uncertain:reroute:'' @ show_word rid) db2))))))))))"

fun recover_each ::
    "faults \<Rightarrow> clock \<Rightarrow> (u64 \<times> u64 option) list \<Rightarrow> database \<Rightarrow> nat \<times> database" where
  "recover_each f clk [] db = (0, db)"
| "recover_each f clk (r # rs) db =
     (case recover_one (within (QRecover (fst r)) f) clk r db of
        Inl _ \<Rightarrow> (let (n, db') = recover_each f clk rs db in (Suc n, db'))
      | Inr db1 \<Rightarrow> recover_each f clk rs db1)"

definition stuck_rows :: "database \<Rightarrow> (u64 \<times> u64 option) list" where
  "stuck_rows db =
     map (\<lambda>r. (rr_id r, rr_device_id r)) (filter (\<lambda>r. rr_state r \<in> in_flight_states) (db_reroutes db))"

definition recover_on_startup :: "faults \<Rightarrow> clock \<Rightarrow> database \<Rightarrow> (string + unit) \<times> database" where
  "recover_on_startup f clk db =
     (case fetch f QStuck (stuck_rows db) of
        Inl e \<Rightarrow> (Inl (''loading in-flight reroutes: '' @ e), db)
      | Inr stuck \<Rightarrow>
          (let (failures, db1) = recover_each f clk stuck db in
           if 0 < failures
           then (Inl (''startup recovery incomplete: '' @ show_nat failures @
                   '' persistence write(s) failed; refusing to start while crashed reroutes may be unrecovered''),
                 case f (QAlert ''recovery_degraded'') of
                   Some _ \<Rightarrow> db1
                 | None \<Rightarrow> record_alert ''recovery_degraded'' ''critical'' None ''recovery_degraded'' db1)
           else (Inr (), db1)))"

subsection \<open>Reconciliation\<close>

datatype reconciliation = ReconciledChanged | NotApplied | Conflict

datatype reconcile_failure =
    RerouteNotFound
  | NotEligible
  | NoDevice
  | MissingSnapshot
  | BadSnapshot string
  | EmptyEvidence
  | EvidenceRead string
  | ReconcileQuery string
  | ChangedMeanwhile

definition evidence_result :: "bool \<Rightarrow> bool \<Rightarrow> bool \<Rightarrow> reconciliation" where
  "evidence_result matches_after matches_before same =
     (if matches_after \<and> \<not> same then ReconciledChanged
      else if matches_before then NotApplied
      else Conflict)"

definition reconcilable :: "reroute_state \<Rightarrow> mutation_effect \<Rightarrow> u64 option \<Rightarrow> bool" where
  "reconcilable st effect rollback_of \<longleftrightarrow>
     st = Uncertain \<or> st = Failed \<and> rollback_of \<noteq> None \<and> effect = EffectChanged"

definition snapshot_of :: "(string + device_state list) option \<Rightarrow> reconcile_failure + device_state list" where
  "snapshot_of stored = and_then (ok_or MissingSnapshot stored) (map_err BadSnapshot)"

text \<open>The evidence: what the two snapshots of an eligible row say of the device now.\<close>

definition evidence_row ::
    "faults \<Rightarrow> database \<Rightarrow> u64 \<Rightarrow> reconcile_failure + reroute_row \<times> u64 \<times> device_state list \<times> device_state list" where
  "evidence_row f db rid =
     and_then (map_err ReconcileQuery (fetch f QHistory (row_of db rid))) (\<lambda>row.
     and_then (ok_or RerouteNotFound row) (\<lambda>r.
     and_then (ensure NotEligible (reconcilable (rr_state r) (rr_mutation_effect r) (rr_rollback_of r))) (\<lambda>_.
     and_then (ok_or NoDevice (rr_device_id r)) (\<lambda>dev.
     and_then (snapshot_of (rr_prior_state r)) (\<lambda>before.
     and_then (snapshot_of (rr_after_state r)) (\<lambda>after.
     and_then (ensure EmptyEvidence (before \<noteq> [] \<and> after \<noteq> [])) (\<lambda>_.
       Inr (r, dev, before, after))))))))"

definition gather_evidence ::
    "faults \<Rightarrow> (u64 \<Rightarrow> device_state list \<Rightarrow> 's \<Rightarrow> (string + bool) \<times> 's) \<Rightarrow> database \<Rightarrow> u64 \<Rightarrow> 's \<Rightarrow>
     (reconcile_failure + reroute_row \<times> reconciliation) \<times> 's" where
  "gather_evidence f matches db rid s =
     (case evidence_row f db rid of
        Inl e \<Rightarrow> (Inl e, s)
      | Inr (r, dev, before, after) \<Rightarrow>
          (case matches dev after s of
             (Inl e, s1) \<Rightarrow> (Inl (EvidenceRead e), s1)
           | (Inr now_after, s1) \<Rightarrow>
               (if before = after then (Inr (r, evidence_result now_after now_after True), s1)
                else case matches dev before s1 of
                  (Inl e, s2) \<Rightarrow> (Inl (EvidenceRead e), s2)
                | (Inr now_before, s2) \<Rightarrow> (Inr (r, evidence_result now_after now_before False), s2))))"

definition reconciled_row :: "reconciliation \<Rightarrow> string \<Rightarrow> reroute_row \<Rightarrow> reroute_row" where
  "reconciled_row res remark r =
     (let reason = (\<lambda>text. Some ((case rr_failure_reason r of Some t \<Rightarrow> t | None \<Rightarrow> []) @ text @ remark)) in
      case res of
        ReconciledChanged \<Rightarrow>
          r\<lparr>rr_state := Succeeded, rr_success := Some True, rr_verification_status := Some ''reconciled_after'',
            rr_mutation_effect := EffectChanged, rr_failure_reason := reason '' | reconciled exact after-state: ''\<rparr>
      | NotApplied \<Rightarrow>
          r\<lparr>rr_state := Failed, rr_success := Some False, rr_verification_status := Some ''reconciled_before'',
            rr_mutation_effect := EffectNoop, rr_failure_reason := reason '' | reconciled exact before-state: ''\<rparr>
      | Conflict \<Rightarrow> r)"

definition reconciled_action :: "reconciliation \<Rightarrow> bundle_action_row \<Rightarrow> bundle_action_row" where
  "reconciled_action res a =
     (case res of
        ReconciledChanged \<Rightarrow> a\<lparr>ba_state := ''succeeded'', ba_mutation_effect := EffectChanged\<rparr>
      | NotApplied \<Rightarrow> a\<lparr>ba_state := ''noop'', ba_mutation_effect := EffectNoop\<rparr>
      | Conflict \<Rightarrow> a)"

definition show_reconciliation :: "reconciliation \<Rightarrow> string" where
  "show_reconciliation res =
     (case res of ReconciledChanged \<Rightarrow> ''Changed'' | NotApplied \<Rightarrow> ''NotApplied'' | Conflict \<Rightarrow> ''Conflict'')"

text \<open>The rows that the \<open>UPDATE\<close>s and the lock release of a resolved reroute hit.\<close>

definition unresolved :: "u64 \<Rightarrow> reroute_row \<Rightarrow> bool" where
  "unresolved rid r =
     (rr_id r = rid \<and> (rr_state r = Uncertain \<or> rr_state r = Failed \<and> rr_mutation_effect r = EffectChanged))"

definition automatic_lock :: "u64 \<Rightarrow> lock_row \<Rightarrow> bool" where
  "automatic_lock rid l =
     (lk_reroute_id l = Some rid \<and> lk_cleared_at l = None \<and> lk_kind l \<in> {''auto_crash'', ''auto_uncertain''})"

definition resolve_rows ::
    "int \<Rightarrow> reconciliation \<Rightarrow> u64 \<Rightarrow> u64 \<Rightarrow> string \<Rightarrow> database \<Rightarrow> database" where
  "resolve_rows now res rid actor remark db =
     (let audited = record_audit ''user'' (Some actor) ''reroute_reconciled'' rid
            (''reconciliation result '' @ show_reconciliation res @ '': '' @ remark) db in
      if res = Conflict then audited
      else audited\<lparr>db_reroutes := update_rows (unresolved rid) (reconciled_row res remark) (db_reroutes audited),
             db_bundle_actions := update_rows (\<lambda>a. ba_reroute_id a = Some rid) (reconciled_action res)
               (db_bundle_actions audited),
             db_locks := update_rows (automatic_lock rid)
               (\<lambda>l. l\<lparr>lk_cleared_at := Some now, lk_cleared_by := Some actor\<rparr>) (db_locks audited)\<rparr>)"

definition reversed :: "database \<Rightarrow> reroute_row \<Rightarrow> bool" where
  "reversed db original =
     list_ex (\<lambda>inverse. rr_rollback_of inverse = Some (rr_id original) \<and> rr_state inverse = Succeeded \<and>
       rr_mutation_effect inverse \<in> {EffectChanged, EffectNoop}) (db_reroutes db)"

text \<open>The actions of a bundle that still own a change of a router.\<close>

definition owned_originals :: "database \<Rightarrow> u64 \<Rightarrow> u64 list" where
  "owned_originals db bundle =
     map rr_id (filter (\<lambda>r. rr_rollback_of r = None \<and>
       (rr_bundle_id r = Some bundle \<or>
        list_ex (\<lambda>a. ba_bundle_id a = bundle \<and> ba_original_reroute_id a = Some (rr_id r)) (db_bundle_actions db)) \<and>
       rr_mutation_effect r \<in> {EffectChanged, EffectUnknown} \<and> \<not> reversed db r) (db_reroutes db))"

definition release_settled_bundle :: "int \<Rightarrow> u64 \<Rightarrow> database \<Rightarrow> database" where
  "release_settled_bundle now bundle db =
     (let mapped = count (\<lambda>a. rs_child a = bundle) (db_recovery_sources db);
          unknown = count (\<lambda>r. rr_bundle_id r = Some bundle \<and>
            (rr_state r = Uncertain \<or> rr_mutation_effect r = EffectUnknown)) (db_reroutes db)
      in if unknown = 0 \<and> owned_originals db bundle = [] \<and> mapped = 0
         then db\<lparr>db_windows := filter (\<lambda>w. cw_bundle_id w \<noteq> Some bundle) (db_windows db),
                 db_window_sources := filter (\<lambda>(_, src). src \<noteq> bundle) (db_window_sources db),
                 db_bundles := update_rows (\<lambda>b. bn_id b = bundle \<and> bn_state b = BundleCompensationBlocked)
                   (\<lambda>b. b\<lparr>bn_state := BundleCompensated, bn_finished_at := Some now\<rparr>) (db_bundles db)\<rparr>
         else db)"

definition release_windows :: "int \<Rightarrow> reconciliation \<Rightarrow> reroute_row \<Rightarrow> database \<Rightarrow> database" where
  "release_windows now res r db =
     (case rr_bundle_id r of
        Some bundle \<Rightarrow> release_settled_bundle now bundle db
      | None \<Rightarrow>
          if res = NotApplied
          then db\<lparr>db_windows := filter (\<lambda>w. cw_reroute_id w \<noteq> Some (rr_id r)) (db_windows db)\<rparr>
          else db)"

text \<open>The transaction: its queries share one fault, since none of them is kept unless all are.\<close>

definition reconcile_uncertain ::
    "faults \<Rightarrow> (u64 \<Rightarrow> device_state list \<Rightarrow> 's \<Rightarrow> (string + bool) \<times> 's) \<Rightarrow> int \<Rightarrow> u64 \<Rightarrow> u64 \<Rightarrow> string \<Rightarrow>
     's \<Rightarrow> database \<Rightarrow> (reconcile_failure + reconciliation) \<times> 's \<times> database" where
  "reconcile_uncertain f matches now rid actor remark s db =
     (case gather_evidence f matches db rid s of
        (Inl e, s') \<Rightarrow> (Inl e, s', db)
      | (Inr (r, res), s') \<Rightarrow>
          (case and_then (map_err ReconcileQuery (fetch f (QReconcile QBegin) (row_of db rid))) (\<lambda>locked.
                and_then (ensure ChangedMeanwhile (case locked of None \<Rightarrow> False
                  | Some l \<Rightarrow> reconcilable (rr_state l) (rr_mutation_effect l) (rr_rollback_of r))) (\<lambda>_.
                and_then (map_err ReconcileQuery (fetch f (QReconcile QUpdate) ())) (\<lambda>_.
                and_then (map_err ReconcileQuery (fetch f (QReconcile QCommit) ())) (\<lambda>_.
                  Inr (release_windows now res r (resolve_rows now res rid actor remark db)))))) of
             Inl e \<Rightarrow> (Inl e, s', db)
           | Inr db' \<Rightarrow> (Inr res, s', db')))"

subsection \<open>Recovering one row\<close>

lemma row_of_others: "rid' \<noteq> rid \<Longrightarrow> row_of db rid' = List.find (\<lambda>r. rr_id r = rid') (others rid db)"
proof -
  assume "rid' \<noteq> rid"
  then have "List.find (\<lambda>r. rr_id r = rid') rows = List.find (\<lambda>r. rr_id r = rid') (filter (\<lambda>r. rr_id r \<noteq> rid) rows)" for rows
    by (induction rows) auto
  then show ?thesis by (simp add: row_of_def others_def)
qed

lemma tracks_other_row: "tracks rid db db' \<Longrightarrow> rid' \<noteq> rid \<Longrightarrow> row_of db' rid' = row_of db rid'"
  by (simp add: row_of_others tracks_def)

definition recovered :: "u64 \<Rightarrow> u64 option \<Rightarrow> database \<Rightarrow> bool" where
  "recovered rid dev db =
     (\<exists>r. row_of db rid = Some r \<and> rr_state r = Uncertain \<and> rr_mutation_effect r = EffectUnknown \<and>
        (case dev of None \<Rightarrow> True | Some d \<Rightarrow> quarantined rid d db))"

definition keeps_locks :: "database \<Rightarrow> database \<Rightarrow> bool" where
  "keeps_locks db db' = (set (db_locks db) \<subseteq> set (db_locks db'))"

lemma keeps_quarantine: "keeps_locks db db' \<Longrightarrow> quarantined rid d db \<Longrightarrow> quarantined rid d db'"
  by (auto simp: keeps_locks_def quarantined_def list_ex_iff)

lemma crashed_row_fields [simp]:
  "rr_id (crashed_row now r) = rr_id r" "rr_device_id (crashed_row now r) = rr_device_id r"
  "rr_state (crashed_row now r) = Uncertain" "rr_mutation_effect (crashed_row now r) = EffectUnknown"
  by (simp_all add: crashed_row_def)

lemma recover_one_Inr:
  assumes "recover_one f clk (rid, dev) db = Inr db'" "reroutes_ok db"
  shows "tracks rid db db' \<and> recovered rid dev db' \<and> keeps_locks db db'"
proof -
  let ?db1 = "write_reroute rid in_flight_states (crashed_row (clk (QRecover rid QUpdate))) db"
  from assms(1) have n: "rows_affected (at_state rid in_flight_states) (db_reroutes db) = 1"
    by (auto simp: recover_one_def and_then_Inr_iff ensure_Inr_iff)
  from affected_row [OF assms(2) n] obtain r where r: "row_of db rid = Some r" "rr_state r \<in> in_flight_states" .
  from assms(1) have rows: "db_reroutes db' = db_reroutes ?db1"
    by (auto simp: recover_one_def Let_def and_then_Inr_iff create_lock_def fetch_Inr_iff trail split: option.splits)
  from assms(1) have locks: "keeps_locks db db'" "\<And>d. dev = Some d \<Longrightarrow> quarantined rid d db'"
    by (auto simp: recover_one_def Let_def and_then_Inr_iff create_lock_def fetch_Inr_iff trail keeps_locks_def
        insert_lock_def quarantined_def lock_applies_def write_reroute_def split: option.splits)
  have "row_of db' rid = Some (crashed_row (clk (QRecover rid QUpdate)) r)"
    using r by (simp add: row_of_rows [OF rows] row_of_write)
  with locks show ?thesis
    using tracks_trans [OF tracks_write tracks_rows [OF rows]]
    by (auto simp: recovered_def split: option.split)
qed

lemma recover_each_spec:
  "recover_each f clk rs db = (n, db') \<Longrightarrow> distinct (map fst rs) \<Longrightarrow> reroutes_ok db \<Longrightarrow>
   reroutes_ok db' \<and> keeps_locks db db' \<and>
   (\<forall>rid. rid \<notin> fst ` set rs \<longrightarrow> row_of db' rid = row_of db rid) \<and>
   (\<forall>(rid, dev) \<in> set rs. recovered rid dev db' \<or> 0 < n \<and> row_of db' rid = row_of db rid)"
proof (induction rs arbitrary: n db)
  case (Cons r rs)
  obtain rid dev where r: "r = (rid, dev)" by fastforce
  show ?case
  proof (cases "recover_one (within (QRecover rid) f) clk r db")
    case (Inl e)
    with Cons.prems(1) r obtain k where k: "recover_each f clk rs db = (k, db')" "n = Suc k"
      by (auto simp: Let_def split: prod.splits)
    from Cons.IH [OF k(1)] Cons.prems(2,3) show ?thesis by (auto simp: r k(2))
  next
    case (Inr db1)
    with r Cons.prems(3) have one: "tracks rid db db1" "recovered rid dev db1" "keeps_locks db db1"
      using recover_one_Inr by blast+
    from Inr Cons.prems(1) r have rest: "recover_each f clk rs db1 = (n, db')" by simp
    from one(1) Cons.prems(3) have ok: "reroutes_ok db1" by (simp add: tracks_ok)
    note ih = Cons.IH [OF rest _ ok]
    from Cons.prems(2) r have fresh: "rid \<notin> fst ` set rs" "distinct (map fst rs)" by simp_all
    with ih have here: "row_of db' rid = row_of db1 rid" by blast
    have rec: "recovered rid dev db'"
      using one(2) here ih [OF fresh(2)] keeps_quarantine [of db1 db' rid]
      by (auto simp: recovered_def split: option.splits)
    have same: "rid' \<noteq> rid \<Longrightarrow> row_of db1 rid' = row_of db rid'" for rid'
      using tracks_other_row [OF one(1)] .
    have "keeps_locks db db'" using one(3) ih [OF fresh(2)] by (auto simp: keeps_locks_def)
    with ih [OF fresh(2)] rec same fresh(1) show ?thesis by (fastforce simp: r)
  qed
qed (simp add: keeps_locks_def)

lemma recover_each_completes:
  "distinct (map fst rs) \<Longrightarrow> reroutes_ok db \<Longrightarrow> \<forall>(rid, dev) \<in> set rs. row_in in_flight_states rid db \<Longrightarrow>
   fst (recover_each no_faults clk rs db) = 0"
proof (induction rs arbitrary: db)
  case (Cons r rs)
  obtain rid dev where r: "r = (rid, dev)" by fastforce
  with Cons.prems(3) obtain row where row: "row_of db rid = Some row" "rr_state row \<in> in_flight_states"
    by (auto simp: row_in_def)
  then have "rows_affected (at_state rid in_flight_states) (db_reroutes db) = 1"
    using affected_once Cons.prems(2) by (auto simp: reroutes_ok_def at_state_def dest!: row_of_SomeD)
  then obtain db1 where db1: "recover_one no_faults clk (rid, dev) db = Inr db1"
    by (cases dev) (simp_all add: recover_one_def and_then_def ensure_def create_lock_def Let_def)
  from recover_one_Inr [OF db1 Cons.prems(2)] have t: "tracks rid db db1" by simp
  have "\<forall>(rid', dev') \<in> set rs. row_in in_flight_states rid' db1"
    using Cons.prems(1,3) tracks_other_row [OF t] by (force simp: r row_in_def)
  with Cons.IH [of db1] Cons.prems(1,2) t have "fst (recover_each no_faults clk rs db1) = 0"
    by (simp add: tracks_ok r)
  moreover have "within (QRecover rid) no_faults = no_faults" by (simp add: within_def no_faults_def fun_eq_iff)
  ultimately show ?case by (simp add: r db1)
qed simp

lemma distinct_stuck: "reroutes_ok db \<Longrightarrow> distinct (map fst (stuck_rows db))"
  unfolding reroutes_ok_def stuck_rows_def by (simp add: comp_def distinct_map_filter)

lemma stuck_iff:
  "reroutes_ok db \<Longrightarrow> r \<in> set (db_reroutes db) \<Longrightarrow>
   (rr_id r, rr_device_id r) \<in> set (stuck_rows db) \<longleftrightarrow> rr_state r \<in> in_flight_states"
  unfolding stuck_rows_def reroutes_ok_def by (auto dest: eq_key_imp_eq_value simp: inj_on_def distinct_map)

lemma row_of_mem: "reroutes_ok db \<Longrightarrow> r \<in> set (db_reroutes db) \<Longrightarrow> row_of db (rr_id r) = Some r"
  using find_distinct_id by (simp add: row_of_def reroutes_ok_def)

subsection \<open>Properties of the recovery\<close>

text \<open>C5: whatever the database refuses, the recovery never lets a reroute that was in flight pass
  for harmless: each is marked uncertain with its device locked, or it stays in flight and the
  controller does not start. Every other reroute keeps its row.\<close>

theorem startup_recovery_sound:
  assumes "reroutes_ok db" "recover_on_startup f clk db = (r, db')" "row \<in> set (db_reroutes db)"
  shows "if rr_state row \<in> in_flight_states
         then recovered (rr_id row) (rr_device_id row) db' \<or>
           is_ok r = False \<and> row_of db' (rr_id row) = Some row
         else row_of db' (rr_id row) = Some row"
proof (cases "f QStuck")
  case (Some e)
  with assms(2) have "r = Inl (''loading in-flight reroutes: '' @ e)" "db' = db"
    by (auto simp: recover_on_startup_def fetch_def)
  with row_of_mem [OF assms(1,3)] show ?thesis by simp
next
  case None
  obtain n db1 where each: "recover_each f clk (stuck_rows db) db = (n, db1)" by fastforce
  note spec = recover_each_spec [OF each distinct_stuck [OF assms(1)] assms(1)]
  from None each assms(2) have out: "is_ok r = (n = 0)" "db_reroutes db' = db_reroutes db1" "db_locks db' = db_locks db1"
    by (auto simp: recover_on_startup_def fetch_def trail Let_def split: if_splits option.splits)
  then have same: "row_of db' rid = row_of db1 rid" "recovered rid dev db' = recovered rid dev db1" for rid dev
    by (simp_all add: row_of_def recovered_def quarantined_def split: option.split)
  show ?thesis
  proof (cases "rr_state row \<in> in_flight_states")
    case True
    with stuck_iff [OF assms(1,3)] spec
    have "recovered (rr_id row) (rr_device_id row) db1 \<or> 0 < n \<and> row_of db1 (rr_id row) = row_of db (rr_id row)"
      by blast
    with True out(1) row_of_mem [OF assms(1,3)] show ?thesis by (auto simp: same)
  next
    case False
    have "rr_id row \<notin> fst ` set (stuck_rows db)"
      using False assms(1,3) unfolding stuck_rows_def reroutes_ok_def
      by (auto dest!: distinct_map [THEN iffD1] dest: inj_onD)
    with spec False row_of_mem [OF assms(1,3)] show ?thesis by (simp add: same)
  qed
qed

text \<open>C40: with a database that answers, the recovery completes: the controller starts, and every
  row that was in flight is resolved to uncertain.\<close>

theorem startup_recovery_completes:
  assumes "reroutes_ok db"
  shows "fst (recover_on_startup no_faults clk db) = Inr ()"
proof -
  have "\<forall>(rid, dev) \<in> set (stuck_rows db). row_in in_flight_states rid db"
    using row_of_mem [OF assms] by (fastforce simp: stuck_rows_def row_in_def)
  from recover_each_completes [OF distinct_stuck [OF assms] assms this, of clk] show ?thesis
    by (auto simp: recover_on_startup_def split: prod.splits)
qed

subsection \<open>Properties of the reconciliation\<close>

lemma evidence_result_cases:
  "evidence_result a b same = ReconciledChanged \<longleftrightarrow> a \<and> \<not> same"
  "evidence_result a b same = NotApplied \<Longrightarrow> b"
  by (simp_all add: evidence_result_def split: if_splits)

text \<open>The snapshot that a verdict rests on.\<close>

definition deciding_snapshot :: "reconciliation \<Rightarrow> reroute_row \<Rightarrow> (string + device_state list) option" where
  "deciding_snapshot res r =
     (case res of ReconciledChanged \<Rightarrow> rr_after_state r | NotApplied \<Rightarrow> rr_prior_state r | Conflict \<Rightarrow> None)"

lemma gather_evidence_Inr:
  assumes "gather_evidence f matches db rid s = (Inr (r, res), s')"
  shows "row_of db rid = Some r \<and> reconcilable (rr_state r) (rr_mutation_effect r) (rr_rollback_of r) \<and>
    (res = Conflict \<or> (\<exists>dev snaps s1 s2. rr_device_id r = Some dev \<and> deciding_snapshot res r = Some (Inr snaps) \<and>
       snaps \<noteq> [] \<and> matches dev snaps s1 = (Inr True, s2)))"
proof -
  from assms obtain dev before after where e: "evidence_row f db rid = Inr (r, dev, before, after)"
    by (auto simp: gather_evidence_def split: sum.splits prod.splits if_splits)
  then have row: "row_of db rid = Some r" "reconcilable (rr_state r) (rr_mutation_effect r) (rr_rollback_of r)"
    and ev: "rr_device_id r = Some dev" "rr_prior_state r = Some (Inr before)" "rr_after_state r = Some (Inr after)"
      "before \<noteq> []" "after \<noteq> []"
    by (auto simp: evidence_row_def and_then_Inr_iff map_err_Inr_iff fetch_Inr_iff ok_or_Inr_iff
        ensure_Inr_iff snapshot_of_def)
  obtain a s1 where a: "matches dev after s = (a, s1)" by fastforce
  obtain b s2 where b: "matches dev before s1 = (b, s2)" by fastforce
  from assms e a obtain now_after where "a = Inr now_after" by (cases a) (auto simp: gather_evidence_def)
  with assms e a b have "res = Conflict \<or> res = ReconciledChanged \<and> now_after \<or>
      res = NotApplied \<and> (before = after \<and> now_after \<or> b = Inr True)"
    by (auto simp: gather_evidence_def evidence_result_def split: sum.splits if_splits)
  with \<open>a = Inr now_after\<close> a b ev row show ?thesis by (auto simp: deciding_snapshot_def)
qed

lemma release_windows_rows:
  "db_reroutes (release_windows now res r db) = db_reroutes db \<and> db_locks (release_windows now res r db) = db_locks db"
  by (simp add: release_windows_def release_settled_bundle_def Let_def split: option.split)

lemma resolve_rows_fields:
  "db_reroutes (resolve_rows now res rid actor remark db) =
     (if res = Conflict then db_reroutes db else update_rows (unresolved rid) (reconciled_row res remark) (db_reroutes db))"
  "db_locks (resolve_rows now res rid actor remark db) =
     (if res = Conflict then db_locks db
      else update_rows (automatic_lock rid)
        (\<lambda>l. l\<lparr>lk_cleared_at := Some now, lk_cleared_by := Some actor\<rparr>) (db_locks db))"
  by (simp_all add: resolve_rows_def Let_def trail)

text \<open>C11: a quarantine ends only on evidence. Unless the live device was just found to hold
  exactly the recorded state before the action, or exactly the one after it, every reroute and every
  lock stays as it was; and then only the automatic locks of that reroute are cleared.\<close>

theorem reconciliation_needs_evidence:
  assumes "reconcile_uncertain f matches now rid actor remark s db = (res, s', db')"
  shows "db_reroutes db' = db_reroutes db \<and> db_locks db' = db_locks db \<or>
    (\<exists>verdict r dev snaps s1 s2. res = Inr verdict \<and> row_of db rid = Some r \<and> rr_device_id r = Some dev \<and>
       deciding_snapshot verdict r = Some (Inr snaps) \<and> snaps \<noteq> [] \<and> matches dev snaps s1 = (Inr True, s2) \<and>
       db_reroutes db' = update_rows (unresolved rid) (reconciled_row verdict remark) (db_reroutes db) \<and>
       db_locks db' = update_rows (automatic_lock rid)
         (\<lambda>l. l\<lparr>lk_cleared_at := Some now, lk_cleared_by := Some actor\<rparr>) (db_locks db))"
proof (cases "db' = db")
  case False
  with assms obtain r verdict s1 where g: "gather_evidence f matches db rid s = (Inr (r, verdict), s1)"
    and out: "res = Inr verdict" "db' = release_windows now verdict r (resolve_rows now verdict rid actor remark db)"
    by (auto simp: reconcile_uncertain_def and_then_Inr_iff split: prod.splits sum.splits)
  show ?thesis
  proof (cases "verdict = Conflict")
    case True
    with out show ?thesis by (simp add: release_windows_rows resolve_rows_fields)
  next
    case False
    with gather_evidence_Inr [OF g] out show ?thesis
      by (auto simp: release_windows_rows resolve_rows_fields)
  qed
qed simp

subsection \<open>A crash and its resolution\<close>

definition crashed_database :: database where
  "crashed_database = empty_database\<lparr>db_reroutes :=
     [planned_row\<lparr>rr_state := Verifying\<rparr>, planned_row\<lparr>rr_id := 2, rr_state := Succeeded\<rparr>]\<rparr>"

theorem startup_recovery_sound_witness:
  "recovered 1 (Some 7) (snd (recover_on_startup no_faults (\<lambda>_. 100) crashed_database)) \<or>
   is_ok (fst (recover_on_startup no_faults (\<lambda>_. 100) crashed_database)) = False \<and>
   row_of (snd (recover_on_startup no_faults (\<lambda>_. 100) crashed_database)) 1 = Some (planned_row\<lparr>rr_state := Verifying\<rparr>)"
proof -
  have ok: "reroutes_ok crashed_database"
    by (simp add: reroutes_ok_def crashed_database_def planned_row_def)
  have mem: "planned_row\<lparr>rr_state := Verifying\<rparr> \<in> set (db_reroutes crashed_database)"
    by (simp add: crashed_database_def)
  from startup_recovery_sound [OF ok prod.collapse [symmetric] mem, of no_faults "\<lambda>_. 100"]
  show ?thesis by (simp add: in_flight_states_def planned_row_def)
qed

theorem startup_recovery_completes_witness:
  "fst (recover_on_startup no_faults (\<lambda>_. 100) crashed_database) = Inr ()"
  by (rule startup_recovery_completes) (simp add: reroutes_ok_def crashed_database_def planned_row_def)

definition uncertain_database :: database where
  "uncertain_database = insert_lock ''device'' (Some ''7'') (Some 1) ''auto_crash'' [] None
     (empty_database\<lparr>db_reroutes := [planned_row\<lparr>rr_state := Uncertain,
        rr_prior_state := Some (Inr [InterfaceAdmin ''Gi0/1'' True]),
        rr_after_state := Some (Inr [InterfaceAdmin ''Gi0/1'' False])\<rparr>]\<rparr>)"

definition still_shut :: "u64 \<Rightarrow> device_state list \<Rightarrow> nat \<Rightarrow> (string + bool) \<times> nat" where
  "still_shut dev snaps s = (Inr (snaps = [InterfaceAdmin ''Gi0/1'' True]), s + 1)"

theorem reconciliation_needs_evidence_witness:
  "\<exists>s' db'. reconcile_uncertain no_faults still_shut 200 1 5 ''note'' 0 uncertain_database = (Inr NotApplied, s', db') \<and>
     db_locks db' = update_rows (automatic_lock 1)
       (\<lambda>l. l\<lparr>lk_cleared_at := Some 200, lk_cleared_by := Some 5\<rparr>) (db_locks uncertain_database)"
proof -
  have "fst (reconcile_uncertain no_faults still_shut 200 1 5 ''note'' 0 uncertain_database) = Inr NotApplied"
    "db_reroutes (snd (snd (reconcile_uncertain no_faults still_shut 200 1 5 ''note'' 0 uncertain_database))) \<noteq>
      db_reroutes uncertain_database"
    by code_simp+
  then obtain s' db' where run:
    "reconcile_uncertain no_faults still_shut 200 1 5 ''note'' 0 uncertain_database = (Inr NotApplied, s', db')"
    and "db_reroutes db' \<noteq> db_reroutes uncertain_database"
    by (metis prod.collapse)
  with reconciliation_needs_evidence [OF run] run show ?thesis by auto
qed

end
