(* ===== verification/Recovery.thy ===== *)
theory Recovery
  imports Executor Startup
begin

text \<open>
  Who owns a change of a router and who may undo it:
  \<open>src/backend-rust/src/reroute/recovery.rs\<close> up to the admission of a recovery, and
  \<open>claim_change_windows_for_recovery\<close> of \<open>reroute/locks.rs\<close>. A source is a
  bundle whose changes are to be undone, a child is the bundle that undoes them, and a claim is the
  token that a child leaves on each of its sources. MySQL compares tokens under its collation,
  which is the parameter \<open>same\<close>; generated tokens are parameters.
\<close>

datatype recovery_failure =
    NoSources
  | MissingSource u64
  | NoCoverage u64
  | AmbiguousEvidence u64
  | OwnershipChanged
  | ClaimRefused u64
  | DuplicateAttempt u64
  | MissingDevice u64
  | NothingOwned
  | NoOriginals
  | DuplicateOriginal
  | OriginalWithoutSource u64
  | IncompleteOriginals
  | NotClaimedByChild u64
  | ForeignMembership u64
  | ForeignWindow u64
  | NotEveryClaim
  | InvalidTerminal
  | MissingChild
  | NoAssociation
  | InjectedFailure
  | RecoveryQuery string

definition put :: "faults \<Rightarrow> string \<Rightarrow> u64 \<Rightarrow> 'a \<Rightarrow> recovery_failure + 'a" where
  "put f q i v = map_err RecoveryQuery (fetch f (QRecovery q i) v)"

subsection \<open>The proof behind a source\<close>

record source_proof =
  sp_roots :: i64
  sp_covered :: bool
  sp_ambiguous :: i64

definition root_of :: "u64 \<Rightarrow> reroute_row \<Rightarrow> bool" where
  "root_of source r = (rr_bundle_id r = Some source \<and> rr_rollback_of r = None)"

definition roots :: "database \<Rightarrow> u64 \<Rightarrow> reroute_row list" where
  "roots db source = filter (root_of source) (db_reroutes db)"

definition unsettled :: "reroute_state \<Rightarrow> bool" where
  "unsettled st = (st \<in> {Planned, Pending, Running, Verifying, Uncertain})"

definition inverses :: "database \<Rightarrow> reroute_row \<Rightarrow> reroute_row list" where
  "inverses db original = filter (\<lambda>r. rr_rollback_of r = Some (rr_id original)) (db_reroutes db)"

definition ambiguous :: "database \<Rightarrow> reroute_row \<Rightarrow> bool" where
  "ambiguous db original =
     (unsettled (rr_state original) \<or>
      rr_mutation_effect original \<in> {EffectPending, EffectUnknown} \<or>
      list_ex (\<lambda>inverse. unsettled (rr_state inverse) \<or>
          rr_mutation_effect inverse \<in> {EffectPending, EffectUnknown, EffectChanged} \<and>
          rr_state inverse \<noteq> Succeeded)
        (inverses db original))"

text \<open>A slot of the ledger is linked to the reroute that ran it, or was never written.\<close>

definition linked_slot :: "database \<Rightarrow> bundle_action_row \<Rightarrow> bool" where
  "linked_slot db a =
     list_ex (\<lambda>r. ba_reroute_id a = Some (rr_id r) \<and> rr_bundle_id r = Some (ba_bundle_id a) \<and>
        rr_bundle_position r = Some (ba_position a) \<and> rr_rollback_of r = None) (db_reroutes db)"

definition unwritten_slot :: "bundle_action_row \<Rightarrow> bool" where
  "unwritten_slot a =
     (ba_reroute_id a = None \<and>
      ba_state a \<in> {''queued'', ''noop'', ''failed'', ''compensated''} \<and>
      ba_mutation_effect a \<in> {EffectPending, EffectNoop})"

definition terminal_source :: "bundle_state \<Rightarrow> bool" where
  "terminal_source st = (st \<notin> {BundlePlanned, BundleRunning, BundleCompensating})"

definition activation_coverage :: "database \<Rightarrow> bundle_row \<Rightarrow> bool" where
  "activation_coverage db b =
     (let slots = bundle_actions db (bn_id b); n = count (\<lambda>_. True) (roots db (bn_id b));
          total = int (unat (bn_total_actions b))
      in if bn_total_actions b = 0 then terminal_source (bn_state b) \<and> 0 < n
         else terminal_source (bn_state b) \<and>
           (count (\<lambda>_. True) slots = total \<and>
            count (\<lambda>a. bn_total_actions b \<le> ba_position a \<or> \<not> (linked_slot db a \<or> unwritten_slot a)) slots = 0 \<and>
            count (linked_slot db) slots = n \<or>
            slots = [] \<and> n = total))"

definition source_proof_on :: "faults \<Rightarrow> database \<Rightarrow> u64 \<Rightarrow> recovery_failure + source_proof" where
  "source_proof_on f db source =
     and_then (put f ''source'' source (find_bundle db source)) (\<lambda>row.
     and_then (ok_or (MissingSource source) row) (\<lambda>b.
     and_then (put f ''roots'' source (count (\<lambda>_. True) (roots db source))) (\<lambda>n.
     and_then (put f ''ambiguous'' source (count (ambiguous db) (roots db source))) (\<lambda>doubtful.
     and_then (put f ''slots'' source (activation_coverage db b)) (\<lambda>covered.
       Inr \<lparr>sp_roots = n, sp_covered = covered, sp_ambiguous = doubtful\<rparr>)))))"

subsection \<open>Ownership\<close>

record ownership =
  ow_sources :: "u64 list"
  ow_originals :: "u64 list"

definition owned_root :: "database \<Rightarrow> reroute_row \<Rightarrow> bool" where
  "owned_root db r =
     (rr_state r \<in> {Succeeded, Failed} \<and> rr_mutation_effect r = EffectChanged \<and> \<not> reversed db r)"

text \<open>The rows of one source; their order is immaterial, as all are sorted in the end.\<close>

definition source_originals :: "faults \<Rightarrow> database \<Rightarrow> u64 \<Rightarrow> recovery_failure + u64 list" where
  "source_originals f db source =
     and_then (source_proof_on f db source) (\<lambda>proof.
     and_then (ensure (NoCoverage source) (sp_covered proof)) (\<lambda>_.
     and_then (ensure (AmbiguousEvidence source) (sp_ambiguous proof = 0)) (\<lambda>_.
       put f ''owned'' source (map rr_id (filter (owned_root db) (roots db source))))))"

fun originals_of :: "faults \<Rightarrow> database \<Rightarrow> u64 list \<Rightarrow> recovery_failure + u64 list" where
  "originals_of f db [] = Inr []"
| "originals_of f db (s # ss) =
     and_then (source_originals f db s) (\<lambda>ids. and_then (originals_of f db ss) (\<lambda>rest. Inr (ids @ rest)))"

definition ownership_for_sources_on ::
    "faults \<Rightarrow> database \<Rightarrow> u64 list \<Rightarrow> recovery_failure + ownership" where
  "ownership_for_sources_on f db source_ids =
     (let sources = remdups_adj (sort source_ids)
      in and_then (ensure NoSources (sources \<noteq> [])) (\<lambda>_.
         and_then (originals_of f db sources) (\<lambda>ids.
           Inr \<lparr>ow_sources = sources, ow_originals = rev (sort ids)\<rparr>)))"

definition owned_original_ids :: "faults \<Rightarrow> database \<Rightarrow> u64 \<Rightarrow> recovery_failure + u64 list" where
  "owned_original_ids f db bundle =
     and_then (ownership_for_sources_on f db [bundle]) (\<lambda>own. Inr (ow_originals own))"

subsection \<open>Claims\<close>

abbreviation lifecycle_update ::
    "(bundle_lifecycle \<Rightarrow> bundle_lifecycle) \<Rightarrow> bundle_row \<Rightarrow> bundle_row" where
  "lifecycle_update g b \<equiv> b\<lparr>bn_lifecycle := g (bn_lifecycle b)\<rparr>"

definition write_bundle ::
    "(bundle_row \<Rightarrow> bool) \<Rightarrow> (bundle_row \<Rightarrow> bundle_row) \<Rightarrow> database \<Rightarrow> database" where
  "write_bundle p g db = db\<lparr>db_bundles := update_rows p g (db_bundles db)\<rparr>"

definition claim_of :: "database \<Rightarrow> u64 \<Rightarrow> string option" where
  "claim_of db source = Option.bind (find_bundle db source) (\<lambda>b. lf_claim (bn_lifecycle b))"

definition claimable ::
    "(string \<Rightarrow> string \<Rightarrow> bool) \<Rightarrow> string \<Rightarrow> bool \<Rightarrow> u64 \<Rightarrow> bundle_row \<Rightarrow> bool" where
  "claimable same token by_operator source b =
     (bn_id b = source \<and>
      (case lf_claim (bn_lifecycle b) of None \<Rightarrow> True | Some t \<Rightarrow> same t token) \<and>
      (by_operator \<or> lf_cancelled_at (bn_lifecycle b) = None))"

definition claimed_lifecycle ::
    "int \<Rightarrow> u64 \<Rightarrow> string \<Rightarrow> bool \<Rightarrow> bundle_lifecycle \<Rightarrow> bundle_lifecycle" where
  "claimed_lifecycle now child token by_operator l =
     l\<lparr>lf_claim := Some token, lf_claimed_at := Some now,
       lf_recovery_bundle := (if by_operator then lf_recovery_bundle l else Some child),
       lf_state := RecoveryClaimed,
       lf_block_reason := (if by_operator then None else lf_block_reason l)\<rparr>"

definition attempted :: "database \<Rightarrow> u64 \<Rightarrow> u64 \<Rightarrow> bool" where
  "attempted db child source =
     list_ex (\<lambda>a. rs_child a = child \<and> rs_source a = source) (db_recovery_sources db)"

definition claim_one ::
    "(string \<Rightarrow> string \<Rightarrow> bool) \<Rightarrow> faults \<Rightarrow> clock \<Rightarrow> u64 \<Rightarrow> string \<Rightarrow> bool \<Rightarrow> u64 \<Rightarrow> database \<Rightarrow>
     recovery_failure + database" where
  "claim_one same f clk child token by_operator source db =
     and_then (put f ''claim'' source ()) (\<lambda>_.
     and_then (ensure (ClaimRefused source)
        (rows_affected (claimable same token by_operator source) (db_bundles db) = 1)) (\<lambda>_.
     and_then (put f ''attempt'' source ()) (\<lambda>_.
     and_then (ensure (DuplicateAttempt source) (\<not> attempted db child source)) (\<lambda>_.
       Inr (write_bundle (claimable same token by_operator source)
              (lifecycle_update (claimed_lifecycle (clk (QRecovery ''claim'' source)) child token by_operator)) db
            \<lparr>db_recovery_sources := db_recovery_sources db @
               [\<lparr>rs_child = child, rs_source = source, rs_token = token,
                 rs_settlement = ActiveClaim, rs_settled_at = None\<rparr>]\<rparr>)))))"

fun claim_each ::
    "(string \<Rightarrow> string \<Rightarrow> bool) \<Rightarrow> faults \<Rightarrow> clock \<Rightarrow> u64 \<Rightarrow> string \<Rightarrow> bool \<Rightarrow> u64 list \<Rightarrow> database \<Rightarrow>
     recovery_failure + database" where
  "claim_each same f clk child token by_operator [] db = Inr db"
| "claim_each same f clk child token by_operator (s # ss) db =
     and_then (claim_one same f clk child token by_operator s db)
       (claim_each same f clk child token by_operator ss)"

text \<open>The device of an original joins the quarantine of its source, and the attempt records
  whether it was the attempt that added it.\<close>

definition record_membership :: "u64 \<Rightarrow> u64 \<Rightarrow> u64 \<Rightarrow> bool \<Rightarrow> database \<Rightarrow> database" where
  "record_membership child source device created db =
     (let key = (\<lambda>m. am_child m = child \<and> am_source m = source \<and> am_device m = device)
      in db\<lparr>db_memberships :=
           (if list_ex key (db_memberships db)
            then update_rows key (\<lambda>m. m\<lparr>am_created := am_created m \<or> created\<rparr>) (db_memberships db)
            else db_memberships db @ [\<lparr>am_child = child, am_source = source, am_device = device,
                   am_created = created, am_released_at = None\<rparr>])\<rparr>)"

definition quarantine_device :: "faults \<Rightarrow> u64 \<Rightarrow> u64 \<Rightarrow> database \<Rightarrow> recovery_failure + database" where
  "quarantine_device f child original db =
     and_then (put f ''original'' original (row_of db original)) (\<lambda>row.
       case Option.bind row (\<lambda>r. map_option (Pair r) (rr_bundle_id r)) of
         None \<Rightarrow> Inr db
       | Some (r, source) \<Rightarrow>
           and_then (ok_or (MissingDevice original) (rr_device_id r)) (\<lambda>device.
           and_then (put f ''membership'' original ()) (\<lambda>_.
             Inr (record_membership child source device ((device, source) \<notin> set (db_window_sources db))
               (note_source device source db)))))"

fun quarantine_each :: "faults \<Rightarrow> u64 \<Rightarrow> u64 list \<Rightarrow> database \<Rightarrow> recovery_failure + database" where
  "quarantine_each f child [] db = Inr db"
| "quarantine_each f child (i # is) db =
     and_then (quarantine_device f child i db) (quarantine_each f child is)"

definition claim_sources_for_child_on ::
    "(string \<Rightarrow> string \<Rightarrow> bool) \<Rightarrow> faults \<Rightarrow> clock \<Rightarrow> u64 \<Rightarrow> u64 list \<Rightarrow> u64 list \<Rightarrow> string \<Rightarrow> bool \<Rightarrow>
     database \<Rightarrow> recovery_failure + (ownership \<times> database)" where
  "claim_sources_for_child_on same f clk child source_ids expected token by_operator db =
     and_then (ownership_for_sources_on f db source_ids) (\<lambda>own.
     and_then (ensure OwnershipChanged (ow_originals own = rev (sort expected))) (\<lambda>_.
     and_then (claim_each same f clk child token by_operator (ow_sources own) db) (\<lambda>db1.
     and_then (quarantine_each f child (ow_originals own) db1) (\<lambda>db2.
       Inr (own, db2)))))"

text \<open>\<open>claim_source_bundles\<close>: claims without a child, in a transaction of their own.\<close>

definition unclaimed :: "u64 \<Rightarrow> bundle_row \<Rightarrow> bool" where
  "unclaimed source b =
     (bn_id b = source \<and> lf_claim (bn_lifecycle b) = None \<and> lf_cancelled_at (bn_lifecycle b) = None)"

fun claim_bundles :: "faults \<Rightarrow> clock \<Rightarrow> string \<Rightarrow> u64 list \<Rightarrow> database \<Rightarrow> recovery_failure + database" where
  "claim_bundles f clk token [] db = Inr db"
| "claim_bundles f clk token (s # ss) db =
     and_then (put f ''claim'' s ()) (\<lambda>_.
     and_then (ensure (ClaimRefused s) (rows_affected (unclaimed s) (db_bundles db) = 1)) (\<lambda>_.
       claim_bundles f clk token ss
         (write_bundle (unclaimed s)
           (lifecycle_update (\<lambda>l. l\<lparr>lf_claim := Some token,
              lf_claimed_at := Some (clk (QRecovery ''claim'' s)), lf_state := RecoveryClaimed\<rparr>)) db)))"

definition claim_source_bundles ::
    "faults \<Rightarrow> clock \<Rightarrow> u64 list \<Rightarrow> string \<Rightarrow> database \<Rightarrow> recovery_failure + database" where
  "claim_source_bundles f clk bundle_ids token db =
     and_then (put f ''begin'' 0 ()) (\<lambda>_.
     and_then (claim_bundles f clk token (remdups_adj (sort bundle_ids)) db) (\<lambda>db'.
       put f ''commit'' 0 db'))"

text \<open>One statement for each bundle, with no transaction around them: a failure keeps the
  releases before it.\<close>

definition resting_state :: "bundle_lifecycle \<Rightarrow> lifecycle_state" where
  "resting_state l = (if 0 < lf_remaining l then Active else Inactive)"

fun release_unstarted_source_claims ::
    "(string \<Rightarrow> string \<Rightarrow> bool) \<Rightarrow> faults \<Rightarrow> u64 list \<Rightarrow> string \<Rightarrow> string \<Rightarrow> database \<Rightarrow>
     (recovery_failure + unit) \<times> database" where
  "release_unstarted_source_claims same f [] token reason db = (Inr (), db)"
| "release_unstarted_source_claims same f (s # ss) token reason db =
     (case put f ''release'' s () of
        Inl e \<Rightarrow> (Inl e, db)
      | Inr _ \<Rightarrow> release_unstarted_source_claims same f ss token reason
          (write_bundle (\<lambda>b. bn_id b = s \<and> lf_recovery_bundle (bn_lifecycle b) = None \<and>
               holds (\<lambda>t. same t token) (lf_claim (bn_lifecycle b)))
             (lifecycle_update (\<lambda>l. l\<lparr>lf_claim := None, lf_claimed_at := None,
                lf_state := resting_state l, lf_block_reason := Some reason\<rparr>)) db))"

subsection \<open>The lifecycle of a run\<close>

definition remaining_roots :: "database \<Rightarrow> u64 \<Rightarrow> i64" where
  "remaining_roots db source =
     count (\<lambda>r. rr_mutation_effect r \<in> {EffectChanged, EffectUnknown} \<and> \<not> reversed db r) (roots db source)"

definition uncertain_rows :: "database \<Rightarrow> u64 \<Rightarrow> i64" where
  "uncertain_rows db bundle =
     count (\<lambda>r. rr_bundle_id r = Some bundle \<and>
       (rr_state r = Uncertain \<or> rr_mutation_effect r = EffectUnknown)) (db_reroutes db)"

definition recovering :: "lifecycle_state \<Rightarrow> bool" where
  "recovering s = (s \<in> {RecoveryScheduled, RecoveryClaimed, RecoveryRunning})"

definition derived_state :: "i64 \<Rightarrow> i64 \<Rightarrow> lifecycle_state" where
  "derived_state uncertain remaining =
     (if 0 < uncertain then RecoveryBlocked else if 0 < remaining then Active else Inactive)"

definition refresh :: "faults \<Rightarrow> u64 \<Rightarrow> database \<Rightarrow> recovery_failure + (u32 \<times> database)" where
  "refresh f bundle db =
     and_then (put f ''remaining'' bundle (remaining_roots db bundle)) (\<lambda>remaining.
     and_then (put f ''uncertain'' bundle (uncertain_rows db bundle)) (\<lambda>uncertain.
     and_then (put f ''lifecycle'' bundle ()) (\<lambda>_.
       Inr (word_of_int remaining,
            write_bundle (\<lambda>b. bn_id b = bundle)
              (lifecycle_update (\<lambda>l. l\<lparr>lf_remaining := word_of_int remaining,
                 lf_state := (if recovering (lf_state l) then lf_state l
                              else derived_state uncertain remaining)\<rparr>)) db))))"

text \<open>The revert time that \<open>source_json\<close> asks for: an integer from one minute to one week.\<close>

definition revert_after :: "json \<Rightarrow> u64 option" where
  "revert_after source =
     Option.bind (json_get source ''revert_after_seconds'')
       (\<lambda>v. Option.bind (as_u64 v) (\<lambda>n. if 60 \<le> n \<and> n \<le> 604800 then Some n else None))"

definition records_only :: "json \<Rightarrow> bool" where
  "records_only source = (get_str source ''verification_mode'' = Some ''configuration_only'')"

definition schedulable :: "u64 \<Rightarrow> bundle_row \<Rightarrow> bool" where
  "schedulable bundle b =
     (bn_id b = bundle \<and> bn_state b = BundleSucceeded \<and> bn_trigger_type b = ''manual'' \<and>
      lf_deadline (bn_lifecycle b) = None \<and> lf_cancelled_at (bn_lifecycle b) = None \<and>
      \<not> records_only (bn_source b) \<and> revert_after (bn_source b) \<noteq> None)"

definition scheduled_row :: "bundle_row \<Rightarrow> bundle_row" where
  "scheduled_row b =
     lifecycle_update (\<lambda>l. l\<lparr>lf_state := RecoveryScheduled,
       lf_deadline := Option.bind (revert_after (bn_source b))
         (\<lambda>n. map_option (\<lambda>t. t + int (unat n)) (bn_finished_at b))\<rparr>) b"

definition schedule_if_eligible ::
    "faults \<Rightarrow> u64 \<Rightarrow> database \<Rightarrow> (recovery_failure + unit) \<times> database" where
  "schedule_if_eligible f bundle db =
     (case refresh f bundle db of
        Inl e \<Rightarrow> (Inl e, db)
      | Inr (remaining, db1) \<Rightarrow>
          if remaining = 0 then (Inr (), db1)
          else case put f ''schedule'' bundle () of
            Inl e \<Rightarrow> (Inl e, db1)
          | Inr _ \<Rightarrow> (Inr (), write_bundle (schedulable bundle) scheduled_row db1))"


subsection \<open>Admission of a due timer\<close>

definition due :: "int \<Rightarrow> bundle_row \<Rightarrow> bool" where
  "due now b =
     (lf_state (bn_lifecycle b) = RecoveryScheduled \<and>
      holds (\<lambda>t. t \<le> now) (lf_deadline (bn_lifecycle b)) \<and>
      lf_claim (bn_lifecycle b) = None \<and> revert_after (bn_source b) \<noteq> None \<and>
      \<not> records_only (bn_source b) \<and> lf_cancelled_at (bn_lifecycle b) = None)"

text \<open>\<open>ORDER BY recovery_deadline, id LIMIT 1\<close>; a due row has a deadline.\<close>

definition due_key :: "bundle_row \<Rightarrow> int \<times> u64" where
  "due_key b = (case lf_deadline (bn_lifecycle b) of Some t \<Rightarrow> (t, bn_id b) | None \<Rightarrow> (0, bn_id b))"

definition earlier :: "bundle_row \<Rightarrow> bundle_row \<Rightarrow> bool" where
  "earlier a b =
     (fst (due_key a) < fst (due_key b) \<or>
      fst (due_key a) = fst (due_key b) \<and> snd (due_key a) < snd (due_key b))"

fun first_due :: "bundle_row list \<Rightarrow> bundle_row option" where
  "first_due [] = None"
| "first_due (b # bs) =
     (case first_due bs of None \<Rightarrow> Some b | Some c \<Rightarrow> Some (if earlier c b then c else b))"

definition next_due :: "int \<Rightarrow> database \<Rightarrow> u64 option" where
  "next_due now db = map_option bn_id (first_due (filter (due now) (db_bundles db)))"

definition timer_consent :: "faults \<Rightarrow> safety_config \<Rightarrow> bool \<Rightarrow> database \<Rightarrow> bool" where
  "timer_consent f cfg enforce db =
     (operating_mode f ''timer'' enforce db \<and>
      bool_setting f db ''automatic_actions_enabled'' (cf_automatic_enabled cfg))"

definition json_ids :: "u64 list \<Rightarrow> json" where
  "json_ids ids = JArr (map (\<lambda>i. JNum (PosInt i)) ids)"

definition recovery_reason :: "u64 \<Rightarrow> string" where
  "recovery_reason source = ''scheduled recovery of mitigation run #'' @ show_word source"

definition child_row :: "int \<Rightarrow> u64 \<Rightarrow> u64 \<Rightarrow> u64 list \<Rightarrow> bundle_row" where
  "child_row now child source originals =
     \<lparr>bn_id = child, bn_rule_id = None, bn_trigger_type = ''automatic'', bn_user_id = None,
      bn_verification_mode = None, bn_state = BundlePlanned, bn_rate_reserved = 0, bn_rate_consumed = 0,
      bn_finished_at = None, bn_created_at = now, bn_parent = Some source,
      bn_total_actions = word_of_nat (length originals),
      bn_source = JObj [(''kind'', JStr ''recovery''), (''original_bundle_id'', JNum (PosInt source)),
        (''original_reroute_ids'', json_ids originals), (''preparation_phase'', JStr ''published''),
        (''reason'', JStr (recovery_reason source))],
      bn_failure_reason = None, bn_lifecycle = no_lifecycle\<rparr>"

definition insert_child :: "int \<Rightarrow> u64 \<Rightarrow> u64 list \<Rightarrow> database \<Rightarrow> database" where
  "insert_child now source originals db =
     db\<lparr>db_bundles := db_bundles db @ [child_row now (db_next_bundle db) source originals],
        db_next_bundle := db_next_bundle db + 1\<rparr>"

text \<open>The transaction of an admission; its result is the child, if a timer was due.\<close>

definition admit_due ::
    "(string \<Rightarrow> string \<Rightarrow> bool) \<Rightarrow> faults \<Rightarrow> clock \<Rightarrow> string \<Rightarrow> bool \<Rightarrow> database \<Rightarrow>
     recovery_failure + (u64 option \<times> database)" where
  "admit_due same f clk secret fail_before_commit db =
     and_then (put f ''begin'' 0 ()) (\<lambda>_.
     and_then (put f ''candidate'' 0 (next_due (clk (QRecovery ''candidate'' 0)) db)) (\<lambda>candidate.
       case candidate of
         None \<Rightarrow> put f ''commit'' 0 (None, db)
       | Some source \<Rightarrow>
           and_then (ownership_for_sources_on f db [source]) (\<lambda>own.
           and_then (ensure NothingOwned (ow_originals own \<noteq> [])) (\<lambda>_.
           and_then (put f ''child'' source ()) (\<lambda>_.
           and_then (claim_sources_for_child_on same f clk (db_next_bundle db) [source] (ow_originals own)
               (''timer-recovery:'' @ secret) False
               (insert_child (clk (QRecovery ''child'' source)) source (ow_originals own) db)) (\<lambda>(_, db').
           and_then (ensure InjectedFailure (\<not> fail_before_commit)) (\<lambda>_.
             put f ''commit'' 0 (Some (db_next_bundle db), db'))))))))"

text \<open>The policy fence is held around the transaction; what is committed stays when its release
  fails.\<close>

definition admit_one_due_with_failure ::
    "(string \<Rightarrow> string \<Rightarrow> bool) \<Rightarrow> faults \<Rightarrow> clock \<Rightarrow> safety_config \<Rightarrow> bool \<Rightarrow> string \<Rightarrow> bool \<Rightarrow> database \<Rightarrow>
     (recovery_failure + u64 option) \<times> database" where
  "admit_one_due_with_failure same f clk cfg enforce secret fail_before_commit db =
     (case put f ''fence'' 0 () of
        Inl e \<Rightarrow> (Inl e, db)
      | Inr _ \<Rightarrow>
          if \<not> timer_consent f cfg enforce db then (put f ''unfence'' 0 None, db)
          else case admit_due same f clk secret fail_before_commit db of
            Inl e \<Rightarrow> (Inl e, db)
          | Inr (admitted, db') \<Rightarrow> (put f ''unfence'' 0 admitted, db'))"

definition claim_due ::
    "faults \<Rightarrow> clock \<Rightarrow> string \<Rightarrow> database \<Rightarrow> recovery_failure + ((u64 \<times> string) option \<times> database)" where
  "claim_due f clk token db =
     and_then (put f ''begin'' 0 ()) (\<lambda>_.
     and_then (put f ''candidate'' 0 (next_due (clk (QRecovery ''candidate'' 0)) db)) (\<lambda>candidate.
       case candidate of
         None \<Rightarrow> put f ''commit'' 0 (None, db)
       | Some source \<Rightarrow>
           (let free = (\<lambda>b. bn_id b = source \<and> lf_claim (bn_lifecycle b) = None)
            in and_then (put f ''claim'' source ()) (\<lambda>_.
               and_then (ensure (ClaimRefused source) (rows_affected free (db_bundles db) = 1)) (\<lambda>_.
                 put f ''commit'' 0 (Some (source, token),
                   write_bundle free (lifecycle_update (\<lambda>l. l\<lparr>lf_claim := Some token,
                      lf_claimed_at := Some (clk (QRecovery ''claim'' source)),
                      lf_state := RecoveryClaimed\<rparr>)) db))))))"

definition claim_one_due ::
    "faults \<Rightarrow> clock \<Rightarrow> safety_config \<Rightarrow> bool \<Rightarrow> string \<Rightarrow> database \<Rightarrow>
     (recovery_failure + (u64 \<times> string) option) \<times> database" where
  "claim_one_due f clk cfg enforce token db =
     (case put f ''fence'' 0 () of
        Inl e \<Rightarrow> (Inl e, db)
      | Inr _ \<Rightarrow>
          if \<not> timer_consent f cfg enforce db then (put f ''unfence'' 0 None, db)
          else case claim_due f clk token db of
            Inl e \<Rightarrow> (Inl e, db)
          | Inr (claimed, db') \<Rightarrow> (put f ''unfence'' 0 claimed, db'))"

subsection \<open>The change windows of a recovery child\<close>

text \<open>The source bundle of each original, in the order of the originals.\<close>

fun sources_of :: "faults \<Rightarrow> database \<Rightarrow> u64 list \<Rightarrow> recovery_failure + u64 list" where
  "sources_of f db [] = Inr []"
| "sources_of f db (i # is) =
     and_then (put f ''origin'' i (Option.bind (row_of db i)
        (\<lambda>r. if rr_rollback_of r = None then rr_bundle_id r else None))) (\<lambda>source.
     and_then (ok_or (OriginalWithoutSource i) source) (\<lambda>s.
     and_then (sources_of f db is) (\<lambda>rest. Inr (s # rest))))"

definition claim_held :: "database \<Rightarrow> u64 \<Rightarrow> (string \<Rightarrow> string \<Rightarrow> bool) \<Rightarrow> attempt_source \<Rightarrow> bool" where
  "claim_held db child same a =
     (rs_child a = child \<and> rs_settlement a = ActiveClaim \<and>
      holds (\<lambda>t. same t (rs_token a)) (claim_of db (rs_source a)))"

fun every_claim ::
    "(string \<Rightarrow> string \<Rightarrow> bool) \<Rightarrow> faults \<Rightarrow> database \<Rightarrow> u64 \<Rightarrow> u64 list \<Rightarrow> recovery_failure + unit" where
  "every_claim same f db child [] = Inr ()"
| "every_claim same f db child (s # ss) =
     and_then (put f ''held'' s (count (\<lambda>a. rs_source a = s \<and> claim_held db child same a) (db_recovery_sources db))) (\<lambda>n.
     and_then (ensure (NotClaimedByChild s) (n = 1)) (\<lambda>_. every_claim same f db child ss))"

text \<open>The devices of the ledger's originals, in order; a row without a device is a decoding error.\<close>

definition ledger_originals :: "database \<Rightarrow> u64 \<Rightarrow> reroute_row list" where
  "ledger_originals db child =
     filter (\<lambda>r. list_ex (\<lambda>a. ba_bundle_id a = child \<and> ba_original_reroute_id a = Some (rr_id r))
       (db_bundle_actions db)) (db_reroutes db)"

definition ledger_devices :: "database \<Rightarrow> u64 \<Rightarrow> u64 list option" where
  "ledger_devices db child =
     (let rows = map rr_device_id (ledger_originals db child)
      in if None \<in> set rows then None else Some (remdups_adj (sort (map the rows))))"

definition foreign_source :: "database \<Rightarrow> u64 \<Rightarrow> u64 \<Rightarrow> bool" where
  "foreign_source db child source =
     (\<not> list_ex (\<lambda>a. rs_child a = child \<and> rs_source a = source \<and> rs_settlement a = ActiveClaim)
        (db_recovery_sources db))"

definition taken_window :: "u64 \<Rightarrow> string \<Rightarrow> change_window \<Rightarrow> change_window" where
  "taken_window child owner w =
     w\<lparr>cw_bundle_id := Some child, cw_reroute_id := None, cw_owner_token := owner,
       cw_phase := ''prepared''\<rparr>"

definition take_window ::
    "faults \<Rightarrow> u64 \<Rightarrow> string \<Rightarrow> u64 list \<Rightarrow> u64 \<Rightarrow> database \<Rightarrow> recovery_failure + database" where
  "take_window f child owner sources device db =
     and_then (put f ''foreign'' device
        (count (\<lambda>(d, s). d = device \<and> foreign_source db child s) (db_window_sources db))) (\<lambda>n.
     and_then (ensure (ForeignMembership device) (n = 0)) (\<lambda>_.
     and_then (put f ''window'' device (window_of db device)) (\<lambda>existing.
       case existing of
         None \<Rightarrow>
           put f ''insert'' device (db\<lparr>db_windows := db_windows db @
             [\<lparr>cw_device_id = device, cw_bundle_id = Some child, cw_reroute_id = None,
               cw_owner_token = owner, cw_phase = ''prepared''\<rparr>]\<rparr>)
       | Some w \<Rightarrow>
           and_then (ensure (ForeignWindow device)
             (case cw_bundle_id w of None \<Rightarrow> True | Some b \<Rightarrow> b \<in> set sources \<or> b = child)) (\<lambda>_.
             put f ''take'' device (db\<lparr>db_windows :=
               update_rows (\<lambda>w. cw_device_id w = device) (taken_window child owner) (db_windows db)\<rparr>)))))"

fun take_windows ::
    "faults \<Rightarrow> u64 \<Rightarrow> string \<Rightarrow> u64 list \<Rightarrow> u64 list \<Rightarrow> database \<Rightarrow> recovery_failure + database" where
  "take_windows f child owner sources [] db = Inr db"
| "take_windows f child owner sources (d # ds) db =
     and_then (take_window f child owner sources d db) (take_windows f child owner sources ds)"

text \<open>The driver counts the rows of both tables' join that matched.\<close>

definition started_by :: "database \<Rightarrow> u64 \<Rightarrow> (string \<Rightarrow> string \<Rightarrow> bool) \<Rightarrow> bundle_row \<Rightarrow> bool" where
  "started_by db child same b =
     list_ex (\<lambda>a. rs_child a = child \<and> rs_source a = bn_id b \<and> rs_settlement a = ActiveClaim \<and>
        holds (\<lambda>t. same t (rs_token a)) (lf_claim (bn_lifecycle b))) (db_recovery_sources db)"

definition started_lifecycle :: "int \<Rightarrow> bundle_lifecycle \<Rightarrow> bundle_lifecycle" where
  "started_lifecycle now l =
     l\<lparr>lf_state := RecoveryRunning,
       lf_started_at := (case lf_started_at l of Some t \<Rightarrow> Some t | None \<Rightarrow> Some now)\<rparr>"

definition claim_change_windows_for_recovery ::
    "(string \<Rightarrow> string \<Rightarrow> bool) \<Rightarrow> faults \<Rightarrow> clock \<Rightarrow> u64 \<Rightarrow> string \<Rightarrow> u64 list \<Rightarrow> database \<Rightarrow>
     recovery_failure + database" where
  "claim_change_windows_for_recovery same f clk child owner originals db =
     and_then (ensure NoOriginals (originals \<noteq> [])) (\<lambda>_.
     and_then (ensure (DuplicateOriginal) (distinct originals)) (\<lambda>_.
     and_then (put f ''begin'' 0 ()) (\<lambda>_.
     and_then (sources_of f db (sort originals)) (\<lambda>found.
     (let sources = remdups_adj (sort found) in
     and_then (ownership_for_sources_on f db sources) (\<lambda>own.
     and_then (ensure IncompleteOriginals (sort (ow_originals own) = sort originals)) (\<lambda>_.
     and_then (every_claim same f db child sources) (\<lambda>_.
     and_then (put f ''devices'' child (ledger_devices db child)) (\<lambda>rows.
     and_then (ok_or (MissingDevice child) rows) (\<lambda>devices.
     and_then (take_windows f child owner sources devices db) (\<lambda>db1.
     and_then (put f ''start'' child ()) (\<lambda>_.
     and_then (ensure NotEveryClaim
        (rows_affected (started_by db1 child same) (db_bundles db1) = length sources)) (\<lambda>_.
       put f ''commit'' 0 (write_bundle (started_by db1 child same)
         (lifecycle_update (started_lifecycle (clk (QRecovery ''start'' child)))) db1))))))))))))))"


subsection \<open>Bundles under a write\<close>

lemma find_bundle_write:
  assumes "\<And>b. bn_id (g b) = bn_id b"
  shows "find_bundle (write_bundle p g db) i = map_option (\<lambda>b. if p b then g b else b) (find_bundle db i)"
  using assms by (simp add: find_bundle_def write_bundle_def find_update_rows)

lemma find_bundle_id: "find_bundle db i = Some b \<Longrightarrow> bn_id b = i \<and> b \<in> set (db_bundles db)"
  by (auto simp: find_bundle_def dest: find_SomeD)

lemma find_bundle_mem: "bundles_ok db \<Longrightarrow> b \<in> set (db_bundles db) \<Longrightarrow> find_bundle db (bn_id b) = Some b"
  by (simp add: bundles_ok_def find_bundle_def find_distinct)

lemma bundles_ok_write: "(\<And>b. bn_id (g b) = bn_id b) \<Longrightarrow> bundles_ok (write_bundle p g db) = bundles_ok db"
  by (simp add: bundles_ok_def write_bundle_def map_update_rows)

lemma find_bundle_rows: "db_bundles db' = db_bundles db \<Longrightarrow> find_bundle db' i = find_bundle db i"
  by (simp add: find_bundle_def)

lemma claim_of_rows: "db_bundles db' = db_bundles db \<Longrightarrow> claim_of db' i = claim_of db i"
  by (simp add: claim_of_def find_bundle_def)

lemma write_bundle_frame [simp]:
  "db_reroutes (write_bundle p g db) = db_reroutes db"
  "db_bundle_actions (write_bundle p g db) = db_bundle_actions db"
  "db_recovery_sources (write_bundle p g db) = db_recovery_sources db"
  "db_window_sources (write_bundle p g db) = db_window_sources db"
  "db_windows (write_bundle p g db) = db_windows db"
  "db_memberships (write_bundle p g db) = db_memberships db"
  by (simp_all add: write_bundle_def)

lemma distinct_remdups_adj_sorted: "sorted (xs :: 'a::linorder list) \<Longrightarrow> distinct (remdups_adj xs)"
  by (induction xs rule: remdups_adj.induct) auto

subsection \<open>What a claim leaves\<close>

definition open_to :: "(string \<Rightarrow> string \<Rightarrow> bool) \<Rightarrow> string \<Rightarrow> string option \<Rightarrow> bool" where
  "open_to same token claim = (case claim of None \<Rightarrow> True | Some t \<Rightarrow> same t token)"

lemma claim_one_Inr:
  assumes "claim_one same f clk child token by_operator s db = Inr db'" "bundles_ok db"
  shows "bundles_ok db' \<and> claim_of db' s = Some token \<and> open_to same token (claim_of db s) \<and>
    (\<forall>i. i \<noteq> s \<longrightarrow> find_bundle db' i = find_bundle db i)"
proof -
  let ?p = "claimable same token by_operator s"
  let ?g = "lifecycle_update (claimed_lifecycle (clk (QRecovery ''claim'' s)) child token by_operator)"
  from assms(1) have n: "rows_affected ?p (db_bundles db) = 1"
    and rows: "db_bundles db' = db_bundles (write_bundle ?p ?g db)"
    by (auto simp: claim_one_def res_simps write_bundle_def)
  from n have "0 < rows_affected ?p (db_bundles db)" by simp
  then obtain b where b: "b \<in> set (db_bundles db)" "?p b"
    unfolding rows_affected_pos by blast
  then have fb: "find_bundle db s = Some b"
    using find_bundle_mem [OF assms(2) b(1)] by (simp add: claimable_def)
  have frame: "find_bundle db' i = map_option (\<lambda>b. if ?p b then ?g b else b) (find_bundle db i)" for i
    using find_bundle_rows [OF rows] by (simp add: find_bundle_write)
  have "bundles_ok db'" using assms(2) rows by (simp add: bundles_ok_def write_bundle_def map_update_rows)
  moreover have "claim_of db' s = Some token"
    using b(2) fb frame [of s] by (simp add: claim_of_def claimed_lifecycle_def)
  moreover have "open_to same token (claim_of db s)"
    using b(2) fb by (simp add: claim_of_def claimable_def open_to_def)
  moreover have "find_bundle db' i = find_bundle db i" if "i \<noteq> s" for i
    using that frame [of i] by (cases "find_bundle db i") (auto simp: claimable_def dest: find_bundle_id)
  ultimately show ?thesis by blast
qed

lemma claim_each_Inr:
  "claim_each same f clk child token by_operator ss db = Inr db' \<Longrightarrow> bundles_ok db \<Longrightarrow> distinct ss \<Longrightarrow>
   bundles_ok db' \<and> (\<forall>s \<in> set ss. claim_of db' s = Some token \<and> open_to same token (claim_of db s)) \<and>
   (\<forall>i. i \<notin> set ss \<longrightarrow> find_bundle db' i = find_bundle db i)"
proof (induction ss arbitrary: db)
  case (Cons s ss)
  then obtain db1 where db1: "claim_one same f clk child token by_operator s db = Inr db1"
    "claim_each same f clk child token by_operator ss db1 = Inr db'"
    by (auto simp: and_then_Inr_iff)
  note one = claim_one_Inr [OF db1(1) Cons.prems(2)]
  with Cons.IH [OF db1(2)] Cons.prems(3)
  have rest: "bundles_ok db'" "\<forall>s' \<in> set ss. claim_of db' s' = Some token \<and> open_to same token (claim_of db1 s')"
    "\<forall>i. i \<notin> set ss \<longrightarrow> find_bundle db' i = find_bundle db1 i" by simp_all
  have "claim_of db1 s' = claim_of db s'" if "s' \<in> set ss" for s'
    using that one Cons.prems(3) by (auto simp: claim_of_def)
  moreover have "claim_of db' s = Some token"
    using rest(3) one Cons.prems(3) by (simp add: claim_of_def)
  ultimately show ?case using one rest by auto
qed simp

lemma quarantine_frame [simp]:
  "db_bundles (record_membership child source device created db) = db_bundles db"
  "db_bundles (note_source device source db) = db_bundles db"
  by (simp_all add: record_membership_def note_source_def Let_def)

lemma quarantine_each_bundles:
  "quarantine_each f child is db = Inr db' \<Longrightarrow> db_bundles db' = db_bundles db"
proof (induction "is" arbitrary: db)
  case (Cons i "is")
  then obtain db1 where db1: "quarantine_device f child i db = Inr db1" "quarantine_each f child is db1 = Inr db'"
    by (auto simp: and_then_Inr_iff)
  have "db_bundles db1 = db_bundles db"
    using db1(1) by (auto simp: quarantine_device_def put_def res_simps split: option.splits)
  with Cons.IH [OF db1(2)] show ?case by simp
qed simp

lemma claims_Inr:
  assumes "claim_sources_for_child_on same f clk child ids expected token by_operator db = Inr (own, db')"
    "bundles_ok db"
  shows "bundles_ok db' \<and> (\<forall>s \<in> set ids. claim_of db' s = Some token \<and> open_to same token (claim_of db s)) \<and>
    (\<forall>i. i \<notin> set ids \<longrightarrow> find_bundle db' i = find_bundle db i)"
proof -
  from assms(1) obtain db1 where own: "ownership_for_sources_on f db ids = Inr own"
    and db1: "claim_each same f clk child token by_operator (ow_sources own) db = Inr db1"
      "quarantine_each f child (ow_originals own) db1 = Inr db'"
    by (auto simp: claim_sources_for_child_on_def and_then_Inr_iff)
  from own have ss: "ow_sources own = remdups_adj (sort ids)"
    by (auto simp: ownership_for_sources_on_def Let_def and_then_Inr_iff)
  have "distinct (remdups_adj (sort ids))" by (simp add: distinct_remdups_adj_sorted)
  with claim_each_Inr [OF db1(1) assms(2)] ss
  have "bundles_ok db1 \<and> (\<forall>s \<in> set ids. claim_of db1 s = Some token \<and> open_to same token (claim_of db s)) \<and>
    (\<forall>i. i \<notin> set ids \<longrightarrow> find_bundle db1 i = find_bundle db i)" by simp
  moreover note rows = quarantine_each_bundles [OF db1(2)]
  ultimately show ?thesis
    by (simp only: claim_of_rows [OF rows] find_bundle_rows [OF rows] bundles_ok_def rows) blast
qed

subsection \<open>What ownership means\<close>

lemma source_proof_Inr:
  "source_proof_on f db s = Inr p \<Longrightarrow>
   (\<exists>b. find_bundle db s = Some b \<and> sp_covered p = activation_coverage db b) \<and>
   sp_roots p = count (\<lambda>_. True) (roots db s) \<and> sp_ambiguous p = count (ambiguous db) (roots db s)"
  by (auto simp: source_proof_on_def put_def res_simps)

lemma count_zero: "count p xs = 0 \<longleftrightarrow> (\<forall>x \<in> set xs. \<not> p x)"
  by (auto simp: count_def filter_empty_conv)

lemma unambiguous_root:
  "\<not> ambiguous db r \<Longrightarrow> rr_state r \<in> {Succeeded, Failed} \<and> rr_mutation_effect r \<in> {EffectChanged, EffectNoop}"
  by (cases "rr_state r"; cases "rr_mutation_effect r") (auto simp: ambiguous_def unsettled_def)

lemma source_originals_Inr:
  assumes "source_originals f db s = Inr ids"
  shows "ids = map rr_id (filter (owned_root db) (roots db s)) \<and> (\<forall>r \<in> set (roots db s). \<not> ambiguous db r) \<and>
    (\<exists>b. find_bundle db s = Some b \<and> activation_coverage db b)"
proof -
  from assms obtain p where p: "source_proof_on f db s = Inr p" "sp_covered p" "sp_ambiguous p = 0"
    and ids: "ids = map rr_id (filter (owned_root db) (roots db s))"
    by (auto simp: source_originals_def put_def res_simps)
  with source_proof_Inr [OF p(1)] show ?thesis by (auto simp: count_zero)
qed

lemma originals_of_Inr:
  "originals_of f db ss = Inr ids \<Longrightarrow>
   set ids = (\<Union>s \<in> set ss. rr_id ` {r \<in> set (roots db s). owned_root db r}) \<and>
   (\<forall>s \<in> set ss. (\<forall>r \<in> set (roots db s). \<not> ambiguous db r) \<and>
      (\<exists>b. find_bundle db s = Some b \<and> activation_coverage db b))"
proof (induction ss arbitrary: ids)
  case (Cons s ss)
  then obtain now rest where here: "source_originals f db s = Inr now" "originals_of f db ss = Inr rest"
    and ids: "ids = now @ rest"
    by (auto simp: and_then_Inr_iff)
  from Cons.IH [OF here(2)] source_originals_Inr [OF here(1)] show ?case
    by (simp add: ids)
qed simp

section \<open>Properties\<close>

text \<open>C23: ownership is complete and exact. When it can be established at all, no action of the
  sources is in flight or of unknown effect, and the originals are, newest first, exactly the
  actions that changed a router and were not reversed: an action left out had no effect or has a
  verified inverse.\<close>

theorem ownership_is_exact:
  assumes "ownership_for_sources_on f db ids = Inr own"
  shows "sorted_wrt (\<ge>) (ow_originals own) \<and>
    (\<forall>s \<in> set ids. \<forall>r \<in> set (roots db s).
       rr_state r \<in> {Succeeded, Failed} \<and>
       (if rr_id r \<in> set (ow_originals own) then True
        else rr_mutation_effect r = EffectNoop \<or> reversed db r)) \<and>
    (\<forall>i \<in> set (ow_originals own). \<exists>s \<in> set ids. \<exists>r \<in> set (roots db s).
       rr_id r = i \<and> rr_mutation_effect r = EffectChanged \<and> \<not> reversed db r)"
proof -
  from assms obtain found where found: "originals_of f db (remdups_adj (sort ids)) = Inr found"
    and own: "ow_originals own = rev (sort found)"
    by (auto simp: ownership_for_sources_on_def Let_def and_then_Inr_iff)
  note spec = originals_of_Inr [OF found]
  have "sorted_wrt (\<ge>) (ow_originals own)" by (simp add: own sorted_wrt_rev)
  moreover have "rr_state r \<in> {Succeeded, Failed} \<and> (if rr_id r \<in> set (ow_originals own) then True
        else rr_mutation_effect r = EffectNoop \<or> reversed db r)"
    if "s \<in> set ids" "r \<in> set (roots db s)" for s r
  proof -
    from spec that have "\<not> ambiguous db r" by auto
    from unambiguous_root [OF this] have "rr_state r \<in> {Succeeded, Failed}"
      "rr_mutation_effect r \<in> {EffectChanged, EffectNoop}" by simp_all
    moreover from spec that have "owned_root db r \<Longrightarrow> rr_id r \<in> set (ow_originals own)"
      by (auto simp: own)
    ultimately show ?thesis by (auto simp: owned_root_def)
  qed
  moreover have "\<exists>s \<in> set ids. \<exists>r \<in> set (roots db s).
       rr_id r = i \<and> rr_mutation_effect r = EffectChanged \<and> \<not> reversed db r"
    if "i \<in> set (ow_originals own)" for i
    using that spec by (force simp: own owned_root_def)
  ultimately show ?thesis by blast
qed

text \<open>C14: a source has one recovery at a time. A successful claim leaves its token on every
  source it names, none of which belonged to another token, and until that claim is released a
  child with another token is refused any of them.\<close>

theorem recovery_claims_exclusive:
  assumes "bundles_ok db"
    "claim_sources_for_child_on same f clk child ids expected token by_operator db = Inr (own, db')"
    "s \<in> set ids" "s \<in> set ids'" "\<not> same token token'"
  shows "claim_of db' s = Some token \<and> (case claim_of db s of None \<Rightarrow> True | Some t \<Rightarrow> same t token) \<and>
    is_ok (claim_sources_for_child_on same f' clk' child' ids' expected' token' by_operator' db') = False"
proof -
  from claims_Inr [OF assms(2,1)] assms(3)
  have first: "bundles_ok db'" "claim_of db' s = Some token" "open_to same token (claim_of db s)" by simp_all
  have "is_ok (claim_sources_for_child_on same f' clk' child' ids' expected' token' by_operator' db') = False"
  proof (rule ccontr)
    assume "is_ok (claim_sources_for_child_on same f' clk' child' ids' expected' token' by_operator' db') \<noteq> False"
    then obtain r where r: "claim_sources_for_child_on same f' clk' child' ids' expected' token' by_operator' db' = Inr r"
      by (cases "claim_sources_for_child_on same f' clk' child' ids' expected' token' by_operator' db'") auto
    obtain own' db'' where "r = (own', db'')" by fastforce
    with claims_Inr [of same f' clk' child' ids' expected' token' by_operator' db' own' db''] r first(1) assms(4)
    have "open_to same token' (claim_of db' s)" by simp
    with first(2) assms(5) show False by (simp add: open_to_def)
  qed
  with first show ?thesis by (simp add: open_to_def)
qed


subsection \<open>The timer\<close>

lemma first_due_Some:
  "first_due bs = Some b \<Longrightarrow> b \<in> set bs \<and> (\<forall>c \<in> set bs. \<not> earlier c b)"
proof (induction bs arbitrary: b)
  case (Cons a bs)
  show ?case
  proof (cases "first_due bs")
    case None
    then have "bs = []" by (cases bs) (simp_all split: option.splits)
    with Cons.prems show ?thesis by (auto simp: earlier_def)
  next
    case (Some c)
    note ih = Cons.IH [OF Some]
    from Cons.prems Some have b: "b = (if earlier c a then c else a)" by simp
    show ?thesis
    proof (cases "earlier c a")
      case True
      moreover from True have "\<not> earlier a c" by (auto simp: earlier_def)
      ultimately show ?thesis using ih b by auto
    next
      case False
      have "\<not> earlier d a" if "d \<in> set bs" for d
        using False ih that by (force simp: earlier_def)
      with False b show ?thesis by (auto simp: earlier_def)
    qed
  qed
qed simp

lemma next_due_Some:
  assumes "next_due now db = Some source" "bundles_ok db"
  shows "\<exists>b. find_bundle db source = Some b \<and> due now b \<and>
    (\<forall>c \<in> set (db_bundles db). due now c \<longrightarrow> \<not> earlier c b)"
proof -
  from assms(1) obtain b where b: "first_due (filter (due now) (db_bundles db)) = Some b" "bn_id b = source"
    by (auto simp: next_due_def)
  with first_due_Some [OF b(1)] find_bundle_mem [OF assms(2), of b] show ?thesis by auto
qed

lemma claim_each_attempts:
  "claim_each same f clk child token by_operator ss db = Inr db' \<Longrightarrow>
   db_recovery_sources db' = db_recovery_sources db @
     map (\<lambda>s. \<lparr>rs_child = child, rs_source = s, rs_token = token, rs_settlement = ActiveClaim,
            rs_settled_at = None\<rparr>) ss"
  by (induction ss arbitrary: db) (auto simp: and_then_Inr_iff claim_one_def put_def res_simps)

lemma quarantine_each_attempts:
  "quarantine_each f child is db = Inr db' \<Longrightarrow> db_recovery_sources db' = db_recovery_sources db"
proof (induction "is" arbitrary: db)
  case (Cons i "is")
  then obtain db1 where db1: "quarantine_device f child i db = Inr db1" "quarantine_each f child is db1 = Inr db'"
    by (auto simp: and_then_Inr_iff)
  have "db_recovery_sources (record_membership child source device created (note_source device' source' db)) =
      db_recovery_sources db" for source device created device' source'
    by (simp add: record_membership_def note_source_def Let_def)
  then have "db_recovery_sources db1 = db_recovery_sources db"
    using db1(1) by (auto simp: quarantine_device_def put_def res_simps split: option.splits)
  with Cons.IH [OF db1(2)] show ?case by simp
qed simp

lemma claims_attempts:
  assumes "claim_sources_for_child_on same f clk child ids expected token by_operator db = Inr (own, db')"
    "s \<in> set ids"
  shows "attempted db' child s"
proof -
  from assms(1) obtain db1 where own: "ownership_for_sources_on f db ids = Inr own"
    and db1: "claim_each same f clk child token by_operator (ow_sources own) db = Inr db1"
      "quarantine_each f child (ow_originals own) db1 = Inr db'"
    by (auto simp: claim_sources_for_child_on_def and_then_Inr_iff)
  from own have "set (ow_sources own) = set ids"
    by (auto simp: ownership_for_sources_on_def Let_def and_then_Inr_iff)
  with assms(2) claim_each_attempts [OF db1(1)] quarantine_each_attempts [OF db1(2)] show ?thesis
    by (force simp: attempted_def list_ex_iff)
qed

lemma insert_child_bundles:
  "bundles_ok db \<Longrightarrow> find_bundle db (db_next_bundle db) = None \<Longrightarrow>
   bundles_ok (insert_child now source originals db)"
  by (auto simp: bundles_ok_def insert_child_def child_row_def find_bundle_def find_None_iff)

text \<open>C28: a revert timer starts a recovery only with consent, in deadline order, and as a claim.
  If the admission leaves any trace, the controller enforces, automatic actions are enabled, the
  source was due with no earlier timer, unclaimed and not cancelled, asked for a revert within
  a week, and now belongs to the new child alone.\<close>

theorem timer_recovery_admission:
  assumes "bundles_ok db" "find_bundle db (db_next_bundle db) = None"
    "admit_one_due_with_failure same f clk cfg enforce secret fail_before_commit db = (r, db')" "db' \<noteq> db"
  shows "operating_mode f ''timer'' enforce db \<and>
    bool_setting f db ''automatic_actions_enabled'' (cf_automatic_enabled cfg) \<and> \<not> fail_before_commit \<and>
    (\<exists>source b. find_bundle db source = Some b \<and> due (clk (QRecovery ''candidate'' 0)) b \<and>
       (\<forall>c \<in> set (db_bundles db). due (clk (QRecovery ''candidate'' 0)) c \<longrightarrow> \<not> earlier c b) \<and>
       claim_of db' source = Some (''timer-recovery:'' @ secret) \<and>
       attempted db' (db_next_bundle db) source)"
proof -
  let ?now = "clk (QRecovery ''candidate'' 0)"
  from assms(3,4) have consent: "timer_consent f cfg enforce db"
    and "\<exists>admitted. admit_due same f clk secret fail_before_commit db = Inr (admitted, db')"
    by (auto simp: admit_one_due_with_failure_def split: sum.splits if_splits)
  then obtain admitted where admit: "admit_due same f clk secret fail_before_commit db = Inr (admitted, db')"
    by blast
  obtain source where source: "next_due ?now db = Some source"
    using admit assms(4) by (cases "next_due ?now db") (auto simp: admit_due_def put_def res_simps)
  with admit obtain own own' :: ownership where claim: "claim_sources_for_child_on same f clk (db_next_bundle db) [source] (ow_originals own)
       (''timer-recovery:'' @ secret) False
       (insert_child (clk (QRecovery ''child'' source)) source (ow_originals own) db) = Inr (own', db')"
    by (auto simp: admit_due_def put_def res_simps split: prod.splits)
  moreover from admit source have "\<not> fail_before_commit"
    by (auto simp: admit_due_def put_def res_simps split: prod.splits)
  ultimately show ?thesis
    using claims_Inr [OF claim insert_child_bundles [OF assms(1,2)]] claims_attempts [OF claim]
    next_due_Some [OF source assms(1)] consent
    by (auto simp: timer_consent_def)
qed

subsection \<open>A timer that comes due\<close>

definition changed_row :: reroute_row where
  "changed_row = planned_row\<lparr>rr_state := Succeeded, rr_mutation_effect := EffectChanged,
     rr_bundle_id := Some 1, rr_bundle_position := Some 0\<rparr>"

definition due_bundle :: bundle_row where
  "due_bundle = (slot_bundle 1 BundleSucceeded 0 0)\<lparr>bn_finished_at := Some 10,
     bn_source := JObj [(''revert_after_seconds'', JNum (PosInt 60))],
     bn_lifecycle := no_lifecycle\<lparr>lf_state := RecoveryScheduled, lf_remaining := 1, lf_deadline := Some 70\<rparr>\<rparr>"

definition due_database :: database where
  "due_database = empty_database\<lparr>db_reroutes := [changed_row], db_bundles := [due_bundle],
     db_next_bundle := 2, db_settings := [(''operating_mode'', ''enforce''), (''automatic_actions_enabled'', ''true'')]\<rparr>"

lemmas due_world = due_database_def due_bundle_def changed_row_def planned_row_def slot_bundle_def
  no_lifecycle_def empty_database_def

lemma due_database_ok: "bundles_ok due_database" "find_bundle due_database 2 = None"
  by (simp_all add: due_world bundles_ok_def find_bundle_def)

lemma due_ownership:
  "ownership_for_sources_on no_faults due_database [1] = Inr \<lparr>ow_sources = [1], ow_originals = [1]\<rparr>"
  by code_simp

lemma due_claim:
  "is_ok (claim_sources_for_child_on (=) no_faults (\<lambda>_. 100) 2 [1] [1] ''t'' False due_database)"
  by code_simp

theorem ownership_is_exact_witness:
  "sorted_wrt (\<ge>) (ow_originals \<lparr>ow_sources = [1], ow_originals = [1 :: u64]\<rparr>) \<and>
    list_all (\<lambda>r. rr_state r \<in> {Succeeded, Failed} \<and>
       (if rr_id r \<in> {1} then True else rr_mutation_effect r = EffectNoop \<or> reversed due_database r))
      (roots due_database 1) \<and>
    (\<exists>r \<in> set (roots due_database 1).
       rr_id r = 1 \<and> rr_mutation_effect r = EffectChanged \<and> \<not> reversed due_database r)"
  using ownership_is_exact [OF due_ownership] by (simp add: list_all_iff)

theorem recovery_claims_exclusive_witness:
  "\<exists>own db'. claim_sources_for_child_on (=) no_faults (\<lambda>_. 100) 2 [1] [1] ''t'' False due_database = Inr (own, db') \<and>
    claim_of db' 1 = Some ''t'' \<and>
    (case claim_of due_database 1 of None \<Rightarrow> True | Some t \<Rightarrow> t = ''t'') \<and>
    is_ok (claim_sources_for_child_on (=) no_faults (\<lambda>_. 100) 3 [1] [1] ''u'' False db') = False"
proof -
  from due_claim obtain own db' where c:
    "claim_sources_for_child_on (=) no_faults (\<lambda>_. 100) 2 [1] [1] ''t'' False due_database = Inr (own, db')"
    by (cases "claim_sources_for_child_on (=) no_faults (\<lambda>_. 100) 2 [1] [1] ''t'' False due_database") auto
  from recovery_claims_exclusive [OF due_database_ok(1) c, of 1 "[1]" "''u''" no_faults "\<lambda>_. 100" 3 "[1]" False] c
  show ?thesis by simp
qed

lemma due_admission:
  "case admit_one_due_with_failure (=) no_faults (\<lambda>_. 100) sample_config False ''s'' False due_database of
     (r, db') \<Rightarrow> is_ok r \<and> db_next_bundle db' = 3"
  by code_simp

theorem timer_recovery_admission_witness:
  "operating_mode no_faults ''timer'' False due_database \<and>
    bool_setting no_faults due_database ''automatic_actions_enabled'' (cf_automatic_enabled sample_config) \<and>
    \<not> False \<and>
    (\<exists>source b. find_bundle due_database source = Some b \<and> due ((\<lambda>_. 100) (QRecovery ''candidate'' 0)) b \<and>
       (\<forall>c \<in> set (db_bundles due_database). due ((\<lambda>_. 100) (QRecovery ''candidate'' 0)) c \<longrightarrow> \<not> earlier c b) \<and>
       claim_of (snd (admit_one_due_with_failure (=) no_faults (\<lambda>_. 100) sample_config False ''s'' False
         due_database)) source = Some (''timer-recovery:'' @ ''s'') \<and>
       attempted (snd (admit_one_due_with_failure (=) no_faults (\<lambda>_. 100) sample_config False ''s'' False
         due_database)) (db_next_bundle due_database) source)"
proof (rule timer_recovery_admission [OF due_database_ok(1)])
  have nb: "db_next_bundle due_database = 2" by (simp add: due_world)
  from nb show "find_bundle due_database (db_next_bundle due_database) = None" by (simp add: due_database_ok)
  let ?after = "snd (admit_one_due_with_failure (=) no_faults (\<lambda>_. 100) sample_config False ''s'' False due_database)"
  have "db_next_bundle ?after = 3" using due_admission by (simp add: case_prod_beta)
  with nb show "?after \<noteq> due_database" by auto
qed (simp add: prod_eq_iff)

end
