(* ===== verification/Settlement.thy ===== *)
theory Settlement
  imports Recovery
begin

text \<open>
  The settlement of a recovery child: \<open>finalize_recovery_child\<close> of
  \<open>src/backend-rust/src/reroute/recovery.rs\<close> with the two functions that end a failed
  recovery. Each source of
  the child ends restored, known to have seen no write, or blocked. Claim tokens are compared
  as Rust compares them where Rust does, and with \<open>same\<close> where MySQL does; the tokens of
  repaired rows all start with the literal \<open>legacy:child:\<close>.
\<close>

subsection \<open>What a source is settled to\<close>

definition settled :: "settlement \<Rightarrow> bool" where
  "settled s = (s \<in> {Restored, KnownNoWrite})"

definition dangerous :: "u64 \<Rightarrow> reroute_row \<Rightarrow> bool" where
  "dangerous child r =
     (rr_bundle_id r = Some child \<and>
      (rr_state r \<in> {Pending, Running, Verifying, Uncertain} \<or>
       rr_mutation_effect r \<in> {EffectPending, EffectUnknown} \<or>
       rr_state r = Failed \<and> rr_mutation_effect r = EffectChanged))"

text \<open>\<open>JSON_LENGTH\<close>, which is \<open>NULL\<close> for a missing member.\<close>

fun json_length :: "json \<Rightarrow> nat" where
  "json_length (JArr xs) = length xs"
| "json_length (JObj m) = length m"
| "json_length _ = 1"

definition immutable_plan :: "u64 \<Rightarrow> u32 \<Rightarrow> plan_row \<Rightarrow> bool" where
  "immutable_plan child n p =
     (ep_bundle_id p = Some child \<and> ep_consumed_at p \<noteq> None \<and>
      holds (\<lambda>v. json_length v = unat n) (json_get (ep_snapshot p) ''actions''))"

definition prewrite_marker :: "database \<Rightarrow> u64 \<Rightarrow> bundle_row \<Rightarrow> bool" where
  "prewrite_marker db child b =
     (bn_id b = child \<and> bn_state b = BundlePlanned \<and> get_str (bn_source b) ''kind'' = Some ''recovery'' \<and>
      get_str (bn_source b) ''preparation_phase'' \<in> {Some ''published'', Some ''preparing''} \<and>
      \<not> list_ex (\<lambda>r. rr_bundle_id r = Some child) (db_reroutes db))"

definition mappings :: "database \<Rightarrow> u64 \<Rightarrow> attempt_source list" where
  "mappings db child = sort_key rs_source (filter (\<lambda>a. rs_child a = child) (db_recovery_sources db))"

definition legacy_takeover :: "int \<Rightarrow> u64 \<Rightarrow> database \<Rightarrow> database" where
  "legacy_takeover now child db =
     (let mine = (\<lambda>b a. rs_child a = child \<and> rs_source a = bn_id b \<and>
            rs_settlement a \<in> {ActiveClaim, BlockedClaim} \<and> starts_with ''legacy:child:'' (rs_token a));
          attempt = (\<lambda>b. List.find (mine b) (db_recovery_sources db))
      in write_bundle (\<lambda>b. lf_claim (bn_lifecycle b) = None \<and> attempt b \<noteq> None)
           (\<lambda>b. case attempt b of None \<Rightarrow> b | Some a \<Rightarrow>
              lifecycle_update (\<lambda>l. l\<lparr>lf_claim := Some (rs_token a), lf_recovery_bundle := Some child,
                 lf_claimed_at := (case lf_claimed_at l of Some t \<Rightarrow> Some t | None \<Rightarrow> Some now)\<rparr>) b) db)"

definition stale_claim :: "database \<Rightarrow> attempt_source \<Rightarrow> bool" where
  "stale_claim db a = (\<not> settled (rs_settlement a) \<and> claim_of db (rs_source a) \<noteq> Some (rs_token a))"

definition complete_plan :: "database \<Rightarrow> plan_row list \<Rightarrow> bundle_row \<Rightarrow> bool" where
  "complete_plan db plans b =
     (int (length (bundle_actions db (bn_id b))) = int (unat (bn_total_actions b)) \<or>
      bn_state b = BundlePlanned \<and>
      (count (immutable_plan (bn_id b) (bn_total_actions b)) plans = 1 \<or>
       count (prewrite_marker db (bn_id b)) (db_bundles db) = 1))"

definition settlement_of ::
    "bool \<Rightarrow> bundle_state \<Rightarrow> bool \<Rightarrow> settlement \<Rightarrow> i64 \<Rightarrow> i64 \<Rightarrow> settlement" where
  "settlement_of freeze terminal claim_matches prior remaining root_count =
     (if freeze \<or> \<not> (settled prior \<or> claim_matches) \<or> terminal = BundleSucceeded \<and> 0 < remaining
      then BlockedClaim
      else if remaining = 0 \<and> 0 < root_count then Restored
      else KnownNoWrite)"

subsection \<open>What a settlement does\<close>

definition member_device :: "database \<Rightarrow> u64 \<Rightarrow> bool" where
  "member_device db device = list_ex (\<lambda>(d, _). d = device) (db_window_sources db)"

definition settle_attempt ::
    "int \<Rightarrow> u64 \<Rightarrow> u64 \<Rightarrow> settlement \<Rightarrow> bool \<Rightarrow> database \<Rightarrow> database" where
  "settle_attempt now child source s unchanged db =
     db\<lparr>db_recovery_sources := update_rows (\<lambda>a. rs_child a = child \<and> rs_source a = source)
          (\<lambda>a. a\<lparr>rs_settlement := s,
             rs_settled_at := (if unchanged then rs_settled_at a else Some now)\<rparr>) (db_recovery_sources db)\<rparr>"

definition held_by :: "(string \<Rightarrow> string \<Rightarrow> bool) \<Rightarrow> u64 \<Rightarrow> string \<Rightarrow> bundle_row \<Rightarrow> bool" where
  "held_by same source token b =
     (bn_id b = source \<and> holds (\<lambda>t. same t token) (lf_claim (bn_lifecycle b)))"

definition released_lifecycle :: "lifecycle_state \<Rightarrow> string option \<Rightarrow> bundle_lifecycle \<Rightarrow> bundle_lifecycle" where
  "released_lifecycle st reason l =
     l\<lparr>lf_state := st, lf_claim := None, lf_claimed_at := None, lf_started_at := None,
       lf_recovery_bundle := None, lf_deadline := None, lf_block_reason := reason\<rparr>"

definition restored_row :: "bundle_row \<Rightarrow> bundle_row" where
  "restored_row b =
     b\<lparr>bn_state := (if bn_state b \<in> {BundleAborted, BundleCompensationBlocked} then BundleCompensated
                    else bn_state b),
       bn_lifecycle := (released_lifecycle Inactive None (bn_lifecycle b))\<lparr>lf_remaining := 0\<rparr>\<rparr>"

definition retryable_row :: "string \<Rightarrow> bundle_row \<Rightarrow> bundle_row" where
  "retryable_row reason b =
     lifecycle_update (\<lambda>l. released_lifecycle (resting_state l) (Some reason) l) b"

definition blocked_row :: "string \<Rightarrow> bundle_row \<Rightarrow> bundle_row" where
  "blocked_row reason b =
     lifecycle_update (\<lambda>l. l\<lparr>lf_state := RecoveryBlocked, lf_block_reason := Some reason\<rparr>) b"

definition write_if ::
    "bool \<Rightarrow> (bundle_row \<Rightarrow> bool) \<Rightarrow> (bundle_row \<Rightarrow> bundle_row) \<Rightarrow> database \<Rightarrow> database" where
  "write_if c p g db = (if c then write_bundle p g db else db)"

definition drop_source_windows :: "u64 \<Rightarrow> database \<Rightarrow> database" where
  "drop_source_windows source db =
     (let db1 = db\<lparr>db_window_sources := filter (\<lambda>(_, s). s \<noteq> source) (db_window_sources db)\<rparr>
      in db1\<lparr>db_windows := filter (\<lambda>w. \<not> (cw_bundle_id w = Some source \<and>
            \<not> member_device db1 (cw_device_id w))) (db_windows db1)\<rparr>)"

definition drop_attempt_memberships :: "int \<Rightarrow> u64 \<Rightarrow> u64 \<Rightarrow> database \<Rightarrow> database" where
  "drop_attempt_memberships now child source db =
     (let mine = (\<lambda>m. am_child m = child \<and> am_source m = source \<and> am_created m)
      in db\<lparr>db_window_sources := filter (\<lambda>(d, s). \<not> list_ex (\<lambda>m. mine m \<and> am_released_at m = None \<and>
                 am_device m = d \<and> am_source m = s) (db_memberships db)) (db_window_sources db),
            db_memberships := update_rows mine (\<lambda>m. m\<lparr>am_released_at :=
                 (case am_released_at m of Some t \<Rightarrow> Some t | None \<Rightarrow> Some now)\<rparr>) (db_memberships db)\<rparr>)"

fun apply_settlement ::
    "(string \<Rightarrow> string \<Rightarrow> bool) \<Rightarrow> int \<Rightarrow> u64 \<Rightarrow> string option \<Rightarrow> attempt_source \<Rightarrow> bool \<Rightarrow> settlement \<Rightarrow>
     database \<Rightarrow> database" where
  "apply_settlement same now child reason a matches Restored db =
     drop_source_windows (rs_source a)
       (write_if matches (held_by same (rs_source a) (rs_token a)) restored_row db)"
| "apply_settlement same now child reason a matches KnownNoWrite db =
     drop_attempt_memberships now child (rs_source a)
       (write_if matches (held_by same (rs_source a) (rs_token a))
         (retryable_row (case reason of Some t \<Rightarrow> t | None \<Rightarrow> ''recovery failed before any router write'')) db)"
| "apply_settlement same now child reason a matches _ db =
     write_if matches (held_by same (rs_source a) (rs_token a))
       (blocked_row (case reason of Some t \<Rightarrow> t | None \<Rightarrow> ''recovery outcome is unproven'')) db"

text \<open>The loop over the sources. \<open>claims\<close> and \<open>proofs\<close> were read before it;
  what remains of a source is read inside it.\<close>

definition verdict_of ::
    "database \<Rightarrow> bool \<Rightarrow> bundle_state \<Rightarrow> (u64 \<Rightarrow> string option) \<Rightarrow> (u64 \<Rightarrow> source_proof) \<Rightarrow> attempt_source \<Rightarrow>
     settlement" where
  "verdict_of db freeze terminal claims proofs a =
     settlement_of freeze terminal (claims (rs_source a) = Some (rs_token a)) (rs_settlement a)
       (remaining_roots db (rs_source a)) (sp_roots (proofs (rs_source a)))"

fun settle_each ::
    "(string \<Rightarrow> string \<Rightarrow> bool) \<Rightarrow> faults \<Rightarrow> clock \<Rightarrow> u64 \<Rightarrow> string option \<Rightarrow> bool \<Rightarrow> bundle_state \<Rightarrow>
     (u64 \<Rightarrow> string option) \<Rightarrow> (u64 \<Rightarrow> source_proof) \<Rightarrow> attempt_source list \<Rightarrow> database \<Rightarrow>
     recovery_failure + (settlement list \<times> database)" where
  "settle_each same f clk child reason freeze terminal claims proofs [] db = Inr ([], db)"
| "settle_each same f clk child reason freeze terminal claims proofs (a # rest) db =
     and_then (put f ''settle'' (rs_source a) (verdict_of db freeze terminal claims proofs a)) (\<lambda>s.
     (let now = clk (QRecovery ''settle'' (rs_source a));
          db1 = apply_settlement same now child reason a (claims (rs_source a) = Some (rs_token a)) s
            (settle_attempt now child (rs_source a) s (rs_settlement a = s) db)
      in and_then (settle_each same f clk child reason freeze terminal claims proofs rest db1)
           (\<lambda>(ss, db2). Inr (s # ss, db2))))"

subsection \<open>The child\<close>

definition final_state_of :: "bundle_state \<Rightarrow> settlement list \<Rightarrow> bundle_state" where
  "final_state_of terminal ss =
     (if BlockedClaim \<in> set ss then BundleCompensationBlocked
      else if list_all (\<lambda>s. s = Restored) ss then BundleSucceeded
      else if KnownNoWrite \<in> set ss then BundleFailed
      else terminal)"

definition close_child ::
    "int \<Rightarrow> u64 \<Rightarrow> bundle_state \<Rightarrow> bundle_state \<Rightarrow> string option \<Rightarrow> database \<Rightarrow> database" where
  "close_child now child current final reason =
     write_bundle (\<lambda>b. bn_id b = child \<and> bn_state b \<noteq> BundleCompensated)
       (\<lambda>b. b\<lparr>bn_failure_reason := (if current = final then bn_failure_reason b else reason),
          bn_state := final, bn_rate_reserved := 0,
          bn_finished_at := (case bn_finished_at b of Some t \<Rightarrow> Some t | None \<Rightarrow> Some now)\<rparr>)"

definition quarantine_token :: "u64 \<Rightarrow> string" where
  "quarantine_token device = ''quarantine:device:'' @ show_word device"

definition quarantined_window :: "string \<Rightarrow> change_window \<Rightarrow> change_window" where
  "quarantined_window phase w =
     w\<lparr>cw_bundle_id := None, cw_reroute_id := None,
       cw_owner_token := quarantine_token (cw_device_id w), cw_phase := phase\<rparr>"

definition close_windows ::
    "(string \<Rightarrow> string \<Rightarrow> bool) \<Rightarrow> u64 \<Rightarrow> string \<Rightarrow> settlement list \<Rightarrow> database \<Rightarrow> database" where
  "close_windows same child owner ss db =
     (if BlockedClaim \<in> set ss
      then db\<lparr>db_windows := update_rows (\<lambda>w. cw_bundle_id w = Some child)
             (quarantined_window ''uncertain'') (db_windows db)\<rparr>
      else if KnownNoWrite \<in> set ss
      then (let kept = update_rows (\<lambda>w. owned_by same child owner w \<and> member_device db (cw_device_id w))
                         (quarantined_window ''prepared'') (db_windows db)
            in db\<lparr>db_windows := filter (\<lambda>w. \<not> (owned_by same child owner w \<and>
                    \<not> member_device db (cw_device_id w))) kept\<rparr>)
      else db\<lparr>db_windows := filter (\<lambda>w. \<not> (\<not> member_device db (cw_device_id w) \<and>
               (cw_bundle_id w = Some child \<or>
                cw_bundle_id w = None \<and> same (cw_owner_token w) (quarantine_token (cw_device_id w))) \<and>
               list_ex (\<lambda>a. ba_bundle_id a = child \<and> ba_device_id a = cw_device_id w) (db_bundle_actions db)))
             (db_windows db)\<rparr>)"

definition settlement_event :: "settlement list \<Rightarrow> string" where
  "settlement_event ss =
     (if BlockedClaim \<in> set ss then ''recovery_blocked''
      else if KnownNoWrite \<in> set ss then ''recovery_retryable'' else ''recovery_settled'')"

text \<open>One audit row per event and one alert per child, however often it is settled.\<close>

definition audit_settlement :: "u64 \<Rightarrow> string option \<Rightarrow> settlement list \<Rightarrow> database \<Rightarrow> database" where
  "audit_settlement child reason ss db =
     (let event = settlement_event ss
      in if list_ex (\<lambda>(e, i, _). e = event \<and> i = child) (db_bundle_audit db) then db
         else db\<lparr>db_bundle_audit := db_bundle_audit db @
           [(event, child, case reason of Some t \<Rightarrow> t | None \<Rightarrow> event)]\<rparr>)"

definition alert_settlement :: "u64 \<Rightarrow> settlement list \<Rightarrow> database \<Rightarrow> database" where
  "alert_settlement child ss db =
     (let key = ''recovery_degraded:child:'' @ show_word child
      in if BlockedClaim \<in> set ss \<and> \<not> list_ex (\<lambda>a. al_dedup_key a = key) (db_alerts db)
         then record_alert ''recovery_degraded'' ''critical'' None key db else db)"

fun proofs_of :: "faults \<Rightarrow> database \<Rightarrow> attempt_source list \<Rightarrow> recovery_failure + source_proof list" where
  "proofs_of f db [] = Inr []"
| "proofs_of f db (a # rest) =
     and_then (source_proof_on f db (rs_source a)) (\<lambda>p.
     and_then (proofs_of f db rest) (\<lambda>ps. Inr (p # ps)))"

definition proof_for :: "attempt_source list \<Rightarrow> source_proof list \<Rightarrow> u64 \<Rightarrow> source_proof" where
  "proof_for ms ps source =
     (case map_of (zip (map rs_source ms) ps) source of
        Some p \<Rightarrow> p
      | None \<Rightarrow> \<lparr>sp_roots = 0, sp_covered = False, sp_ambiguous = 0\<rparr>)"

definition freezes ::
    "database \<Rightarrow> plan_row list \<Rightarrow> bundle_row \<Rightarrow> attempt_source list \<Rightarrow> source_proof list \<Rightarrow> bool" where
  "freezes db plans b ms ps =
     (list_ex (stale_claim db) ms \<or> 0 < count (dangerous (bn_id b)) (db_reroutes db) \<or>
      \<not> complete_plan db plans b \<or> list_ex (\<lambda>p. \<not> sp_covered p) ps \<or> list_ex (\<lambda>p. 0 < sp_ambiguous p) ps)"

definition terminal_child :: "bundle_state \<Rightarrow> bool" where
  "terminal_child st = (st \<in> {BundleSucceeded, BundleFailed, BundleAborted, BundleCompensationBlocked})"

text \<open>The transaction; its reads and writes outside the loops share one fault each.\<close>

definition settle_child ::
    "(string \<Rightarrow> string \<Rightarrow> bool) \<Rightarrow> faults \<Rightarrow> clock \<Rightarrow> plan_row list \<Rightarrow> u64 \<Rightarrow> bundle_state \<Rightarrow> string option \<Rightarrow>
     string \<Rightarrow> database \<Rightarrow> recovery_failure + (settlement list \<times> database)" where
  "settle_child same f clk plans child terminal reason owner db =
     and_then (put f ''begin'' child (find_bundle db child)) (\<lambda>row.
     and_then (ok_or MissingChild row) (\<lambda>b.
     and_then (put f ''mappings'' child (mappings db child)) (\<lambda>ms.
     and_then (ensure NoAssociation (ms \<noteq> [])) (\<lambda>_.
     and_then (put f ''takeover'' child (legacy_takeover (clk (QRecovery ''takeover'' child)) child db)) (\<lambda>db1.
     and_then (put f ''evidence'' child ()) (\<lambda>_.
     and_then (proofs_of f db1 ms) (\<lambda>ps.
     and_then (settle_each same f clk child reason (freezes db1 plans b ms ps) terminal (claim_of db1)
         (proof_for ms ps) ms db1) (\<lambda>(ss, db2).
     and_then (put f ''close'' child ()) (\<lambda>_.
       put f ''commit'' child (ss,
         alert_settlement child ss (audit_settlement child reason ss (close_windows same child owner ss
           (close_child (clk (QRecovery ''close'' child)) child (bn_state b) (final_state_of terminal ss)
             reason db2)))))))))))))"

definition finalize_recovery_child ::
    "(string \<Rightarrow> string \<Rightarrow> bool) \<Rightarrow> faults \<Rightarrow> clock \<Rightarrow> plan_row list \<Rightarrow> u64 \<Rightarrow> bundle_state \<Rightarrow> string option \<Rightarrow>
     string \<Rightarrow> database \<Rightarrow> recovery_failure + database" where
  "finalize_recovery_child same f clk plans child terminal reason owner db =
     and_then (ensure InvalidTerminal (terminal_child terminal)) (\<lambda>_.
     and_then (settle_child same f clk plans child terminal reason owner db) (\<lambda>(_, db'). Inr db'))"

subsection \<open>Ending a failed recovery\<close>

definition unproven_write :: "u64 \<Rightarrow> reroute_row \<Rightarrow> bool" where
  "unproven_write child r =
     (rr_bundle_id r = Some child \<and> (rr_state r \<in> {Pending, Running, Verifying, Uncertain} \<or>
        rr_mutation_effect r \<in> {EffectChanged, EffectUnknown}))"

definition recovery_owner :: "u64 \<Rightarrow> string" where
  "recovery_owner child = ''recovery:bundle:'' @ show_word child"

definition release_claim_if_proven_no_write ::
    "(string \<Rightarrow> string \<Rightarrow> bool) \<Rightarrow> faults \<Rightarrow> clock \<Rightarrow> plan_row list \<Rightarrow> u64 \<Rightarrow> u64 option \<Rightarrow> string \<Rightarrow> database \<Rightarrow>
     (recovery_failure + bool) \<times> database" where
  "release_claim_if_proven_no_write same f clk plans source child_id reason db =
     (let child = (case child_id of Some i \<Rightarrow> Inr (Some i)
            | None \<Rightarrow> put f ''child'' source (Option.bind (find_bundle db source)
                        (\<lambda>b. lf_recovery_bundle (bn_lifecycle b))))
      in case and_then child (\<lambda>c.
            and_then (put f ''mapped'' source (case c of None \<Rightarrow> False | Some i \<Rightarrow> attempted db i source)) (\<lambda>m.
              Inr (c, m))) of
           Inl e \<Rightarrow> (Inl e, db)
         | Inr (Some i, True) \<Rightarrow>
             (case finalize_recovery_child same f clk plans i BundleFailed (Some reason) (recovery_owner i) db of
                Inl e \<Rightarrow> (Inl e, db)
              | Inr db' \<Rightarrow>
                  (put f ''settlement'' source (map_option rs_settlement (List.find
                     (\<lambda>a. rs_child a = i \<and> rs_source a = source) (db_recovery_sources db')) = Some KnownNoWrite), db'))
         | Inr (c, _) \<Rightarrow>
             (case put f ''unsafe'' source (case c of None \<Rightarrow> 0
                     | Some i \<Rightarrow> count (unproven_write i) (db_reroutes db)) of
                Inl e \<Rightarrow> (Inl e, db)
              | Inr n \<Rightarrow>
                  if 0 < n then (Inr False, db)
                  else case put f ''release'' source () of
                    Inl e \<Rightarrow> (Inl e, db)
                  | Inr _ \<Rightarrow> (Inr True, write_bundle (\<lambda>b. bn_id b = source) (retryable_row reason) db)))"

fun settle_unmapped ::
    "(string \<Rightarrow> string \<Rightarrow> bool) \<Rightarrow> faults \<Rightarrow> clock \<Rightarrow> plan_row list \<Rightarrow> u64 list \<Rightarrow> u64 \<Rightarrow> string \<Rightarrow> database \<Rightarrow>
     (recovery_failure + unit) \<times> database" where
  "settle_unmapped same f clk plans [] child reason db = (Inr (), db)"
| "settle_unmapped same f clk plans (s # ss) child reason db =
     (case release_claim_if_proven_no_write same f clk plans s (Some child) reason db of
        (Inl e, db1) \<Rightarrow> (Inl e, db1)
      | (Inr True, db1) \<Rightarrow> settle_unmapped same f clk plans ss child reason db1
      | (Inr False, db1) \<Rightarrow>
          (case put f ''block'' s () of
             Inl e \<Rightarrow> (Inl e, db1)
           | Inr _ \<Rightarrow> settle_unmapped same f clk plans ss child reason
               (write_bundle (\<lambda>b. bn_id b = s) (blocked_row reason) db1)))"

definition settle_failed_recovery_sources ::
    "(string \<Rightarrow> string \<Rightarrow> bool) \<Rightarrow> faults \<Rightarrow> clock \<Rightarrow> plan_row list \<Rightarrow> u64 list \<Rightarrow> u64 \<Rightarrow> string \<Rightarrow> database \<Rightarrow>
     (recovery_failure + unit) \<times> database" where
  "settle_failed_recovery_sources same f clk plans sources child reason db =
     (case put f ''attempts'' child (list_ex (\<lambda>a. rs_child a = child) (db_recovery_sources db)) of
        Inl e \<Rightarrow> (Inl e, db)
      | Inr True \<Rightarrow>
          (case finalize_recovery_child same f clk plans child BundleFailed (Some reason) (recovery_owner child) db of
             Inl e \<Rightarrow> (Inl e, db)
           | Inr db' \<Rightarrow> (Inr (), db'))
      | Inr False \<Rightarrow> settle_unmapped same f clk plans sources child reason db)"


subsection \<open>A worker that could not run\<close>

text \<open>\<open>settle_worker_failure\<close>, \<open>quarantine_interrupted_worker_bundle\<close> and
  \<open>submit_scheduled_recovery_worker\<close> of \<open>detection/engine.rs\<close>, for a recovery.
  \<open>accepted\<close> says whether the worker queue took the job; what the job does once it runs is
  not part of the submission.\<close>

definition interrupted_row :: "int \<Rightarrow> string \<Rightarrow> reroute_row \<Rightarrow> reroute_row" where
  "interrupted_row now reason r =
     r\<lparr>rr_state := Uncertain, rr_success := None, rr_mutation_effect := EffectUnknown,
       rr_verification_status := Some ''uncertain'', rr_finished_at := Some now,
       rr_failure_reason := Some reason\<rparr>"

definition interrupted :: "u64 \<Rightarrow> reroute_row \<Rightarrow> bool" where
  "interrupted bundle r =
     (rr_bundle_id r = Some bundle \<and> rr_state r \<in> {Planned, Pending, Running, Verifying})"

fun quarantine_rows :: "faults \<Rightarrow> clock \<Rightarrow> string \<Rightarrow> reroute_row list \<Rightarrow> database \<Rightarrow> recovery_failure + database" where
  "quarantine_rows f clk reason [] db = Inr db"
| "quarantine_rows f clk reason (r # rs) db =
     and_then (put f ''interrupt'' (rr_id r) (rr_device_id r)) (\<lambda>device.
     and_then (ok_or (MissingDevice (rr_id r)) device) (\<lambda>d.
       quarantine_rows f clk reason rs
         (let db1 = db\<lparr>db_reroutes := update_rows
                (\<lambda>x. rr_id x = rr_id r \<and> rr_state x \<in> {Planned, Pending, Running, Verifying})
                (interrupted_row (clk (QRecovery ''interrupt'' (rr_id r))) reason) (db_reroutes db)\<rparr>
          in if list_ex (\<lambda>l. lk_reroute_id l = Some (rr_id r) \<and> lk_cleared_at l = None) (db_locks db1) then db1
             else insert_lock ''device'' (Some (show_word d)) (Some (rr_id r)) ''auto_uncertain'' reason None db1)))"

definition quarantine_interrupted_worker_bundle ::
    "faults \<Rightarrow> clock \<Rightarrow> u64 \<Rightarrow> string \<Rightarrow> database \<Rightarrow> recovery_failure + database" where
  "quarantine_interrupted_worker_bundle f clk bundle reason db =
     and_then (put f ''begin'' bundle (filter (interrupted bundle) (db_reroutes db))) (\<lambda>rows.
     and_then (quarantine_rows f clk reason rows db) (\<lambda>db1.
     and_then (put f ''interrupted'' bundle ()) (\<lambda>_.
     (let db2 = write_bundle (\<lambda>b. bn_id b = bundle \<and> bn_state b \<in> {BundlePlanned, BundleRunning, BundleCompensating})
            (\<lambda>b. lifecycle_update (\<lambda>l. l\<lparr>lf_state := RecoveryBlocked\<rparr>)
               (b\<lparr>bn_state := BundleCompensationBlocked, bn_failure_reason := Some reason, bn_rate_reserved := 0,
                  bn_finished_at := Some (clk (QRecovery ''interrupted'' bundle))\<rparr>)) db1;
          event = ''automatic_worker_interrupted''
      in put f ''commit'' bundle
           (if list_ex (\<lambda>(e, i, _). e = event \<and> i = bundle) (db_bundle_audit db2) then db2
            else db2\<lparr>db_bundle_audit := db_bundle_audit db2 @ [(event, bundle, reason)]\<rparr>)))))"

definition kept :: "database \<Rightarrow> recovery_failure + database \<Rightarrow> database" where
  "kept db r = (case r of Inl _ \<Rightarrow> db | Inr db' \<Rightarrow> db')"

definition unstarted :: "u64 \<Rightarrow> database \<Rightarrow> bundle_row \<Rightarrow> bool" where
  "unstarted bundle db b =
     (bn_id b = bundle \<and> bn_state b = BundlePlanned \<and>
      \<not> list_ex (\<lambda>r. rr_bundle_id r = Some bundle) (db_reroutes db))"

definition settle_recovery_worker ::
    "(string \<Rightarrow> string \<Rightarrow> bool) \<Rightarrow> faults \<Rightarrow> clock \<Rightarrow> plan_row list \<Rightarrow> u64 \<Rightarrow> string \<Rightarrow> database \<Rightarrow> database" where
  "settle_recovery_worker same f clk plans bundle reason db =
     (let finalize = (\<lambda>db. kept db (finalize_recovery_child same f clk plans bundle BundleFailed (Some reason)
                        (recovery_owner bundle) db))
      in if put f ''unstarted'' bundle (count (unstarted bundle db) (db_bundles db)) = Inr 1
         then finalize db
         else finalize (kept db (quarantine_interrupted_worker_bundle f clk bundle reason db)))"

fun set_phase :: "string \<Rightarrow> json \<Rightarrow> json" where
  "set_phase phase (JObj m) = JObj (AList.update ''preparation_phase'' (JStr phase) m)"
| "set_phase phase v = v"

definition published_child :: "u64 \<Rightarrow> bundle_row \<Rightarrow> bool" where
  "published_child bundle b =
     (bn_id b = bundle \<and> bn_state b = BundlePlanned \<and>
      get_str (bn_source b) ''preparation_phase'' = Some ''published'')"

definition submit_scheduled_recovery_worker ::
    "(string \<Rightarrow> string \<Rightarrow> bool) \<Rightarrow> faults \<Rightarrow> clock \<Rightarrow> plan_row list \<Rightarrow> bool \<Rightarrow> u64 \<Rightarrow> database \<Rightarrow>
     (string + unit) \<times> database" where
  "submit_scheduled_recovery_worker same f clk plans accepted bundle db =
     (case fetch f (QRecovery ''preparing'' bundle) () of
        Inl e \<Rightarrow> (Inl e, db)
      | Inr _ \<Rightarrow>
          if rows_affected (published_child bundle) (db_bundles db) \<noteq> 1 then (Inr (), db)
          else let db1 = write_bundle (published_child bundle)
                 (\<lambda>b. b\<lparr>bn_source := set_phase ''preparing'' (bn_source b)\<rparr>) db
            in if accepted then (Inr (), db1)
               else (Inl ''automatic worker queue unavailable'',
                 settle_recovery_worker same f clk plans bundle
                   ''worker submission failed: automatic worker queue unavailable'' db1))"

definition run_admitted ::
    "(string \<Rightarrow> string \<Rightarrow> bool) \<Rightarrow> faults \<Rightarrow> clock \<Rightarrow> plan_row list \<Rightarrow> bool \<Rightarrow> u64 \<Rightarrow> database \<Rightarrow>
     (recovery_failure + bool) \<times> database" where
  "run_admitted same f clk plans accepted child db =
     (case submit_scheduled_recovery_worker same f clk plans accepted child db of
        (Inr _, db1) \<Rightarrow> (Inr True, db1)
      | (Inl e, db1) \<Rightarrow>
          (case finalize_recovery_child same f clk plans child BundleFailed
                  (Some (''worker submission failed: '' @ e)) (recovery_owner child) db1 of
             Inl e' \<Rightarrow> (Inl e', db1)
           | Inr db2 \<Rightarrow> (Inr True, db2)))"

definition process_one_due_inner ::
    "(string \<Rightarrow> string \<Rightarrow> bool) \<Rightarrow> faults \<Rightarrow> clock \<Rightarrow> plan_row list \<Rightarrow> safety_config \<Rightarrow> bool \<Rightarrow> string \<Rightarrow> bool \<Rightarrow>
     database \<Rightarrow> (recovery_failure + bool) \<times> database" where
  "process_one_due_inner same f clk plans cfg enforce secret accepted db =
     (case admit_one_due_with_failure same f clk cfg enforce secret False db of
        (Inl e, db1) \<Rightarrow> (Inl e, db1)
      | (Inr None, db1) \<Rightarrow> (Inr False, db1)
      | (Inr (Some child), db1) \<Rightarrow> run_admitted same f clk plans accepted child db1)"

subsection \<open>Frames of a settlement\<close>

lemma settle_attempt_frame [simp]:
  "db_reroutes (settle_attempt now child s st u db) = db_reroutes db"
  "db_bundle_actions (settle_attempt now child s st u db) = db_bundle_actions db"
  "db_bundles (settle_attempt now child s st u db) = db_bundles db"
  "db_windows (settle_attempt now child s st u db) = db_windows db"
  "db_window_sources (settle_attempt now child s st u db) = db_window_sources db"
  by (simp_all add: settle_attempt_def)

lemma write_if_frame [simp]:
  "db_reroutes (write_if c p g db) = db_reroutes db"
  "db_bundle_actions (write_if c p g db) = db_bundle_actions db"
  "db_recovery_sources (write_if c p g db) = db_recovery_sources db"
  "db_windows (write_if c p g db) = db_windows db"
  "db_window_sources (write_if c p g db) = db_window_sources db"
  by (simp_all add: write_if_def)

lemma apply_settlement_frame [simp]:
  "db_reroutes (apply_settlement same now child reason a m st db) = db_reroutes db"
  "db_bundle_actions (apply_settlement same now child reason a m st db) = db_bundle_actions db"
  "db_recovery_sources (apply_settlement same now child reason a m st db) = db_recovery_sources db"
  by (cases st; simp add: drop_source_windows_def drop_attempt_memberships_def Let_def)+

lemma settled_row_id [simp]:
  "bn_id (restored_row b) = bn_id b" "bn_id (retryable_row t b) = bn_id b" "bn_id (blocked_row t b) = bn_id b"
  by (simp_all add: restored_row_def retryable_row_def blocked_row_def)

lemma find_write_if:
  "(\<And>b. bn_id (g b) = bn_id b) \<Longrightarrow> c = False \<or> i \<noteq> s \<Longrightarrow>
   find_bundle (write_if c (held_by same s t) g db) i = find_bundle db i"
  by (cases "find_bundle db i")
    (auto simp: write_if_def find_bundle_write held_by_def dest: find_bundle_id)

lemma drop_windows_bundles [simp]:
  "find_bundle (drop_source_windows s db) i = find_bundle db i"
  "find_bundle (drop_attempt_memberships now child s db) i = find_bundle db i"
  by (simp_all add: drop_source_windows_def drop_attempt_memberships_def find_bundle_def Let_def)

lemma apply_settlement_other:
  "m = False \<or> i \<noteq> rs_source a \<Longrightarrow> find_bundle (apply_settlement same now child reason a m st db) i = find_bundle db i"
  by (cases st) (auto simp: find_write_if)

lemma find_settle_attempt [simp]: "find_bundle (settle_attempt now child s st u db) i = find_bundle db i"
  by (simp add: find_bundle_def)

lemma claim_of_blocked [simp]: "claim_of (write_if c p (blocked_row t) db) i = claim_of db i"
  by (cases "find_bundle db i")
    (auto simp: claim_of_def write_if_def find_bundle_write blocked_row_def)

lemma verdict_rows: "db_reroutes db' = db_reroutes db \<Longrightarrow>
    verdict_of db' freeze terminal claims proofs = verdict_of db freeze terminal claims proofs"
  by (simp add: fun_eq_iff verdict_of_def remaining_roots_def roots_def reversed_def)

text \<open>One round of the loop.\<close>

abbreviation settle_round where
  "settle_round same clk child reason claims a st db \<equiv>
     apply_settlement same (clk (QRecovery ''settle'' (rs_source a))) child reason a
       (claims (rs_source a) = Some (rs_token a)) st
       (settle_attempt (clk (QRecovery ''settle'' (rs_source a))) child (rs_source a) st (rs_settlement a = st) db)"

lemma settle_each_Cons:
  assumes "settle_each same f clk child reason freeze terminal claims proofs (a # ms) db = Inr (ss, db2)"
  obtains rest where "ss = verdict_of db freeze terminal claims proofs a # rest"
    "settle_each same f clk child reason freeze terminal claims proofs ms
       (settle_round same clk child reason claims a (verdict_of db freeze terminal claims proofs a) db) = Inr (rest, db2)"
  using assms by (auto simp: Let_def put_def res_simps split: prod.splits)

lemma settle_each_verdicts:
  "settle_each same f clk child reason freeze terminal claims proofs ms db = Inr (ss, db2) \<Longrightarrow>
   ss = map (verdict_of db freeze terminal claims proofs) ms \<and> db_reroutes db2 = db_reroutes db \<and>
   db_bundle_actions db2 = db_bundle_actions db"
proof (induction ms arbitrary: db ss)
  case (Cons a ms)
  from Cons.prems obtain rest where r: "ss = verdict_of db freeze terminal claims proofs a # rest"
    "settle_each same f clk child reason freeze terminal claims proofs ms
       (settle_round same clk child reason claims a (verdict_of db freeze terminal claims proofs a) db) = Inr (rest, db2)"
    by (rule settle_each_Cons)
  from Cons.IH [OF r(2)] r(1) verdict_rows [of "settle_round same clk child reason claims a
      (verdict_of db freeze terminal claims proofs a) db" db] show ?case by simp
qed simp

lemma settle_each_other:
  "settle_each same f clk child reason freeze terminal claims proofs ms db = Inr (ss, db2) \<Longrightarrow>
   (\<forall>m \<in> set ms. rs_source m = i \<longrightarrow> claims i \<noteq> Some (rs_token m)) \<Longrightarrow> find_bundle db2 i = find_bundle db i"
proof (induction ms arbitrary: db ss)
  case (Cons a ms)
  from Cons.prems(1) obtain rest where r:
    "settle_each same f clk child reason freeze terminal claims proofs ms
       (settle_round same clk child reason claims a (verdict_of db freeze terminal claims proofs a) db) = Inr (rest, db2)"
    by (rule settle_each_Cons)
  have "claims (rs_source a) = Some (rs_token a) \<Longrightarrow> i \<noteq> rs_source a" using Cons.prems(2) by auto
  then have "find_bundle (settle_round same clk child reason claims a
      (verdict_of db freeze terminal claims proofs a) db) i = find_bundle db i"
    by (subst apply_settlement_other) auto
  with Cons.IH [OF r] Cons.prems(2) show ?case by simp
qed simp

lemma settle_each_settlements:
  "settle_each same f clk child reason freeze terminal claims proofs ms db = Inr (ss, db2) \<Longrightarrow>
   distinct (map rs_source ms) \<Longrightarrow>
   map (\<lambda>a. (rs_child a, rs_source a)) (db_recovery_sources db2) =
     map (\<lambda>a. (rs_child a, rs_source a)) (db_recovery_sources db) \<and>
   filter (\<lambda>a. rs_source a \<notin> rs_source ` set ms) (db_recovery_sources db2) =
     filter (\<lambda>a. rs_source a \<notin> rs_source ` set ms) (db_recovery_sources db) \<and>
   (\<forall>a \<in> set (db_recovery_sources db2). \<forall>m \<in> set ms. rs_child a = child \<longrightarrow> rs_source a = rs_source m \<longrightarrow>
      rs_settlement a = verdict_of db freeze terminal claims proofs m)"
proof (induction ms arbitrary: db ss)
  case (Cons m ms)
  let ?v = "verdict_of db freeze terminal claims proofs"
  let ?db1 = "settle_round same clk child reason claims m (?v m) db"
  from Cons.prems(1) obtain rest where r:
    "settle_each same f clk child reason freeze terminal claims proofs ms ?db1 = Inr (rest, db2)"
    by (rule settle_each_Cons)
  from Cons.prems(2) have fresh: "rs_source m \<notin> rs_source ` set ms" by auto
  let ?now = "clk (QRecovery ''settle'' (rs_source m))"
  have rows: "db_recovery_sources ?db1 =
      update_rows (\<lambda>a. rs_child a = child \<and> rs_source a = rs_source m)
        (\<lambda>a. a\<lparr>rs_settlement := ?v m,
           rs_settled_at := (if rs_settlement m = ?v m then rs_settled_at a else Some ?now)\<rparr>) (db_recovery_sources db)"
    by (simp add: settle_attempt_def)
  have keys: "map (\<lambda>a. (rs_child a, rs_source a)) (db_recovery_sources ?db1) =
      map (\<lambda>a. (rs_child a, rs_source a)) (db_recovery_sources db)"
    unfolding rows by (simp add: map_update_rows)
  have other: "filter (\<lambda>a. rs_source a \<notin> rs_source ` set (m # ms)) (db_recovery_sources ?db1) =
      filter (\<lambda>a. rs_source a \<notin> rs_source ` set (m # ms)) (db_recovery_sources db)"
  proof -
    have "filter (\<lambda>a. rs_source a \<notin> rs_source ` set (m # ms)) (update_rows
        (\<lambda>a. rs_child a = child \<and> rs_source a = rs_source m) g rows) =
        filter (\<lambda>a. rs_source a \<notin> rs_source ` set (m # ms)) rows"
      if "\<And>a. rs_source (g a) = rs_source a" for g :: "attempt_source \<Rightarrow> attempt_source" and rows
      using that by (induction rows) (auto simp: update_rows_def)
    then show ?thesis unfolding rows by simp
  qed
  from Cons.prems(2) have "distinct (map rs_source ms)" by simp
  note ih = Cons.IH [OF r this]
  note kept = ih [THEN conjunct2, THEN conjunct1]
  have tail: "\<forall>a \<in> set (db_recovery_sources db2). \<forall>x \<in> set ms. rs_child a = child \<longrightarrow> rs_source a = rs_source x \<longrightarrow>
      rs_settlement a = ?v x"
    using ih [THEN conjunct2, THEN conjunct2] verdict_rows [of ?db1 db] by simp
  have head: "rs_settlement a = ?v m"
    if "a \<in> set (db_recovery_sources db2)" "rs_child a = child" "rs_source a = rs_source m" for a
  proof -
    from that(1,3) fresh have "a \<in> set (filter (\<lambda>a. rs_source a \<notin> rs_source ` set ms) (db_recovery_sources db2))"
      by simp
    then have "a \<in> set (db_recovery_sources ?db1)" by (simp only: kept) simp
    then obtain x where "x \<in> set (db_recovery_sources db)"
      "a = (if rs_child x = child \<and> rs_source x = rs_source m
        then x\<lparr>rs_settlement := ?v m, rs_settled_at := (if rs_settlement m = ?v m then rs_settled_at x else Some ?now)\<rparr>
        else x)"
      unfolding rows set_update_rows by blast
    with that(2,3) show ?thesis by (cases "rs_child x = child \<and> rs_source x = rs_source m") auto
  qed
  have subset: "filter (\<lambda>a. rs_source a \<notin> rs_source ` set (m # ms)) rows =
      filter (\<lambda>a. rs_source a \<noteq> rs_source m) (filter (\<lambda>a. rs_source a \<notin> rs_source ` set ms) rows)" for rows
    by (induction rows) auto
  show ?case
  proof (intro conjI)
    show "map (\<lambda>a. (rs_child a, rs_source a)) (db_recovery_sources db2) =
        map (\<lambda>a. (rs_child a, rs_source a)) (db_recovery_sources db)"
      by (simp only: ih [THEN conjunct1] keys)
    show "filter (\<lambda>a. rs_source a \<notin> rs_source ` set (m # ms)) (db_recovery_sources db2) =
        filter (\<lambda>a. rs_source a \<notin> rs_source ` set (m # ms)) (db_recovery_sources db)"
      using other by (simp only: subset kept)
    show "\<forall>a \<in> set (db_recovery_sources db2). \<forall>x \<in> set (m # ms). rs_child a = child \<longrightarrow>
        rs_source a = rs_source x \<longrightarrow> rs_settlement a = ?v x"
      using head tail by simp
  qed
qed simp


subsection \<open>The whole settlement\<close>

definition attempts_ok :: "database \<Rightarrow> bool" where
  "attempts_ok db = distinct (map (\<lambda>a. (rs_child a, rs_source a)) (db_recovery_sources db))"

lemma mappings_set: "a \<in> set (mappings db child) \<longleftrightarrow> a \<in> set (db_recovery_sources db) \<and> rs_child a = child"
  by (auto simp: mappings_def)

lemma mappings_distinct: "attempts_ok db \<Longrightarrow> distinct (map rs_source (mappings db child))"
  unfolding attempts_ok_def mappings_def
  by (auto simp: distinct_map inj_on_def)

lemma takeover_frame [simp]:
  "db_reroutes (legacy_takeover now child db) = db_reroutes db"
  "db_bundle_actions (legacy_takeover now child db) = db_bundle_actions db"
  "db_recovery_sources (legacy_takeover now child db) = db_recovery_sources db"
  "db_windows (legacy_takeover now child db) = db_windows db"
  "db_window_sources (legacy_takeover now child db) = db_window_sources db"
  by (simp_all add: legacy_takeover_def Let_def)

lemma takeover_find:
  "\<exists>g. find_bundle (legacy_takeover now child db) i = map_option g (find_bundle db i) \<and>
     (\<forall>b. bn_id (g b) = bn_id b \<and> bn_total_actions (g b) = bn_total_actions b \<and> bn_state (g b) = bn_state b \<and>
        (lf_claim (bn_lifecycle b) \<noteq> None \<longrightarrow> g b = b))"
  unfolding legacy_takeover_def Let_def
  by (subst find_bundle_write) (auto split: option.split)

lemma takeover_claimed:
  "claim_of db i = Some t \<Longrightarrow> find_bundle (legacy_takeover now child db) i = find_bundle db i"
  using takeover_find [of now child db i] by (cases "find_bundle db i") (auto simp: claim_of_def)

lemma coverage_takeover:
  assumes "find_bundle (legacy_takeover now child db) i = Some b'"
    "activation_coverage (legacy_takeover now child db) b'"
  shows "\<exists>b. find_bundle db i = Some b \<and> activation_coverage db b"
proof -
  from takeover_find [of now child db i] assms(1) obtain b where b: "find_bundle db i = Some b"
    "bn_id b' = bn_id b" "bn_total_actions b' = bn_total_actions b" "bn_state b' = bn_state b"
    by (cases "find_bundle db i") auto
  have "linked_slot (legacy_takeover now child db) = linked_slot db"
    by (simp add: fun_eq_iff linked_slot_def)
  with assms(2) b show ?thesis
    by (auto simp: activation_coverage_def bundle_actions_def roots_def Let_def)
qed

lemma closing_frame [simp]:
  "db_recovery_sources (close_child now child c st reason db) = db_recovery_sources db"
  "db_windows (close_child now child c st reason db) = db_windows db"
  "db_window_sources (close_child now child c st reason db) = db_window_sources db"
  "db_recovery_sources (close_windows same child owner ss db) = db_recovery_sources db"
  "db_bundles (close_windows same child owner ss db) = db_bundles db"
  "db_window_sources (close_windows same child owner ss db) = db_window_sources db"
  "db_recovery_sources (audit_settlement child reason ss db) = db_recovery_sources db"
  "db_bundles (audit_settlement child reason ss db) = db_bundles db"
  "db_windows (audit_settlement child reason ss db) = db_windows db"
  "db_window_sources (audit_settlement child reason ss db) = db_window_sources db"
  "db_recovery_sources (alert_settlement child ss db) = db_recovery_sources db"
  "db_bundles (alert_settlement child ss db) = db_bundles db"
  "db_windows (alert_settlement child ss db) = db_windows db"
  "db_window_sources (alert_settlement child ss db) = db_window_sources db"
  by (simp_all add: close_child_def close_windows_def audit_settlement_def alert_settlement_def record_alert_def Let_def)

lemma find_close_child:
  "find_bundle (close_child now child c st reason db) i =
     map_option (\<lambda>b. if bn_id b = child \<and> bn_state b \<noteq> BundleCompensated
       then b\<lparr>bn_failure_reason := (if c = st then bn_failure_reason b else reason), bn_state := st,
              bn_rate_reserved := 0,
              bn_finished_at := (case bn_finished_at b of Some t \<Rightarrow> Some t | None \<Rightarrow> Some now)\<rparr>
       else b) (find_bundle db i)"
  by (simp add: close_child_def find_bundle_write)

lemma claim_of_close_child [simp]: "claim_of (close_child now child c st reason db) i = claim_of db i"
  by (cases "find_bundle db i") (simp_all add: claim_of_def find_close_child)

lemma proofs_of_Inr:
  "proofs_of f db ms = Inr ps \<Longrightarrow>
   length ps = length ms \<and> (\<forall>(a, p) \<in> set (zip ms ps). source_proof_on f db (rs_source a) = Inr p)"
  by (induction ms arbitrary: ps) (auto simp: and_then_Inr_iff)

lemma proof_for_mapping:
  assumes "proofs_of f db ms = Inr ps" "distinct (map rs_source ms)" "a \<in> set ms"
  shows "source_proof_on f db (rs_source a) = Inr (proof_for ms ps (rs_source a)) \<and>
    proof_for ms ps (rs_source a) \<in> set ps"
proof -
  note pr = proofs_of_Inr [OF assms(1)]
  from assms(3) obtain i where i: "i < length ms" "ms ! i = a" by (auto simp: in_set_conv_nth)
  with pr have "(a, ps ! i) \<in> set (zip ms ps)" by (force simp: set_zip)
  with pr have p: "source_proof_on f db (rs_source a) = Inr (ps ! i)" by blast
  have "map_of (zip (map rs_source ms) ps) (map rs_source ms ! i) = Some (ps ! i)"
    using assms(2) pr i(1) by (intro map_of_zip_nth) simp_all
  with i pr p show ?thesis by (simp add: proof_for_def)
qed

lemma finalize_Inr:
  assumes "finalize_recovery_child same f clk plans child terminal reason owner db = Inr db'"
  obtains b ps ss db1 db2 where "find_bundle db child = Some b"
    "db1 = legacy_takeover (clk (QRecovery ''takeover'' child)) child db"
    "proofs_of f db1 (mappings db child) = Inr ps" "mappings db child \<noteq> []"
    "settle_each same f clk child reason (freezes db1 plans b (mappings db child) ps) terminal (claim_of db1)
       (proof_for (mappings db child) ps) (mappings db child) db1 = Inr (ss, db2)"
    "db' = alert_settlement child ss (audit_settlement child reason ss (close_windows same child owner ss
       (close_child (clk (QRecovery ''close'' child)) child (bn_state b) (final_state_of terminal ss) reason db2)))"
    "terminal_child terminal"
  using assms
  by (auto simp: finalize_recovery_child_def settle_child_def put_def res_simps split: prod.splits)

lemma settled_attempts:
  assumes "settle_each same f clk child reason freeze terminal claims proofs (mappings db child) db1 = Inr (ss, db2)"
    "attempts_ok db" "db_recovery_sources db1 = db_recovery_sources db"
    "a \<in> set (db_recovery_sources db2)" "rs_child a = child"
  shows "\<exists>m \<in> set (mappings db child). rs_source m = rs_source a \<and>
    rs_settlement a = verdict_of db1 freeze terminal claims proofs m"
proof -
  note s = settle_each_settlements [OF assms(1) mappings_distinct [OF assms(2)]]
  from assms(4,5) have "(child, rs_source a) \<in> set (map (\<lambda>a. (rs_child a, rs_source a)) (db_recovery_sources db2))"
    by force
  then have "(child, rs_source a) \<in> set (map (\<lambda>a. (rs_child a, rs_source a)) (db_recovery_sources db))"
    by (simp only: s [THEN conjunct1] assms(3))
  then obtain m where "m \<in> set (mappings db child)" "rs_source m = rs_source a"
    by (auto simp: mappings_set)
  with s [THEN conjunct2, THEN conjunct2] assms(4,5) show ?thesis by metis
qed

lemma verdict_Restored:
  "verdict_of db freeze terminal claims proofs m = Restored \<Longrightarrow>
   \<not> freeze \<and> remaining_roots db (rs_source m) = 0 \<and> 0 < sp_roots (proofs (rs_source m))"
  by (auto simp: verdict_of_def settlement_of_def split: if_splits)

section \<open>Properties\<close>

text \<open>C6: a recovery is called restored only when it is. If a settled child leaves a source
  restored, then that source's ledger was covered, it has actions, every one of them either had
  no effect or has an inverse that succeeded, and no write of the child itself is in
  doubt.\<close>

theorem restored_only_when_proven:
  assumes "finalize_recovery_child same f clk plans child terminal reason owner db = Inr db'"
    "attempts_ok db" "a \<in> set (db_recovery_sources db')" "rs_child a = child" "rs_settlement a = Restored"
  shows "roots db (rs_source a) \<noteq> [] \<and>
    (\<exists>b. find_bundle db (rs_source a) = Some b \<and> activation_coverage db b) \<and>
    (\<forall>r \<in> set (roots db (rs_source a)). rr_state r \<in> {Succeeded, Failed} \<and>
       (rr_mutation_effect r = EffectNoop \<or> reversed db r)) \<and>
    (\<forall>r \<in> set (db_reroutes db). \<not> dangerous child r)"
  using assms(1)
proof (rule finalize_Inr)
  fix b ps ss db1 db2
  let ?ms = "mappings db child"
  let ?freeze = "freezes db1 plans b ?ms ps"
  assume b: "find_bundle db child = Some b"
    and db1: "db1 = legacy_takeover (clk (QRecovery ''takeover'' child)) child db"
    and ps: "proofs_of f db1 ?ms = Inr ps"
    and settle: "settle_each same f clk child reason ?freeze terminal (claim_of db1) (proof_for ?ms ps) ?ms db1 = Inr (ss, db2)"
    and db': "db' = alert_settlement child ss (audit_settlement child reason ss (close_windows same child owner ss
       (close_child (clk (QRecovery ''close'' child)) child (bn_state b) (final_state_of terminal ss) reason db2)))"
  from db1 have same: "db_reroutes db1 = db_reroutes db" "db_recovery_sources db1 = db_recovery_sources db" by simp_all
  from assms(3) have "a \<in> set (db_recovery_sources db2)" by (simp add: db')
  from settled_attempts [OF settle assms(2) same(2) this assms(4)] assms(5) obtain m where
    m: "m \<in> set ?ms" "rs_source m = rs_source a"
      "verdict_of db1 ?freeze terminal (claim_of db1) (proof_for ?ms ps) m = Restored" by auto
  from verdict_Restored [OF m(3)] m(2) have v: "\<not> ?freeze" "remaining_roots db1 (rs_source a) = 0"
    "0 < sp_roots (proof_for ?ms ps (rs_source a))" by simp_all
  from proof_for_mapping [OF ps mappings_distinct [OF assms(2)] m(1)] m(2)
  have p: "source_proof_on f db1 (rs_source a) = Inr (proof_for ?ms ps (rs_source a))"
    "proof_for ?ms ps (rs_source a) \<in> set ps" by simp_all
  note sp = source_proof_Inr [OF p(1)]
  from v(1) p(2) have "sp_covered (proof_for ?ms ps (rs_source a))" "\<not> 0 < sp_ambiguous (proof_for ?ms ps (rs_source a))"
    by (auto simp: freezes_def list_ex_iff)
  with sp have cov: "\<exists>b. find_bundle db1 (rs_source a) = Some b \<and> activation_coverage db1 b"
    and "count (ambiguous db1) (roots db1 (rs_source a)) = 0" by (auto simp: count_def)
  then have clear: "r \<in> set (roots db1 (rs_source a)) \<Longrightarrow> \<not> ambiguous db1 r" for r by (simp add: count_zero)
  from v(2) have rev: "r \<in> set (roots db1 (rs_source a)) \<Longrightarrow>
      rr_mutation_effect r \<in> {EffectChanged, EffectUnknown} \<Longrightarrow> reversed db1 r" for r
    by (auto simp: remaining_roots_def count_zero)
  have rows: "roots db1 = roots db" "reversed db1 = reversed db"
    by (simp_all add: fun_eq_iff roots_def reversed_def same(1))
  have danger: "\<forall>r \<in> set (db_reroutes db). \<not> dangerous child r"
    using v(1) find_bundle_id [OF b] by (auto simp: freezes_def count_pos same(1))
  have "roots db (rs_source a) \<noteq> []" using v(3) sp rows by (auto simp: count_def)
  moreover have "\<exists>b. find_bundle db (rs_source a) = Some b \<and> activation_coverage db b"
    using cov coverage_takeover unfolding db1 by blast
  moreover have "rr_state r \<in> {Succeeded, Failed} \<and> (rr_mutation_effect r = EffectNoop \<or> reversed db r)"
    if "r \<in> set (roots db (rs_source a))" for r
    using unambiguous_root [OF clear [of r]] rev [of r] that rows by auto
  ultimately show ?thesis using danger by blast
qed

text \<open>An old child never touches a newer claim. A run that another token claims keeps
  its whole row when a child settles, whatever that child's outcome.\<close>

theorem settlement_keeps_foreign_claims:
  assumes "finalize_recovery_child same f clk plans child terminal reason owner db = Inr db'"
    "i \<noteq> child" "claim_of db i = Some t"
    "\<forall>a \<in> set (db_recovery_sources db). rs_child a = child \<longrightarrow> rs_source a = i \<longrightarrow> rs_token a \<noteq> t"
  shows "find_bundle db' i = find_bundle db i"
  using assms(1)
proof (rule finalize_Inr)
  fix b ps ss db1 db2
  let ?ms = "mappings db child"
  let ?freeze = "freezes db1 plans b ?ms ps"
  assume db1: "db1 = legacy_takeover (clk (QRecovery ''takeover'' child)) child db"
    and settle: "settle_each same f clk child reason ?freeze terminal (claim_of db1) (proof_for ?ms ps) ?ms db1 = Inr (ss, db2)"
    and db': "db' = alert_settlement child ss (audit_settlement child reason ss (close_windows same child owner ss
       (close_child (clk (QRecovery ''close'' child)) child (bn_state b) (final_state_of terminal ss) reason db2)))"
  from takeover_claimed [OF assms(3)] have here: "find_bundle db1 i = find_bundle db i" by (simp add: db1)
  then have "claim_of db1 i = Some t" using assms(3) by (simp add: claim_of_def)
  with assms(4) have "\<forall>m \<in> set ?ms. rs_source m = i \<longrightarrow> claim_of db1 i \<noteq> Some (rs_token m)"
    by (auto simp: mappings_set)
  from settle_each_other [OF settle this] here have "find_bundle db2 i = find_bundle db i" by simp
  moreover have "find_bundle db' i = find_bundle (close_child (clk (QRecovery ''close'' child)) child (bn_state b)
      (final_state_of terminal ss) reason db2) i"
    unfolding db' by (rule find_bundle_rows) simp
  ultimately show ?thesis using assms(2)
    by (cases "find_bundle db i") (auto simp: find_close_child dest: find_bundle_id)
qed


subsection \<open>A frozen settlement\<close>

lemma settle_each_frozen:
  "settle_each same f clk child reason True terminal claims proofs ms db = Inr (ss, db2) \<Longrightarrow>
   set ss \<subseteq> {BlockedClaim} \<and> length ss = length ms \<and> claim_of db2 i = claim_of db i \<and>
   db_windows db2 = db_windows db \<and> db_window_sources db2 = db_window_sources db"
proof (induction ms arbitrary: db ss)
  case (Cons a ms)
  have v: "verdict_of db True terminal claims proofs a = BlockedClaim"
    by (simp add: verdict_of_def settlement_of_def)
  from Cons.prems obtain rest where r: "ss = BlockedClaim # rest"
    "settle_each same f clk child reason True terminal claims proofs ms
       (settle_round same clk child reason claims a BlockedClaim db) = Inr (rest, db2)"
    by (rule settle_each_Cons) (simp only: v)
  have "claim_of (settle_attempt now child (rs_source a) BlockedClaim u db) i = claim_of db i" for now u
    by (rule claim_of_rows) simp
  with Cons.IH [OF r(2)] r(1) show ?case by simp
qed simp

lemma frozen_settlement:
  assumes "finalize_recovery_child same f clk plans child terminal reason owner db = Inr db'" "attempts_ok db"
    "\<And>db1 b ps. db1 = legacy_takeover (clk (QRecovery ''takeover'' child)) child db \<Longrightarrow>
       find_bundle db child = Some b \<Longrightarrow> freezes db1 plans b (mappings db child) ps"
  shows "(\<forall>a \<in> set (db_recovery_sources db'). rs_child a = child \<longrightarrow> rs_settlement a = BlockedClaim) \<and>
    (\<forall>i t. claim_of db i = Some t \<longrightarrow> claim_of db' i = Some t) \<and>
    map cw_device_id (db_windows db') = map cw_device_id (db_windows db) \<and>
    db_window_sources db' = db_window_sources db"
  using assms(1)
proof (rule finalize_Inr)
  fix b ps ss db1 db2
  let ?ms = "mappings db child"
  let ?freeze = "freezes db1 plans b ?ms ps"
  assume b: "find_bundle db child = Some b" and ms: "?ms \<noteq> []"
    and db1: "db1 = legacy_takeover (clk (QRecovery ''takeover'' child)) child db"
    and "settle_each same f clk child reason ?freeze terminal (claim_of db1) (proof_for ?ms ps) ?ms db1 = Inr (ss, db2)"
    and db': "db' = alert_settlement child ss (audit_settlement child reason ss (close_windows same child owner ss
       (close_child (clk (QRecovery ''close'' child)) child (bn_state b) (final_state_of terminal ss) reason db2)))"
  with assms(3) [OF db1 b] have settle:
    "settle_each same f clk child reason True terminal (claim_of db1) (proof_for ?ms ps) ?ms db1 = Inr (ss, db2)" by simp
  from db1 have same: "db_recovery_sources db1 = db_recovery_sources db" "db_windows db1 = db_windows db"
    "db_window_sources db1 = db_window_sources db" by simp_all
  have "rs_settlement a = BlockedClaim" if "a \<in> set (db_recovery_sources db')" "rs_child a = child" for a
    using settled_attempts [OF settle assms(2) same(1) _ that(2)] that(1)
    by (auto simp: db' verdict_of_def settlement_of_def)
  moreover have "claim_of db' i = Some t" if "claim_of db i = Some t" for i t
  proof -
    from takeover_claimed [OF that] that have "claim_of db1 i = Some t" by (simp add: claim_of_def db1)
    with settle_each_frozen [OF settle] have "claim_of db2 i = Some t" by simp
    moreover have "claim_of db' i = claim_of (close_child (clk (QRecovery ''close'' child)) child (bn_state b)
        (final_state_of terminal ss) reason db2) i"
      unfolding db' by (rule claim_of_rows) simp
    ultimately show ?thesis by simp
  qed
  moreover have "BlockedClaim \<in> set ss"
    using settle_each_frozen [OF settle] ms by (cases ss) auto
  then have "map cw_device_id (db_windows db') = map cw_device_id (db_windows db)"
    using settle_each_frozen [OF settle] same
    by (simp add: db' close_windows_def map_update_rows quarantined_window_def)
  moreover have "db_window_sources db' = db_window_sources db"
    using settle_each_frozen [OF settle] same by (simp add: db')
  ultimately show ?thesis by blast
qed

text \<open>C12: while a write of a child is in doubt, settling it gives nothing away: every source
  of the child is blocked, every claim stays where it was, and no device leaves its change
  window or its quarantine.\<close>

theorem doubt_releases_nothing:
  assumes "finalize_recovery_child same f clk plans child terminal reason owner db = Inr db'"
    "attempts_ok db" "r \<in> set (db_reroutes db)" "dangerous child r"
  shows "(\<forall>a \<in> set (db_recovery_sources db'). rs_child a = child \<longrightarrow> rs_settlement a = BlockedClaim) \<and>
    (\<forall>i t. claim_of db i = Some t \<longrightarrow> claim_of db' i = Some t) \<and>
    map cw_device_id (db_windows db') = map cw_device_id (db_windows db) \<and>
    db_window_sources db' = db_window_sources db"
  by (rule frozen_settlement [OF assms(1,2)])
    (use assms(3,4) find_bundle_id in \<open>auto simp: freezes_def count_pos\<close>)

text \<open>Settling is not idempotent. A child that is no longer planned and whose ledger is
  not complete is blocked, even when it was settled before as known to have written
  nothing.\<close>

theorem settling_twice_blocks:
  assumes "finalize_recovery_child same f clk plans child terminal reason owner db = Inr db'"
    "attempts_ok db" "find_bundle db child = Some b" "bn_state b \<noteq> BundlePlanned"
    "length (bundle_actions db child) \<noteq> unat (bn_total_actions b)"
  shows "\<forall>a \<in> set (db_recovery_sources db'). rs_child a = child \<longrightarrow> rs_settlement a = BlockedClaim"
proof -
  have id: "bn_id b = child" using find_bundle_id [OF assms(3)] by simp
  have "freezes db1 plans c (mappings db child) ps"
    if "db1 = legacy_takeover (clk (QRecovery ''takeover'' child)) child db" "find_bundle db child = Some c" for db1 c ps
  proof -
    from assms(5) have "int (length (bundle_actions db child)) \<noteq> int (unat (bn_total_actions b))"
      by (simp only: of_nat_eq_iff simp_thms)
    with that assms(3,4) id show ?thesis
      by (simp add: freezes_def complete_plan_def bundle_actions_def del: of_nat_unat)
  qed
  from frozen_settlement [OF assms(1,2) this] show ?thesis by blast
qed

subsection \<open>A timer whose worker is refused\<close>

definition claimed_database :: database where
  "claimed_database = due_database\<lparr>db_bundles :=
     [due_bundle\<lparr>bn_lifecycle := (bn_lifecycle due_bundle)\<lparr>lf_state := RecoveryClaimed, lf_claim := Some ''t'',
        lf_claimed_at := Some 100, lf_recovery_bundle := Some 2\<rparr>\<rparr>,
      (slot_bundle 2 BundlePlanned 0 100)\<lparr>bn_parent := Some 1, bn_source :=
        JObj [(''kind'', JStr ''recovery''), (''preparation_phase'', JStr ''published'')]\<rparr>],
     db_recovery_sources := [\<lparr>rs_child = 2, rs_source = 1, rs_token = ''t'', rs_settlement = ActiveClaim,
       rs_settled_at = None\<rparr>], db_window_sources := [(7, 1)]\<rparr>"

definition settled_once :: database where
  "settled_once = kept claimed_database (finalize_recovery_child (=) no_faults (\<lambda>_. 100) [] 2 BundleFailed None ''o''
     claimed_database)"

definition inverse_row :: "reroute_state \<Rightarrow> reroute_row" where
  "inverse_row st = changed_row\<lparr>rr_id := 2, rr_bundle_id := Some 2, rr_rollback_of := Some 1, rr_state := st\<rparr>"

definition inverted_database :: "reroute_state \<Rightarrow> database" where
  "inverted_database st = claimed_database\<lparr>db_reroutes := [changed_row, inverse_row st]\<rparr>"

definition finalized :: "database \<Rightarrow> recovery_failure + database" where
  "finalized = finalize_recovery_child (=) no_faults (\<lambda>_. 100) [] 2 BundleSucceeded None ''o''"

definition restored_database :: database where
  "restored_database = (inverted_database Succeeded)\<lparr>db_bundle_actions :=
     [\<lparr>ba_id = 9, ba_bundle_id = 2, ba_position = 0, ba_device_id = 7, ba_verification_mode = None,
       ba_template_snapshot = JNull, ba_rollback_snapshot = None, ba_prepared = None, ba_state = ''succeeded'',
       ba_mutation_effect = EffectChanged, ba_reroute_id = Some 2, ba_original_reroute_id = Some 1\<rparr>]\<rparr>"

definition reclaimed_database :: database where
  "reclaimed_database = claimed_database\<lparr>db_bundles := update_rows (\<lambda>b. bn_id b = 1)
     (lifecycle_update (\<lambda>l. l\<lparr>lf_claim := Some ''newer''\<rparr>)) (db_bundles claimed_database)\<rparr>"

text \<open>A refused worker settles its child, and then the caller settles it again.\<close>

lemma refused_worker_settles_twice:
  assumes "rows_affected (published_child child) (db_bundles db) = 1"
    "db1 = write_bundle (published_child child) (\<lambda>b. b\<lparr>bn_source := set_phase ''preparing'' (bn_source b)\<rparr>) db"
    "count (unstarted child db1) (db_bundles db1) = 1"
    "finalize_recovery_child same no_faults clk plans child BundleFailed
       (Some ''worker submission failed: automatic worker queue unavailable'') (recovery_owner child) db1 = Inr once"
    "finalize_recovery_child same no_faults clk plans child BundleFailed
       (Some ''worker submission failed: automatic worker queue unavailable'') (recovery_owner child) once = Inr twice"
  shows "run_admitted same no_faults clk plans False child db = (Inr True, twice)"
  using assms
  by (simp add: run_admitted_def submit_scheduled_recovery_worker_def settle_recovery_worker_def kept_def put_def map_err_def
      Let_def)

lemma settled_once_facts:
  "let db = settled_once in
     map rs_settlement (db_recovery_sources db) = [KnownNoWrite] \<and> attempts_ok db \<and>
     map_option bn_state (find_bundle db 2) = Some BundleFailed \<and>
     map_option bn_total_actions (find_bundle db 2) = Some 1 \<and> bundle_actions db 2 = [] \<and>
     is_ok (finalized db)"
  by code_simp

lemma inverted_facts:
  "attempts_ok (inverted_database Uncertain) \<and> is_ok (finalized (inverted_database Uncertain)) \<and>
   dangerous 2 (inverse_row Uncertain)"
  by code_simp

lemma restored_facts:
  "attempts_ok restored_database \<and> (case finalized restored_database of Inl _ \<Rightarrow> False
     | Inr db \<Rightarrow> (case db_recovery_sources db of [a] \<Rightarrow> rs_child a = 2 \<and> rs_source a = 1 \<and> rs_settlement a = Restored
         | _ \<Rightarrow> False))"
  by code_simp

lemma reclaimed_facts:
  "is_ok (finalized reclaimed_database) \<and> claim_of reclaimed_database 1 = Some ''newer'' \<and>
   list_all (\<lambda>a. rs_token a \<noteq> ''newer'') (db_recovery_sources reclaimed_database)"
  by code_simp

theorem settling_twice_blocks_witness:
  "\<exists>db'. finalized settled_once = Inr db' \<and>
     (\<forall>a \<in> set (db_recovery_sources db'). rs_child a = 2 \<longrightarrow> rs_settlement a = BlockedClaim)"
proof -
  note facts = settled_once_facts [unfolded Let_def]
  from facts obtain b db' where f: "find_bundle settled_once 2 = Some b" "bn_state b = BundleFailed"
    "bn_total_actions b = 1" "finalized settled_once = Inr db'"
    by (cases "finalized settled_once") auto
  from settling_twice_blocks [OF f(4) [unfolded finalized_def] _ f(1)] f facts show ?thesis by simp
qed

theorem doubt_releases_nothing_witness:
  "\<exists>db'. finalized (inverted_database Uncertain) = Inr db' \<and>
    (\<forall>a \<in> set (db_recovery_sources db'). rs_child a = 2 \<longrightarrow> rs_settlement a = BlockedClaim) \<and>
    (\<forall>i t. claim_of (inverted_database Uncertain) i = Some t \<longrightarrow> claim_of db' i = Some t) \<and>
    map cw_device_id (db_windows db') = map cw_device_id (db_windows (inverted_database Uncertain)) \<and>
    db_window_sources db' = db_window_sources (inverted_database Uncertain)"
proof -
  from inverted_facts obtain db' where "finalized (inverted_database Uncertain) = Inr db'"
    by (cases "finalized (inverted_database Uncertain)") auto
  with doubt_releases_nothing [of "(=)" no_faults "\<lambda>_. 100" "[]" 2 BundleSucceeded None "''o''"
      "inverted_database Uncertain" db' "inverse_row Uncertain"] inverted_facts show ?thesis
    by (simp add: finalized_def inverted_database_def)
qed

theorem restored_only_when_proven_witness:
  "roots restored_database 1 \<noteq> [] \<and>
    (\<exists>b. find_bundle restored_database 1 = Some b \<and> activation_coverage restored_database b) \<and>
    list_all (\<lambda>r. rr_state r \<in> {Succeeded, Failed} \<and>
       (rr_mutation_effect r = EffectNoop \<or> reversed restored_database r)) (roots restored_database 1) \<and>
    list_all (\<lambda>r. \<not> dangerous 2 r) (db_reroutes restored_database)"
proof -
  from restored_facts obtain db a where f: "finalized restored_database = Inr db" "db_recovery_sources db = [a]"
    "rs_child a = 2" "rs_source a = 1" "rs_settlement a = Restored"
    by (cases "finalized restored_database") (auto split: list.splits)
  from restored_only_when_proven [OF f(1) [unfolded finalized_def], of a] f restored_facts show ?thesis
    by (simp add: list_all_iff)
qed

theorem settlement_keeps_foreign_claims_witness:
  "\<exists>db'. finalized reclaimed_database = Inr db' \<and> find_bundle db' 1 = find_bundle reclaimed_database 1"
proof -
  from reclaimed_facts obtain db' where f: "finalized reclaimed_database = Inr db'"
    by (cases "finalized reclaimed_database") auto
  from settlement_keeps_foreign_claims [OF f [unfolded finalized_def], of 1 "''newer''"] reclaimed_facts f
  show ?thesis by (auto simp: list_all_iff)
qed

end
