(* ===== verification/Closing.thy ===== *)
theory Closing
  imports Settlement
begin

text \<open>
  The ledger of a bundle and its end: \<open>persist_actions\<close>, \<open>finish_and_release\<close>,
  \<open>finish_blocked_with_alert\<close>, \<open>quarantine_changed_actions\<close>,
  \<open>settle_source_activations\<close> and \<open>recover_on_startup\<close> of
  \<open>src/backend-rust/src/reroute/bundle.rs\<close>, with \<open>repair_legacy_associations\<close> of
  \<open>reroute/recovery.rs\<close>. The text that serde derives for an inverse is the parameter
  \<open>enc\<close>; alert payloads are left out.
\<close>

datatype closing_failure =
    NoActions
  | DuplicatePosition u32
  | DisabledTemplate string
  | NotPrepared u32
  | InvalidPrepared prepared_error
  | PreparedDeviceMismatch
  | PreparedTemplateMismatch
  | EffectUnproved
  | UnsafeOrder string
  | CountMismatch
  | TerminalConflict
  | ChangedConflict u64
  | NotChanged u64
  | NoDevice u64
  | StillOwned u64
  | ForeignWindowOwner u64
  | RecoveryFailed recovery_failure
  | ClosingQuery string

definition inquire :: "faults \<Rightarrow> string \<Rightarrow> u64 \<Rightarrow> 'a \<Rightarrow> closing_failure + 'a" where
  "inquire f q i v = map_err ClosingQuery (fetch f (QRecovery q i) v)"

lemma inquire_Inr [res_simps]: "inquire f q i v = Inr w \<longleftrightarrow> f (QRecovery q i) = None \<and> v = w"
  by (simp add: inquire_def res_simps)

subsection \<open>The ledger of the intended actions\<close>

record bundle_action =
  bu_device_id :: u64
  bu_template :: template
  bu_params :: json
  bu_reason :: string
  bu_position :: u32
  bu_auto_target :: "string option"
  bu_auto_low :: "bool option"
  bu_prepared :: "prepared_action option"
  bu_original :: "u64 option"

definition safety_phase :: "string \<Rightarrow> string \<times> nat" where
  "safety_phase name =
     (if name \<in> {''bgp_advertise_add'', ''bgp_session_enable'', ''iface_no_shutdown'', ''iface_tcp_adjust_mss''}
      then (''additive'', 0)
      else if name \<in> {''bgp_advertise_remove'', ''bgp_session_disable'', ''iface_shutdown'',
        ''iface_tcp_adjust_mss_remove'', ''null_route_prefix'', ''null_route_prefix_v6'',
        ''blackhole_prefix'', ''blackhole_prefix_v6''}
      then (''destructive'', 2)
      else (''neutral'', 1))"

definition phase_of :: "bundle_action \<Rightarrow> prepared_action \<Rightarrow> nat \<Rightarrow> closing_failure + (string \<times> nat)" where
  "phase_of a p last_phase =
     (if tp_name (bu_template a) = ''bgp_export_policy_set''
      then (case safety_effect_of p of
              Additive \<Rightarrow> Inr (''additive'', 0)
            | Neutral \<Rightarrow> Inr (''neutral'', 1)
            | Noop \<Rightarrow> Inr (''neutral'', last_phase)
            | Destructive \<Rightarrow> Inr (''destructive'', 2)
            | Mixed \<Rightarrow> Inl EffectUnproved
            | Unproven \<Rightarrow> Inl EffectUnproved)
      else Inr (safety_phase (tp_name (bu_template a))))"

type_synonym slot = "bundle_action \<times> prepared_action \<times> string \<times> nat"

fun check_order :: "u32 set \<Rightarrow> nat \<Rightarrow> bundle_action list \<Rightarrow> closing_failure + slot list" where
  "check_order seen last_phase [] = Inr []"
| "check_order seen last_phase (a # rest) =
     and_then (ensure (DuplicatePosition (bu_position a)) (bu_position a \<notin> seen)) (\<lambda>_.
     and_then (ensure (DisabledTemplate (tp_name (bu_template a))) (tp_enabled (bu_template a))) (\<lambda>_.
     and_then (ok_or (NotPrepared (bu_position a)) (bu_prepared a)) (\<lambda>p.
     and_then (map_err InvalidPrepared (validate_prepared p)) (\<lambda>_.
     and_then (ensure PreparedDeviceMismatch (pa_device_id p = bu_device_id a)) (\<lambda>_.
     and_then (ensure PreparedTemplateMismatch (pa_template_id p = tp_id (bu_template a))) (\<lambda>_.
     and_then (phase_of a p last_phase) (\<lambda>(phase, rank).
     and_then (ensure (UnsafeOrder (tp_name (bu_template a))) (last_phase \<le> rank)) (\<lambda>_.
     and_then (check_order (insert (bu_position a) seen) rank rest) (\<lambda>slots.
       Inr ((a, p, phase, rank) # slots))))))))))"

text \<open>Rows of the ledger are only removed with their bundle, so the next id is beyond all.\<close>

definition next_slot :: "database \<Rightarrow> u64" where
  "next_slot db = fold max (map ba_id (db_bundle_actions db)) 0 + 1"

definition slot_row :: "(prepared_inverse \<Rightarrow> json) \<Rightarrow> u64 \<Rightarrow> u64 \<Rightarrow> slot \<Rightarrow> bundle_action_row" where
  "slot_row enc rid bundle = (\<lambda>(a, p, _, _).
     \<lparr>ba_id = rid, ba_bundle_id = bundle, ba_position = bu_position a, ba_device_id = bu_device_id a,
      ba_verification_mode = None, ba_template_snapshot = template_to_json (bu_template a),
      ba_rollback_snapshot = map_option enc (pa_inverse p), ba_prepared = Some (Inr p),
      ba_state = ''queued'', ba_mutation_effect = EffectPending, ba_reroute_id = None,
      ba_original_reroute_id = bu_original a\<rparr>)"

fun insert_slots :: "(prepared_inverse \<Rightarrow> json) \<Rightarrow> u64 \<Rightarrow> slot list \<Rightarrow> database \<Rightarrow> database" where
  "insert_slots enc bundle [] db = db"
| "insert_slots enc bundle (s # ss) db =
     insert_slots enc bundle ss
       (db\<lparr>db_bundle_actions := db_bundle_actions db @ [slot_row enc (next_slot db) bundle s]\<rparr>)"

definition persist_actions ::
    "(prepared_inverse \<Rightarrow> json) \<Rightarrow> faults \<Rightarrow> u64 \<Rightarrow> bundle_action list \<Rightarrow> database \<Rightarrow> closing_failure + database" where
  "persist_actions enc f bundle actions db =
     and_then (ensure NoActions (actions \<noteq> [])) (\<lambda>_.
     and_then (check_order {} 0 actions) (\<lambda>slots.
     and_then (inquire f ''existing'' bundle (length (bundle_actions db bundle))) (\<lambda>existing.
       if 0 < existing
       then and_then (ensure CountMismatch (existing = length actions)) (\<lambda>_. inquire f ''commit'' bundle db)
       else inquire f ''commit'' bundle (insert_slots enc bundle slots db))))"

subsection \<open>What a bundle still owns\<close>

definition owned_rows :: "database \<Rightarrow> u64 \<Rightarrow> reroute_row list" where
  "owned_rows db bundle =
     sort_key rr_id (filter (\<lambda>r. rr_rollback_of r = None \<and>
       (rr_bundle_id r = Some bundle \<or>
        list_ex (\<lambda>a. ba_bundle_id a = bundle \<and> ba_original_reroute_id a = Some (rr_id r)) (db_bundle_actions db)) \<and>
       rr_mutation_effect r \<in> {EffectChanged, EffectUnknown} \<and> \<not> reversed db r) (db_reroutes db))"

fun with_devices :: "reroute_row list \<Rightarrow> closing_failure + (u64 \<times> u64) list" where
  "with_devices [] = Inr []"
| "with_devices (r # rs) =
     and_then (ok_or (NoDevice (rr_id r)) (rr_device_id r)) (\<lambda>d.
     and_then (with_devices rs) (\<lambda>ds. Inr ((rr_id r, d) # ds)))"

definition outstanding_owned_originals :: "faults \<Rightarrow> database \<Rightarrow> u64 \<Rightarrow> closing_failure + (u64 \<times> u64) list" where
  "outstanding_owned_originals f db bundle =
     and_then (inquire f ''outstanding'' bundle ()) (\<lambda>_. with_devices (owned_rows db bundle))"

subsection \<open>The end of a bundle\<close>

definition still_open :: "u64 \<Rightarrow> bundle_row \<Rightarrow> bool" where
  "still_open bundle b = (bn_id b = bundle \<and> bn_state b \<in> {BundlePlanned, BundleRunning, BundleCompensating})"

definition close_bundle :: "int \<Rightarrow> u64 \<Rightarrow> bundle_state \<Rightarrow> string option \<Rightarrow> database \<Rightarrow> database" where
  "close_bundle now bundle st reason =
     write_bundle (still_open bundle)
       (\<lambda>b. b\<lparr>bn_state := st, bn_failure_reason := reason, bn_finished_at := Some now, bn_rate_reserved := 0\<rparr>)"

definition drop_memberships :: "u64 \<Rightarrow> bundle_state \<Rightarrow> database \<Rightarrow> database" where
  "drop_memberships bundle st db =
     (if st = BundleSucceeded \<or> remaining_roots db bundle = 0
      then db\<lparr>db_window_sources := filter (\<lambda>(_, src). src \<noteq> bundle) (db_window_sources db)\<rparr>
      else db)"

definition release_windows_of ::
    "(string \<Rightarrow> string \<Rightarrow> bool) \<Rightarrow> u64 \<Rightarrow> string \<Rightarrow> database \<Rightarrow> database" where
  "release_windows_of same bundle owner db =
     db\<lparr>db_windows := update_rows (owned_by same bundle owner) (quarantined_window ''uncertain'')
          (filter (\<lambda>w. \<not> (owned_by same bundle owner w \<and> \<not> member_device db (cw_device_id w))) (db_windows db))\<rparr>"

definition end_bundle ::
    "(string \<Rightarrow> string \<Rightarrow> bool) \<Rightarrow> faults \<Rightarrow> clock \<Rightarrow> u64 \<Rightarrow> bundle_state \<Rightarrow> string option \<Rightarrow> string \<Rightarrow> database \<Rightarrow>
     closing_failure + database" where
  "end_bundle same f clk bundle st reason owner db =
     and_then (inquire f ''end'' bundle ()) (\<lambda>_.
     and_then (ensure TerminalConflict (rows_affected (still_open bundle) (db_bundles db) = 1)) (\<lambda>_.
       inquire f ''end commit'' bundle (release_windows_of same bundle owner (drop_memberships bundle st
         (close_bundle (clk (QRecovery ''end'' bundle)) bundle st reason db)))))"

definition attempts_of :: "database \<Rightarrow> u64 \<Rightarrow> bool" where
  "attempts_of db child = list_ex (\<lambda>a. rs_child a = child) (db_recovery_sources db)"

definition committed ::
    "database \<Rightarrow> recovery_failure + database \<Rightarrow> (closing_failure + unit) \<times> database" where
  "committed db r = (case r of Inl e \<Rightarrow> (Inl (RecoveryFailed e), db) | Inr db' \<Rightarrow> (Inr (), db'))"

definition finish_and_release ::
    "(string \<Rightarrow> string \<Rightarrow> bool) \<Rightarrow> faults \<Rightarrow> clock \<Rightarrow> plan_row list \<Rightarrow> u64 \<Rightarrow> bundle_state \<Rightarrow> string option \<Rightarrow>
     string \<Rightarrow> database \<Rightarrow> (closing_failure + unit) \<times> database" where
  "finish_and_release same f clk plans bundle st reason owner db =
     (case inquire f ''attempts'' bundle (attempts_of db bundle) of
        Inl e \<Rightarrow> (Inl e, db)
      | Inr True \<Rightarrow> committed db (finalize_recovery_child same f clk plans bundle st reason owner db)
      | Inr False \<Rightarrow>
          (case end_bundle same f clk bundle st reason owner db of
             Inl e \<Rightarrow> (Inl e, db)
           | Inr db1 \<Rightarrow> committed db1 (and_then (refresh f bundle db1) (\<lambda>(_, db2). Inr db2))))"

definition partial_alert :: "u64 \<Rightarrow> string \<Rightarrow> database \<Rightarrow> database" where
  "partial_alert bundle event =
     record_alert ''reroute_bundle_partial'' ''critical'' None (event @ '':'' @ show_word bundle)"

definition bundle_audit :: "string \<Rightarrow> u64 \<Rightarrow> string \<Rightarrow> database \<Rightarrow> database" where
  "bundle_audit event bundle msg db = db\<lparr>db_bundle_audit := db_bundle_audit db @ [(event, bundle, msg)]\<rparr>"

definition finish_blocked_with_alert ::
    "(string \<Rightarrow> string \<Rightarrow> bool) \<Rightarrow> faults \<Rightarrow> clock \<Rightarrow> plan_row list \<Rightarrow> u64 \<Rightarrow> u64 list \<Rightarrow> string \<Rightarrow>
     string \<Rightarrow> database \<Rightarrow> (closing_failure + unit) \<times> database" where
  "finish_blocked_with_alert same f clk plans bundle still summary owner db =
     (case inquire f ''attempts'' bundle (attempts_of db bundle) of
        Inl e \<Rightarrow> (Inl e, db)
      | Inr True \<Rightarrow>
          committed db (finalize_recovery_child same f clk plans bundle BundleCompensationBlocked (Some summary) owner db)
      | Inr False \<Rightarrow>
          (case and_then (inquire f ''block'' bundle ()) (\<lambda>_.
                and_then (ensure TerminalConflict (rows_affected (still_open bundle) (db_bundles db) = 1)) (\<lambda>_.
                  inquire f ''block commit'' bundle
                    (bundle_audit ''reroute_bundle_partial'' bundle
                      (''bundle #'' @ show_word bundle @ '' left '' @ show_nat (length still) @
                       '' changed or ambiguous action(s): '' @ summary)
                      (partial_alert bundle ''reroute_bundle_partial''
                        (close_bundle (clk (QRecovery ''block'' bundle)) bundle BundleCompensationBlocked
                          (Some summary) db))))) of
             Inl e \<Rightarrow> (Inl e, db)
           | Inr db' \<Rightarrow> (Inr (), db')))"

text \<open>Changed actions whose proof was lost; the whole set or none.\<close>

definition proven_change :: "u64 \<Rightarrow> reroute_row \<Rightarrow> bool" where
  "proven_change rid r = (rr_id r = rid \<and> rr_state r = Succeeded \<and> rr_mutation_effect r = EffectChanged)"

definition doubted_row :: "string \<Rightarrow> reroute_row \<Rightarrow> reroute_row" where
  "doubted_row reason r =
     r\<lparr>rr_state := Uncertain, rr_success := None, rr_verification_status := Some ''uncertain'',
       rr_mutation_effect := EffectUnknown,
       rr_failure_reason := Some (''bundle projected state lost after verification: '' @ reason)\<rparr>"

fun quarantine_changed_actions :: "faults \<Rightarrow> u64 list \<Rightarrow> string \<Rightarrow> database \<Rightarrow> closing_failure + database" where
  "quarantine_changed_actions f [] reason db = inquire f ''doubt commit'' 0 db"
| "quarantine_changed_actions f (i # is) reason db =
     and_then (inquire f ''doubt'' i (List.find (proven_change i) (db_reroutes db))) (\<lambda>row.
     and_then (ok_or (NotChanged i) row) (\<lambda>r.
     and_then (ok_or (NoDevice i) (rr_device_id r)) (\<lambda>d.
     and_then (ensure (ChangedConflict i)
         (rows_affected (\<lambda>r. rr_id r = i \<and> rr_state r = Succeeded) (db_reroutes db) = 1)) (\<lambda>_.
     and_then (inquire f ''doubt lock'' i ()) (\<lambda>_.
       quarantine_changed_actions f is reason
         (insert_lock ''device'' (Some (show_word d)) (Some i) ''auto_uncertain''
           (''reroute #'' @ show_word i @ '' lost its bundle-level projected-state proof'') None
           (db\<lparr>db_reroutes := update_rows (\<lambda>r. rr_id r = i \<and> rr_state r = Succeeded) (doubted_row reason) (db_reroutes db),
               db_bundle_actions := update_rows (\<lambda>a. ba_reroute_id a = Some i)
                 (\<lambda>a. a\<lparr>ba_state := ''uncertain'', ba_mutation_effect := EffectUnknown\<rparr>) (db_bundle_actions db)\<rparr>)))))))"

subsection \<open>Sources of a recovery without a claim\<close>

text \<open>One owner token among the windows of a bundle. The repair at startup asks for the first by device; the
  settlement of a child's sources asks for any one row (\<open>LIMIT 1\<close> without an order), and
  the model takes the first by device there too.\<close>

definition first_owner :: "database \<Rightarrow> u64 \<Rightarrow> string option" where
  "first_owner db bundle =
     (case sort_key cw_device_id (filter (\<lambda>w. cw_bundle_id w = Some bundle) (db_windows db)) of
        [] \<Rightarrow> None | w # _ \<Rightarrow> Some (cw_owner_token w))"

definition ledger_sources :: "database \<Rightarrow> u64 \<Rightarrow> u64 list" where
  "ledger_sources db child =
     remdups (List.map_filter rr_bundle_id (concat (map
       (\<lambda>a. filter (\<lambda>r. ba_original_reroute_id a = Some (rr_id r)) (db_reroutes db)) (bundle_actions db child))))"

definition restored_text :: string where
  "restored_text = ''all original mutations were verified restored''"

definition compensated_row :: "int \<Rightarrow> bundle_row \<Rightarrow> bundle_row" where
  "compensated_row now b =
     b\<lparr>bn_state := BundleCompensated, bn_finished_at := Some now,
       bn_failure_reason := Some ((case bn_failure_reason b of Some t \<Rightarrow> t | None \<Rightarrow> '''') @ '' | '' @ restored_text)\<rparr>"

definition settle_source :: "clock \<Rightarrow> u64 \<Rightarrow> database \<Rightarrow> database" where
  "settle_source clk source db =
     write_bundle (\<lambda>b. bn_id b = source \<and> bn_state b \<in> {BundleAborted, BundleCompensationBlocked})
       (compensated_row (clk (QRecovery ''settle'' source)))
       (db\<lparr>db_windows := filter (\<lambda>w. cw_bundle_id w \<noteq> Some source) (db_windows db),
           db_window_sources := filter (\<lambda>(_, src). src \<noteq> source) (db_window_sources db)\<rparr>)"

definition inactive_row :: "bundle_row \<Rightarrow> bundle_row" where
  "inactive_row b =
     lifecycle_update (\<lambda>l. l\<lparr>lf_state := Inactive, lf_remaining := 0, lf_claim := None, lf_block_reason := None\<rparr>) b"

fun settle_sources :: "faults \<Rightarrow> clock \<Rightarrow> u64 list \<Rightarrow> database \<Rightarrow> (closing_failure + unit) \<times> database" where
  "settle_sources f clk [] db = (Inr (), db)"
| "settle_sources f clk (s # ss) db =
     (case and_then (outstanding_owned_originals f db s) (\<lambda>owned.
           and_then (ensure (StillOwned s) (owned = [])) (\<lambda>_. inquire f ''settle'' s (settle_source clk s db))) of
        Inl e \<Rightarrow> (Inl e, db)
      | Inr db1 \<Rightarrow>
          (case refresh f s db1 of
             Inl e \<Rightarrow> (Inl (RecoveryFailed e), db1)
           | Inr (_, db2) \<Rightarrow>
               (case inquire f ''inactive'' s (write_bundle (\<lambda>b. bn_id b = s) inactive_row db2) of
                  Inl e \<Rightarrow> (Inl e, db2)
                | Inr db3 \<Rightarrow> settle_sources f clk ss db3)))"

definition settle_source_activations ::
    "(string \<Rightarrow> string \<Rightarrow> bool) \<Rightarrow> faults \<Rightarrow> clock \<Rightarrow> plan_row list \<Rightarrow> u64 \<Rightarrow> database \<Rightarrow>
     (closing_failure + unit) \<times> database" where
  "settle_source_activations same f clk plans child db =
     (case inquire f ''attempts'' child (attempts_of db child) of
        Inl e \<Rightarrow> (Inl e, db)
      | Inr True \<Rightarrow>
          (case inquire f ''owner'' child (first_owner db child) of
             Inl e \<Rightarrow> (Inl e, db)
           | Inr owner \<Rightarrow>
               committed db (finalize_recovery_child same f clk plans child BundleSucceeded (Some restored_text)
                 (case owner of Some t \<Rightarrow> t | None \<Rightarrow> ''legacy-settlement'') db))
      | Inr False \<Rightarrow>
          (case inquire f ''ledger'' child (ledger_sources db child) of
             Inl e \<Rightarrow> (Inl e, db)
           | Inr sources \<Rightarrow> settle_sources f clk sources db))"

subsection \<open>Associations that older releases did not record\<close>

definition plan_originals :: "json \<Rightarrow> u64 list" where
  "plan_originals snapshot =
     (case List.map_filter as_u64 (case Option.bind (Option.bind (json_get snapshot ''source'')
               (\<lambda>s. json_get s ''original_reroute_ids'')) as_array of Some xs \<Rightarrow> xs | None \<Rightarrow> []) of
        i # is \<Rightarrow> i # is
      | [] \<Rightarrow> List.map_filter (\<lambda>a. Option.bind (json_get a ''original_reroute_id'') as_u64)
                (case Option.bind (json_get snapshot ''actions'') as_array of Some xs \<Rightarrow> xs | None \<Rightarrow> []))"

definition legacy_token :: "u64 \<Rightarrow> string" where
  "legacy_token child = ''legacy:child:'' @ show_word child"

definition associate :: "u64 \<Rightarrow> u64 \<Rightarrow> database \<Rightarrow> database" where
  "associate child original db =
     (case Option.bind (List.find (\<lambda>r. rr_id r = original \<and> rr_rollback_of r = None) (db_reroutes db)) rr_bundle_id of
        None \<Rightarrow> db
      | Some source \<Rightarrow>
          if attempted db child source then db
          else db\<lparr>db_recovery_sources := db_recovery_sources db @
                 [\<lparr>rs_child = child, rs_source = source, rs_token = legacy_token child,
                   rs_settlement = ActiveClaim, rs_settled_at = None\<rparr>]\<rparr>)"

fun repair_plans ::
    "faults \<Rightarrow> (u64 \<times> json) list \<Rightarrow> database \<Rightarrow> (closing_failure + unit) \<times> database" where
  "repair_plans f [] db = (Inr (), db)"
| "repair_plans f ((child, snapshot) # rest) db =
     (if plan_originals snapshot = [] then repair_plans f rest db
      else case inquire f ''repair'' child (fold (associate child) (plan_originals snapshot) db) of
        Inl e \<Rightarrow> (Inl e, db)
      | Inr db' \<Rightarrow> repair_plans f rest db')"

definition repair_legacy_associations ::
    "faults \<Rightarrow> plan_row list \<Rightarrow> database \<Rightarrow> (closing_failure + unit) \<times> database" where
  "repair_legacy_associations f plans db =
     (case inquire f ''plans'' 0 (List.map_filter (\<lambda>p. case ep_bundle_id p of
            Some child \<Rightarrow> if ep_consumed_at p \<noteq> None \<and> \<not> attempts_of db child then Some (child, ep_snapshot p) else None
          | None \<Rightarrow> None) plans) of
        Inl e \<Rightarrow> (Inl e, db)
      | Inr rows \<Rightarrow> repair_plans f rows db)"

subsection \<open>Startup\<close>

definition active_children :: "database \<Rightarrow> (u64 \<times> bundle_state) list" where
  "active_children db =
     map (\<lambda>b. (bn_id b, bn_state b)) (sort_key bn_id (filter (\<lambda>b.
       list_ex (\<lambda>a. rs_child a = bn_id b \<and> rs_settlement a = ActiveClaim) (db_recovery_sources db)) (db_bundles db)))"

definition startup_terminal :: "bundle_state \<Rightarrow> bundle_state" where
  "startup_terminal st =
     (if st = BundleSucceeded then BundleSucceeded
      else if st \<in> {BundleFailed, BundleAborted} then BundleFailed else BundleCompensationBlocked)"

fun finalize_children ::
    "(string \<Rightarrow> string \<Rightarrow> bool) \<Rightarrow> faults \<Rightarrow> clock \<Rightarrow> plan_row list \<Rightarrow> (u64 \<times> bundle_state) list \<Rightarrow> database \<Rightarrow>
     (closing_failure + unit) \<times> database" where
  "finalize_children same f clk plans [] db = (Inr (), db)"
| "finalize_children same f clk plans ((child, st) # rest) db =
     (case inquire f ''owner'' child (first_owner db child) of
        Inl e \<Rightarrow> (Inl e, db)
      | Inr owner \<Rightarrow>
          (case finalize_recovery_child same f clk plans child (startup_terminal st)
                  (Some ''startup repaired recovery ownership'')
                  (case owner of Some t \<Rightarrow> t | None \<Rightarrow> ''startup-repair'') db of
             Inl e \<Rightarrow> (Inl (RecoveryFailed e), db)
           | Inr db' \<Rightarrow> finalize_children same f clk plans rest db'))"

definition hold_device :: "u64 \<Rightarrow> u64 \<Rightarrow> database \<Rightarrow> closing_failure + database" where
  "hold_device bundle device db =
     (case List.find (\<lambda>w. cw_device_id w = device) (db_windows db) of
        None \<Rightarrow> Inr (db\<lparr>db_windows := db_windows db @
                 [\<lparr>cw_device_id = device, cw_bundle_id = Some bundle, cw_reroute_id = None,
                   cw_owner_token = recovery_owner bundle, cw_phase = ''uncertain''\<rparr>]\<rparr>)
      | Some w \<Rightarrow>
          if cw_bundle_id w = Some bundle
          then Inr (db\<lparr>db_windows := update_rows (\<lambda>w. cw_device_id w = device \<and> cw_bundle_id w = Some bundle)
                 (\<lambda>w. w\<lparr>cw_phase := ''uncertain''\<rparr>) (db_windows db)\<rparr>)
          else Inl (ForeignWindowOwner device))"

fun hold_devices :: "u64 \<Rightarrow> u64 list \<Rightarrow> database \<Rightarrow> closing_failure + database" where
  "hold_devices bundle [] db = Inr db"
| "hold_devices bundle (d # ds) db = and_then (hold_device bundle d db) (hold_devices bundle ds)"

definition block_parents :: "u64 \<Rightarrow> string \<Rightarrow> database \<Rightarrow> database" where
  "block_parents bundle reason db =
     write_bundle (\<lambda>p. list_ex (\<lambda>c. bn_id c = bundle \<and> bn_parent c = Some (bn_id p)) (db_bundles db))
       (blocked_row reason) db"

definition close_interrupted :: "faults \<Rightarrow> clock \<Rightarrow> u64 \<Rightarrow> database \<Rightarrow> closing_failure + database" where
  "close_interrupted f clk bundle db =
     and_then (outstanding_owned_originals f db bundle) (\<lambda>owned.
     and_then (inquire f ''interrupted'' bundle ()) (\<lambda>_.
     and_then (ensure TerminalConflict (rows_affected (still_open bundle) (db_bundles db) = 1)) (\<lambda>_.
       (let reason = (if owned \<noteq> []
              then ''controller restarted mid-bundle; changed or ambiguous siblings require reconciliation''
              else ''controller restarted before any owned router mutation remained'');
            closed = block_parents bundle reason
              (close_bundle (clk (QRecovery ''interrupted'' bundle)) bundle
                (if owned \<noteq> [] then BundleCompensationBlocked else BundleAborted) (Some reason) db)
        in and_then
             (if owned \<noteq> []
              then and_then (hold_devices bundle (remdups_adj (sort (map snd owned))) closed) (\<lambda>held.
                Inr (bundle_audit ''reroute_bundle_interrupted'' bundle
                  (''bundle #'' @ show_word bundle @ '' interrupted with '' @ show_nat (length owned) @
                   '' changed or ambiguous action(s)'')
                  (partial_alert bundle ''reroute_bundle_interrupted'' held)))
              else Inr (closed\<lparr>db_windows := filter (\<lambda>w. cw_bundle_id w \<noteq> Some bundle) (db_windows closed)\<rparr>))
             (\<lambda>db'. inquire f ''interrupted commit'' bundle db')))))"

fun close_all :: "faults \<Rightarrow> clock \<Rightarrow> u64 list \<Rightarrow> database \<Rightarrow> (closing_failure + unit) \<times> database" where
  "close_all f clk [] db = (Inr (), db)"
| "close_all f clk (i # is) db =
     (case close_interrupted f clk i db of Inl e \<Rightarrow> (Inl e, db) | Inr db' \<Rightarrow> close_all f clk is db')"

definition open_ids :: "database \<Rightarrow> u64 list" where
  "open_ids db = sort (map bn_id (filter (\<lambda>b. still_open (bn_id b) b) (db_bundles db)))"

definition chain ::
    "(closing_failure + unit) \<times> database \<Rightarrow> (database \<Rightarrow> (closing_failure + unit) \<times> database) \<Rightarrow>
     (closing_failure + unit) \<times> database" where
  "chain r g = (case r of (Inl e, db) \<Rightarrow> (Inl e, db) | (Inr _, db) \<Rightarrow> g db)"

definition recover_bundles_on_startup ::
    "(string \<Rightarrow> string \<Rightarrow> bool) \<Rightarrow> faults \<Rightarrow> clock \<Rightarrow> plan_row list \<Rightarrow> database \<Rightarrow>
     (closing_failure + unit) \<times> database" where
  "recover_bundles_on_startup same f clk plans db =
     chain (repair_legacy_associations f plans db) (\<lambda>db1.
     chain (case inquire f ''children'' 0 (active_children db1) of
              Inl e \<Rightarrow> (Inl e, db1)
            | Inr children \<Rightarrow> finalize_children same f clk plans children db1) (\<lambda>db2.
       case inquire f ''open'' 0 (open_ids db2) of
         Inl e \<Rightarrow> (Inl e, db2)
       | Inr ids \<Rightarrow> close_all f clk ids db2))"

subsection \<open>Closing one bundle\<close>

lemma quarantined_device [simp]: "cw_device_id (quarantined_window ph w) = cw_device_id w"
  by (simp add: quarantined_window_def)

text \<open>What closing one interrupted bundle does.\<close>

lemma close_interrupted_Inr:
  assumes "close_interrupted f clk i db = Inr db'"
  obtains owned reason st closed where
    "with_devices (owned_rows db i) = Inr owned"
    "st = (if owned \<noteq> [] then BundleCompensationBlocked else BundleAborted)"
    "closed = block_parents i reason (close_bundle (clk (QRecovery ''interrupted'' i)) i st (Some reason) db)"
    "if owned \<noteq> []
     then \<exists>held msg. hold_devices i (remdups_adj (sort (map snd owned))) closed = Inr held \<and>
       db' = bundle_audit ''reroute_bundle_interrupted'' i msg (partial_alert i ''reroute_bundle_interrupted'' held)
     else db' = closed\<lparr>db_windows := filter (\<lambda>w. cw_bundle_id w \<noteq> Some i) (db_windows closed)\<rparr>"
proof -
  from assms obtain owned where o: "with_devices (owned_rows db i) = Inr owned"
    by (auto simp: close_interrupted_def outstanding_owned_originals_def res_simps)
  show ?thesis
  proof (cases "owned = []")
    case True
    from assms o True show ?thesis
      by (intro that [OF o refl refl, of "''controller restarted before any owned router mutation remained''"])
        (auto simp: close_interrupted_def outstanding_owned_originals_def res_simps Let_def)
  next
    case False
    from assms o False show ?thesis
      by (intro that [OF o refl refl,
          of "''controller restarted mid-bundle; changed or ambiguous siblings require reconciliation''"])
        (auto simp: close_interrupted_def outstanding_owned_originals_def res_simps Let_def)
  qed
qed

subsection \<open>No bundle stays open\<close>

lemma hold_device_bundles: "hold_device i d db = Inr db' \<Longrightarrow> db_bundles db' = db_bundles db"
  by (auto simp: hold_device_def split: option.splits if_splits)

lemma hold_devices_bundles: "hold_devices i ds db = Inr db' \<Longrightarrow> db_bundles db' = db_bundles db"
  by (induction ds arbitrary: db) (auto simp: res_simps dest: hold_device_bundles)

definition bundle_open :: "bundle_row \<Rightarrow> bool" where
  "bundle_open b = still_open (bn_id b) b"

lemma still_open_iff: "still_open i b \<longleftrightarrow> bundle_open b \<and> bn_id b = i"
  by (auto simp: still_open_def bundle_open_def)

lemma open_ids_set: "j \<in> set (open_ids db) \<longleftrightarrow> (\<exists>b \<in> set (db_bundles db). bundle_open b \<and> bn_id b = j)"
  by (auto simp: open_ids_def bundle_open_def)

lemma open_after_write:
  assumes "j \<in> set (open_ids (write_bundle p g db))"
    "\<And>b. p b \<Longrightarrow> bn_id (g b) = bn_id b \<and> (bundle_open (g b) \<longrightarrow> bundle_open b)"
  shows "j \<in> set (open_ids db)"
proof -
  from assms(1) obtain r where r: "r \<in> set (db_bundles db)" "bundle_open (if p r then g r else r)"
    "bn_id (if p r then g r else r) = j"
    unfolding open_ids_set write_bundle_def by (auto simp: set_update_rows)
  with assms(2) [of r] have "bundle_open r \<and> bn_id r = j" by (cases "p r") auto
  with r(1) show ?thesis by (auto simp: open_ids_set)
qed

lemma open_after_close:
  assumes "j \<in> set (open_ids (close_bundle now i st reason db))" "terminal_source st"
  shows "j \<in> set (open_ids db) \<and> j \<noteq> i"
proof -
  let ?g = "\<lambda>b. b\<lparr>bn_state := st, bn_failure_reason := reason, bn_finished_at := Some now, bn_rate_reserved := 0\<rparr>"
  from assms(1) obtain r where r: "r \<in> set (db_bundles db)" "bundle_open (if still_open i r then ?g r else r)"
    "bn_id (if still_open i r then ?g r else r) = j"
    unfolding open_ids_set close_bundle_def write_bundle_def by (auto simp: set_update_rows)
  have "\<not> bundle_open (?g r)" using assms(2) by (auto simp: bundle_open_def still_open_def terminal_source_def)
  with r(2,3) have "\<not> still_open i r \<and> bundle_open r \<and> bn_id r = j" by (cases "still_open i r") auto
  with r(1) show ?thesis by (auto simp: open_ids_set still_open_iff)
qed

lemma open_after_interrupted:
  assumes "close_interrupted f clk i db = Inr db'" "j \<in> set (open_ids db')"
  shows "j \<in> set (open_ids db) \<and> j \<noteq> i"
proof (rule close_interrupted_Inr [OF assms(1)], goal_cases)
  case (1 owned reason st closed)
  have "db_bundles db' = db_bundles closed"
  proof (cases "owned = []")
    case True
    with 1(4) show ?thesis by simp
  next
    case False
    with 1(4) show ?thesis
      by (auto simp: bundle_audit_def partial_alert_def record_alert_def dest: hold_devices_bundles)
  qed
  with assms(2) have "j \<in> set (open_ids closed)" by (simp add: open_ids_def)
  then have "j \<in> set (open_ids (close_bundle (clk (QRecovery ''interrupted'' i)) i st (Some reason) db))"
    unfolding 1(3) block_parents_def
    by (rule open_after_write) (simp add: bundle_open_def still_open_def blocked_row_def)
  then show ?case by (rule open_after_close) (simp add: 1(2) terminal_source_def)
qed

lemma open_after_all:
  "close_all f clk is db = (Inr u, db') \<Longrightarrow> j \<in> set (open_ids db') \<Longrightarrow> j \<in> set (open_ids db) \<and> j \<notin> set is"
proof (induction "is" arbitrary: db)
  case (Cons i "is")
  from Cons.prems(1) obtain d where d: "close_interrupted f clk i db = Inr d" "close_all f clk is d = (Inr u, db')"
    by (auto split: sum.splits)
  from Cons.IH [OF d(2) Cons.prems(2)] open_after_interrupted [OF d(1)] show ?case by auto
qed simp

subsection \<open>Held devices\<close>

definition held :: "database \<Rightarrow> u64 \<Rightarrow> u64 \<Rightarrow> bool" where
  "held db bundle device =
     (\<exists>w \<in> set (db_windows db). cw_device_id w = device \<and> cw_bundle_id w = Some bundle \<and> cw_phase w = ''uncertain'')"

lemma hold_device_held:
  "hold_device i d db = Inr db' \<Longrightarrow> held db' i d \<and> (\<forall>e. held db i e \<longrightarrow> held db' i e)"
proof (cases "List.find (\<lambda>w. cw_device_id w = d) (db_windows db)")
  case (Some w)
  assume h: "hold_device i d db = Inr db'"
  from Some have w: "w \<in> set (db_windows db)" "cw_device_id w = d" by (auto dest: find_SomeD)
  from h Some have db': "db_windows db' = update_rows (\<lambda>w. cw_device_id w = d \<and> cw_bundle_id w = Some i)
      (\<lambda>w. w\<lparr>cw_phase := ''uncertain''\<rparr>) (db_windows db)" "cw_bundle_id w = Some i"
    by (auto simp: hold_device_def split: if_splits)
  have "held db' i d" unfolding held_def db'(1)
    by (rule bexI [of _ "w\<lparr>cw_phase := ''uncertain''\<rparr>"]) (use w db'(2) in \<open>auto simp: set_update_rows\<close>)
  moreover have "held db' i e" if "held db i e" for e
  proof -
    from that obtain v where v: "v \<in> set (db_windows db)" "cw_device_id v = e" "cw_bundle_id v = Some i"
      "cw_phase v = ''uncertain''" by (auto simp: held_def)
    show ?thesis unfolding held_def db'(1)
      by (rule bexI [of _ "if cw_device_id v = d \<and> cw_bundle_id v = Some i then v\<lparr>cw_phase := ''uncertain''\<rparr> else v"])
        (use v in \<open>auto simp: set_update_rows\<close>)
  qed
  ultimately show ?thesis by blast
qed (auto simp: hold_device_def held_def)

lemma hold_devices_held:
  "hold_devices i ds db = Inr db' \<Longrightarrow> (\<forall>d \<in> set ds. held db' i d) \<and> (\<forall>e. held db i e \<longrightarrow> held db' i e)"
proof (induction ds arbitrary: db)
  case (Cons d ds)
  from Cons.prems obtain db1 where s: "hold_device i d db = Inr db1" "hold_devices i ds db1 = Inr db'"
    by (auto simp: res_simps)
  from Cons.IH [OF s(2)] hold_device_held [OF s(1)] show ?case by auto
qed simp

lemma with_devices_Inr:
  "with_devices rs = Inr ds \<Longrightarrow> map fst ds = map rr_id rs \<and> map (Some \<circ> snd) ds = map rr_device_id rs"
  by (induction rs arbitrary: ds) (auto simp: res_simps)

subsection \<open>Windows at the end of a bundle\<close>

lemma end_bundle_Inr:
  assumes "end_bundle same f clk i st reason owner db = Inr db'"
  obtains now where
    "db' = release_windows_of same i owner (drop_memberships i st (close_bundle now i st reason db))"
  using assms by (auto simp: end_bundle_def res_simps)

lemma drop_memberships_windows [simp]: "db_windows (drop_memberships i st db) = db_windows db"
  by (simp add: drop_memberships_def)

lemma close_bundle_frame [simp]:
  "db_windows (close_bundle now i st reason db) = db_windows db"
  "db_window_sources (close_bundle now i st reason db) = db_window_sources db"
  "db_reroutes (close_bundle now i st reason db) = db_reroutes db"
  by (simp_all add: close_bundle_def)

lemma remaining_close [simp]: "remaining_roots (close_bundle now i st reason db) j = remaining_roots db j"
  by (simp add: remaining_roots_def roots_def reversed_def)

lemma release_windows_frame [simp]:
  "db_window_sources (release_windows_of same i owner db) = db_window_sources db"
  by (simp add: release_windows_of_def)

lemma member_release [simp]: "member_device (release_windows_of same i owner db) d = member_device db d"
  by (simp add: member_device_def)

subsection \<open>The ledger\<close>

lemma check_order_Inr:
  "check_order seen k actions = Inr slots \<Longrightarrow>
   map fst slots = actions \<and> distinct (map bu_position actions) \<and> set (map bu_position actions) \<inter> seen = {} \<and>
   sorted (k # map (snd \<circ> snd \<circ> snd) slots) \<and>
   (\<forall>(a, p, phase, rank) \<in> set slots. bu_prepared a = Some p \<and> validate_prepared p = Inr () \<and>
      pa_device_id p = bu_device_id a \<and> pa_template_id p = tp_id (bu_template a) \<and> tp_enabled (bu_template a) \<and>
      (tp_name (bu_template a) \<noteq> ''bgp_export_policy_set'' \<longrightarrow> (phase, rank) = safety_phase (tp_name (bu_template a))))"
proof (induction actions arbitrary: seen k slots)
  case (Cons a actions)
  from Cons.prems obtain p ph rank rest where s: "bu_position a \<notin> seen" "tp_enabled (bu_template a)"
    "bu_prepared a = Some p" "validate_prepared p = Inr ()" "pa_device_id p = bu_device_id a"
    "pa_template_id p = tp_id (bu_template a)" "phase_of a p k = Inr (ph, rank)" "k \<le> rank"
    "check_order (insert (bu_position a) seen) rank actions = Inr rest" "slots = (a, p, ph, rank) # rest"
    by (auto simp: res_simps)
  have "tp_name (bu_template a) \<noteq> ''bgp_export_policy_set'' \<longrightarrow> (ph, rank) = safety_phase (tp_name (bu_template a))"
    using s(7) by (auto simp: phase_of_def)
  with s Cons.IH [OF s(9)] show ?case by auto
qed simp

lemma insert_slots_rows:
  "\<exists>rows. db_bundle_actions (insert_slots enc bundle ss db) = db_bundle_actions db @ rows \<and>
     map (\<lambda>r. (ba_bundle_id r, ba_position r, ba_device_id r, ba_prepared r, ba_original_reroute_id r)) rows =
     map (\<lambda>(a, p, _). (bundle, bu_position a, bu_device_id a, Some (Inr p), bu_original a)) ss"
proof (induction ss arbitrary: db)
  case (Cons s ss)
  from Cons.IH [of "db\<lparr>db_bundle_actions := db_bundle_actions db @ [slot_row enc (next_slot db) bundle s]\<rparr>"]
  show ?case by (auto simp: slot_row_def split: prod.splits)
qed simp

section \<open>Properties\<close>

text \<open>C17: a controller that restarts leaves no bundle behind in flight: once the repair of the
  bundles succeeds, every bundle of the database is in a terminal state, whatever was planned,
  running or compensating before.\<close>

theorem startup_closes_every_bundle:
  assumes "recover_bundles_on_startup same f clk plans db = (Inr u, db')" "b \<in> set (db_bundles db')"
  shows "terminal_source (bn_state b)"
proof -
  from assms(1) obtain d where d: "close_all f clk (open_ids d) d = (Inr u, db')"
    by (auto simp: recover_bundles_on_startup_def chain_def res_simps split: prod.splits sum.splits)
  have "set (open_ids db') = {}"
  proof (rule equals0I)
    fix j assume "j \<in> set (open_ids db')"
    from open_after_all [OF d this] show False by simp
  qed
  with assms(2) show ?thesis
    by (auto simp: open_ids_def still_open_def terminal_source_def filter_empty_conv)
qed

text \<open>C20: an interrupted bundle that may still own a change of a router keeps the router
  closed. Closing it succeeds only if every action it still owns names its device, and then each
  of those devices has a change window in the name of that bundle that is marked uncertain;
  a bundle that owns nothing leaves no window.\<close>

theorem interrupted_devices_held:
  assumes "close_interrupted f clk bundle db = Inr db'"
  shows "(\<forall>r \<in> set (owned_rows db bundle). \<exists>d. rr_device_id r = Some d \<and> held db' bundle d) \<and>
    (owned_rows db bundle = [] \<longrightarrow> \<not> (\<exists>w \<in> set (db_windows db'). cw_bundle_id w = Some bundle))"
proof (rule close_interrupted_Inr [OF assms], goal_cases)
  case (1 owned reason st closed)
  note wd = with_devices_Inr [OF 1(1)]
  show ?case
  proof (cases "owned = []")
    case True
    with wd 1(4) show ?thesis by auto
  next
    case False
    with 1(4) obtain hd msg where h: "hold_devices bundle (remdups_adj (sort (map snd owned))) closed = Inr hd"
      "db' = bundle_audit ''reroute_bundle_interrupted'' bundle msg
         (partial_alert bundle ''reroute_bundle_interrupted'' hd)"
      by auto
    have "held db' bundle d" if "d \<in> set (map snd owned)" for d
    proof -
      from hold_devices_held [OF h(1)] that have "held hd bundle d" by (simp only: remdups_adj_set set_sort)
      then show ?thesis by (simp add: h(2) held_def bundle_audit_def partial_alert_def record_alert_def)
    qed
    moreover have "\<exists>d. rr_device_id r = Some d \<and> d \<in> set (map snd owned)" if "r \<in> set (owned_rows db bundle)" for r
    proof -
      from that have "rr_device_id r \<in> set (map rr_device_id (owned_rows db bundle))" by simp
      with wd have "rr_device_id r \<in> set (map (Some \<circ> snd) owned)" by simp
      then show ?thesis by auto
    qed
    ultimately show ?thesis using False wd by force
  qed
qed

text \<open>C39: a bundle that ends gives back only what is its own. The bundle is no recovery child: no
  recovery attempt names it (a child ends by the settlement of its sources, which gives back windows
  of its sources too). Windows of others stay as they are; a device that some bundle still holds a
  membership of keeps a window; a bundle that did not succeed and still owns a change keeps its
  memberships, and every other one gives up exactly its own; and no window stays in the name of the
  bundle under the token it ended with.\<close>

theorem end_keeps_memberships:
  assumes "finish_and_release same f clk plans bundle st reason owner db = (Inr u, db')" "\<not> attempts_of db bundle"
  shows "(\<forall>w \<in> set (db_windows db). \<not> owned_by same bundle owner w \<longrightarrow> w \<in> set (db_windows db')) \<and>
    (\<forall>w \<in> set (db_windows db). member_device db' (cw_device_id w) \<longrightarrow>
       (\<exists>w' \<in> set (db_windows db'). cw_device_id w' = cw_device_id w)) \<and>
    (st \<noteq> BundleSucceeded \<and> 0 < remaining_roots db bundle \<longrightarrow> db_window_sources db' = db_window_sources db) \<and>
    (st = BundleSucceeded \<or> remaining_roots db bundle = 0 \<longrightarrow>
       db_window_sources db' = filter (\<lambda>(_, b). b \<noteq> bundle) (db_window_sources db)) \<and>
    (\<forall>w \<in> set (db_windows db'). \<not> owned_by same bundle owner w)"
proof -
  from assms obtain d n where d: "end_bundle same f clk bundle st reason owner db = Inr d"
    "refresh f bundle d = Inr (n, db')"
    by (auto simp: finish_and_release_def committed_def res_simps split: sum.splits bool.splits)
  from end_bundle_Inr [OF d(1)] obtain now where
    e: "d = release_windows_of same bundle owner (drop_memberships bundle st (close_bundle now bundle st reason db))" .
  let ?d = "drop_memberships bundle st (close_bundle now bundle st reason db)"
  have frame: "db_windows db' = db_windows d" "db_window_sources db' = db_window_sources ?d"
    using d(2) e by (auto simp: refresh_def put_def res_simps)
  have mem: "member_device db' x = member_device ?d x" for x by (simp add: member_device_def frame(2))
  have win: "db_windows db' = update_rows (owned_by same bundle owner) (quarantined_window ''uncertain'')
      (filter (\<lambda>w. \<not> (owned_by same bundle owner w \<and> \<not> member_device db' (cw_device_id w))) (db_windows db))"
    by (simp add: frame(1) e release_windows_of_def mem)
  have "\<exists>w' \<in> set (db_windows db'). cw_device_id w' = cw_device_id w"
    if "w \<in> set (db_windows db)" "member_device db' (cw_device_id w)" for w
    unfolding win using that
    by (intro bexI [of _ "if owned_by same bundle owner w then quarantined_window ''uncertain'' w else w"])
      (auto simp: set_update_rows)
  moreover have "\<not> owned_by same bundle owner w" if "w \<in> set (db_windows db')" for w
    using that unfolding win
    by (auto simp: set_update_rows owned_by_def quarantined_window_def split: if_splits dest: arg_cong [where f = cw_bundle_id])
  moreover have "w \<in> set (db_windows db')" if "w \<in> set (db_windows db)" "\<not> owned_by same bundle owner w" for w
    unfolding win using that by (force simp: set_update_rows)
  moreover have "db_window_sources db' = db_window_sources db"
    if "st \<noteq> BundleSucceeded" "0 < remaining_roots db bundle"
    unfolding frame(2) using that by (simp add: drop_memberships_def)
  moreover have "db_window_sources db' = filter (\<lambda>(_, b). b \<noteq> bundle) (db_window_sources db)"
    if "st = BundleSucceeded \<or> remaining_roots db bundle = 0"
    unfolding frame(2) using that by (auto simp: drop_memberships_def case_prod_beta)
  ultimately show ?thesis by blast
qed

text \<open>A ledger is safe to run in its order. When the actions of a bundle are persisted, the ledger
  holds exactly them in their order, each with its own position, prepared evidence that is valid
  and belongs to that device and that template; and an action that adds reachability never stands
  behind one that is neutral or takes it away.\<close>

theorem ledger_is_ordered:
  assumes "persist_actions enc f bundle actions db = Inr db'" "bundle_actions db bundle = []"
  shows "map (\<lambda>a. (ba_position a, ba_device_id a)) (bundle_actions db' bundle) =
      map (\<lambda>a. (bu_position a, bu_device_id a)) actions \<and>
    distinct (map ba_position (bundle_actions db' bundle)) \<and>
    (\<forall>a \<in> set actions. \<exists>p. bu_prepared a = Some p \<and> validate_prepared p = Inr () \<and>
       pa_device_id p = bu_device_id a \<and> pa_template_id p = tp_id (bu_template a)) \<and>
    (\<forall>i j. i < j \<and> j < length actions \<and> tp_name (bu_template (actions ! i)) \<noteq> ''bgp_export_policy_set'' \<and>
       tp_name (bu_template (actions ! j)) \<noteq> ''bgp_export_policy_set'' \<longrightarrow>
       snd (safety_phase (tp_name (bu_template (actions ! i)))) \<le> snd (safety_phase (tp_name (bu_template (actions ! j)))))"
proof -
  from assms obtain slots where s: "check_order {} 0 actions = Inr slots" "db' = insert_slots enc bundle slots db"
    by (auto simp: persist_actions_def res_simps)
  note ok = check_order_Inr [OF s(1)]
  from insert_slots_rows [of enc "bundle" slots db] obtain rows where
    rows: "db_bundle_actions db' = db_bundle_actions db @ rows"
    "map (\<lambda>r. (ba_bundle_id r, ba_position r, ba_device_id r, ba_prepared r, ba_original_reroute_id r)) rows =
     map (\<lambda>(a, p, _). (bundle, bu_position a, bu_device_id a, Some (Inr p), bu_original a)) slots"
    unfolding s(2) by blast
  from arg_cong [where f = "map fst", OF rows(2)] have "\<forall>r \<in> set rows. ba_bundle_id r = bundle"
    by (simp add: case_prod_beta comp_def map_replicate_const map_eq_conv) (metis in_set_replicate length_map list.set_map imageI)
  with rows(1) assms(2) have mine: "bundle_actions db' bundle = rows" by (simp add: bundle_actions_def)
  from arg_cong [where f = "map (\<lambda>(_, q, d, _). (q, d))", OF rows(2)] ok
  have keys: "map (\<lambda>a. (ba_position a, ba_device_id a)) rows = map (\<lambda>a. (bu_position a, bu_device_id a)) actions"
    by (auto simp: case_prod_beta comp_def)
  from arg_cong [where f = "map fst", OF keys] have "map ba_position rows = map bu_position actions"
    by (simp add: comp_def)
  with ok have d: "distinct (map ba_position rows)" by simp
  have "snd (safety_phase (tp_name (bu_template (actions ! i)))) \<le> snd (safety_phase (tp_name (bu_template (actions ! j))))"
    if "i < j" "j < length actions" "tp_name (bu_template (actions ! i)) \<noteq> ''bgp_export_policy_set''"
      "tp_name (bu_template (actions ! j)) \<noteq> ''bgp_export_policy_set''" for i j
  proof -
    from ok have len: "length slots = length actions" by (metis length_map)
    have rank: "snd (snd (snd (slots ! k))) = snd (safety_phase (tp_name (bu_template (actions ! k))))"
      if "k < length actions" "tp_name (bu_template (actions ! k)) \<noteq> ''bgp_export_policy_set''" for k
    proof -
      obtain a p ph r where k: "slots ! k = (a, p, ph, r)" by (cases "slots ! k") auto
      from that len have "(a, p, ph, r) \<in> set slots" by (metis k nth_mem)
      moreover have "a = actions ! k" using ok that(1) len k by (metis nth_map fst_conv)
      ultimately have "(ph, r) = safety_phase (tp_name (bu_template (actions ! k)))" using ok that(2) by blast
      with k show ?thesis by (metis snd_conv)
    qed
    from ok have "sorted (map (snd \<circ> snd \<circ> snd) slots)" by simp
    from sorted_nth_mono [OF this, of i j] that len have "snd (snd (snd (slots ! i))) \<le> snd (snd (snd (slots ! j)))" by simp
    with rank that show ?thesis by simp
  qed
  moreover have "\<exists>p. bu_prepared a = Some p \<and> validate_prepared p = Inr () \<and>
       pa_device_id p = bu_device_id a \<and> pa_template_id p = tp_id (bu_template a)" if "a \<in> set actions" for a
  proof -
    from ok that have "a \<in> set (map fst slots)" by simp
    with ok show ?thesis by fastforce
  qed
  ultimately show ?thesis using mine keys d by simp
qed

subsection \<open>A restart in the middle of a mitigation\<close>

definition interrupted_database :: database where
  "interrupted_database = due_database\<lparr>db_bundles := [slot_bundle 1 BundleRunning 1 0, slot_bundle 5 BundlePlanned 0 0],
     db_windows := [\<lparr>cw_device_id = 7, cw_bundle_id = Some 1, cw_reroute_id = None, cw_owner_token = ''t'',
       cw_phase = ''executing''\<rparr>], db_window_sources := [(7, 1)]\<rparr>"

definition shut_step :: bundle_action where
  "shut_step = \<lparr>bu_device_id = 7, bu_template = uplink_template, bu_params = JNull, bu_reason = [], bu_position = 1,
     bu_auto_target = None, bu_auto_low = None, bu_prepared = Some slot_prepared, bu_original = None\<rparr>"

definition add_step :: bundle_action where
  "add_step = shut_step\<lparr>bu_template := uplink_template\<lparr>tp_name := ''iface_no_shutdown''\<rparr>, bu_position := 0\<rparr>"

lemma interrupted_repair:
  "is_ok (fst (recover_bundles_on_startup (=) no_faults (\<lambda>_. 100) [] interrupted_database))"
  by code_simp

lemma interrupted_close: "is_ok (close_interrupted no_faults (\<lambda>_. 100) 1 interrupted_database)"
  by code_simp

lemma interrupted_end:
  "is_ok (fst (finish_and_release (=) no_faults (\<lambda>_. 100) [] 1 BundleFailed None ''t'' interrupted_database))"
  by code_simp

lemma interrupted_facts:
  "\<not> attempts_of interrupted_database 1 \<and>
   map rr_device_id (owned_rows interrupted_database 1) = [Some 7] \<and> 0 < remaining_roots interrupted_database 1"
  by code_simp

lemma ordered_actions: "is_ok (check_order {} 0 [add_step, shut_step])"
  by code_simp

theorem startup_closes_every_bundle_witness:
  "\<exists>db'. recover_bundles_on_startup (=) no_faults (\<lambda>_. 100) [] interrupted_database = (Inr (), db') \<and>
    list_all (\<lambda>b. terminal_source (bn_state b)) (db_bundles db')"
proof -
  from interrupted_repair obtain db' where
    r: "recover_bundles_on_startup (=) no_faults (\<lambda>_. 100) [] interrupted_database = (Inr (), db')"
    by (cases "recover_bundles_on_startup (=) no_faults (\<lambda>_. 100) [] interrupted_database")
      (auto simp: is_ok_def split: sum.splits)
  from startup_closes_every_bundle [OF r] r show ?thesis by (auto simp: list_all_iff)
qed

theorem interrupted_devices_held_witness:
  "\<exists>db'. close_interrupted no_faults (\<lambda>_. 100) 1 interrupted_database = Inr db' \<and> held db' 1 7"
proof -
  from interrupted_close obtain db' where c: "close_interrupted no_faults (\<lambda>_. 100) 1 interrupted_database = Inr db'"
    by (auto simp: is_ok_def split: sum.splits)
  from interrupted_facts obtain r where r: "r \<in> set (owned_rows interrupted_database 1)" "rr_device_id r = Some 7"
    by (auto simp: map_eq_Cons_conv)
  from interrupted_devices_held [OF c] r c show ?thesis by force
qed

theorem end_keeps_memberships_witness:
  "\<exists>db'. finish_and_release (=) no_faults (\<lambda>_. 100) [] 1 BundleFailed None ''t'' interrupted_database = (Inr (), db') \<and>
    db_window_sources db' = [(7, 1)] \<and> (\<exists>w \<in> set (db_windows db'). cw_device_id w = 7) \<and>
    list_all (\<lambda>w. \<not> owned_by (=) 1 ''t'' w) (db_windows db')"
proof -
  from interrupted_end obtain db' where
    r: "finish_and_release (=) no_faults (\<lambda>_. 100) [] 1 BundleFailed None ''t'' interrupted_database = (Inr (), db')"
    by (cases "finish_and_release (=) no_faults (\<lambda>_. 100) [] 1 BundleFailed None ''t'' interrupted_database")
      (auto simp: is_ok_def split: sum.splits)
  have e: "db_window_sources db' = db_window_sources interrupted_database"
    "\<exists>w \<in> set (db_windows db'). cw_device_id w = 7" "\<forall>w \<in> set (db_windows db'). \<not> owned_by (=) 1 ''t'' w"
  proof -
    note e = end_keeps_memberships [OF r]
    from e interrupted_facts show s: "db_window_sources db' = db_window_sources interrupted_database" by blast
    from e interrupted_facts show "\<forall>w \<in> set (db_windows db'). \<not> owned_by (=) 1 ''t'' w" by blast
    have "member_device db' 7" by (simp add: s member_device_def interrupted_database_def)
    moreover have "\<exists>w \<in> set (db_windows interrupted_database). cw_device_id w = 7" by (simp add: interrupted_database_def)
    ultimately show "\<exists>w \<in> set (db_windows db'). cw_device_id w = 7" using e interrupted_facts by metis
  qed
  have "db_window_sources interrupted_database = [(7, 1)]" by (simp add: interrupted_database_def)
  with r e show ?thesis by (auto simp: list_all_iff)
qed

theorem ledger_is_ordered_witness:
  "\<exists>db'. persist_actions (\<lambda>_. JNull) no_faults 9 [add_step, shut_step] interrupted_database = Inr db' \<and>
    map (\<lambda>a. (ba_position a, ba_device_id a)) (bundle_actions db' 9) = [(0, 7), (1, 7)]"
proof -
  have none: "bundle_actions interrupted_database 9 = []"
    by (simp add: interrupted_database_def due_world bundle_actions_def)
  from ordered_actions obtain slots where sl: "check_order {} 0 [add_step, shut_step] = Inr slots"
    by (cases "check_order {} 0 [add_step, shut_step]") auto
  have "persist_actions (\<lambda>_. JNull) no_faults 9 [add_step, shut_step] interrupted_database =
      Inr (insert_slots (\<lambda>_. JNull) 9 slots interrupted_database)"
    unfolding persist_actions_def sl by (simp add: none inquire_def map_err_def ensure_def)
  then obtain db' where
    p: "persist_actions (\<lambda>_. JNull) no_faults 9 [add_step, shut_step] interrupted_database = Inr db'" ..
  from ledger_is_ordered [OF p none] p show ?thesis by (auto simp: add_step_def shut_step_def)
qed

end
