(* ===== verification/F64.thy ===== *)
theory F64
  imports Rust_Text "HOL-Library.Log_Nat"
begin

text \<open>
  Double precision as Rust's \<open>f64\<close> computes it, for the metrics of the detection engine:
  a number, an infinity or NaN, with every result rounded to the nearest double, ties to even. A
  number is kept as a rational; the sign of zero is not kept, as no operation here depends on it.
\<close>

datatype f64 = NaN | Infinite bool | Finite rat

subsection \<open>Rounding\<close>

text \<open>The exponent \<open>e\<close> with \<open>2 ^ e \<le> q < 2 ^ (e + 1)\<close>, for a positive \<open>q\<close>.\<close>

definition power_of_two :: "int \<Rightarrow> rat" where
  "power_of_two e = (if 0 \<le> e then 2 ^ nat e else 1 / 2 ^ nat (- e))"

definition binary_exponent :: "rat \<Rightarrow> int" where
  "binary_exponent q =
     (let (n, d) = quotient_of q; e = int (floorlog 2 (nat n)) - int (floorlog 2 (nat d))
      in if power_of_two e \<le> q then e else e - 1)"

definition round_half_even :: "rat \<Rightarrow> int" where
  "round_half_even q =
     (let n = \<lfloor>q\<rfloor>; r = q - of_int n
      in if r < 1 / 2 then n else if 1 / 2 < r then n + 1 else if even n then n else n + 1)"

text \<open>53 bits of precision down to the least exponent, then the subnormals.\<close>

definition ulp :: "rat \<Rightarrow> rat" where
  "ulp q = power_of_two (max (binary_exponent q) (- 1022) - 52)"

definition f64_max :: rat where
  "f64_max = of_int (2 ^ 53 - 1) * 2 ^ 971"

definition round_f64 :: "rat \<Rightarrow> f64" where
  "round_f64 q =
     (if q = 0 then Finite 0
      else let u = ulp \<bar>q\<bar>; r = of_int (round_half_even (\<bar>q\<bar> / u)) * u
        in if f64_max < r then Infinite (q < 0) else Finite (if q < 0 then - r else r))"

subsection \<open>Operations\<close>

fun f64_neg :: "f64 \<Rightarrow> f64" where
  "f64_neg NaN = NaN"
| "f64_neg (Infinite s) = Infinite (\<not> s)"
| "f64_neg (Finite x) = Finite (- x)"

fun f64_add :: "f64 \<Rightarrow> f64 \<Rightarrow> f64" where
  "f64_add (Finite x) (Finite y) = round_f64 (x + y)"
| "f64_add (Infinite s) (Infinite t) = (if s = t then Infinite s else NaN)"
| "f64_add (Infinite s) (Finite y) = Infinite s"
| "f64_add (Finite x) (Infinite t) = Infinite t"
| "f64_add _ _ = NaN"

definition f64_sub :: "f64 \<Rightarrow> f64 \<Rightarrow> f64" where
  "f64_sub a b = f64_add a (f64_neg b)"

fun f64_abs :: "f64 \<Rightarrow> f64" where
  "f64_abs NaN = NaN"
| "f64_abs (Infinite s) = Infinite False"
| "f64_abs (Finite x) = Finite \<bar>x\<bar>"

text \<open>A product with and a quotient by a finite non-zero number, all that the engine forms.\<close>

fun f64_scale :: "f64 \<Rightarrow> rat \<Rightarrow> f64" where
  "f64_scale NaN c = NaN"
| "f64_scale (Infinite s) c = Infinite (s \<noteq> (c < 0))"
| "f64_scale (Finite x) c = round_f64 (x * c)"

text \<open>A quotient. The sign of a zero divisor is not kept; the engine divides by none.\<close>

fun f64_div :: "f64 \<Rightarrow> f64 \<Rightarrow> f64" where
  "f64_div (Finite x) (Finite y) =
     (if y \<noteq> 0 then round_f64 (x / y) else if x = 0 then NaN else Infinite (x < 0))"
| "f64_div (Infinite s) (Finite y) = Infinite (s \<noteq> (y < 0))"
| "f64_div (Finite x) (Infinite t) = Finite 0"
| "f64_div _ _ = NaN"

definition f64_of_nat :: "nat \<Rightarrow> f64" where
  "f64_of_nat n = round_f64 (of_nat n)"

fun f64_less :: "f64 \<Rightarrow> f64 \<Rightarrow> bool" where
  "f64_less NaN _ = False"
| "f64_less _ NaN = False"
| "f64_less (Finite x) (Finite y) = (x < y)"
| "f64_less (Finite x) (Infinite t) = (\<not> t)"
| "f64_less (Infinite s) (Finite y) = s"
| "f64_less (Infinite s) (Infinite t) = (s \<and> \<not> t)"

fun f64_le :: "f64 \<Rightarrow> f64 \<Rightarrow> bool" where
  "f64_le NaN _ = False"
| "f64_le _ NaN = False"
| "f64_le (Finite x) (Finite y) = (x \<le> y)"
| "f64_le (Finite x) (Infinite t) = (\<not> t)"
| "f64_le (Infinite s) (Finite y) = s"
| "f64_le (Infinite s) (Infinite t) = (s \<or> \<not> t)"

definition f64_eq :: "f64 \<Rightarrow> f64 \<Rightarrow> bool" where
  "f64_eq a b = (a \<noteq> NaN \<and> a = b)"

fun is_finite :: "f64 \<Rightarrow> bool" where
  "is_finite (Finite _) = True"
| "is_finite _ = False"

definition EPSILON :: f64 where
  "EPSILON = Finite (1 / 2 ^ 52)"

subsection \<open>Order\<close>

lemma f64_less_le: "f64_less a b \<Longrightarrow> f64_le a b"
  by (cases a; cases b) auto

lemma f64_not_le: "a \<noteq> NaN \<Longrightarrow> b \<noteq> NaN \<Longrightarrow> f64_le a b \<longleftrightarrow> \<not> f64_less b a"
  by (cases a; cases b) auto

lemma f64_le_trans: "f64_le a b \<Longrightarrow> f64_le b c \<Longrightarrow> f64_le a c"
  by (cases a; cases b; cases c) auto

lemma f64_less_le_trans: "f64_less a b \<Longrightarrow> f64_le b c \<Longrightarrow> f64_less a c"
  by (cases a; cases b; cases c) auto

lemma f64_le_less_trans: "f64_le a b \<Longrightarrow> f64_less b c \<Longrightarrow> f64_less a c"
  by (cases a; cases b; cases c) auto

lemma f64_less_irrefl: "\<not> f64_less a a"
  by (cases a) auto

lemma f64_less_not_NaN: "f64_less a b \<Longrightarrow> a \<noteq> NaN \<and> b \<noteq> NaN"
  by (cases a; cases b) auto

lemma f64_le_not_NaN: "f64_le a b \<Longrightarrow> a \<noteq> NaN \<and> b \<noteq> NaN"
  by (cases a; cases b) auto

section \<open>Operators of a rule (condition.rs)\<close>

datatype op = Gt | Ge | Lt | Le | EqOp | NeOp | Between | Outside | Changed | Stale

definition op_parse :: "string \<Rightarrow> op option" where
  "op_parse s =
     (if s = ''>'' then Some Gt
      else if s = ''>='' then Some Ge
      else if s = ''<'' then Some Lt
      else if s = ''<='' then Some Le
      else if s = ''=='' \<or> s = ''='' then Some EqOp
      else if s = ''!='' \<or> s = ''<>'' then Some NeOp
      else if s = ''between'' then Some Between
      else if s = ''outside'' then Some Outside
      else if s = ''changed'' then Some Changed
      else if s = ''stale'' then Some Stale
      else None)"

definition near :: "f64 \<Rightarrow> f64 \<Rightarrow> bool" where
  "near a b = f64_less (f64_abs (f64_sub a b)) EPSILON"

definition apart :: "f64 \<Rightarrow> f64 \<Rightarrow> bool" where
  "apart a b = f64_le EPSILON (f64_abs (f64_sub a b))"

fun op_compare :: "op \<Rightarrow> f64 \<Rightarrow> f64 \<Rightarrow> bool" where
  "op_compare Gt value threshold = f64_less threshold value"
| "op_compare Ge value threshold = f64_le threshold value"
| "op_compare Lt value threshold = f64_less value threshold"
| "op_compare Le value threshold = f64_le value threshold"
| "op_compare EqOp value threshold = near value threshold"
| "op_compare NeOp value threshold = apart value threshold"
| "op_compare _ value threshold = False"

fun op_recovered :: "op \<Rightarrow> f64 \<Rightarrow> f64 \<Rightarrow> bool" where
  "op_recovered Gt value threshold = f64_le value threshold"
| "op_recovered Ge value threshold = f64_less value threshold"
| "op_recovered Lt value threshold = f64_le threshold value"
| "op_recovered Le value threshold = f64_less threshold value"
| "op_recovered EqOp value threshold = apart value threshold"
| "op_recovered NeOp value threshold = near value threshold"
| "op_recovered _ value threshold = False"

text \<open>The side of a threshold that an operator recovers on.\<close>

fun recovery_beyond :: "op \<Rightarrow> f64 \<Rightarrow> f64 \<Rightarrow> bool" where
  "recovery_beyond Gt fire recover = f64_le recover fire"
| "recovery_beyond Ge fire recover = f64_le recover fire"
| "recovery_beyond Lt fire recover = f64_le fire recover"
| "recovery_beyond Le fire recover = f64_le fire recover"
| "recovery_beyond _ fire recover = (fire = recover)"

lemma hysteresis:
  "recovery_beyond op fire recover \<Longrightarrow> op_compare op value fire \<Longrightarrow> \<not> op_recovered op value recover"
proof (cases op)
  case Gt
  assume "recovery_beyond op fire recover" "op_compare op value fire"
  with Gt have "f64_less recover value" by (auto intro: f64_le_less_trans)
  with Gt show ?thesis by (auto dest: f64_less_le_trans simp: f64_less_irrefl)
next
  case Ge
  assume "recovery_beyond op fire recover" "op_compare op value fire"
  with Ge have "f64_le recover value" by (auto intro: f64_le_trans)
  with Ge show ?thesis by (auto dest: f64_le_less_trans simp: f64_less_irrefl)
next
  case Lt
  assume "recovery_beyond op fire recover" "op_compare op value fire"
  with Lt have "f64_less value recover" by (auto intro: f64_less_le_trans)
  with Lt show ?thesis by (auto dest: f64_less_le_trans simp: f64_less_irrefl)
next
  case Le
  assume "recovery_beyond op fire recover" "op_compare op value fire"
  with Le have "f64_le value recover" by (auto intro: f64_le_trans)
  with Le show ?thesis by (auto dest: f64_le_less_trans simp: f64_less_irrefl)
qed (auto simp: near_def apart_def dest: f64_less_le_trans f64_le_less_trans simp: f64_less_irrefl)

end
