(* ===== verification/Observation.thy ===== *)
theory Observation
  imports F64 Database Reachability
begin

text \<open>
  What a detection rule sees: \<open>telemetry/flow/quality.rs\<close> and the four readings of
  \<open>src/backend-rust/src/detection/engine.rs\<close> (a single interface, a sum over interfaces, a flow
  bucket, and the comparison of a flow bucket with SNMP). Instants are nanoseconds, as chrono keeps
  them; \<open>now\<close> is \<open>Utc::now()\<close>. The sums of a bucket are computed by MySQL: a
  product that leaves \<open>BIGINT UNSIGNED\<close> is an error of the query, and a sum beyond it is cut to its
  maximum by the cast.
\<close>

subsection \<open>Tables\<close>

record metrics_row =
  mt_interface :: u64
  mt_sampled_at :: "int option"
  mt_valid :: bool
  mt_rx_bps :: f64
  mt_tx_bps :: f64
  mt_rx_pps :: f64
  mt_tx_pps :: f64
  mt_rx_util :: f64
  mt_tx_util :: f64
  mt_in_err :: f64
  mt_out_err :: f64
  mt_oper_status :: "string option"
  mt_in_err_valid :: bool
  mt_out_err_valid :: bool
  mt_oper_valid :: bool

record bucket_row =
  bk_id :: u64
  bk_exporter :: u64
  bk_device :: u64
  bk_if_index :: u32
  bk_direction :: string
  bk_ts :: int
  bk_pkts :: u64
  bk_bytes :: u64
  bk_rate :: u32
  bk_confidence :: string
  bk_pkts_available :: bool
  bk_bytes_available :: bool

record port_bucket_row =
  pb_device :: u64
  pb_if_index :: u32
  pb_direction :: string
  pb_ts :: int
  pb_kind :: string
  pb_port :: u16
  pb_protocol :: u16
  pb_pkts :: u64
  pb_bytes :: u64
  pb_rate :: u32

datatype quality_dimension = InterfaceDim | PortDim | AsnDim | TalkerDim

record quality_row =
  qu_exporter :: u64
  qu_ts :: int
  qu_complete :: "quality_dimension \<Rightarrow> bool"
  qu_dropped :: "quality_dimension \<Rightarrow> u64"

record member_row =
  me_exporter :: u64
  me_device :: u64
  me_if_index :: u32
  me_direction :: string
  me_first_seen :: int

record telemetry =
  tl_metrics :: "metrics_row list"
  tl_rule_interfaces :: "(u64 \<times> u64) list"
  tl_interfaces :: "(u64 \<times> u64 \<times> u32) list"
  tl_buckets :: "bucket_row list"
  tl_port_buckets :: "port_bucket_row list"
  tl_quality :: "quality_row list"
  tl_members :: "member_row list"
  tl_exporters :: "(u64 \<times> u64 option) list"
  tl_registry_ready :: bool

text \<open>The part of the configuration that a reading depends on.\<close>

record flow_config =
  fc_stale_after :: u64
  fc_bucket_seconds :: u64
  fc_min_ratio :: f64
  fc_max_ratio :: f64
  fc_automatic_actions :: bool
  fc_allowlist_only :: bool

subsection \<open>Rules\<close>

record interface_rule =
  ir_id :: u64
  ir_actions_revision :: u64
  ir_name :: string
  ir_interface_id :: "u64 option"
  ir_device_id :: "u64 option"
  ir_metric :: string
  ir_aggregation :: string
  ir_flow_direction :: "string option"
  ir_flow_protocol :: "u16 option"
  ir_flow_port :: "u16 option"
  ir_flow_port_kind :: "string option"
  ir_operator :: string
  ir_threshold :: f64
  ir_duration :: u32
  ir_consecutive :: u32
  ir_recovery_mode :: string
  ir_recovery_threshold :: "f64 option"
  ir_recovery_window :: "u32 option"
  ir_recovery_consecutive :: "u32 option"
  ir_severity :: string
  ir_automatic_reroute :: bool
  ir_automatic_revert :: bool

definition is_flow_metric :: "string \<Rightarrow> bool" where
  "is_flow_metric metric = (metric \<in> {''flow_pps'', ''flow_bps''})"

definition SUMMABLE_METRICS :: "string list" where
  "SUMMABLE_METRICS =
     [''rx_bps'', ''tx_bps'', ''rx_pps'', ''tx_pps'', ''in_err_rate'', ''out_err_rate'']"

definition down_states :: "string list" where
  "down_states = [''down'', ''testing'', ''dormant'', ''notPresent'', ''lowerLayerDown'',
     ''not_present'', ''lower_layer_down'']"

definition metric_value :: "metrics_row \<Rightarrow> string \<Rightarrow> f64 option" where
  "metric_value m metric =
     (if metric = ''rx_bps'' then Some (mt_rx_bps m)
      else if metric = ''tx_bps'' then Some (mt_tx_bps m)
      else if metric = ''rx_pps'' then Some (mt_rx_pps m)
      else if metric = ''tx_pps'' then Some (mt_tx_pps m)
      else if metric = ''rx_util_percent'' then Some (mt_rx_util m)
      else if metric = ''tx_util_percent'' then Some (mt_tx_util m)
      else if metric = ''in_err_rate'' \<and> mt_in_err_valid m then Some (mt_in_err m)
      else if metric = ''out_err_rate'' \<and> mt_out_err_valid m then Some (mt_out_err m)
      else if metric = ''oper_status''
      then (if \<not> mt_oper_valid m then None
            else case mt_oper_status m of
                None \<Rightarrow> None
              | Some s \<Rightarrow> if s = ''up'' then Some (Finite 1)
                          else if s \<in> set down_states then Some (Finite 0) else None)
      else None)"

record observation =
  ob_value :: f64
  ob_sampled_at :: "int option"
  ob_low_confidence :: bool
  ob_corroborated :: bool
  ob_evidence :: "(u64 \<times> int) list"

subsection \<open>Seconds\<close>

text \<open>\<open>as i64\<close> of an unsigned word, and a product that wraps as the release build does.\<close>

definition wrap_i64 :: "int \<Rightarrow> i64" where
  "wrap_i64 x = sint (word_of_int x :: u64)"

definition fresh_for :: "i64 \<Rightarrow> int \<Rightarrow> int \<Rightarrow> bool" where
  "fresh_for limit now t = (let age = num_seconds (now - t) in 0 \<le> age \<and> age \<le> limit)"

subsection \<open>Evidence of a bucket\<close>

record bucket_evidence =
  be_available :: bool
  be_expected :: u64
  be_observed :: u64
  be_dropped :: u64
  be_high_confidence :: bool
  be_pkts_available :: bool
  be_bytes_available :: bool

definition unavailable :: "u64 \<Rightarrow> u64 \<Rightarrow> bucket_evidence" where
  "unavailable expected observed =
     \<lparr>be_available = False, be_expected = expected, be_observed = observed, be_dropped = 0,
      be_high_confidence = False, be_pkts_available = False, be_bytes_available = False\<rparr>"

text \<open>One contributor: its bucket and its quality row, as the two outer joins find them.\<close>

type_synonym member_evidence = "bucket_row option \<times> (bool \<times> u64) option"

definition evaluate :: "member_evidence list \<Rightarrow> bucket_evidence" where
  "evaluate rows =
     (let expected = of_nat (length rows); observed = of_nat (length (filter (\<lambda>r. fst r \<noteq> None) rows))
      in if expected = 0 then unavailable 0 0
         else if observed \<noteq> expected \<or> list_ex (\<lambda>r. map_option fst (snd r) \<noteq> Some True) rows
         then unavailable expected observed
         else \<lparr>be_available = True, be_expected = expected, be_observed = observed,
               be_dropped = foldl sat_add 0 (List.map_filter (\<lambda>r. map_option snd (snd r)) rows),
               be_high_confidence = list_all (\<lambda>r. map_option bk_confidence (fst r) = Some ''high'') rows,
               be_pkts_available = list_all (\<lambda>r. map_option bk_pkts_available (fst r) = Some True) rows,
               be_bytes_available = list_all (\<lambda>r. map_option bk_bytes_available (fst r) = Some True) rows\<rparr>)"

definition outer_join :: "'a list \<Rightarrow> 'a option list" where
  "outer_join xs = (if xs = [] then [None] else map Some xs)"

definition contributors :: "telemetry \<Rightarrow> u64 \<Rightarrow> u32 \<Rightarrow> string \<Rightarrow> int \<Rightarrow> member_row list" where
  "contributors tm device if_index direction ts =
     (if tl_registry_ready tm
      then filter (\<lambda>m. me_device m = device \<and> me_if_index m = if_index \<and> me_direction m = direction \<and>
             me_first_seen m \<le> ts \<and> (me_exporter m, Some device) \<in> set (tl_exporters tm)) (tl_members tm)
      else [])"

definition evidence_rows ::
    "telemetry \<Rightarrow> u64 \<Rightarrow> u32 \<Rightarrow> string \<Rightarrow> int \<Rightarrow> quality_dimension \<Rightarrow> member_evidence list" where
  "evidence_rows tm device if_index direction ts dm =
     concat (map (\<lambda>m.
       concat (map (\<lambda>b. map (\<lambda>q. (b, map_option (\<lambda>r. (qu_complete r dm, qu_dropped r dm)) q))
           (outer_join (filter (\<lambda>q. qu_exporter q = me_exporter m \<and> qu_ts q = ts) (tl_quality tm))))
         (outer_join (filter (\<lambda>b. bk_exporter b = me_exporter m \<and> bk_device b = device \<and>
            bk_if_index b = if_index \<and> bk_direction b = direction \<and> bk_ts b = ts) (tl_buckets tm)))))
       (contributors tm device if_index direction ts))"

subsection \<open>One interface, and a sum of interfaces\<close>

definition metrics_of :: "telemetry \<Rightarrow> u64 \<Rightarrow> metrics_row option" where
  "metrics_of tm i = List.find (\<lambda>m. mt_interface m = i) (tl_metrics tm)"

text \<open>The sample of an interface, when it is valid, recent and has the metric.\<close>

definition sample_of :: "flow_config \<Rightarrow> int \<Rightarrow> string \<Rightarrow> metrics_row option \<Rightarrow> (int \<times> f64) option" where
  "sample_of fc now metric m =
     Option.bind m (\<lambda>m. if \<not> mt_valid m then None
       else Option.bind (mt_sampled_at m) (\<lambda>ts.
         if \<not> fresh_for (sint (fc_stale_after fc)) now ts then None
         else map_option (Pair ts) (metric_value m metric)))"

definition interface_observation ::
    "faults \<Rightarrow> flow_config \<Rightarrow> telemetry \<Rightarrow> int \<Rightarrow> interface_rule \<Rightarrow> string + observation option" where
  "interface_observation f fc tm now rule =
     (case ir_interface_id rule of
        None \<Rightarrow> Inr None
      | Some i \<Rightarrow>
          and_then (fetch f (QDetection ''metrics'') (metrics_of tm i)) (\<lambda>m.
            Inr (map_option (\<lambda>(ts, v). \<lparr>ob_value = v, ob_sampled_at = Some ts, ob_low_confidence = False,
                   ob_corroborated = True, ob_evidence = [(i, ts)]\<rparr>)
              (sample_of fc now (ir_metric rule) m))))"

text \<open>The loop over the members; the instant kept is the oldest, whatever its name in the
  source.\<close>

fun sum_members ::
    "faults \<Rightarrow> flow_config \<Rightarrow> telemetry \<Rightarrow> int \<Rightarrow> string \<Rightarrow> u64 list \<Rightarrow> f64 \<times> int option \<times> (u64 \<times> int) list \<Rightarrow>
     string + (f64 \<times> int option \<times> (u64 \<times> int) list) option" where
  "sum_members f fc tm now metric [] acc = Inr (Some acc)"
| "sum_members f fc tm now metric (i # is) (acc, oldest, evidence) =
     and_then (fetch f (QDetection ''metrics'') (metrics_of tm i)) (\<lambda>m.
       case sample_of fc now metric m of
         None \<Rightarrow> Inr None
       | Some (ts, v) \<Rightarrow>
           sum_members f fc tm now metric is
             (f64_add acc v,
              Some (case oldest of None \<Rightarrow> ts | Some n \<Rightarrow> if ts < n then ts else n),
              bt_insert i ts evidence))"

definition aggregate_observation ::
    "faults \<Rightarrow> flow_config \<Rightarrow> telemetry \<Rightarrow> int \<Rightarrow> interface_rule \<Rightarrow> string + observation option" where
  "aggregate_observation f fc tm now rule =
     (if ir_metric rule \<notin> set SUMMABLE_METRICS then Inr None
      else and_then (fetch f (QDetection ''members'')
              (map snd (filter (\<lambda>(r, _). r = ir_id rule) (tl_rule_interfaces tm)))) (\<lambda>members.
        if members = [] then Inr None
        else and_then (sum_members f fc tm now (ir_metric rule) members (Finite 0, None, [])) (\<lambda>sum.
          Inr (map_option (\<lambda>(acc, oldest, evidence).
                 \<lparr>ob_value = acc, ob_sampled_at = oldest, ob_low_confidence = False, ob_corroborated = True,
                  ob_evidence = evidence\<rparr>) sum))))"


subsection \<open>A flow bucket\<close>

definition product_fits :: "u64 \<Rightarrow> u32 \<Rightarrow> bool" where
  "product_fits n rate = (unat n * unat rate < 2 ^ 64)"

definition scaled_sum :: "(u64 \<times> u32) list \<Rightarrow> string + u64 option" where
  "scaled_sum rows =
     (if list_ex (\<lambda>(n, rate). \<not> product_fits n rate) rows then Inl ''BIGINT UNSIGNED value is out of range''
      else if rows = [] then Inr None
      else Inr (Some (word_of_nat (min (2 ^ 64 - 1) (sum_list (map (\<lambda>(n, rate). unat n * unat rate) rows))))))"

definition iface_rows :: "telemetry \<Rightarrow> u64 \<Rightarrow> u32 \<Rightarrow> string \<Rightarrow> bucket_row list" where
  "iface_rows tm device if_index direction =
     filter (\<lambda>b. bk_device b = device \<and> bk_if_index b = if_index \<and> bk_direction b = direction) (tl_buckets tm)"

definition latest_bucket :: "telemetry \<Rightarrow> u64 \<Rightarrow> u32 \<Rightarrow> string \<Rightarrow> int option" where
  "latest_bucket tm device if_index direction =
     (case map bk_ts (iface_rows tm device if_index direction) of [] \<Rightarrow> None | t # ts \<Rightarrow> Some (fold max ts t))"

definition port_rows ::
    "telemetry \<Rightarrow> u64 \<Rightarrow> u32 \<Rightarrow> string \<Rightarrow> int \<Rightarrow> string \<Rightarrow> u16 \<Rightarrow> u16 option \<Rightarrow> port_bucket_row list" where
  "port_rows tm device if_index direction ts kind port protocol =
     filter (\<lambda>b. pb_device b = device \<and> pb_if_index b = if_index \<and> pb_direction b = direction \<and> pb_ts b = ts \<and>
       pb_kind b = kind \<and> pb_port b = port \<and> (case protocol of None \<Rightarrow> True | Some p \<Rightarrow> pb_protocol b = p))
       (tl_port_buckets tm)"

text \<open>The counters that the selector of a rule picks from one bucket, with their rates.\<close>

definition selected ::
    "telemetry \<Rightarrow> interface_rule \<Rightarrow> u64 \<Rightarrow> u32 \<Rightarrow> string \<Rightarrow> int \<Rightarrow> (u64 \<times> u32) list \<times> (u64 \<times> u32) list" where
  "selected tm rule device if_index direction ts =
     (case ir_flow_port rule of
        Some port \<Rightarrow>
          (let rows = port_rows tm device if_index direction ts
                 (case ir_flow_port_kind rule of Some k \<Rightarrow> k | None \<Rightarrow> ''dst'') port (ir_flow_protocol rule)
           in (map (\<lambda>b. (pb_pkts b, pb_rate b)) rows, map (\<lambda>b. (pb_bytes b, pb_rate b)) rows))
      | None \<Rightarrow>
          (let rows = filter (\<lambda>b. bk_ts b = ts) (iface_rows tm device if_index direction)
           in (map (\<lambda>b. (bk_pkts b, bk_rate b)) rows, map (\<lambda>b. (bk_bytes b, bk_rate b)) rows)))"

definition flow_value_of :: "flow_config \<Rightarrow> string \<Rightarrow> u64 option \<Rightarrow> u64 option \<Rightarrow> f64" where
  "flow_value_of fc metric pkts bytes =
     (let secs = f64_of_nat (unat (max (fc_bucket_seconds fc) 1));
          counted = (\<lambda>n. f64_of_nat (case n of Some k \<Rightarrow> unat k | None \<Rightarrow> 0))
      in if metric = ''flow_pps'' then f64_div (counted pkts) secs
         else f64_div (f64_scale (counted bytes) 8) secs)"

subsection \<open>Corroboration by SNMP\<close>

definition is_ingress :: "interface_rule \<Rightarrow> bool" where
  "is_ingress rule = (case ir_flow_direction rule of None \<Rightarrow> True | Some d \<Rightarrow> d = ''ingress'')"

definition snmp_value_of :: "interface_rule \<Rightarrow> metrics_row \<Rightarrow> f64" where
  "snmp_value_of rule m =
     (if ir_metric rule = ''flow_pps'' then (if is_ingress rule then mt_rx_pps m else mt_tx_pps m)
      else (if is_ingress rule then mt_rx_bps m else mt_tx_bps m))"

definition ratio_accepted :: "flow_config \<Rightarrow> interface_rule \<Rightarrow> f64 \<Rightarrow> f64 \<Rightarrow> bool" where
  "ratio_accepted fc rule flow snmp =
     (if \<not> is_finite flow \<or> \<not> is_finite snmp \<or> f64_less flow (Finite 0) \<or> f64_less snmp (Finite 0) then False
      else if f64_eq snmp (Finite 0) then f64_eq flow (Finite 0)
      else (let ratio = f64_div flow snmp;
                whole = (ir_flow_port rule = None \<and> ir_flow_protocol rule = None)
            in f64_le ratio (fc_max_ratio fc) \<and> (\<not> whole \<or> f64_le (fc_min_ratio fc) ratio)))"

definition max_skew :: "flow_config \<Rightarrow> i64" where
  "max_skew fc = max (wrap_i64 (sint (fc_bucket_seconds fc) * 2)) (sint (fc_stale_after fc))"

definition flow_matches_snmp ::
    "faults \<Rightarrow> flow_config \<Rightarrow> telemetry \<Rightarrow> int \<Rightarrow> interface_rule \<Rightarrow> f64 \<Rightarrow> int \<Rightarrow> string + bool" where
  "flow_matches_snmp f fc tm now rule flow ts =
     (case ir_interface_id rule of
        None \<Rightarrow> Inr False
      | Some i \<Rightarrow>
          and_then (fetch f (QDetection ''snmp'') (metrics_of tm i)) (\<lambda>row. Inr
            (case row of
               None \<Rightarrow> False
             | Some m \<Rightarrow>
                 (case mt_sampled_at m of
                    None \<Rightarrow> False
                  | Some sampled \<Rightarrow>
                      if \<not> mt_valid m \<or> \<not> fresh_for (sint (fc_stale_after fc)) now sampled then False
                      else if uint (word_of_int (max_skew fc) :: u64) < \<bar>num_seconds (sampled - ts)\<bar> then False
                      else is_flow_metric (ir_metric rule) \<and>
                        ratio_accepted fc rule flow (snmp_value_of rule m)))))"

definition flow_stale_limit :: "flow_config \<Rightarrow> i64" where
  "flow_stale_limit fc = max (wrap_i64 (sint (fc_bucket_seconds fc) * 3)) (sint (fc_stale_after fc))"

text \<open>What is made of a bucket whose evidence is available.\<close>

definition read_bucket ::
    "faults \<Rightarrow> flow_config \<Rightarrow> telemetry \<Rightarrow> int \<Rightarrow> interface_rule \<Rightarrow> u64 \<Rightarrow> u32 \<Rightarrow> string \<Rightarrow> int \<Rightarrow> bucket_evidence \<Rightarrow>
     string + observation option" where
  "read_bucket f fc tm now rule device if_index direction ts quality =
     (let (pkts, bytes) = selected tm rule device if_index direction ts
      in and_then (fetch f (QDetection ''bucket'') ()) (\<lambda>_.
         and_then (scaled_sum pkts) (\<lambda>est_pkts.
         and_then (scaled_sum bytes) (\<lambda>est_bytes.
           if \<not> (if ir_metric rule = ''flow_pps'' then be_pkts_available quality
                  else ir_metric rule = ''flow_bps'' \<and> be_bytes_available quality)
           then Inr None
           else (let v = flow_value_of fc (ir_metric rule) est_pkts est_bytes
                 in and_then (flow_matches_snmp f fc tm now rule v ts) (\<lambda>agrees.
                    Inr (Some \<lparr>ob_value = v, ob_sampled_at = Some ts,
                      ob_low_confidence = (\<not> be_high_confidence quality \<or> \<not> agrees), ob_corroborated = agrees,
                      ob_evidence = [(case ir_interface_id rule of Some i \<Rightarrow> i | None \<Rightarrow> 0, ts)]\<rparr>)))))))"

definition rule_direction :: "interface_rule \<Rightarrow> string" where
  "rule_direction rule = (case ir_flow_direction rule of Some d \<Rightarrow> d | None \<Rightarrow> ''ingress'')"

definition quality_of ::
    "telemetry \<Rightarrow> interface_rule \<Rightarrow> u64 \<Rightarrow> u32 \<Rightarrow> int \<Rightarrow> bucket_evidence" where
  "quality_of tm rule device if_index ts =
     evaluate (evidence_rows tm device if_index
       (if rule_direction rule = ''egress'' then ''egress'' else ''ingress'') ts
       (if ir_flow_port rule \<noteq> None then PortDim else InterfaceDim))"

definition flow_observation ::
    "faults \<Rightarrow> flow_config \<Rightarrow> telemetry \<Rightarrow> int \<Rightarrow> interface_rule \<Rightarrow> string + observation option" where
  "flow_observation f fc tm now rule =
     (if ir_flow_protocol rule \<noteq> None \<and> ir_flow_port rule = None then Inr None
     else and_then (fetch f (QDetection ''interface'') (Option.bind (ir_interface_id rule)
             (\<lambda>i. map_of (tl_interfaces tm) i))) (\<lambda>resolved.
           case resolved of
             None \<Rightarrow> Inr None
           | Some (device, if_index) \<Rightarrow>
               and_then (fetch f (QDetection ''latest'')
                   (latest_bucket tm device if_index (rule_direction rule))) (\<lambda>latest.
                 case latest of
                   None \<Rightarrow> Inr None
                 | Some ts \<Rightarrow>
                     if \<not> fresh_for (flow_stale_limit fc) now ts then Inr None
                     else and_then (fetch f (QDetection ''quality'') (quality_of tm rule device if_index ts)) (\<lambda>quality.
                       if \<not> be_available quality then Inr None
                       else read_bucket f fc tm now rule device if_index (rule_direction rule) ts quality))))"

definition observe ::
    "faults \<Rightarrow> flow_config \<Rightarrow> telemetry \<Rightarrow> int \<Rightarrow> interface_rule \<Rightarrow> string + observation option" where
  "observe f fc tm now rule =
     (if ir_aggregation rule = ''sum'' then aggregate_observation f fc tm now rule
      else if is_flow_metric (ir_metric rule) then flow_observation f fc tm now rule
      else interface_observation f fc tm now rule)"

section \<open>Facts of a reading\<close>

lemma observation_sampled_iface:
  "interface_observation f fc tm now rule = Inr (Some ob) \<Longrightarrow>
   \<exists>i m ts. ir_interface_id rule = Some i \<and> metrics_of tm i = Some m \<and> mt_valid m \<and> mt_sampled_at m = Some ts \<and>
     fresh_for (sint (fc_stale_after fc)) now ts \<and> ob_sampled_at ob = Some ts \<and> ob_evidence ob = [(i, ts)] \<and>
     ob_corroborated ob \<and> \<not> ob_low_confidence ob"
  by (auto simp: interface_observation_def sample_of_def res_simps bind_eq_Some_conv split: option.splits if_splits)

text \<open>A sum takes every member, each with a fresh sample, and keeps the oldest instant.\<close>

lemma sum_members_evidence:
  "sum_members f fc tm now metric is (acc, oldest, ev) = Inr (Some (acc', oldest', ev')) \<Longrightarrow> bt_ok ev \<Longrightarrow>
   bt_ok ev' \<and> (\<forall>i \<in> set is. \<exists>ts. map_of ev' i = Some ts \<and> fresh_for (sint (fc_stale_after fc)) now ts) \<and>
   (\<forall>i. i \<notin> set is \<longrightarrow> map_of ev' i = map_of ev i) \<and>
   (\<forall>n. oldest = Some n \<longrightarrow> (\<exists>n'. oldest' = Some n' \<and> n' \<le> n)) \<and>
   (\<forall>i \<in> set is. \<exists>n'. oldest' = Some n' \<and> n' \<le> the (map_of ev' i))"
proof (induction "is" arbitrary: acc oldest ev)
  case (Cons i "is")
  from Cons.prems(1) obtain ts v where s: "sample_of fc now metric (metrics_of tm i) = Some (ts, v)"
    and rest: "sum_members f fc tm now metric is (f64_add acc v,
        Some (case oldest of None \<Rightarrow> ts | Some n \<Rightarrow> if ts < n then ts else n), bt_insert i ts ev) =
      Inr (Some (acc', oldest', ev'))"
    by (auto simp: res_simps split: option.splits)
  from s have fresh: "fresh_for (sint (fc_stale_after fc)) now ts"
    by (auto simp: sample_of_def bind_eq_Some_conv split: if_splits)
  note ih = Cons.IH [OF rest bt_ok_insert [OF Cons.prems(2)]]
  from ih obtain n' where n': "oldest' = Some n'" "n' \<le> ts" "\<forall>n. oldest = Some n \<longrightarrow> n' \<le> n"
    by (cases oldest) (auto split: if_splits)
  have here: "\<exists>t. map_of ev' i = Some t \<and> fresh_for (sint (fc_stale_after fc)) now t \<and> n' \<le> t"
  proof (cases "i \<in> set is")
    case True
    with ih n'(1) show ?thesis by fastforce
  next
    case False
    with ih Cons.prems(2) fresh n'(2) show ?thesis by (simp add: map_of_bt_insert)
  qed
  have "map_of ev' j = map_of ev j" if "j \<notin> set (i # is)" for j
    using that ih Cons.prems(2) by (simp add: map_of_bt_insert)
  with ih n' here show ?case by auto
qed simp

lemma read_bucket_Some:
  "read_bucket f fc tm now rule device if_index direction ts q = Inr (Some ob) \<Longrightarrow>
   ob_sampled_at ob = Some ts \<and> (\<not> ob_low_confidence ob \<longrightarrow> be_high_confidence q \<and> ob_corroborated ob)"
  by (auto simp: read_bucket_def Let_def res_simps split: prod.splits if_splits)

lemma flow_observation_Some:
  assumes "flow_observation f fc tm now rule = Inr (Some ob)"
  shows "\<exists>device if_index ts. latest_bucket tm device if_index (rule_direction rule) = Some ts \<and>
    fresh_for (flow_stale_limit fc) now ts \<and> be_available (quality_of tm rule device if_index ts) \<and>
    ob_sampled_at ob = Some ts \<and>
    (\<not> ob_low_confidence ob \<longrightarrow> be_high_confidence (quality_of tm rule device if_index ts) \<and> ob_corroborated ob)"
proof -
  from assms obtain device if_index ts where "latest_bucket tm device if_index (rule_direction rule) = Some ts"
    "fresh_for (flow_stale_limit fc) now ts" "be_available (quality_of tm rule device if_index ts)"
    and r: "read_bucket f fc tm now rule device if_index (rule_direction rule) ts (quality_of tm rule device if_index ts)
      = Inr (Some ob)"
    by (auto simp: flow_observation_def res_simps split: option.splits if_splits)
  with read_bucket_Some [OF r] show ?thesis by blast
qed

end
