(* ===== verification/Detection.thy ===== *)
theory Detection
  imports Closing Observation
begin

text \<open>
  The state machine of a detection rule: \<open>src/backend-rust/src/detection/engine.rs\<close> from the
  evaluation of a rule to the publication of its decisions. A decision is durable before any
  router is touched: the firing edge publishes a planned activation, the recovery edge a planned
  recovery, and a worker queue takes it from there (\<open>dt_accepts\<close> says whether it does).
  The text of a timestamp inside the evidence is chrono's, given by \<open>dt_show\<close> and
  \<open>dt_parse\<close>. Alert payloads, with the rendering of the actions inside them, are left
  out; the read that can fail before the firing transaction is kept. All stored instants are whole
  seconds, as the columns that they come from.
\<close>

subsection \<open>Tables\<close>

datatype phase = Clear | Matching | Firing | AwaitingRevert

record rule_state =
  st_phase :: phase
  st_first_matched :: "int option"
  st_recovery_first :: "int option"
  st_recovery_consecutive :: u32
  st_consecutive :: u32
  st_evidence :: "json option"
  st_observed_at :: "int option"

definition no_state :: rule_state where
  "no_state = \<lparr>st_phase = Clear, st_first_matched = None, st_recovery_first = None, st_recovery_consecutive = 0,
     st_consecutive = 0, st_evidence = None, st_observed_at = None\<rparr>"

record rule_event =
  ev_rule :: u64
  ev_event :: string
  ev_value :: f64
  ev_sampled_at :: "int option"

record rule_action =
  ra_id :: u64
  ra_rule :: u64
  ra_template :: u64
  ra_device :: u64
  ra_params :: "json option"
  ra_auto_target :: "string option"
  ra_position :: u32
  ra_enabled :: bool

record detection =
  dn_rules :: "(bool \<times> interface_rule) list"
  dn_actions :: "rule_action list"
  dn_states :: "u64 \<rightharpoonup> rule_state"
  dn_events :: "rule_event list"
  dn_db :: database

text \<open>What one evaluation sees beside the tables that it writes.\<close>

record detector =
  dt_faults :: faults
  dt_clock :: clock
  dt_now :: int
  dt_telemetry :: telemetry
  dt_flow :: flow_config
  dt_config :: safety_config
  dt_enforce :: bool
  dt_fail_before_commit :: bool
  dt_same :: "string \<Rightarrow> string \<Rightarrow> bool"
  dt_token :: string
  dt_show :: "int \<Rightarrow> string"
  dt_parse :: "string \<Rightarrow> int option"
  dt_accepts :: bool
  dt_plans :: "plan_row list"

datatype detection_failure =
    ReadFailed string
  | ClaimFailed recovery_failure
  | PublicationInjected
  | NoTimestamp
  | SubmissionFailed string
  | StillRetryable "u64 list"

definition look :: "detector \<Rightarrow> string \<Rightarrow> 'a \<Rightarrow> detection_failure + 'a" where
  "look env q v = map_err ReadFailed (fetch (dt_faults env) (QDetection q) v)"

lemma look_Inr [res_simps]: "look env q v = Inr w \<longleftrightarrow> dt_faults env (QDetection q) = None \<and> v = w"
  by (simp add: look_def res_simps)

subsection \<open>Evidence\<close>

definition evidence_json :: "detector \<Rightarrow> (u64 \<times> int) list \<Rightarrow> json" where
  "evidence_json env ev = JObj (map (\<lambda>(i, t). (show_word i, JStr (dt_show env t))) ev)"

definition evidence_advanced :: "detector \<Rightarrow> json option \<Rightarrow> (u64 \<times> int) list \<Rightarrow> bool" where
  "evidence_advanced env previous current =
     (current \<noteq> [] \<and> list_all (\<lambda>(i, t).
        case Option.bind previous (\<lambda>p. json_get p (show_word i)) of
          None \<Rightarrow> True
        | Some v \<Rightarrow> (case Option.bind (as_str v) (dt_parse env) of Some prior \<Rightarrow> prior < t | None \<Rightarrow> False))
        current)"

definition reset_row :: "rule_state \<Rightarrow> rule_state" where
  "reset_row st =
     st\<lparr>st_phase := (if st_phase st = Matching then Clear else st_phase st), st_first_matched := None,
        st_consecutive := 0, st_recovery_first := None, st_recovery_consecutive := 0\<rparr>"

definition reset_unproven_streak :: "detector \<Rightarrow> u64 \<Rightarrow> detection \<Rightarrow> detection_failure + detection" where
  "reset_unproven_streak env rule d =
     look env ''reset'' (d\<lparr>dn_states := (dn_states d)(rule := map_option reset_row (dn_states d rule))\<rparr>)"

definition sat_mul :: "u64 \<Rightarrow> nat \<Rightarrow> u64" where
  "sat_mul w n = word_of_nat (min (2 ^ 64 - 1) (unat w * n))"

definition gap_limit :: "flow_config \<Rightarrow> interface_rule \<Rightarrow> i64" where
  "gap_limit fc rule =
     sint (if is_flow_metric (ir_metric rule) then max (fc_stale_after fc) (sat_mul (fc_bucket_seconds fc) 3)
           else fc_stale_after fc)"

definition sat_inc :: "u32 \<Rightarrow> u32" where
  "sat_inc w = (if w = - 1 then w else w + 1)"

definition persistence_satisfied :: "u32 \<Rightarrow> i64 \<Rightarrow> u32 \<Rightarrow> u32 \<Rightarrow> bool" where
  "persistence_satisfied duration held_seconds samples matches =
     ((duration = 0 \<or> int (unat duration) \<le> held_seconds) \<and> (samples = 0 \<or> samples \<le> matches))"

definition should_auto_execute :: "bool \<Rightarrow> bool \<Rightarrow> bool \<Rightarrow> bool \<Rightarrow> bool" where
  "should_auto_execute enforce global rule low_confidence = (enforce \<and> global \<and> rule \<and> \<not> low_confidence)"

subsection \<open>Ownership of a rule\<close>

definition uncancelled :: "database \<Rightarrow> reroute_row \<Rightarrow> bool" where
  "uncancelled db r =
     (case Option.bind (rr_bundle_id r) (find_bundle db) of
        None \<Rightarrow> True | Some b \<Rightarrow> lf_cancelled_at (bn_lifecycle b) = None)"

definition rule_owned_changes :: "database \<Rightarrow> u64 \<Rightarrow> bool \<Rightarrow> i64" where
  "rule_owned_changes db rule eligible_only =
     count (\<lambda>r. rr_rule_id r = Some rule \<and> rr_rollback_of r = None \<and>
       rr_mutation_effect r \<in> {EffectChanged, EffectUnknown} \<and>
       (\<not> eligible_only \<or> rr_trigger_type r = ''automatic'' \<and> uncancelled db r) \<and>
       \<not> reversed db r) (db_reroutes db)"

subsection \<open>Publication\<close>

definition log_event :: "interface_rule \<Rightarrow> observation \<Rightarrow> string \<Rightarrow> detection \<Rightarrow> detection" where
  "log_event rule ob event d =
     d\<lparr>dn_events := dn_events d @ [\<lparr>ev_rule = ir_id rule, ev_event = event, ev_value = ob_value ob,
        ev_sampled_at = ob_sampled_at ob\<rparr>]\<rparr>"

definition put_state :: "u64 \<Rightarrow> rule_state \<Rightarrow> detection \<Rightarrow> detection" where
  "put_state rule st d = d\<lparr>dn_states := (dn_states d)(rule \<mapsto> st)\<rparr>"

definition publish_simple_observation ::
    "detector \<Rightarrow> interface_rule \<Rightarrow> observation \<Rightarrow> phase \<Rightarrow> int option \<Rightarrow> u32 \<Rightarrow> int option \<Rightarrow> u32 \<Rightarrow>
     string option \<Rightarrow> detection \<Rightarrow> detection_failure + detection" where
  "publish_simple_observation env rule ob ph first consecutive rec_first rec_consecutive event d =
     look env ''publish''
       (let d' = put_state (ir_id rule) \<lparr>st_phase = ph, st_first_matched = first, st_recovery_first = rec_first,
              st_recovery_consecutive = rec_consecutive, st_consecutive = consecutive,
              st_evidence = Some (evidence_json env (ob_evidence ob)), st_observed_at = ob_sampled_at ob\<rparr> d
        in case event of None \<Rightarrow> d' | Some e \<Rightarrow> log_event rule ob e d')"

definition flow_auto_gate :: "flow_config \<Rightarrow> interface_rule \<Rightarrow> bool" where
  "flow_auto_gate fc rule =
     (\<not> is_flow_metric (ir_metric rule) \<or> fc_automatic_actions fc \<and> fc_allowlist_only fc)"

definition automatic_inputs :: "detection \<Rightarrow> u64 \<Rightarrow> json list" where
  "automatic_inputs d rule =
     map (\<lambda>a. JObj [(''auto_target'', case ra_auto_target a of Some t \<Rightarrow> JStr t | None \<Rightarrow> JNull),
            (''device_id'', JNum (PosInt (ra_device a))),
            (''params'', case ra_params a of Some p \<Rightarrow> p | None \<Rightarrow> JNull),
            (''position'', JNum (PosInt (ucast (ra_position a)))),
            (''template_id'', JNum (PosInt (ra_template a)))])
       (sort_key ra_position (sort_key ra_id (filter (\<lambda>a. ra_rule a = rule \<and> ra_enabled a) (dn_actions d))))"

definition planned_bundle :: "int \<Rightarrow> u64 \<Rightarrow> interface_rule \<Rightarrow> nat \<Rightarrow> json \<Rightarrow> bundle_row" where
  "planned_bundle now bundle rule n source =
     \<lparr>bn_id = bundle, bn_rule_id = Some (ir_id rule), bn_trigger_type = ''automatic'', bn_user_id = None,
      bn_verification_mode = None, bn_state = BundlePlanned, bn_rate_reserved = 0, bn_rate_consumed = 0,
      bn_finished_at = None, bn_created_at = now, bn_parent = None, bn_total_actions = word_of_nat n,
      bn_source = source, bn_failure_reason = None, bn_lifecycle = no_lifecycle\<rparr>"

definition insert_bundle :: "bundle_row \<Rightarrow> database \<Rightarrow> database" where
  "insert_bundle b db = db\<lparr>db_bundles := db_bundles db @ [b], db_next_bundle := db_next_bundle db + 1\<rparr>"

definition activation_source :: "interface_rule \<Rightarrow> json list \<Rightarrow> json" where
  "activation_source rule inputs =
     JObj [(''actions_revision'', JNum (PosInt (ir_actions_revision rule))), (''admission_state'', JStr ''published''),
       (''input_actions'', JArr inputs), (''kind'', JStr ''rule''), (''name'', JStr (ir_name rule)),
       (''rule_id'', JNum (PosInt (ir_id rule)))]"

definition fired_key :: "interface_rule \<Rightarrow> string" where
  "fired_key rule =
     ''rule_fired:rule:'' @ show_word (ir_id rule) @
     (case ir_interface_id rule of Some i \<Rightarrow> '':iface:'' @ show_word i | None \<Rightarrow> '':agg'')"

text \<open>The consents behind an activation.\<close>

definition auto_decision :: "detector \<Rightarrow> interface_rule \<Rightarrow> observation \<Rightarrow> database \<Rightarrow> bool" where
  "auto_decision env rule ob db =
     (flow_auto_gate (dt_flow env) rule \<and>
      should_auto_execute (operating_mode (dt_faults env) ''fire'' (dt_enforce env) db)
        (bool_setting (dt_faults env) db ''automatic_actions_enabled'' (cf_automatic_enabled (dt_config env)))
        (ir_automatic_reroute rule) (ob_low_confidence ob))"

definition fired_state :: "detector \<Rightarrow> observation \<Rightarrow> int \<Rightarrow> u32 \<Rightarrow> rule_state" where
  "fired_state env ob first consecutive =
     \<lparr>st_phase = Firing, st_first_matched = Some first, st_recovery_first = None, st_recovery_consecutive = 0,
      st_consecutive = consecutive, st_evidence = Some (evidence_json env (ob_evidence ob)),
      st_observed_at = ob_sampled_at ob\<rparr>"

definition firing_decision ::
    "detector \<Rightarrow> interface_rule \<Rightarrow> observation \<Rightarrow> int \<Rightarrow> u32 \<Rightarrow> json list \<Rightarrow> detection \<Rightarrow> detection" where
  "firing_decision env rule ob first consecutive inputs d =
     (let d1 = log_event rule ob ''fired'' (put_state (ir_id rule) (fired_state env ob first consecutive) d);
          db1 = record_alert ''rule_fired'' (ir_severity rule) (ir_device_id rule) (fired_key rule) (dn_db d1);
          now = dt_clock env (QDetection ''fire'')
      in d1\<lparr>dn_db := (if inputs = [] then db1
           else insert_bundle (planned_bundle now (db_next_bundle db1) rule (length inputs)
                  (activation_source rule inputs)) db1)\<rparr>)"

definition activation_owner :: "u64 \<Rightarrow> string" where
  "activation_owner bundle = ''bundle:'' @ show_word bundle"

definition settle_activation_worker ::
    "detector \<Rightarrow> u64 \<Rightarrow> string \<Rightarrow> database \<Rightarrow> database" where
  "settle_activation_worker env bundle reason db =
     (if put (dt_faults env) ''unstarted'' bundle (count (unstarted bundle db) (db_bundles db)) = Inr 1
      then snd (finish_and_release (dt_same env) (dt_faults env) (dt_clock env) (dt_plans env) bundle BundleFailed
             (Some reason) (activation_owner bundle) db)
      else kept db (quarantine_interrupted_worker_bundle (dt_faults env) (dt_clock env) bundle reason db))"

definition submit_automatic_worker :: "detector \<Rightarrow> u64 \<Rightarrow> database \<Rightarrow> database" where
  "submit_automatic_worker env bundle db =
     (if dt_accepts env then db
      else settle_activation_worker env bundle ''worker submission failed: automatic worker queue unavailable'' db)"

definition on_fire ::
    "detector \<Rightarrow> interface_rule \<Rightarrow> observation \<Rightarrow> int \<Rightarrow> u32 \<Rightarrow> detection \<Rightarrow> detection_failure + detection" where
  "on_fire env rule ob first consecutive d =
     (let auto = auto_decision env rule ob (dn_db d)
      in and_then (look env ''would_run'' ()) (\<lambda>_.
         and_then (if auto then look env ''inputs'' (automatic_inputs d (ir_id rule)) else Inr []) (\<lambda>inputs.
         and_then (look env ''fire'' ()) (\<lambda>_.
         and_then (ensure PublicationInjected (\<not> dt_fail_before_commit env)) (\<lambda>_.
         and_then (look env ''fire commit'' (firing_decision env rule ob first consecutive inputs d)) (\<lambda>d'.
           Inr (if inputs = [] then d'
                else d'\<lparr>dn_db := submit_automatic_worker env (db_next_bundle (dn_db d)) (dn_db d')\<rparr>)))))))"

subsection \<open>Publication of a recovery\<close>

definition rule_flags :: "detection \<Rightarrow> u64 \<Rightarrow> (bool \<times> bool) option" where
  "rule_flags d rule =
     map_option (\<lambda>(enabled, r). (enabled, ir_automatic_revert r)) (List.find (\<lambda>(_, r). ir_id r = rule) (dn_rules d))"

definition recoverable :: "database \<Rightarrow> u64 \<Rightarrow> reroute_row \<Rightarrow> bool" where
  "recoverable db rule r =
     (rr_rule_id r = Some rule \<and> rr_trigger_type r = ''automatic'' \<and> rr_rollback_of r = None \<and>
      rr_state r \<in> {Succeeded, Failed} \<and> rr_mutation_effect r = EffectChanged \<and>
      (case Option.bind (rr_bundle_id r) (find_bundle db) of
         None \<Rightarrow> False
       | Some b \<Rightarrow> lf_cancelled_at (bn_lifecycle b) = None \<and> lf_block_reason (bn_lifecycle b) = None) \<and>
      \<not> reversed db r)"

definition recoverable_originals :: "database \<Rightarrow> u64 \<Rightarrow> u64 list" where
  "recoverable_originals db rule = rev (sort (map rr_id (filter (recoverable db rule) (db_reroutes db))))"

definition original_sources :: "database \<Rightarrow> u64 list \<Rightarrow> u64 list" where
  "original_sources db originals =
     remdups_adj (sort (List.map_filter (\<lambda>i. Option.bind (row_of db i) rr_bundle_id) originals))"

definition live_attempt :: "database \<Rightarrow> u64 \<Rightarrow> attempt_source \<Rightarrow> bool" where
  "live_attempt db rule a =
     (list_ex (\<lambda>r. rr_rule_id r = Some rule \<and> rr_bundle_id r = Some (rs_source a)) (db_reroutes db) \<and>
      rs_settlement a = ActiveClaim \<and>
      (case find_bundle db (rs_child a) of
         None \<Rightarrow> False | Some c \<Rightarrow> bn_state c \<in> {BundlePlanned, BundleRunning, BundleCompensating}))"

definition recovery_source :: "detector \<Rightarrow> interface_rule \<Rightarrow> u64 list \<Rightarrow> u64 list \<Rightarrow> json" where
  "recovery_source env rule originals sources =
     JObj [(''flow_evidence_qualified'', JBool (flow_auto_gate (dt_flow env) rule)), (''kind'', JStr ''recovery''),
       (''original_reroute_ids'', json_ids originals), (''preparation_phase'', JStr ''published''),
       (''rule_id'', JNum (PosInt (ir_id rule))), (''source_bundle_ids'', json_ids sources)]"

definition awaiting_row :: "detector \<Rightarrow> observation \<Rightarrow> rule_state \<Rightarrow> rule_state" where
  "awaiting_row env ob st =
     st\<lparr>st_phase := AwaitingRevert, st_recovery_first := None, st_recovery_consecutive := 0,
        st_evidence := Some (evidence_json env (ob_evidence ob)), st_observed_at := ob_sampled_at ob\<rparr>"

definition recovery_decision ::
    "detector \<Rightarrow> interface_rule \<Rightarrow> observation \<Rightarrow> u64 list \<Rightarrow> detection \<Rightarrow> detection_failure + detection" where
  "recovery_decision env rule ob originals d =
     (let db = dn_db d; child = db_next_bundle db; sources = original_sources db originals;
          now = dt_clock env (QDetection ''recover'')
      in and_then (look env ''recover'' ()) (\<lambda>_.
         and_then (map_err ClaimFailed (claim_sources_for_child_on (dt_same env) (dt_faults env) (dt_clock env) child
             sources originals (''rule-recovery:'' @ dt_token env) False
             (insert_bundle (planned_bundle now child rule (length originals)
                (recovery_source env rule originals sources)) db))) (\<lambda>(_, db1).
         and_then (ensure PublicationInjected (\<not> dt_fail_before_commit env)) (\<lambda>_.
           look env ''recover commit'' (log_event rule ob ''recovered_awaiting_revert''
             (d\<lparr>dn_states := (dn_states d)(ir_id rule := map_option (awaiting_row env ob) (dn_states d (ir_id rule))),
                dn_db := record_alert ''automatic_recovery_planned'' ''info'' None
                  (''automatic_recovery_planned:bundle:'' @ show_word child) db1\<rparr>))))))"

definition submit_recovery_worker :: "detector \<Rightarrow> u64 \<Rightarrow> detection \<Rightarrow> (detection_failure + unit) \<times> detection" where
  "submit_recovery_worker env bundle d =
     (case submit_scheduled_recovery_worker (dt_same env) (dt_faults env) (dt_clock env) (dt_plans env)
             (dt_accepts env) bundle (dn_db d) of
        (r, db') \<Rightarrow> (map_err SubmissionFailed r, d\<lparr>dn_db := db'\<rparr>))"

definition recovery_consent :: "detector \<Rightarrow> (bool \<times> bool) option \<Rightarrow> database \<Rightarrow> bool" where
  "recovery_consent env flags db =
     (flags = Some (True, True) \<and> operating_mode (dt_faults env) ''recover'' (dt_enforce env) db \<and>
      bool_setting (dt_faults env) db ''automatic_actions_enabled'' (cf_automatic_enabled (dt_config env)))"

definition publish_recovery_attempt ::
    "detector \<Rightarrow> interface_rule \<Rightarrow> observation \<Rightarrow> detection \<Rightarrow> (detection_failure + bool) \<times> detection" where
  "publish_recovery_attempt env rule ob d =
     (case look env ''flags'' (rule_flags d (ir_id rule)) of
        Inl e \<Rightarrow> (Inl e, d)
      | Inr flags \<Rightarrow>
          if \<not> recovery_consent env flags (dn_db d) then (Inr False, d)
          else case look env ''originals'' (recoverable_originals (dn_db d) (ir_id rule)) of
            Inl e \<Rightarrow> (Inl e, d)
          | Inr originals \<Rightarrow>
              if originals = [] then (Inr True, d)
              else case look env ''existing'' (count (live_attempt (dn_db d) (ir_id rule))
                     (db_recovery_sources (dn_db d))) of
                Inl e \<Rightarrow> (Inl e, d)
              | Inr existing \<Rightarrow>
                  if 0 < existing then (Inr True, d)
                  else case recovery_decision env rule ob originals d of
                    Inl e \<Rightarrow> (Inl e, d)
                  | Inr d1 \<Rightarrow> (Inr True, snd (submit_recovery_worker env (db_next_bundle (dn_db d)) d1)))"

definition finish :: "detection \<Rightarrow> detection_failure + detection \<Rightarrow> (detection_failure + bool) \<times> detection" where
  "finish d r = (case r of Inl e \<Rightarrow> (Inl e, d) | Inr d' \<Rightarrow> (Inr False, d'))"

definition recover_and_clear ::
    "detector \<Rightarrow> interface_rule \<Rightarrow> observation \<Rightarrow> detection \<Rightarrow> (detection_failure + bool) \<times> detection" where
  "recover_and_clear env rule ob d =
     (let tell = (\<lambda>ph event d. finish d (publish_simple_observation env rule ob ph None 0 None 0 event d))
      in case look env ''owned'' (rule_owned_changes (dn_db d) (ir_id rule) False) of
           Inl e \<Rightarrow> (Inl e, d)
         | Inr owned \<Rightarrow>
             if \<not> ir_automatic_revert rule
             then (if owned = 0 then tell Clear (Some ''cleared'') d
                   else tell AwaitingRevert (Some ''recovered_awaiting_revert'') d)
             else if is_flow_metric (ir_metric rule) \<and>
               (\<not> fc_automatic_actions (dt_flow env) \<or> \<not> fc_allowlist_only (dt_flow env) \<or>
                ob_low_confidence ob \<or> \<not> ob_corroborated ob)
             then tell AwaitingRevert None d
             else (case (if 0 < owned then look env ''eligible'' (rule_owned_changes (dn_db d) (ir_id rule) True = 0)
                         else Inr False) of
                Inl e \<Rightarrow> (Inl e, d)
              | Inr True \<Rightarrow> tell AwaitingRevert None d
              | Inr False \<Rightarrow>
                  (case publish_recovery_attempt env rule ob d of
                     (Inl e, d1) \<Rightarrow> (Inl e, d1)
                   | (Inr False, d1) \<Rightarrow> (Inr False, d1)
                   | (Inr True, d1) \<Rightarrow>
                       (case look env ''still owned'' (rule_owned_changes (dn_db d1) (ir_id rule) False) of
                          Inl e \<Rightarrow> (Inl e, d1)
                        | Inr still \<Rightarrow> if 0 < still then (Inr False, d1) else tell Clear (Some ''cleared'') d1))))"

subsection \<open>One evaluation\<close>

definition matched_step ::
    "detector \<Rightarrow> interface_rule \<Rightarrow> observation \<Rightarrow> int \<Rightarrow> rule_state \<Rightarrow> detection \<Rightarrow>
     (detection_failure + bool) \<times> detection" where
  "matched_step env rule ob now st d =
     (let consecutive = sat_inc (st_consecutive st);
          first = (case st_first_matched st of Some t \<Rightarrow> t | None \<Rightarrow> now);
          keep = (\<lambda>ph event. finish d
            (publish_simple_observation env rule ob ph (Some first) consecutive None 0 event d))
      in if st_phase st = AwaitingRevert then keep Firing None
         else if persistence_satisfied (ir_duration rule) (num_seconds (now - first)) (ir_consecutive rule) consecutive \<and>
           st_phase st \<noteq> Firing
         then (case on_fire env rule ob first consecutive d of Inl e \<Rightarrow> (Inl e, d) | Inr d' \<Rightarrow> (Inr True, d'))
         else if st_phase st = Firing then keep Firing None
         else keep Matching (if st_phase st = Clear then Some ''matched'' else None))"

definition or_default :: "bool \<Rightarrow> 'a option \<Rightarrow> 'a \<Rightarrow> 'a" where
  "or_default overridden x y = (case x of Some v \<Rightarrow> if overridden then v else y | None \<Rightarrow> y)"

definition firing_step ::
    "detector \<Rightarrow> interface_rule \<Rightarrow> op \<Rightarrow> observation \<Rightarrow> int \<Rightarrow> rule_state \<Rightarrow> detection \<Rightarrow>
     (detection_failure + bool) \<times> detection" where
  "firing_step env rule op ob now st d =
     (let hold = (\<lambda>rec_first rec_consecutive. finish d (publish_simple_observation env rule ob Firing
            (st_first_matched st) (st_consecutive st) rec_first rec_consecutive None d));
          threshold = (ir_recovery_mode rule = ''threshold'')
      in if ir_recovery_mode rule = ''manual'' then hold None 0
         else if threshold \<and>
           \<not> op_recovered op (ob_value ob) (or_default True (ir_recovery_threshold rule) (ir_threshold rule))
         then hold None 0
         else if is_flow_metric (ir_metric rule)
         then (let target = int (unat (or_default threshold (ir_recovery_window rule) (ir_duration rule)));
                   first = (case st_recovery_first st of Some t \<Rightarrow> t | None \<Rightarrow> now)
               in if target = 0 \<or> target \<le> num_seconds (now - first) then recover_and_clear env rule ob d
                  else hold (Some first) (st_recovery_consecutive st))
         else (let target = max (or_default threshold (ir_recovery_consecutive rule) (ir_consecutive rule)) 1;
                   n = sat_inc (st_recovery_consecutive st)
               in if target \<le> n then recover_and_clear env rule ob d else hold None n))"

definition published_recovery :: "database \<Rightarrow> u64 \<Rightarrow> u64 option" where
  "published_recovery db rule =
     (case sort (map bn_id (filter (\<lambda>b. bn_rule_id b = Some rule \<and> bn_state b = BundlePlanned \<and>
             get_str (bn_source b) ''kind'' = Some ''recovery'' \<and>
             get_str (bn_source b) ''preparation_phase'' = Some ''published'') (db_bundles db))) of
        [] \<Rightarrow> None | i # _ \<Rightarrow> Some i)"

definition awaiting_step ::
    "detector \<Rightarrow> interface_rule \<Rightarrow> observation \<Rightarrow> detection \<Rightarrow> (detection_failure + bool) \<times> detection" where
  "awaiting_step env rule ob d =
     (case publish_simple_observation env rule ob AwaitingRevert None 0 None 0 None d of
        Inl e \<Rightarrow> (Inl e, d)
      | Inr d1 \<Rightarrow>
          (case look env ''published'' (published_recovery (dn_db d1) (ir_id rule)) of
             Inl e \<Rightarrow> (Inl e, d1)
           | Inr None \<Rightarrow> (Inr False, d1)
           | Inr (Some bundle) \<Rightarrow>
               (case submit_recovery_worker env bundle d1 of
                  (Inl e, d2) \<Rightarrow> (Inl e, d2) | (Inr _, d2) \<Rightarrow> (Inr False, d2))))"

text \<open>The state that the step starts from: after a gap in the evidence a streak starts anew, and
  a rule that waits for a revert of nothing is clear.\<close>

definition too_old :: "detector \<Rightarrow> interface_rule \<Rightarrow> int \<Rightarrow> rule_state \<Rightarrow> bool" where
  "too_old env rule now st =
     (case st_observed_at st of None \<Rightarrow> False
      | Some last_at \<Rightarrow> gap_limit (dt_flow env) rule < num_seconds (now - last_at))"

definition after_gap ::
    "detector \<Rightarrow> interface_rule \<Rightarrow> int \<Rightarrow> rule_state \<Rightarrow> detection \<Rightarrow>
     detection_failure + (rule_state \<times> detection)" where
  "after_gap env rule now st d =
     (if too_old env rule now st
      then and_then (reset_unproven_streak env (ir_id rule) d) (\<lambda>d'. Inr (reset_row st, d'))
      else Inr (st, d))"

definition settle_awaiting ::
    "detector \<Rightarrow> interface_rule \<Rightarrow> rule_state \<Rightarrow> detection \<Rightarrow> detection_failure + rule_state" where
  "settle_awaiting env rule st d =
     (if st_phase st = AwaitingRevert
      then and_then (look env ''awaited'' (rule_owned_changes (dn_db d) (ir_id rule) False)) (\<lambda>owned.
        Inr (if owned = 0 then st\<lparr>st_phase := Clear, st_first_matched := None, st_consecutive := 0\<rparr> else st))
      else Inr st)"

definition step_from ::
    "detector \<Rightarrow> interface_rule \<Rightarrow> op \<Rightarrow> observation \<Rightarrow> int \<Rightarrow> rule_state \<Rightarrow> detection \<Rightarrow>
     (detection_failure + bool) \<times> detection" where
  "step_from env rule op ob now st d =
     (if op_compare op (ob_value ob) (ir_threshold rule) then matched_step env rule ob now st d
      else if st_phase st = Firing then firing_step env rule op ob now st d
      else if st_phase st = AwaitingRevert then awaiting_step env rule ob d
      else finish d (publish_simple_observation env rule ob Clear None 0 None 0 None d))"

definition advance ::
    "detector \<Rightarrow> interface_rule \<Rightarrow> op \<Rightarrow> observation \<Rightarrow> detection \<Rightarrow> (detection_failure + bool) \<times> detection" where
  "advance env rule op ob d =
     (case look env ''state'' (case dn_states d (ir_id rule) of Some st \<Rightarrow> st | None \<Rightarrow> no_state) of
        Inl e \<Rightarrow> (Inl e, d)
      | Inr st \<Rightarrow>
          if \<not> evidence_advanced env (st_evidence st) (ob_evidence ob) then (Inr False, d)
          else case ob_sampled_at ob of
            None \<Rightarrow> (Inl NoTimestamp, d)
          | Some now \<Rightarrow>
              (case after_gap env rule now st d of
                 Inl e \<Rightarrow> (Inl e, d)
               | Inr (st1, d1) \<Rightarrow>
                   (case settle_awaiting env rule st1 d1 of
                      Inl e \<Rightarrow> (Inl e, d1)
                    | Inr st2 \<Rightarrow> step_from env rule op ob now st2 d1)))"

definition evaluate_rule_inner ::
    "detector \<Rightarrow> interface_rule \<Rightarrow> detection \<Rightarrow> (detection_failure + bool) \<times> detection" where
  "evaluate_rule_inner env rule d =
     (case op_parse (ir_operator rule) of
        None \<Rightarrow> (Inr False, d)
      | Some op \<Rightarrow>
          (case observe (dt_faults env) (dt_flow env) (dt_telemetry env) (dt_now env) rule of
             Inl e \<Rightarrow> (Inl (ReadFailed e), d)
           | Inr None \<Rightarrow> finish d (reset_unproven_streak env (ir_id rule) d)
           | Inr (Some ob) \<Rightarrow> advance env rule op ob d))"

text \<open>The evaluation under its advisory lock; a lock that cannot be given back fails it afterwards.\<close>

definition evaluate_rule ::
    "detector \<Rightarrow> interface_rule \<Rightarrow> detection \<Rightarrow> (detection_failure + bool) \<times> detection" where
  "evaluate_rule env rule d =
     (case look env ''lock'' () of
        Inl e \<Rightarrow> (Inl e, d)
      | Inr _ \<Rightarrow>
          (case evaluate_rule_inner env rule d of
             (r, d') \<Rightarrow> (and_then (look env ''unlock'' ()) (\<lambda>_. r), d')))"

subsection \<open>Passes over the rules\<close>

definition severity_rank :: "interface_rule \<Rightarrow> nat" where
  "severity_rank rule =
     (if ir_severity rule = ''critical'' then 0 else if ir_severity rule = ''warning'' then 1
      else if ir_severity rule = ''info'' then 2 else 3)"

definition by_priority :: "interface_rule list \<Rightarrow> interface_rule list" where
  "by_priority rules = sort_key severity_rank (sort_key ir_id rules)"

definition enabled_rules :: "detection \<Rightarrow> (interface_rule \<Rightarrow> bool) \<Rightarrow> interface_rule list" where
  "enabled_rules d p = filter p (map snd (filter fst (dn_rules d)))"

text \<open>\<open>env\<close> gives what each evaluation of the pass sees.\<close>

fun evaluate_each :: "(u64 \<Rightarrow> detector) \<Rightarrow> interface_rule list \<Rightarrow> detection \<Rightarrow> nat \<times> u64 list \<times> detection" where
  "evaluate_each env [] d = (0, [], d)"
| "evaluate_each env (rule # rest) d =
     (case evaluate_rule (env (ir_id rule)) rule d of
        (r, d1) \<Rightarrow> (case evaluate_each env rest d1 of
          (n, failed, d2) \<Rightarrow>
            (case r of Inl _ \<Rightarrow> (n, ir_id rule # failed, d2)
             | Inr hit \<Rightarrow> (if hit then n + 1 else n, failed, d2))))"

definition skip_failures ::
    "(u64 \<Rightarrow> detector) \<Rightarrow> string + interface_rule list \<Rightarrow> detection \<Rightarrow> (detection_failure + nat) \<times> detection" where
  "skip_failures env rules d =
     (case rules of
        Inl e \<Rightarrow> (Inl (ReadFailed e), d)
      | Inr rs \<Rightarrow> (case evaluate_each env rs d of (n, _, d') \<Rightarrow> (Inr n, d')))"

definition evaluate_rules ::
    "(u64 \<Rightarrow> detector) \<Rightarrow> string + interface_rule list \<Rightarrow> detection \<Rightarrow> (detection_failure + nat) \<times> detection" where
  "evaluate_rules env rules d =
     (case rules of
        Inl e \<Rightarrow> (Inl (ReadFailed e), d)
      | Inr rs \<Rightarrow> (case evaluate_each env rs d of
          (n, failed, d') \<Rightarrow> (if failed = [] then Inr n else Inl (StillRetryable failed), d')))"

definition evaluate_device ::
    "(u64 \<Rightarrow> detector) \<Rightarrow> faults \<Rightarrow> u64 \<Rightarrow> detection \<Rightarrow> (detection_failure + nat) \<times> detection" where
  "evaluate_device env f device d =
     skip_failures env (fetch f (QDetection ''rules'') (by_priority (enabled_rules d (\<lambda>r.
       ir_aggregation r = ''single'' \<and> ir_interface_id r \<noteq> None \<and> ir_device_id r = Some device)))) d"

definition evaluate_aggregate_rules ::
    "(u64 \<Rightarrow> detector) \<Rightarrow> faults \<Rightarrow> detection \<Rightarrow> (detection_failure + nat) \<times> detection" where
  "evaluate_aggregate_rules env f d =
     skip_failures env (fetch f (QDetection ''rules'') (by_priority (enabled_rules d (\<lambda>r.
       ir_aggregation r = ''sum'')))) d"

definition evaluate_flow_interfaces ::
    "(u64 \<Rightarrow> detector) \<Rightarrow> faults \<Rightarrow> u64 list \<Rightarrow> detection \<Rightarrow> (detection_failure + nat) \<times> detection" where
  "evaluate_flow_interfaces env f interfaces d =
     (if interfaces = [] then (Inr 0, d)
      else evaluate_rules env (fetch f (QDetection ''rules'') (sort_key ir_id (enabled_rules d (\<lambda>r.
        is_flow_metric (ir_metric r) \<and> (\<exists>i \<in> set interfaces. ir_interface_id r = Some i))))) d)"

definition evaluate_all_flow_rules ::
    "(u64 \<Rightarrow> detector) \<Rightarrow> faults \<Rightarrow> detection \<Rightarrow> (detection_failure + nat) \<times> detection" where
  "evaluate_all_flow_rules env f d =
     evaluate_rules env (fetch f (QDetection ''rules'') (sort_key ir_id (enabled_rules d (\<lambda>r.
       is_flow_metric (ir_metric r))))) d"

definition clear_state :: "detector \<Rightarrow> u64 \<Rightarrow> detection \<Rightarrow> detection_failure + detection" where
  "clear_state env rule d =
     look env ''clear'' (put_state rule (case dn_states d rule of
       None \<Rightarrow> no_state
     | Some st \<Rightarrow> st\<lparr>st_phase := Clear, st_first_matched := None, st_recovery_first := None,
         st_recovery_consecutive := 0, st_consecutive := 0\<rparr>) d)"

subsection \<open>Revalidation before a worker writes\<close>

definition enabled_rule :: "detection \<Rightarrow> u64 \<Rightarrow> interface_rule option" where
  "enabled_rule d rule = map_option snd (List.find (\<lambda>(enabled, r). enabled \<and> ir_id r = rule) (dn_rules d))"

definition automatic_flow_evidence_qualified :: "detector \<Rightarrow> u64 \<Rightarrow> detection \<Rightarrow> string + bool" where
  "automatic_flow_evidence_qualified env rule_id d =
     and_then (fetch (dt_faults env) (QDetection ''rule'') (enabled_rule d rule_id)) (\<lambda>row.
       case row of
         None \<Rightarrow> Inr False
       | Some rule \<Rightarrow>
           if \<not> is_flow_metric (ir_metric rule) then Inr True
           else and_then (flow_observation (dt_faults env) (dt_flow env) (dt_telemetry env) (dt_now env) rule) (\<lambda>obs.
             Inr (case obs of None \<Rightarrow> False | Some ob \<Rightarrow> \<not> ob_low_confidence ob \<and> ob_corroborated ob)))"

definition recovered_by :: "interface_rule \<Rightarrow> observation \<Rightarrow> bool" where
  "recovered_by rule ob =
     (\<not> (is_flow_metric (ir_metric rule) \<and> (ob_low_confidence ob \<or> \<not> ob_corroborated ob)) \<and>
      (case op_parse (ir_operator rule) of
         None \<Rightarrow> False
       | Some op \<Rightarrow>
           \<not> op_compare op (ob_value ob) (ir_threshold rule) \<and>
           (ir_recovery_mode rule \<noteq> ''threshold'' \<or>
            op_recovered op (ob_value ob) (or_default True (ir_recovery_threshold rule) (ir_threshold rule)))))"

definition automatic_condition_recovery_qualified :: "detector \<Rightarrow> u64 \<Rightarrow> detection \<Rightarrow> string + bool" where
  "automatic_condition_recovery_qualified env rule_id d =
     and_then (fetch (dt_faults env) (QDetection ''rule'') (enabled_rule d rule_id)) (\<lambda>row.
       case row of
         None \<Rightarrow> Inr False
       | Some rule \<Rightarrow>
           if \<not> ir_automatic_revert rule then Inr False
           else and_then (fetch (dt_faults env) (QDetection ''state'') (dn_states d rule_id)) (\<lambda>st.
             if map_option st_phase st \<noteq> Some AwaitingRevert then Inr False
             else and_then (observe (dt_faults env) (dt_flow env) (dt_telemetry env) (dt_now env) rule) (\<lambda>obs.
               Inr (case obs of None \<Rightarrow> False | Some ob \<Rightarrow> recovered_by rule ob))))"

section \<open>Facts of one evaluation\<close>

definition rule_phase :: "detection \<Rightarrow> u64 \<Rightarrow> phase" where
  "rule_phase d rule = (case dn_states d rule of Some st \<Rightarrow> st_phase st | None \<Rightarrow> Clear)"

definition prior_state :: "detection \<Rightarrow> u64 \<Rightarrow> rule_state" where
  "prior_state d rule = (case dn_states d rule of Some st \<Rightarrow> st | None \<Rightarrow> no_state)"

lemma rule_phase_prior: "rule_phase d rule = st_phase (prior_state d rule)"
  by (simp add: rule_phase_def prior_state_def no_state_def split: option.split)

lemma finish_not_fired [simp]: "fst (finish d r) \<noteq> Inr True"
  by (simp add: finish_def split: sum.split)

lemma recover_not_fired: "fst (recover_and_clear env rule ob d) \<noteq> Inr True"
  by (simp add: recover_and_clear_def Let_def split: sum.split prod.split bool.split)

lemma firing_not_fired: "fst (firing_step env rule op ob now st d) \<noteq> Inr True"
  by (simp add: firing_step_def Let_def recover_not_fired)

lemma awaiting_not_fired: "fst (awaiting_step env rule ob d) \<noteq> Inr True"
  by (simp add: awaiting_step_def split: sum.split prod.split option.split)

lemma after_gap_Inr:
  "after_gap env rule now st d = Inr (st1, d1) \<Longrightarrow>
   dn_db d1 = dn_db d \<and> dn_events d1 = dn_events d \<and> dn_actions d1 = dn_actions d \<and> dn_rules d1 = dn_rules d \<and>
   (if too_old env rule now st then st1 = reset_row st else st1 = st) \<and>
   (\<forall>i. i \<noteq> ir_id rule \<longrightarrow> dn_states d1 i = dn_states d i) \<and>
   dn_states d1 (ir_id rule) = (if too_old env rule now st then map_option reset_row (dn_states d (ir_id rule))
     else dn_states d (ir_id rule))"
  by (auto simp: after_gap_def reset_unproven_streak_def res_simps split: if_splits)

lemma settle_awaiting_Inr:
  "settle_awaiting env rule st d = Inr st2 \<Longrightarrow>
   (if st_phase st = AwaitingRevert \<and> rule_owned_changes (dn_db d) (ir_id rule) False = 0
    then st2 = st\<lparr>st_phase := Clear, st_first_matched := None, st_consecutive := 0\<rparr> else st2 = st)"
  by (auto simp: settle_awaiting_def res_simps split: if_splits)

lemma evaluate_rule_Inr:
  assumes "evaluate_rule env rule d = (Inr hit, d')"
  shows "evaluate_rule_inner env rule d = (Inr hit, d')"
  using assms by (auto simp: evaluate_rule_def res_simps split: sum.splits prod.splits)

lemma evaluate_rule_snd:
  "snd (evaluate_rule env rule d) = d \<or> snd (evaluate_rule env rule d) = snd (evaluate_rule_inner env rule d)"
  by (simp add: evaluate_rule_def split: sum.split prod.split)

lemma advance_Inr:
  assumes "advance env rule op ob d = (Inr hit, d')" "evidence_advanced env (st_evidence (prior_state d (ir_id rule))) (ob_evidence ob)"
  obtains now st1 st2 d1 where "ob_sampled_at ob = Some now"
    "after_gap env rule now (prior_state d (ir_id rule)) d = Inr (st1, d1)"
    "settle_awaiting env rule st1 d1 = Inr st2" "step_from env rule op ob now st2 d1 = (Inr hit, d')"
  using assms
  by (auto simp: advance_def prior_state_def [symmetric] res_simps split: sum.splits option.splits prod.splits if_splits)

lemma fired_step:
  assumes "step_from env rule op ob now st d = (Inr True, d')"
  shows "op_compare op (ob_value ob) (ir_threshold rule) \<and> st_phase st \<noteq> AwaitingRevert \<and> st_phase st \<noteq> Firing \<and>
    (\<exists>first. first = (case st_first_matched st of Some t \<Rightarrow> t | None \<Rightarrow> now) \<and>
       persistence_satisfied (ir_duration rule) (num_seconds (now - first)) (ir_consecutive rule)
         (sat_inc (st_consecutive st)) \<and>
       on_fire env rule ob first (sat_inc (st_consecutive st)) d = Inr d')"
proof -
  from assms have m: "op_compare op (ob_value ob) (ir_threshold rule)"
    using firing_not_fired [of env rule op ob now st d] awaiting_not_fired [of env rule ob d]
      finish_not_fired [of d "publish_simple_observation env rule ob Clear None 0 None 0 None d"]
    by (auto simp: step_from_def simp del: finish_not_fired split: if_splits)
  with assms have s: "matched_step env rule ob now st d = (Inr True, d')" by (simp add: step_from_def)
  have f: "finish e x \<noteq> (Inr True, d')" for e x using finish_not_fired [of e x] by (metis fst_conv)
  from s m f show ?thesis
    by (auto simp: matched_step_def Let_def split: if_splits sum.splits)
qed

lemma fired_evaluation:
  assumes "evaluate_rule env rule d = (Inr True, d')"
  obtains op ob now st1 st2 d1 where "op_parse (ir_operator rule) = Some op"
    "observe (dt_faults env) (dt_flow env) (dt_telemetry env) (dt_now env) rule = Inr (Some ob)"
    "evidence_advanced env (st_evidence (prior_state d (ir_id rule))) (ob_evidence ob)"
    "ob_sampled_at ob = Some now"
    "after_gap env rule now (prior_state d (ir_id rule)) d = Inr (st1, d1)"
    "settle_awaiting env rule st1 d1 = Inr st2" "step_from env rule op ob now st2 d1 = (Inr True, d')"
proof -
  from evaluate_rule_Inr [OF assms] obtain op ob where o: "op_parse (ir_operator rule) = Some op"
    "observe (dt_faults env) (dt_flow env) (dt_telemetry env) (dt_now env) rule = Inr (Some ob)"
    "advance env rule op ob d = (Inr True, d')"
    using finish_not_fired [of d "reset_unproven_streak env (ir_id rule) d"]
    by (auto simp: evaluate_rule_inner_def simp del: finish_not_fired split: sum.splits option.splits)
  from o(3) have e: "evidence_advanced env (st_evidence (prior_state d (ir_id rule))) (ob_evidence ob)"
    by (auto simp: advance_def prior_state_def [symmetric] res_simps split: sum.splits if_splits)
  show ?thesis by (rule advance_Inr [OF o(3) e]) (rule that [OF o(1,2) e])
qed

lemma on_fire_Inr:
  assumes "on_fire env rule ob first consecutive d = Inr d'"
  obtains inputs where
    "inputs = (if auto_decision env rule ob (dn_db d) then automatic_inputs d (ir_id rule) else [])"
    "dn_states d' = (dn_states d)(ir_id rule \<mapsto> fired_state env ob first consecutive)"
    "dn_events d' = dn_events d @ [\<lparr>ev_rule = ir_id rule, ev_event = ''fired'', ev_value = ob_value ob,
       ev_sampled_at = ob_sampled_at ob\<rparr>]"
    "inputs = [] \<Longrightarrow> dn_db d' = record_alert ''rule_fired'' (ir_severity rule) (ir_device_id rule) (fired_key rule) (dn_db d)"
  using assms
  by (auto simp: on_fire_def Let_def firing_decision_def log_event_def put_state_def res_simps split: if_splits)

section \<open>Properties\<close>

text \<open>C29: a rule acts on its own only with every consent. If a firing edge did more to the
  database than raise its alert, then enforcement was on, the automatic master switch was on, the
  rule allows automatic reroutes and has an enabled action, its reading met the condition and is
  not of low confidence, and for a flow metric both flow gates are open.\<close>

theorem activation_needs_consent:
  assumes "evaluate_rule env rule d = (Inr True, d')"
    "dn_db d' \<noteq> record_alert ''rule_fired'' (ir_severity rule) (ir_device_id rule) (fired_key rule) (dn_db d)"
  shows "operating_mode (dt_faults env) ''fire'' (dt_enforce env) (dn_db d) \<and>
    bool_setting (dt_faults env) (dn_db d) ''automatic_actions_enabled'' (cf_automatic_enabled (dt_config env)) \<and>
    ir_automatic_reroute rule \<and> (\<exists>a \<in> set (dn_actions d). ra_rule a = ir_id rule \<and> ra_enabled a) \<and>
    (is_flow_metric (ir_metric rule) \<longrightarrow> fc_automatic_actions (dt_flow env) \<and> fc_allowlist_only (dt_flow env)) \<and>
    (\<exists>op ob. op_parse (ir_operator rule) = Some op \<and>
       observe (dt_faults env) (dt_flow env) (dt_telemetry env) (dt_now env) rule = Inr (Some ob) \<and>
       op_compare op (ob_value ob) (ir_threshold rule) \<and> \<not> ob_low_confidence ob)"
proof (rule fired_evaluation [OF assms(1)], goal_cases)
  case (1 op ob now st1 st2 d1)
  from fired_step [OF 1(7)] obtain first where f: "op_compare op (ob_value ob) (ir_threshold rule)"
    "on_fire env rule ob first (sat_inc (st_consecutive st2)) d1 = Inr d'" by auto
  note g = after_gap_Inr [OF 1(5)]
  show ?case
  proof (rule on_fire_Inr [OF f(2)], goal_cases)
    case (1 inputs)
    from assms(2) 1(4) g have "inputs \<noteq> []" by auto
    with 1(1) have a: "auto_decision env rule ob (dn_db d1)" "automatic_inputs d1 (ir_id rule) \<noteq> []"
      by (auto split: if_splits)
    from a(2) have "filter (\<lambda>a. ra_rule a = ir_id rule \<and> ra_enabled a) (dn_actions d1) \<noteq> []"
      by (auto simp: automatic_inputs_def)
    then have "\<exists>a \<in> set (dn_actions d). ra_rule a = ir_id rule \<and> ra_enabled a"
      using g by (auto simp: filter_empty_conv)
    with a(1) g f(1) \<open>op_parse _ = _\<close> \<open>observe _ _ _ _ _ = _\<close> show ?case
      by (auto simp: auto_decision_def should_auto_execute_def flow_auto_gate_def)
  qed
qed

text \<open>A firing edge is earned. A rule fires only when its reading met the condition on evidence
  that is newer than all evidence that it has seen, when the rule was not firing and did not wait
  for the revert of a change that it still owns, and when the streak, either the stored one
  continued without a gap or a new one, satisfies the persistence asked for. Then the rule is firing,
  and exactly one event is added.\<close>

theorem firing_is_earned:
  assumes "evaluate_rule env rule d = (Inr True, d')"
  shows "\<exists>op ob now first n. op_parse (ir_operator rule) = Some op \<and>
    observe (dt_faults env) (dt_flow env) (dt_telemetry env) (dt_now env) rule = Inr (Some ob) \<and>
    ob_sampled_at ob = Some now \<and> op_compare op (ob_value ob) (ir_threshold rule) \<and>
    evidence_advanced env (st_evidence (prior_state d (ir_id rule))) (ob_evidence ob) \<and>
    rule_phase d (ir_id rule) \<noteq> Firing \<and>
    (rule_phase d (ir_id rule) = AwaitingRevert \<longrightarrow> rule_owned_changes (dn_db d) (ir_id rule) False = 0) \<and>
    persistence_satisfied (ir_duration rule) (num_seconds (now - first)) (ir_consecutive rule) n \<and>
    ((first, n) = (now, 1) \<or>
     \<not> too_old env rule now (prior_state d (ir_id rule)) \<and> n = sat_inc (st_consecutive (prior_state d (ir_id rule))) \<and>
       first = (case st_first_matched (prior_state d (ir_id rule)) of Some t \<Rightarrow> t | None \<Rightarrow> now)) \<and>
    dn_states d' (ir_id rule) = Some (fired_state env ob first n) \<and>
    dn_events d' = dn_events d @ [\<lparr>ev_rule = ir_id rule, ev_event = ''fired'', ev_value = ob_value ob,
       ev_sampled_at = Some now\<rparr>]"
proof (rule fired_evaluation [OF assms], goal_cases)
  case (1 op ob now st1 st2 d1)
  let ?st = "prior_state d (ir_id rule)"
  from fired_step [OF 1(7)] obtain first where f: "op_compare op (ob_value ob) (ir_threshold rule)"
    "st_phase st2 \<noteq> AwaitingRevert" "st_phase st2 \<noteq> Firing"
    "first = (case st_first_matched st2 of Some t \<Rightarrow> t | None \<Rightarrow> now)"
    "persistence_satisfied (ir_duration rule) (num_seconds (now - first)) (ir_consecutive rule) (sat_inc (st_consecutive st2))"
    "on_fire env rule ob first (sat_inc (st_consecutive st2)) d1 = Inr d'" by auto
  note g = after_gap_Inr [OF 1(5)] and s = settle_awaiting_Inr [OF 1(6)]
  have ph1: "st_phase st1 = Firing \<longleftrightarrow> st_phase ?st = Firing" "st_phase st1 = AwaitingRevert \<longleftrightarrow> st_phase ?st = AwaitingRevert"
    using g by (auto simp: reset_row_def split: if_splits)
  have nf: "rule_phase d (ir_id rule) \<noteq> Firing"
    using f(3) s ph1 by (auto simp: rule_phase_prior split: if_splits)
  have ow: "rule_phase d (ir_id rule) = AwaitingRevert \<longrightarrow> rule_owned_changes (dn_db d) (ir_id rule) False = 0"
    using f(2) s g ph1 by (auto simp: rule_phase_prior split: if_splits)
  have one: "sat_inc 0 = 1" by (simp add: sat_inc_def)
  have str: "(first, sat_inc (st_consecutive st2)) = (now, 1) \<or>
     \<not> too_old env rule now ?st \<and> sat_inc (st_consecutive st2) = sat_inc (st_consecutive ?st) \<and>
       first = (case st_first_matched ?st of Some t \<Rightarrow> t | None \<Rightarrow> now)"
    using s g f(4) one by (auto simp: reset_row_def split: if_splits)
  show ?case
  proof (rule on_fire_Inr [OF f(6)], goal_cases)
    case (1 inputs)
    show ?case
      by (intro exI conjI) (rule \<open>op_parse _ = _\<close> \<open>observe _ _ _ _ _ = _\<close> \<open>ob_sampled_at _ = _\<close> f(1)
          \<open>evidence_advanced _ _ _\<close> nf ow f(5) str | simp add: 1(2,3) g \<open>ob_sampled_at _ = _\<close>)+
  qed
qed

text \<open>Silence is not evidence. An evaluation whose reading fails, is missing, or shows nothing
  newer than what the rule has seen does not fire, writes no event, publishes nothing, and
  leaves every rule's state as it was, but for the unproven streak of this rule, which it may
  reset.\<close>

theorem silence_changes_nothing:
  assumes "case observe (dt_faults env) (dt_flow env) (dt_telemetry env) (dt_now env) rule of
      Inr (Some ob) \<Rightarrow> \<not> evidence_advanced env (st_evidence (prior_state d (ir_id rule))) (ob_evidence ob)
    | _ \<Rightarrow> True"
    "evaluate_rule env rule d = (r, d')"
  shows "r \<noteq> Inr True \<and> dn_db d' = dn_db d \<and> dn_events d' = dn_events d \<and>
    (d' = d \<or> dn_states d' = (dn_states d)(ir_id rule := map_option reset_row (dn_states d (ir_id rule))))"
proof -
  have inner: "fst (evaluate_rule_inner env rule d) \<noteq> Inr True \<and>
    (snd (evaluate_rule_inner env rule d) = d \<or>
     snd (evaluate_rule_inner env rule d) = d\<lparr>dn_states := (dn_states d)(ir_id rule := map_option reset_row (dn_states d (ir_id rule)))\<rparr>)"
    using assms(1)
    by (auto simp: evaluate_rule_inner_def advance_def prior_state_def [symmetric] finish_def
      reset_unproven_streak_def res_simps split: option.splits sum.splits)
  have "fst (evaluate_rule env rule d) \<noteq> Inr True"
  proof
    assume "fst (evaluate_rule env rule d) = Inr True"
    then have "evaluate_rule env rule d = (Inr True, snd (evaluate_rule env rule d))" by (simp add: prod_eq_iff)
    from evaluate_rule_Inr [OF this] inner show False by simp
  qed
  with inner evaluate_rule_snd [of env rule d] assms(2) show ?thesis by auto
qed

subsection \<open>What a publication leaves of the reroutes\<close>

lemma owned_same:
  "db_reroutes db' = db_reroutes db \<Longrightarrow> rule_owned_changes db' i False = rule_owned_changes db i False"
  by (simp add: rule_owned_changes_def reversed_def)

lemma finalize_reroutes:
  assumes "finalize_recovery_child same f clk plans child st reason owner db = Inr db'"
  shows "db_reroutes db' = db_reroutes db"
proof (rule finalize_Inr [OF assms], goal_cases)
  case (1 b ps ss db1 db2)
  have "db_reroutes db' = db_reroutes db2"
    by (simp add: 1(6) alert_settlement_def audit_settlement_def close_windows_def close_child_def record_alert_def Let_def)
  with settle_each_verdicts [OF 1(5)] 1(2) show ?case by simp
qed

lemma quarantine_reroutes:
  assumes "quarantine_interrupted_worker_bundle f clk bundle reason db = Inr db'"
    "\<forall>r \<in> set (db_reroutes db). rr_bundle_id r \<noteq> Some bundle"
  shows "db_reroutes db' = db_reroutes db"
proof -
  have "filter (interrupted bundle) (db_reroutes db) = []"
    using assms(2) by (auto simp: filter_empty_conv interrupted_def)
  with assms(1) show ?thesis
    by (auto simp: quarantine_interrupted_worker_bundle_def put_def res_simps Let_def)
qed

lemma kept_reroutes: "(\<And>db'. r = Inr db' \<Longrightarrow> db_reroutes db' = db_reroutes db) \<Longrightarrow> db_reroutes (kept db r) = db_reroutes db"
  unfolding kept_def by (cases r) (simp_all only: sum.case)

lemma settle_worker_reroutes:
  assumes "\<forall>r \<in> set (db_reroutes db). rr_bundle_id r \<noteq> Some bundle"
  shows "db_reroutes (settle_recovery_worker same f clk plans bundle reason db) = db_reroutes db"
proof -
  let ?fin = "\<lambda>db. kept db (finalize_recovery_child same f clk plans bundle BundleFailed (Some reason) (recovery_owner bundle) db)"
  have fin: "db_reroutes (?fin x) = db_reroutes x" for x by (rule kept_reroutes) (rule finalize_reroutes)
  have q: "db_reroutes (kept db (quarantine_interrupted_worker_bundle f clk bundle reason db)) = db_reroutes db"
    by (rule kept_reroutes) (rule quarantine_reroutes [OF _ assms])
  show ?thesis unfolding settle_recovery_worker_def Let_def using fin q by simp
qed

lemma submit_reroutes:
  assumes "\<forall>r \<in> set (db_reroutes (dn_db d)). rr_bundle_id r \<noteq> Some bundle"
  shows "db_reroutes (dn_db (snd (submit_recovery_worker env bundle d))) = db_reroutes (dn_db d)"
    and "dn_states (snd (submit_recovery_worker env bundle d)) = dn_states d"
proof -
  have "db_reroutes (snd (submit_scheduled_recovery_worker same f clk plans acc bundle (dn_db d))) = db_reroutes (dn_db d)"
    for same f clk plans acc
    using assms by (simp add: submit_scheduled_recovery_worker_def Let_def settle_worker_reroutes split: sum.split)
  then show "db_reroutes (dn_db (snd (submit_recovery_worker env bundle d))) = db_reroutes (dn_db d)"
    by (simp add: submit_recovery_worker_def split: prod.split) (metis snd_conv)
  show "dn_states (snd (submit_recovery_worker env bundle d)) = dn_states d"
    by (simp add: submit_recovery_worker_def split: prod.split)
qed

lemma submit_states [simp]: "dn_states (snd (submit_recovery_worker env bundle d)) = dn_states d"
  by (simp add: submit_recovery_worker_def split: prod.split)

lemma claim_each_reroutes:
  "claim_each same f clk child token op ss db = Inr db' \<Longrightarrow> db_reroutes db' = db_reroutes db"
proof (induction ss arbitrary: db)
  case (Cons s ss)
  from Cons.prems obtain d where d: "claim_one same f clk child token op s db = Inr d"
    "claim_each same f clk child token op ss d = Inr db'" by (auto simp: and_then_Inr_iff)
  from d(1) have "db_reroutes d = db_reroutes db" by (auto simp: claim_one_def res_simps)
  with Cons.IH [OF d(2)] show ?case by (rule trans)
qed simp

lemma quarantine_device_reroutes: "quarantine_device f child i db = Inr db' \<Longrightarrow> db_reroutes db' = db_reroutes db"
  by (auto simp: quarantine_device_def record_membership_def note_source_def res_simps Let_def split: option.splits)

lemma quarantine_each_reroutes: "quarantine_each f child is db = Inr db' \<Longrightarrow> db_reroutes db' = db_reroutes db"
proof (induction "is" arbitrary: db)
  case (Cons i "is")
  from Cons.prems obtain d where d: "quarantine_device f child i db = Inr d" "quarantine_each f child is d = Inr db'"
    by (auto simp: and_then_Inr_iff)
  from Cons.IH [OF d(2)] quarantine_device_reroutes [OF d(1)] show ?case by (rule trans)
qed simp

lemma recovery_decision_Inr:
  assumes "recovery_decision env rule ob originals d = Inr d1"
  shows "db_reroutes (dn_db d1) = db_reroutes (dn_db d) \<and>
    dn_states d1 = (dn_states d)(ir_id rule := map_option (awaiting_row env ob) (dn_states d (ir_id rule)))"
proof -
  from assms obtain own db1 where c: "claim_sources_for_child_on (dt_same env) (dt_faults env) (dt_clock env)
      (db_next_bundle (dn_db d)) (original_sources (dn_db d) originals) originals (''rule-recovery:'' @ dt_token env) False
      (insert_bundle (planned_bundle (dt_clock env (QDetection ''recover'')) (db_next_bundle (dn_db d)) rule
        (length originals) (recovery_source env rule originals (original_sources (dn_db d) originals))) (dn_db d)) = Inr (own, db1)"
    and d1: "d1 = log_event rule ob ''recovered_awaiting_revert''
       (d\<lparr>dn_states := (dn_states d)(ir_id rule := map_option (awaiting_row env ob) (dn_states d (ir_id rule))),
          dn_db := record_alert ''automatic_recovery_planned'' ''info'' None
            (''automatic_recovery_planned:bundle:'' @ show_word (db_next_bundle (dn_db d))) db1\<rparr>)"
    by (auto simp: recovery_decision_def Let_def res_simps split: prod.splits)
  from c have "db_reroutes db1 = db_reroutes (dn_db d)"
    by (auto simp: claim_sources_for_child_on_def insert_bundle_def res_simps
      dest!: claim_each_reroutes quarantine_each_reroutes)
  then show ?thesis by (simp add: d1 log_event_def record_alert_def)
qed

definition held_phase :: "detection \<Rightarrow> u64 \<Rightarrow> bool" where
  "held_phase d rule = (rule_phase d rule \<in> {Firing, AwaitingRevert})"

lemma held_publish:
  "held_phase d (ir_id rule) \<Longrightarrow> ph \<in> {Firing, AwaitingRevert} \<Longrightarrow>
   held_phase (snd (finish d (publish_simple_observation env rule ob ph first n rf rc event d))) (ir_id rule)"
  by (auto simp: finish_def publish_simple_observation_def look_def map_err_def fetch_def held_phase_def rule_phase_def
    log_event_def put_state_def Let_def split: sum.splits option.splits)

lemma publish_held:
  "publish_simple_observation env rule ob ph first n rf rc event d = Inr d' \<Longrightarrow>
   rule_phase d' (ir_id rule) = ph \<and> dn_db d' = dn_db d"
  by (auto simp: publish_simple_observation_def res_simps rule_phase_def log_event_def put_state_def Let_def
    split: option.splits)

lemma held_states: "dn_states d' = dn_states d \<Longrightarrow> held_phase d' i = held_phase d i"
  by (simp add: held_phase_def rule_phase_def)

text \<open>A recovery attempt keeps the phase, and what the rule owns.\<close>

lemma attempt_keeps:
  assumes "publish_recovery_attempt env rule ob d = (r, d1)" "held_phase d (ir_id rule)"
    "\<forall>r \<in> set (db_reroutes (dn_db d)). rr_bundle_id r \<noteq> Some (db_next_bundle (dn_db d))"
  shows "held_phase d1 (ir_id rule) \<and> db_reroutes (dn_db d1) = db_reroutes (dn_db d)"
proof -
  have step: "held_phase (snd (submit_recovery_worker env (db_next_bundle (dn_db d)) e)) (ir_id rule) \<and>
      db_reroutes (dn_db (snd (submit_recovery_worker env (db_next_bundle (dn_db d)) e))) = db_reroutes (dn_db d)"
    if "recovery_decision env rule ob originals d = Inr e" for originals e
  proof -
    note rd = recovery_decision_Inr [OF that]
    have "held_phase e (ir_id rule)" using rd assms(2)
      by (auto simp: held_phase_def rule_phase_def awaiting_row_def split: option.splits)
    moreover have "db_reroutes (dn_db (snd (submit_recovery_worker env (db_next_bundle (dn_db d)) e))) = db_reroutes (dn_db e)"
      by (rule submit_reroutes(1)) (use rd assms(3) in simp)
    ultimately show ?thesis using rd held_states [OF submit_states, of env "db_next_bundle (dn_db d)" e "ir_id rule"] by simp
  qed
  from assms(1,2) step show ?thesis
    by (auto simp: publish_recovery_attempt_def split: sum.splits if_splits)
qed

lemma recover_keeps:
  assumes "held_phase d (ir_id rule)" "0 < rule_owned_changes (dn_db d) (ir_id rule) False"
    "\<forall>r \<in> set (db_reroutes (dn_db d)). rr_bundle_id r \<noteq> Some (db_next_bundle (dn_db d))"
  shows "held_phase (snd (recover_and_clear env rule ob d)) (ir_id rule)"
proof -
  let ?tell = "\<lambda>event. finish d (publish_simple_observation env rule ob AwaitingRevert None 0 None 0 event d)"
  have t: "held_phase (snd (?tell event)) (ir_id rule)" for event by (rule held_publish [OF assms(1)]) simp
  obtain r d1 where a: "publish_recovery_attempt env rule ob d = (r, d1)" by force
  note k = attempt_keeps [OF a assms(1,3)]
  have o1: "0 < rule_owned_changes (dn_db d1) (ir_id rule) False" using k assms(2) owned_same by metis
  have "held_phase (snd (case publish_recovery_attempt env rule ob d of (Inl e, d1) \<Rightarrow> (Inl e, d1)
      | (Inr False, d1) \<Rightarrow> (Inr False, d1)
      | (Inr True, d1) \<Rightarrow>
          (case look env ''still owned'' (rule_owned_changes (dn_db d1) (ir_id rule) False) of
             Inl e \<Rightarrow> (Inl e, d1)
           | Inr still \<Rightarrow> if 0 < still then (Inr False, d1)
               else finish d1 (publish_simple_observation env rule ob Clear None 0 None 0 (Some ''cleared'') d1)))) (ir_id rule)"
    using k o1 by (auto simp: a res_simps split: sum.split bool.split)
  with assms(1,2) t show ?thesis
    unfolding recover_and_clear_def Let_def
    by (auto simp: res_simps split: sum.split bool.split)
qed

lemma awaiting_keeps:
  assumes "held_phase d (ir_id rule)"
  shows "held_phase (snd (awaiting_step env rule ob d)) (ir_id rule)"
proof (cases "publish_simple_observation env rule ob AwaitingRevert None 0 None 0 None d")
  case (Inr d1)
  have h: "held_phase d1 (ir_id rule)" using publish_held [OF Inr] by (simp add: held_phase_def)
  have s: "held_phase (snd (submit_recovery_worker env b d1)) (ir_id rule)" for b
    using h held_states [OF submit_states, of env b d1 "ir_id rule"] by simp
  have "held_phase (snd (case submit_recovery_worker env b d1 of (Inl e, d2) \<Rightarrow> (Inl e, d2) | (Inr _, d2) \<Rightarrow> (Inr False, d2)))
      (ir_id rule)" for b
    using s [of b] by (auto split: prod.split sum.split)
  with h show ?thesis by (auto simp: awaiting_step_def Inr split: sum.split option.split)
qed (simp add: awaiting_step_def assms)

lemma firing_keeps:
  assumes "held_phase d (ir_id rule)" "0 < rule_owned_changes (dn_db d) (ir_id rule) False"
    "\<forall>r \<in> set (db_reroutes (dn_db d)). rr_bundle_id r \<noteq> Some (db_next_bundle (dn_db d))"
  shows "held_phase (snd (firing_step env rule op ob now st d)) (ir_id rule)"
proof -
  have h: "held_phase (snd (finish d (publish_simple_observation env rule ob Firing first n rf rc event d))) (ir_id rule)"
    for first n rf rc event by (rule held_publish [OF assms(1)]) simp
  show ?thesis by (simp add: firing_step_def Let_def h recover_keeps [OF assms])
qed

lemma matched_keeps:
  assumes "held_phase d (ir_id rule)" "st_phase st \<in> {Firing, AwaitingRevert}"
  shows "held_phase (snd (matched_step env rule ob now st d)) (ir_id rule) \<and> fst (matched_step env rule ob now st d) \<noteq> Inr True"
proof -
  have h: "held_phase (snd (finish d (publish_simple_observation env rule ob Firing first n rf rc event d))) (ir_id rule)"
    for first n rf rc event by (rule held_publish [OF assms(1)]) simp
  show ?thesis using assms(2) by (auto simp: matched_step_def Let_def h simp del: finish_not_fired) 
      (metis finish_not_fired)+
qed

lemma step_keeps:
  assumes "held_phase d (ir_id rule)" "st_phase st \<in> {Firing, AwaitingRevert}"
    "0 < rule_owned_changes (dn_db d) (ir_id rule) False"
    "\<forall>r \<in> set (db_reroutes (dn_db d)). rr_bundle_id r \<noteq> Some (db_next_bundle (dn_db d))"
  shows "held_phase (snd (step_from env rule op ob now st d)) (ir_id rule)"
  using assms(2) matched_keeps [OF assms(1,2)] firing_keeps [OF assms(1,3,4)] awaiting_keeps [OF assms(1)]
  by (auto simp: step_from_def)

lemma inner_keeps:
  assumes "0 < rule_owned_changes (dn_db d) (ir_id rule) False" "held_phase d (ir_id rule)"
    "\<forall>r \<in> set (db_reroutes (dn_db d)). rr_bundle_id r \<noteq> Some (db_next_bundle (dn_db d))"
  shows "held_phase (snd (evaluate_rule_inner env rule d)) (ir_id rule)"
proof -
  have reset: "held_phase d' (ir_id rule)" if "reset_unproven_streak env (ir_id rule) d = Inr d'" for d'
    using that assms(2)
    by (auto simp: reset_unproven_streak_def res_simps held_phase_def rule_phase_def reset_row_def split: option.splits)
  have gap: "held_phase d1 (ir_id rule) \<and> dn_db d1 = dn_db d \<and> st_phase st1 \<in> {Firing, AwaitingRevert}"
    if "after_gap env rule now (prior_state d (ir_id rule)) d = Inr (st1, d1)" for now st1 d1
    using after_gap_Inr [OF that] assms(2)
    by (auto simp: held_phase_def rule_phase_prior prior_state_def reset_row_def split: option.splits if_splits)
  have adv: "held_phase (snd (advance env rule op ob d)) (ir_id rule)" for op ob
  proof -
    have "held_phase (snd (step_from env rule op ob now st2 d1)) (ir_id rule)"
      if "after_gap env rule now (prior_state d (ir_id rule)) d = Inr (st1, d1)" "settle_awaiting env rule st1 d1 = Inr st2"
      for now st1 d1 st2
    proof -
      note g = gap [OF that(1)]
      from settle_awaiting_Inr [OF that(2)] g assms(1) have "st2 = st1" by (auto split: if_splits)
      with g assms(1,3) step_keeps [of d1 rule st1 env op ob now] show ?thesis by simp
    qed
    then show ?thesis using assms(2) gap
      by (auto simp: advance_def prior_state_def [symmetric] res_simps split: sum.split option.split)
  qed
  show ?thesis
    using assms(2) adv reset by (auto simp: evaluate_rule_inner_def finish_def split: option.split sum.split)
qed

lemma fired_from:
  assumes "evaluate_rule env rule d = (Inr True, d')" "0 < rule_owned_changes (dn_db d) (ir_id rule) False"
  shows "\<not> held_phase d (ir_id rule)"
proof (rule fired_evaluation [OF assms(1)], goal_cases)
  case (1 op ob now st1 st2 d1)
  from fired_step [OF 1(7)] after_gap_Inr [OF 1(5)] settle_awaiting_Inr [OF 1(6)] assms(2) show ?case
    by (auto simp: held_phase_def rule_phase_prior reset_row_def split: if_splits)
qed

text \<open>C30: a change that a rule owns outlives every quiet sample. While some reroute of the rule may
  have changed a router and is not reversed, a rule that is firing or waits for its revert stays in
  one of these two states whatever an evaluation reads, publishes, or fails at, and no evaluation of
  it is a new firing edge, so that no second activation lands on top of the first. The id that the
  next bundle will get is fresh: no reroute on record names it.\<close>

theorem owned_rule_never_clears:
  assumes "0 < rule_owned_changes (dn_db d) (ir_id rule) False" "rule_phase d (ir_id rule) \<in> {Firing, AwaitingRevert}"
    "\<forall>r \<in> set (db_reroutes (dn_db d)). rr_bundle_id r \<noteq> Some (db_next_bundle (dn_db d))"
    "evaluate_rule env rule d = (r, d')"
  shows "r \<noteq> Inr True \<and> rule_phase d' (ir_id rule) \<in> {Firing, AwaitingRevert}"
proof -
  from assms(2) have h: "held_phase d (ir_id rule)" by (simp add: held_phase_def)
  from fired_from [of env rule d d'] assms(1,4) h have "r \<noteq> Inr True" by auto
  moreover have "held_phase d' (ir_id rule)"
    using evaluate_rule_snd [of env rule d] inner_keeps [OF assms(1) h assms(3), of env] h assms(4) by auto
  ultimately show ?thesis by (simp add: held_phase_def)
qed

subsection \<open>Replayed evidence\<close>

lemma own_evidence_is_old:
  assumes "\<And>t. dt_parse env (dt_show env t) = Some t"
  shows "\<not> evidence_advanced env (Some (evidence_json env ev)) ev"
  using assms by (cases ev) (auto simp: evidence_advanced_def evidence_json_def)

text \<open>The same evidence counts once. If timestamps survive the round trip through their text, an
  observation that made a rule fire is no observation any more: evaluating the rule again
  on it neither fires nor changes anything.\<close>

theorem evidence_counts_once:
  assumes "\<And>t. dt_parse env (dt_show env t) = Some t" "evaluate_rule env rule d = (Inr True, d1)"
  shows "evaluate_rule env rule d1 = (Inr False, d1)"
proof (rule fired_evaluation [OF assms(2)], goal_cases)
  case (1 op ob now st1 st2 d0)
  from fired_step [OF 1(7)] obtain first n where f: "on_fire env rule ob first n d0 = Inr d1" by blast
  have st: "prior_state d1 (ir_id rule) = fired_state env ob first n"
    by (rule on_fire_Inr [OF f]) (simp add: prior_state_def)
  from assms(2) have q: "dt_faults env (QDetection ''lock'') = None" "dt_faults env (QDetection ''unlock'') = None"
    by (auto simp: evaluate_rule_def res_simps split: sum.splits prod.splits)
  from evaluate_rule_Inr [OF assms(2)] 1(1,2) have "advance env rule op ob d = (Inr True, d1)"
    by (simp add: evaluate_rule_inner_def)
  then have s: "dt_faults env (QDetection ''state'') = None"
    by (auto simp: advance_def res_simps split: sum.splits)
  have "advance env rule op ob d1 = (Inr False, d1)"
    using own_evidence_is_old [OF assms(1), of "ob_evidence ob"] st s
    by (simp add: advance_def prior_state_def [symmetric] look_def map_err_def fetch_def fired_state_def)
  with 1(1,2) q show ?case
    by (simp add: evaluate_rule_def evaluate_rule_inner_def look_def map_err_def fetch_def)
qed

subsection \<open>The lifecycle of a rule\<close>

text \<open>The moves that a rule may make; a rule only waits for a revert after it fired.\<close>

inductive phase_step :: "phase \<Rightarrow> phase \<Rightarrow> bool" where
  stay: "phase_step p p"
| match: "phase_step Clear Matching"
| fire: "phase_step Clear Firing"
| fire_matched: "phase_step Matching Firing"
| drop: "phase_step Matching Clear"
| clear: "phase_step Firing Clear"
| await: "phase_step Firing AwaitingRevert"
| relapse: "phase_step AwaitingRevert Firing"
| rematch: "phase_step AwaitingRevert Matching"
| reverted: "phase_step AwaitingRevert Clear"

declare phase_step.intros [simp, intro]

inductive_cases awaiting_stepE: "phase_step p AwaitingRevert"

definition moves :: "interface_rule \<Rightarrow> phase set \<Rightarrow> detection \<Rightarrow> detection \<Rightarrow> bool" where
  "moves rule targets d d' =
     ((rule_phase d' (ir_id rule) \<in> targets \<or> dn_states d' = dn_states d) \<and>
      (\<forall>i. i \<noteq> ir_id rule \<longrightarrow> dn_states d' i = dn_states d i))"

lemma moves_same: "dn_states d' = dn_states d \<Longrightarrow> moves rule ps d d'"
  by (simp add: moves_def)

lemma moves_publish: "ph \<in> ps \<Longrightarrow>
    moves rule ps d (snd (finish d (publish_simple_observation env rule ob ph first n rf rc event d)))"
  by (auto simp: finish_def publish_simple_observation_def look_def map_err_def fetch_def moves_def rule_phase_def
    log_event_def put_state_def Let_def split: sum.splits option.splits)

lemma moves_fire: "on_fire env rule ob first n d = Inr d' \<Longrightarrow> moves rule {Firing} d d'"
  by (erule on_fire_Inr) (simp add: moves_def rule_phase_def fired_state_def)

lemma moves_attempt:
  assumes "publish_recovery_attempt env rule ob d = (r, d1)" "dn_states d (ir_id rule) \<noteq> None"
  shows "moves rule {AwaitingRevert} d d1"
proof -
  have "moves rule {AwaitingRevert} d (snd (submit_recovery_worker env b e))"
    if "recovery_decision env rule ob originals d = Inr e" for originals e b
    using recovery_decision_Inr [OF that] assms(2)
    by (auto simp: moves_def rule_phase_def awaiting_row_def split: option.splits)
  with assms(1) show ?thesis
    by (auto simp: publish_recovery_attempt_def moves_same split: sum.splits if_splits)
qed

lemma moves_trans: "moves rule ps d d1 \<Longrightarrow> moves rule qs d1 d2 \<Longrightarrow> moves rule (ps \<union> qs) d d2"
  by (auto simp: moves_def rule_phase_def)

lemma moves_mono: "moves rule ps d d' \<Longrightarrow> ps \<subseteq> qs \<Longrightarrow> moves rule qs d d'"
  by (auto simp: moves_def)

lemma moves_recover:
  assumes "dn_states d (ir_id rule) \<noteq> None"
  shows "moves rule {Clear, AwaitingRevert} d (snd (recover_and_clear env rule ob d))"
proof -
  let ?ps = "{Clear, AwaitingRevert}"
  obtain r d1 where a: "publish_recovery_attempt env rule ob d = (r, d1)" by force
  note m = moves_attempt [OF a assms]
  have m1: "moves rule ?ps d d1" by (rule moves_mono [OF m]) simp
  have t: "moves rule ?ps d (snd (finish d (publish_simple_observation env rule ob ph None 0 None 0 event d)))"
    if "ph \<in> ?ps" for ph event by (rule moves_publish [OF that])
  have c: "moves rule ?ps d (snd (finish d1 (publish_simple_observation env rule ob Clear None 0 None 0 event d1)))"
    for event
    by (rule moves_mono [OF moves_trans [OF m moves_publish [of Clear "{Clear}"]]]) simp_all
  have same: "moves rule ?ps d d" by (rule moves_same) simp
  have n: "moves rule ?ps d (snd (case publish_recovery_attempt env rule ob d of (Inl e, d1) \<Rightarrow> (Inl e, d1)
      | (Inr False, d1) \<Rightarrow> (Inr False, d1)
      | (Inr True, d1) \<Rightarrow>
          (case look env ''still owned'' (rule_owned_changes (dn_db d1) (ir_id rule) False) of
             Inl e \<Rightarrow> (Inl e, d1)
           | Inr still \<Rightarrow> if 0 < still then (Inr False, d1)
               else finish d1 (publish_simple_observation env rule ob Clear None 0 None 0 (Some ''cleared'') d1))))"
    using m1 c by (auto simp: a split: sum.split bool.split)
  show ?thesis
    unfolding recover_and_clear_def Let_def
    using n t same by (auto split: sum.split bool.split)
qed

lemma moves_awaiting: "moves rule {AwaitingRevert} d (snd (awaiting_step env rule ob d))"
proof (cases "publish_simple_observation env rule ob AwaitingRevert None 0 None 0 None d")
  case (Inr d1)
  have h: "moves rule {AwaitingRevert} d d1"
    using moves_publish [where ph = AwaitingRevert and ps = "{AwaitingRevert}" and rule = rule and d = d and env = env and
      ob = ob and first = None and n = 0 and rf = None and rc = 0 and event = None] by (simp add: finish_def Inr)
  have s: "moves rule {AwaitingRevert} d (snd (submit_recovery_worker env b d1))" for b
    using h by (simp add: moves_def rule_phase_def)
  have "moves rule {AwaitingRevert} d (snd (case submit_recovery_worker env b d1 of (Inl e, d2) \<Rightarrow> (Inl e, d2)
      | (Inr _, d2) \<Rightarrow> (Inr False, d2)))" for b
    using s [of b] by (auto split: prod.split sum.split)
  with h show ?thesis by (auto simp: awaiting_step_def Inr split: sum.split option.split)
qed (simp add: awaiting_step_def moves_same)

text \<open>The step from a state that the gap or an empty wait may have changed.\<close>

definition targets :: "phase \<Rightarrow> phase set" where
  "targets p =
     (case p of
        Clear \<Rightarrow> {Clear, Matching, Firing} | Matching \<Rightarrow> {Clear, Matching, Firing}
      | Firing \<Rightarrow> {Firing, Clear, AwaitingRevert} | AwaitingRevert \<Rightarrow> {AwaitingRevert, Firing})"

lemma moves_step:
  assumes "st_phase st = Firing \<longrightarrow> dn_states d (ir_id rule) \<noteq> None"
  shows "moves rule (targets (st_phase st)) d (snd (step_from env rule op ob now st d))"
proof -
  have p: "moves rule ps d (snd (finish d (publish_simple_observation env rule ob ph first n rf rc event d)))"
    if "ph \<in> ps" for ph ps first n rf rc event by (rule moves_publish [OF that])
  have f: "moves rule ps d d'" if "on_fire env rule ob first n d = Inr d'" "Firing \<in> ps" for first n d' ps
    by (rule moves_mono [OF moves_fire [OF that(1)]]) (use that(2) in simp)
  have s: "moves rule ps d d" for ps by (rule moves_same) simp
  have m: "moves rule (targets (st_phase st)) d (snd (matched_step env rule ob now st d))"
    using p f s by (cases "st_phase st") (auto simp: matched_step_def Let_def targets_def split: sum.split)
  have fr: "moves rule {Firing, Clear, AwaitingRevert} d (snd (firing_step env rule op ob now st d))"
    if "st_phase st = Firing"
    using p moves_mono [OF moves_recover [of d rule env ob]] assms that by (auto simp: firing_step_def Let_def)
  have aw: "moves rule {AwaitingRevert, Firing} d (snd (awaiting_step env rule ob d))"
    by (rule moves_mono [OF moves_awaiting]) simp
  from m fr aw p show ?thesis
    by (cases "st_phase st") (auto simp: step_from_def targets_def)
qed

text \<open>A rule walks its lifecycle. Whatever an evaluation reads or fails at, the phase of
  its rule makes one of the documented moves or stays; in particular a rule waits for a revert only
  after it fired, and no other rule's state is touched.\<close>

theorem evaluation_refines_lifecycle:
  "phase_step (rule_phase d (ir_id rule)) (rule_phase (snd (evaluate_rule env rule d)) (ir_id rule)) \<and>
   (\<forall>i. i \<noteq> ir_id rule \<longrightarrow> dn_states (snd (evaluate_rule env rule d)) i = dn_states d i)"
proof -
  let ?ok = "\<lambda>d'. phase_step (rule_phase d (ir_id rule)) (rule_phase d' (ir_id rule)) \<and>
    (\<forall>i. i \<noteq> ir_id rule \<longrightarrow> dn_states d' i = dn_states d i)"
  have same: "?ok d" by simp
  have reset: "?ok d'" if "reset_unproven_streak env (ir_id rule) d = Inr d'" for d'
  proof -
    from that have p: "rule_phase d' (ir_id rule) =
        (if rule_phase d (ir_id rule) = Matching then Clear else rule_phase d (ir_id rule))"
      by (auto simp: reset_unproven_streak_def res_simps rule_phase_def reset_row_def split: option.split)
    have "\<forall>i. i \<noteq> ir_id rule \<longrightarrow> dn_states d' i = dn_states d i"
      using that by (auto simp: reset_unproven_streak_def res_simps)
    with p show ?thesis by simp
  qed
  have adv: "?ok (snd (advance env rule op ob d))" for op ob
  proof -
    have step: "?ok d1 \<and> (settle_awaiting env rule st1 d1 = Inr st2 \<longrightarrow> ?ok (snd (step_from env rule op ob now st2 d1)))"
      if "after_gap env rule now (prior_state d (ir_id rule)) d = Inr (st1, d1)" for now st1 d1 st2
    proof -
      note g = after_gap_Inr [OF that]
      have p1: "rule_phase d1 (ir_id rule) = st_phase st1"
        using g by (auto simp: rule_phase_def prior_state_def no_state_def reset_row_def split: option.splits if_splits)
      have p0: "st_phase st1 = (if rule_phase d (ir_id rule) = Matching then Clear else rule_phase d (ir_id rule)) \<or>
          st_phase st1 = rule_phase d (ir_id rule)"
        using g by (auto simp: rule_phase_prior reset_row_def split: if_splits)
      have o1: "?ok d1 \<and> rule_phase d1 (ir_id rule) = st_phase st1"
        using g p0 p1 by (auto split: if_splits)
      have "?ok (snd (step_from env rule op ob now st2 d1))" if st2: "settle_awaiting env rule st1 d1 = Inr st2"
      proof -
        note sa = settle_awaiting_Inr [OF st2]
        have "st_phase st2 = Firing \<longrightarrow> dn_states d1 (ir_id rule) \<noteq> None"
          using sa o1 by (auto simp: rule_phase_def split: if_splits option.splits)
        note m = moves_step [OF this, of env op ob now]
        have others: "\<forall>i. i \<noteq> ir_id rule \<longrightarrow> dn_states (snd (step_from env rule op ob now st2 d1)) i = dn_states d i"
          using m o1 by (auto simp: moves_def)
        have ph: "rule_phase (snd (step_from env rule op ob now st2 d1)) (ir_id rule) \<in> targets (st_phase st2) \<union> {st_phase st1}"
          using m o1 by (auto simp: moves_def rule_phase_def)
        have "st_phase st2 = st_phase st1 \<or> st_phase st1 = AwaitingRevert \<and> st_phase st2 = Clear"
          using sa by (auto split: if_splits)
        with ph p0 have "phase_step (rule_phase d (ir_id rule)) (rule_phase (snd (step_from env rule op ob now st2 d1)) (ir_id rule))"
          by (cases "rule_phase d (ir_id rule)"; cases "st_phase st1") (auto simp: targets_def)
        with others show ?thesis by blast
      qed
      with o1 show ?thesis by blast
    qed
    show ?thesis using same step
      by (auto simp: advance_def prior_state_def [symmetric] res_simps split: sum.split option.split)
  qed
  have "?ok (snd (evaluate_rule_inner env rule d))"
    using same adv reset by (auto simp: evaluate_rule_inner_def finish_def split: option.split sum.split)
  with same evaluate_rule_snd [of env rule d] show ?thesis by auto
qed

subsection \<open>Recovery without enforcement\<close>

lemma unconsented_recovery:
  assumes "\<not> operating_mode (dt_faults env) ''recover'' (dt_enforce env) (dn_db d)" "ir_automatic_revert rule"
    "\<not> is_flow_metric (ir_metric rule)" "rule_owned_changes (dn_db d) (ir_id rule) False = 0"
  shows "snd (recover_and_clear env rule ob d) = d"
proof -
  have "snd (publish_recovery_attempt env rule ob d) = d \<and> fst (publish_recovery_attempt env rule ob d) \<noteq> Inr True"
    using assms(1) by (simp add: publish_recovery_attempt_def recovery_consent_def split: sum.split)
  then obtain r where a: "publish_recovery_attempt env rule ob d = (r, d)" "r \<noteq> Inr True"
    by (metis prod.collapse)
  then show ?thesis using assms(2-4)
    by (auto simp: recover_and_clear_def Let_def res_simps split: sum.split bool.split)
qed

lemma firing_kept:
  "rule_phase d (ir_id rule) = Firing \<Longrightarrow>
   rule_phase (snd (finish d (publish_simple_observation env rule ob Firing first n rf rc event d))) (ir_id rule) = Firing"
  using moves_publish [where ph = Firing and ps = "{Firing}" and rule = rule and d = d and env = env and ob = ob and
      first = first and n = n and rf = rf and rc = rc and event = event]
  by (auto simp: moves_def rule_phase_def)

text \<open>In observe mode a rule that may revert on its own never ends. If automatic reverts are allowed
  and enforcement is off, a firing rule over an interface metric stays firing through every evaluation,
  although it owns no change of a router: its recovery is neither published nor are its quiet samples
  counted, so the next rising edge raises no alert.\<close>

theorem observed_rule_never_recovers:
  assumes "\<not> operating_mode (dt_faults env) ''recover'' (dt_enforce env) (dn_db d)" "ir_automatic_revert rule"
    "\<not> is_flow_metric (ir_metric rule)" "rule_owned_changes (dn_db d) (ir_id rule) False = 0"
    "rule_phase d (ir_id rule) = Firing" "evaluate_rule env rule d = (r, d')"
  shows "rule_phase d' (ir_id rule) = Firing \<and> r \<noteq> Inr True"
proof -
  have reset: "rule_phase d1 (ir_id rule) = Firing" if "reset_unproven_streak env (ir_id rule) d = Inr d1" for d1
    using that assms(5)
    by (auto simp: reset_unproven_streak_def res_simps rule_phase_def reset_row_def split: option.splits)
  have step: "rule_phase (snd (step_from env rule op ob now st2 d1)) (ir_id rule) = Firing \<and> rule_phase d1 (ir_id rule) = Firing"
    if "after_gap env rule now (prior_state d (ir_id rule)) d = Inr (st1, d1)" "settle_awaiting env rule st1 d1 = Inr st2"
    for now st1 d1 st2 op ob
  proof -
    note g = after_gap_Inr [OF that(1)]
    have p: "rule_phase d1 (ir_id rule) = Firing" "st_phase st1 = Firing" "dn_db d1 = dn_db d"
      using g assms(5) by (auto simp: rule_phase_def prior_state_def reset_row_def split: option.splits if_splits)
    have "st2 = st1" using settle_awaiting_Inr [OF that(2)] p(2) by simp
    moreover have "snd (recover_and_clear env rule ob d1) = d1" by (rule unconsented_recovery) (use assms p in simp_all)
    ultimately show ?thesis using p firing_kept [OF p(1)]
      by (simp add: step_from_def matched_step_def firing_step_def Let_def)
  qed
  have gap: "rule_phase d1 (ir_id rule) = Firing" if "after_gap env rule now (prior_state d (ir_id rule)) d = Inr (st1, d1)"
    for now st1 d1
    using after_gap_Inr [OF that] assms(5) by (auto simp: rule_phase_def reset_row_def split: option.splits if_splits)
  have adv: "rule_phase (snd (advance env rule op ob d)) (ir_id rule) = Firing" for op ob
    using assms(5) step gap
    by (auto simp: advance_def prior_state_def [symmetric] res_simps split: sum.split option.split)
  have "rule_phase (snd (evaluate_rule_inner env rule d)) (ir_id rule) = Firing"
    using assms(5) adv reset by (auto simp: evaluate_rule_inner_def finish_def split: option.split sum.split)
  with assms(5,6) evaluate_rule_snd [of env rule d] have ph: "rule_phase d' (ir_id rule) = Firing" by auto
  have "r \<noteq> Inr True"
  proof
    assume "r = Inr True"
    with assms(6) have "evaluate_rule env rule d = (Inr True, d')" by simp
    then show False
    proof (rule fired_evaluation, goal_cases)
      case (1 op ob now st1 st2 d1)
      from fired_step [OF 1(7)] after_gap_Inr [OF 1(5)] settle_awaiting_Inr [OF 1(6)] assms(5) show ?case
        by (auto simp: rule_phase_prior reset_row_def split: if_splits)
    qed
  qed
  with ph show ?thesis by simp
qed

subsection \<open>A whole pass\<close>

lemma evaluate_each_fold:
  "evaluate_each env rules d = (n, failed, d') \<Longrightarrow>
   d' = fold (\<lambda>rule d. snd (evaluate_rule (env (ir_id rule)) rule d)) rules d \<and> n + length failed \<le> length rules \<and>
   set failed \<subseteq> ir_id ` set rules"
proof (induction rules arbitrary: d n failed d')
  case (Cons rule rules)
  obtain r d1 where e: "evaluate_rule (env (ir_id rule)) rule d = (r, d1)" by force
  obtain n1 f1 d2 where s: "evaluate_each env rules d1 = (n1, f1, d2)" by (metis prod.collapse)
  from Cons.IH [OF s] Cons.prems e s show ?case by (auto split: sum.splits if_splits)
qed simp

lemma insort_stable:
  "sorted_wrt (\<lambda>a b. f a < f b \<or> f a = f b \<and> Q a b) ys \<Longrightarrow> \<forall>y \<in> set ys. Q x y \<Longrightarrow>
   sorted_wrt (\<lambda>a b. f a < (f b :: 'b::linorder) \<or> f a = f b \<and> Q a b) (insort_key f x ys)"
  by (induction ys) (auto simp: set_insort_key)

lemma sort_stable:
  "sorted_wrt Q xs \<Longrightarrow> sorted_wrt (\<lambda>a b. f a < (f b :: 'b::linorder) \<or> f a = f b \<and> Q a b) (sort_key f xs)"
  by (induction xs) (auto intro: insort_stable)

lemma by_priority_sorted:
  "sorted_wrt (\<lambda>a b. severity_rank a < severity_rank b \<or> severity_rank a = severity_rank b \<and> ir_id a \<le> ir_id b)
     (by_priority rules)"
proof -
  have "sorted (map ir_id (sort_key ir_id rules))" by simp
  then have "sorted_wrt (\<lambda>a b. ir_id a \<le> ir_id b) (sort_key ir_id rules)" by (simp add: sorted_wrt_map)
  from sort_stable [OF this] show ?thesis unfolding by_priority_def .
qed

lemma length_enabled:
  "length (enabled_rules d p) = length (filter (\<lambda>(enabled, r). enabled \<and> p r) (dn_rules d))"
proof -
  have "length (filter p (map snd (filter fst xs))) = length (filter (\<lambda>(enabled, r). enabled \<and> p r) xs)" for xs
    by (induction xs) auto
  then show ?thesis by (simp add: enabled_rules_def)
qed

text \<open>One bad rule stops no other. A pass over the rules of a device evaluates each enabled
  single-interface rule of the device exactly once, the more severe first and the older first among
  equals, each in the state that the ones before it left, whether they succeeded or failed; it
  fails only if its rules cannot be read.\<close>

theorem pass_evaluates_every_rule:
  assumes "evaluate_device env f device d = (r, d')" "f (QDetection ''rules'') = None"
  shows "\<exists>rules. length rules = length (filter (\<lambda>(enabled, r). enabled \<and> ir_aggregation r = ''single'' \<and>
      ir_interface_id r \<noteq> None \<and> ir_device_id r = Some device) (dn_rules d)) \<and>
    set rules = {r. (True, r) \<in> set (dn_rules d) \<and> ir_aggregation r = ''single'' \<and> ir_interface_id r \<noteq> None \<and>
      ir_device_id r = Some device} \<and>
    sorted_wrt (\<lambda>a b. severity_rank a < severity_rank b \<or> severity_rank a = severity_rank b \<and> ir_id a \<le> ir_id b) rules \<and>
    d' = fold (\<lambda>rule d. snd (evaluate_rule (env (ir_id rule)) rule d)) rules d \<and>
    (\<exists>n \<le> length rules. r = Inr n)"
proof -
  define rules where "rules = by_priority (enabled_rules d (\<lambda>r. ir_aggregation r = ''single'' \<and>
    ir_interface_id r \<noteq> None \<and> ir_device_id r = Some device))"
  obtain n failed d2 where e: "evaluate_each env rules d = (n, failed, d2)" by (metis prod.collapse)
  have "evaluate_device env f device d = (Inr n, d2)"
    using e assms(2) unfolding rules_def by (simp add: evaluate_device_def skip_failures_def fetch_def)
  with assms(1) have r: "r = Inr n" "d' = d2" by simp_all
  have "length rules \<ge> n" "d' = fold (\<lambda>rule d. snd (evaluate_rule (env (ir_id rule)) rule d)) rules d"
    using evaluate_each_fold [OF e] r by auto
  moreover have "length rules = length (filter (\<lambda>(enabled, r). enabled \<and> ir_aggregation r = ''single'' \<and>
      ir_interface_id r \<noteq> None \<and> ir_device_id r = Some device) (dn_rules d))"
    by (simp add: rules_def by_priority_def length_enabled)
  moreover have "set rules = {r. (True, r) \<in> set (dn_rules d) \<and> ir_aggregation r = ''single'' \<and>
      ir_interface_id r \<noteq> None \<and> ir_device_id r = Some device}"
    by (force simp: rules_def by_priority_def enabled_rules_def)
  ultimately show ?thesis
    using r by (intro exI [of _ rules] conjI) (simp_all add: rules_def by_priority_sorted)
qed

section \<open>A rule that fires\<close>

definition show_time :: "int \<Rightarrow> string" where
  "show_time t = (if t < 0 then CHR ''-'' # show_nat (nat (- t)) else show_nat (nat t))"

definition parse_time :: "string \<Rightarrow> int option" where
  "parse_time s =
     (case s of
        [] \<Rightarrow> None
      | c # r \<Rightarrow> if c = CHR ''-'' then map_option (\<lambda>n. - int n) (digits_value 0 r)
                 else map_option int (digits_value 0 s))"

lemma parse_show_time: "parse_time (show_time t) = Some t"
proof (cases "t < 0")
  case False
  obtain c cs where c: "show_nat (nat t) = c # cs" by (cases "show_nat (nat t)") simp_all
  have "\<not> is_digit CHR ''-''" by code_simp
  with show_nat_Cons [OF c] have "c \<noteq> CHR ''-''" by auto
  with False c digits_value_show_nat [of "nat t"] show ?thesis
    by (simp add: parse_time_def show_time_def del: digits_value.simps)
qed (simp add: parse_time_def show_time_def digits_value_show_nat)

definition storm_row :: metrics_row where
  "storm_row = \<lparr>mt_interface = 5, mt_sampled_at = Some (990 * NANOS), mt_valid = True, mt_rx_bps = Finite 500,
     mt_tx_bps = Finite 0, mt_rx_pps = Finite 0, mt_tx_pps = Finite 0, mt_rx_util = Finite 0, mt_tx_util = Finite 0,
     mt_in_err = Finite 0, mt_out_err = Finite 0, mt_oper_status = None, mt_in_err_valid = False,
     mt_out_err_valid = False, mt_oper_valid = False\<rparr>"

definition storm_telemetry :: telemetry where
  "storm_telemetry = \<lparr>tl_metrics = [storm_row], tl_rule_interfaces = [], tl_interfaces = [], tl_buckets = [],
     tl_port_buckets = [], tl_quality = [], tl_members = [], tl_exporters = [], tl_registry_ready = True\<rparr>"

definition storm_rule :: interface_rule where
  "storm_rule = \<lparr>ir_id = 9, ir_actions_revision = 1, ir_name = ''storm'', ir_interface_id = Some 5, ir_device_id = Some 7,
     ir_metric = ''rx_bps'', ir_aggregation = ''single'', ir_flow_direction = None, ir_flow_protocol = None,
     ir_flow_port = None, ir_flow_port_kind = None, ir_operator = ''>'', ir_threshold = Finite 100, ir_duration = 0,
     ir_consecutive = 1, ir_recovery_mode = ''auto'', ir_recovery_threshold = None, ir_recovery_window = None,
     ir_recovery_consecutive = None, ir_severity = ''critical'', ir_automatic_reroute = True,
     ir_automatic_revert = True\<rparr>"

definition storm_env :: "telemetry \<Rightarrow> detector" where
  "storm_env tm = \<lparr>dt_faults = no_faults, dt_clock = (\<lambda>_. 100), dt_now = 1000 * NANOS, dt_telemetry = tm,
     dt_flow = \<lparr>fc_stale_after = 60, fc_bucket_seconds = 30, fc_min_ratio = Finite 0, fc_max_ratio = Finite 2,
       fc_automatic_actions = False, fc_allowlist_only = False\<rparr>,
     dt_config = sample_config, dt_enforce = False, dt_fail_before_commit = False, dt_same = (=), dt_token = ''t'',
     dt_show = show_time, dt_parse = parse_time, dt_accepts = True, dt_plans = []\<rparr>"

definition storm_detection :: "database \<Rightarrow> phase \<Rightarrow> detection" where
  "storm_detection db ph =
     \<lparr>dn_rules = [(True, storm_rule)],
      dn_actions = [\<lparr>ra_id = 1, ra_rule = 9, ra_template = 4, ra_device = 7, ra_params = None, ra_auto_target = None,
        ra_position = 0, ra_enabled = True\<rparr>],
      dn_states = [9 \<mapsto> no_state\<lparr>st_phase := ph\<rparr>], dn_events = [], dn_db = db\<rparr>"

lemmas storm_world = storm_env_def storm_detection_def storm_rule_def storm_telemetry_def storm_row_def

lemma storm_reading:
  "interface_observation no_faults (dt_flow (storm_env storm_telemetry)) storm_telemetry (1000 * NANOS) storm_rule =
     Inr (Some \<lparr>ob_value = Finite 500, ob_sampled_at = Some (990 * NANOS), ob_low_confidence = False,
       ob_corroborated = True, ob_evidence = [(5, 990 * NANOS)]\<rparr>)"
  by code_simp

definition storm :: observation where
  "storm = \<lparr>ob_value = Finite 500, ob_sampled_at = Some (990 * NANOS), ob_low_confidence = False,
     ob_corroborated = True, ob_evidence = [(5, 990 * NANOS)]\<rparr>"

lemma storm_observed:
  "observe (dt_faults (storm_env storm_telemetry)) (dt_flow (storm_env storm_telemetry))
     (dt_telemetry (storm_env storm_telemetry)) (dt_now (storm_env storm_telemetry)) storm_rule = Inr (Some storm)"
  using storm_reading by (simp add: observe_def storm_def storm_env_def storm_rule_def is_flow_metric_def)

lemma storm_advances:
  "advance (storm_env storm_telemetry) storm_rule Gt storm (storm_detection db Clear) =
     (case on_fire (storm_env storm_telemetry) storm_rule storm (990 * NANOS) 1 (storm_detection db Clear) of
        Inl e \<Rightarrow> (Inl e, storm_detection db Clear) | Inr d' \<Rightarrow> (Inr True, d'))"
  by (simp add: advance_def storm_world storm_def no_state_def look_def map_err_def evidence_advanced_def after_gap_def
    too_old_def settle_awaiting_def step_from_def matched_step_def persistence_satisfied_def sat_inc_def Let_def cong: sum.case_cong)

lemma storm_on_fire:
  assumes "setting db ''operating_mode'' = Some ''enforce''" "setting db ''automatic_actions_enabled'' = Some ''true''"
  shows "\<exists>d'. on_fire (storm_env storm_telemetry) storm_rule storm (990 * NANOS) 1 (storm_detection db Clear) = Inr d' \<and>
    db_next_bundle (dn_db d') = db_next_bundle db + 1"
  using assms
  by (simp add: on_fire_def auto_decision_def flow_auto_gate_def is_flow_metric_def should_auto_execute_def storm_world
    storm_def operating_mode_def bool_setting_def look_def map_err_def automatic_inputs_def ensure_def firing_decision_def
    insert_bundle_def record_alert_def log_event_def put_state_def submit_automatic_worker_def Let_def)

lemma storm_fires:
  "\<exists>d'. evaluate_rule (storm_env storm_telemetry) storm_rule (storm_detection due_database Clear) = (Inr True, d') \<and>
     db_next_bundle (dn_db d') = 3"
proof -
  from storm_on_fire [of due_database] obtain d' where
    d': "on_fire (storm_env storm_telemetry) storm_rule storm (990 * NANOS) 1 (storm_detection due_database Clear) = Inr d'"
    "db_next_bundle (dn_db d') = 3" by (auto simp: due_database_def setting_def)
  have "evaluate_rule_inner (storm_env storm_telemetry) storm_rule (storm_detection due_database Clear) = (Inr True, d')"
    unfolding evaluate_rule_inner_def storm_observed
    using storm_advances [of due_database] d'(1) by (simp add: storm_rule_def op_parse_def)
  moreover have "look (storm_env storm_telemetry) q v = Inr v" for q and v :: unit
    by (simp add: look_def map_err_def storm_env_def)
  ultimately show ?thesis using d'(2) by (simp add: evaluate_rule_def)
qed

lemma storm_parses: "dt_parse (storm_env tm) (dt_show (storm_env tm) t) = Some t"
  by (simp add: storm_env_def parse_show_time)

theorem activation_needs_consent_witness:
  "operating_mode no_faults ''fire'' False due_database \<and>
   bool_setting no_faults due_database ''automatic_actions_enabled'' (cf_automatic_enabled sample_config) \<and>
   ir_automatic_reroute storm_rule"
proof -
  from storm_fires obtain d' where
    e: "evaluate_rule (storm_env storm_telemetry) storm_rule (storm_detection due_database Clear) = (Inr True, d')"
    and n: "db_next_bundle (dn_db d') = 3" by blast
  have "dn_db d' \<noteq> record_alert ''rule_fired'' (ir_severity storm_rule) (ir_device_id storm_rule) (fired_key storm_rule)
      (dn_db (storm_detection due_database Clear))"
  proof
    assume "dn_db d' = record_alert ''rule_fired'' (ir_severity storm_rule) (ir_device_id storm_rule)
      (fired_key storm_rule) (dn_db (storm_detection due_database Clear))"
    from arg_cong [where f = db_next_bundle, OF this] n show False
      by (simp add: record_alert_def storm_detection_def due_world)
  qed
  note a = activation_needs_consent [OF e this]
  have world: "dt_faults (storm_env tm) = no_faults" "dt_enforce (storm_env tm) = False" "dt_config (storm_env tm) = sample_config"
    "dn_db (storm_detection db ph) = db" for tm db ph by (simp_all add: storm_env_def storm_detection_def)
  from a [THEN conjunct1] a [THEN conjunct2, THEN conjunct1] a [THEN conjunct2, THEN conjunct2, THEN conjunct1]
  show ?thesis by (simp only: world simp_thms)
qed

theorem firing_is_earned_witness:
  "\<exists>d'. evaluate_rule (storm_env storm_telemetry) storm_rule (storm_detection due_database Clear) = (Inr True, d') \<and>
     rule_phase d' 9 = Firing \<and> map ev_event (dn_events d') = [''fired'']"
proof -
  from storm_fires obtain d' where
    e: "evaluate_rule (storm_env storm_telemetry) storm_rule (storm_detection due_database Clear) = (Inr True, d')" by blast
  from firing_is_earned [OF e] obtain ob first n now where
    s: "dn_states d' (ir_id storm_rule) = Some (fired_state (storm_env storm_telemetry) ob first n)"
    "dn_events d' = dn_events (storm_detection due_database Clear) @ [\<lparr>ev_rule = ir_id storm_rule, ev_event = ''fired'',
       ev_value = ob_value ob, ev_sampled_at = Some now\<rparr>]" by (elim exE conjE) (rule that, assumption+)
  have "ir_id storm_rule = 9" "dn_events (storm_detection due_database Clear) = []"
    by (simp_all add: storm_rule_def storm_detection_def)
  with s have "rule_phase d' 9 = Firing \<and> map ev_event (dn_events d') = [''fired'']"
    by (simp add: rule_phase_def fired_state_def)
  with e show ?thesis by (intro exI conjI) (assumption | elim conjE)+
qed

theorem evidence_counts_once_witness:
  "\<exists>d1. evaluate_rule (storm_env storm_telemetry) storm_rule (storm_detection due_database Clear) = (Inr True, d1) \<and>
     evaluate_rule (storm_env storm_telemetry) storm_rule d1 = (Inr False, d1)"
proof -
  from storm_fires obtain d1 where
    e: "evaluate_rule (storm_env storm_telemetry) storm_rule (storm_detection due_database Clear) = (Inr True, d1)" by blast
  from evidence_counts_once [OF storm_parses e] e show ?thesis by blast
qed

definition calm_telemetry :: telemetry where
  "calm_telemetry = storm_telemetry\<lparr>tl_metrics := []\<rparr>"

theorem silence_changes_nothing_witness:
  "dn_db (snd (evaluate_rule (storm_env calm_telemetry) storm_rule (storm_detection due_database Matching))) = due_database"
proof -
  have "observe (dt_faults (storm_env calm_telemetry)) (dt_flow (storm_env calm_telemetry))
     (dt_telemetry (storm_env calm_telemetry)) (dt_now (storm_env calm_telemetry)) storm_rule = Inr None"
    by (simp add: observe_def interface_observation_def metrics_of_def sample_of_def calm_telemetry_def storm_world
      is_flow_metric_def)
  then have c: "case observe (dt_faults (storm_env calm_telemetry)) (dt_flow (storm_env calm_telemetry))
     (dt_telemetry (storm_env calm_telemetry)) (dt_now (storm_env calm_telemetry)) storm_rule of
      Inr (Some ob) \<Rightarrow> \<not> evidence_advanced (storm_env calm_telemetry)
        (st_evidence (prior_state (storm_detection due_database Matching) (ir_id storm_rule))) (ob_evidence ob)
    | _ \<Rightarrow> True" by simp
  from silence_changes_nothing [OF c prod.collapse [symmetric]]
  show ?thesis by (simp add: storm_detection_def)
qed

definition owned_database :: database where
  "owned_database = due_database\<lparr>db_reroutes := [changed_row\<lparr>rr_rule_id := Some 9\<rparr>]\<rparr>"

theorem owned_rule_never_clears_witness:
  "rule_phase (snd (evaluate_rule (storm_env calm_telemetry) storm_rule (storm_detection owned_database AwaitingRevert))) 9
     \<in> {Firing, AwaitingRevert}"
proof -
  let ?d = "storm_detection owned_database AwaitingRevert"
  have o: "0 < rule_owned_changes (dn_db ?d) (ir_id storm_rule) False"
    by (simp add: storm_detection_def storm_rule_def owned_database_def rule_owned_changes_def count_def changed_row_def
      reversed_def planned_row_def)
  have p: "rule_phase ?d (ir_id storm_rule) \<in> {Firing, AwaitingRevert}"
    by (simp add: storm_detection_def storm_rule_def rule_phase_def)
  have f: "\<forall>r \<in> set (db_reroutes (dn_db ?d)). rr_bundle_id r \<noteq> Some (db_next_bundle (dn_db ?d))"
    by (simp add: storm_detection_def owned_database_def due_world)
  from owned_rule_never_clears [OF o p f prod.collapse [symmetric], of "storm_env calm_telemetry"]
  show ?thesis by (simp add: storm_rule_def)
qed

definition observed_database :: database where
  "observed_database = due_database\<lparr>db_settings := []\<rparr>"

theorem observed_rule_never_recovers_witness:
  "rule_phase (snd (evaluate_rule (storm_env storm_telemetry) (storm_rule\<lparr>ir_threshold := Finite 900\<rparr>)
     (storm_detection observed_database Firing))) 9 = Firing"
proof -
  let ?d = "storm_detection observed_database Firing" and ?rule = "storm_rule\<lparr>ir_threshold := Finite 900\<rparr>"
  have m: "\<not> operating_mode (dt_faults (storm_env storm_telemetry)) ''recover'' (dt_enforce (storm_env storm_telemetry)) (dn_db ?d)"
    by (simp add: operating_mode_def storm_env_def storm_detection_def observed_database_def setting_def)
  have r: "ir_automatic_revert ?rule" "\<not> is_flow_metric (ir_metric ?rule)" "ir_id ?rule = 9"
    by (simp_all add: storm_rule_def is_flow_metric_def)
  have o: "rule_owned_changes (dn_db ?d) (ir_id ?rule) False = 0"
    by (simp add: storm_detection_def storm_rule_def observed_database_def rule_owned_changes_def count_def due_world)
  have p: "rule_phase ?d (ir_id ?rule) = Firing" by (simp add: storm_detection_def storm_rule_def rule_phase_def)
  from observed_rule_never_recovers [OF m r(1,2) o p prod.collapse [symmetric]] r(3) show ?thesis by metis
qed

theorem pass_evaluates_every_rule_witness:
  "\<exists>n \<le> 1. fst (evaluate_device (\<lambda>_. storm_env storm_telemetry) no_faults 7 (storm_detection due_database Clear)) = Inr n"
proof -
  have q: "no_faults (QDetection ''rules'') = None" by (simp add: no_faults_def)
  obtain r d' where e: "evaluate_device (\<lambda>_. storm_env storm_telemetry) no_faults 7 (storm_detection due_database Clear) = (r, d')"
    by force
  from pass_evaluates_every_rule [OF e q] obtain rules :: "interface_rule list" and n where
    l: "length rules = length (filter (\<lambda>(enabled, r). enabled \<and> ir_aggregation r = ''single'' \<and>
      ir_interface_id r \<noteq> None \<and> ir_device_id r = Some 7) (dn_rules (storm_detection due_database Clear)))"
      "n \<le> length rules" "r = Inr n" by (elim exE conjE) (rule that, assumption+)
  have "length rules \<le> 1" unfolding l(1) by (simp add: storm_detection_def)
  with l(2) have "n \<le> 1" by (rule le_trans)
  moreover have "fst (evaluate_device (\<lambda>_. storm_env storm_telemetry) no_faults 7 (storm_detection due_database Clear)) = Inr n"
    unfolding e l(3) by (rule fst_conv)
  ultimately show ?thesis by blast
qed

end
