(* ===== verification/Wake.thy ===== *)
theory Wake
  imports Prelude
begin

text \<open>
  The wake queue between the flow collector and the detection engine
  (\<open>src/backend-rust/src/detection/wake.rs\<close>): the dirty interfaces, coalesced and bounded,
  the batch that is being evaluated, and the permit of the \<open>Notify\<close>. The \<open>BTreeSet\<close> is
  its ascending list of members. Every method body that holds the mutex is one step; the check
  and the sleep of \<open>wait_and_take\<close> are two, and other tasks run between them.
\<close>

definition MAX_DIRTY_INTERFACES :: nat where
  "MAX_DIRTY_INTERFACES = 4096"

record flow_wake_batch =
  wb_interface_ids :: "u64 list"
  wb_full_rescan :: bool

record wake_state =
  wk_pending :: "u64 list"
  wk_full_rescan :: bool
  wk_in_flight :: "flow_wake_batch option"

record wake_queue = wake_state +
  wk_permit :: bool

definition empty_queue :: wake_queue where
  "empty_queue = \<lparr>wk_pending = [], wk_full_rescan = False, wk_in_flight = None, wk_permit = False\<rparr>"

subsection \<open>The methods\<close>

definition set_insert :: "u64 \<Rightarrow> u64 list \<Rightarrow> u64 list" where
  "set_insert i xs = (if i \<in> set xs then xs else insort i xs)"

definition mark_one :: "u64 \<Rightarrow> wake_queue \<Rightarrow> wake_queue" where
  "mark_one i q =
     (if length (wk_pending q) < MAX_DIRTY_INTERFACES \<or> i \<in> set (wk_pending q)
      then q\<lparr>wk_pending := set_insert i (wk_pending q)\<rparr>
      else q\<lparr>wk_full_rescan := True\<rparr>)"

definition has_work :: "wake_queue \<Rightarrow> bool" where
  "has_work q = (wk_full_rescan q \<or> wk_pending q \<noteq> [])"

definition notify_if :: "bool \<Rightarrow> wake_queue \<Rightarrow> wake_queue" where
  "notify_if c q = (if c then q\<lparr>wk_permit := True\<rparr> else q)"

definition mark_interfaces :: "u64 list \<Rightarrow> wake_queue \<Rightarrow> wake_queue" where
  "mark_interfaces ids q = (let q' = fold mark_one ids q in notify_if (has_work q') q')"

text \<open>One pass of the loop of \<open>wait_and_take\<close> under the mutex: a batch, or nothing to do.\<close>

definition try_take :: "wake_queue \<Rightarrow> flow_wake_batch option \<times> wake_queue" where
  "try_take q =
     (case wk_in_flight q of
        Some b \<Rightarrow> (Some b, q)
      | None \<Rightarrow>
          if has_work q
          then let b = \<lparr>wb_interface_ids = wk_pending q, wb_full_rescan = wk_full_rescan q\<rparr>
               in (Some b, q\<lparr>wk_pending := [], wk_full_rescan := False, wk_in_flight := Some b\<rparr>)
          else (None, q))"

definition retire :: "flow_wake_batch \<Rightarrow> wake_queue \<Rightarrow> wake_queue" where
  "retire b q = (if wk_in_flight q = Some b then q\<lparr>wk_in_flight := None\<rparr> else q)"

definition complete_success :: "flow_wake_batch \<Rightarrow> wake_queue \<Rightarrow> wake_queue" where
  "complete_success b q = (let q' = retire b q in notify_if (has_work q') q')"

definition complete_failure :: "flow_wake_batch \<Rightarrow> wake_queue \<Rightarrow> wake_queue" where
  "complete_failure b q =
     (let q1 = retire b q; q2 = q1\<lparr>wk_full_rescan := wk_full_rescan q1 \<or> wb_full_rescan b\<rparr>
      in notify_if True (fold mark_one (wb_interface_ids b) q2))"

text \<open>The loop, as one run of the consumer with nobody else at work: with no permit it sleeps.\<close>

partial_function (option) wait_and_take :: "wake_queue \<Rightarrow> (flow_wake_batch \<times> wake_queue) option" where
  "wait_and_take q =
     (case try_take q of
        (Some b, q') \<Rightarrow> Some (b, q')
      | (None, q') \<Rightarrow> if wk_permit q' then wait_and_take (q'\<lparr>wk_permit := False\<rparr>) else None)"

subsection \<open>Producers and the consumer\<close>

datatype consumer = Checking | Sleeping | Working flow_wake_batch

text \<open>\<open>sy_owed\<close> and \<open>sy_taken\<close> are ghosts: the interfaces marked since the last batch was
  taken, and those the batch in flight answers for.\<close>

record wake_system =
  sy_queue :: wake_queue
  sy_consumer :: consumer
  sy_owed :: "u64 set"
  sy_taken :: "u64 set"

definition wake_start :: wake_system where
  "wake_start = \<lparr>sy_queue = empty_queue, sy_consumer = Checking, sy_owed = {}, sy_taken = {}\<rparr>"

inductive wake_step :: "wake_system \<Rightarrow> wake_system \<Rightarrow> bool" where
  mark: "wake_step w (w\<lparr>sy_queue := mark_interfaces ids (sy_queue w), sy_owed := sy_owed w \<union> set ids\<rparr>)"
| take_again: "sy_consumer w = Checking \<Longrightarrow> wk_in_flight (sy_queue w) = Some b \<Longrightarrow>
     try_take (sy_queue w) = (Some b, q) \<Longrightarrow>
     wake_step w (w\<lparr>sy_queue := q, sy_consumer := Working b\<rparr>)"
| take: "sy_consumer w = Checking \<Longrightarrow> wk_in_flight (sy_queue w) = None \<Longrightarrow>
     try_take (sy_queue w) = (Some b, q) \<Longrightarrow>
     wake_step w (w\<lparr>sy_queue := q, sy_consumer := Working b, sy_taken := sy_owed w, sy_owed := {}\<rparr>)"
| sleep: "sy_consumer w = Checking \<Longrightarrow> try_take (sy_queue w) = (None, q) \<Longrightarrow>
     wake_step w (w\<lparr>sy_queue := q, sy_consumer := Sleeping\<rparr>)"
| awake: "sy_consumer w = Sleeping \<Longrightarrow> wk_permit (sy_queue w) \<Longrightarrow>
     wake_step w (w\<lparr>sy_queue := (sy_queue w)\<lparr>wk_permit := False\<rparr>, sy_consumer := Checking\<rparr>)"
| succeed: "sy_consumer w = Working b \<Longrightarrow>
     wake_step w (w\<lparr>sy_queue := complete_success b (sy_queue w), sy_consumer := Checking, sy_taken := {}\<rparr>)"
| fail: "sy_consumer w = Working b \<Longrightarrow>
     wake_step w (w\<lparr>sy_queue := complete_failure b (sy_queue w), sy_consumer := Checking,
       sy_owed := sy_owed w \<union> sy_taken w, sy_taken := {}\<rparr>)"
| abandon: "sy_consumer w = Working b \<Longrightarrow> wake_step w (w\<lparr>sy_consumer := Checking\<rparr>)"

inductive wake_reachable :: "wake_system \<Rightarrow> bool" where
  start: "wake_reachable wake_start"
| step: "wake_reachable w \<Longrightarrow> wake_step w w' \<Longrightarrow> wake_reachable w'"

inductive_cases wake_stepE: "wake_step w w'"

subsection \<open>One mark\<close>

definition covers :: "u64 list \<Rightarrow> bool \<Rightarrow> u64 set \<Rightarrow> bool" where
  "covers pending full ids = (full \<or> ids \<subseteq> set pending)"

lemma set_set_insert [simp]: "set (set_insert i xs) = insert i (set xs)"
  by (auto simp: set_insert_def set_insort_key)

lemma mark_one_bounded:
  "length (wk_pending q) \<le> MAX_DIRTY_INTERFACES \<Longrightarrow> length (wk_pending (mark_one i q)) \<le> MAX_DIRTY_INTERFACES"
  by (auto simp: mark_one_def set_insert_def)

definition ascending :: "u64 list \<Rightarrow> bool" where
  "ascending xs = (sorted xs \<and> distinct xs)"

lemma mark_one_sorted: "ascending (wk_pending q) \<Longrightarrow> ascending (wk_pending (mark_one i q))"
  by (auto simp: ascending_def mark_one_def set_insert_def sorted_insort distinct_insort)

lemma mark_one_frame [simp]:
  "wk_in_flight (mark_one i q) = wk_in_flight q" "wk_permit (mark_one i q) = wk_permit q"
  by (simp_all add: mark_one_def)

lemma mark_one_covers:
  "covers (wk_pending q) (wk_full_rescan q) ids \<Longrightarrow>
   covers (wk_pending (mark_one i q)) (wk_full_rescan (mark_one i q)) (insert i ids)"
  by (auto simp: mark_one_def covers_def)

lemma mark_all_bounded:
  "length (wk_pending q) \<le> MAX_DIRTY_INTERFACES \<Longrightarrow>
   length (wk_pending (fold mark_one ids q)) \<le> MAX_DIRTY_INTERFACES"
  by (induction ids arbitrary: q) (simp_all add: mark_one_bounded)

lemma mark_all_sorted: "ascending (wk_pending q) \<Longrightarrow> ascending (wk_pending (fold mark_one ids q))"
  by (induction ids arbitrary: q) (simp_all add: mark_one_sorted)

lemma mark_all_frame [simp]:
  "wk_in_flight (fold mark_one ids q) = wk_in_flight q" "wk_permit (fold mark_one ids q) = wk_permit q"
  by (induction ids arbitrary: q) simp_all

lemma mark_all_covers:
  "covers (wk_pending q) (wk_full_rescan q) owed \<Longrightarrow>
   covers (wk_pending (fold mark_one ids q)) (wk_full_rescan (fold mark_one ids q)) (owed \<union> set ids)"
proof (induction ids arbitrary: q owed)
  case (Cons i ids)
  from Cons.IH [OF mark_one_covers [OF Cons.prems]] show ?case by simp
qed simp

lemma notify_if_frame [simp]:
  "wk_pending (notify_if c q) = wk_pending q" "wk_full_rescan (notify_if c q) = wk_full_rescan q"
  "wk_in_flight (notify_if c q) = wk_in_flight q" "wk_permit (notify_if c q) = (c \<or> wk_permit q)"
  "has_work (notify_if c q) = has_work q"
  by (simp_all add: notify_if_def has_work_def)

lemma retire_frame [simp]:
  "wk_pending (retire b q) = wk_pending q" "wk_full_rescan (retire b q) = wk_full_rescan q"
  "wk_permit (retire b q) = wk_permit q" "has_work (retire b q) = has_work q"
  by (simp_all add: retire_def has_work_def)

subsection \<open>The invariant of the system\<close>

definition batch_covers :: "flow_wake_batch option \<Rightarrow> u64 set \<Rightarrow> bool" where
  "batch_covers b ids =
     (case b of None \<Rightarrow> ids = {} | Some b \<Rightarrow> covers (wb_interface_ids b) (wb_full_rescan b) ids)"

definition wake_invariant :: "wake_system \<Rightarrow> bool" where
  "wake_invariant w =
     (let q = sy_queue w in
      length (wk_pending q) \<le> MAX_DIRTY_INTERFACES \<and>
      ascending (wk_pending q) \<and>
      covers (wk_pending q) (wk_full_rescan q) (sy_owed w) \<and>
      batch_covers (wk_in_flight q) (sy_taken w) \<and>
      (case sy_consumer w of
         Working b \<Rightarrow> wk_in_flight q = Some b
       | Sleeping \<Rightarrow> wk_in_flight q = None \<and> (has_work q \<longrightarrow> wk_permit q)
       | Checking \<Rightarrow> True))"

lemma wake_invariant_start: "wake_invariant wake_start"
  by (simp add: ascending_def wake_invariant_def wake_start_def empty_queue_def covers_def batch_covers_def)

lemma wake_invariant_step:
  assumes "wake_step w w'" "wake_invariant w"
  shows "wake_invariant w'"
  using assms
proof (cases rule: wake_step.cases)
  case (mark ids)
  with assms(2) show ?thesis
    by (auto simp: wake_invariant_def mark_interfaces_def Let_def mark_all_bounded mark_all_covers
        mark_all_sorted split: consumer.splits)
next
  case (take_again b q)
  with assms(2) show ?thesis by (auto simp: wake_invariant_def try_take_def Let_def)
next
  case (take b q)
  with assms(2) show ?thesis
    by (auto simp: wake_invariant_def try_take_def Let_def covers_def batch_covers_def ascending_def split: if_splits)
next
  case (sleep q)
  with assms(2) show ?thesis
    by (auto simp: wake_invariant_def try_take_def Let_def split: if_splits option.splits)
next
  case awake
  with assms(2) show ?thesis by (auto simp: wake_invariant_def Let_def)
next
  case (succeed b)
  with assms(2) show ?thesis
    by (auto simp: wake_invariant_def complete_success_def Let_def batch_covers_def retire_def split: if_splits)
next
  case (fail b)
  let ?q = "(sy_queue w)\<lparr>wk_in_flight := None,
    wk_full_rescan := wk_full_rescan (sy_queue w) \<or> wb_full_rescan b\<rparr>"
  from fail assms(2) have inv: "length (wk_pending ?q) \<le> MAX_DIRTY_INTERFACES"
      "ascending (wk_pending ?q)"
      "covers (wk_pending ?q) (wk_full_rescan ?q) (sy_owed w)"
      "wb_full_rescan b \<or> sy_taken w \<subseteq> set (wb_interface_ids b)"
      "wk_in_flight (sy_queue w) = Some b"
    by (auto simp: wake_invariant_def Let_def covers_def batch_covers_def)
  let ?q' = "fold mark_one (wb_interface_ids b) ?q"
  have "covers (wk_pending ?q') (wk_full_rescan ?q') (sy_owed w \<union> sy_taken w)"
  proof (cases "wb_full_rescan b")
    case True
    then have "covers (wk_pending ?q) (wk_full_rescan ?q) (sy_owed w \<union> sy_taken w)" by (simp add: covers_def)
    from mark_all_covers [OF this] show ?thesis by (auto simp: covers_def)
  next
    case False
    with mark_all_covers [OF inv(3), of "wb_interface_ids b"] inv(4) show ?thesis by (auto simp: covers_def)
  qed
  moreover from inv(5) have "retire b (sy_queue w) = (sy_queue w)\<lparr>wk_in_flight := None\<rparr>"
    by (simp add: retire_def)
  ultimately show ?thesis
    using fail mark_all_bounded [OF inv(1)] mark_all_sorted [OF inv(2)]
    by (simp add: wake_invariant_def complete_failure_def Let_def batch_covers_def)
next
  case (abandon b)
  with assms(2) show ?thesis by (auto simp: wake_invariant_def Let_def)
qed

lemma wake_invariant_reachable: "wake_reachable w \<Longrightarrow> wake_invariant w"
  by (induction rule: wake_reachable.induct) (auto intro: wake_invariant_start wake_invariant_step)


subsection \<open>The loop of the scheduler\<close>

text \<open>\<open>flow_detection_wake_loop\<close>: evaluate the batch and report how it went; the delay before
  a failed batch is returned doubles up to half a minute.\<close>

definition next_flow_retry_delay :: "nat \<Rightarrow> nat" where
  "next_flow_retry_delay current = min (current * 2) 30"

fun flow_detection_wake_loop :: "bool list \<Rightarrow> nat \<Rightarrow> wake_queue \<Rightarrow> nat \<times> wake_queue" where
  "flow_detection_wake_loop [] delay q = (delay, q)"
| "flow_detection_wake_loop (evaluated # rest) delay q =
     (case wait_and_take q of
        None \<Rightarrow> (delay, q)
      | Some (b, q') \<Rightarrow>
          if evaluated then flow_detection_wake_loop rest 1 (complete_success b q')
          else flow_detection_wake_loop rest (next_flow_retry_delay delay) (complete_failure b q'))"

definition idle :: "wake_queue \<Rightarrow> bool" where
  "idle q = (\<not> has_work q \<and> wk_in_flight q = None)"

lemma try_take_None: "try_take q = (None, q') \<longleftrightarrow> idle q \<and> q' = q"
  by (auto simp: try_take_def idle_def Let_def split: option.splits if_splits)

lemma wait_and_take_eq:
  "wait_and_take q = (case try_take q of (Some b, q') \<Rightarrow> Some (b, q') | (None, _) \<Rightarrow> None)"
proof (cases "idle q")
  case True
  then have "try_take q = (None, q)" "try_take (q\<lparr>wk_permit := False\<rparr>) = (None, q\<lparr>wk_permit := False\<rparr>)"
    by (simp_all add: try_take_None idle_def has_work_def)
  then show ?thesis
    by (simp add: wait_and_take.simps [of q] wait_and_take.simps [of "q\<lparr>wk_permit := False\<rparr>"])
next
  case False
  then obtain b q' where "try_take q = (Some b, q')"
    using try_take_None by (cases "try_take q"; cases "fst (try_take q)") auto
  then show ?thesis by (simp add: wait_and_take.simps [of q])
qed

lemma wait_and_take_Some:
  "wait_and_take q = Some (b, q') \<Longrightarrow>
   wk_in_flight q' = Some b \<and> (wk_in_flight q = Some b \<and> q' = q \<or> wk_in_flight q = None \<and> \<not> has_work q')"
  by (auto simp: wait_and_take_eq try_take_def Let_def has_work_def split: option.splits if_splits)

lemma wait_and_take_None: "wait_and_take q = None \<longleftrightarrow> idle q"
proof (cases "try_take q")
  case (Pair r q')
  with try_take_None [of q q'] try_take_None [of q q] show ?thesis
    by (cases r) (auto simp: wait_and_take_eq)
qed

lemma wait_and_take_idle [simp]: "idle q \<Longrightarrow> wait_and_take q = None"
  by (simp add: wait_and_take_None)

lemma retire_own: "wk_in_flight q = Some b \<Longrightarrow> wk_in_flight (retire b q) = None"
  by (simp add: retire_def)

lemma turn_succeeds:
  assumes "wait_and_take q = Some (b, q')"
  shows "wk_in_flight (complete_success b q') = None"
    "wk_in_flight q = None \<Longrightarrow> idle (complete_success b q')"
  using wait_and_take_Some [OF assms] by (auto simp: complete_success_def Let_def retire_own idle_def)

lemma idle_stops: "idle q \<Longrightarrow> flow_detection_wake_loop evs delay q = (delay, q)"
  by (cases evs) (simp_all add: wait_and_take_None)

lemma drained_by_one: "wk_in_flight q = None \<Longrightarrow> idle (snd (flow_detection_wake_loop (True # evs) delay q))"
  by (cases "wait_and_take q") (auto simp: wait_and_take_None idle_stops turn_succeeds)

lemma drained_by_two: "idle (snd (flow_detection_wake_loop (True # True # evs) delay q))"
proof (cases "wait_and_take q")
  case None
  then show ?thesis by (simp add: wait_and_take_None)
next
  case (Some r)
  obtain b q' where r: "r = (b, q')" by fastforce
  from turn_succeeds(1) [of q b q'] drained_by_one Some r show ?thesis
    by (simp del: flow_detection_wake_loop.simps add: flow_detection_wake_loop.simps(2) [of True "True # evs"])
qed

section \<open>Properties\<close>

text \<open>The queue never grows past its bound: in every reachable state the dirty interfaces
  are at most 4096, in ascending order and without duplicates, whatever producers mark and
  however the consumer fails or dies.\<close>

theorem wake_queue_bounded:
  assumes "wake_reachable w"
  shows "length (wk_pending (sy_queue w)) \<le> 4096 \<and> sorted (wk_pending (sy_queue w)) \<and>
     distinct (wk_pending (sy_queue w))"
  using wake_invariant_reachable [OF assms]
  by (simp add: wake_invariant_def Let_def MAX_DIRTY_INTERFACES_def ascending_def)

theorem wake_queue_bounded_witness:
  "length (wk_pending (sy_queue wake_start)) \<le> 4096 \<and> sorted (wk_pending (sy_queue wake_start)) \<and>
   distinct (wk_pending (sy_queue wake_start))"
  by (rule wake_queue_bounded [OF wake_reachable.start])

text \<open>No wake-up and no dirty interface is lost. While the consumer is not at work on a
  batch and some marked interface has not been evaluated since, the consumer's own next steps
  give it a batch: if it sleeps, its permit is there; and the batch names the interface or
  asks for a full rescan, unless the batch of a dead consumer is handed out first.\<close>

theorem wake_delivers:
  assumes "wake_reachable w" "i \<in> sy_owed w \<union> sy_taken w"
    "\<forall>b. sy_consumer w \<noteq> Working b"
  shows "(sy_consumer w = Sleeping \<longrightarrow> wk_permit (sy_queue w)) \<and>
    (\<exists>b q. wait_and_take (sy_queue w) = Some (b, q) \<and>
       (i \<in> (if wk_in_flight (sy_queue w) = None then sy_owed w else sy_taken w) \<longrightarrow>
          wb_full_rescan b \<or> i \<in> set (wb_interface_ids b)))"
proof -
  note inv = wake_invariant_reachable [OF assms(1), unfolded wake_invariant_def Let_def]
  let ?q = "sy_queue w"
  have busy: "\<not> idle ?q"
    using inv assms(2) by (auto simp: idle_def has_work_def batch_covers_def covers_def)
  then obtain b q where take: "wait_and_take ?q = Some (b, q)"
    using wait_and_take_None by fastforce
  have "sy_consumer w = Sleeping \<Longrightarrow> wk_permit ?q"
    using inv busy by (auto simp: idle_def)
  moreover have "i \<in> (if wk_in_flight ?q = None then sy_owed w else sy_taken w) \<Longrightarrow>
      wb_full_rescan b \<or> i \<in> set (wb_interface_ids b)"
    using take inv by (auto simp: wait_and_take_eq try_take_def batch_covers_def covers_def Let_def
        split: option.splits if_splits)
  ultimately show ?thesis using take by blast
qed

text \<open>The consumer finds nothing and sleeps, then two interfaces are marked.\<close>

definition asleep :: wake_system where
  "asleep = wake_start\<lparr>sy_queue := snd (try_take (sy_queue wake_start)), sy_consumer := Sleeping\<rparr>"

definition marked_start :: wake_system where
  "marked_start = asleep\<lparr>sy_queue := mark_interfaces [3, 1] (sy_queue asleep),
     sy_owed := sy_owed asleep \<union> set [3, 1]\<rparr>"

lemma asleep_reachable: "wake_reachable asleep"
proof -
  have t: "try_take (sy_queue wake_start) = (None, snd (try_take (sy_queue wake_start)))"
    by (simp add: wake_start_def empty_queue_def try_take_def has_work_def Let_def)
  show ?thesis
    unfolding asleep_def
    by (rule wake_reachable.step [OF wake_reachable.start wake_step.sleep [OF _ t]]) (simp add: wake_start_def)
qed

theorem wake_delivers_witness:
  "wk_permit (sy_queue marked_start) \<and>
   (\<exists>b q. wait_and_take (sy_queue marked_start) = Some (b, q) \<and>
      (3 \<in> (if wk_in_flight (sy_queue marked_start) = None then sy_owed marked_start
             else sy_taken marked_start) \<longrightarrow>
         wb_full_rescan b \<or> 3 \<in> set (wb_interface_ids b)))"
proof -
  have "wake_reachable marked_start"
    unfolding marked_start_def by (rule wake_reachable.step [OF asleep_reachable wake_step.mark])
  moreover have c: "sy_consumer marked_start = Sleeping" by (simp add: marked_start_def asleep_def)
  moreover have o3: "3 \<in> sy_owed marked_start" by (simp add: marked_start_def)
  ultimately have "(sy_consumer marked_start = Sleeping \<longrightarrow> wk_permit (sy_queue marked_start)) \<and>
    (\<exists>b q. wait_and_take (sy_queue marked_start) = Some (b, q) \<and>
      (3 \<in> (if wk_in_flight (sy_queue marked_start) = None then sy_owed marked_start
             else sy_taken marked_start) \<longrightarrow>
         wb_full_rescan b \<or> 3 \<in> set (wb_interface_ids b)))"
    by (intro wake_delivers UnI1) simp_all
  with c show ?thesis by simp
qed

text \<open>C35: The loop of the scheduler comes to rest: whatever the queue holds, and however many
  evaluations fail first, two evaluations that succeed with nothing marked meanwhile leave no
  work, no batch in flight, and the retry delay between one and thirty seconds.\<close>

theorem wake_loop_drains:
  "idle (snd (flow_detection_wake_loop (replicate n False @ [True, True]) 1 q)) \<and>
   fst (flow_detection_wake_loop (replicate n False @ [True, True]) 1 q) \<in> {1..30}"
proof -
  have "idle (snd (flow_detection_wake_loop (replicate n False @ [True, True]) d q))" for d
  proof (induction n arbitrary: d q)
    case 0
    show ?case using drained_by_two [of "[]" d q] by simp
  next
    case (Suc n)
    then show ?case by (auto simp: wait_and_take_None split: option.split)
  qed
  moreover have "d \<in> {1..30} \<Longrightarrow> fst (flow_detection_wake_loop evs d q) \<in> {1..30}" for evs d
    by (induction evs d q rule: flow_detection_wake_loop.induct)
      (auto simp: next_flow_retry_delay_def split: option.split)
  ultimately show ?thesis by simp
qed

end
