(* ===== verification/Wire.thy ===== *)
theory Wire
  imports Rust_Text
begin

text \<open>
  What the flow decoders of \<open>src/backend-rust/src/telemetry/flow\<close> share: the bounds-checked
  reader of \<open>v9.rs\<close> and \<open>sflow.rs\<close>, big-endian integers, and the normalised record
  of \<open>mod.rs\<close> with its attribution and the resolution of the sampling rate. A reader is the
  list of the bytes that are left.
\<close>

type_synonym bytes = "u8 list"

named_theorems wire_simps \<open>reading what was written\<close>

subsection \<open>Big-endian integers\<close>

definition be_nat :: "bytes \<Rightarrow> nat" where
  "be_nat bs = foldl (\<lambda>v b. 256 * v + unat b) 0 bs"

definition be_bytes :: "nat \<Rightarrow> nat \<Rightarrow> bytes" where
  "be_bytes k n = map (\<lambda>i. of_nat (n div 256 ^ i)) (rev [0..<k])"

lemma be_bytes_0 [simp]: "be_bytes 0 n = []"
  by (simp add: be_bytes_def)

lemma be_bytes_Suc: "be_bytes (Suc k) n = be_bytes k (n div 256) @ [of_nat n]"
proof -
  have "[0..<Suc k] = 0 # map Suc [0..<k]" by (simp only: map_Suc_upt upt_conv_Cons)
  then have "rev [0..<Suc k] = map Suc (rev [0..<k]) @ [0]" by (simp add: rev_map)
  then show ?thesis by (simp add: be_bytes_def div_mult2_eq comp_def)
qed

lemma length_be_bytes [simp]: "length (be_bytes k n) = k"
  by (simp add: be_bytes_def)

lemma be_nat_Nil [simp]: "be_nat [] = 0"
  by (simp add: be_nat_def)

lemma be_nat_snoc [simp]: "be_nat (bs @ [b]) = 256 * be_nat bs + unat b"
  by (simp add: be_nat_def)

lemma be_nat_less: "be_nat bs < 256 ^ length bs"
proof (induction bs rule: rev_induct)
  case (snoc b bs)
  have "unat b < 256" using unsigned_less [of b] by simp
  with snoc show ?case by simp
qed simp

lemma be_nat_be_bytes [wire_simps]: "be_nat (be_bytes k n) = n mod 256 ^ k"
proof (induction k arbitrary: n)
  case (Suc k)
  have "unat (of_nat n :: u8) = n mod 256" by (simp add: unat_of_nat)
  then have "be_nat (be_bytes (Suc k) n) = 256 * (n div 256 mod 256 ^ k) + n mod 256"
    by (simp add: be_bytes_Suc Suc.IH)
  also have "\<dots> = n mod (256 * 256 ^ k)" by (simp add: mod_mult2_eq)
  finally show ?case by simp
qed simp

text \<open>\<open>be_uint\<close>: only the last eight bytes of a field count.\<close>

definition last_bytes :: "nat \<Rightarrow> bytes \<Rightarrow> bytes" where
  "last_bytes n bs = rev (take n (rev bs))"

definition be_uint :: "bytes \<Rightarrow> u64" where
  "be_uint bs = foldl (\<lambda>v b. push_bit 8 v OR ucast b) 0 (last_bytes 8 bs)"

lemma length_last_bytes: "length (last_bytes n bs) = min (length bs) n"
  by (simp add: last_bytes_def min.commute)

lemma last_bytes_all: "length bs \<le> n \<Longrightarrow> last_bytes n bs = bs"
  by (simp add: last_bytes_def)

lemma unat_ucast_wider:
  assumes "LENGTH('a) \<le> LENGTH('b)"
  shows "unat (ucast (w :: 'a::len word) :: 'b::len word) = unat w"
proof -
  have "unat w < 2 ^ LENGTH('a)" by (rule unsigned_less)
  also have "(2 :: nat) ^ LENGTH('a) \<le> 2 ^ LENGTH('b)" using assms by (intro power_increasing) simp_all
  finally show ?thesis by (simp add: unsigned_ucast_eq take_bit_nat_eq_self)
qed

lemma shift_or_byte:
  assumes "unat (v :: u64) < 2 ^ 56"
  shows "unat (push_bit 8 v OR ucast (b :: u8)) = 256 * unat v + unat b"
proof -
  have "push_bit 8 v AND (ucast b :: u64) = 0"
    by (rule bit_word_eqI) (auto simp: bit_simps dest: bit_imp_le_length)
  then have "push_bit 8 v OR (ucast b :: u64) = push_bit 8 v + ucast b" by (rule disjunctive_add_eq_or [symmetric])
  moreover have "unat (push_bit 8 v) = 256 * unat v"
    using assms by (simp add: push_bit_eq_mult unat_word_ariths)
  moreover have "unat (ucast b :: u64) = unat b" by (simp add: unat_ucast_wider)
  moreover have "unat b < 256" using unsigned_less [of b] by simp
  ultimately show ?thesis using assms by (simp add: unat_word_ariths)
qed

lemma be_uint_nat: "unat (be_uint bs) = be_nat (last_bytes 8 bs)"
proof -
  have "length xs \<le> 8 \<Longrightarrow> unat (foldl (\<lambda>v b. push_bit 8 v OR ucast b) (0 :: u64) xs) = be_nat xs" for xs
  proof (induction xs rule: rev_induct)
    case (snoc x xs)
    then have eq: "unat (foldl (\<lambda>v b. push_bit 8 v OR ucast b) (0 :: u64) xs) = be_nat xs" by simp
    have "be_nat xs < 256 ^ length xs" by (rule be_nat_less)
    also have "\<dots> \<le> 256 ^ 7" using snoc.prems by (intro power_increasing) simp_all
    finally have "be_nat xs < 2 ^ 56" by simp
    with eq show ?case by (simp add: shift_or_byte)
  qed simp
  then show ?thesis by (simp add: be_uint_def length_last_bytes)
qed

subsection \<open>The reader\<close>

text \<open>\<open>take\<close>: an error names what was needed and what was left.\<close>

definition read_bytes :: "(nat \<Rightarrow> nat \<Rightarrow> 'e) \<Rightarrow> nat \<Rightarrow> bytes \<Rightarrow> 'e + bytes \<times> bytes" where
  "read_bytes short n bs =
     (if length bs < n then Inl (short n (length bs)) else Inr (take n bs, drop n bs))"

definition read_uint :: "(nat \<Rightarrow> nat \<Rightarrow> 'e) \<Rightarrow> nat \<Rightarrow> bytes \<Rightarrow> 'e + 'a::len word \<times> bytes" where
  "read_uint short n bs =
     and_then (read_bytes short n bs) (\<lambda>(s, rest). Inr (of_nat (be_nat s), rest))"

lemma read_bytes_Inr [res_simps]:
  "read_bytes short n bs = Inr (s, rest) \<longleftrightarrow> n \<le> length bs \<and> s = take n bs \<and> rest = drop n bs"
  by (auto simp: read_bytes_def)

lemma read_uint_Inr [res_simps]:
  "read_uint short n bs = Inr (w, rest) \<longleftrightarrow>
     n \<le> length bs \<and> w = of_nat (be_nat (take n bs)) \<and> rest = drop n bs"
  by (auto simp: read_uint_def res_simps split: prod.splits)

definition word_bytes :: "'a::len word \<Rightarrow> bytes" where
  "word_bytes w = be_bytes (LENGTH('a) div 8) (unat w)"

lemma length_word_bytes [simp]: "length (word_bytes (w :: 'a::len word)) = LENGTH('a) div 8"
  by (simp add: word_bytes_def)

lemma be_nat_word_bytes [wire_simps]: "8 dvd LENGTH('a) \<Longrightarrow> be_nat (word_bytes (w :: 'a::len word)) = unat w"
proof -
  assume "8 dvd LENGTH('a)"
  then have "(256 :: nat) ^ (LENGTH('a) div 8) = 2 ^ LENGTH('a)"
    using power_mult [of "2 :: nat" 8 "LENGTH('a) div 8"] by (simp add: dvd_mult_div_cancel)
  then show ?thesis by (simp add: word_bytes_def be_nat_be_bytes)
qed

lemma read_uint_word [wire_simps]:
  "8 dvd LENGTH('a) \<Longrightarrow> n = LENGTH('a) div 8 \<Longrightarrow>
   read_uint short n (word_bytes (w :: 'a::len word) @ rest) = Inr (w, rest)"
  by (simp add: read_uint_Inr be_nat_word_bytes)

lemma be_uint_word [wire_simps]:
  "8 dvd LENGTH('a) \<Longrightarrow> LENGTH('a) \<le> 64 \<Longrightarrow> be_uint (word_bytes (w :: 'a::len word)) = ucast w"
  by (simp add: word_unat_eq_iff be_uint_nat last_bytes_all be_nat_word_bytes unat_ucast_wider)

subsection \<open>Normalised records (mod.rs)\<close>

datatype direction = Ingress | Egress

definition from_netflow :: "u8 \<Rightarrow> direction" where
  "from_netflow v = (if v = 1 then Egress else Ingress)"

record flow_record =
  fr_src_addr :: ip_addr
  fr_dst_addr :: ip_addr
  fr_src_port :: "u16 option"
  fr_dst_port :: "u16 option"
  fr_protocol :: u8
  fr_in_if_index :: "u32 option"
  fr_out_if_index :: "u32 option"
  fr_src_as :: "u32 option"
  fr_dst_as :: "u32 option"
  fr_direction :: "u8 option"
  fr_bytes :: "u64 option"
  fr_pkts :: "u64 option"

definition attribution :: "flow_record \<Rightarrow> direction \<times> u32 option" where
  "attribution r =
     (case map_option from_netflow (fr_direction r) of
        Some Egress \<Rightarrow> (Egress, fr_out_if_index r)
      | Some Ingress \<Rightarrow> (Ingress, fr_in_if_index r)
      | None \<Rightarrow> (Ingress, fr_in_if_index r))"

definition has_ports :: "flow_record \<Rightarrow> bool" where
  "has_ports r = (fr_protocol r \<in> {6, 17, 132})"

datatype sampling_source = SourceConfig | SourceReported | SourceSnmpDerived | SourceDefault | SourceUnknown

record sampling =
  sa_rate :: u32
  sa_source :: sampling_source
  sa_high_confidence :: bool

definition usable_rate :: "u32 option \<Rightarrow> u32 option" where
  "usable_rate r = (case r of Some v \<Rightarrow> if 1 \<le> v then Some v else None | None \<Rightarrow> None)"

definition resolve_sampling :: "u32 option \<Rightarrow> u32 option \<Rightarrow> u32 option \<Rightarrow> u32 \<Rightarrow> sampling" where
  "resolve_sampling configured reported derived default_rate =
     (case usable_rate configured of
        Some r \<Rightarrow> \<lparr>sa_rate = r, sa_source = SourceConfig, sa_high_confidence = True\<rparr>
      | None \<Rightarrow>
     (case usable_rate reported of
        Some r \<Rightarrow> \<lparr>sa_rate = r, sa_source = SourceReported, sa_high_confidence = True\<rparr>
      | None \<Rightarrow>
     (case usable_rate derived of
        Some r \<Rightarrow> \<lparr>sa_rate = r, sa_source = SourceSnmpDerived, sa_high_confidence = True\<rparr>
      | None \<Rightarrow>
          (let r = max default_rate 1 in
           \<lparr>sa_rate = r, sa_source = SourceDefault, sa_high_confidence = (r = 1)\<rparr>))))"

text \<open>A rate is never zero, and it is only doubted when nobody stated it and it is a guess.\<close>

lemma word_ge_1: "1 \<le> (v :: u32) \<longleftrightarrow> 0 < unat v"
  by (simp add: word_le_nat_alt Suc_le_eq)

lemma resolve_sampling_sound:
  "0 < unat (sa_rate (resolve_sampling c r d g)) \<and>
   (\<not> sa_high_confidence (resolve_sampling c r d g) \<longrightarrow>
      sa_source (resolve_sampling c r d g) = SourceDefault \<and> 1 < unat g \<and>
      usable_rate c = None \<and> usable_rate r = None \<and> usable_rate d = None)"
  by (auto simp: resolve_sampling_def usable_rate_def Let_def word_ge_1 max_def word_le_nat_alt word_unat_eq_iff
      split: option.splits if_splits)

end
