(* ===== verification/Netflow_V9.thy ===== *)
theory Netflow_V9
  imports Wire
begin

text \<open>
  The NetFlow v9 decoder of \<open>src/backend-rust/src/telemetry/flow/v9.rs\<close>: the template cache
  of an exporter, templates and options templates, data records and the walk over a datagram. A
  decoding returns the cache also when it fails, since what was learned before the error stays.
  The two hash maps are association lists; a tie of the least recently written entry, which takes
  \<open>2 ^ 64\<close> insertions, is broken by the order of the list.
\<close>

subsection \<open>Constants and errors\<close>

definition HEADER_LEN :: nat where "HEADER_LEN = 20"
definition TEMPLATE_TTL_SECONDS :: u32 where "TEMPLATE_TTL_SECONDS = 30 * 60"
definition REORDER_UPTIME_TOLERANCE_MS :: u32 where "REORDER_UPTIME_TOLERANCE_MS = 60000"
definition MAX_TEMPLATES :: nat where "MAX_TEMPLATES = 1024"

datatype flow_error =
    Short nat nat
  | UnsupportedVersion u16
  | BadFlowsetLength u16
  | TruncatedFlowset nat nat
  | UnalignedFlowset u16
  | BadPadding nat
  | EmptyTemplate u16
  | ZeroLengthRecord u16

subsection \<open>The template cache\<close>

record layout =
  la_fields :: "(u16 \<times> u16) list"
  la_record_len :: nat
  la_is_options :: bool

record exporter_clock =
  ec_sys_uptime :: u32
  ec_unix_secs :: u32
  ec_sequence :: u32

record template_cache =
  tc_templates :: "((u32 \<times> u16) \<times> layout \<times> u64 \<times> u32) list"
  tc_exporters :: "(u32 \<times> exporter_clock) list"
  tc_tick :: u64

definition empty_cache :: template_cache where
  "empty_cache = \<lparr>tc_templates = [], tc_exporters = [], tc_tick = 0\<rparr>"

definition cache_get :: "template_cache \<Rightarrow> u32 \<Rightarrow> u16 \<Rightarrow> layout option" where
  "cache_get c sid tid =
     (case map_of (tc_exporters c) sid of
        None \<Rightarrow> None
      | Some clock \<Rightarrow>
          (case map_of (tc_templates c) (sid, tid) of
             None \<Rightarrow> None
           | Some (t, _, refreshed) \<Rightarrow>
               if sat_sub (ec_unix_secs clock) refreshed \<le> TEMPLATE_TTL_SECONDS then Some t else None))"

text \<open>\<open>min_by_key\<close> on the tick of the last write.\<close>

fun least_recent :: "('k \<times> layout \<times> u64 \<times> u32) list \<Rightarrow> ('k \<times> u64) option" where
  "least_recent [] = None"
| "least_recent ((k, _, used, _) # rest) =
     (case least_recent rest of
        None \<Rightarrow> Some (k, used)
      | Some (k', used') \<Rightarrow> if used' < used then Some (k', used') else Some (k, used))"

definition cache_insert :: "u32 \<Rightarrow> u16 \<Rightarrow> layout \<Rightarrow> template_cache \<Rightarrow> template_cache" where
  "cache_insert sid tid t c =
     (let tick = tc_tick c + 1;
          ts = tc_templates c;
          kept = (if map_of ts (sid, tid) = None \<and> MAX_TEMPLATES \<le> length ts
                  then (case least_recent ts of Some (k, _) \<Rightarrow> AList.delete k ts | None \<Rightarrow> ts) else ts);
          refreshed = (case map_of (tc_exporters c) sid of Some clock \<Rightarrow> ec_unix_secs clock | None \<Rightarrow> 0)
      in c\<lparr>tc_templates := AList.update (sid, tid) (t, tick, refreshed) kept, tc_tick := tick\<rparr>)"

text \<open>Both flags: a confirmed restart, and whether a layout expired.\<close>

definition begin_datagram ::
    "u32 \<Rightarrow> u32 \<Rightarrow> u32 \<Rightarrow> u32 \<Rightarrow> template_cache \<Rightarrow> (bool \<times> bool) \<times> template_cache" where
  "begin_datagram sid uptime secs seq c =
     (let previous = map_of (tc_exporters c) sid;
          reference = (case previous of Some p \<Rightarrow> max (ec_unix_secs p) secs | None \<Rightarrow> secs);
          fresh = filter (\<lambda>((s, _), (_, _, refreshed)).
            s \<noteq> sid \<or> sat_sub reference refreshed \<le> TEMPLATE_TTL_SECONDS) (tc_templates c);
          expired = (length fresh \<noteq> length (tc_templates c));
          wrapped = (case previous of
              Some p \<Rightarrow> - 1 - REORDER_UPTIME_TOLERANCE_MS < ec_sys_uptime p \<and> uptime < REORDER_UPTIME_TOLERANCE_MS
            | None \<Rightarrow> False);
          restarted = (case previous of
              Some p \<Rightarrow> \<not> wrapped \<and> REORDER_UPTIME_TOLERANCE_MS < sat_sub (ec_sys_uptime p) uptime \<and>
                ec_unix_secs p \<le> secs
            | None \<Rightarrow> False);
          kept = (if restarted then filter (\<lambda>((s, _), _). s \<noteq> sid) fresh else fresh);
          advance = (restarted \<or> (case previous of
              None \<Rightarrow> True
            | Some p \<Rightarrow> ec_unix_secs p < secs \<or> ec_sys_uptime p \<le> uptime \<or>
                seq - ec_sequence p < - 1 div 2));
          clocks = (if advance
                    then AList.update sid \<lparr>ec_sys_uptime = uptime,
                      ec_unix_secs = (case previous of Some p \<Rightarrow> max (ec_unix_secs p) secs | None \<Rightarrow> secs),
                      ec_sequence = seq\<rparr> (tc_exporters c)
                    else tc_exporters c)
      in ((restarted, expired), c\<lparr>tc_templates := kept, tc_exporters := clocks\<rparr>))"

subsection \<open>Templates\<close>

definition nonzero :: "bytes \<Rightarrow> bool" where
  "nonzero bs = list_ex (\<lambda>b. b \<noteq> 0) bs"

definition validate_padding :: "bytes \<Rightarrow> flow_error + unit" where
  "validate_padding bs = ensure (BadPadding (length bs)) (\<not> nonzero bs)"

text \<open>The pairs of a type and a length.\<close>

fun read_fields :: "nat \<Rightarrow> bytes \<Rightarrow> flow_error + (u16 \<times> u16) list \<times> bytes" where
  "read_fields 0 bs = Inr ([], bs)"
| "read_fields (Suc n) bs =
     and_then (read_uint Short 2 bs) (\<lambda>(ftype, bs1).
     and_then (read_uint Short 2 bs1) (\<lambda>(flen, bs2).
     and_then (read_fields n bs2) (\<lambda>(fs, rest). Inr ((ftype, flen) # fs, rest))))"

definition fields_len :: "(u16 \<times> u16) list \<Rightarrow> nat" where
  "fields_len fs = sum_list (map (unat \<circ> snd) fs)"

lemma read_fields_length: "read_fields n bs = Inr (fs, rest) \<Longrightarrow> length bs = 4 * n + length rest"
  by (induction n arbitrary: bs fs rest) (fastforce simp: res_simps split: prod.splits)+

text \<open>One template at the head of the body.\<close>

definition read_template :: "bytes \<Rightarrow> flow_error + u16 \<times> layout \<times> bytes" where
  "read_template bs =
     and_then (read_uint Short 2 bs) (\<lambda>(tid, bs1).
     and_then (read_uint Short 2 bs1) (\<lambda>(n :: u16, bs2).
     and_then (ensure (EmptyTemplate tid) (n \<noteq> 0)) (\<lambda>_.
     and_then (read_fields (unat n) bs2) (\<lambda>(fs, rest).
     and_then (ensure (ZeroLengthRecord tid) (fields_len fs \<noteq> 0)) (\<lambda>_.
       Inr (tid, \<lparr>la_fields = fs, la_record_len = fields_len fs, la_is_options = False\<rparr>, rest))))))"

lemma read_template_shrinks:
  assumes "read_template bs = Inr (tid, t, rest)"
  shows "length rest + 8 \<le> length bs"
proof -
  obtain n :: u16 and fs where "n \<noteq> 0" "4 \<le> length bs" "read_fields (unat n) (drop 4 bs) = Inr (fs, rest)"
    using assms by (auto simp: read_template_def res_simps split: prod.splits)
  moreover from this(3) have "length (drop 4 bs) = 4 * unat n + length rest" by (rule read_fields_length)
  moreover from \<open>n \<noteq> 0\<close> have "0 < unat n" by (simp add: unat_gt_0)
  ultimately show ?thesis by simp
qed

function parse_templates ::
    "u32 \<Rightarrow> bytes \<Rightarrow> nat \<Rightarrow> template_cache \<Rightarrow> (flow_error + nat) \<times> template_cache" where
  "parse_templates sid bs learned c =
     (if length bs < 4
      then (and_then (validate_padding bs) (\<lambda>_. Inr learned), c)
      else (case read_template bs of
              Inl e \<Rightarrow> (Inl e, c)
            | Inr (tid, t, rest) \<Rightarrow> parse_templates sid rest (learned + 1) (cache_insert sid tid t c)))"
  by auto
termination by (relation "measure (\<lambda>(_, bs, _). length bs)") (auto dest: read_template_shrinks)

text \<open>An options template: a head of two lengths in bytes, then the pairs they hold together.\<close>

definition read_options_template :: "bytes \<Rightarrow> flow_error + (u16 \<times> layout) option \<times> bytes" where
  "read_options_template bs =
     and_then (read_uint Short 2 bs) (\<lambda>(tid, bs1).
     and_then (read_uint Short 2 bs1) (\<lambda>(scope_len :: u16, bs2).
     and_then (read_uint Short 2 bs2) (\<lambda>(option_len :: u16, bs3).
       if scope_len = 0 \<and> option_len = 0 then Inr (None, bs3)
       else and_then (read_fields (unat scope_len div 4 + unat option_len div 4) bs3) (\<lambda>(fs, rest).
            and_then (ensure (ZeroLengthRecord tid) (fields_len fs \<noteq> 0)) (\<lambda>_.
              Inr (Some (tid, \<lparr>la_fields = fs, la_record_len = fields_len fs, la_is_options = True\<rparr>), rest))))))"

lemma read_options_template_shrinks: "read_options_template bs = Inr (t, rest) \<Longrightarrow> length rest + 6 \<le> length bs"
  by (auto simp: read_options_template_def res_simps dest!: read_fields_length split: prod.splits if_splits)

text \<open>A head of two zero lengths is taken for padding: the walk over the body stops there.\<close>

function parse_options_template ::
    "u32 \<Rightarrow> bytes \<Rightarrow> nat \<Rightarrow> template_cache \<Rightarrow> (flow_error + nat) \<times> template_cache" where
  "parse_options_template sid bs learned c =
     (if length bs < 6
      then (and_then (validate_padding bs) (\<lambda>_. Inr learned), c)
      else (case read_options_template bs of
              Inl e \<Rightarrow> (Inl e, c)
            | Inr (None, rest) \<Rightarrow> (and_then (validate_padding rest) (\<lambda>_. Inr learned), c)
            | Inr (Some (tid, t), rest) \<Rightarrow>
                parse_options_template sid rest (learned + 1) (cache_insert sid tid t c)))"
  by auto
termination by (relation "measure (\<lambda>(_, bs, _). length bs)") (auto dest: read_options_template_shrinks)

declare parse_templates.simps [simp del] parse_options_template.simps [simp del]

lemma parse_templates_cases:
  "length bs < 4 \<Longrightarrow> parse_templates sid bs n c = (and_then (validate_padding bs) (\<lambda>_. Inr n), c)"
  "4 \<le> length bs \<Longrightarrow> read_template bs = Inl e \<Longrightarrow> parse_templates sid bs n c = (Inl e, c)"
  "4 \<le> length bs \<Longrightarrow> read_template bs = Inr (tid, t, rest) \<Longrightarrow>
     parse_templates sid bs n c = parse_templates sid rest (n + 1) (cache_insert sid tid t c)"
  by (subst parse_templates.simps; simp)+

lemma parse_options_template_cases:
  "length bs < 6 \<Longrightarrow> parse_options_template sid bs n c = (and_then (validate_padding bs) (\<lambda>_. Inr n), c)"
  "6 \<le> length bs \<Longrightarrow> read_options_template bs = Inl e \<Longrightarrow> parse_options_template sid bs n c = (Inl e, c)"
  "6 \<le> length bs \<Longrightarrow> read_options_template bs = Inr (None, rest) \<Longrightarrow>
     parse_options_template sid bs n c = (and_then (validate_padding rest) (\<lambda>_. Inr n), c)"
  "6 \<le> length bs \<Longrightarrow> read_options_template bs = Inr (Some (tid, t), rest) \<Longrightarrow>
     parse_options_template sid bs n c = parse_options_template sid rest (n + 1) (cache_insert sid tid t c)"
  by (subst parse_options_template.simps; simp)+

subsection \<open>Data records\<close>

record slots =
  sl_src_v4 :: "ipv4 option"
  sl_dst_v4 :: "ipv4 option"
  sl_src_v6 :: "ipv6 option"
  sl_dst_v6 :: "ipv6 option"
  sl_src_port :: "u16 option"
  sl_dst_port :: "u16 option"
  sl_protocol :: u8
  sl_in_if :: "u32 option"
  sl_out_if :: "u32 option"
  sl_src_as :: "u32 option"
  sl_dst_as :: "u32 option"
  sl_direction :: "u8 option"
  sl_in_bytes :: "u64 option"
  sl_out_bytes :: "u64 option"
  sl_in_pkts :: "u64 option"
  sl_out_pkts :: "u64 option"

definition no_slots :: slots where
  "no_slots = \<lparr>sl_src_v4 = None, sl_dst_v4 = None, sl_src_v6 = None, sl_dst_v6 = None, sl_src_port = None,
     sl_dst_port = None, sl_protocol = 0, sl_in_if = None, sl_out_if = None, sl_src_as = None,
     sl_dst_as = None, sl_direction = None, sl_in_bytes = None, sl_out_bytes = None, sl_in_pkts = None,
     sl_out_pkts = None\<rparr>"

definition ipv4_from :: "bytes \<Rightarrow> ipv4" where
  "ipv4_from f = Ipv4 (f ! 0) (f ! 1) (f ! 2) (f ! 3)"

text \<open>A field by its type: 1 and 23 are the octets in and out, 2 and 24 the packets, 4 the
  protocol, 7 and 11 the ports, 8 and 12 the IPv4 addresses, 10 and 14 the interfaces, 16 and 17
  the autonomous systems, 27 and 28 the IPv6 addresses, 61 the direction.\<close>

definition store_field :: "u16 \<Rightarrow> bytes \<Rightarrow> slots \<Rightarrow> slots" where
  "store_field t f s =
     (if t = 1 then s\<lparr>sl_in_bytes := Some (be_uint f)\<rparr>
      else if t = 23 then s\<lparr>sl_out_bytes := Some (be_uint f)\<rparr>
      else if t = 2 then s\<lparr>sl_in_pkts := Some (be_uint f)\<rparr>
      else if t = 24 then s\<lparr>sl_out_pkts := Some (be_uint f)\<rparr>
      else if t = 4 then s\<lparr>sl_protocol := ucast (be_uint f)\<rparr>
      else if t = 7 then s\<lparr>sl_src_port := Some (ucast (be_uint f))\<rparr>
      else if t = 11 then s\<lparr>sl_dst_port := Some (ucast (be_uint f))\<rparr>
      else if t = 10 then s\<lparr>sl_in_if := Some (ucast (be_uint f))\<rparr>
      else if t = 14 then s\<lparr>sl_out_if := Some (ucast (be_uint f))\<rparr>
      else if t = 16 then s\<lparr>sl_src_as := Some (ucast (be_uint f))\<rparr>
      else if t = 17 then s\<lparr>sl_dst_as := Some (ucast (be_uint f))\<rparr>
      else if t = 61 then s\<lparr>sl_direction := Some (ucast (be_uint f))\<rparr>
      else if t = 8 \<and> length f = 4 then s\<lparr>sl_src_v4 := Some (ipv4_from f)\<rparr>
      else if t = 12 \<and> length f = 4 then s\<lparr>sl_dst_v4 := Some (ipv4_from f)\<rparr>
      else if t = 27 \<and> length f = 16 then s\<lparr>sl_src_v6 := Some (Ipv6 f)\<rparr>
      else if t = 28 \<and> length f = 16 then s\<lparr>sl_dst_v6 := Some (Ipv6 f)\<rparr>
      else s)"

fun fill_slots :: "(u16 \<times> u16) list \<Rightarrow> bytes \<Rightarrow> slots \<Rightarrow> slots option" where
  "fill_slots [] bs s = Some s"
| "fill_slots ((t, n) # fs) bs s =
     (if length bs < unat n then None
      else fill_slots fs (drop (unat n) bs) (store_field t (take (unat n) bs) s))"

definition sum_present :: "u64 option \<Rightarrow> u64 option \<Rightarrow> u64 option" where
  "sum_present a b =
     (case (a, b) of
        (Some x, Some y) \<Rightarrow> Some (sat_add x y)
      | (Some x, None) \<Rightarrow> Some x
      | (None, Some y) \<Rightarrow> Some y
      | (None, None) \<Rightarrow> None)"

definition addresses :: "slots \<Rightarrow> (ip_addr \<times> ip_addr) option" where
  "addresses s =
     (case (sl_src_v4 s, sl_dst_v4 s) of
        (Some a, Some b) \<Rightarrow> Some (V4 a, V4 b)
      | _ \<Rightarrow> (case (sl_src_v6 s, sl_dst_v6 s) of
                (Some a, Some b) \<Rightarrow> Some (V6 a, V6 b)
              | _ \<Rightarrow> None))"

definition decode_one_record :: "(u16 \<times> u16) list \<Rightarrow> bytes \<Rightarrow> flow_record option" where
  "decode_one_record fs bs =
     Option.bind (fill_slots fs bs no_slots) (\<lambda>s.
       map_option (\<lambda>(src, dst).
         \<lparr>fr_src_addr = src, fr_dst_addr = dst, fr_src_port = sl_src_port s, fr_dst_port = sl_dst_port s,
          fr_protocol = sl_protocol s, fr_in_if_index = sl_in_if s, fr_out_if_index = sl_out_if s,
          fr_src_as = sl_src_as s, fr_dst_as = sl_dst_as s, fr_direction = sl_direction s,
          fr_bytes = sum_present (sl_in_bytes s) (sl_out_bytes s),
          fr_pkts = sum_present (sl_in_pkts s) (sl_out_pkts s)\<rparr>) (addresses s))"

definition chunk :: "nat \<Rightarrow> bytes \<Rightarrow> nat \<Rightarrow> bytes" where
  "chunk n bs i = take n (drop (i * n) bs)"

definition parse_data_records :: "bytes \<Rightarrow> layout \<Rightarrow> flow_error + flow_record list" where
  "parse_data_records body t =
     (let rec = la_record_len t in
      if rec = 0 then Inr []
      else let n = length body div rec; trailing = drop (n * rec) body in
        if 3 < length trailing then Inl (TruncatedFlowset rec (length trailing))
        else and_then (validate_padding trailing) (\<lambda>_.
          Inr (List.map_filter (\<lambda>i. decode_one_record (la_fields t) (chunk rec body i)) [0..<n])))"

text \<open>34 is the sampling interval, 50 that of a random sampler.\<close>

fun sampling_in :: "(u16 \<times> u16) list \<Rightarrow> bytes \<Rightarrow> u32 option" where
  "sampling_in [] bs = None"
| "sampling_in ((t, n) # fs) bs =
     (if length bs < unat n then None
      else let v = ucast (be_uint (take (unat n) bs)) in
        if (t = 34 \<or> t = 50) \<and> 1 \<le> v then Some v else sampling_in fs (drop (unat n) bs))"

definition parse_options_data :: "bytes \<Rightarrow> layout \<Rightarrow> u32 option" where
  "parse_options_data body t =
     (if la_record_len t = 0 \<or> length body < la_record_len t then None
      else sampling_in (la_fields t) (take (la_record_len t) body))"

subsection \<open>A datagram\<close>

record decoded =
  de_source_id :: u32
  de_sys_uptime :: u32
  de_sequence :: u32
  de_records :: "flow_record list"
  de_reported_sampling :: "u32 option"
  de_templates_learned :: nat
  de_data_without_template :: nat
  de_exporter_restarted :: bool
  de_sampling_state_expired :: bool

text \<open>The records of a data set that fails are not counted: its error ends the datagram.\<close>

definition read_flowset ::
    "u16 \<Rightarrow> bytes \<Rightarrow> u32 \<Rightarrow> decoded \<Rightarrow> template_cache \<Rightarrow> (flow_error + decoded) \<times> template_cache" where
  "read_flowset fid body sid out c =
     (if fid = 0
      then (let (r, c') = parse_templates sid body 0 c in
            (and_then r (\<lambda>n. Inr (out\<lparr>de_templates_learned := de_templates_learned out + n\<rparr>)), c'))
      else if fid = 1
      then (let (r, c') = parse_options_template sid body 0 c in
            (and_then r (\<lambda>n. Inr (out\<lparr>de_templates_learned := de_templates_learned out + n\<rparr>)), c'))
      else if 256 \<le> fid
      then (case cache_get c sid fid of
              None \<Rightarrow> (Inr (out\<lparr>de_data_without_template := de_data_without_template out + 1\<rparr>), c)
            | Some t \<Rightarrow>
                if la_is_options t
                then (Inr (case parse_options_data body t of
                             Some rate \<Rightarrow> out\<lparr>de_reported_sampling := Some rate\<rparr>
                           | None \<Rightarrow> out), c)
                else (and_then (parse_data_records body t) (\<lambda>rs.
                        Inr (out\<lparr>de_records := de_records out @ rs\<rparr>)), c))
      else (Inr out, c))"

definition read_head :: "bytes \<Rightarrow> flow_error + u16 \<times> bytes \<times> bytes" where
  "read_head bs =
     and_then (read_uint Short 2 bs) (\<lambda>(fid, bs1).
     and_then (read_uint Short 2 bs1) (\<lambda>(len :: u16, bs2).
     and_then (ensure (BadFlowsetLength len) (4 \<le> unat len)) (\<lambda>_.
     and_then (ensure (UnalignedFlowset len) (unat len mod 4 = 0)) (\<lambda>_.
     and_then (ensure (TruncatedFlowset (unat len - 4) (length bs2)) (unat len - 4 \<le> length bs2)) (\<lambda>_.
       Inr (fid, take (unat len - 4) bs2, drop (unat len - 4) bs2))))))"

lemma read_head_shrinks: "read_head bs = Inr (fid, body, rest) \<Longrightarrow> length body + length rest + 4 = length bs"
  by (auto simp: read_head_def res_simps split: prod.splits)

function walk_flowsets ::
    "bytes \<Rightarrow> u32 \<Rightarrow> decoded \<Rightarrow> template_cache \<Rightarrow> (flow_error + decoded) \<times> template_cache" where
  "walk_flowsets bs sid out c =
     (if length bs < 4
      then (and_then (validate_padding bs) (\<lambda>_. Inr out), c)
      else (case read_head bs of
              Inl e \<Rightarrow> (Inl e, c)
            | Inr (fid, body, rest) \<Rightarrow>
                (case read_flowset fid body sid out c of
                   (Inl e, c') \<Rightarrow> (Inl e, c')
                 | (Inr out', c') \<Rightarrow> walk_flowsets rest sid out' c')))"
  by auto
termination by (relation "measure (\<lambda>(bs, _). length bs)") (auto dest: read_head_shrinks)

declare walk_flowsets.simps [simp del]

lemma walk_flowsets_cases:
  "length bs < 4 \<Longrightarrow> walk_flowsets bs sid out c = (and_then (validate_padding bs) (\<lambda>_. Inr out), c)"
  "4 \<le> length bs \<Longrightarrow> read_head bs = Inl e \<Longrightarrow> walk_flowsets bs sid out c = (Inl e, c)"
  "4 \<le> length bs \<Longrightarrow> read_head bs = Inr (fid, body, rest) \<Longrightarrow> walk_flowsets bs sid out c =
     (case read_flowset fid body sid out c of
        (Inl e, c') \<Rightarrow> (Inl e, c') | (Inr out', c') \<Rightarrow> walk_flowsets rest sid out' c')"
  by (subst walk_flowsets.simps; simp)+

definition read_header :: "bytes \<Rightarrow> flow_error + (u32 \<times> u32 \<times> u32 \<times> u32) \<times> bytes" where
  "read_header bs =
     and_then (ensure (Short HEADER_LEN (length bs)) (HEADER_LEN \<le> length bs)) (\<lambda>_.
     and_then (read_uint Short 2 bs) (\<lambda>(version, bs).
     and_then (ensure (UnsupportedVersion version) (version = 9)) (\<lambda>_.
     and_then (read_uint Short 2 bs) (\<lambda>(_ :: u16, bs).
     and_then (read_uint Short 4 bs) (\<lambda>(uptime, bs).
     and_then (read_uint Short 4 bs) (\<lambda>(secs, bs).
     and_then (read_uint Short 4 bs) (\<lambda>(seq, bs).
     and_then (read_uint Short 4 bs) (\<lambda>(sid, bs).
       Inr ((uptime, secs, seq, sid), bs)))))))))"

definition v9_decode :: "bytes \<Rightarrow> template_cache \<Rightarrow> (flow_error + decoded) \<times> template_cache" where
  "v9_decode datagram c =
     (case read_header datagram of
        Inl e \<Rightarrow> (Inl e, c)
      | Inr ((uptime, secs, seq, sid), rest) \<Rightarrow>
          (let ((restarted, expired), c') = begin_datagram sid uptime secs seq c in
           walk_flowsets rest sid
             \<lparr>de_source_id = sid, de_sys_uptime = uptime, de_sequence = seq, de_records = [],
              de_reported_sampling = None, de_templates_learned = 0, de_data_without_template = 0,
              de_exporter_restarted = restarted, de_sampling_state_expired = expired\<rparr> c'))"

subsection \<open>What every learned template keeps\<close>

text \<open>The three walks, by what they find at the head of the bytes.\<close>

lemma parse_templates_induct [case_names ends fails learns]:
  assumes "\<And>bs n c. length bs < 4 \<Longrightarrow> Q bs n c"
    and "\<And>bs n c e. 4 \<le> length bs \<Longrightarrow> read_template bs = Inl e \<Longrightarrow> Q bs n c"
    and "\<And>bs n c tid t rest. 4 \<le> length bs \<Longrightarrow> read_template bs = Inr (tid, t, rest) \<Longrightarrow>
      Q rest (n + 1) (cache_insert sid tid t c) \<Longrightarrow> Q bs n c"
  shows "Q bs n c"
proof (induction "length bs" arbitrary: bs n c rule: less_induct)
  case less
  consider "length bs < 4" | e where "4 \<le> length bs" "read_template bs = Inl e"
    | tid t rest where "4 \<le> length bs" "read_template bs = Inr (tid, t, rest)"
    by (metis leI prod_cases3 sum.exhaust)
  then show ?case
  proof cases
    case (3 tid t rest)
    then have "length rest < length bs" using read_template_shrinks by fastforce
    with 3 less assms(3) show ?thesis by blast
  qed (use assms(1,2) in blast)+
qed

lemma parse_options_template_induct [case_names ends fails stops learns]:
  assumes "\<And>bs n c. length bs < 6 \<Longrightarrow> Q bs n c"
    and "\<And>bs n c e. 6 \<le> length bs \<Longrightarrow> read_options_template bs = Inl e \<Longrightarrow> Q bs n c"
    and "\<And>bs n c rest. 6 \<le> length bs \<Longrightarrow> read_options_template bs = Inr (None, rest) \<Longrightarrow> Q bs n c"
    and "\<And>bs n c tid t rest. 6 \<le> length bs \<Longrightarrow> read_options_template bs = Inr (Some (tid, t), rest) \<Longrightarrow>
      Q rest (n + 1) (cache_insert sid tid t c) \<Longrightarrow> Q bs n c"
  shows "Q bs n c"
proof (induction "length bs" arbitrary: bs n c rule: less_induct)
  case less
  consider "length bs < 6" | e where "6 \<le> length bs" "read_options_template bs = Inl e"
    | rest where "6 \<le> length bs" "read_options_template bs = Inr (None, rest)"
    | tid t rest where "6 \<le> length bs" "read_options_template bs = Inr (Some (tid, t), rest)"
    by (metis leI option.exhaust surj_pair sum.exhaust)
  then show ?case
  proof cases
    case (4 tid t rest)
    then have "length rest < length bs" using read_options_template_shrinks by fastforce
    with 4 less assms(4) show ?thesis by blast
  qed (use assms(1-3) in blast)+
qed

lemma walk_flowsets_induct [case_names ends fails flowset]:
  assumes "\<And>bs out c. length bs < 4 \<Longrightarrow> Q bs out c"
    and "\<And>bs out c e. 4 \<le> length bs \<Longrightarrow> read_head bs = Inl e \<Longrightarrow> Q bs out c"
    and "\<And>bs out c fid body rest r c'. 4 \<le> length bs \<Longrightarrow> read_head bs = Inr (fid, body, rest) \<Longrightarrow>
      read_flowset fid body sid out c = (r, c') \<Longrightarrow> (\<And>out'. r = Inr out' \<Longrightarrow> Q rest out' c') \<Longrightarrow> Q bs out c"
  shows "Q bs out c"
proof (induction "length bs" arbitrary: bs out c rule: less_induct)
  case (less bs out c)
  consider "length bs < 4" | e where "4 \<le> length bs" "read_head bs = Inl e"
    | fid body rest where "4 \<le> length bs" "read_head bs = Inr (fid, body, rest)"
    by (metis leI prod_cases3 sum.exhaust)
  then show ?case
  proof cases
    case (3 fid body rest)
    obtain r c' where f: "read_flowset fid body sid out c = (r, c')" by fastforce
    from 3 have "length rest < length bs" using read_head_shrinks by fastforce
    with less have "Q rest out' c'" for out' by blast
    with 3 f assms(3) show ?thesis by blast
  qed (use assms(1,2) in blast)+
qed

text \<open>A property of the cache that learning a template of the source keeps, whatever the datagram
  brings and however its decoding ends.\<close>

locale cache_invariant =
  fixes sid :: u32 and P :: "template_cache \<Rightarrow> bool"
  assumes learn: "P c \<Longrightarrow> P (cache_insert sid tid t c)"
begin

lemma templates_keep: "P c \<Longrightarrow> P (snd (parse_templates sid bs n c))"
  by (induction bs n c rule: parse_templates_induct [where sid = sid]) (simp_all add: parse_templates_cases learn)

lemma options_keep: "P c \<Longrightarrow> P (snd (parse_options_template sid bs n c))"
  by (induction bs n c rule: parse_options_template_induct [where sid = sid])
    (simp_all add: parse_options_template_cases learn)

lemma flowset_keep: "P c \<Longrightarrow> P (snd (read_flowset fid body sid out c))"
  using templates_keep [of c body 0] options_keep [of c body 0]
  by (auto simp: read_flowset_def split: prod.split option.split)

lemma walk_keep: "P c \<Longrightarrow> P (snd (walk_flowsets bs sid out c))"
proof (induction bs out c rule: walk_flowsets_induct [where sid = sid])
  case (flowset bs out c fid body rest r c')
  then have "P c'" using flowset_keep [of c fid body out] by simp
  with flowset show ?case by (simp add: walk_flowsets_cases split: sum.split)
qed (simp_all add: walk_flowsets_cases)

end

subsection \<open>The cache is bounded\<close>

definition cache_ok :: "template_cache \<Rightarrow> bool" where
  "cache_ok c \<longleftrightarrow> wf_map (tc_templates c) \<and> wf_map (tc_exporters c) \<and> length (tc_templates c) \<le> MAX_TEMPLATES"

lemma least_recent_key: "least_recent ts = Some (k, u) \<Longrightarrow> k \<in> fst ` set ts"
  by (induction ts arbitrary: k u rule: least_recent.induct) (auto split: option.splits if_splits)

lemma least_recent_None [simp]: "least_recent ts = None \<longleftrightarrow> ts = []"
  by (cases ts rule: least_recent.cases) (auto split: option.split)

lemma cache_insert_ok: "cache_ok c \<Longrightarrow> cache_ok (cache_insert sid tid t c)"
proof -
  assume ok: "cache_ok c"
  let ?ts = "tc_templates c"
  let ?kept = "if map_of ?ts (sid, tid) = None \<and> MAX_TEMPLATES \<le> length ?ts
    then (case least_recent ?ts of Some (k, _) \<Rightarrow> AList.delete k ?ts | None \<Rightarrow> ?ts) else ?ts"
  have "wf_map ?kept" using ok by (auto simp: cache_ok_def split: option.split)
  moreover have "length (AList.update (sid, tid) v ?kept) \<le> MAX_TEMPLATES" for v
  proof (cases "map_of ?ts (sid, tid) = None \<and> MAX_TEMPLATES \<le> length ?ts")
    case True
    then have "?ts \<noteq> []" by (auto simp: MAX_TEMPLATES_def)
    then obtain k u where k: "least_recent ?ts = Some (k, u)" by (cases "least_recent ?ts") auto
    then have "Suc (length (AList.delete k ?ts)) = length ?ts"
      using ok least_recent_key by (intro length_delete_wf) (auto simp: cache_ok_def)
    with True k ok show ?thesis by (simp add: length_update cache_ok_def)
  next
    case False
    with ok show ?thesis
      by (auto simp: length_update cache_ok_def map_of_eq_None_iff)
  qed
  ultimately show ?thesis using ok by (simp add: cache_insert_def cache_ok_def Let_def)
qed

lemma begin_datagram_ok: "cache_ok c \<Longrightarrow> cache_ok (snd (begin_datagram sid uptime secs seq c))"
  by (auto simp: begin_datagram_def cache_ok_def Let_def intro: order_trans [OF length_filter_le])

interpretation bounded: cache_invariant sid cache_ok for sid
  by unfold_locales (rule cache_insert_ok)

text \<open>Whatever bytes an exporter sends, and whether or not they decode, its template cache holds at
  most \<open>MAX_TEMPLATES\<close> layouts, one for each source and template id.\<close>

theorem v9_cache_bounded:
  assumes "cache_ok c"
  shows "cache_ok (snd (v9_decode datagram c))"
  using assms bounded.walk_keep begin_datagram_ok [OF assms]
  by (auto simp: v9_decode_def Let_def split: sum.split prod.split) (metis snd_conv)

subsection \<open>What a datagram can cost\<close>

definition work :: "decoded \<Rightarrow> nat" where
  "work out = 4 * de_data_without_template out + 6 * de_templates_learned out + length (de_records out)"

lemma templates_learned:
  "parse_templates sid bs n c = (Inr m, c') \<Longrightarrow> n \<le> m \<and> 6 * m \<le> 6 * n + length bs \<and> (m = n \<longrightarrow> c' = c)"
proof (induction bs n c rule: parse_templates_induct [where sid = sid])
  case (learns bs n c tid t rest)
  with read_template_shrinks [OF learns(2)] show ?case by (auto simp: parse_templates_cases)
qed (auto simp: parse_templates_cases res_simps)

lemma options_learned:
  "parse_options_template sid bs n c = (Inr m, c') \<Longrightarrow> n \<le> m \<and> 6 * m \<le> 6 * n + length bs \<and> (m = n \<longrightarrow> c' = c)"
proof (induction bs n c rule: parse_options_template_induct [where sid = sid])
  case (learns bs n c tid t rest)
  with read_options_template_shrinks [OF learns(2)] show ?case by (auto simp: parse_options_template_cases)
qed (auto simp: parse_options_template_cases res_simps)

lemma length_map_filter: "length (List.map_filter f xs) \<le> length xs"
  by (simp add: List.map_filter_def length_filter_le)

lemma data_records_bound: "parse_data_records body t = Inr rs \<Longrightarrow> length rs \<le> length body"
proof -
  assume a: "parse_data_records body t = Inr rs"
  show ?thesis
  proof (cases "la_record_len t = 0")
    case False
    with a have "\<exists>f. rs = List.map_filter f [0..<length body div la_record_len t]"
      by (auto simp: parse_data_records_def Let_def res_simps split: if_splits)
    then have "length rs \<le> length [0..<length body div la_record_len t]" using length_map_filter by blast
    then have "length rs \<le> length body div la_record_len t" by simp
    also have "\<dots> \<le> length body" by (rule div_le_dividend)
    finally show ?thesis .
  qed (use a in \<open>simp add: parse_data_records_def\<close>)
qed

lemma flowset_work: "read_flowset fid body sid out c = (Inr out', c') \<Longrightarrow> work out' \<le> work out + 4 + length body"
  by (auto simp: read_flowset_def work_def Let_def res_simps split: if_splits prod.splits option.splits
      dest!: templates_learned options_learned data_records_bound)

lemma walk_work: "walk_flowsets bs sid out c = (Inr out', c') \<Longrightarrow> work out' \<le> work out + length bs"
proof (induction bs out c rule: walk_flowsets_induct [where sid = sid])
  case (flowset bs out c fid body rest r c1)
  then obtain out1 where "r = Inr out1" "walk_flowsets rest sid out1 c1 = (Inr out', c')"
    by (auto simp: walk_flowsets_cases split: sum.splits)
  with flowset flowset_work [of fid body sid out c out1 c1] read_head_shrinks [OF flowset(2)] show ?case by fastforce
qed (auto simp: walk_flowsets_cases res_simps)

lemma read_header_length: "read_header bs = Inr (h, rest) \<Longrightarrow> length rest + HEADER_LEN = length bs"
  by (auto simp: read_header_def res_simps HEADER_LEN_def split: prod.splits)

text \<open>What is extracted from a datagram is bounded by its length: a set that misses its layout takes
  at least four bytes, a learned layout six, and a record one.\<close>

theorem v9_work_bounded:
  assumes "v9_decode datagram c = (Inr out, c')"
  shows "4 * de_data_without_template out + 6 * de_templates_learned out + length (de_records out) + HEADER_LEN
    \<le> length datagram"
proof -
  obtain uptime secs seq sid rest where h: "read_header datagram = Inr ((uptime, secs, seq, sid), rest)"
    using assms by (auto simp: v9_decode_def split: sum.splits)
  then obtain out0 c0 where "walk_flowsets rest sid out0 c0 = (Inr out, c')" "work out0 = 0"
    using assms by (auto simp: v9_decode_def work_def Let_def split: prod.splits)
  from walk_work [OF this(1)] this(2) read_header_length [OF h] show ?thesis by (simp add: work_def)
qed

subsection \<open>Which layouts are used\<close>

text \<open>The FlowSets of a datagram, one behind the other, and the records that a layout cuts out of one.\<close>

inductive carries :: "bytes \<Rightarrow> u16 \<Rightarrow> bytes \<Rightarrow> bool" where
  here: "read_head bs = Inr (fid, body, rest) \<Longrightarrow> carries bs fid body"
| behind: "read_head bs = Inr (other, skipped, rest) \<Longrightarrow> carries rest fid body \<Longrightarrow> carries bs fid body"

definition decoded_by :: "layout \<Rightarrow> bytes \<Rightarrow> flow_record \<Rightarrow> bool" where
  "decoded_by t body r =
     (\<exists>i < length body div la_record_len t.
        decode_one_record (la_fields t) (take (la_record_len t) (drop (i * la_record_len t) body)) = Some r)"

lemma data_records_decoded: "parse_data_records body t = Inr rs \<Longrightarrow> \<forall>r \<in> set rs. decoded_by t body r"
  by (auto simp: parse_data_records_def decoded_by_def chunk_def Let_def res_simps List.map_filter_def
      split: if_splits) blast

definition through_cache :: "template_cache \<Rightarrow> u32 \<Rightarrow> u16 \<Rightarrow> bytes \<Rightarrow> flow_record \<Rightarrow> bool" where
  "through_cache c sid fid body r =
     (\<exists>t. cache_get c sid fid = Some t \<and> \<not> la_is_options t \<and> decoded_by t body r)"

lemma flowset_learned:
  "read_flowset fid body sid out c = (Inr out', c') \<Longrightarrow> de_templates_learned out \<le> de_templates_learned out' \<and>
     (de_templates_learned out' = de_templates_learned out \<longrightarrow> c' = c \<and>
       (\<forall>r \<in> set (de_records out'). r \<in> set (de_records out) \<or> through_cache c sid fid body r))"
  by (auto simp: read_flowset_def Let_def res_simps through_cache_def split: if_splits prod.splits option.splits
      dest!: templates_learned options_learned data_records_decoded)

lemma walk_learned:
  "walk_flowsets bs sid out c = (Inr out', c') \<Longrightarrow> de_templates_learned out \<le> de_templates_learned out' \<and>
     (de_templates_learned out' = de_templates_learned out \<longrightarrow>
       (\<forall>r \<in> set (de_records out'). r \<in> set (de_records out) \<or>
          (\<exists>fid body. carries bs fid body \<and> through_cache c sid fid body r)))"
proof (induction bs out c rule: walk_flowsets_induct [where sid = sid])
  case (flowset bs out c fid body rest r c1)
  then obtain out1 where r: "r = Inr out1" and w: "walk_flowsets rest sid out1 c1 = (Inr out', c')"
    by (auto simp: walk_flowsets_cases split: sum.splits)
  note one = flowset_learned [of fid body sid out c out1 c1, OF flowset(3) [unfolded r]]
  note rest = flowset(4) [OF r w]
  show ?case
  proof (intro conjI impI ballI)
    show "de_templates_learned out \<le> de_templates_learned out'" using one rest by linarith
  next
    fix x
    assume eq: "de_templates_learned out' = de_templates_learned out" and x: "x \<in> set (de_records out')"
    with one rest have same: "de_templates_learned out1 = de_templates_learned out"
      "de_templates_learned out' = de_templates_learned out1" by linarith+
    with one have c1: "c1 = c" by blast
    from rest same(2) x have "x \<in> set (de_records out1) \<or>
        (\<exists>fid body. carries rest fid body \<and> through_cache c1 sid fid body x)" by blast
    then show "x \<in> set (de_records out) \<or> (\<exists>fid body. carries bs fid body \<and> through_cache c sid fid body x)"
    proof
      assume "x \<in> set (de_records out1)"
      with one same(1) carries.here [OF flowset(2)] show ?thesis by blast
    next
      assume "\<exists>fid body. carries rest fid body \<and> through_cache c1 sid fid body x"
      with c1 carries.behind [OF flowset(2)] show ?thesis by blast
    qed
  qed
qed (auto simp: walk_flowsets_cases res_simps)

lemma flowset_restarted: "read_flowset fid body sid out c = (Inr out', c') \<Longrightarrow>
    de_exporter_restarted out' = de_exporter_restarted out"
  by (auto simp: read_flowset_def Let_def res_simps split: if_splits prod.splits option.splits)

lemma walk_restarted: "walk_flowsets bs sid out c = (Inr out', c') \<Longrightarrow>
    de_exporter_restarted out' = de_exporter_restarted out"
proof (induction bs out c rule: walk_flowsets_induct [where sid = sid])
  case (flowset bs out c fid body rest r c1)
  then show ?case by (auto simp: walk_flowsets_cases split: sum.splits dest!: flowset_restarted)
qed (auto simp: walk_flowsets_cases res_simps)

lemma sat_sub_mono: "a \<le> b \<Longrightarrow> sat_sub a r \<le> sat_sub b (r :: 'a::len word)"
  by (simp add: word_le_nat_alt num_simps diff_le_mono)

text \<open>C38: a datagram that teaches no layout is read through fresh layouts only. Every flow record is cut out of a
  FlowSet that the datagram carries, by the very layout that was cached for the source under the id
  of that FlowSet; the layout is a data layout and was not refreshed more than half an hour before
  the datagram was sent. Once the datagram reveals a restart of the exporter, it yields no record
  through the layouts learned before.\<close>

theorem v9_no_stale_layout:
  assumes "v9_decode datagram c = (Inr out, c')" and "de_templates_learned out = 0"
    and "read_header datagram = Inr ((uptime, secs, seq, sid), rest)"
  shows "(de_exporter_restarted out \<longrightarrow> de_records out = []) \<and>
    (\<forall>r \<in> set (de_records out). \<exists>fid body t used refreshed. carries rest fid body \<and>
       ((sid, fid), t, used, refreshed) \<in> set (tc_templates c) \<and> \<not> la_is_options t \<and>
       sat_sub secs refreshed \<le> TEMPLATE_TTL_SECONDS \<and> decoded_by t body r)"
proof -
  obtain restarted expired c0 where b: "begin_datagram sid uptime secs seq c = ((restarted, expired), c0)"
    by (metis surj_pair)
  from assms b obtain out0 where w: "walk_flowsets rest sid out0 c0 = (Inr out, c')" and none: "de_records out0 = []"
    "de_templates_learned out0 = 0" and start: "de_exporter_restarted out0 = restarted"
    by (auto simp: v9_decode_def)
  let ?reference = "case map_of (tc_exporters c) sid of Some p \<Rightarrow> max (ec_unix_secs p) secs | None \<Rightarrow> secs"
  have earlier: "secs \<le> ?reference" by (simp split: option.split)
  have each: "\<not> restarted \<and> (\<exists>fid body t used refreshed. carries rest fid body \<and>
       ((sid, fid), t, used, refreshed) \<in> set (tc_templates c) \<and> \<not> la_is_options t \<and>
       sat_sub secs refreshed \<le> TEMPLATE_TTL_SECONDS \<and> decoded_by t body r)" if r: "r \<in> set (de_records out)" for r
  proof -
    from walk_learned [OF w] assms(2) none r obtain fid body t where
      set: "carries rest fid body" and t: "cache_get c0 sid fid = Some t" "\<not> la_is_options t" "decoded_by t body r"
      by (auto simp: through_cache_def)
    then obtain used refreshed where mem: "((sid, fid), t, used, refreshed) \<in> set (tc_templates c0)"
      by (auto simp: cache_get_def dest!: map_of_SomeD split: option.splits if_splits)
    have kept: "((sid, fid), t, used, refreshed) \<in> set (tc_templates c)" "\<not> restarted"
      "sat_sub ?reference refreshed \<le> TEMPLATE_TTL_SECONDS"
      using b mem by (auto simp: begin_datagram_def Let_def split: if_splits)
    from sat_sub_mono [OF earlier] kept(3) have "sat_sub secs refreshed \<le> TEMPLATE_TTL_SECONDS" by (rule order_trans)
    with set t kept(1,2) show ?thesis by blast
  qed
  moreover have "de_exporter_restarted out = restarted" using walk_restarted [OF w] start by simp
  ultimately show ?thesis by (metis list.set_intros(1) neq_Nil_conv)
qed

subsection \<open>A datagram is read as it was written\<close>

text \<open>A flow as Cisco exports it for IPv4, the layout of its octets, and the record it stands for.\<close>

record cisco_flow =
  cf_src :: ipv4
  cf_dst :: ipv4
  cf_src_port :: u16
  cf_dst_port :: u16
  cf_protocol :: u8
  cf_input :: u32
  cf_output :: u32
  cf_src_as :: u32
  cf_dst_as :: u32
  cf_direction :: u8
  cf_octets :: u64
  cf_packets :: u64

definition cisco_fields :: "(u16 \<times> u16) list" where
  "cisco_fields = [(8, 4), (12, 4), (7, 2), (11, 2), (4, 1), (10, 4), (14, 4), (16, 4), (17, 4), (61, 1), (1, 8), (2, 8)]"

definition cisco_bytes :: "cisco_flow \<Rightarrow> bytes" where
  "cisco_bytes r =
     octets4 (cf_src r) @ octets4 (cf_dst r) @ word_bytes (cf_src_port r) @ word_bytes (cf_dst_port r) @
     word_bytes (cf_protocol r) @ word_bytes (cf_input r) @ word_bytes (cf_output r) @
     word_bytes (cf_src_as r) @ word_bytes (cf_dst_as r) @ word_bytes (cf_direction r) @
     word_bytes (cf_octets r) @ word_bytes (cf_packets r)"

definition cisco_record :: "cisco_flow \<Rightarrow> flow_record" where
  "cisco_record r =
     \<lparr>fr_src_addr = V4 (cf_src r), fr_dst_addr = V4 (cf_dst r), fr_src_port = Some (cf_src_port r),
      fr_dst_port = Some (cf_dst_port r), fr_protocol = cf_protocol r, fr_in_if_index = Some (cf_input r),
      fr_out_if_index = Some (cf_output r), fr_src_as = Some (cf_src_as r), fr_dst_as = Some (cf_dst_as r),
      fr_direction = Some (cf_direction r), fr_bytes = Some (cf_octets r), fr_pkts = Some (cf_packets r)\<rparr>"

lemma fill_slots_field: "length f = unat n \<Longrightarrow> fill_slots ((t, n) # fs) (f @ bs) s = fill_slots fs bs (store_field t f s)"
  by simp

lemma fill_slots_last: "length f = unat n \<Longrightarrow> fill_slots [(t, n)] f s = Some (store_field t f s)"
  by simp

lemma length_octets4 [simp]: "length (octets4 a) = 4"
  by (cases a) simp

lemma ipv4_from_octets [simp]: "ipv4_from (octets4 a) = a"
  by (cases a) (simp add: ipv4_from_def)

lemma length_cisco_bytes [simp]: "length (cisco_bytes r) = 46"
  by (simp add: cisco_bytes_def)

lemma ucast_ucast_back [wire_simps]: "LENGTH('a) \<le> 64 \<Longrightarrow> ucast (ucast (w :: 'a::len word) :: u64) = w"
  by (rule bit_word_eqI) (auto simp: bit_simps)

lemma decode_cisco_record: "decode_one_record cisco_fields (cisco_bytes r) = Some (cisco_record r)"
proof -
  have "fill_slots cisco_fields (cisco_bytes r) no_slots =
    Some (no_slots\<lparr>sl_src_v4 := Some (cf_src r), sl_dst_v4 := Some (cf_dst r), sl_src_port := Some (cf_src_port r),
      sl_dst_port := Some (cf_dst_port r), sl_protocol := cf_protocol r, sl_in_if := Some (cf_input r),
      sl_out_if := Some (cf_output r), sl_src_as := Some (cf_src_as r), sl_dst_as := Some (cf_dst_as r),
      sl_direction := Some (cf_direction r), sl_in_bytes := Some (cf_octets r), sl_in_pkts := Some (cf_packets r)\<rparr>)"
    unfolding cisco_fields_def cisco_bytes_def
    by (simp add: fill_slots_field fill_slots_last del: fill_slots.simps)
      (simp add: store_field_def wire_simps)
  then show ?thesis
    by (simp add: decode_one_record_def addresses_def sum_present_def cisco_record_def no_slots_def)
qed

text \<open>Records one after another, and zeros up to a multiple of four.\<close>

definition pad_to_four :: "nat \<Rightarrow> bytes" where
  "pad_to_four n = replicate ((4 - n mod 4) mod 4) 0"

definition data_body :: "cisco_flow list \<Rightarrow> bytes" where
  "data_body rs = concat (map cisco_bytes rs) @ pad_to_four (46 * length rs)"

definition cisco_layout :: layout where
  "cisco_layout = \<lparr>la_fields = cisco_fields, la_record_len = 46, la_is_options = False\<rparr>"

lemma length_concat_cisco [simp]: "length (concat (map cisco_bytes rs)) = 46 * length rs"
  by (induction rs) simp_all

lemma chunk_cisco: "i < length rs \<Longrightarrow> chunk 46 (concat (map cisco_bytes rs) @ pad) i = cisco_bytes (rs ! i)"
proof (induction rs arbitrary: i)
  case (Cons r rs)
  show ?case
  proof (cases i)
    case (Suc j)
    with Cons show ?thesis by (simp add: chunk_def)
  qed (simp add: chunk_def)
qed simp

lemma map_filter_Some: "(\<And>x. x \<in> set xs \<Longrightarrow> f x = Some (g x)) \<Longrightarrow> List.map_filter f xs = map g xs"
  by (induction xs) (simp_all add: List.map_filter_def)

lemma parse_data_body: "parse_data_records (data_body rs) cisco_layout = Inr (map cisco_record rs)"
proof -
  let ?n = "length rs"
  have pad: "length (pad_to_four (46 * ?n)) \<le> 3" "\<not> nonzero (pad_to_four (46 * ?n))"
    by (auto simp: pad_to_four_def nonzero_def list_ex_iff)
  then have n: "length (data_body rs) div 46 = ?n" by (simp add: data_body_def)
  have "List.map_filter (\<lambda>i. decode_one_record cisco_fields (chunk 46 (data_body rs) i)) [0..<?n] =
      map (\<lambda>i. cisco_record (rs ! i)) [0..<?n]"
    by (rule map_filter_Some) (simp add: data_body_def chunk_cisco decode_cisco_record)
  also have "\<dots> = map cisco_record (map ((!) rs) [0..<?n])" by (simp add: comp_def)
  also have "\<dots> = map cisco_record rs" by (simp add: map_nth)
  finally have "List.map_filter (\<lambda>i. decode_one_record cisco_fields (chunk 46 (data_body rs) i)) [0..<?n] =
      map cisco_record rs" .
  with pad n show ?thesis
    by (simp add: parse_data_records_def cisco_layout_def validate_padding_def ensure_def Let_def)
      (simp add: data_body_def)
qed

definition fields_bytes :: "(u16 \<times> u16) list \<Rightarrow> bytes" where
  "fields_bytes fs = concat (map (\<lambda>(t, n). word_bytes t @ word_bytes n) fs)"

lemma read_fields_bytes: "read_fields (length fs) (fields_bytes fs @ rest) = Inr (fs, rest)"
  by (induction fs) (auto simp: fields_bytes_def wire_simps)

lemma length_fields_bytes [simp]: "length (fields_bytes fs) = 4 * length fs"
  by (induction fs) (auto simp: fields_bytes_def)

definition template_bytes :: "u16 \<Rightarrow> (u16 \<times> u16) list \<Rightarrow> bytes" where
  "template_bytes tid fs = word_bytes tid @ word_bytes (of_nat (length fs) :: u16) @ fields_bytes fs"

lemma read_template_bytes:
  assumes "fs \<noteq> []" "length fs < 65536" "fields_len fs \<noteq> 0"
  shows "read_template (template_bytes tid fs @ rest) =
    Inr (tid, \<lparr>la_fields = fs, la_record_len = fields_len fs, la_is_options = False\<rparr>, rest)"
proof -
  have "unat (of_nat (length fs) :: u16) = length fs" using assms(2) by (simp add: unat_of_nat)
  moreover from this assms(1) have "(of_nat (length fs) :: u16) \<noteq> 0" by (metis length_0_conv unat_0)
  ultimately show ?thesis using assms(3)
    by (simp add: read_template_def template_bytes_def wire_simps ensure_def read_fields_bytes)
qed

text \<open>A set: its id, its length with the four octets of its head, and its body.\<close>

definition set_bytes :: "u16 \<Rightarrow> bytes \<Rightarrow> bytes" where
  "set_bytes fid body = word_bytes fid @ word_bytes (of_nat (length body + 4) :: u16) @ body"

lemma length_set_bytes [simp]: "length (set_bytes fid body) = length body + 4"
  by (simp add: set_bytes_def)

lemma read_head_bytes:
  assumes "length body + 4 < 65536" "length body mod 4 = 0"
  shows "read_head (set_bytes fid body @ rest) = Inr (fid, body, rest)"
proof -
  have "unat (of_nat (length body + 4) :: u16) = length body + 4"
    using assms(1) by (subst unat_of_nat) simp
  with assms(2) show ?thesis
    by (simp add: read_head_def set_bytes_def wire_simps ensure_def)
qed

definition cisco_datagram :: "u32 \<Rightarrow> u32 \<Rightarrow> u32 \<Rightarrow> u32 \<Rightarrow> u16 \<Rightarrow> cisco_flow list \<Rightarrow> bytes" where
  "cisco_datagram uptime secs seq sid tid rs =
     word_bytes (9 :: u16) @ word_bytes (2 :: u16) @ word_bytes uptime @ word_bytes secs @ word_bytes seq @
     word_bytes sid @ set_bytes 0 (template_bytes tid cisco_fields) @ set_bytes tid (data_body rs)"

lemma read_cisco_header: "read_header (cisco_datagram uptime secs seq sid tid rs) =
    Inr ((uptime, secs, seq, sid), set_bytes 0 (template_bytes tid cisco_fields) @ set_bytes tid (data_body rs))"
  by (simp add: read_header_def cisco_datagram_def wire_simps ensure_def HEADER_LEN_def)

lemma begin_datagram_clock:
  "map_of (tc_exporters (snd (begin_datagram sid uptime secs seq c))) sid \<noteq> None"
  by (auto simp: begin_datagram_def Let_def split: option.split)

lemma cache_get_inserted:
  "map_of (tc_exporters c) sid \<noteq> None \<Longrightarrow> cache_get (cache_insert sid tid t c) sid tid = Some t"
  by (auto simp: cache_get_def cache_insert_def Let_def sat_sub_def split: option.split)

lemma cisco_fields_facts: "cisco_fields \<noteq> []" "length cisco_fields = 12" "fields_len cisco_fields = 46"
  by (simp_all add: cisco_fields_def fields_len_def)

lemma data_body_length: "length (data_body rs) mod 4 = 0" "length rs \<le> 1424 \<Longrightarrow> length (data_body rs) + 4 < 65536"
proof -
  have "(n + (4 - n mod 4) mod 4) mod 4 = 0" for n :: nat
  proof -
    have "n mod 4 < 4" by simp
    then have "n mod 4 = 0 \<or> n mod 4 = 1 \<or> n mod 4 = 2 \<or> n mod 4 = 3" by linarith
    then show ?thesis by (auto simp: mod_add_eq [of n 4, symmetric])
  qed
  then show "length (data_body rs) mod 4 = 0" by (simp add: data_body_def pad_to_four_def)
  assume "length rs \<le> 1424"
  moreover have "(4 - 46 * length rs mod 4) mod 4 < 4" by simp
  ultimately show "length (data_body rs) + 4 < 65536"
    unfolding data_body_def pad_to_four_def by (simp del: mod_less_divisor)
qed

definition data_datagram :: "u32 \<Rightarrow> u32 \<Rightarrow> u32 \<Rightarrow> u32 \<Rightarrow> u16 \<Rightarrow> cisco_flow list \<Rightarrow> bytes" where
  "data_datagram uptime secs seq sid tid rs =
     word_bytes (9 :: u16) @ word_bytes (1 :: u16) @ word_bytes uptime @ word_bytes secs @ word_bytes seq @
     word_bytes sid @ set_bytes tid (data_body rs)"

lemma read_data_header: "read_header (data_datagram uptime secs seq sid tid rs) =
    Inr ((uptime, secs, seq, sid), set_bytes tid (data_body rs))"
  by (simp add: read_header_def data_datagram_def wire_simps ensure_def HEADER_LEN_def)

definition decoded_from :: "u32 \<Rightarrow> u32 \<Rightarrow> u32 \<Rightarrow> bool \<Rightarrow> bool \<Rightarrow> nat \<Rightarrow> cisco_flow list \<Rightarrow> decoded" where
  "decoded_from sid uptime seq restarted expired learned rs =
     \<lparr>de_source_id = sid, de_sys_uptime = uptime, de_sequence = seq, de_records = map cisco_record rs,
      de_reported_sampling = None, de_templates_learned = learned, de_data_without_template = 0,
      de_exporter_restarted = restarted, de_sampling_state_expired = expired\<rparr>"

lemma read_data_set:
  assumes "256 \<le> tid" "cache_get c sid tid = Some cisco_layout"
  shows "read_flowset tid (data_body rs) sid out c = (Inr (out\<lparr>de_records := de_records out @ map cisco_record rs\<rparr>), c)"
proof -
  have "tid \<noteq> 0" "tid \<noteq> 1" using assms(1) by (auto simp: word_le_nat_alt)
  moreover have "\<not> la_is_options cisco_layout" by (simp add: cisco_layout_def)
  ultimately show ?thesis using assms by (simp add: read_flowset_def parse_data_body)
qed

lemma read_data_head: "length rs \<le> 1424 \<Longrightarrow> read_head (set_bytes tid (data_body rs)) = Inr (tid, data_body rs, [])"
  using read_head_bytes [of "data_body rs" tid "[]"] data_body_length by simp

lemma read_cisco_template:
  "read_flowset 0 (template_bytes tid cisco_fields) sid out c =
    (Inr (out\<lparr>de_templates_learned := de_templates_learned out + 1\<rparr>), cache_insert sid tid cisco_layout c)"
proof -
  have "read_template (template_bytes tid cisco_fields) = Inr (tid, cisco_layout, [])"
    using read_template_bytes [of cisco_fields tid "[]"] by (simp add: cisco_fields_facts cisco_layout_def)
  moreover have "4 \<le> length (template_bytes tid cisco_fields)" by (simp add: template_bytes_def)
  ultimately show ?thesis
    by (simp add: read_flowset_def parse_templates_cases validate_padding_def nonzero_def ensure_def)
qed

lemma data_decodes:
  assumes "256 \<le> tid" "length rs \<le> 1424" "begin_datagram sid uptime secs seq c = ((restarted, expired), c0)"
    and "cache_get c0 sid tid = Some cisco_layout"
  shows "v9_decode (data_datagram uptime secs seq sid tid rs) c =
    (Inr (decoded_from sid uptime seq restarted expired 0 rs), c0)"
  using assms by (simp add: v9_decode_def read_data_header walk_flowsets_cases read_data_head read_data_set
      validate_padding_def nonzero_def ensure_def decoded_from_def)

lemma cisco_decodes:
  assumes "256 \<le> tid" "length rs \<le> 1424" "begin_datagram sid uptime secs seq c = ((restarted, expired), c0)"
  shows "v9_decode (cisco_datagram uptime secs seq sid tid rs) c =
    (Inr (decoded_from sid uptime seq restarted expired 1 rs), cache_insert sid tid cisco_layout c0)"
proof -
  have "map_of (tc_exporters c0) sid \<noteq> None" using begin_datagram_clock [of sid uptime secs seq c] assms(3) by simp
  note get = cache_get_inserted [OF this, of tid cisco_layout]
  have "read_head (set_bytes 0 (template_bytes tid cisco_fields) @ rest) =
      Inr (0, template_bytes tid cisco_fields, rest)" for rest
    by (rule read_head_bytes) (simp_all add: template_bytes_def cisco_fields_facts)
  with assms get show ?thesis
    by (simp add: v9_decode_def read_cisco_header walk_flowsets_cases read_data_head read_data_set
        read_cisco_template validate_padding_def nonzero_def ensure_def decoded_from_def)
qed

text \<open>C34: Whatever the cache holds, a datagram that teaches the layout of its flows and then carries them is
  decoded to exactly these flows, up to the 1424 that a set has room for.\<close>

theorem v9_reads_what_was_written:
  assumes "256 \<le> tid" and "length rs \<le> 1424"
  shows "\<exists>out. fst (v9_decode (cisco_datagram uptime secs seq sid tid rs) c) = Inr out \<and>
    de_records out = map cisco_record rs \<and> de_source_id out = sid \<and> de_sys_uptime out = uptime \<and>
    de_sequence out = seq \<and> de_templates_learned out = 1 \<and> de_data_without_template out = 0"
proof -
  obtain restarted expired c0 where "begin_datagram sid uptime secs seq c = ((restarted, expired), c0)"
    by (metis surj_pair)
  from cisco_decodes [OF assms this] show ?thesis by (simp add: decoded_from_def)
qed

subsection \<open>Two datagrams\<close>

definition sample_flow :: cisco_flow where
  "sample_flow = \<lparr>cf_src = Ipv4 10 0 0 1, cf_dst = Ipv4 10 0 1 2, cf_src_port = 53, cf_dst_port = 4000,
     cf_protocol = 17, cf_input = 3, cf_output = 4, cf_src_as = 64500, cf_dst_as = 64501, cf_direction = 0,
     cf_octets = 1200, cf_packets = 2\<rparr>"

definition first_datagram :: bytes where
  "first_datagram = cisco_datagram 1000 100 1 7 256 [sample_flow]"

definition taught_cache :: template_cache where
  "taught_cache = snd (v9_decode first_datagram empty_cache)"

definition second_datagram :: bytes where
  "second_datagram = data_datagram 61000 160 2 7 256 [sample_flow]"

definition taught_clock :: exporter_clock where
  "taught_clock = \<lparr>ec_sys_uptime = 1000, ec_unix_secs = 100, ec_sequence = 1\<rparr>"

lemma taught_cache_eq:
  "taught_cache = \<lparr>tc_templates = [((7, 256), cisco_layout, 1, 100)], tc_exporters = [(7, taught_clock)], tc_tick = 1\<rparr>"
proof -
  have "begin_datagram 7 1000 100 1 empty_cache = ((False, False), empty_cache\<lparr>tc_exporters := [(7, taught_clock)]\<rparr>)"
    by (simp add: begin_datagram_def empty_cache_def taught_clock_def Let_def)
  from cisco_decodes [OF _ _ this, of 256 "[sample_flow]"]
  show ?thesis
    by (simp add: taught_cache_def first_datagram_def cache_insert_def empty_cache_def taught_clock_def MAX_TEMPLATES_def)
qed

lemma second_decodes:
  obtains c' where "v9_decode second_datagram taught_cache = (Inr (decoded_from 7 61000 2 False False 0 [sample_flow]), c')"
proof -
  let ?clock = "\<lparr>ec_sys_uptime = 61000, ec_unix_secs = 160, ec_sequence = 2\<rparr>"
  have "begin_datagram 7 61000 160 2 taught_cache = ((False, False), taught_cache\<lparr>tc_exporters := [(7, ?clock)]\<rparr>)"
    by (simp add: begin_datagram_def taught_cache_eq taught_clock_def sat_sub_def TEMPLATE_TTL_SECONDS_def
        REORDER_UPTIME_TOLERANCE_MS_def)
  note begun = this
  have get: "cache_get (taught_cache\<lparr>tc_exporters := [(7, ?clock)]\<rparr>) 7 256 = Some cisco_layout"
    by (simp add: cache_get_def taught_cache_eq sat_sub_def TEMPLATE_TTL_SECONDS_def)
  from data_decodes [OF _ _ begun get, of "[sample_flow]"] show ?thesis
    using that unfolding second_datagram_def by simp
qed

lemma second_header: "read_header second_datagram = Inr ((61000, 160, 2, 7), set_bytes 256 (data_body [sample_flow]))"
  by (simp add: second_datagram_def read_data_header)

lemma empty_cache_ok: "cache_ok empty_cache"
  by (simp add: cache_ok_def empty_cache_def)

theorem v9_cache_bounded_witness: "cache_ok taught_cache"
  unfolding taught_cache_def by (rule v9_cache_bounded [OF empty_cache_ok])

theorem v9_work_bounded_witness:
  "\<exists>out c'. v9_decode second_datagram taught_cache = (Inr out, c') \<and>
     length (de_records out) + HEADER_LEN \<le> length second_datagram"
proof (rule second_decodes)
  fix c'
  assume d: "v9_decode second_datagram taught_cache = (Inr (decoded_from 7 61000 2 False False 0 [sample_flow]), c')"
  from v9_work_bounded [OF d] d show ?thesis by auto
qed

theorem v9_no_stale_layout_witness:
  "\<exists>fid body t used refreshed. carries (set_bytes 256 (data_body [sample_flow])) fid body \<and>
     ((7, fid), t, used, refreshed) \<in> set (tc_templates taught_cache) \<and> \<not> la_is_options t \<and>
     sat_sub 160 refreshed \<le> TEMPLATE_TTL_SECONDS \<and> decoded_by t body (cisco_record sample_flow)"
proof (rule second_decodes)
  fix c'
  assume d: "v9_decode second_datagram taught_cache = (Inr (decoded_from 7 61000 2 False False 0 [sample_flow]), c')"
  let ?out = "decoded_from 7 61000 2 False False 0 [sample_flow]"
  have "de_templates_learned ?out = 0" "cisco_record sample_flow \<in> set (de_records ?out)"
    by (simp_all add: decoded_from_def)
  from v9_no_stale_layout [OF d this(1) second_header, THEN conjunct2, THEN bspec, OF this(2)] show ?thesis .
qed

theorem v9_reads_what_was_written_witness:
  "\<exists>out. fst (v9_decode (cisco_datagram 1000 100 1 7 256 [sample_flow, sample_flow]) taught_cache) = Inr out \<and>
    de_records out = [cisco_record sample_flow, cisco_record sample_flow]"
  using v9_reads_what_was_written [of 256 "[sample_flow, sample_flow]" 1000 100 1 7 taught_cache] by auto

end
