(* ===== verification/Sflow.thy ===== *)
theory Sflow
  imports Wire
begin

text \<open>
  The sFlow v5 decoder of \<open>src/backend-rust/src/telemetry/flow/sflow.rs\<close>: the XDR reader,
  samples and their records, and the packet headers they carry (Ethernet with up to two VLAN tags,
  IPv4, IPv6, ports). A slice that Rust takes with \<open>get\<close> is an option here.
\<close>

subsection \<open>Errors and the XDR reader\<close>

datatype sflow_error =
    ShortBuffer nat nat
  | UnsupportedSflowVersion u32
  | BadAddressType u32
  | BadXdrPadding
  | TrailingBytes nat

definition read_u32 :: "bytes \<Rightarrow> sflow_error + u32 \<times> bytes" where
  "read_u32 bs = read_uint ShortBuffer 4 bs"

definition xdr_pad :: "nat \<Rightarrow> nat" where
  "xdr_pad n = (4 - n mod 4) mod 4"

definition read_opaque :: "bytes \<Rightarrow> sflow_error + bytes \<times> bytes" where
  "read_opaque bs =
     and_then (read_u32 bs) (\<lambda>(len, bs1).
     and_then (read_bytes ShortBuffer (unat len) bs1) (\<lambda>(body, bs2).
     and_then (read_bytes ShortBuffer (xdr_pad (unat len)) bs2) (\<lambda>(padding, bs3).
     and_then (ensure BadXdrPadding (list_all (\<lambda>b. b = 0) padding)) (\<lambda>_.
       Inr (body, bs3)))))"

lemma read_u32_Inr [res_simps]: "read_u32 bs = Inr (w, rest) \<longleftrightarrow>
    4 \<le> length bs \<and> w = of_nat (be_nat (take 4 bs)) \<and> rest = drop 4 bs"
  by (simp add: read_u32_def res_simps)

lemma read_u32_bytes [wire_simps]: "read_u32 (word_bytes (w :: u32) @ rest) = Inr (w, rest)"
  by (simp add: read_u32_def wire_simps)

lemma read_opaque_shrinks: "read_opaque bs = Inr (body, rest) \<Longrightarrow> length rest + length body + 4 \<le> length bs"
  by (auto simp: read_opaque_def res_simps split: prod.splits)

definition read_address :: "bytes \<Rightarrow> sflow_error + ip_addr \<times> bytes" where
  "read_address bs =
     and_then (read_u32 bs) (\<lambda>(kind, bs1).
       if kind = 1
       then and_then (read_bytes ShortBuffer 4 bs1) (\<lambda>(b, bs2).
              Inr (V4 (Ipv4 (b ! 0) (b ! 1) (b ! 2) (b ! 3)), bs2))
       else if kind = 2
       then and_then (read_bytes ShortBuffer 16 bs1) (\<lambda>(b, bs2). Inr (V6 (Ipv6 b), bs2))
       else Inl (BadAddressType kind))"

subsection \<open>Packet headers\<close>

type_synonym tuple = "ip_addr \<times> ip_addr \<times> u8 \<times> u16 option \<times> u16 option"

text \<open>\<open>be16\<close>: two octets at an offset, if they are there.\<close>

definition be16 :: "bytes \<Rightarrow> nat \<Rightarrow> u16 option" where
  "be16 h off = (if off + 2 \<le> length h then Some (of_nat (be_nat (take 2 (drop off h)))) else None)"

definition l4_ports :: "bytes \<Rightarrow> nat \<Rightarrow> u8 \<Rightarrow> u16 option \<times> u16 option" where
  "l4_ports h off protocol =
     (if protocol \<notin> {6, 17, 132} then (None, None)
      else (case (be16 h off, be16 h (off + 2)) of
              (Some sp, Some dp) \<Rightarrow> (Some sp, Some dp)
            | _ \<Rightarrow> (None, None)))"

definition ipv4_at :: "bytes \<Rightarrow> nat \<Rightarrow> ip_addr" where
  "ipv4_at h i = V4 (Ipv4 (h ! i) (h ! (i + 1)) (h ! (i + 2)) (h ! (i + 3)))"

definition parse_ipv4_header :: "bytes \<Rightarrow> tuple option" where
  "parse_ipv4_header h =
     (if length h < 20 then None
      else let ihl = unat (h ! 0 AND 0x0f) * 4 in
        if ihl < 20 then None
        else Option.bind (be16 h 6) (\<lambda>fragment.
          let (sp, dp) = (if fragment AND 0x1fff = 0 then l4_ports h ihl (h ! 9) else (None, None))
          in Some (ipv4_at h 12, ipv4_at h 16, h ! 9, sp, dp)))"

definition parse_ipv6_header :: "bytes \<Rightarrow> tuple option" where
  "parse_ipv6_header h =
     (if length h < 40 then None
      else let (sp, dp) = l4_ports h 40 (h ! 6)
        in Some (V6 (Ipv6 (take 16 (drop 8 h))), V6 (Ipv6 (take 16 (drop 24 h))), h ! 6, sp, dp))"

text \<open>Up to two VLAN tags are stepped over: the type that remains and where its payload starts.\<close>

fun skip_tags :: "nat \<Rightarrow> bytes \<Rightarrow> u16 \<Rightarrow> nat \<Rightarrow> (u16 \<times> nat) option" where
  "skip_tags 0 h ethertype off = Some (ethertype, off)"
| "skip_tags (Suc n) h ethertype off =
     (if ethertype = 0x8100 \<or> ethertype = 0x88A8
      then Option.bind (be16 h (off + 2)) (\<lambda>inner. skip_tags n h inner (off + 4))
      else Some (ethertype, off))"

definition parse_ethernet :: "bytes \<Rightarrow> tuple option" where
  "parse_ethernet h =
     (if length h < 14 then None
      else Option.bind (be16 h 12) (\<lambda>ethertype.
           Option.bind (skip_tags 2 h ethertype 14) (\<lambda>(ethertype, off).
             if length h < off then None
             else if ethertype = 0x0800 then parse_ipv4_header (drop off h)
             else if ethertype = 0x86DD then parse_ipv6_header (drop off h)
             else None)))"

definition parse_packet :: "u32 \<Rightarrow> bytes \<Rightarrow> tuple option" where
  "parse_packet protocol h =
     (if protocol = 1 then parse_ethernet h
      else if protocol = 11 then parse_ipv4_header h
      else if protocol = 12 then parse_ipv6_header h
      else None)"

text \<open>A sampled header: its protocol, the length of the frame, what was stripped, and its octets.\<close>

definition parse_raw_header :: "bytes \<Rightarrow> flow_record option" where
  "parse_raw_header body =
     (case and_then (read_u32 body) (\<lambda>(protocol, bs1).
           and_then (read_u32 bs1) (\<lambda>(frame_length, bs2).
           and_then (read_u32 bs2) (\<lambda>(_, bs3).
           and_then (read_opaque bs3) (\<lambda>(h, _). Inr (protocol, frame_length, h))))) of
        Inl _ \<Rightarrow> None
      | Inr (protocol, frame_length, h) \<Rightarrow>
          map_option (\<lambda>(src, dst, proto, sp, dp).
            \<lparr>fr_src_addr = src, fr_dst_addr = dst, fr_src_port = sp, fr_dst_port = dp, fr_protocol = proto,
             fr_in_if_index = None, fr_out_if_index = None, fr_src_as = None, fr_dst_as = None,
             fr_direction = None, fr_bytes = Some (ucast frame_length), fr_pkts = Some 1\<rparr>)
            (parse_packet protocol h))"

subsection \<open>Samples\<close>

record sflow_decoded =
  sd_agent_addr :: "ip_addr option"
  sd_sub_agent_id :: u32
  sd_sequence :: u32
  sd_uptime :: u32
  sd_records :: "flow_record list"
  sd_reported_sampling :: "u32 option"
  sd_samples_total :: nat
  sd_samples_skipped :: nat

definition iface :: "u32 \<Rightarrow> u32 option" where
  "iface v =
     (let value = v AND 0x3FFFFFFF in if drop_bit 30 v = 0 \<and> value \<noteq> 0 then Some value else None)"

definition iface_expanded :: "u32 \<Rightarrow> u32 \<Rightarrow> u32 option" where
  "iface_expanded fmt value = (if fmt = 0 \<and> value \<noteq> 0 then Some value else None)"

fun read_words :: "nat \<Rightarrow> bytes \<Rightarrow> sflow_error + u32 list \<times> bytes" where
  "read_words 0 bs = Inr ([], bs)"
| "read_words (Suc n) bs =
     and_then (read_u32 bs) (\<lambda>(w, bs1). and_then (read_words n bs1) (\<lambda>(ws, rest). Inr (w # ws, rest)))"

text \<open>The head of a sample: rate, interfaces and the number of its records. Expanded, it has eleven
  words (sequence, source type and index, rate, pool, drops, two interfaces as format and value,
  number), otherwise eight.\<close>

definition sample_head :: "bool \<Rightarrow> bytes \<Rightarrow> sflow_error + (u32 \<times> u32 option \<times> u32 option \<times> u32) \<times> bytes" where
  "sample_head expanded bs =
     (if expanded
      then and_then (read_words 11 bs) (\<lambda>(w, rest).
             Inr ((w ! 3, iface_expanded (w ! 6) (w ! 7), iface_expanded (w ! 8) (w ! 9), w ! 10), rest))
      else and_then (read_words 8 bs) (\<lambda>(w, rest).
             Inr ((w ! 2, iface (w ! 5), iface (w ! 6), w ! 7), rest)))"

text \<open>The last usable packet header of the records wins.\<close>

fun sample_records ::
    "nat \<Rightarrow> u32 option \<Rightarrow> u32 option \<Rightarrow> flow_record option \<Rightarrow> bytes \<Rightarrow> sflow_error + flow_record option \<times> bytes" where
  "sample_records 0 in_if out_if found bs = Inr (found, bs)"
| "sample_records (Suc n) in_if out_if found bs =
     and_then (ensure (ShortBuffer 8 (length bs)) (8 \<le> length bs)) (\<lambda>_.
     and_then (read_u32 bs) (\<lambda>(fmt, bs1).
     and_then (read_opaque bs1) (\<lambda>(body, bs2).
       sample_records n in_if out_if
         (if fmt = 1
          then (case parse_raw_header body of
                  Some fr \<Rightarrow> Some (fr\<lparr>fr_in_if_index := in_if, fr_out_if_index := out_if\<rparr>)
                | None \<Rightarrow> found)
          else found) bs2)))"

definition skip_sample :: "sflow_decoded \<Rightarrow> sflow_decoded" where
  "skip_sample out = out\<lparr>sd_samples_skipped := sd_samples_skipped out + 1\<rparr>"

definition count_sample :: "sflow_decoded \<Rightarrow> sflow_decoded" where
  "count_sample out = out\<lparr>sd_samples_total := sd_samples_total out + 1\<rparr>"

definition parse_flow_sample :: "bytes \<Rightarrow> bool \<Rightarrow> sflow_decoded \<Rightarrow> sflow_error + sflow_decoded" where
  "parse_flow_sample body expanded out =
     (case sample_head expanded body of
        Inl _ \<Rightarrow> Inr (skip_sample out)
      | Inr ((rate, in_if, out_if, n), rest) \<Rightarrow>
          let out1 = (if 1 \<le> rate then out\<lparr>sd_reported_sampling := Some rate\<rparr> else out) in
          and_then (sample_records (unat n) in_if out_if None rest) (\<lambda>(found, left).
          let out2 = (case found of
                        Some fr \<Rightarrow> out1\<lparr>sd_records := sd_records out1 @ [fr]\<rparr>
                      | None \<Rightarrow> skip_sample out1) in
          and_then (ensure (TrailingBytes (length left)) (left = [])) (\<lambda>_. Inr out2)))"

definition read_sample :: "u32 \<Rightarrow> bytes \<Rightarrow> sflow_decoded \<Rightarrow> sflow_error + sflow_decoded" where
  "read_sample kind body out =
     (if kind = 1 then parse_flow_sample body False out
      else if kind = 3 then parse_flow_sample body True out
      else Inr (skip_sample out))"

fun walk_samples :: "nat \<Rightarrow> bytes \<Rightarrow> sflow_decoded \<Rightarrow> sflow_error + sflow_decoded \<times> bytes" where
  "walk_samples 0 bs out = Inr (out, bs)"
| "walk_samples (Suc n) bs out =
     and_then (ensure (ShortBuffer 8 (length bs)) (8 \<le> length bs)) (\<lambda>_.
     and_then (read_u32 bs) (\<lambda>(kind, bs1).
     and_then (read_opaque bs1) (\<lambda>(body, bs2).
     and_then (read_sample kind body (count_sample out)) (\<lambda>out2. walk_samples n bs2 out2))))"

definition sflow_decode :: "bytes \<Rightarrow> sflow_error + sflow_decoded" where
  "sflow_decode datagram =
     and_then (read_u32 datagram) (\<lambda>(version, bs).
     and_then (ensure (UnsupportedSflowVersion version) (version = 5)) (\<lambda>_.
     and_then (read_address bs) (\<lambda>(agent, bs).
     and_then (read_words 4 bs) (\<lambda>(w, bs).
     and_then (walk_samples (unat (w ! 3)) bs
        \<lparr>sd_agent_addr = Some agent, sd_sub_agent_id = w ! 0, sd_sequence = w ! 1, sd_uptime = w ! 2,
         sd_records = [], sd_reported_sampling = None, sd_samples_total = 0, sd_samples_skipped = 0\<rparr>) (\<lambda>(out, rest).
     and_then (ensure (TrailingBytes (length rest)) (rest = [])) (\<lambda>_. Inr out))))))"

subsection \<open>Accounting\<close>

definition sflow_record_ok :: "flow_record \<Rightarrow> bool" where
  "sflow_record_ok r \<longleftrightarrow> fr_pkts r = Some 1 \<and> fr_direction r = None \<and>
     (fr_src_port r = None \<longleftrightarrow> fr_dst_port r = None) \<and> (fr_src_port r \<noteq> None \<longrightarrow> has_ports r) \<and>
     (\<forall>n. fr_bytes r = Some n \<longrightarrow> unat n < 2 ^ 32)"

lemma l4_ports_cases: "l4_ports h off p = (sp, dp) \<Longrightarrow> (sp = None \<longleftrightarrow> dp = None) \<and> (sp \<noteq> None \<longrightarrow> p \<in> {6, 17, 132})"
  by (auto simp: l4_ports_def split: if_splits option.splits)

lemma parse_packet_ports:
  "parse_packet k h = Some (src, dst, p, sp, dp) \<Longrightarrow> (sp = None \<longleftrightarrow> dp = None) \<and> (sp \<noteq> None \<longrightarrow> p \<in> {6, 17, 132})"
proof -
  have four: "parse_ipv4_header h = Some (src, dst, p, sp, dp) \<Longrightarrow> ?thesis" for h
    by (auto simp: parse_ipv4_header_def Let_def split: if_splits prod.splits bind_splits dest!: l4_ports_cases)
  have six: "parse_ipv6_header h = Some (src, dst, p, sp, dp) \<Longrightarrow> ?thesis" for h
    by (auto simp: parse_ipv6_header_def Let_def split: if_splits prod.splits dest!: l4_ports_cases)
  assume "parse_packet k h = Some (src, dst, p, sp, dp)"
  with four six show ?thesis
    by (auto simp: parse_packet_def parse_ethernet_def split: if_splits bind_splits prod.splits)
qed

lemma u32_bound: "unat (w :: u32) < 4294967296"
  using unsigned_less [of w] by simp

lemma parse_raw_header_ok: "parse_raw_header body = Some r \<Longrightarrow> sflow_record_ok r"
  by (auto simp: parse_raw_header_def sflow_record_ok_def has_ports_def unat_ucast_wider u32_bound split: sum.splits
      dest: parse_packet_ports)

lemma sample_records_ok:
  "sample_records n in_if out_if found bs = Inr (found', rest) \<Longrightarrow> pred_option sflow_record_ok found \<Longrightarrow>
   pred_option sflow_record_ok found'"
proof (induction n arbitrary: found bs)
  case (Suc n)
  then obtain fmt :: u32 and body bs2 where
    s: "sample_records n in_if out_if (if fmt = 1 then (case parse_raw_header body of
        Some fr \<Rightarrow> Some (fr\<lparr>fr_in_if_index := in_if, fr_out_if_index := out_if\<rparr>) | None \<Rightarrow> found) else found) bs2 =
      Inr (found', rest)"
    by (auto simp: res_simps split: prod.splits)
  from parse_raw_header_ok [of body] have "parse_raw_header body = Some fr \<Longrightarrow>
      sflow_record_ok (fr\<lparr>fr_in_if_index := in_if, fr_out_if_index := out_if\<rparr>)" for fr
    by (auto simp: sflow_record_ok_def has_ports_def)
  with Suc.prems(2) show ?case by (intro Suc.IH [OF s]) (auto split: option.split)
qed simp

definition accounted :: "sflow_decoded \<Rightarrow> bool" where
  "accounted out \<longleftrightarrow> length (sd_records out) + sd_samples_skipped out = sd_samples_total out \<and>
     list_all sflow_record_ok (sd_records out)"

lemma skip_counted: "accounted out \<Longrightarrow> accounted (skip_sample (count_sample out))"
  by (simp add: accounted_def skip_sample_def count_sample_def)

lemma count_total [simp]: "sd_samples_total (count_sample out) = sd_samples_total out + 1"
  by (simp add: count_sample_def)

lemma skip_total [simp]: "sd_samples_total (skip_sample out) = sd_samples_total out"
  by (simp add: skip_sample_def)

lemma flow_sample_accounted:
  assumes "parse_flow_sample body expanded (count_sample out) = Inr out'" "accounted out"
  shows "accounted out' \<and> sd_samples_total out' = sd_samples_total out + 1"
proof (cases "sample_head expanded body")
  case (Inl e)
  with assms skip_counted show ?thesis by (auto simp: parse_flow_sample_def count_sample_def)
next
  case (Inr h)
  then obtain rate in_if out_if n rest where h: "sample_head expanded body = Inr ((rate, in_if, out_if, n), rest)"
    by (metis prod.collapse)
  with assms(1) obtain found left where s: "sample_records (unat n) in_if out_if None rest = Inr (found, left)"
    by (auto simp: parse_flow_sample_def res_simps Let_def split: prod.splits)
  from sample_records_ok [OF s] have "pred_option sflow_record_ok found" by simp
  with assms h s show ?thesis
    by (auto simp: parse_flow_sample_def res_simps Let_def accounted_def count_sample_def skip_sample_def
        split: option.splits if_splits)
qed

lemma walk_accounted:
  "walk_samples n bs out = Inr (out', rest) \<Longrightarrow> accounted out \<Longrightarrow>
   accounted out' \<and> sd_samples_total out' = sd_samples_total out + n \<and> 8 * n + length rest \<le> length bs"
proof (induction n arbitrary: bs out)
  case (Suc n)
  from Suc.prems(1) obtain kind :: u32 and bs1 body bs2 out2 where b: "4 \<le> length bs" "bs1 = drop 4 bs" "read_opaque bs1 = Inr (body, bs2)"
    and s: "read_sample kind body (count_sample out) = Inr out2"
    and w: "walk_samples n bs2 out2 = Inr (out', rest)"
    by (auto simp: res_simps split: prod.splits)
  have "accounted out2 \<and> sd_samples_total out2 = sd_samples_total out + 1"
    using s flow_sample_accounted Suc.prems(2) skip_counted by (auto simp: read_sample_def split: if_splits)
  with Suc.IH [OF w] read_opaque_shrinks [OF b(3)] b(1,2) show ?case by auto
qed simp

lemma read_address_length: "read_address bs = Inr (a, rest) \<Longrightarrow> length rest + 8 \<le> length bs"
  by (auto simp: read_address_def res_simps split: if_splits prod.splits)

lemma read_words_length: "read_words n bs = Inr (ws, rest) \<Longrightarrow> length bs = 4 * n + length rest \<and> length ws = n"
  by (induction n arbitrary: bs ws) (fastforce simp: res_simps split: prod.splits)+

text \<open>A datagram that decodes declared exactly the samples it holds: every sample is a record or counted
  as skipped, the datagram spends at least eight octets on each, and a record stands for one packet,
  with ports only for the transports that have them.\<close>

theorem sflow_accounting:
  assumes "sflow_decode datagram = Inr out"
  shows "length (sd_records out) + sd_samples_skipped out = sd_samples_total out \<and>
    8 * sd_samples_total out + 28 \<le> length datagram \<and> list_all sflow_record_ok (sd_records out)"
proof -
  obtain agent bs1 w bs2 rest out0 where d: "4 \<le> length datagram" "read_address (drop 4 datagram) = Inr (agent, bs1)"
    "read_words 4 bs1 = Inr (w, bs2)" and s: "walk_samples (unat (w ! 3)) bs2 out0 = Inr (out, rest)"
    and out0: "sd_records out0 = []" "sd_samples_total out0 = 0" "sd_samples_skipped out0 = 0"
    using assms by (auto simp: sflow_decode_def res_simps split: prod.splits)
  have "accounted out0" by (simp add: accounted_def out0)
  from walk_accounted [OF s this] read_address_length [OF d(2)] read_words_length [OF d(3)] d(1) out0
  show ?thesis by (auto simp: accounted_def)
qed

subsection \<open>Sampled packets are read as they were written\<close>

definition xdr_opaque :: "bytes \<Rightarrow> bytes" where
  "xdr_opaque bs = word_bytes (of_nat (length bs) :: u32) @ bs @ replicate (xdr_pad (length bs)) 0"

lemma read_opaque_bytes [wire_simps]: "length bs < 2 ^ 32 \<Longrightarrow> read_opaque (xdr_opaque bs @ rest) = Inr (bs, rest)"
  by (simp add: read_opaque_def xdr_opaque_def wire_simps read_bytes_def ensure_def unat_of_nat list_all_iff)

lemma length_xdr_opaque: "length (xdr_opaque bs) = 4 + length bs + xdr_pad (length bs)"
  by (simp add: xdr_opaque_def)

lemma xdr_pad_less: "xdr_pad n < 4"
  by (simp add: xdr_pad_def)

text \<open>A UDP packet over IPv4, behind Ethernet and at most two VLAN tags.\<close>

record udp_packet =
  up_tags :: "u16 list"
  up_src :: ipv4
  up_dst :: ipv4
  up_sport :: u16
  up_dport :: u16
  up_payload :: bytes

definition vlan_bytes :: "u16 list \<Rightarrow> bytes" where
  "vlan_bytes tags = concat (map (\<lambda>tci. word_bytes (0x8100 :: u16) @ word_bytes tci) tags)"

definition packet_bytes :: "udp_packet \<Rightarrow> bytes" where
  "packet_bytes p =
     replicate 12 0 @ vlan_bytes (up_tags p) @ word_bytes (0x0800 :: u16) @
     [0x45, 0, 0, 0, 0, 0, 0, 0, 64, 17, 0, 0] @ octets4 (up_src p) @ octets4 (up_dst p) @
     word_bytes (up_sport p) @ word_bytes (up_dport p) @ up_payload p"

definition packet_tuple :: "udp_packet \<Rightarrow> tuple" where
  "packet_tuple p = (V4 (up_src p), V4 (up_dst p), 17, Some (up_sport p), Some (up_dport p))"

text \<open>A cursor over octets: what is read at an offset that is the length of what came before.\<close>

lemma be16_at: "off = length h \<Longrightarrow> bs = h @ word_bytes (w :: u16) @ rest \<Longrightarrow> be16 bs off = Some w"
  by (simp add: be16_def be_nat_word_bytes)

definition udp_ip :: "udp_packet \<Rightarrow> bytes" where
  "udp_ip p = [0x45, 0, 0, 0, 0, 0, 0, 0, 64, 17, 0, 0] @ octets4 (up_src p) @ octets4 (up_dst p) @
     word_bytes (up_sport p) @ word_bytes (up_dport p) @ up_payload p"

lemma octets4_nth: "octets4 (Ipv4 a b c d) = [a, b, c, d]"
  by simp

lemma parse_udp_ip: "parse_ipv4_header (udp_ip p) = Some (packet_tuple p)"
proof -
  obtain a b c d a' b' c' d' where ips: "up_src p = Ipv4 a b c d" "up_dst p = Ipv4 a' b' c' d'"
    by (metis ipv4.exhaust)
  let ?head = "[0x45, 0, 0, 0, 0, 0, 0, 0, 64, 17, 0, 0, a, b, c, d, a', b', c', d'] :: bytes"
  have eq: "udp_ip p = ?head @ word_bytes (up_sport p) @ word_bytes (up_dport p) @ up_payload p"
    by (simp add: udp_ip_def ips)
  have ports: "be16 (udp_ip p) 20 = Some (up_sport p)"
    by (rule be16_at [of _ ?head]) (simp, rule eq)
  moreover have "be16 (udp_ip p) 22 = Some (up_dport p)"
    by (rule be16_at [of _ "?head @ word_bytes (up_sport p)"]) (simp, simp only: eq append_assoc)
  moreover have "be16 (udp_ip p) 6 = Some 0" by (simp add: be16_def eq be_nat_def)
  moreover have "udp_ip p ! 0 = 0x45" "udp_ip p ! 9 = 17" "ipv4_at (udp_ip p) 12 = V4 (up_src p)"
    "ipv4_at (udp_ip p) 16 = V4 (up_dst p)" "\<not> length (udp_ip p) < 20"
    by (simp_all add: eq ipv4_at_def ips)
  ultimately show ?thesis by (simp add: parse_ipv4_header_def l4_ports_def packet_tuple_def)
qed

lemma packet_bytes_ip: "packet_bytes p = replicate 12 0 @ vlan_bytes (up_tags p) @ word_bytes (0x0800 :: u16) @ udp_ip p"
  by (simp add: packet_bytes_def udp_ip_def)

lemma skip_tags_here:
  "length tags \<le> n \<Longrightarrow> off = length h + 2 \<Longrightarrow> bs = h @ vlan_bytes tags @ word_bytes (0x0800 :: u16) @ ip \<Longrightarrow>
   Option.bind (be16 bs (length h)) (\<lambda>t. skip_tags n bs t off) = Some (0x0800, off + 4 * length tags)"
proof (induction tags arbitrary: n h off)
  case Nil
  from be16_at [of "length h" h bs "0x0800" ip] Nil show ?case by (cases n) (simp_all add: vlan_bytes_def)
next
  case (Cons a tags)
  then obtain m where n: "n = Suc m" by (cases n) auto
  let ?h = "h @ word_bytes (0x8100 :: u16) @ word_bytes a"
  have bs: "bs = ?h @ vlan_bytes tags @ word_bytes (0x0800 :: u16) @ ip" using Cons.prems(3) by (simp add: vlan_bytes_def)
  have t: "be16 bs (length h) = Some 0x8100"
    by (rule be16_at [of _ h _ _ "word_bytes a @ vlan_bytes tags @ word_bytes (0x0800 :: u16) @ ip"])
      (simp_all add: Cons.prems(3) vlan_bytes_def)
  have "Option.bind (be16 bs (length ?h)) (\<lambda>t. skip_tags m bs t (length ?h + 2)) = Some (0x0800, length ?h + 2 + 4 * length tags)"
    by (rule Cons.IH [OF _ refl bs]) (use Cons.prems(1) n in simp)
  with t n Cons.prems(2) show ?case by (simp add: ac_simps del: add_2_eq_Suc add_2_eq_Suc')
qed

lemma length_vlan_bytes [simp]: "length (vlan_bytes tags) = 4 * length tags"
  by (induction tags) (simp_all add: vlan_bytes_def)

lemma parse_udp_packet:
  assumes "length (up_tags p) \<le> 2"
  shows "parse_ethernet (packet_bytes p) = Some (packet_tuple p)"
proof -
  have "Option.bind (be16 (packet_bytes p) 12) (\<lambda>t. skip_tags 2 (packet_bytes p) t 14) =
      Some (0x0800, 14 + 4 * length (up_tags p))"
    using skip_tags_here [OF assms _ packet_bytes_ip, of 14] by simp
  moreover have "drop (14 + 4 * length (up_tags p)) (packet_bytes p) = udp_ip p"
    by (simp add: packet_bytes_ip)
  moreover have "14 + 4 * length (up_tags p) \<le> length (packet_bytes p)"
    by (simp add: packet_bytes_ip)
  ultimately show ?thesis using parse_udp_ip
    by (auto simp: parse_ethernet_def split: bind_splits)
qed

text \<open>One sample per packet, as a switch sends them: rate, input and output interface, and the packet.\<close>

record packet_sample =
  ps_rate :: u32
  ps_input :: u32
  ps_output :: u32
  ps_packet :: udp_packet

definition words_bytes :: "u32 list \<Rightarrow> bytes" where
  "words_bytes ws = concat (map word_bytes ws)"

lemma read_words_bytes: "n = length ws \<Longrightarrow> read_words n (words_bytes ws @ rest) = Inr (ws, rest)"
  by (induction ws arbitrary: n) (simp_all add: words_bytes_def wire_simps)

definition raw_header_bytes :: "udp_packet \<Rightarrow> bytes" where
  "raw_header_bytes p = words_bytes [1, of_nat (length (packet_bytes p)), 0] @ xdr_opaque (packet_bytes p)"

definition sample_bytes :: "packet_sample \<Rightarrow> bytes" where
  "sample_bytes s =
     words_bytes [0, 0, ps_rate s, 0, 0, ps_input s, ps_output s, 1] @
     word_bytes (1 :: u32) @ xdr_opaque (raw_header_bytes (ps_packet s))"

definition samples_bytes :: "packet_sample list \<Rightarrow> bytes" where
  "samples_bytes ss = concat (map (\<lambda>s. word_bytes (1 :: u32) @ xdr_opaque (sample_bytes s)) ss)"

definition sflow_datagram :: "ipv4 \<Rightarrow> u32 \<Rightarrow> u32 \<Rightarrow> u32 \<Rightarrow> packet_sample list \<Rightarrow> bytes" where
  "sflow_datagram agent sub seq uptime ss =
     word_bytes (5 :: u32) @ word_bytes (1 :: u32) @ octets4 agent @
     words_bytes [sub, seq, uptime, of_nat (length ss)] @ samples_bytes ss"

definition sampled_record :: "packet_sample \<Rightarrow> flow_record" where
  "sampled_record s =
     (let p = ps_packet s in
      \<lparr>fr_src_addr = V4 (up_src p), fr_dst_addr = V4 (up_dst p), fr_src_port = Some (up_sport p),
       fr_dst_port = Some (up_dport p), fr_protocol = 17, fr_in_if_index = iface (ps_input s),
       fr_out_if_index = iface (ps_output s), fr_src_as = None, fr_dst_as = None, fr_direction = None,
       fr_bytes = Some (of_nat (length (packet_bytes p))), fr_pkts = Some 1\<rparr>)"

text \<open>A packet that fits a UDP datagram.\<close>

definition sendable :: "packet_sample \<Rightarrow> bool" where
  "sendable s \<longleftrightarrow> length (up_tags (ps_packet s)) \<le> 2 \<and> length (packet_bytes (ps_packet s)) < 65536 \<and> ps_rate s \<noteq> 0"

lemma raw_header_read:
  assumes "length (up_tags p) \<le> 2" "length (packet_bytes p) < 65536"
  shows "parse_raw_header (raw_header_bytes p) =
    Some \<lparr>fr_src_addr = V4 (up_src p), fr_dst_addr = V4 (up_dst p), fr_src_port = Some (up_sport p),
       fr_dst_port = Some (up_dport p), fr_protocol = 17, fr_in_if_index = None,
       fr_out_if_index = None, fr_src_as = None, fr_dst_as = None, fr_direction = None,
       fr_bytes = Some (of_nat (length (packet_bytes p))), fr_pkts = Some 1\<rparr>"
proof -
  have "read_opaque (xdr_opaque (packet_bytes p)) = Inr (packet_bytes p, [])"
    using read_opaque_bytes [of "packet_bytes p" "[]"] assms(2) by simp
  moreover have "unat (of_nat (length (packet_bytes p)) :: u32) = length (packet_bytes p)"
    using assms(2) by (subst unat_of_nat) simp
  then have "(ucast (of_nat (length (packet_bytes p)) :: u32) :: u64) = of_nat (length (packet_bytes p))"
    using assms(2) by (simp add: word_unat_eq_iff unat_ucast_wider unat_of_nat)
  ultimately show ?thesis using parse_udp_packet [OF assms(1)]
    by (simp add: parse_raw_header_def raw_header_bytes_def words_bytes_def wire_simps parse_packet_def packet_tuple_def)
qed

lemma length_raw_header: "length (raw_header_bytes p) \<le> length (packet_bytes p) + 20"
  using xdr_pad_less [of "length (packet_bytes p)"]
  by (simp add: raw_header_bytes_def words_bytes_def length_xdr_opaque)

lemma length_sample: "length (sample_bytes s) \<le> length (packet_bytes (ps_packet s)) + 64"
  using xdr_pad_less [of "length (raw_header_bytes (ps_packet s))"] length_raw_header [of "ps_packet s"]
  by (simp add: sample_bytes_def words_bytes_def length_xdr_opaque)

lemma sample_read:
  assumes "sendable s"
  shows "parse_flow_sample (sample_bytes s) False out =
    Inr (out\<lparr>sd_reported_sampling := Some (ps_rate s), sd_records := sd_records out @ [sampled_record s]\<rparr>)"
proof -
  let ?words = "[0, 0, ps_rate s, 0, 0, ps_input s, ps_output s, 1]"
  let ?raw = "raw_header_bytes (ps_packet s)"
  have raw: "length ?raw < 2 ^ 32" using length_raw_header [of "ps_packet s"] assms by (simp add: sendable_def)
  have "read_words 8 (words_bytes ?words @ rest) = Inr (?words, rest)" for rest
    by (rule read_words_bytes) simp
  then have "sample_head False (sample_bytes s) =
      Inr ((ps_rate s, iface (ps_input s), iface (ps_output s), 1), word_bytes (1 :: u32) @ xdr_opaque ?raw)"
    by (simp add: sample_head_def sample_bytes_def)
  moreover have "read_opaque (xdr_opaque ?raw) = Inr (?raw, [])" using read_opaque_bytes [OF raw, of "[]"] by simp
  then have "sample_records (Suc 0) in_if out_if None (word_bytes (1 :: u32) @ xdr_opaque ?raw) =
      Inr (Some ((the (parse_raw_header ?raw))\<lparr>fr_in_if_index := in_if, fr_out_if_index := out_if\<rparr>), [])" for in_if out_if
    using assms raw_header_read [of "ps_packet s"]
    by (simp add: sendable_def wire_simps ensure_def length_xdr_opaque)
  moreover have "1 \<le> ps_rate s" using assms by (simp add: sendable_def word_ge_1 unat_gt_0)
  ultimately show ?thesis using raw_header_read [of "ps_packet s"] assms
    by (simp add: parse_flow_sample_def ensure_def sendable_def sampled_record_def Let_def del: sample_records.simps)
qed

lemma walk_read:
  "list_all sendable ss \<Longrightarrow>
   \<exists>out'. walk_samples (length ss) (samples_bytes ss @ rest) out = Inr (out', rest) \<and>
     sd_records out' = sd_records out @ map sampled_record ss \<and> sd_agent_addr out' = sd_agent_addr out \<and>
     sd_samples_skipped out' = sd_samples_skipped out"
proof (induction ss arbitrary: out)
  case (Cons s ss)
  then have s: "sendable s" and all: "list_all sendable ss" by auto
  have "length (sample_bytes s) < 2 ^ 32" using length_sample [of s] s by (simp add: sendable_def)
  note opaque = read_opaque_bytes [OF this]
  define out1 where "out1 = (count_sample out)\<lparr>sd_reported_sampling := Some (ps_rate s),
      sd_records := sd_records (count_sample out) @ [sampled_record s]\<rparr>"
  have "read_sample 1 (sample_bytes s) (count_sample out) = Inr out1"
    using sample_read [OF s] by (simp add: read_sample_def out1_def)
  then have "walk_samples (length (s # ss)) (samples_bytes (s # ss) @ rest) out =
      walk_samples (length ss) (samples_bytes ss @ rest) out1"
    using opaque [of "samples_bytes ss @ rest"]
    by (simp add: samples_bytes_def wire_simps ensure_def length_xdr_opaque)
  moreover have "sd_records out1 = sd_records out @ [sampled_record s]" "sd_agent_addr out1 = sd_agent_addr out"
    "sd_samples_skipped out1 = sd_samples_skipped out"
    by (simp_all add: out1_def count_sample_def)
  ultimately show ?case using Cons.IH [OF all, of out1] by simp
qed (simp add: samples_bytes_def)

text \<open>A datagram that samples UDP packets behind at most two VLAN tags is decoded to exactly their
  addresses, ports, interfaces and lengths, and no sample is skipped.\<close>

theorem sflow_reads_what_was_written:
  assumes "list_all sendable ss" and "length ss < 2 ^ 32"
  shows "\<exists>out. sflow_decode (sflow_datagram agent sub seq uptime ss) = Inr out \<and>
    sd_records out = map sampled_record ss \<and> sd_agent_addr out = Some (V4 agent) \<and> sd_samples_skipped out = 0"
proof -
  let ?w = "[sub, seq, uptime, of_nat (length ss)] :: u32 list"
  have n: "unat (of_nat (length ss) :: u32) = length ss" using assms(2) by (subst unat_of_nat) simp
  have "read_address (word_bytes (1 :: u32) @ octets4 agent @ rest) = Inr (V4 agent, rest)" for rest
    by (cases agent) (simp add: read_address_def wire_simps read_bytes_def)
  moreover have "read_words 4 (words_bytes ?w @ rest) = Inr (?w, rest)" for rest
    by (rule read_words_bytes) simp
  moreover obtain out where "walk_samples (length ss) (samples_bytes ss)
      \<lparr>sd_agent_addr = Some (V4 agent), sd_sub_agent_id = sub, sd_sequence = seq, sd_uptime = uptime,
       sd_records = [], sd_reported_sampling = None, sd_samples_total = 0, sd_samples_skipped = 0\<rparr> = Inr (out, [])"
    "sd_records out = map sampled_record ss" "sd_agent_addr out = Some (V4 agent)" "sd_samples_skipped out = 0"
    using walk_read [OF assms(1), of "[]"] by fastforce
  ultimately show ?thesis using n
    by (simp add: sflow_decode_def sflow_datagram_def wire_simps ensure_def)
qed

subsection \<open>A datagram of one sample\<close>

definition sample_packet :: udp_packet where
  "sample_packet = \<lparr>up_tags = [100], up_src = Ipv4 10 0 0 1, up_dst = Ipv4 10 0 1 2, up_sport = 53,
     up_dport = 4000, up_payload = [1, 2, 3]\<rparr>"

definition one_sample :: packet_sample where
  "one_sample = \<lparr>ps_rate = 512, ps_input = 3, ps_output = 4, ps_packet = sample_packet\<rparr>"

lemma one_sample_sendable: "sendable one_sample"
  by (simp add: sendable_def one_sample_def sample_packet_def packet_bytes_def)

definition sample_datagram :: bytes where
  "sample_datagram = sflow_datagram (Ipv4 192 0 2 1) 0 9 1000 [one_sample]"

theorem sflow_reads_what_was_written_witness:
  "\<exists>out. sflow_decode sample_datagram = Inr out \<and> sd_records out = [sampled_record one_sample]"
  using sflow_reads_what_was_written [of "[one_sample]" "Ipv4 192 0 2 1" 0 9 1000] one_sample_sendable
  by (auto simp: sample_datagram_def)

text \<open>No sample at all is the least a datagram can hold.\<close>

definition quiet_datagram :: bytes where
  "quiet_datagram = [0, 0, 0, 5, 0, 0, 0, 1, 192, 0, 2, 1, 0, 0, 0, 0, 0, 0, 0, 9, 0, 0, 3, 232, 0, 0, 0, 1,
     0, 0, 0, 2, 0, 0, 0, 4, 1, 2, 3, 4]"

lemma quiet_decodes: "case sflow_decode quiet_datagram of Inr out \<Rightarrow> sd_samples_skipped out = 1 | _ \<Rightarrow> False"
  by code_simp

theorem sflow_accounting_witness:
  "\<exists>out. sflow_decode quiet_datagram = Inr out \<and>
     length (sd_records out) + sd_samples_skipped out = sd_samples_total out"
proof -
  obtain out where d: "sflow_decode quiet_datagram = Inr out" using quiet_decodes by (auto split: sum.splits)
  from sflow_accounting [OF d] d show ?thesis by blast
qed

end
