(* ===== verification/Spec2Isabelle.thy ===== *)
theory Spec2Isabelle
  imports Detection Wake Consumers Device_Config Netflow_V9 Sflow
begin

text \<open>
  Verification library of the Rerouter controller (\<open>src/backend-rust/src\<close>; file names
  below are relative to it).

  \<^bold>\<open>The program.\<close> Rerouter watches routers by SNMP and by flow export, evaluates rules on what it
  sees, and changes routers over SSH: prefix-lists, static routes, neighbors, interfaces. Every change
  is prepared against the live router, authorised, admitted against locks, windows, cooldowns and a
  rate budget, recorded before it is sent, verified after, and undone by a recovery that owns it. What
  may go wrong between two of these steps (a failing query, a crash, a silent router, a foreign
  operator) is in the model; the claims are about what is true then.

  \<^bold>\<open>Parts and interaction.\<close> The flow decoders feed a collector that marks interfaces in the wake
  queue; the detection engine evaluates the rules of these interfaces, publishes a firing edge with a
  planned bundle, and publishes a recovery when the condition is gone. A bundle is a ledger of prepared
  actions; the executor runs each through authority, guard, reservation and the state machine, which
  drives an SSH session behind the command gate. A recovery claims the sources it undoes and settles
  them. At startup, stuck reroutes are quarantined and open bundles are closed. All of it meets in
  the tables of MySQL, which the model holds in the record \<open>database\<close>.

  \<^bold>\<open>Theories.\<close>
  \<^item> \<open>Prelude\<close>, \<open>Rust_Text\<close>, \<open>Ordered_Map\<close>, \<open>Json\<close>, \<open>F64\<close>: words and their saturating arithmetic,
    errors as sums, the operations of \<open>str\<close>, the two maps of Rust behind the contract \<open>map_store\<close>, the
    values of serde_json, and doubles.
  \<^item> \<open>Cidr\<close>, \<open>Prefix_List\<close>, \<open>Templates\<close> (\<open>reroute/templates.rs\<close>, \<open>reroute/prefix_list.rs\<close>): containment of networks,
    the reading of an IOS prefix-list and the choice of sequence numbers, validation and
    rendering of a template.
  \<^item> \<open>Device_State\<close>, \<open>Evidence\<close>, \<open>Device_Config\<close>, \<open>Projection\<close>, \<open>Policy_Inventory\<close>, \<open>Live_State\<close>
    (\<open>reroute/device_plan.rs\<close>, \<open>policy.rs\<close>, \<open>projection.rs\<close>): typed snapshots of a router, the safety class of an export
    policy change, the evidence that router output gives, the projection of a set of
    actions, and the execution of a prepared action between two comparisons with the live router.
  \<^item> \<open>Redaction\<close>, \<open>Ssh_Gate\<close>, \<open>Ssh_Session\<close>, \<open>Consumers\<close>, \<open>Reachability\<close> (\<open>ssh/mod.rs\<close>, \<open>reroute/reachability.rs\<close>): redaction of
    device output, the allowlist of commands and the plan under the configuration lock, one
    session, the proof that a peer is the only consumer of a list, the reachability of a device. The line
    to the router is a parameter (\<open>line\<close>); \<open>ios_step\<close> is the documented behaviour of the parser of
    the router, used to state that the rewritten plan has the effect of the original. The
    trailing \<open>exit\<close> with which a session is closed is left out: its answer is not read.
  \<^item> \<open>Database\<close>, \<open>Locks\<close>, \<open>Guard\<close>, \<open>Reservation\<close> (\<open>reroute/locks.rs\<close>, \<open>guard.rs\<close>, \<open>detection/cooldown.rs\<close>): the
    tables, administrative locks and change windows, the gates, and the admission of bundles and
    reroutes against the rate budget.
  \<^item> \<open>Verdicts\<close>, \<open>Execution\<close>, \<open>Outcomes\<close>, \<open>Authorization\<close>, \<open>Executor\<close> (\<open>reroute/executor.rs\<close>): the judgement of a
    verification, \<open>run_state_machine\<close>, what it leaves behind, the six kinds of authority, and
    \<open>execute_with_inner\<close>.
  \<^item> \<open>Startup\<close> (\<open>reroute/state_machine.rs\<close>), \<open>Recovery\<close>, \<open>Settlement\<close> (\<open>reroute/recovery.rs\<close>), \<open>Closing\<close>
    (\<open>reroute/bundle.rs\<close>): stuck reroutes and their reconciliation, ownership and claims, the
    settlement of a recovery child, the ledger of a bundle and its end.
  \<^item> \<open>Wake\<close>, \<open>Observation\<close>, \<open>Detection\<close> (\<open>detection/wake.rs\<close>, \<open>condition.rs\<close>, \<open>engine.rs\<close>, \<open>telemetry/flow/quality.rs\<close>): the wake
    queue and the loop that drains it, the readings of a rule, and its state machine.
  \<^item> \<open>Wire\<close>, \<open>Netflow_V9\<close>, \<open>Sflow\<close> (\<open>telemetry/flow\<close>): the two flow decoders.

  \<^bold>\<open>How code becomes HOL.\<close> A function keeps its name; a closure, a match arm or a query that is a step of its
  own has a definition of its own. \<open>Result\<close> is a sum with the error on the left, and the question
  mark is \<open>and_then\<close>. Words keep their width. A table is the list of its rows; a query is a filter or an update, and
  \<open>faults\<close> says which queries of a call fail and how. A transaction that fails leaves the database
  of its start, separate statements leave what they did so far. The clock is a function of the
  query, so two reads of it may differ. Methods that hold a mutex and calls under an advisory lock are one
  step.

  \<^bold>\<open>Interfaces.\<close> \<open>map_store\<close> is the contract of both maps, \<open>keyed_store\<close> that of the projected states,
  \<open>trailing_transport\<close> and its extension \<open>honest_transport\<close> state what the state machine relies on in an SSH
  transport, and \<open>cache_invariant\<close> what every property of a template cache needs. Each is
  interpreted on the definitions of the model, \<open>honest_transport\<close> on the executor over locked sessions.

  \<^bold>\<open>What the lemmas show.\<close>
  \<^item> Execution: a router changes only after every gate, the push is recorded first, an outcome equals its
    row, an uncertain one locks the device, success is verified, a refused or aborted run sends nothing, a
    preview changes nothing.
  \<^item> Admission: the guard is sound under failing reads, windows and claims exclude others, budgets
    hold although their arithmetic saturates, an action on a protected interface runs only if it
    corrects it.
  \<^item> Recovery: ownership is exact, a timer acts only with consent and when due, restored is said only
    when proven, a doubt releases nothing; startup quarantines every stuck reroute, closes every
    bundle and keeps the devices of an interrupted one.
  \<^item> Text and bytes: redaction does not depend on secrets, commands stay within an alphabet,
    rendering adds no whitespace, the sequence plan of a prefix-list puts the permit where it decides
    and takes it back, datagrams are read as they were written and through fresh layouts only.
  \<^item> Detection: a rule acts only with every consent, an owned change is never forgotten, the same
    evidence counts once, a pass evaluates every rule; the wake loop comes to rest.

  \<^bold>\<open>Termination.\<close> Functions over bytes and text recurse on what is left of it, with a measure where that is not
  structural. \<open>wait_and_take\<close> may sleep for ever and is a \<open>partial_function\<close>; the loop around
  it runs over the list of the outcomes of its evaluations and is proved to come to rest after two
  that succeed. No definition needs fuel.

  \<^bold>\<open>Parameters.\<close> The collation of MySQL (\<open>same\<close>), its cast of JSON to a number and
  \<open>JSON_CONTAINS\<close>, clocks, generated tokens, the rendering of instants and of errors, serde's text of an inverse, the
  inventory behind the parameters of a preview (it only reads), the probe of a device and the line to it.
  A query with \<open>LIMIT 1\<close> and no order takes the first row of the order that the model names.

  \<^bold>\<open>Not modelled.\<close> The HTTP API and its sessions, alert delivery, the SNMP poller, the aggregation of flow
  records into buckets, configuration and installation: they surround the engine and meet it in the
  tables. The runner of a bundle and the workers that prepare automatic actions: they call the
  modelled operations in turn, over a live router. Planning of a new action against a live router
  (the larger part of \<open>device_plan.rs\<close>). Payloads of alerts and log lines: nothing reads them back.
\<close>

end
